(* ===== verification/Prelude.thy ===== *)
theory Prelude
  imports Main "HOL-Library.AList" "HOL-Library.Char_ord" "HOL-Library.List_Lexorder"
    "HOL-Library.Sublist" "HOL-Library.Multiset"
begin

text \<open>
  Shared vocabulary of the development: errors as sums, the JavaScript string and collection
  operations the sources use, and the JSON values that agents send.

  \<^item> A throwing function returns \<open>error + 'a\<close>; \<open>res_bind\<close> sequences two of them and stops at the
    first \<open>Inl\<close>, \<open>traverse\<close> is \<open>Array.map\<close> with a throwing callback.
  \<^item> A JavaScript string is a list of code units. The model's strings are lists of \<open>char\<close>, that is
    of the code units below 256; \<open>toLowerCase\<close> and \<open>trim\<close> are exact on that range.
  \<^item> A \<open>Map\<close> is an association list in insertion order: \<open>map_of\<close> is \<open>get\<close>, \<open>AList.update\<close> is
    \<open>set\<close> (a present key keeps its place, a new one goes last) and \<open>AList.delete\<close> is \<open>delete\<close>. A
    \<open>Set\<close> is a list in insertion order with \<open>set_add\<close> and \<open>set_remove\<close>.
\<close>

section \<open>Hint collections\<close>

named_theorems res_iff \<open>what a successful sequence of throwing steps means\<close>
named_theorems js_map \<open>facts on insertion-ordered maps and sets\<close>

section \<open>Errors as values\<close>

primrec res_bind :: "'e + 'a \<Rightarrow> ('a \<Rightarrow> 'e + 'b) \<Rightarrow> 'e + 'b" where
  "res_bind (Inl e) f = Inl e"
| "res_bind (Inr x) f = f x"

primrec res_map :: "('a \<Rightarrow> 'b) \<Rightarrow> 'e + 'a \<Rightarrow> 'e + 'b" where
  "res_map f (Inl e) = Inl e"
| "res_map f (Inr x) = Inr (f x)"

definition throw_if :: "bool \<Rightarrow> 'e \<Rightarrow> 'e + unit" where
  "throw_if b e = (if b then Inl e else Inr ())"

fun traverse :: "('a \<Rightarrow> 'e + 'b) \<Rightarrow> 'a list \<Rightarrow> 'e + 'b list" where
  "traverse f [] = Inr []"
| "traverse f (x # xs) = res_bind (f x) (\<lambda>y. res_map (\<lambda>ys. y # ys) (traverse f xs))"

fun check_all :: "('a \<Rightarrow> 'e + unit) \<Rightarrow> 'a list \<Rightarrow> 'e + unit" where
  "check_all f [] = Inr ()"
| "check_all f (x # xs) = res_bind (f x) (\<lambda>_. check_all f xs)"

fun fold_res :: "('s \<Rightarrow> 'a \<Rightarrow> 'e + 's) \<Rightarrow> 's \<Rightarrow> 'a list \<Rightarrow> 'e + 's" where
  "fold_res f s [] = Inr s"
| "fold_res f s (x # xs) = res_bind (f s x) (\<lambda>s'. fold_res f s' xs)"

lemma res_bind_Inr_iff [res_iff]: "res_bind m f = Inr y \<longleftrightarrow> (\<exists>x. m = Inr x \<and> f x = Inr y)"
  by (cases m) auto

lemma res_bind_Inl_iff: "res_bind m f = Inl e \<longleftrightarrow> m = Inl e \<or> (\<exists>x. m = Inr x \<and> f x = Inl e)"
  by (cases m) auto

lemma res_map_Inr_iff [res_iff]: "res_map f m = Inr y \<longleftrightarrow> (\<exists>x. m = Inr x \<and> f x = y)"
  by (cases m) auto

lemma res_map_Inl_iff [simp]: "res_map f m = Inl e \<longleftrightarrow> m = Inl e"
  by (cases m) auto

lemma throw_if_Inr_iff [res_iff]: "throw_if b e = Inr u \<longleftrightarrow> \<not> b"
  by (auto simp: throw_if_def)

lemma throw_if_Inl_iff: "throw_if b e = Inl e' \<longleftrightarrow> b \<and> e' = e"
  by (auto simp: throw_if_def)

lemma throw_if_simps [simp]: "throw_if True e = Inl e" "throw_if False e = Inr ()"
  by (simp_all add: throw_if_def)

lemma res_bind_cong [fundef_cong]:
  "m = m' \<Longrightarrow> (\<And>x. m' = Inr x \<Longrightarrow> f x = g x) \<Longrightarrow> res_bind m f = res_bind m' g"
  by (cases m') auto

lemma traverse_cong [fundef_cong]:
  "xs = ys \<Longrightarrow> (\<And>x. x \<in> set ys \<Longrightarrow> f x = g x) \<Longrightarrow> traverse f xs = traverse g ys"
proof (induction ys arbitrary: xs)
  case Nil
  then show ?case by simp
next
  case (Cons y ys)
  then have "traverse f ys = traverse g ys" by simp
  with Cons.prems show ?case by simp
qed

lemma traverse_Inr_iff:
  "traverse f xs = Inr ys \<longleftrightarrow> list_all2 (\<lambda>x y. f x = Inr y) xs ys"
  by (induction xs arbitrary: ys) (auto simp: res_iff list_all2_Cons1)

lemma check_all_Inr_iff [res_iff]: "check_all f xs = Inr u \<longleftrightarrow> (\<forall>x\<in>set xs. f x = Inr ())"
  by (induction xs) (auto simp: res_iff)

lemma fold_res_append:
  "fold_res f s (xs @ ys) = res_bind (fold_res f s xs) (\<lambda>t. fold_res f t ys)"
proof (induction xs arbitrary: s)
  case Nil
  show ?case by simp
next
  case (Cons x xs)
  then show ?case by (cases "f s x") simp_all
qed

lemma fold_res_invariant:
  assumes "fold_res f s xs = Inr t" and "P s"
    and "\<And>s x s'. P s \<Longrightarrow> x \<in> set xs \<Longrightarrow> f s x = Inr s' \<Longrightarrow> P s'"
  shows "P t"
  using assms
proof (induction xs arbitrary: s)
  case Nil
  then show ?case by simp
next
  case (Cons x xs)
  from Cons.prems(1) obtain s' where s': "f s x = Inr s'" "fold_res f s' xs = Inr t"
    by (auto simp: res_iff)
  have "P s'" by (rule Cons.prems(3) [OF Cons.prems(2) _ s'(1)]) simp
  show ?case
  proof (rule Cons.IH [OF s'(2) \<open>P s'\<close>])
    fix r y r'
    assume "P r" and "y \<in> set xs" and "f r y = Inr r'"
    then show "P r'" by (intro Cons.prems(3) [of r y r']) simp_all
  qed
qed

section \<open>Insertion-ordered sets and maps\<close>

definition set_add :: "'a \<Rightarrow> 'a list \<Rightarrow> 'a list" where
  "set_add x xs = (if x \<in> set xs then xs else xs @ [x])"

definition set_remove :: "'a \<Rightarrow> 'a list \<Rightarrow> 'a list" where
  "set_remove x xs = filter (\<lambda>y. y \<noteq> x) xs"

lemma set_set_add [simp, js_map]: "set (set_add x xs) = insert x (set xs)"
  by (auto simp: set_add_def)

lemma distinct_set_add [simp, js_map]: "distinct xs \<Longrightarrow> distinct (set_add x xs)"
  by (simp add: set_add_def)

lemma set_add_not_Nil [simp]: "set_add x xs \<noteq> []"
  by (auto simp: set_add_def)

lemma set_set_remove [simp, js_map]: "set (set_remove x xs) = set xs - {x}"
  by (auto simp: set_remove_def)

lemma distinct_set_remove [simp, js_map]: "distinct xs \<Longrightarrow> distinct (set_remove x xs)"
  by (simp add: set_remove_def)

text \<open>\<open>js_set xs\<close> is \<open>new Set(xs)\<close>: first occurrences, in order.\<close>

definition js_set :: "'a list \<Rightarrow> 'a list" where
  "js_set xs = fold set_add xs []"

lemma fold_set_add: "set (fold set_add xs ys) = set ys \<union> set xs"
  by (induction xs arbitrary: ys) auto

lemma distinct_fold_set_add: "distinct ys \<Longrightarrow> distinct (fold set_add xs ys)"
  by (induction xs arbitrary: ys) auto

lemma set_js_set [simp, js_map]: "set (js_set xs) = set xs"
  by (simp add: js_set_def fold_set_add)

lemma distinct_js_set [simp, js_map]: "distinct (js_set xs)"
  by (simp add: js_set_def distinct_fold_set_add)

lemma fold_set_add_distinct:
  "distinct (ys @ xs) \<Longrightarrow> fold set_add xs ys = ys @ xs"
  by (induction xs arbitrary: ys) (auto simp: set_add_def)

lemma js_set_distinct: "distinct xs \<Longrightarrow> js_set xs = xs"
  by (simp add: js_set_def fold_set_add_distinct)

definition keys_of :: "('k \<times> 'v) list \<Rightarrow> 'k list" where
  "keys_of m = map fst m"

lemma keys_of_simps [simp]: "keys_of [] = []" "keys_of (p # ps) = fst p # keys_of ps"
  by (simp_all add: keys_of_def)

lemma set_keys_of [js_map]: "set (keys_of m) = dom (map_of m)"
  by (simp add: keys_of_def dom_map_of_conv_image_fst)

lemma distinct_keys_update [simp, js_map]:
  "distinct (keys_of m) \<Longrightarrow> distinct (keys_of (AList.update k v m))"
  by (simp add: keys_of_def distinct_update)

lemma distinct_keys_delete [simp, js_map]:
  "distinct (keys_of m) \<Longrightarrow> distinct (keys_of (AList.delete k m))"
  by (simp add: keys_of_def distinct_delete)

lemma map_of_update [simp, js_map]: "map_of (AList.update k v m) = (map_of m)(k \<mapsto> v)"
  by (rule update_conv')

lemma map_of_delete [simp, js_map]: "map_of (AList.delete k m) = (map_of m)(k := None)"
  by (rule delete_conv')

lemma length_delete_present:
  "distinct (keys_of m) \<Longrightarrow> map_of m k \<noteq> None \<Longrightarrow> Suc (length (AList.delete k m)) = length m"
proof (induction m)
  case Nil
  then show ?case by simp
next
  case (Cons p m)
  show ?case
  proof (cases "fst p = k")
    case True
    with Cons.prems(1) have "k \<notin> fst ` set m" by (simp add: keys_of_def)
    then have "AList.delete k m = m"
      by (auto simp: AList.delete_eq filter_id_conv image_iff)
    with True show ?thesis by (cases p) (simp add: AList.delete_eq)
  next
    case False
    with Cons show ?thesis by (cases p) (simp add: AList.delete_eq)
  qed
qed

lemma length_update:
  "length (AList.update k v m) = (if map_of m k = None then Suc (length m) else length m)"
  by (induction m) auto

lemma update_fresh: "map_of m k = None \<Longrightarrow> AList.update k v m = m @ [(k, v)]"
  by (induction m) (auto split: if_splits)

text \<open>\<open>vals_all P m\<close>: every stored value satisfies \<open>P\<close>.\<close>

definition vals_all :: "('v \<Rightarrow> bool) \<Rightarrow> ('k \<times> 'v) list \<Rightarrow> bool" where
  "vals_all P m = list_all (\<lambda>p. P (snd p)) m"

lemma vals_all_Nil [simp]: "vals_all P []"
  by (simp add: vals_all_def)

lemma vals_all_Cons [simp]: "vals_all P ((k, v) # m) \<longleftrightarrow> P v \<and> vals_all P m"
  by (simp add: vals_all_def)

lemma vals_allD: "vals_all P m \<Longrightarrow> map_of m k = Some v \<Longrightarrow> P v"
  by (force simp: vals_all_def list_all_iff dest: map_of_SomeD)

lemma vals_all_update [js_map]: "vals_all P m \<Longrightarrow> P v \<Longrightarrow> vals_all P (AList.update k v m)"
  by (induction m) (auto simp: vals_all_def)

lemma vals_all_delete [js_map]: "vals_all P m \<Longrightarrow> vals_all P (AList.delete k m)"
  by (auto simp: vals_all_def list_all_iff AList.delete_eq)

lemma vals_all_mono: "vals_all P m \<Longrightarrow> (\<And>v. P v \<Longrightarrow> Q v) \<Longrightarrow> vals_all Q m"
  by (auto simp: vals_all_def list_all_iff)

lemma filter_nonempty: "filter P xs \<noteq> [] \<longleftrightarrow> (\<exists>x \<in> set xs. P x)"
  by (simp add: filter_empty_conv)

end
