(* ===== verification/JS_String.thy ===== *)
theory JS_String
  imports Prelude
begin

text \<open>
  The JavaScript string operations the sources call: case mapping, \<open>trim\<close>, \<open>split\<close> on one
  character, \<open>join\<close>, \<open>replaceAll\<close> and the decimal rendering of a natural number, with the facts
  on them that several components use.

  \<open>to_lower\<close> maps the ASCII letters and the Latin-1 capitals, as \<open>toLowerCase\<close> does below code
  unit 256. \<open>to_upper\<close> is the same map backwards; the three Latin-1 characters whose capital lies
  outside the range (sharp s, micro sign, y with diaeresis) are left alone, and the sources only
  upper-case HTTP methods.
\<close>

section \<open>Characters\<close>

definition lower_char :: "char \<Rightarrow> char" where
  "lower_char c = (let n = of_char c :: nat
     in if 65 \<le> n \<and> n \<le> 90 \<or> 192 \<le> n \<and> n \<le> 222 \<and> n \<noteq> 215 then char_of (n + 32) else c)"

definition upper_char :: "char \<Rightarrow> char" where
  "upper_char c = (let n = of_char c :: nat
     in if 97 \<le> n \<and> n \<le> 122 \<or> 224 \<le> n \<and> n \<le> 254 \<and> n \<noteq> 247 then char_of (n - 32) else c)"

definition is_space :: "char \<Rightarrow> bool" where
  "is_space c = ((of_char c :: nat) \<in> {9, 10, 11, 12, 13, 32, 160})"

definition isAsciiUpper :: "char \<Rightarrow> bool" where
  "isAsciiUpper c = (CHR ''A'' \<le> c \<and> c \<le> CHR ''Z'')"

definition isAsciiLower :: "char \<Rightarrow> bool" where
  "isAsciiLower c = (CHR ''a'' \<le> c \<and> c \<le> CHR ''z'')"

definition isAsciiDigit :: "char \<Rightarrow> bool" where
  "isAsciiDigit c = (CHR ''0'' \<le> c \<and> c \<le> CHR ''9'')"

abbreviation quote_char :: char where
  "quote_char \<equiv> CHR 0x27"

definition quoted :: "string \<Rightarrow> string" where
  "quoted s = quote_char # s @ [quote_char]"

lemma char_le_code: "c \<le> d \<longleftrightarrow> (of_char c :: nat) \<le> of_char d"
  by (rule less_eq_char_def)

lemma of_char_char_of_small: "n < 256 \<Longrightarrow> (of_char (char_of n) :: nat) = n"
  by simp

lemma code_less_256 [simp]: "(of_char c :: nat) < 256"
  by simp

section \<open>Strings\<close>

definition to_lower :: "string \<Rightarrow> string" where
  "to_lower s = map lower_char s"

definition to_upper :: "string \<Rightarrow> string" where
  "to_upper s = map upper_char s"

definition trim :: "string \<Rightarrow> string" where
  "trim s = rev (dropWhile is_space (rev (dropWhile is_space s)))"

fun split_on :: "char \<Rightarrow> string \<Rightarrow> string list" where
  "split_on d [] = [[]]"
| "split_on d (c # cs) =
     (if c = d then [] # split_on d cs
      else (case split_on d cs of [] \<Rightarrow> [[c]] | w # ws \<Rightarrow> (c # w) # ws))"

fun join_with :: "string \<Rightarrow> string list \<Rightarrow> string" where
  "join_with sep [] = []"
| "join_with sep [x] = x"
| "join_with sep (x # y # ys) = x @ sep @ join_with sep (y # ys)"

text \<open>\<open>s.replaceAll(pat, rep)\<close> for a non-empty pattern and a replacement without \<open>$\<close>.\<close>

fun replace_from :: "nat \<Rightarrow> string \<Rightarrow> string \<Rightarrow> string \<Rightarrow> string" where
  "replace_from skip pat rep [] = []"
| "replace_from (Suc n) pat rep (c # cs) = replace_from n pat rep cs"
| "replace_from 0 pat rep (c # cs) =
     (if prefix pat (c # cs) then rep @ replace_from (length pat - 1) pat rep cs
      else c # replace_from 0 pat rep cs)"

definition replace_all :: "string \<Rightarrow> string \<Rightarrow> string \<Rightarrow> string" where
  "replace_all pat rep s = replace_from 0 pat rep s"

definition digit_char :: "nat \<Rightarrow> char" where
  "digit_char n = char_of (48 + n)"

fun nat_text :: "nat \<Rightarrow> string" where
  "nat_text n = (if n < 10 then [digit_char n] else nat_text (n div 10) @ [digit_char (n mod 10)])"

declare nat_text.simps [simp del]

section \<open>Facts\<close>

lemma to_lower_simps [simp]: "to_lower [] = []" "to_lower (c # s) = lower_char c # to_lower s"
  "to_lower (s @ t) = to_lower s @ to_lower t" "length (to_lower s) = length s"
  by (simp_all add: to_lower_def)

lemma lower_char_lower [simp]: "lower_char (lower_char c) = lower_char c"
proof -
  have "of_char (char_of (of_char c + 32 :: nat) :: char) = (of_char c + 32 :: nat)"
    if "(of_char c :: nat) \<le> 222"
    using that by (intro of_char_char_of_small) simp
  then show ?thesis by (auto simp: lower_char_def Let_def)
qed

lemma to_lower_to_lower [simp]: "to_lower (to_lower s) = to_lower s"
  by (simp add: to_lower_def)

lemma isAsciiDigit_code: "isAsciiDigit c \<longleftrightarrow> 48 \<le> (of_char c :: nat) \<and> (of_char c :: nat) \<le> 57"
  by (simp add: isAsciiDigit_def char_le_code)

lemma isAsciiLower_code: "isAsciiLower c \<longleftrightarrow> 97 \<le> (of_char c :: nat) \<and> (of_char c :: nat) \<le> 122"
  by (simp add: isAsciiLower_def char_le_code)

lemma isAsciiUpper_code: "isAsciiUpper c \<longleftrightarrow> 65 \<le> (of_char c :: nat) \<and> (of_char c :: nat) \<le> 90"
  by (simp add: isAsciiUpper_def char_le_code)

lemma lower_of_upper: "isAsciiUpper c \<Longrightarrow> isAsciiLower (lower_char c)"
  by (simp add: isAsciiUpper_code isAsciiLower_code lower_char_def Let_def of_char_char_of_small)

lemma split_on_not_Nil [simp]: "split_on d s \<noteq> []"
  by (cases s) (auto split: list.splits)

lemma split_on_no_sep: "w \<in> set (split_on d s) \<Longrightarrow> d \<notin> set w"
proof (induction s arbitrary: w)
  case Nil
  then show ?case by simp
next
  case (Cons c s)
  obtain v vs where vs: "split_on d s = v # vs"
    by (cases "split_on d s") auto
  with Cons.IH have "\<forall>u \<in> set (v # vs). d \<notin> set u" by auto
  with Cons.prems vs show ?case by (auto split: if_splits)
qed

lemma join_with_Cons: "xs \<noteq> [] \<Longrightarrow> join_with sep (x # xs) = x @ sep @ join_with sep xs"
  by (cases xs) auto

lemma join_split [simp]: "join_with [d] (split_on d s) = s"
proof (induction s)
  case Nil
  show ?case by simp
next
  case (Cons c s)
  obtain v vs where vs: "split_on d s = v # vs"
    by (cases "split_on d s") auto
  with Cons.IH show ?case
    by (cases vs) (auto simp: join_with_Cons)
qed

lemma split_on_clean: "d \<notin> set s \<Longrightarrow> split_on d s = [s]"
  by (induction s) auto

lemma split_on_append_sep:
  "d \<notin> set w \<Longrightarrow> split_on d (w @ d # s) = w # split_on d s"
  by (induction w) auto

lemma split_join:
  "ws \<noteq> [] \<Longrightarrow> (\<forall>w \<in> set ws. d \<notin> set w) \<Longrightarrow> split_on d (join_with [d] ws) = ws"
proof (induction ws)
  case Nil
  then show ?case by simp
next
  case (Cons w ws)
  then show ?case
    by (cases ws) (simp_all add: split_on_clean split_on_append_sep)
qed

lemma set_join_with_subset: "set (join_with sep ws) \<subseteq> set sep \<union> (\<Union>w \<in> set ws. set w)"
  by (induction sep ws rule: join_with.induct) auto

lemma length_split_on: "length (split_on d s) = Suc (count_list s d)"
proof (induction s)
  case Nil
  show ?case by simp
next
  case (Cons c s)
  obtain v vs where vs: "split_on d s = v # vs"
    by (cases "split_on d s") auto
  with Cons.IH show ?case by auto
qed

lemma digit_char_digit: "n < 10 \<Longrightarrow> isAsciiDigit (digit_char n)"
  by (simp add: digit_char_def isAsciiDigit_code of_char_char_of_small)

lemma nat_text_digits: "c \<in> set (nat_text n) \<Longrightarrow> isAsciiDigit c"
proof (induction n rule: nat_text.induct)
  case (1 n)
  then show ?case
    by (cases "n < 10") (auto simp: nat_text.simps [of n] digit_char_digit)
qed

lemma nat_text_not_Nil [simp]: "nat_text n \<noteq> []"
  by (simp add: nat_text.simps [of n])

lemma append_sep_inj:
  "d \<notin> set a \<Longrightarrow> d \<notin> set b \<Longrightarrow> a @ d # x = b @ d # y \<longleftrightarrow> a = b \<and> x = y"
proof (induction a arbitrary: b)
  case Nil
  then show ?case by (cases b) auto
next
  case (Cons c a)
  then show ?case by (cases b) auto
qed

end
