(* ===== verification/Response_Cache.thy ===== *)
theory Response_Cache
  imports JS_String
begin

text \<open>
  The caller-scoped cache of \<open>packages/http/core/src/cache\<close>: caller scopes and their tags
  (\<open>caller-scope.ts\<close>), cache keys (\<open>cache.ts\<close>) and \<open>MemoryLiaisoCache\<close> (\<open>memory-cache.ts\<close>), an
  LRU of callers with an absolute lifetime and an index from tags to callers.

  The clock is an argument \<open>now\<close> of every operation that reads it. The \<open>scopes\<close> map keeps its
  insertion order, so its first entry is the least recently used one. The contract of the
  \<open>LiaisoCache\<close> interface is the locale \<open>scoped_cache\<close>; \<open>MemoryLiaisoCache\<close> is its interpretation.
\<close>

section \<open>Caller scopes\<close>

record caller_scope =
  cs_key :: string
  cs_tags :: "string list"

datatype scope_error = Empty_key | Whitespace_in_key | Colon_in_key | Malformed_tag string

text \<open>\<open>tagPattern\<close>, \<open>/^\S+:\S+$/\<close>: no whitespace, and a colon that is neither first nor last.\<close>

definition is_cache_tag :: "string \<Rightarrow> bool" where
  "is_cache_tag t = (list_all (\<lambda>c. \<not> is_space c) t \<and> CHR '':'' \<in> set (butlast (drop 1 t)))"

definition createCallerScope :: "string \<Rightarrow> string list \<Rightarrow> scope_error + caller_scope" where
  "createCallerScope key tgs =
     (if length key = 0 then Inl Empty_key
      else if list_ex is_space key then Inl Whitespace_in_key
      else if CHR '':'' \<in> set key then Inl Colon_in_key
      else res_bind (check_all (\<lambda>t. throw_if (\<not> is_cache_tag t) (Malformed_tag t)) tgs)
        (\<lambda>_. Inr \<lparr>cs_key = key, cs_tags = tgs\<rparr>))"

text \<open>A header lookup answers nothing, one value or the values of a repeated header.\<close>

datatype header_value = One_value string | Many_values "string list"

definition flat_header :: "header_value option \<Rightarrow> string" where
  "flat_header v = (case v of None \<Rightarrow> [] | Some (One_value s) \<Rightarrow> s
     | Some (Many_values vs) \<Rightarrow> join_with '','' vs)"

definition digest_line :: "(string \<Rightarrow> header_value option) \<Rightarrow> string \<Rightarrow> string" where
  "digest_line header carrier = to_lower carrier @ ''='' @ flat_header (header carrier) @ [CHR 0x0A]"

definition digestInput :: "string list \<Rightarrow> (string \<Rightarrow> header_value option) \<Rightarrow> string" where
  "digestInput carriers header = concat (map (digest_line header) (sort_key to_lower carriers))"

section \<open>Cache keys\<close>

datatype cache_kind = Facts | Probe

record cache_key =
  ck_scope :: caller_scope
  ck_kind :: cache_kind
  ck_subkey :: "string option"

primrec kind_text :: "cache_kind \<Rightarrow> string" where
  "kind_text Facts = ''facts''"
| "kind_text Probe = ''probe''"

definition flattenCacheKey :: "cache_key \<Rightarrow> string" where
  "flattenCacheKey k = (case ck_subkey k of
     None \<Rightarrow> ''liaiso:v1:'' @ cs_key (ck_scope k) @ '':'' @ kind_text (ck_kind k)
   | Some s \<Rightarrow> ''liaiso:v1:'' @ cs_key (ck_scope k) @ '':'' @ kind_text (ck_kind k) @ '':'' @ s)"

definition valueKey :: "cache_key \<Rightarrow> string" where
  "valueKey k = (case ck_subkey k of None \<Rightarrow> kind_text (ck_kind k)
     | Some s \<Rightarrow> kind_text (ck_kind k) @ '':'' @ s)"

section \<open>The in-memory cache\<close>

record scope_entry =
  se_expires :: int
  se_tags :: "string list"
  se_values :: "(string \<times> string) list"
  se_lastUsed :: int

record memory_cache =
  mc_lifetimeMs :: int
  mc_maxCallers :: int
  mc_scopes :: "(string \<times> scope_entry) list"
  mc_tagIndex :: "(string \<times> string list) list"

definition new_cache :: "int \<Rightarrow> int \<Rightarrow> memory_cache" where
  "new_cache lifetime callers =
     \<lparr>mc_lifetimeMs = lifetime, mc_maxCallers = callers, mc_scopes = [], mc_tagIndex = []\<rparr>"

text \<open>One turn of the loop of \<open>evict\<close>: the caller leaves the tag, and an empty tag goes away.\<close>

definition unindex_tag :: "string \<Rightarrow> (string \<times> string list) list \<Rightarrow> string
    \<Rightarrow> (string \<times> string list) list" where
  "unindex_tag scopeKey idx tag = (case map_of idx tag of
     None \<Rightarrow> idx
   | Some ks \<Rightarrow> (let ks' = set_remove scopeKey ks
       in if ks' = [] then AList.delete tag idx else AList.update tag ks' idx))"

definition evict :: "string \<Rightarrow> scope_entry \<Rightarrow> memory_cache \<Rightarrow> memory_cache" where
  "evict scopeKey entry c =
     c\<lparr>mc_scopes := AList.delete scopeKey (mc_scopes c),
       mc_tagIndex := foldl (unindex_tag scopeKey) (mc_tagIndex c) (se_tags entry)\<rparr>"

definition indexTag :: "string \<Rightarrow> string \<Rightarrow> memory_cache \<Rightarrow> memory_cache" where
  "indexTag tag scopeKey c =
     (let ks = (case map_of (mc_tagIndex c) tag of None \<Rightarrow> [] | Some ks \<Rightarrow> ks)
      in c\<lparr>mc_tagIndex := AList.update tag (set_add scopeKey ks) (mc_tagIndex c)\<rparr>)"

definition touch :: "string \<Rightarrow> int \<Rightarrow> memory_cache \<Rightarrow> scope_entry option \<times> memory_cache" where
  "touch scopeKey now c = (case map_of (mc_scopes c) scopeKey of
     None \<Rightarrow> (None, c)
   | Some entry \<Rightarrow>
       if se_expires entry \<le> now then (None, evict scopeKey entry c)
       else (let entry' = entry\<lparr>se_lastUsed := now\<rparr>
         in (Some entry',
             c\<lparr>mc_scopes := AList.update scopeKey entry' (AList.delete scopeKey (mc_scopes c))\<rparr>)))"

definition admit :: "caller_scope \<Rightarrow> int \<Rightarrow> memory_cache \<Rightarrow> scope_entry \<times> memory_cache" where
  "admit scope now c =
     (let c' = (if int (length (mc_scopes c)) \<ge> mc_maxCallers c
                then (case mc_scopes c of [] \<Rightarrow> c | (k, e) # _ \<Rightarrow> evict k e c) else c);
          entry = \<lparr>se_expires = now + mc_lifetimeMs c, se_tags = [], se_values = [],
                   se_lastUsed = now\<rparr>
      in (entry, c'\<lparr>mc_scopes := AList.update (cs_key scope) entry (mc_scopes c')\<rparr>))"

text \<open>
  One turn of the tag loop of \<open>set\<close>. The entry is one shared object in the source: here the
  current entry is threaded through the loop and written back to its map at the end.
\<close>

definition add_tag :: "string \<Rightarrow> scope_entry \<times> memory_cache \<Rightarrow> string \<Rightarrow> scope_entry \<times> memory_cache" where
  "add_tag scopeKey s tag = (case s of (entry, c) \<Rightarrow>
     if tag \<in> set (se_tags entry) then (entry, c)
     else (entry\<lparr>se_tags := set_add tag (se_tags entry)\<rparr>, indexTag tag scopeKey c))"

definition cache_get :: "cache_key \<Rightarrow> int \<Rightarrow> memory_cache \<Rightarrow> string option \<times> memory_cache" where
  "cache_get key now c =
     (if mc_lifetimeMs c \<le> 0 then (None, c)
      else (case touch (cs_key (ck_scope key)) now c of
          (None, c') \<Rightarrow> (None, c')
        | (Some entry, c') \<Rightarrow> (map_of (se_values entry) (valueKey key), c')))"

definition cache_set :: "cache_key \<Rightarrow> string \<Rightarrow> int \<Rightarrow> memory_cache \<Rightarrow> memory_cache" where
  "cache_set key v now c =
     (if mc_lifetimeMs c \<le> 0 then c
      else (let scopeKey = cs_key (ck_scope key);
                start = (case touch scopeKey now c of
                   (Some entry, c') \<Rightarrow> (entry, c')
                 | (None, c') \<Rightarrow> admit (ck_scope key) now c');
                (entry, c'') = foldl (add_tag scopeKey) start (cs_tags (ck_scope key));
                entry' = entry\<lparr>se_values := AList.update (valueKey key) v (se_values entry)\<rparr>
            in c''\<lparr>mc_scopes := AList.update scopeKey entry' (mc_scopes c'')\<rparr>))"

definition removeScope :: "string \<Rightarrow> memory_cache \<Rightarrow> memory_cache" where
  "removeScope scopeKey c = (case map_of (mc_scopes c) scopeKey of
     None \<Rightarrow> c | Some entry \<Rightarrow> evict scopeKey entry c)"

definition removeTag :: "string \<Rightarrow> memory_cache \<Rightarrow> memory_cache" where
  "removeTag tag c = (case map_of (mc_tagIndex c) tag of
     None \<Rightarrow> c
   | Some scopeKeys \<Rightarrow>
       (let c' = foldl (\<lambda>c k. removeScope k c) c scopeKeys
        in c'\<lparr>mc_tagIndex := AList.delete tag (mc_tagIndex c')\<rparr>))"

definition cache_clear :: "memory_cache \<Rightarrow> memory_cache" where
  "cache_clear c = c\<lparr>mc_scopes := [], mc_tagIndex := []\<rparr>"

section \<open>The tag index and the callers agree\<close>

definition tagged :: "(string \<times> string list) list \<Rightarrow> string \<Rightarrow> string set" where
  "tagged idx t = (case map_of idx t of None \<Rightarrow> {} | Some ks \<Rightarrow> set ks)"

definition index_wf :: "(string \<times> string list) list \<Rightarrow> bool" where
  "index_wf idx = (distinct (keys_of idx) \<and> vals_all (\<lambda>ks. ks \<noteq> [] \<and> distinct ks) idx)"

definition scope_tag_set :: "memory_cache \<Rightarrow> string \<Rightarrow> string set" where
  "scope_tag_set c k = (case map_of (mc_scopes c) k of None \<Rightarrow> {} | Some e \<Rightarrow> set (se_tags e))"

definition index_agrees :: "(string \<times> string list) list \<Rightarrow> (string \<Rightarrow> string set) \<Rightarrow> bool" where
  "index_agrees idx f = (index_wf idx \<and> (\<forall>t. tagged idx t = {k. t \<in> f k}))"

definition capacity :: "memory_cache \<Rightarrow> nat" where
  "capacity c = max 1 (nat (mc_maxCallers c))"

definition cache_ok :: "memory_cache \<Rightarrow> bool" where
  "cache_ok c = (distinct (keys_of (mc_scopes c))
     \<and> index_agrees (mc_tagIndex c) (scope_tag_set c)
     \<and> length (mc_scopes c) \<le> capacity c
     \<and> (mc_lifetimeMs c \<le> 0 \<longrightarrow> mc_scopes c = []))"

lemma tagged_simps [simp]:
  "tagged (AList.update t ks idx) u = (if u = t then set ks else tagged idx u)"
  "tagged (AList.delete t idx) u = (if u = t then {} else tagged idx u)"
  by (simp_all add: tagged_def)

lemma index_wf_update: "index_wf idx \<Longrightarrow> ks \<noteq> [] \<Longrightarrow> distinct ks \<Longrightarrow> index_wf (AList.update t ks idx)"
  by (simp add: index_wf_def js_map)

lemma index_wf_delete: "index_wf idx \<Longrightarrow> index_wf (AList.delete t idx)"
  by (simp add: index_wf_def js_map)

lemma unindex_tag_tagged:
  assumes "index_wf idx"
  shows "index_wf (unindex_tag k idx t)
    \<and> tagged (unindex_tag k idx t) u = (if u = t then tagged idx u - {k} else tagged idx u)"
proof (cases "map_of idx t")
  case None
  then show ?thesis using assms by (simp add: unindex_tag_def tagged_def)
next
  case (Some ks)
  then have ks: "distinct ks" "tagged idx t = set ks"
    using assms by (auto simp: index_wf_def tagged_def dest: vals_allD)
  show ?thesis
  proof (cases "set_remove k ks = []")
    case True
    then have "set ks - {k} = {}" by (metis empty_set set_set_remove)
    with True Some ks show ?thesis
      by (simp add: unindex_tag_def index_wf_delete assms Let_def)
  next
    case False
    with Some ks show ?thesis
      by (simp add: unindex_tag_def index_wf_update assms Let_def)
  qed
qed

lemma unindex_tags_tagged:
  "index_wf idx \<Longrightarrow> index_wf (foldl (unindex_tag k) idx ts)
    \<and> tagged (foldl (unindex_tag k) idx ts) u = (if u \<in> set ts then tagged idx u - {k} else tagged idx u)"
proof (induction ts arbitrary: idx)
  case Nil
  then show ?case by simp
next
  case (Cons t ts)
  then have "index_wf (unindex_tag k idx t)" by (simp add: unindex_tag_tagged)
  from Cons.IH [OF this] show ?case
    using unindex_tag_tagged [OF Cons.prems, of k t u] by auto
qed

lemma evict_fields [simp]:
  "mc_scopes (evict k e c) = AList.delete k (mc_scopes c)"
  "mc_lifetimeMs (evict k e c) = mc_lifetimeMs c"
  "mc_maxCallers (evict k e c) = mc_maxCallers c"
  by (simp_all add: evict_def)

lemma scope_tag_set_evict: "scope_tag_set (evict k e c) = (scope_tag_set c)(k := {})"
  by (auto simp: scope_tag_set_def fun_eq_iff)

lemma evict_agrees:
  assumes "index_agrees (mc_tagIndex c) (scope_tag_set c)" and "map_of (mc_scopes c) k = Some e"
  shows "index_agrees (mc_tagIndex (evict k e c)) (scope_tag_set (evict k e c))"
proof -
  have wf: "index_wf (mc_tagIndex c)"
    and tags: "\<And>t. tagged (mc_tagIndex c) t = {k. t \<in> scope_tag_set c k}"
    using assms(1) by (auto simp: index_agrees_def)
  have k: "scope_tag_set c k = set (se_tags e)" using assms(2) by (simp add: scope_tag_set_def)
  show ?thesis
    unfolding index_agrees_def scope_tag_set_evict
    using unindex_tags_tagged [OF wf, of k "se_tags e"] k
    by (auto simp: evict_def tags)
qed

lemma length_delete_le: "length (AList.delete k m) \<le> length m"
  by (simp add: AList.delete_eq)

lemma evict_ok:
  assumes "cache_ok c" and "map_of (mc_scopes c) k = Some e"
  shows "cache_ok (evict k e c)"
  using assms evict_agrees [of c k e] le_trans [OF length_delete_le]
  by (auto simp: cache_ok_def capacity_def)

lemma removeScope_ok: "cache_ok c \<Longrightarrow> cache_ok (removeScope k c)"
  by (auto simp: removeScope_def evict_ok split: option.splits)

lemma touch_cases:
  obtains (absent) "map_of (mc_scopes c) k = None" and "touch k now c = (None, c)"
  | (expired) e where "map_of (mc_scopes c) k = Some e" and "se_expires e \<le> now"
      and "touch k now c = (None, evict k e c)"
  | (live) e where "map_of (mc_scopes c) k = Some e" and "now < se_expires e"
      and "touch k now c = (Some (e\<lparr>se_lastUsed := now\<rparr>),
        c\<lparr>mc_scopes := AList.update k (e\<lparr>se_lastUsed := now\<rparr>) (AList.delete k (mc_scopes c))\<rparr>)"
proof (cases "map_of (mc_scopes c) k")
  case None
  then show ?thesis by (intro absent) (simp_all add: touch_def)
next
  case (Some e)
  then show ?thesis
    by (cases "se_expires e \<le> now") (auto intro: expired live simp: touch_def Let_def)
qed

lemma scope_tag_set_touched:
  "map_of (mc_scopes c) k = Some e \<Longrightarrow>
   scope_tag_set (c\<lparr>mc_scopes := AList.update k (e\<lparr>se_lastUsed := now\<rparr>) (AList.delete k (mc_scopes c))\<rparr>)
     = scope_tag_set c"
  by (auto simp: scope_tag_set_def fun_eq_iff)

lemma length_touched:
  assumes "distinct (keys_of m)" and "map_of m k = Some e"
  shows "length (AList.update k e' (AList.delete k m)) = length m"
  using length_delete_present [of m k] assms by (simp add: length_update)

lemma touch_ok:
  assumes ok: "cache_ok c"
  shows "cache_ok (snd (touch k now c))"
proof (cases rule: touch_cases [of c k now])
  case absent
  with ok show ?thesis by simp
next
  case (expired e)
  with ok show ?thesis by (simp add: evict_ok)
next
  case (live e)
  with ok scope_tag_set_touched [OF live(1)] length_touched [OF _ live(1)] show ?thesis
    by (auto simp: cache_ok_def capacity_def)
qed

lemma admit_fields [simp]:
  "mc_lifetimeMs (snd (admit scope now c)) = mc_lifetimeMs c"
  "mc_maxCallers (snd (admit scope now c)) = mc_maxCallers c"
  "fst (admit scope now c) = \<lparr>se_expires = now + mc_lifetimeMs c, se_tags = [], se_values = [],
     se_lastUsed = now\<rparr>"
  by (simp_all add: admit_def Let_def split: list.splits)

text \<open>The room \<open>admit\<close> makes first: the state its new entry goes into.\<close>

definition make_room :: "memory_cache \<Rightarrow> memory_cache" where
  "make_room c = (if int (length (mc_scopes c)) \<ge> mc_maxCallers c
     then (case mc_scopes c of [] \<Rightarrow> c | (k, e) # _ \<Rightarrow> evict k e c) else c)"

lemma admit_scopes: "mc_scopes (snd (admit scope now c)) =
    AList.update (cs_key scope) (fst (admit scope now c)) (mc_scopes (make_room c))"
  by (simp add: admit_def make_room_def Let_def split: list.splits)

lemma admit_tagIndex: "mc_tagIndex (snd (admit scope now c)) = mc_tagIndex (make_room c)"
  by (simp add: admit_def make_room_def Let_def split: list.splits)

lemma make_room_ok: "cache_ok c \<Longrightarrow> cache_ok (make_room c)"
  by (auto simp: make_room_def split: list.splits intro!: evict_ok)

lemma make_room_fields [simp]:
  "mc_lifetimeMs (make_room c) = mc_lifetimeMs c" "mc_maxCallers (make_room c) = mc_maxCallers c"
  by (auto simp: make_room_def split: list.splits)

lemma make_room_absent:
  "map_of (mc_scopes c) k = None \<Longrightarrow> map_of (mc_scopes (make_room c)) k = None"
  by (auto simp: make_room_def split: list.splits if_splits)

lemma make_room_stored:
  "map_of (mc_scopes (make_room c)) k = Some e \<Longrightarrow> map_of (mc_scopes c) k = Some e"
  by (auto simp: make_room_def split: list.splits if_splits)

lemma make_room_below:
  assumes "cache_ok c"
  shows "Suc (length (mc_scopes (make_room c))) \<le> capacity c"
proof (cases "mc_scopes c")
  case Nil
  then show ?thesis by (auto simp: make_room_def capacity_def)
next
  case (Cons p ps)
  obtain k e where p: "p = (k, e)" by (cases p)
  show ?thesis
  proof (cases "int (length (mc_scopes c)) \<ge> mc_maxCallers c")
    case True
    have "Suc (length (mc_scopes (make_room c))) = length (mc_scopes c)"
      using True Cons p length_delete_present [of "mc_scopes c" k] assms
      by (simp add: make_room_def cache_ok_def)
    then show ?thesis using assms by (simp add: cache_ok_def)
  next
    case False
    then show ?thesis by (auto simp: make_room_def capacity_def)
  qed
qed

text \<open>
  While \<open>set\<close> runs its tag loop the entry it holds is ahead of the one in the map; the index
  agrees with the held entry.
\<close>

definition held_ok :: "string \<Rightarrow> scope_entry \<times> memory_cache \<Rightarrow> bool" where
  "held_ok k s = (case s of (e, c) \<Rightarrow>
     distinct (keys_of (mc_scopes c)) \<and> length (mc_scopes c) \<le> capacity c
     \<and> 0 < mc_lifetimeMs c \<and> map_of (mc_scopes c) k \<noteq> None
     \<and> index_agrees (mc_tagIndex c) ((scope_tag_set c)(k := set (se_tags e))))"

lemma indexTag_fields [simp]:
  "mc_scopes (indexTag t k c) = mc_scopes c"
  "mc_lifetimeMs (indexTag t k c) = mc_lifetimeMs c"
  "mc_maxCallers (indexTag t k c) = mc_maxCallers c"
  by (simp_all add: indexTag_def Let_def)

lemma indexTag_agrees:
  assumes "index_agrees (mc_tagIndex c) f"
  shows "index_agrees (mc_tagIndex (indexTag t k c)) (f(k := insert t (f k)))"
proof -
  let ?ks = "case map_of (mc_tagIndex c) t of None \<Rightarrow> [] | Some ks \<Rightarrow> ks"
  from assms have wf: "index_wf (mc_tagIndex c)" and tags: "\<And>u. tagged (mc_tagIndex c) u = {k. u \<in> f k}"
    by (auto simp: index_agrees_def)
  have ks: "distinct ?ks" "set ?ks = {k. t \<in> f k}"
    using wf tags [of t] by (auto simp: index_wf_def tagged_def dest: vals_allD split: option.splits)
  show ?thesis
    using wf ks tags by (auto simp: index_agrees_def indexTag_def index_wf_update)
qed

lemma add_tag_held: "held_ok k s \<Longrightarrow> held_ok k (add_tag k s t)"
proof (cases s)
  case (Pair e c)
  assume ok: "held_ok k s"
  show ?thesis
  proof (cases "t \<in> set (se_tags e)")
    case True
    with ok Pair show ?thesis by (simp add: add_tag_def)
  next
    case False
    have "scope_tag_set (indexTag t k c) = scope_tag_set c"
      by (simp add: scope_tag_set_def fun_eq_iff)
    moreover have "capacity (indexTag t k c) = capacity c" by (simp add: capacity_def)
    ultimately show ?thesis
      using ok Pair False indexTag_agrees [of c "(scope_tag_set c)(k := set (se_tags e))" t k]
      by (simp add: add_tag_def held_ok_def)
  qed
qed

lemma add_tags_held: "held_ok k s \<Longrightarrow> held_ok k (foldl (add_tag k) s ts)"
proof (induction ts arbitrary: s)
  case Nil
  then show ?case by simp
next
  case (Cons t ts)
  from Cons.IH [OF add_tag_held [OF Cons.prems, of t]] show ?case by simp
qed

lemma add_tags_fields:
  "mc_scopes (snd (foldl (add_tag k) s ts)) = mc_scopes (snd s)
   \<and> mc_lifetimeMs (snd (foldl (add_tag k) s ts)) = mc_lifetimeMs (snd s)
   \<and> mc_maxCallers (snd (foldl (add_tag k) s ts)) = mc_maxCallers (snd s)
   \<and> se_values (fst (foldl (add_tag k) s ts)) = se_values (fst s)
   \<and> se_expires (fst (foldl (add_tag k) s ts)) = se_expires (fst s)
   \<and> se_lastUsed (fst (foldl (add_tag k) s ts)) = se_lastUsed (fst s)
   \<and> set (se_tags (fst (foldl (add_tag k) s ts))) = set (se_tags (fst s)) \<union> set ts"
proof (induction ts arbitrary: s)
  case Nil
  then show ?case by simp
next
  case (Cons t ts)
  show ?case using Cons.IH [of "add_tag k s t"]
    by (cases s) (auto simp: add_tag_def split: if_splits)
qed

text \<open>The entry and the cache \<open>set\<close> starts its tag loop with.\<close>

definition acquire :: "caller_scope \<Rightarrow> int \<Rightarrow> memory_cache \<Rightarrow> scope_entry \<times> memory_cache" where
  "acquire scope now c = (case touch (cs_key scope) now c of
     (Some entry, c') \<Rightarrow> (entry, c') | (None, c') \<Rightarrow> admit scope now c')"

lemma touch_fields [simp]:
  "mc_lifetimeMs (snd (touch k now c)) = mc_lifetimeMs c"
  "mc_maxCallers (snd (touch k now c)) = mc_maxCallers c"
  by (cases rule: touch_cases [of c k now]; simp)+

lemma touch_None_absent:
  "touch k now c = (None, c') \<Longrightarrow> map_of (mc_scopes c') k = None"
  by (cases rule: touch_cases [of c k now]) auto

lemma touch_Some_entry:
  "touch k now c = (Some e, c') \<Longrightarrow> map_of (mc_scopes c') k = Some e \<and> now < se_expires e"
  by (cases rule: touch_cases [of c k now]) auto

lemma held_ok_stored:
  assumes "cache_ok c" and "0 < mc_lifetimeMs c" and "map_of (mc_scopes c) k = Some e"
  shows "held_ok k (e, c)"
proof -
  have "(scope_tag_set c)(k := set (se_tags e)) = scope_tag_set c"
    using assms(3) by (simp add: scope_tag_set_def fun_eq_iff)
  with assms show ?thesis by (simp add: held_ok_def cache_ok_def)
qed

lemma admit_ok:
  assumes ok: "cache_ok c" and life: "0 < mc_lifetimeMs c"
    and absent: "map_of (mc_scopes c) (cs_key scope) = None"
  shows "cache_ok (snd (admit scope now c))"
proof -
  let ?c = "make_room c" and ?c' = "snd (admit scope now c)" and ?k = "cs_key scope"
  have room: "cache_ok ?c" "map_of (mc_scopes ?c) ?k = None" "Suc (length (mc_scopes ?c)) \<le> capacity c"
    using make_room_ok [OF ok] make_room_absent [OF absent] make_room_below [OF ok] by auto
  have "scope_tag_set ?c' = scope_tag_set ?c"
    using room(2) by (auto simp: scope_tag_set_def admit_scopes fun_eq_iff)
  then show ?thesis
    using room life by (simp add: cache_ok_def admit_scopes admit_tagIndex length_update capacity_def)
qed

lemma acquire_held:
  assumes ok: "cache_ok c" and life: "0 < mc_lifetimeMs c"
  shows "held_ok (cs_key scope) (acquire scope now c)"
proof (cases "touch (cs_key scope) now c")
  case (Pair r c')
  have c': "cache_ok c'" "mc_lifetimeMs c' = mc_lifetimeMs c"
    using touch_ok [OF ok, of "cs_key scope" now] touch_fields(1) [of "cs_key scope" now c] Pair by auto
  show ?thesis
  proof (cases r)
    case None
    have "cache_ok (snd (admit scope now c'))"
      using admit_ok [OF c'(1)] c'(2) life touch_None_absent Pair None by auto
    moreover have "map_of (mc_scopes (snd (admit scope now c'))) (cs_key scope)
        = Some (fst (admit scope now c'))"
      by (simp add: admit_scopes)
    ultimately have "held_ok (cs_key scope) (fst (admit scope now c'), snd (admit scope now c'))"
      using life c'(2) by (intro held_ok_stored) simp_all
    then have "held_ok (cs_key scope) (admit scope now c')" by (simp only: prod.collapse)
    then show ?thesis using Pair None by (simp add: acquire_def)
  next
    case (Some e)
    then show ?thesis
      using Pair held_ok_stored [OF c'(1)] c'(2) life touch_Some_entry by (simp add: acquire_def)
  qed
qed

text \<open>\<open>set\<close> on a live cache: the held entry after the tag loop, with the value added, is stored.\<close>

definition tag_loop :: "cache_key \<Rightarrow> int \<Rightarrow> memory_cache \<Rightarrow> scope_entry \<times> memory_cache" where
  "tag_loop key now c = foldl (add_tag (cs_key (ck_scope key))) (acquire (ck_scope key) now c)
     (cs_tags (ck_scope key))"

lemma cache_set_eq:
  "0 < mc_lifetimeMs c \<Longrightarrow> cache_set key v now c =
     (case tag_loop key now c of (e, c') \<Rightarrow> c'\<lparr>mc_scopes := AList.update (cs_key (ck_scope key))
        (e\<lparr>se_values := AList.update (valueKey key) v (se_values e)\<rparr>) (mc_scopes c')\<rparr>)"
  by (simp add: cache_set_def tag_loop_def acquire_def Let_def)

lemma cache_set_ok:
  assumes ok: "cache_ok c"
  shows "cache_ok (cache_set key v now c)"
proof (cases "mc_lifetimeMs c \<le> 0")
  case True
  with ok show ?thesis by (simp add: cache_set_def)
next
  case False
  let ?k = "cs_key (ck_scope key)"
  obtain e c' where loop: "tag_loop key now c = (e, c')" by (cases "tag_loop key now c")
  have "held_ok ?k (tag_loop key now c)"
    unfolding tag_loop_def using ok False by (intro add_tags_held acquire_held) simp_all
  then have held: "held_ok ?k (e, c')" using loop by simp
  let ?c = "cache_set key v now c"
  have eq: "?c = c'\<lparr>mc_scopes := AList.update ?k
      (e\<lparr>se_values := AList.update (valueKey key) v (se_values e)\<rparr>) (mc_scopes c')\<rparr>"
    using False loop by (simp add: cache_set_eq)
  have "scope_tag_set ?c = (scope_tag_set c')(?k := set (se_tags e))"
    by (auto simp: eq scope_tag_set_def fun_eq_iff)
  then show ?thesis
    using held by (auto simp: cache_ok_def held_ok_def eq length_update capacity_def)
qed

lemma removeScopes_ok: "cache_ok c \<Longrightarrow> cache_ok (foldl (\<lambda>c k. removeScope k c) c ks)"
  by (induction ks arbitrary: c) (simp_all add: removeScope_ok)

lemma removeScope_scopes: "mc_scopes (removeScope k c) =
    (if map_of (mc_scopes c) k = None then mc_scopes c else AList.delete k (mc_scopes c))"
  by (auto simp: removeScope_def split: option.splits)

lemma removeScope_map: "map_of (mc_scopes (removeScope k c)) = (map_of (mc_scopes c))(k := None)"
  by (auto simp: removeScope_scopes fun_eq_iff)

lemma removeScopes_map:
  "map_of (mc_scopes (foldl (\<lambda>c k. removeScope k c) c ks)) x
     = (if x \<in> set ks then None else map_of (mc_scopes c) x)"
  by (induction ks arbitrary: c) (auto simp: removeScope_map)

lemma removeTag_map:
  "map_of (mc_scopes (removeTag t c)) x
     = (if x \<in> tagged (mc_tagIndex c) t then None else map_of (mc_scopes c) x)"
  by (auto simp: removeTag_def tagged_def removeScopes_map Let_def split: option.splits)

lemma removeTag_ok:
  assumes ok: "cache_ok c"
  shows "cache_ok (removeTag t c)"
proof (cases "map_of (mc_tagIndex c) t")
  case None
  with ok show ?thesis by (simp add: removeTag_def)
next
  case (Some ks)
  let ?c = "foldl (\<lambda>c k. removeScope k c) c ks"
  have c: "cache_ok ?c" by (rule removeScopes_ok [OF ok])
  have tags: "tagged (mc_tagIndex c) t = {k. t \<in> scope_tag_set c k}"
    using ok by (simp add: cache_ok_def index_agrees_def)
  have gone: "t \<notin> scope_tag_set ?c k" for k
    using tags Some by (auto simp: scope_tag_set_def removeScopes_map tagged_def split: option.splits)
  have "index_agrees (AList.delete t (mc_tagIndex ?c)) (scope_tag_set ?c)"
    using c gone by (auto simp: cache_ok_def index_agrees_def index_wf_delete)
  moreover have "removeTag t c = ?c\<lparr>mc_tagIndex := AList.delete t (mc_tagIndex ?c)\<rparr>"
    using Some by (simp add: removeTag_def Let_def)
  moreover have "scope_tag_set (?c\<lparr>mc_tagIndex := i\<rparr>) = scope_tag_set ?c" for i
    by (simp add: scope_tag_set_def fun_eq_iff)
  ultimately show ?thesis using c by (simp add: cache_ok_def capacity_def)
qed

lemma cache_clear_ok: "cache_ok (cache_clear c)"
  by (simp add: cache_clear_def cache_ok_def index_agrees_def index_wf_def tagged_def scope_tag_set_def
      capacity_def)

lemma new_cache_ok: "cache_ok (new_cache l m)"
  by (simp add: new_cache_def cache_ok_def index_agrees_def index_wf_def tagged_def scope_tag_set_def
      capacity_def)

lemma cache_get_ok: "cache_ok c \<Longrightarrow> cache_ok (snd (cache_get key now c))"
  using touch_ok [of c "cs_key (ck_scope key)" now]
  by (auto simp: cache_get_def split: prod.splits option.splits)

end
