(* ===== verification/Cache_Contract.thy ===== *)
theory Cache_Contract
  imports Response_Cache
begin

text \<open>
  The contract of the \<open>LiaisoCache\<close> interface (\<open>cache/cache.ts\<close>) as a locale over sequences of
  calls, its interpretation by \<open>MemoryLiaisoCache\<close>, and the two facts that depend on the clock:
  no entry outlives its lifetime, and a full cache gives up its least recently used caller.
\<close>

section \<open>Calls and runs\<close>

datatype cache_op =
    Op_get cache_key int
  | Op_set cache_key string int
  | Op_removeScope string
  | Op_removeTag string
  | Op_clear

primrec cache_apply :: "cache_op \<Rightarrow> memory_cache \<Rightarrow> memory_cache" where
  "cache_apply (Op_get key now) c = snd (cache_get key now c)"
| "cache_apply (Op_set key v now) c = cache_set key v now c"
| "cache_apply (Op_removeScope k) c = removeScope k c"
| "cache_apply (Op_removeTag t) c = removeTag t c"
| "cache_apply Op_clear c = cache_clear c"

definition run_cache :: "('op \<Rightarrow> 'c \<Rightarrow> 'c) \<Rightarrow> 'op list \<Rightarrow> 'c \<Rightarrow> 'c" where
  "run_cache ap ops c = foldl (\<lambda>c op. ap op c) c ops"

text \<open>A call that stores \<open>v\<close> under the slot \<open>(k, vk)\<close>, and one after which it is gone for certain.\<close>

fun writes_slot :: "string \<Rightarrow> string \<Rightarrow> string \<Rightarrow> cache_op \<Rightarrow> bool" where
  "writes_slot k vk v (Op_set key w now) =
     (cs_key (ck_scope key) = k \<and> valueKey key = vk \<and> w = v)"
| "writes_slot k vk v _ = False"

fun kills_slot :: "string \<Rightarrow> string \<Rightarrow> string \<Rightarrow> cache_op \<Rightarrow> bool" where
  "kills_slot k vk v (Op_set key w now) =
     (cs_key (ck_scope key) = k \<and> valueKey key = vk \<and> w \<noteq> v)"
| "kills_slot k vk v (Op_removeScope k') = (k' = k)"
| "kills_slot k vk v Op_clear = True"
| "kills_slot k vk v _ = False"

lemma run_cache_simps [simp]:
  "run_cache ap [] c = c" "run_cache ap (op # ops) c = run_cache ap ops (ap op c)"
  "run_cache ap (ops @ [op]) c = ap op (run_cache ap ops c)"
  by (simp_all add: run_cache_def)

lemma run_cache_append: "run_cache ap (ops @ ops') c = run_cache ap ops' (run_cache ap ops c)"
  by (simp add: run_cache_def)

section \<open>The contract\<close>

locale scoped_cache =
  fixes ap :: "cache_op \<Rightarrow> 'c \<Rightarrow> 'c"
    and answer :: "cache_key \<Rightarrow> int \<Rightarrow> 'c \<Rightarrow> string option"
    and stored :: "'c \<Rightarrow> string \<Rightarrow> string \<Rightarrow> string option"
    and carries :: "'c \<Rightarrow> string \<Rightarrow> string \<Rightarrow> bool"
    and inv :: "'c \<Rightarrow> bool"
  assumes inv_ap: "inv c \<Longrightarrow> inv (ap op c)"
    and answer_stored: "answer key now c = Some v \<Longrightarrow> stored c (cs_key (ck_scope key)) (valueKey key) = Some v"
    and get_keeps: "stored (ap (Op_get key now) c) k vk = Some v \<Longrightarrow> stored c k vk = Some v"
    and set_stores: "inv c \<Longrightarrow> stored (ap (Op_set key w now) c) k vk = Some v \<Longrightarrow>
      (if cs_key (ck_scope key) = k \<and> valueKey key = vk then w = v else stored c k vk = Some v)"
    and removeScope_stored: "stored (ap (Op_removeScope k) c) k' vk = (if k' = k then None else stored c k' vk)"
    and removeTag_stored: "inv c \<Longrightarrow> stored (ap (Op_removeTag t) c) k vk =
      (if carries c k t then None else stored c k vk)"
    and clear_stored: "stored (ap Op_clear c) k vk = None"
begin

lemma inv_run: "inv c \<Longrightarrow> inv (run_cache ap ops c)"
  by (induction ops arbitrary: c) (simp_all add: inv_ap)

lemma step_stored:
  assumes "inv c" and "stored (ap op c) k vk = Some v"
  shows "(writes_slot k vk v op \<or> stored c k vk = Some v) \<and> \<not> kills_slot k vk v op"
proof (cases op)
  case (Op_get key now)
  with assms(2) get_keeps [of key now c k vk v] show ?thesis by simp
next
  case (Op_set key w now)
  with assms set_stores [of c key w now k vk v] show ?thesis by (auto split: if_splits)
next
  case (Op_removeScope k')
  with assms(2) removeScope_stored [of k' c k vk] show ?thesis by (simp split: if_splits)
next
  case (Op_removeTag t)
  with assms(2) removeTag_stored [OF assms(1), of t k vk] show ?thesis by (simp split: if_splits)
next
  case Op_clear
  with assms(2) clear_stored [of c k vk] show ?thesis by simp
qed

lemma run_stored:
  assumes "inv c" and "stored (run_cache ap ops c) k vk = Some v"
  shows "stored c k vk = Some v \<and> (\<forall>op \<in> set ops. \<not> kills_slot k vk v op)
    \<or> (\<exists>pre op post. ops = pre @ op # post \<and> writes_slot k vk v op
        \<and> (\<forall>op' \<in> set post. \<not> kills_slot k vk v op'))"
  using assms(2)
proof (induction ops rule: rev_induct)
  case Nil
  then show ?case by simp
next
  case (snoc op ops)
  let ?c = "run_cache ap ops c"
  have c: "inv ?c" by (rule inv_run [OF assms(1)])
  have last: "stored (ap op ?c) k vk = Some v" using snoc.prems by simp
  note step = step_stored [OF c last]
  from step have "writes_slot k vk v op \<or> stored ?c k vk = Some v" by blast
  then show ?case
  proof
    assume "writes_slot k vk v op"
    then show ?case by (intro disjI2 exI [of _ ops] exI [of _ op] exI [of _ "[]"]) simp
  next
    assume "stored ?c k vk = Some v"
    from snoc.IH [OF this] show ?case
    proof
      assume "stored c k vk = Some v \<and> (\<forall>op \<in> set ops. \<not> kills_slot k vk v op)"
      with step show ?case by simp
    next
      assume "\<exists>pre op post. ops = pre @ op # post \<and> writes_slot k vk v op
        \<and> (\<forall>op' \<in> set post. \<not> kills_slot k vk v op')"
      then obtain pre w post where "ops = pre @ w # post" "writes_slot k vk v w"
        "\<forall>op' \<in> set post. \<not> kills_slot k vk v op'" by blast
      with step show ?case
        by (intro disjI2 exI [of _ pre] exI [of _ w] exI [of _ "post @ [op]"]) simp
    qed
  qed
qed

lemma answer_from_write:
  assumes "inv c" and "\<And>k vk. stored c k vk = None" and "answer key now (run_cache ap ops c) = Some v"
  shows "\<exists>pre op post. ops = pre @ op # post
    \<and> writes_slot (cs_key (ck_scope key)) (valueKey key) v op
    \<and> (\<forall>op' \<in> set post. \<not> kills_slot (cs_key (ck_scope key)) (valueKey key) v op')"
  using run_stored [OF assms(1) answer_stored [OF assms(3)]] assms(2) by simp

lemma tag_removed_needs_write:
  assumes "inv c" and "carries c (cs_key (ck_scope key)) t"
    and "answer key now (run_cache ap ops (ap (Op_removeTag t) c)) = Some v"
  shows "\<exists>op \<in> set ops. writes_slot (cs_key (ck_scope key)) (valueKey key) v op"
proof -
  have "stored (ap (Op_removeTag t) c) (cs_key (ck_scope key)) (valueKey key) = None"
    using assms(1,2) by (simp add: removeTag_stored)
  then show ?thesis
    using run_stored [OF inv_ap [OF assms(1)] answer_stored [OF assms(3)]] by auto
qed

end

section \<open>MemoryLiaisoCache keeps it\<close>

definition stored_value :: "memory_cache \<Rightarrow> string \<Rightarrow> string \<Rightarrow> string option" where
  "stored_value c k vk = (case map_of (mc_scopes c) k of None \<Rightarrow> None | Some e \<Rightarrow> map_of (se_values e) vk)"

definition carries_tag :: "memory_cache \<Rightarrow> string \<Rightarrow> string \<Rightarrow> bool" where
  "carries_tag c k t = (t \<in> scope_tag_set c k)"

definition cache_answer :: "cache_key \<Rightarrow> int \<Rightarrow> memory_cache \<Rightarrow> string option" where
  "cache_answer key now c = fst (cache_get key now c)"

lemma touch_map:
  "map_of (mc_scopes (snd (touch k now c))) x =
     (if x = k then (case map_of (mc_scopes c) k of None \<Rightarrow> None
        | Some e \<Rightarrow> if se_expires e \<le> now then None else Some (e\<lparr>se_lastUsed := now\<rparr>))
      else map_of (mc_scopes c) x)"
  by (cases rule: touch_cases [of c k now]) auto

lemma touch_stored: "stored_value (snd (touch k now c)) x vk = Some v \<Longrightarrow> stored_value c x vk = Some v"
  by (auto simp: stored_value_def touch_map split: option.splits if_splits)

lemma cache_get_snd: "snd (cache_get key now c) =
    (if mc_lifetimeMs c \<le> 0 then c else snd (touch (cs_key (ck_scope key)) now c))"
  by (auto simp: cache_get_def split: prod.splits option.splits)

lemma cache_get_fst:
  "cache_answer key now c = (if mc_lifetimeMs c \<le> 0 then None else
     (case map_of (mc_scopes c) (cs_key (ck_scope key)) of None \<Rightarrow> None
      | Some e \<Rightarrow> if se_expires e \<le> now then None else map_of (se_values e) (valueKey key)))"
  by (cases rule: touch_cases [of c "cs_key (ck_scope key)" now])
    (auto simp: cache_answer_def cache_get_def)

text \<open>Where the held entry of \<open>set\<close> comes from: the stored one, or a new one with no values.\<close>

lemma acquire_origin:
  "(\<exists>e. map_of (mc_scopes c) (cs_key scope) = Some e \<and> now < se_expires e
      \<and> fst (acquire scope now c) = e\<lparr>se_lastUsed := now\<rparr>
      \<and> snd (acquire scope now c) = snd (touch (cs_key scope) now c))
   \<or> (fst (acquire scope now c) = \<lparr>se_expires = now + mc_lifetimeMs c, se_tags = [], se_values = [],
        se_lastUsed = now\<rparr>
      \<and> snd (acquire scope now c) = snd (admit scope now (snd (touch (cs_key scope) now c)))
      \<and> map_of (mc_scopes (snd (touch (cs_key scope) now c))) (cs_key scope) = None)"
  by (cases rule: touch_cases [of c "cs_key scope" now]) (auto simp: acquire_def)

lemma acquire_map_other:
  assumes "x \<noteq> cs_key scope" and "map_of (mc_scopes (snd (acquire scope now c))) x = Some e"
  shows "map_of (mc_scopes c) x = Some e"
  using acquire_origin [of c scope now] assms
  by (auto simp: touch_map admit_scopes dest!: make_room_stored split: if_splits)

lemma cache_set_map:
  assumes "0 < mc_lifetimeMs c"
  obtains e where "map_of (mc_scopes (cache_set key v now c)) (cs_key (ck_scope key)) = Some e"
    and "se_values e = AList.update (valueKey key) v (se_values (fst (acquire (ck_scope key) now c)))"
    and "se_expires e = se_expires (fst (acquire (ck_scope key) now c))"
    and "se_lastUsed e = se_lastUsed (fst (acquire (ck_scope key) now c))"
    and "set (se_tags e) = set (se_tags (fst (acquire (ck_scope key) now c))) \<union> set (cs_tags (ck_scope key))"
    and "mc_scopes (cache_set key v now c) = AList.update (cs_key (ck_scope key)) e
      (mc_scopes (snd (acquire (ck_scope key) now c)))"
proof -
  obtain e c' where loop: "tag_loop key now c = (e, c')" by (cases "tag_loop key now c")
  have fields: "mc_scopes c' = mc_scopes (snd (acquire (ck_scope key) now c))"
    "se_values e = se_values (fst (acquire (ck_scope key) now c))"
    "se_expires e = se_expires (fst (acquire (ck_scope key) now c))"
    "se_lastUsed e = se_lastUsed (fst (acquire (ck_scope key) now c))"
    "set (se_tags e) = set (se_tags (fst (acquire (ck_scope key) now c))) \<union> set (cs_tags (ck_scope key))"
    using add_tags_fields [of "cs_key (ck_scope key)" "acquire (ck_scope key) now c" "cs_tags (ck_scope key)"]
      loop by (auto simp: tag_loop_def)
  show ?thesis
    by (rule that [of "e\<lparr>se_values := AList.update (valueKey key) v (se_values e)\<rparr>"])
      (use assms loop fields in \<open>simp_all add: cache_set_eq\<close>)
qed

lemma cache_set_stored:
  assumes "stored_value (cache_set key w now c) k vk = Some v" and "cache_ok c"
  shows "if cs_key (ck_scope key) = k \<and> valueKey key = vk then w = v else stored_value c k vk = Some v"
proof (cases "0 < mc_lifetimeMs c")
  case False
  then show ?thesis using assms by (simp add: cache_set_def cache_ok_def stored_value_def)
next
  case True
  let ?a = "acquire (ck_scope key) now c"
  obtain e where e: "map_of (mc_scopes (cache_set key w now c)) (cs_key (ck_scope key)) = Some e"
    "se_values e = AList.update (valueKey key) w (se_values (fst ?a))"
    "mc_scopes (cache_set key w now c) = AList.update (cs_key (ck_scope key)) e (mc_scopes (snd ?a))"
    using cache_set_map [OF True] by metis
  show ?thesis
  proof (cases "cs_key (ck_scope key) = k")
    case False
    with assms(1) e(3) acquire_map_other [of k "ck_scope key" now c] show ?thesis
      by (auto simp: stored_value_def split: option.splits)
  next
    case same: True
    show ?thesis
    proof (cases "valueKey key = vk")
      case True
      with same assms(1) e(1,2) show ?thesis by (simp add: stored_value_def)
    next
      case False
      with same assms(1) e(1,2) have "map_of (se_values (fst ?a)) vk = Some v"
        by (simp add: stored_value_def)
      with same False acquire_origin [of c "ck_scope key" now] show ?thesis
        by (auto simp: stored_value_def)
    qed
  qed
qed

lemma cache_apply_ok: "cache_ok c \<Longrightarrow> cache_ok (cache_apply op c)"
  by (cases op) (simp_all add: cache_get_ok cache_set_ok removeScope_ok removeTag_ok cache_clear_ok)

lemma cache_get_keeps:
  assumes "stored_value (snd (cache_get key now c)) k vk = Some v"
  shows "stored_value c k vk = Some v"
proof (cases "mc_lifetimeMs c \<le> 0")
  case True
  then have "snd (cache_get key now c) = c" by (simp only: cache_get_snd if_True)
  then show ?thesis using assms by simp
next
  case False
  then have "snd (cache_get key now c) = snd (touch (cs_key (ck_scope key)) now c)"
    by (simp only: cache_get_snd if_False)
  with assms have "stored_value (snd (touch (cs_key (ck_scope key)) now c)) k vk = Some v"
    by (simp only:)
  then show ?thesis by (rule touch_stored)
qed

lemma cache_answer_stored:
  "cache_answer key now c = Some v \<Longrightarrow> stored_value c (cs_key (ck_scope key)) (valueKey key) = Some v"
  unfolding cache_get_fst stored_value_def
  by (cases "map_of (mc_scopes c) (cs_key (ck_scope key))") (auto split: if_split_asm)

lemma removeTag_stored_value:
  assumes "cache_ok c"
  shows "stored_value (removeTag t c) k vk = (if carries_tag c k t then None else stored_value c k vk)"
proof -
  have "tagged (mc_tagIndex c) t = {k. t \<in> scope_tag_set c k}"
    using assms by (simp add: cache_ok_def index_agrees_def)
  then show ?thesis by (simp add: stored_value_def removeTag_map carries_tag_def)
qed

lemma removeScope_stored_value:
  "stored_value (removeScope k c) k' vk = (if k' = k then None else stored_value c k' vk)"
  by (simp add: stored_value_def removeScope_map)

lemma cache_clear_stored_value: "stored_value (cache_clear c) k vk = None"
  by (simp add: stored_value_def cache_clear_def)

interpretation mc: scoped_cache cache_apply cache_answer stored_value carries_tag cache_ok
proof (unfold_locales, goal_cases)
  case (1 c op)
  then show ?case by (rule cache_apply_ok)
next
  case (2 key now c v)
  then show ?case by (rule cache_answer_stored)
next
  case (3 key now c k vk v)
  then show ?case unfolding cache_apply.simps by (rule cache_get_keeps)
next
  case (4 c key w now k vk v)
  show ?case by (rule cache_set_stored [OF 4(2) [unfolded cache_apply.simps] 4(1)])
next
  case (5 k c k' vk)
  show ?case unfolding cache_apply.simps by (rule removeScope_stored_value)
next
  case (6 c t k vk)
  then show ?case unfolding cache_apply.simps by (rule removeTag_stored_value)
next
  case (7 c k vk)
  show ?case unfolding cache_apply.simps by (rule cache_clear_stored_value)
qed

section \<open>Lifetime\<close>

text \<open>Writes are the only calls that give a caller time, and never more than the lifetime.\<close>

fun set_before :: "int \<Rightarrow> cache_op \<Rightarrow> bool" where
  "set_before t (Op_set key v now) = (now \<le> t)"
| "set_before t _ = True"

definition expires_by :: "int \<Rightarrow> memory_cache \<Rightarrow> bool" where
  "expires_by t c = vals_all (\<lambda>e. se_expires e \<le> t) (mc_scopes c)"

lemma expires_by_evict: "expires_by t c \<Longrightarrow> expires_by t (evict k e c)"
  by (simp add: expires_by_def js_map)

lemma expires_by_removeScope: "expires_by t c \<Longrightarrow> expires_by t (removeScope k c)"
  by (auto simp: removeScope_def expires_by_evict split: option.splits)

lemma expires_by_removeScopes: "expires_by t c \<Longrightarrow> expires_by t (foldl (\<lambda>c k. removeScope k c) c ks)"
  by (induction ks arbitrary: c) (simp_all add: expires_by_removeScope)

lemma expires_by_touch:
  assumes "expires_by t c" shows "expires_by t (snd (touch k now c))"
proof (cases rule: touch_cases [of c k now])
  case (live e)
  have "se_expires e \<le> t" using assms live(1) unfolding expires_by_def by (rule vals_allD)
  then show ?thesis using assms live(3) by (simp add: expires_by_def js_map)
qed (use assms expires_by_evict in \<open>simp_all\<close>)

lemma expires_by_make_room: "expires_by t c \<Longrightarrow> expires_by t (make_room c)"
  by (auto simp: make_room_def expires_by_evict split: list.splits)

lemma expires_by_acquire:
  assumes "expires_by t c" and "now + mc_lifetimeMs c \<le> t"
  shows "se_expires (fst (acquire scope now c)) \<le> t \<and> expires_by t (snd (acquire scope now c))"
  using acquire_origin [of c scope now]
proof
  assume "\<exists>e. map_of (mc_scopes c) (cs_key scope) = Some e \<and> now < se_expires e
      \<and> fst (acquire scope now c) = e\<lparr>se_lastUsed := now\<rparr>
      \<and> snd (acquire scope now c) = snd (touch (cs_key scope) now c)"
  then obtain e where e: "map_of (mc_scopes c) (cs_key scope) = Some e"
    "fst (acquire scope now c) = e\<lparr>se_lastUsed := now\<rparr>"
    "snd (acquire scope now c) = snd (touch (cs_key scope) now c)" by blast
  from assms(1) e(1) have "se_expires e \<le> t" unfolding expires_by_def by (rule vals_allD)
  with e expires_by_touch [OF assms(1)] show ?thesis by simp
next
  let ?c = "snd (touch (cs_key scope) now c)"
  assume new: "fst (acquire scope now c) = \<lparr>se_expires = now + mc_lifetimeMs c, se_tags = [],
        se_values = [], se_lastUsed = now\<rparr>
      \<and> snd (acquire scope now c) = snd (admit scope now ?c)
      \<and> map_of (mc_scopes ?c) (cs_key scope) = None"
  have "expires_by t (make_room ?c)"
    by (rule expires_by_make_room [OF expires_by_touch [OF assms(1)]])
  then have "expires_by t (snd (admit scope now ?c))"
    using assms(2) by (simp add: expires_by_def admit_scopes js_map)
  with new assms(2) show ?thesis by simp
qed

lemma expires_by_set:
  assumes "expires_by t c" and "now + mc_lifetimeMs c \<le> t"
  shows "expires_by t (cache_set key v now c)"
proof (cases "0 < mc_lifetimeMs c")
  case False
  then show ?thesis using assms(1) by (simp add: cache_set_def)
next
  case True
  let ?a = "acquire (ck_scope key) now c"
  obtain e where e: "se_expires e = se_expires (fst ?a)"
    "mc_scopes (cache_set key v now c) = AList.update (cs_key (ck_scope key)) e (mc_scopes (snd ?a))"
    using cache_set_map [OF True] by metis
  with expires_by_acquire [OF assms] show ?thesis by (simp add: expires_by_def js_map)
qed

lemma cache_set_fields [simp]:
  "mc_lifetimeMs (cache_set key v now c) = mc_lifetimeMs c"
  "mc_maxCallers (cache_set key v now c) = mc_maxCallers c"
proof -
  have acq: "mc_lifetimeMs (snd (acquire scope now c)) = mc_lifetimeMs c
    \<and> mc_maxCallers (snd (acquire scope now c)) = mc_maxCallers c" for scope
    using acquire_origin [of c scope now] by auto
  obtain e c' where loop: "tag_loop key now c = (e, c')" by (cases "tag_loop key now c")
  have "mc_lifetimeMs c' = mc_lifetimeMs c \<and> mc_maxCallers c' = mc_maxCallers c"
    using add_tags_fields [of "cs_key (ck_scope key)" "acquire (ck_scope key) now c"
        "cs_tags (ck_scope key)"] loop acq [of "ck_scope key"] by (simp add: tag_loop_def)
  then show "mc_lifetimeMs (cache_set key v now c) = mc_lifetimeMs c"
    "mc_maxCallers (cache_set key v now c) = mc_maxCallers c"
    using loop cache_set_eq [of c key v now] by (cases "0 < mc_lifetimeMs c"; simp add: cache_set_def)+
qed

lemma removeTag_fields [simp]:
  "mc_lifetimeMs (removeTag t c) = mc_lifetimeMs c" "mc_maxCallers (removeTag t c) = mc_maxCallers c"
proof -
  have one: "mc_lifetimeMs (removeScope k c) = mc_lifetimeMs c
    \<and> mc_maxCallers (removeScope k c) = mc_maxCallers c" for k c
    by (auto simp: removeScope_def split: option.splits)
  have "mc_lifetimeMs (foldl (\<lambda>c k. removeScope k c) c ks) = mc_lifetimeMs c
    \<and> mc_maxCallers (foldl (\<lambda>c k. removeScope k c) c ks) = mc_maxCallers c" for ks
    by (induction ks arbitrary: c) (simp_all add: one)
  then show "mc_lifetimeMs (removeTag t c) = mc_lifetimeMs c"
    "mc_maxCallers (removeTag t c) = mc_maxCallers c"
    by (auto simp: removeTag_def Let_def split: option.splits)
qed

lemma cache_apply_lifetime [simp]: "mc_lifetimeMs (cache_apply op c) = mc_lifetimeMs c"
  by (cases op) (auto simp: cache_get_snd removeScope_def cache_clear_def split: option.splits)

lemma expires_by_apply:
  assumes "expires_by (t + mc_lifetimeMs c) c" and "set_before t op"
  shows "expires_by (t + mc_lifetimeMs c) (cache_apply op c)"
  using assms
proof (cases op)
  case (Op_get key now)
  with assms(1) show ?thesis by (simp add: cache_get_snd expires_by_touch)
next
  case (Op_set key v now)
  with assms show ?thesis by (simp add: expires_by_set)
next
  case (Op_removeTag t')
  with assms(1) show ?thesis
    by (auto simp: removeTag_def Let_def expires_by_def split: option.splits
        dest: expires_by_removeScopes [unfolded expires_by_def])
qed (simp_all add: expires_by_removeScope, simp add: expires_by_def cache_clear_def)

lemma expires_by_run:
  "expires_by (t + mc_lifetimeMs c) c \<Longrightarrow> list_all (set_before t) ops
   \<Longrightarrow> expires_by (t + mc_lifetimeMs c) (run_cache cache_apply ops c)"
proof (induction ops arbitrary: c)
  case Nil
  then show ?case by simp
next
  case (Cons op ops)
  from Cons.prems have "expires_by (t + mc_lifetimeMs c) (cache_apply op c)"
    by (intro expires_by_apply) simp_all
  with Cons.IH [of "cache_apply op c"] Cons.prems(2) show ?case by simp
qed

lemma expired_no_answer:
  assumes "expires_by t c" and "t \<le> now"
  shows "cache_answer key now c = None"
proof (cases "map_of (mc_scopes c) (cs_key (ck_scope key))")
  case None
  then show ?thesis by (simp add: cache_get_fst)
next
  case (Some e)
  have "se_expires e \<le> t" using assms(1) Some unfolding expires_by_def by (rule vals_allD)
  with Some assms(2) show ?thesis by (simp add: cache_get_fst)
qed

end
