(* ===== verification/Cache_LRU.thy ===== *)
theory Cache_LRU
  imports Cache_Contract
begin

text \<open>
  The recency order of \<open>MemoryLiaisoCache\<close>: with a clock that never goes back, the callers stand
  in the \<open>scopes\<close> map in the order of their last use, so the entry \<open>admit\<close> takes from the front
  is the least recently used one.
\<close>

definition last_uses :: "(string \<times> scope_entry) list \<Rightarrow> int list" where
  "last_uses m = map (\<lambda>p. se_lastUsed (snd p)) m"

definition recency_ok :: "int \<Rightarrow> memory_cache \<Rightarrow> bool" where
  "recency_ok now c = (sorted (last_uses (mc_scopes c)) \<and> vals_all (\<lambda>e. se_lastUsed e \<le> now) (mc_scopes c))"

fun op_times_from :: "int \<Rightarrow> cache_op list \<Rightarrow> bool" where
  "op_times_from t [] = True"
| "op_times_from t (Op_get key now # ops) = (t \<le> now \<and> op_times_from now ops)"
| "op_times_from t (Op_set key v now # ops) = (t \<le> now \<and> op_times_from now ops)"
| "op_times_from t (_ # ops) = op_times_from t ops"

fun last_time :: "int \<Rightarrow> cache_op list \<Rightarrow> int" where
  "last_time t [] = t"
| "last_time t (Op_get key now # ops) = last_time now ops"
| "last_time t (Op_set key v now # ops) = last_time now ops"
| "last_time t (_ # ops) = last_time t ops"

lemma sorted_delete: "sorted (last_uses m) \<Longrightarrow> sorted (last_uses (AList.delete k m))"
  by (simp add: last_uses_def AList.delete_eq sorted_filter)

lemma last_uses_update_same:
  "map_of m k = Some e \<Longrightarrow> se_lastUsed e' = se_lastUsed e \<Longrightarrow>
   last_uses (AList.update k e' m) = last_uses m"
  by (induction m) (auto simp: last_uses_def split: if_splits)

lemma last_uses_bound: "vals_all (\<lambda>e. se_lastUsed e \<le> now) m \<Longrightarrow> x \<in> set (last_uses m) \<Longrightarrow> x \<le> now"
  by (auto simp: last_uses_def vals_all_def list_all_iff)

lemma sorted_update_last:
  assumes "sorted (last_uses m)" and "vals_all (\<lambda>e. se_lastUsed e \<le> now) m"
    and "map_of m k = None" and "se_lastUsed e = now"
  shows "sorted (last_uses (AList.update k e m))"
proof -
  have "last_uses (AList.update k e m) = last_uses m @ [now]"
    using assms(3,4) by (simp add: update_fresh last_uses_def)
  then show ?thesis using assms(1) last_uses_bound [OF assms(2)] by (simp add: sorted_append)
qed

lemma recency_later: "recency_ok t c \<Longrightarrow> t \<le> now \<Longrightarrow> recency_ok now c"
  unfolding recency_ok_def by (auto elim: vals_all_mono)

lemma recency_evict: "recency_ok t c \<Longrightarrow> recency_ok t (evict k e c)"
  by (simp add: recency_ok_def sorted_delete js_map)

lemma recency_touch:
  assumes "recency_ok t c" and "t \<le> now"
  shows "recency_ok now (snd (touch k now c))"
proof (cases rule: touch_cases [of c k now])
  case (live e)
  have "sorted (last_uses (AList.delete k (mc_scopes c)))"
    "vals_all (\<lambda>e. se_lastUsed e \<le> now) (AList.delete k (mc_scopes c))"
    using recency_later [OF assms] by (simp_all add: recency_ok_def sorted_delete js_map)
  then show ?thesis
    using live(3) by (simp add: recency_ok_def sorted_update_last js_map)
qed (use recency_later [OF assms] recency_evict in simp_all)

lemma recency_make_room: "recency_ok t c \<Longrightarrow> recency_ok t (make_room c)"
  by (auto simp: make_room_def recency_evict split: list.splits)

lemma recency_acquire:
  assumes "recency_ok t c" and "t \<le> now"
  shows "recency_ok now (snd (acquire scope now c))
    \<and> map_of (mc_scopes (snd (acquire scope now c))) (cs_key scope) = Some (fst (acquire scope now c))"
  using acquire_origin [of c scope now]
proof
  assume "\<exists>e. map_of (mc_scopes c) (cs_key scope) = Some e \<and> now < se_expires e
      \<and> fst (acquire scope now c) = e\<lparr>se_lastUsed := now\<rparr>
      \<and> snd (acquire scope now c) = snd (touch (cs_key scope) now c)"
  then show ?thesis using recency_touch [OF assms] by (auto simp: touch_map)
next
  let ?c = "snd (touch (cs_key scope) now c)"
  assume new: "fst (acquire scope now c) = \<lparr>se_expires = now + mc_lifetimeMs c, se_tags = [],
        se_values = [], se_lastUsed = now\<rparr>
      \<and> snd (acquire scope now c) = snd (admit scope now ?c)
      \<and> map_of (mc_scopes ?c) (cs_key scope) = None"
  then have "map_of (mc_scopes (make_room ?c)) (cs_key scope) = None"
    by (intro make_room_absent) simp
  moreover have "recency_ok now (make_room ?c)"
    by (rule recency_make_room [OF recency_touch [OF assms]])
  ultimately have "recency_ok now (snd (admit scope now ?c))"
    by (simp add: recency_ok_def admit_scopes sorted_update_last [where now = now] js_map)
  then show ?thesis using new by (simp add: admit_scopes)
qed

lemma recency_set:
  assumes "recency_ok t c" and "t \<le> now"
  shows "recency_ok now (cache_set key v now c)"
proof (cases "0 < mc_lifetimeMs c")
  case False
  then show ?thesis using recency_later [OF assms] by (simp add: cache_set_def)
next
  case True
  let ?a = "acquire (ck_scope key) now c"
  obtain e where e: "se_lastUsed e = se_lastUsed (fst ?a)"
    "mc_scopes (cache_set key v now c) = AList.update (cs_key (ck_scope key)) e (mc_scopes (snd ?a))"
    using cache_set_map [OF True] by metis
  have a: "recency_ok now (snd ?a)" "map_of (mc_scopes (snd ?a)) (cs_key (ck_scope key)) = Some (fst ?a)"
    using recency_acquire [OF assms] by simp_all
  have "se_lastUsed (fst ?a) \<le> now"
    using a unfolding recency_ok_def by (auto dest: vals_allD)
  with e a last_uses_update_same [OF a(2) e(1)] show ?thesis
    by (simp add: recency_ok_def js_map)
qed

lemma recency_removeScope: "recency_ok t c \<Longrightarrow> recency_ok t (removeScope k c)"
  by (auto simp: removeScope_def recency_evict split: option.splits)

lemma recency_removeTag:
  assumes "recency_ok t c" shows "recency_ok t (removeTag tag c)"
proof -
  have "recency_ok t (foldl (\<lambda>c k. removeScope k c) c ks)" for ks
    using assms by (induction ks arbitrary: c) (simp_all add: recency_removeScope)
  then show ?thesis
    using assms by (auto simp: removeTag_def recency_ok_def Let_def split: option.splits)
qed

lemma recency_get: "recency_ok t c \<Longrightarrow> t \<le> now \<Longrightarrow> recency_ok now (snd (cache_get key now c))"
  by (simp add: cache_get_snd recency_touch recency_later)

lemma recency_run:
  "recency_ok t c \<Longrightarrow> op_times_from t ops \<Longrightarrow>
   recency_ok (last_time t ops) (run_cache cache_apply ops c)"
proof (induction ops arbitrary: t c)
  case Nil
  then show ?case by simp
next
  case (Cons op ops)
  then show ?case
    by (cases op) (simp_all add: recency_get recency_set recency_removeScope recency_removeTag,
        simp add: cache_clear_def recency_ok_def last_uses_def)
qed

lemma recency_new: "recency_ok t (new_cache l m)"
  by (simp add: recency_ok_def new_cache_def last_uses_def)

text \<open>The front entry has the smallest last use, and it alone makes room for a new caller.\<close>

lemma front_least_recent:
  assumes "recency_ok t c" and "mc_scopes c = (victim, e) # rest"
    and "map_of (mc_scopes c) k = Some e'"
  shows "se_lastUsed e \<le> se_lastUsed e'"
proof -
  have "(k, e') \<in> set ((victim, e) # rest)" using assms(2,3) by (metis map_of_SomeD)
  then have "e' = e \<or> se_lastUsed e' \<in> set (last_uses rest)"
    by (force simp: last_uses_def)
  with assms(1,2) show ?thesis by (auto simp: recency_ok_def last_uses_def)
qed

lemma set_new_caller_map:
  assumes "0 < mc_lifetimeMs c" and "map_of (mc_scopes c) (cs_key (ck_scope key)) = None"
    and "mc_maxCallers c \<le> int (length (mc_scopes c))" and "mc_scopes c = (victim, e) # rest"
    and "k \<noteq> cs_key (ck_scope key)"
  shows "map_of (mc_scopes (cache_set key v now c)) k = (if k = victim then None else map_of (mc_scopes c) k)"
proof -
  let ?a = "acquire (ck_scope key) now c"
  have "touch (cs_key (ck_scope key)) now c = (None, c)" using assms(2) by (simp add: touch_def)
  then have a: "snd ?a = snd (admit (ck_scope key) now c)" by (simp add: acquire_def)
  have room: "make_room c = evict victim e c" using assms(3,4) by (simp add: make_room_def)
  obtain e' where "mc_scopes (cache_set key v now c)
      = AList.update (cs_key (ck_scope key)) e' (mc_scopes (snd ?a))"
    using cache_set_map [OF assms(1)] by metis
  then show ?thesis using assms(5) by (simp add: a admit_scopes room)
qed

end
