(* ===== verification/Cache_Properties.thy ===== *)
theory Cache_Properties
  imports Cache_LRU
begin

text \<open>
  What the caller-scoped cache guarantees: the index invariant over whole runs, answers that come
  from the last write of their own slot, invalidation by tag, the lifetime bound, the eviction
  order, and keys that keep callers apart.
\<close>

section \<open>Runs of the memory cache\<close>

definition memory_run :: "int \<Rightarrow> int \<Rightarrow> cache_op list \<Rightarrow> memory_cache" where
  "memory_run l m ops = run_cache cache_apply ops (new_cache l m)"

lemma memory_run_ok: "cache_ok (memory_run l m ops)"
  unfolding memory_run_def by (rule mc.inv_run [OF new_cache_ok])

definition demo_scope :: "string \<Rightarrow> caller_scope" where
  "demo_scope k = \<lparr>cs_key = k, cs_tags = [''tenant:'' @ k]\<rparr>"

definition demo_key :: "string \<Rightarrow> cache_key" where
  "demo_key k = \<lparr>ck_scope = demo_scope k, ck_kind = Facts, ck_subkey = None\<rparr>"

definition demo_ops :: "cache_op list" where
  "demo_ops = [Op_set (demo_key ''ann'') ''A'' 0, Op_set (demo_key ''bob'') ''B'' 5]"

lemmas cache_eval = demo_scope_def demo_key_def demo_ops_def new_cache_def cache_set_def touch_def
  admit_def evict_def add_tag_def indexTag_def unindex_tag_def set_add_def set_remove_def valueKey_def
  cache_get_def cache_answer_def Let_def carries_tag_def scope_tag_set_def removeTag_def
  removeScope_def

text \<open>
  C11: Whatever calls are made, the tag index and the callers' tags describe the same relation, no
  tag is left without callers, and the number of callers never exceeds \<open>maxCallers\<close> (one when
  the option is below one).
\<close>

theorem cache_index_coherent:
  "(k \<in> tagged (mc_tagIndex (memory_run l m ops)) t \<longleftrightarrow>
      (\<exists>e. map_of (mc_scopes (memory_run l m ops)) k = Some e \<and> t \<in> set (se_tags e)))
   \<and> map_of (mc_tagIndex (memory_run l m ops)) t \<noteq> Some []
   \<and> length (mc_scopes (memory_run l m ops)) \<le> max 1 (nat (mc_maxCallers (memory_run l m ops)))"
proof -
  let ?c = "memory_run l m ops"
  have wf: "index_wf (mc_tagIndex ?c)" and tags: "tagged (mc_tagIndex ?c) t = {k. t \<in> scope_tag_set ?c k}"
    using memory_run_ok by (simp_all add: cache_ok_def index_agrees_def)
  have "k \<in> tagged (mc_tagIndex ?c) t \<longleftrightarrow>
      (\<exists>e. map_of (mc_scopes ?c) k = Some e \<and> t \<in> set (se_tags e))"
    by (auto simp: tags scope_tag_set_def split: option.splits)
  moreover have "map_of (mc_tagIndex ?c) t \<noteq> Some []"
    using wf by (auto simp: index_wf_def dest: vals_allD)
  moreover have "length (mc_scopes ?c) \<le> max 1 (nat (mc_maxCallers ?c))"
    using memory_run_ok [of l m ops] by (simp add: cache_ok_def capacity_def)
  ultimately show ?thesis by blast
qed

text \<open>
  An answer of \<open>get\<close> was stored by an earlier \<open>set\<close> of the same caller scope and the same
  value key, and no later call overwrote it with another value, removed the scope or cleared the
  cache: one caller is never served a value of another.
\<close>

theorem cache_answers_own_last_write:
  assumes "fst (cache_get key now (memory_run l m ops)) = Some v"
  shows "\<exists>pre op post. ops = pre @ op # post
    \<and> writes_slot (cs_key (ck_scope key)) (valueKey key) v op
    \<and> (\<forall>op' \<in> set post. \<not> kills_slot (cs_key (ck_scope key)) (valueKey key) v op')"
proof -
  have "stored_value (new_cache l m) k vk = None" for k vk
    by (simp add: stored_value_def new_cache_def)
  moreover have "cache_answer key now (run_cache cache_apply ops (new_cache l m)) = Some v"
    using assms by (simp add: cache_answer_def memory_run_def)
  ultimately show ?thesis by (rule mc.answer_from_write [OF new_cache_ok])
qed

lemma cache_answers_own_last_write_witness:
  "fst (cache_get (demo_key ''ann'') 9 (memory_run 10 2 demo_ops)) = Some ''A''
   \<and> (\<exists>pre op post. demo_ops = pre @ op # post \<and> writes_slot ''ann'' ''facts'' ''A'' op
      \<and> (\<forall>op' \<in> set post. \<not> kills_slot ''ann'' ''facts'' ''A'' op'))"
proof -
  have h: "fst (cache_get (demo_key ''ann'') 9 (memory_run 10 2 demo_ops)) = Some ''A''"
    by code_simp
  have "cs_key (ck_scope (demo_key ''ann'')) = ''ann''" "valueKey (demo_key ''ann'') = ''facts''"
    by (simp_all add: demo_key_def demo_scope_def valueKey_def)
  with h cache_answers_own_last_write [OF h] show ?thesis by simp
qed

text \<open>
  Removing a tag invalidates every caller that carries it: until a new \<open>set\<close> of that very
  slot, no sequence of calls makes \<open>get\<close> answer for such a caller again.
\<close>

theorem cache_tag_removal_invalidates:
  assumes "map_of (mc_scopes (memory_run l m ops)) (cs_key (ck_scope key)) = Some e" and "t \<in> set (se_tags e)"
    and "\<forall>op \<in> set ops'. \<not> writes_slot (cs_key (ck_scope key)) (valueKey key) v op"
  shows "fst (cache_get key now (run_cache cache_apply ops' (removeTag t (memory_run l m ops)))) \<noteq> Some v"
proof
  let ?c = "memory_run l m ops"
  assume "fst (cache_get key now (run_cache cache_apply ops' (removeTag t ?c))) = Some v"
  then have "cache_answer key now (run_cache cache_apply ops' (cache_apply (Op_removeTag t) ?c)) = Some v"
    by (simp add: cache_answer_def)
  moreover have "carries_tag ?c (cs_key (ck_scope key)) t"
    using assms(1,2) by (simp add: carries_tag_def scope_tag_set_def)
  ultimately show False using mc.tag_removed_needs_write [OF memory_run_ok] assms(3) by blast
qed

lemma cache_tag_removal_invalidates_witness:
  "fst (cache_get (demo_key ''ann'') 9
     (run_cache cache_apply [Op_get (demo_key ''bob'') 8]
       (removeTag ''tenant:ann'' (memory_run 10 2 demo_ops)))) \<noteq> Some ''A''"
proof (rule cache_tag_removal_invalidates)
  let ?e = "\<lparr>se_expires = 10, se_tags = [''tenant:ann''], se_values = [(''facts'', ''A'')],
    se_lastUsed = 0\<rparr>"
  show "map_of (mc_scopes (memory_run 10 2 demo_ops))
      (cs_key (ck_scope (demo_key ''ann''))) = Some ?e"
    by code_simp
  show "''tenant:ann'' \<in> set (se_tags ?e)" by simp
qed simp

text \<open>
  The lifetime is absolute: if every \<open>set\<close> so far happened by time \<open>t\<close>, then from
  \<open>t + lifetimeMs\<close> on \<open>get\<close> answers nothing, however often the entries were read in between and
  whatever times those reads carried.
\<close>

theorem cache_lifetime_absolute:
  assumes "list_all (set_before t) ops" and "t + l \<le> now"
  shows "fst (cache_get key now (memory_run l m ops)) = None"
proof -
  have "expires_by (t + mc_lifetimeMs (new_cache l m)) (run_cache cache_apply ops (new_cache l m))"
    by (rule expires_by_run [OF _ assms(1)]) (simp add: expires_by_def new_cache_def)
  then have "expires_by (t + l) (run_cache cache_apply ops (new_cache l m))"
    by (simp add: new_cache_def)
  from expired_no_answer [OF this assms(2)] show ?thesis by (simp add: cache_answer_def memory_run_def)
qed

lemma cache_lifetime_absolute_witness:
  "fst (cache_get (demo_key ''ann'') 15
     (memory_run 10 2 (demo_ops @ [Op_get (demo_key ''ann'') 9]))) = None"
  by (rule cache_lifetime_absolute [of 5]) (simp_all add: demo_ops_def)

text \<open>
  \<open>set\<close> followed by \<open>get\<close> at the same time answers the value just stored, whatever the cache
  held before and even if it had to evict a caller to make room.
\<close>

theorem cache_read_your_write:
  assumes "0 < mc_lifetimeMs c"
  shows "fst (cache_get key now (cache_set key v now c)) = Some v"
proof -
  obtain e where e: "map_of (mc_scopes (cache_set key v now c)) (cs_key (ck_scope key)) = Some e"
    "se_values e = AList.update (valueKey key) v (se_values (fst (acquire (ck_scope key) now c)))"
    "se_expires e = se_expires (fst (acquire (ck_scope key) now c))"
    using cache_set_map [OF assms, of key v now] by metis
  have "now < se_expires e"
    using acquire_origin [of c "ck_scope key" now] e(3) assms by auto
  with e assms have "cache_answer key now (cache_set key v now c) = Some v"
    by (simp add: cache_get_fst)
  then show ?thesis by (simp add: cache_answer_def)
qed

lemma cache_read_your_write_witness:
  "0 < mc_lifetimeMs (new_cache 10 2)
   \<and> fst (cache_get (demo_key ''ann'') 3 (cache_set (demo_key ''ann'') ''A'' 3 (new_cache 10 2))) = Some ''A''"
proof -
  have h: "0 < mc_lifetimeMs (new_cache 10 2)" by (simp add: new_cache_def)
  with cache_read_your_write [OF h] show ?thesis by blast
qed

text \<open>
  With a clock that never goes back, a new caller admitted to a full cache takes the place of
  exactly one caller, one whose last use is the oldest of all; every other caller keeps its entry.
\<close>

theorem cache_evicts_least_recently_used:
  assumes "0 < mc_lifetimeMs (memory_run l m ops)" and "op_times_from t ops"
    and "map_of (mc_scopes (memory_run l m ops)) (cs_key (ck_scope key)) = None"
    and "mc_scopes (memory_run l m ops) \<noteq> []" and "mc_maxCallers (memory_run l m ops) \<le> int (length (mc_scopes (memory_run l m ops)))"
  shows "\<exists>victim e. map_of (mc_scopes (memory_run l m ops)) victim = Some e
    \<and> (\<forall>k e'. map_of (mc_scopes (memory_run l m ops)) k = Some e' \<longrightarrow> se_lastUsed e \<le> se_lastUsed e')
    \<and> (\<forall>k. k \<noteq> cs_key (ck_scope key) \<longrightarrow>
         map_of (mc_scopes (cache_set key v now (memory_run l m ops))) k = (if k = victim then None else map_of (mc_scopes (memory_run l m ops)) k))"
proof -
  obtain victim e rest where front: "mc_scopes (memory_run l m ops) = (victim, e) # rest"
    using assms(4) by (cases "mc_scopes (memory_run l m ops)") auto
  have "recency_ok (last_time t ops) (memory_run l m ops)"
    unfolding memory_run_def by (rule recency_run [OF recency_new assms(2)])
  note order = front_least_recent [OF this front]
  show ?thesis
    using front order set_new_caller_map [OF assms(1,3,5) front]
    by (intro exI [of _ victim] exI [of _ e]) auto
qed

lemma cache_evicts_least_recently_used_witness:
  "\<exists>victim e. map_of (mc_scopes (memory_run 10 2 demo_ops)) victim = Some e
    \<and> (\<forall>k e'. map_of (mc_scopes (memory_run 10 2 demo_ops)) k = Some e'
         \<longrightarrow> se_lastUsed e \<le> se_lastUsed e')
    \<and> (\<forall>k. k \<noteq> cs_key (ck_scope (demo_key ''cyd'')) \<longrightarrow>
         map_of (mc_scopes (cache_set (demo_key ''cyd'') ''C'' 7
             (memory_run 10 2 demo_ops))) k
           = (if k = victim then None else map_of (mc_scopes (memory_run 10 2 demo_ops)) k))"
proof (rule cache_evicts_least_recently_used [where t = 0])
  show "0 < mc_lifetimeMs (memory_run 10 2 demo_ops)" by code_simp
  show "op_times_from 0 demo_ops" by (simp add: demo_ops_def)
  show "map_of (mc_scopes (memory_run 10 2 demo_ops))
      (cs_key (ck_scope (demo_key ''cyd''))) = None" by code_simp
  show "mc_scopes (memory_run 10 2 demo_ops) \<noteq> []" by code_simp
  show "mc_maxCallers (memory_run 10 2 demo_ops)
      \<le> int (length (mc_scopes (memory_run 10 2 demo_ops)))" by code_simp
qed

section \<open>Keys keep callers and slots apart\<close>

lemma createCallerScope_Inr:
  "createCallerScope key tgs = Inr scope \<Longrightarrow>
   cs_key scope = key \<and> key \<noteq> [] \<and> CHR '':'' \<notin> set key \<and> cs_tags scope = tgs
   \<and> (\<forall>t \<in> set tgs. is_cache_tag t)"
  by (auto simp: createCallerScope_def res_iff split: if_splits)

lemma kind_text_no_colon: "CHR '':'' \<notin> set (kind_text k)"
  by (cases k) simp_all

lemma kind_text_inj: "kind_text k = kind_text k' \<longleftrightarrow> k = k'"
  by (cases k; cases k') simp_all

lemma valueKey_inj: "valueKey k = valueKey k' \<longleftrightarrow> ck_kind k = ck_kind k' \<and> ck_subkey k = ck_subkey k'"
proof -
  have no: "kind_text a \<noteq> kind_text b @ CHR '':'' # s" for a b s
    using kind_text_no_colon [of a] by (metis in_set_conv_decomp)
  show ?thesis
    using no no [symmetric]
    by (auto simp: valueKey_def kind_text_inj append_sep_inj kind_text_no_colon split: option.splits)
qed

lemma flattenCacheKey_eq:
  "flattenCacheKey k = ''liaiso:v1:'' @ cs_key (ck_scope k) @ CHR '':'' # valueKey k"
  by (simp add: flattenCacheKey_def valueKey_def split: option.splits)

text \<open>
  Two cache keys whose scopes passed \<open>createCallerScope\<close> flatten to the same string only if
  they name the same caller, kind and subkey, so a shared store cannot confuse two callers.
\<close>

theorem flattenCacheKey_injective:
  assumes "createCallerScope key1 tags1 = Inr (ck_scope k1)"
    and "createCallerScope key2 tags2 = Inr (ck_scope k2)"
    and "flattenCacheKey k1 = flattenCacheKey k2"
  shows "cs_key (ck_scope k1) = cs_key (ck_scope k2) \<and> ck_kind k1 = ck_kind k2
    \<and> ck_subkey k1 = ck_subkey k2"
proof -
  have "CHR '':'' \<notin> set (cs_key (ck_scope k1))" "CHR '':'' \<notin> set (cs_key (ck_scope k2))"
    using createCallerScope_Inr [OF assms(1)] createCallerScope_Inr [OF assms(2)] by auto
  then show ?thesis using assms(3) by (simp add: flattenCacheKey_eq append_sep_inj valueKey_inj)
qed

lemma flattenCacheKey_injective_witness:
  "cs_key (ck_scope (demo_key ''ann'')) = ''ann'' \<and> ck_kind (demo_key ''ann'') = Facts
   \<and> ck_subkey (demo_key ''ann'') = None"
proof -
  have h: "createCallerScope ''ann'' [''tenant:ann''] = Inr (ck_scope (demo_key ''ann''))" by code_simp
  show ?thesis
    using flattenCacheKey_injective [OF h h refl]
    by (simp add: demo_key_def demo_scope_def)
qed

lemma digest_lines_inj:
  assumes "concat (map (digest_line h1) cs) = concat (map (digest_line h2) cs)"
    and "\<forall>c \<in> set cs. CHR 0x0A \<notin> set (flat_header (h1 c)) \<and> CHR 0x0A \<notin> set (flat_header (h2 c))"
  shows "\<forall>c \<in> set cs. flat_header (h1 c) = flat_header (h2 c)"
  using assms
proof (induction cs)
  case Nil
  then show ?case by simp
next
  case (Cons c cs)
  have "concat (map (digest_line h) (c # cs)) =
      (to_lower c @ ''='') @ flat_header (h c) @ CHR 0x0A # concat (map (digest_line h) cs)" for h
    by (simp add: digest_line_def)
  with Cons.prems(1) have "flat_header (h1 c) @ CHR 0x0A # concat (map (digest_line h1) cs)
      = flat_header (h2 c) @ CHR 0x0A # concat (map (digest_line h2) cs)"
    by (simp only: same_append_eq)
  with Cons.prems(2) have "flat_header (h1 c) = flat_header (h2 c)"
    "concat (map (digest_line h1) cs) = concat (map (digest_line h2) cs)"
    by (simp_all add: append_sep_inj)
  with Cons.IH Cons.prems(2) show ?case by simp
qed

text \<open>
  The text a caller scope is hashed from determines every identity carrier's value: two
  requests with the same \<open>digestInput\<close> carry the same flattened value in each carrier header, given
  that header values hold no line feed.
\<close>

theorem digestInput_separates_callers:
  assumes "digestInput carriers h1 = digestInput carriers h2"
    and "\<forall>c \<in> set carriers. CHR 0x0A \<notin> set (flat_header (h1 c)) \<and> CHR 0x0A \<notin> set (flat_header (h2 c))"
    and "carrier \<in> set carriers"
  shows "flat_header (h1 carrier) = flat_header (h2 carrier)"
  using digest_lines_inj [of h1 "sort_key to_lower carriers" h2] assms by (simp add: digestInput_def)

lemma digestInput_separates_callers_witness:
  "flat_header ((\<lambda>_. Some (One_value ''t1'')) ''Authorization'')
     = flat_header ((\<lambda>n. if n = ''Authorization'' then Some (Many_values [''t1'']) else None) ''Authorization'')"
  by (rule digestInput_separates_callers [where carriers = "[''Authorization'']"])
    (simp_all add: digestInput_def digest_line_def flat_header_def)

text \<open>
  The digest does not depend on the order in which the host lists its carriers, as long as no
  two of them differ only in letter case.
\<close>

theorem digestInput_order_irrelevant:
  assumes "mset carriers = mset carriers'" and "distinct (map to_lower carriers)"
  shows "digestInput carriers header = digestInput carriers' header"
proof -
  have "inj_on to_lower (set carriers)" using assms(2) by (simp add: distinct_map)
  then have "sort_key to_lower carriers = sort_key to_lower carriers'"
    using assms(1) by (intro sort_key_inj_key_eq) simp_all
  then show ?thesis by (simp add: digestInput_def)
qed

lemma digestInput_order_irrelevant_witness:
  "digestInput [''Cookie'', ''Authorization''] (\<lambda>_. None) = digestInput [''Authorization'', ''Cookie''] (\<lambda>_. None)"
  by (rule digestInput_order_irrelevant) (simp_all add: to_lower_def lower_char_def)

end
