(* ===== verification/Selection.thy ===== *)
theory Selection
  imports JS_String
begin

text \<open>
  Which endpoints enter the catalog: the route patterns of \<open>packages/http/core/src/route-glob.ts\<close>
  and the include/exclude markers and rules of \<open>selection.ts\<close>.

  \<open>matchesRoute\<close> builds a regular expression from the pattern, with every other metacharacter
  escaped. The model keeps the two wildcards as tokens and matches as the expression does: \<open>[^/]*\<close>
  for \<open>*\<close>, \<open>.*\<close> (any run without a line terminator) for \<open>**\<close>, every other character itself.
\<close>

section \<open>Route patterns\<close>

datatype glob_token = Lit char | Star | Double_star

text \<open>\<open>split("**")\<close> takes pairs of stars from the left; what is left of a run is one \<open>*\<close>.\<close>

fun glob_tokens :: "string \<Rightarrow> glob_token list" where
  "glob_tokens [] = []"
| "glob_tokens (c # cs) =
     (if c = CHR ''*'' then
        (case cs of [] \<Rightarrow> [Star]
         | d # ds \<Rightarrow> if d = CHR ''*'' then Double_star # glob_tokens ds else Star # glob_tokens cs)
      else Lit c # glob_tokens cs)"

definition is_line_terminator :: "char \<Rightarrow> bool" where
  "is_line_terminator c = (c = CHR 0x0A \<or> c = CHR 0x0D)"

fun glob_matches :: "glob_token list \<Rightarrow> string \<Rightarrow> bool" where
  "glob_matches [] s = (s = [])"
| "glob_matches (Lit c # ts) s = (case s of [] \<Rightarrow> False | x # xs \<Rightarrow> x = c \<and> glob_matches ts xs)"
| "glob_matches (Star # ts) s = (glob_matches ts s \<or>
     (case s of [] \<Rightarrow> False | x # xs \<Rightarrow> x \<noteq> CHR ''/'' \<and> glob_matches (Star # ts) xs))"
| "glob_matches (Double_star # ts) s = (glob_matches ts s \<or>
     (case s of [] \<Rightarrow> False
      | x # xs \<Rightarrow> \<not> is_line_terminator x \<and> glob_matches (Double_star # ts) xs))"

definition matchesRoute :: "string \<Rightarrow> string \<Rightarrow> bool" where
  "matchesRoute pattern route = glob_matches (glob_tokens pattern) route"

section \<open>Selection rules and markers\<close>

datatype decision = Include | Exclude

datatype marker = Marked decision | Both

datatype selection_error = Ambiguous_markers string | Ambiguous_rules

record selection_rule =
  sr_route :: "string option"
  sr_method :: "string option"
  sr_decision :: decision

definition reject_both :: "marker option \<Rightarrow> string \<Rightarrow> selection_error + unit" where
  "reject_both m level = throw_if (m = Some Both) (Ambiguous_markers level)"

definition specificityOf :: "selection_rule \<Rightarrow> nat" where
  "specificityOf r = (if sr_route r = None then 0 else 1) + (if sr_method r = None then 0 else 1)"

definition matchesEndpoint :: "selection_rule \<Rightarrow> string \<Rightarrow> string \<Rightarrow> bool" where
  "matchesEndpoint r route meth =
     ((case sr_route r of None \<Rightarrow> True | Some p \<Rightarrow> matchesRoute p route)
      \<and> (case sr_method r of None \<Rightarrow> True | Some m \<Rightarrow> to_upper m = to_upper meth))"

definition resolveRules :: "selection_rule list option \<Rightarrow> string \<Rightarrow> string
    \<Rightarrow> selection_error + decision option" where
  "resolveRules rules route meth =
     (let matching = filter (\<lambda>r. matchesEndpoint r route meth) (case rules of None \<Rightarrow> [] | Some rs \<Rightarrow> rs)
      in if matching = [] then Inr None
         else (let sharpest = Max (set (map specificityOf matching));
                   decisions = remdups (map sr_decision (filter (\<lambda>r. specificityOf r = sharpest) matching))
               in if length decisions > 1 then Inl Ambiguous_rules else Inr (Some (hd decisions))))"

definition isSelected :: "decision \<Rightarrow> marker option \<Rightarrow> marker option \<Rightarrow> marker option
    \<Rightarrow> selection_error + bool" where
  "isSelected defaultDecision container operation rule =
     res_bind (reject_both container ''container'') (\<lambda>_.
     res_bind (reject_both operation ''operation'') (\<lambda>_. Inr (
       case operation of Some m \<Rightarrow> m = Marked Include
       | None \<Rightarrow> (case container of Some m \<Rightarrow> m = Marked Include
         | None \<Rightarrow> (case rule of Some m \<Rightarrow> m = Marked Include
           | None \<Rightarrow> defaultDecision = Include)))))"

definition combineMarkers :: "bool \<Rightarrow> bool \<Rightarrow> marker option" where
  "combineMarkers inc exc =
     (if inc \<and> exc then Some Both else if inc then Some (Marked Include)
      else if exc then Some (Marked Exclude) else None)"

section \<open>What patterns match\<close>

text \<open>The text one token may stand for, as the regular expression reads it.\<close>

fun token_text :: "glob_token \<Rightarrow> string \<Rightarrow> bool" where
  "token_text (Lit c) w = (w = [c])"
| "token_text Star w = (CHR ''/'' \<notin> set w)"
| "token_text Double_star w = list_all (\<lambda>c. \<not> is_line_terminator c) w"

lemma star_step:
  "(\<exists>a b. x # xs = a @ b \<and> P a \<and> Q b) \<longleftrightarrow> P [] \<and> Q (x # xs) \<or> (\<exists>a b. xs = a @ b \<and> P (x # a) \<and> Q b)"
  by (auto simp: Cons_eq_append_conv)

lemma glob_matches_Cons:
  "glob_matches (t # ts) s \<longleftrightarrow> (\<exists>a b. s = a @ b \<and> token_text t a \<and> glob_matches ts b)"
proof (cases t)
  case (Lit c)
  then show ?thesis by (cases s) auto
next
  case Star
  have "glob_matches (Star # ts) s \<longleftrightarrow> (\<exists>a b. s = a @ b \<and> token_text Star a \<and> glob_matches ts b)"
  proof (induction s)
    case (Cons x xs)
    then show ?case by (subst star_step) auto
  qed auto
  with Star show ?thesis by simp
next
  case Double_star
  have "glob_matches (Double_star # ts) s
      \<longleftrightarrow> (\<exists>a b. s = a @ b \<and> token_text Double_star a \<and> glob_matches ts b)"
  proof (induction s)
    case (Cons x xs)
    then show ?case by (subst star_step) auto
  qed auto
  with Double_star show ?thesis by simp
qed

lemma glob_matches_iff:
  "glob_matches ts s \<longleftrightarrow> (\<exists>ws. s = concat ws \<and> list_all2 token_text ts ws)"
proof (induction ts arbitrary: s)
  case Nil
  show ?case by simp
next
  case (Cons t ts)
  show ?case
    unfolding glob_matches_Cons Cons.IH list_all2_Cons1
    by (metis concat.simps(2))
qed

definition token_slashes :: "glob_token list \<Rightarrow> nat" where
  "token_slashes ts = length (filter (\<lambda>t. t = Lit (CHR ''/'')) ts)"

lemma token_slashes_simps [simp]:
  "token_slashes [] = 0"
  "token_slashes (t # ts) = (if t = Lit (CHR ''/'') then 1 else 0) + token_slashes ts"
  by (simp_all add: token_slashes_def)

lemma token_text_slashes:
  "token_text t w \<Longrightarrow> t \<noteq> Double_star \<Longrightarrow>
   count_list w (CHR ''/'') = (if t = Lit (CHR ''/'') then 1 else 0)"
  by (cases t) auto

lemma glob_matches_slashes:
  "glob_matches ts s \<Longrightarrow> Double_star \<notin> set ts \<Longrightarrow> count_list s (CHR ''/'') = token_slashes ts"
proof (induction ts arbitrary: s)
  case Nil
  then show ?case by simp
next
  case (Cons t ts)
  from Cons.prems(1) obtain a b where "s = a @ b" "token_text t a" "glob_matches ts b"
    unfolding glob_matches_Cons by blast
  moreover from Cons.prems(2) have "t \<noteq> Double_star" "Double_star \<notin> set ts" by auto
  ultimately show ?case using Cons.IH [of b] token_text_slashes [of t a] by simp
qed

lemma glob_tokens_slashes: "token_slashes (glob_tokens p) = count_list p (CHR ''/'')"
proof (induction p rule: glob_tokens.induct)
  case 1
  show ?case by simp
next
  case (2 c cs)
  show ?case
  proof (cases "c = CHR ''*'' \<and> cs \<noteq> [] \<and> hd cs = CHR ''*''")
    case True
    then obtain ds where "cs = CHR ''*'' # ds" by (cases cs) auto
    with 2(1) True show ?thesis by simp
  next
    case False
    with 2(2,3) show ?thesis by (cases cs) (auto split: if_split_asm)
  qed
qed

lemma glob_tokens_literal: "CHR ''*'' \<notin> set p \<Longrightarrow> glob_tokens p = map Lit p"
  by (induction p rule: glob_tokens.induct) auto

lemma glob_matches_literal: "glob_matches (map Lit p) s \<longleftrightarrow> s = p"
  by (induction p arbitrary: s) (auto split: list.splits)

section \<open>Properties\<close>


text \<open>
  A pattern without \<open>**\<close> only matches routes with as many path separators as it has, so a \<open>*\<close>
  never reaches across a segment boundary.
\<close>

theorem single_star_stays_in_segment:
  assumes "matchesRoute pattern route" and "Double_star \<notin> set (glob_tokens pattern)"
  shows "count_list route (CHR ''/'') = count_list pattern (CHR ''/'')"
  using glob_matches_slashes [of "glob_tokens pattern" route] assms
  by (simp add: matchesRoute_def glob_tokens_slashes)

lemma single_star_stays_in_segment_witness:
  "matchesRoute ''/a*/{id}'' ''/api/{id}'' \<and> count_list ''/api/{id}'' (CHR ''/'') = count_list ''/a*/{id}'' (CHR ''/'')"
proof -
  have h: "matchesRoute ''/a*/{id}'' ''/api/{id}''" by (simp add: matchesRoute_def)
  have h2: "Double_star \<notin> set (glob_tokens ''/a*/{id}'')" by simp
  show ?thesis using h single_star_stays_in_segment [OF h h2] by blast
qed

text \<open>The decisions of the matching rules that no matching rule is more specific than.\<close>

definition sharp_decisions :: "selection_rule set \<Rightarrow> string \<Rightarrow> string \<Rightarrow> decision set" where
  "sharp_decisions rs route meth = sr_decision ` {r \<in> rs. matchesEndpoint r route meth
     \<and> (\<forall>r' \<in> rs. matchesEndpoint r' route meth \<longrightarrow> specificityOf r' \<le> specificityOf r)}"

lemma Max_specificity:
  assumes "rs \<noteq> []"
  shows "specificityOf r = Max (set (map specificityOf rs)) \<and> r \<in> set rs
    \<longleftrightarrow> r \<in> set rs \<and> (\<forall>r' \<in> set rs. specificityOf r' \<le> specificityOf r)"
proof
  assume "specificityOf r = Max (set (map specificityOf rs)) \<and> r \<in> set rs"
  then show "r \<in> set rs \<and> (\<forall>r' \<in> set rs. specificityOf r' \<le> specificityOf r)" by simp
next
  assume r: "r \<in> set rs \<and> (\<forall>r' \<in> set rs. specificityOf r' \<le> specificityOf r)"
  then have "Max (set (map specificityOf rs)) = specificityOf r" by (intro Max_eqI) auto
  with r show "specificityOf r = Max (set (map specificityOf rs)) \<and> r \<in> set rs" by simp
qed

lemma resolveRules_cases:
  obtains (none) "\<forall>r \<in> set rules. \<not> matchesEndpoint r route meth"
      and "resolveRules (Some rules) route meth = Inr None"
  | (one) d where "sharp_decisions (set rules) route meth = {d}"
      and "resolveRules (Some rules) route meth = Inr (Some d)"
  | (clash) d d' where "d \<in> sharp_decisions (set rules) route meth"
      and "d' \<in> sharp_decisions (set rules) route meth" and "d \<noteq> d'"
      and "resolveRules (Some rules) route meth = Inl Ambiguous_rules"
proof -
  define m where "m = filter (\<lambda>r. matchesEndpoint r route meth) rules"
  define ds where "ds = map sr_decision (filter (\<lambda>r. specificityOf r = Max (set (map specificityOf m))) m)"
  have eq: "resolveRules (Some rules) route meth =
      (if m = [] then Inr None else if length (remdups ds) > 1 then Inl Ambiguous_rules
       else Inr (Some (hd (remdups ds))))"
    by (simp add: resolveRules_def m_def ds_def Let_def)
  show ?thesis
  proof (cases "m = []")
    case True
    then have "\<forall>r \<in> set rules. \<not> matchesEndpoint r route meth"
      unfolding m_def by (simp add: filter_empty_conv)
    with eq True show ?thesis by (intro none) simp_all
  next
    case False
    have S: "set ds = sharp_decisions (set rules) route meth"
    proof -
      have "set ds = sr_decision ` {r. specificityOf r = Max (set (map specificityOf m)) \<and> r \<in> set m}"
        unfolding ds_def by auto
      also have "\<dots> = sr_decision ` {r \<in> set m. \<forall>r' \<in> set m. specificityOf r' \<le> specificityOf r}"
        unfolding Max_specificity [OF False] by simp
      also have "\<dots> = sharp_decisions (set rules) route meth"
        unfolding sharp_decisions_def m_def by (auto intro!: image_eqI)
      finally show ?thesis .
    qed
    have "Max (set (map specificityOf m)) \<in> set (map specificityOf m)"
      using False by (intro Max_in) simp_all
    then have ne: "ds \<noteq> []" unfolding ds_def by (force simp: filter_empty_conv)
    show ?thesis
    proof (cases "length (remdups ds) > 1")
      case True
      then obtain d d' where "d \<in> set ds" "d' \<in> set ds" "d \<noteq> d'"
        by (auto simp: length_remdups_card_conv card_le_Suc0_iff_eq not_le [symmetric])
      with S eq False True show ?thesis by (intro clash [of d d']) simp_all
    next
      case False
      then have "\<forall>x \<in> set ds. \<forall>y \<in> set ds. x = y"
        by (simp add: length_remdups_card_conv card_le_Suc0_iff_eq not_less)
      moreover have "hd (remdups ds) \<in> set ds"
        using ne by (metis hd_in_set set_remdups remdups_eq_nil_iff)
      ultimately have "set ds = {hd (remdups ds)}" by blast
      with S eq False \<open>m \<noteq> []\<close> show ?thesis by (intro one [of "hd (remdups ds)"]) simp_all
    qed
  qed
qed

text \<open>
  The order and repetition of the host's rules carry no meaning: two rule lists with the same
  elements resolve to the same marker or to the same ambiguity error, for every endpoint.
\<close>

theorem resolveRules_order_irrelevant:
  assumes "set rules = set rules'"
  shows "resolveRules (Some rules) route meth = resolveRules (Some rules') route meth"
  by (cases rule: resolveRules_cases [of rules route meth];
      cases rule: resolveRules_cases [of rules' route meth])
    (use assms in \<open>auto simp: sharp_decisions_def\<close>)

lemma resolveRules_order_irrelevant_witness:
  "resolveRules (Some [\<lparr>sr_route = Some ''/a'', sr_method = None, sr_decision = Include\<rparr>,
      \<lparr>sr_route = None, sr_method = Some ''get'', sr_decision = Include\<rparr>]) ''/a'' ''GET''
   = resolveRules (Some [\<lparr>sr_route = None, sr_method = Some ''get'', sr_decision = Include\<rparr>,
      \<lparr>sr_route = Some ''/a'', sr_method = None, sr_decision = Include\<rparr>]) ''/a'' ''GET''"
  by (rule resolveRules_order_irrelevant) auto

text \<open>
  A resolved rule decision is the decision of every matching rule of maximal specificity, and
  the resolution fails exactly when two such rules disagree.
\<close>

theorem resolveRules_most_specific:
  "case resolveRules (Some rules) route meth of
     Inr None \<Rightarrow> \<forall>r \<in> set rules. \<not> matchesEndpoint r route meth
   | Inr (Some d) \<Rightarrow> (\<exists>r \<in> set rules. matchesEndpoint r route meth)
       \<and> (\<forall>r \<in> set rules. matchesEndpoint r route meth
            \<and> (\<forall>r' \<in> set rules. matchesEndpoint r' route meth \<longrightarrow> specificityOf r' \<le> specificityOf r)
          \<longrightarrow> sr_decision r = d)
   | Inl e \<Rightarrow> e = Ambiguous_rules \<and> (\<exists>r \<in> set rules. \<exists>r' \<in> set rules.
       matchesEndpoint r route meth \<and> matchesEndpoint r' route meth
       \<and> specificityOf r = specificityOf r' \<and> sr_decision r \<noteq> sr_decision r')"
proof (cases rule: resolveRules_cases [of rules route meth])
  case none
  then show ?thesis by simp
next
  case (one d)
  then have "d \<in> sharp_decisions (set rules) route meth" by simp
  then have "\<exists>r \<in> set rules. matchesEndpoint r route meth" by (auto simp: sharp_decisions_def)
  moreover have "sr_decision r = d" if "r \<in> set rules" "matchesEndpoint r route meth"
    "\<forall>r' \<in> set rules. matchesEndpoint r' route meth \<longrightarrow> specificityOf r' \<le> specificityOf r" for r
  proof -
    have "sr_decision r \<in> sharp_decisions (set rules) route meth"
      using that by (auto simp: sharp_decisions_def)
    with one(1) show ?thesis by simp
  qed
  ultimately show ?thesis using one(2) by simp
next
  case (clash d d')
  then obtain r r' where "r \<in> set rules" "r' \<in> set rules" "matchesEndpoint r route meth"
    "matchesEndpoint r' route meth" "specificityOf r \<le> specificityOf r'"
    "specificityOf r' \<le> specificityOf r" "sr_decision r \<noteq> sr_decision r'"
    unfolding sharp_decisions_def by blast
  then have "\<exists>r \<in> set rules. \<exists>r' \<in> set rules. matchesEndpoint r route meth
      \<and> matchesEndpoint r' route meth \<and> specificityOf r = specificityOf r'
      \<and> sr_decision r \<noteq> sr_decision r'"
    by (meson order_antisym)
  with clash(4) show ?thesis by simp
qed

lemma resolveRules_most_specific_witness:
  "resolveRules (Some [\<lparr>sr_route = Some ''/a/**'', sr_method = None, sr_decision = Exclude\<rparr>,
      \<lparr>sr_route = Some ''/a/*'', sr_method = Some ''get'', sr_decision = Include\<rparr>]) ''/a/b'' ''GET''
     = Inr (Some Include)
   \<and> sr_decision \<lparr>sr_route = Some ''/a/*'', sr_method = Some ''get'', sr_decision = Include\<rparr> = Include"
proof -
  let ?rs = "[\<lparr>sr_route = Some ''/a/**'', sr_method = None, sr_decision = Exclude\<rparr>,
      \<lparr>sr_route = Some ''/a/*'', sr_method = Some ''get'', sr_decision = Include\<rparr>]"
  have r: "resolveRules (Some ?rs) ''/a/b'' ''GET'' = Inr (Some Include)" by code_simp
  have m: "list_all (\<lambda>r. matchesEndpoint r ''/a/b'' ''GET'') ?rs" by code_simp
  show ?thesis
    using resolveRules_most_specific [of ?rs "''/a/b''" "''GET''"] m
    unfolding r by (simp add: specificityOf_def)
qed

text \<open>
  An operation marker decides alone, else the container's, else the rule's, else the default,
  and a marker pair that contradicts itself at either level is an error whatever the rest says.
\<close>

theorem isSelected_precedence:
  "isSelected dflt container operation rule =
     (if container = Some Both then Inl (Ambiguous_markers ''container'')
      else if operation = Some Both then Inl (Ambiguous_markers ''operation'')
      else Inr (the (List.find (\<lambda>_. True)
        (List.map_filter (map_option (\<lambda>m. m = Marked Include)) [operation, container, rule]
         @ [dflt = Include]))))"
  by (simp add: isSelected_def reject_both_def throw_if_def List.map_filter_simps split: option.splits)

end
