(* ===== verification/Visibility.thy ===== *)
theory Visibility
  imports Prelude
begin

text \<open>
  \<open>packages/http/core/src/visibility.ts\<close>: whether a caller may see an endpoint, decided from the
  backend's own authorization metadata and what is known of the caller. \<open>policyResults\<close> is a
  partial map; the source reads an absent record and an absent policy alike.
\<close>

datatype visibility = Allow | Deny | Unknown

datatype identity = Present | Absent | Unknown_identity

datatype anonymity = Anon_yes | Anon_no | Anon_unknown

record auth =
  au_anonymous :: anonymity
  au_policies :: "string list"
  au_imperative :: bool

record caller_facts =
  cf_identity :: identity
  cf_policyResults :: "(string \<times> visibility) list"

definition evaluateVisibility :: "auth \<Rightarrow> caller_facts \<Rightarrow> visibility" where
  "evaluateVisibility a caller =
     (let results = map_of (cf_policyResults caller)
      in if au_anonymous a = Anon_no \<and> cf_identity caller = Absent then Deny
         else if list_ex (\<lambda>p. results p = Some Deny) (au_policies a) then Deny
         else if au_imperative a then Unknown
         else if au_anonymous a = Anon_unknown then Unknown
         else if au_anonymous a = Anon_no \<and> cf_identity caller = Unknown_identity then Unknown
         else if list_ex (\<lambda>p. results p \<noteq> Some Allow) (au_policies a) then Unknown
         else Allow)"

section \<open>Properties\<close>

text \<open>
  An endpoint is shown as certain exactly when nothing about it is undecided: it is open to
  anonymous callers or the caller is known to be identified, it has no imperative check, and every
  policy is known to allow the caller.
\<close>

theorem visibility_allow_iff:
  "evaluateVisibility a caller = Allow \<longleftrightarrow>
     (au_anonymous a = Anon_yes \<or> au_anonymous a = Anon_no \<and> cf_identity caller = Present)
     \<and> \<not> au_imperative a
     \<and> (\<forall>p \<in> set (au_policies a). map_of (cf_policyResults caller) p = Some Allow)"
  by (cases "au_anonymous a"; cases "cf_identity caller")
    (auto simp: evaluateVisibility_def list_ex_iff Let_def)

lemma visibility_allow_iff_witness:
  "evaluateVisibility \<lparr>au_anonymous = Anon_no, au_policies = [''admin''], au_imperative = False\<rparr>
     \<lparr>cf_identity = Present, cf_policyResults = [(''admin'', Allow)]\<rparr> = Allow"
  unfolding visibility_allow_iff by simp

text \<open>
  What one knows of a caller refines what another knows: it decides more and contradicts nothing.
\<close>

definition known_later :: "visibility option \<Rightarrow> visibility option \<Rightarrow> bool" where
  "known_later r r' = (r \<in> {None, Some Unknown} \<or> r' = r)"

definition facts_refine :: "caller_facts \<Rightarrow> caller_facts \<Rightarrow> bool" where
  "facts_refine f f' = ((cf_identity f = Unknown_identity \<or> cf_identity f' = cf_identity f)
     \<and> (\<forall>p. known_later (map_of (cf_policyResults f) p) (map_of (cf_policyResults f') p)))"

text \<open>
  Learning more about a caller never turns a denial into an allowance or an allowance into a
  denial: a decided verdict stays what it was, only \<open>unknown\<close> can be resolved.
\<close>

theorem visibility_monotone:
  assumes "facts_refine f f'"
  shows "evaluateVisibility a f = Unknown \<or> evaluateVisibility a f' = evaluateVisibility a f"
proof -
  let ?r = "map_of (cf_policyResults f)" and ?r' = "map_of (cf_policyResults f')"
  have kept: "?r' p = Some d" if "?r p = Some d" "d \<noteq> Unknown" for p d
  proof -
    have "known_later (?r p) (?r' p)" using assms by (simp add: facts_refine_def)
    with that show ?thesis by (simp add: known_later_def)
  qed
  have who: "cf_identity f = Unknown_identity \<or> cf_identity f' = cf_identity f"
    using assms by (simp add: facts_refine_def)
  consider "evaluateVisibility a f = Unknown" | "evaluateVisibility a f = Allow"
    | "evaluateVisibility a f = Deny" by (cases "evaluateVisibility a f") auto
  then show ?thesis
  proof cases
    case 1
    then show ?thesis by simp
  next
    case 2
    then have "evaluateVisibility a f' = Allow"
      using who kept unfolding visibility_allow_iff by auto
    with 2 show ?thesis by simp
  next
    case 3
    then have "(au_anonymous a = Anon_no \<and> cf_identity f = Absent)
        \<or> (\<exists>p \<in> set (au_policies a). ?r p = Some Deny)"
      by (auto simp: evaluateVisibility_def list_ex_iff Let_def split: if_splits)
    then have "evaluateVisibility a f' = Deny"
      using who kept by (auto simp: evaluateVisibility_def list_ex_iff Let_def)
    with 3 show ?thesis by simp
  qed
qed

lemma visibility_monotone_witness:
  "facts_refine \<lparr>cf_identity = Present, cf_policyResults = [(''admin'', Deny)]\<rparr>
     \<lparr>cf_identity = Present, cf_policyResults = [(''admin'', Deny), (''audit'', Allow)]\<rparr>
   \<and> evaluateVisibility \<lparr>au_anonymous = Anon_no, au_policies = [''admin'', ''audit''], au_imperative = False\<rparr>
       \<lparr>cf_identity = Present, cf_policyResults = [(''admin'', Deny), (''audit'', Allow)]\<rparr> = Deny"
proof -
  let ?f = "\<lparr>cf_identity = Present, cf_policyResults = [(''admin'', Deny)]\<rparr>"
  let ?f' = "\<lparr>cf_identity = Present, cf_policyResults = [(''admin'', Deny), (''audit'', Allow)]\<rparr>"
  let ?a = "\<lparr>au_anonymous = Anon_no, au_policies = [''admin'', ''audit''], au_imperative = False\<rparr>"
  have h: "facts_refine ?f ?f'" by (simp add: facts_refine_def known_later_def)
  have "evaluateVisibility ?a ?f = Deny" by (simp add: evaluateVisibility_def)
  with h visibility_monotone [OF h, of ?a] show ?thesis by simp
qed

end
