(* ===== verification/Json_Value.thy ===== *)
theory Json_Value
  imports JS_String
begin

text \<open>
  The values agents, hosts and descriptors hand to the program: JSON values as JavaScript holds
  them.

  \<^item> A number is \<open>NaN\<close>, an infinity, or \<open>Dec neg s e\<close>, the double whose shortest decimal is
    \<open>s * 10 ^ e\<close> (\<open>s\<close> not a multiple of ten unless it is 0), negated when \<open>neg\<close>. That decimal is
    what \<open>Number::toString\<close> prints; a double is an integer exactly when \<open>s = 0\<close> or \<open>e\<close> is not
    negative.
  \<^item> An object is its own properties in order. Reading a property it does not own reaches
    \<open>Object.prototype\<close>: \<open>JFun\<close> stands for the functions found there and \<open>JProto\<close> for that object
    itself, which is what \<open>__proto__\<close> reads.
  \<^item> \<open>json_text\<close> is \<open>JSON.stringify\<close> without replacer, \<open>None\<close> for \<open>undefined\<close>.
\<close>

section \<open>Numbers\<close>

datatype jsnum = NaN | Infinite bool | Dec bool nat int

definition num_is_integer :: "jsnum \<Rightarrow> bool" where
  "num_is_integer n = (case n of Dec neg s e \<Rightarrow> s = 0 \<or> e \<ge> 0 | _ \<Rightarrow> False)"

definition num_is_finite :: "jsnum \<Rightarrow> bool" where
  "num_is_finite n = (case n of Dec neg s e \<Rightarrow> True | _ \<Rightarrow> False)"

text \<open>\<open>Number.isSafeInteger\<close>: an integer of magnitude at most \<open>2 ^ 53 - 1\<close>.\<close>

definition isSafeInteger :: "jsnum \<Rightarrow> bool" where
  "isSafeInteger n = (num_is_integer n
     \<and> (case n of Dec neg s e \<Rightarrow> s = 0 \<or> e < 16 \<and> s * 10 ^ nat e \<le> 9007199254740991 | _ \<Rightarrow> False))"

text \<open>\<open>Number::toString\<close> for radix 10: \<open>k\<close> digits, the decimal point after the \<open>n\<close>-th.\<close>

definition exponent_text :: "int \<Rightarrow> string" where
  "exponent_text x = ''e'' @ (if x < 0 then ''-'' else ''+'') @ nat_text (nat (abs x))"

definition magnitude_text :: "nat \<Rightarrow> int \<Rightarrow> string" where
  "magnitude_text s e =
     (let ds = nat_text s; k = int (length ds); n = k + e
      in if k \<le> n \<and> n \<le> 21 then ds @ replicate (nat (n - k)) (CHR ''0'')
         else if 0 < n \<and> n \<le> 21 then take (nat n) ds @ ''.'' @ drop (nat n) ds
         else if -6 < n \<and> n \<le> 0 then ''0.'' @ replicate (nat (- n)) (CHR ''0'') @ ds
         else if k = 1 then ds @ exponent_text (n - 1)
         else take 1 ds @ ''.'' @ drop 1 ds @ exponent_text (n - 1))"

fun number_text :: "jsnum \<Rightarrow> string" where
  "number_text NaN = ''NaN''"
| "number_text (Infinite neg) = (if neg then ''-Infinity'' else ''Infinity'')"
| "number_text (Dec neg s e) =
     (if s = 0 then ''0'' else (if neg then ''-'' else '''') @ magnitude_text s e)"

section \<open>Values\<close>

datatype js = JUndef | JNull | JBool bool | JNum jsnum | JStr string
  | JArr "js list" | JObj "(string \<times> js) list" | JFun | JProto

definition proto_methods :: "string list" where
  "proto_methods = [''constructor'', ''__defineGetter__'', ''__defineSetter__'', ''hasOwnProperty'',
     ''__lookupGetter__'', ''__lookupSetter__'', ''isPrototypeOf'', ''propertyIsEnumerable'',
     ''toString'', ''valueOf'', ''toLocaleString'']"

definition proto_key :: string where
  "proto_key = ''__proto__''"

definition inherited :: "string \<Rightarrow> js" where
  "inherited k = (if k = proto_key then JProto else if k \<in> set proto_methods then JFun else JUndef)"

text \<open>\<open>value[k]\<close> on an object.\<close>

fun js_get :: "js \<Rightarrow> string \<Rightarrow> js" where
  "js_get (JObj kvs) k = (case map_of kvs k of Some v \<Rightarrow> v | None \<Rightarrow> inherited k)"
| "js_get JProto k = (if k = proto_key then JNull else inherited k)"
| "js_get _ k = JUndef"

text \<open>
  \<open>target[k] = v\<close> on an object: assigning \<open>__proto__\<close> never creates a property of that name.
\<close>

definition obj_put :: "string \<Rightarrow> 'v \<Rightarrow> (string \<times> 'v) list \<Rightarrow> (string \<times> 'v) list" where
  "obj_put k v kvs = (if k = proto_key then kvs else AList.update k v kvs)"

fun is_plain_object :: "js \<Rightarrow> bool" where
  "is_plain_object (JObj kvs) = True"
| "is_plain_object JProto = True"
| "is_plain_object _ = False"

text \<open>\<open>Object.keys\<close>; the properties of \<open>Object.prototype\<close> are not enumerable.\<close>

fun js_keys :: "js \<Rightarrow> string list" where
  "js_keys (JObj kvs) = map fst kvs"
| "js_keys _ = []"

fun js_items :: "js \<Rightarrow> js list option" where
  "js_items (JArr vs) = Some vs"
| "js_items _ = None"

definition js_str :: "js \<Rightarrow> string option" where
  "js_str v = (case v of JStr s \<Rightarrow> Some s | _ \<Rightarrow> None)"

section \<open>JSON text\<close>

definition hex_char :: "nat \<Rightarrow> char" where
  "hex_char n = (if n < 10 then char_of (48 + n) else char_of (87 + n))"

definition json_char :: "char \<Rightarrow> string" where
  "json_char c =
     (if c = CHR 0x22 then [CHR 0x5C, CHR 0x22]
      else if c = CHR 0x5C then [CHR 0x5C, CHR 0x5C]
      else let n = of_char c :: nat
           in if n = 8 then CHR 0x5C # ''b'' else if n = 9 then CHR 0x5C # ''t''
              else if n = 10 then CHR 0x5C # ''n'' else if n = 12 then CHR 0x5C # ''f''
              else if n = 13 then CHR 0x5C # ''r''
              else if n < 32 then CHR 0x5C # ''u00'' @ [hex_char (n div 16), hex_char (n mod 16)]
              else [c])"

definition json_quote :: "string \<Rightarrow> string" where
  "json_quote s = CHR 0x22 # concat (map json_char s) @ [CHR 0x22]"

fun json_text :: "js \<Rightarrow> string option" where
  "json_text JUndef = None"
| "json_text JFun = None"
| "json_text JNull = Some ''null''"
| "json_text (JBool b) = Some (if b then ''true'' else ''false'')"
| "json_text (JNum n) = Some (if num_is_finite n then number_text n else ''null'')"
| "json_text (JStr s) = Some (json_quote s)"
| "json_text (JArr vs) = Some (''['' @ join_with '',''
     (map (\<lambda>v. case json_text v of None \<Rightarrow> ''null'' | Some t \<Rightarrow> t) vs) @ '']'')"
| "json_text (JObj kvs) = Some (''{'' @ join_with '',''
     (concat (map (\<lambda>p. case json_text (snd p) of None \<Rightarrow> []
                        | Some t \<Rightarrow> [json_quote (fst p) @ '':'' @ t]) kvs)) @ ''}'')"
| "json_text JProto = Some ''{}''"

section \<open>Facts\<close>

lemma js_get_owned: "map_of kvs k = Some v \<Longrightarrow> js_get (JObj kvs) k = v"
  by simp

lemma set_obj_put: "k \<noteq> proto_key \<Longrightarrow> map_of (obj_put k v kvs) = (map_of kvs)(k \<mapsto> v)"
  by (simp add: obj_put_def)

lemma map_of_obj_put_other [simp]: "k' \<noteq> k \<Longrightarrow> map_of (obj_put k v kvs) k' = map_of kvs k'"
  by (simp add: obj_put_def)

lemma obj_put_Some:
  "map_of (obj_put k v kvs) k' = Some w \<Longrightarrow> (k' = k \<and> w = v) \<or> map_of kvs k' = Some w"
  by (auto simp: obj_put_def split: if_splits)

text \<open>Characters below the space never survive into JSON text.\<close>

definition printable :: "char \<Rightarrow> bool" where
  "printable c = (32 \<le> (of_char c :: nat))"

definition printable_text :: "string \<Rightarrow> bool" where
  "printable_text s = list_all printable s"

lemma printable_text_simps [simp]:
  "printable_text []" "printable_text (c # s) \<longleftrightarrow> printable c \<and> printable_text s"
  "printable_text (s @ t) \<longleftrightarrow> printable_text s \<and> printable_text t"
  by (simp_all add: printable_text_def)

lemma printable_join: "printable_text sep \<Longrightarrow> list_all printable_text ws \<Longrightarrow> printable_text (join_with sep ws)"
  by (induction sep ws rule: join_with.induct) auto

lemma printable_digit: "isAsciiDigit c \<Longrightarrow> printable c"
  by (simp add: isAsciiDigit_code printable_def)

lemma printable_nat_text: "printable_text (nat_text n)"
  by (auto simp: printable_text_def list_all_iff dest: nat_text_digits printable_digit)

lemma printable_text_take: "printable_text s \<Longrightarrow> printable_text (take n s)"
  by (auto simp: printable_text_def list_all_iff dest: in_set_takeD)

lemma printable_text_drop: "printable_text s \<Longrightarrow> printable_text (drop n s)"
  by (auto simp: printable_text_def list_all_iff dest: in_set_dropD)

lemma printable_text_replicate: "printable c \<Longrightarrow> printable_text (replicate n c)"
  by (simp add: printable_text_def list_all_iff)

lemma printable_magnitude: "printable_text (magnitude_text s e)"
proof -
  have z: "printable_text (replicate n (CHR ''0''))" for n
    by (rule printable_text_replicate) (simp add: printable_def)
  have c: "printable (CHR ''.'')" "printable (CHR ''0'')" "printable (CHR ''e'')"
    "printable (CHR ''-'')" "printable (CHR ''+'')"
    by (simp_all add: printable_def)
  show ?thesis
    unfolding magnitude_text_def Let_def exponent_text_def
    by (simp add: z c printable_nat_text printable_text_take printable_text_drop)
qed

lemma printable_number: "printable_text (number_text n)"
  by (cases n) (simp_all add: printable_magnitude, simp_all add: printable_def)

lemma printable_hex_char: "n < 16 \<Longrightarrow> printable (hex_char n)"
  by (simp add: printable_def hex_char_def of_char_char_of_small)

lemma printable_json_char: "printable_text (json_char c)"
proof (cases "(of_char c :: nat) < 32")
  case True
  then have "printable (hex_char (of_char c div 16))" "printable (hex_char (of_char c mod 16))"
    by (simp_all add: printable_hex_char)
  moreover have "printable (CHR 0x5C)" "printable (CHR ''u'')" "printable (CHR ''0'')"
    "printable (CHR ''b'')" "printable (CHR ''t'')" "printable (CHR ''n'')" "printable (CHR ''f'')"
    "printable (CHR ''r'')" "printable (CHR 0x22)"
    by (simp_all add: printable_def)
  ultimately show ?thesis by (simp add: json_char_def Let_def True)
next
  case False
  then show ?thesis by (auto simp: json_char_def Let_def printable_def)
qed

lemma printable_json_quote: "printable_text (json_quote s)"
proof -
  have "printable_text (concat (map json_char s))"
    by (induction s) (simp_all add: printable_json_char)
  then show ?thesis by (simp add: json_quote_def printable_def)
qed

lemma json_text_printable: "json_text v = Some t \<Longrightarrow> printable_text t"
proof (induction v arbitrary: t rule: json_text.induct)
  case (5 n)
  then show ?case by (auto simp: printable_number, simp_all add: printable_def)
next
  case (7 vs)
  have "list_all printable_text (map (\<lambda>v. case json_text v of None \<Rightarrow> ''null'' | Some t \<Rightarrow> t) vs)"
    using 7(1) by (auto simp: list_all_iff printable_def split: option.splits)
  with 7(2) show ?case
    using printable_join [of "'',''"] by (auto simp: printable_def)
next
  case (8 kvs)
  have "printable_text w" if "w \<in> set (case json_text (snd p) of None \<Rightarrow> []
      | Some t \<Rightarrow> [json_quote (fst p) @ '':'' @ t])" and "p \<in> set kvs" for w p
    using that 8(1) [of p] by (auto simp: printable_json_quote printable_def split: option.splits)
  then have "list_all printable_text (concat (map (\<lambda>p. case json_text (snd p) of None \<Rightarrow> []
      | Some t \<Rightarrow> [json_quote (fst p) @ '':'' @ t]) kvs))"
    unfolding list_all_iff by fastforce
  with 8(2) show ?case
    using printable_join [of "'',''"] by (auto simp: printable_def)
qed (auto simp: printable_json_quote printable_def split: if_splits)

end
