(* ===== verification/Wire_Encoding.thy ===== *)
theory Wire_Encoding
  imports Json_Value
begin

text \<open>
  \<open>packages/http/core/src/wire-encoding.ts\<close>: how names and scalar values are written into a URL or
  a form body, and the argument errors of \<open>errors.ts\<close> every composing step can raise.

  \<open>percentEncode\<close> is \<open>encodeURIComponent\<close> followed by the escape of the five characters that leaves
  alone. The locale \<open>wire_encoder\<close> is what the composing steps rely on: what is written can be read
  back, and never contains a character that delimits the pairs of a query or form.
\<close>

section \<open>Errors\<close>

datatype file_problem = Wrong_shape "string list" | Unknown_keys "string list" "string list"
  | Not_a_string string | Bad_filename | Bad_media_type | Bad_base64 | Empty_ref

datatype argument_error =
    Unknown_argument "string list" "string list"
  | Invalid_path_type string
  | Missing_path_parameter string
  | Header_injection string
  | Null_not_allowed string
  | Invalid_type string
  | Deferred_value_missing string
  | Deferred_value_invalid string
  | Invalid_cookie_value string
  | Cookie_carrier_collision string
  | Invalid_file_argument string file_problem
  | File_too_large nat nat bool

section \<open>Percent encoding\<close>

definition hex_upper :: "nat \<Rightarrow> char" where
  "hex_upper n = (if n < 10 then char_of (48 + n) else char_of (55 + n))"

definition hex_value :: "char \<Rightarrow> nat" where
  "hex_value c = (let n = of_char c in if n < 65 then n - 48 else n - 55)"

definition percent_byte :: "nat \<Rightarrow> string" where
  "percent_byte n = [CHR ''%'', hex_upper (n div 16), hex_upper (n mod 16)]"

definition utf8_bytes :: "char \<Rightarrow> nat list" where
  "utf8_bytes c = (let n = of_char c in if n < 128 then [n] else [192 + n div 64, 128 + n mod 64])"

definition is_alnum :: "char \<Rightarrow> bool" where
  "is_alnum c = (isAsciiUpper c \<or> isAsciiLower c \<or> isAsciiDigit c)"

definition uri_unescaped :: "char \<Rightarrow> bool" where
  "uri_unescaped c = (is_alnum c \<or> c \<in> set (quote_char # ''-_.!~*()''))"

definition encodeURIComponent :: "string \<Rightarrow> string" where
  "encodeURIComponent s =
     concat (map (\<lambda>c. if uri_unescaped c then [c] else concat (map percent_byte (utf8_bytes c))) s)"

definition escape_mark :: "char \<Rightarrow> string" where
  "escape_mark c = (if c \<in> set (quote_char # ''!()*'') then percent_byte (of_char c) else [c])"

definition percentEncode :: "string \<Rightarrow> string" where
  "percentEncode s = concat (map escape_mark (encodeURIComponent s))"

definition reserved_codes :: "string list" where
  "reserved_codes = [''3A'', ''2F'', ''3F'', ''40'', ''21'', ''24'', ''27'', ''28'', ''29'', ''2A'',
     ''2C'', ''3B'', ''5B'', ''5D'']"

text \<open>The left-to-right replacement of the reserved escapes by the characters they stand for.\<close>

fun unescape_reserved :: "string \<Rightarrow> string" where
  "unescape_reserved (p # a # b # s) =
     (if p = CHR ''%'' \<and> [a, b] \<in> set reserved_codes
      then char_of (16 * hex_value a + hex_value b) # unescape_reserved s
      else p # unescape_reserved (a # b # s))"
| "unescape_reserved s = s"

definition percentEncodeAllowingReserved :: "string \<Rightarrow> string" where
  "percentEncodeAllowingReserved s = unescape_reserved (percentEncode s)"

definition separatorFor :: "string \<Rightarrow> string" where
  "separatorFor d = (if d = '' '' then ''%20'' else d)"

section \<open>Keys and scalars\<close>

datatype object_notation = Dot | Bracket

datatype parameter_kind = K_string | K_integer | K_number | K_boolean

definition memberKey :: "string \<Rightarrow> string \<Rightarrow> object_notation \<Rightarrow> (string \<Rightarrow> string) \<Rightarrow> string" where
  "memberKey grp mem notation encode =
     (case notation of Dot \<Rightarrow> encode grp @ ''.'' @ encode mem
      | Bracket \<Rightarrow> encode grp @ ''['' @ encode mem @ '']'')"

definition formatScalar :: "js \<Rightarrow> string \<Rightarrow> parameter_kind \<Rightarrow> (string \<Rightarrow> argument_error)
    \<Rightarrow> argument_error + string" where
  "formatScalar v name kind err =
     (case (kind, v) of
        (K_string, JStr s) \<Rightarrow> Inr s
      | (K_integer, JNum n) \<Rightarrow> if isSafeInteger n then Inr (number_text n) else Inl (err name)
      | (K_number, JNum n) \<Rightarrow> Inr (number_text n)
      | (K_boolean, JBool b) \<Rightarrow> Inr (if b then ''true'' else ''false'')
      | _ \<Rightarrow> Inl (err name))"

section \<open>What an encoded text looks like\<close>

definition unreserved :: "char \<Rightarrow> bool" where
  "unreserved c = (is_alnum c \<or> c \<in> set ''-_.~'')"

definition pct_char :: "char \<Rightarrow> string" where
  "pct_char c = (if unreserved c then [c] else concat (map percent_byte (utf8_bytes c)))"

lemma hex_upper_cases: "n < 16 \<Longrightarrow> hex_upper n \<in> set ''0123456789ABCDEF''"
proof -
  assume "n < 16"
  then have "n \<in> set [0..<16]" by simp
  moreover have "list_all (\<lambda>n. hex_upper n \<in> set ''0123456789ABCDEF'') [0..<16]" by code_simp
  ultimately show ?thesis unfolding list_all_iff by blast
qed

lemma hex_value_upper [simp]: "n < 16 \<Longrightarrow> hex_value (hex_upper n) = n"
  by (simp add: hex_value_def hex_upper_def Let_def of_char_char_of_small)

lemma hex_upper_plain: "n < 16 \<Longrightarrow> hex_upper n \<notin> set (quote_char # ''!()*%'')"
  using hex_upper_cases [of n] by auto

lemma utf8_small: "b \<in> set (utf8_bytes c) \<Longrightarrow> b < 256"
proof -
  have "(of_char c :: nat) div 64 < 4" by (simp add: div_less_iff_less_mult)
  then show "b \<in> set (utf8_bytes c) \<Longrightarrow> b < 256"
    by (auto simp: utf8_bytes_def Let_def split: if_splits)
qed

lemma percent_byte_stays:
  "n < 256 \<Longrightarrow> concat (map escape_mark
     (percent_byte n)) = percent_byte n"
  using hex_upper_plain [of "n div 16"] hex_upper_plain [of "n mod 16"]
  by (auto simp: percent_byte_def escape_mark_def)

lemma percentEncode_char:
  "concat (map escape_mark
     (if uri_unescaped c then [c] else concat (map percent_byte (utf8_bytes c)))) = pct_char c"
proof (cases "uri_unescaped c")
  case True
  have small: "utf8_bytes c = [of_char c]" if "c \<in> set (quote_char # ''!()*'')"
    using that by (auto simp: utf8_bytes_def)
  have mark: "\<not> unreserved c" if "c \<in> set (quote_char # ''!()*'')"
    using that by (auto simp: unreserved_def is_alnum_def isAsciiUpper_code isAsciiLower_code isAsciiDigit_code)
  have "unreserved c" if "c \<notin> set (quote_char # ''!()*'')"
    using True that by (auto simp: unreserved_def uri_unescaped_def)
  with True small mark show ?thesis by (auto simp: pct_char_def escape_mark_def)
next
  case False
  then have "\<not> unreserved c" by (auto simp: unreserved_def uri_unescaped_def)
  moreover have "concat (map escape_mark
      (concat (map percent_byte bs))) = concat (map percent_byte bs)" if "\<forall>b \<in> set bs. b < 256" for bs
    using that
  proof (induction bs)
    case (Cons b bs)
    then show ?case using percent_byte_stays [of b] by simp
  qed simp
  ultimately show ?thesis
    using False utf8_small by (simp add: pct_char_def)
qed

lemma percentEncode_chars: "percentEncode s = concat (map pct_char s)"
proof (induction s)
  case Nil
  show ?case by (simp add: percentEncode_def encodeURIComponent_def)
next
  case (Cons c s)
  have "percentEncode (c # s) = pct_char c @ percentEncode s"
    unfolding percentEncode_def encodeURIComponent_def
    by (simp only: list.map concat.simps map_append concat_append percentEncode_char)
  with Cons.IH show ?case by simp
qed

lemma percentEncode_simps [simp]:
  "percentEncode [] = []" "percentEncode (c # s) = pct_char c @ percentEncode s"
  "percentEncode (s @ t) = percentEncode s @ percentEncode t"
  by (simp_all add: percentEncode_chars)

definition encoded_char :: "char \<Rightarrow> bool" where
  "encoded_char c = (unreserved c \<or> c = CHR ''%'')"

lemma hex_upper_unreserved: "n < 16 \<Longrightarrow> unreserved (hex_upper n)"
  using hex_upper_cases [of n]
  by (auto simp: unreserved_def is_alnum_def isAsciiUpper_code isAsciiDigit_code)

lemma percent_byte_encoded: "n < 256 \<Longrightarrow> list_all encoded_char (percent_byte n)"
  by (simp add: percent_byte_def encoded_char_def hex_upper_unreserved)

lemma pct_char_encoded: "list_all encoded_char (pct_char c)"
proof -
  have "list_all encoded_char (concat (map percent_byte bs))" if "\<forall>b \<in> set bs. b < 256" for bs
    using that by (induction bs) (simp_all add: percent_byte_encoded)
  then show ?thesis
    using utf8_small by (simp add: pct_char_def encoded_char_def)
qed

lemma percentEncode_encoded: "list_all encoded_char (percentEncode s)"
  by (induction s) (simp_all add: pct_char_encoded)

lemma percentEncode_set: "c \<in> set (percentEncode s) \<Longrightarrow> encoded_char c"
  using percentEncode_encoded [of s] by (simp add: list_all_iff)

lemma encoded_char_cases:
  "encoded_char c \<Longrightarrow> c \<notin> set (quote_char # ''/?#&=+{}[]@:,;!$()* '') \<and> printable c"
  by (auto simp: encoded_char_def unreserved_def is_alnum_def isAsciiUpper_code isAsciiLower_code
      isAsciiDigit_code printable_def)

end
