(* ===== verification/Request_Template.thy ===== *)
theory Request_Template
  imports Wire_Encoding
begin

text \<open>
  \<open>packages/http/core/src/request-template.ts\<close> and \<open>argument-names.ts\<close>: the frozen description of
  one request, its validation, and the argument names an agent may and may not send.

  A binding's common fields are a record; the three shapes of the TypeScript union (scalar, object,
  content) are the datatype \<open>shape\<close>. Optional flags are read by the source as \<open>=== true\<close> and are
  booleans here. An absent map is the empty association list. Template errors are modelled by their
  code; the messages are not.
\<close>

section \<open>Data\<close>

datatype template_error = Empty_route | Body_not_allowed | Conflicting_body_modes
  | Duplicate_argument | Identity_carrier_argument | Header_parameter_array
  | Unsupported_array_style | Unsupported_object_style | Unsupported_object_nesting
  | Argument_collision | Route_placeholder_mismatch | Schema_def_conflict | Curation_unresolved
  | Invalid_fill_constant | Hidden_required_omitted | Unsupported_body_shape
  | Unsupported_parameter_style | Invalid_cookie_name | Identity_carrier_parameter
  | Unsupported_parameter_content | Multiple_querystring | Querystring_with_query

datatype location = In_path | In_query | In_header | In_cookie | In_querystring

datatype parameter_style = Form | SpaceDelimited | PipeDelimited | DeepObject | Simple
  | Label | Matrix | Cookie_style

datatype path_style = Path_label | Path_matrix

datatype argument_fill = Constant js | Deferred string | Omit

record member_binding =
  mb_name :: string
  mb_kind :: parameter_kind
  mb_isArray :: bool

record serialization =
  se_separator :: "string option"
  se_pathStyle :: "path_style option"
  se_explode :: bool
  se_rawCookie :: bool
  se_allowReserved :: bool

datatype content_media = Media_json | Media_text | Media_urlencoded

datatype shape =
    Scalar parameter_kind bool serialization
  | Object_shape object_notation "member_binding list"
  | Content content_media "member_binding list option"

record parameter =
  p_name :: string
  p_location :: location
  p_argument :: "string option"
  p_fill :: "argument_fill option"
  p_shape :: shape

datatype file_source = Src_text | Src_base64 | Src_ref

datatype field_shape = F_scalar parameter_kind bool | F_object "member_binding list"
  | F_file bool "string option"

record form_field =
  ff_name :: string
  ff_shape :: field_shape

record form_binding =
  fb_notation :: object_notation
  fb_fields :: "form_field list"

record carrier =
  ca_in :: location
  ca_name :: string

record request_template =
  t_method :: string
  t_route :: string
  t_parameters :: "parameter list"
  t_hasBody :: bool
  t_bodyProperties :: "string list"
  t_additional :: bool
  t_bodyRoot :: "string option"
  t_aliases :: "(string \<times> string) list"
  t_fills :: "(string \<times> argument_fill) list"
  t_rootFill :: "argument_fill option"
  t_requiredFills :: "string list"
  t_contentType :: "string option"
  t_form :: "form_binding option"
  t_fileSources :: "file_source list option"

record template_input =
  i_method :: string
  i_route :: string
  i_parameters :: "parameter list"
  i_bodyProperties :: "string list option"
  i_additional :: bool
  i_bodyRoot :: "string option"
  i_aliases :: "(string \<times> string) list"
  i_fills :: "(string \<times> argument_fill) list"
  i_rootFill :: "argument_fill option"
  i_requiredFills :: "string list"
  i_contentType :: "string option"
  i_form :: "form_binding option"
  i_fileSources :: "file_source list option"
  i_carriers :: "carrier list"
  i_binaryBody :: bool

section \<open>Media types\<close>

definition jsonMediaType :: string where "jsonMediaType = ''application/json''"
definition urlEncodedMediaType :: string where "urlEncodedMediaType = ''application/x-www-form-urlencoded''"
definition multipartMediaType :: string where "multipartMediaType = ''multipart/form-data''"
definition textMediaType :: string where "textMediaType = ''text/plain''"

definition lower_alnum :: "char \<Rightarrow> bool" where
  "lower_alnum c = (isAsciiLower c \<or> isAsciiDigit c)"

definition lower_token_char :: "char \<Rightarrow> bool" where
  "lower_token_char c = (lower_alnum c \<or> c \<in> set ''!#$&^_.+-'')"

definition lower_token :: "string \<Rightarrow> bool" where
  "lower_token s = (s \<noteq> [] \<and> lower_alnum (hd s) \<and> list_all lower_token_char (tl s))"

definition isJsonMediaType :: "string \<Rightarrow> bool" where
  "isJsonMediaType m = (m = jsonMediaType \<or> m = ''text/json''
     \<or> (case split_on (CHR ''/'') m of
          [t, sub] \<Rightarrow> lower_token t \<and> suffix ''+json'' sub \<and> lower_token (take (length sub - 5) sub)
        | _ \<Rightarrow> False))"

definition isFormMediaType :: "string \<Rightarrow> bool" where
  "isFormMediaType m = (m = urlEncodedMediaType \<or> m = multipartMediaType)"

definition isBinaryMediaType :: "string \<Rightarrow> bool" where
  "isBinaryMediaType m = (\<not> isJsonMediaType m \<and> m \<noteq> textMediaType \<and> \<not> isFormMediaType m)"

definition defaultFileSources :: "file_source list" where
  "defaultFileSources = [Src_text, Src_base64]"

section \<open>Styles\<close>

definition arraySeparatorFor :: "parameter_style option \<Rightarrow> bool option
    \<Rightarrow> template_error + string option" where
  "arraySeparatorFor style explode =
     (let resolved = (case style of None \<Rightarrow> Form | Some s \<Rightarrow> s)
      in if resolved = DeepObject then Inl Unsupported_array_style
         else if resolved \<notin> {Form, SpaceDelimited, PipeDelimited} then Inl Unsupported_parameter_style
         else if (case explode of None \<Rightarrow> resolved = Form | Some b \<Rightarrow> b)
              then (if resolved \<noteq> Form then Inl Unsupported_array_style else Inr None)
         else Inr (Some (if resolved = Form then '','' else if resolved = SpaceDelimited then '' '' else ''|'')))"

definition stylesByLocation :: "location \<Rightarrow> parameter_style list" where
  "stylesByLocation l = (case l of
     In_path \<Rightarrow> [Simple, Label, Matrix]
   | In_query \<Rightarrow> [Form, SpaceDelimited, PipeDelimited, DeepObject]
   | In_header \<Rightarrow> [Simple, Form]
   | In_cookie \<Rightarrow> [Form, Cookie_style]
   | In_querystring \<Rightarrow> [])"

definition no_serialization :: serialization where
  "no_serialization = \<lparr>se_separator = None, se_pathStyle = None, se_explode = False,
     se_rawCookie = False, se_allowReserved = False\<rparr>"

definition separated :: "string option \<Rightarrow> serialization" where
  "separated sep = no_serialization\<lparr>se_separator := sep\<rparr>"

definition serializationFor :: "location \<Rightarrow> parameter_style option \<Rightarrow> bool option \<Rightarrow> bool \<Rightarrow> bool
    \<Rightarrow> template_error + serialization" where
  "serializationFor l style explode isArray allowReserved =
     (if (case style of None \<Rightarrow> False | Some s \<Rightarrow> s \<notin> set (stylesByLocation l))
      then Inl Unsupported_parameter_style
      else if allowReserved \<and> l \<noteq> In_query then Inl Unsupported_parameter_style
      else case l of
        In_path \<Rightarrow> Inr (no_serialization\<lparr>
            se_pathStyle := (if style = Some Label then Some Path_label
              else if style = Some Matrix then Some Path_matrix else None),
            se_explode := explode = Some True\<rparr>)
      | In_query \<Rightarrow> res_map (\<lambda>sep. (separated sep)\<lparr>se_allowReserved := allowReserved\<rparr>)
          (if isArray then arraySeparatorFor style explode else Inr None)
      | In_querystring \<Rightarrow> Inl Unsupported_parameter_content
      | In_header \<Rightarrow>
          if \<not> isArray then Inr no_serialization
          else if style = Some Simple then Inr (separated (Some '',''))
          else res_map separated (arraySeparatorFor style explode)
      | In_cookie \<Rightarrow>
          if explode = Some True then Inl Unsupported_parameter_style
          else Inr (no_serialization\<lparr>se_separator := (if isArray then Some '','' else None),
            se_rawCookie := style = Some Cookie_style\<rparr>))"

definition cookie_name_char :: "char \<Rightarrow> bool" where
  "cookie_name_char c = (is_alnum c \<or> c \<in> set (quote_char # ''!#$%&*+-.^_`|~''))"

definition is_cookie_name :: "string \<Rightarrow> bool" where
  "is_cookie_name s = (s \<noteq> [] \<and> list_all cookie_name_char s)"

definition cookie_octet :: "char \<Rightarrow> bool" where
  "cookie_octet c = (let n = of_char c :: nat
     in n = 33 \<or> 35 \<le> n \<and> n \<le> 43 \<or> 45 \<le> n \<and> n \<le> 58 \<or> 60 \<le> n \<and> n \<le> 91 \<or> 93 \<le> n \<and> n \<le> 126)"

definition isCookieOctets :: "string \<Rightarrow> bool" where
  "isCookieOctets s = list_all cookie_octet s"

section \<open>Checks on one binding\<close>

definition structuralMemberName :: "string \<Rightarrow> bool" where
  "structuralMemberName s = (list_ex (\<lambda>c. c \<in> set ''[].'') s \<or> s \<noteq> [] \<and> list_all isAsciiDigit s)"

text \<open>The member loop shared by object parameters and form objects; the two errors differ.\<close>

fun check_members :: "template_error \<Rightarrow> template_error \<Rightarrow> string list \<Rightarrow> member_binding list
    \<Rightarrow> template_error + unit" where
  "check_members structural twice seen [] = Inr ()"
| "check_members structural twice seen (m # ms) =
     (if structuralMemberName (mb_name m) then Inl structural
      else if mb_name m \<in> set seen then Inl twice
      else check_members structural twice (mb_name m # seen) ms)"

definition assertFormMembers :: "member_binding list \<Rightarrow> template_error + unit" where
  "assertFormMembers ms = check_members Unsupported_body_shape Unsupported_body_shape [] ms"

definition assertObjectBinding :: "parameter \<Rightarrow> member_binding list \<Rightarrow> template_error + unit" where
  "assertObjectBinding p ms =
     (if p_location p \<noteq> In_query then Inl Unsupported_object_style
      else if p_fill p \<noteq> None then Inl Unsupported_object_style
      else if ms = [] then Inl Unsupported_object_style
      else check_members Unsupported_object_nesting Unsupported_object_style [] ms)"

definition reservedHeaderNames :: "string list" where
  "reservedHeaderNames = [''authorization'', ''cookie'']"

definition members_or_none :: "member_binding list option \<Rightarrow> member_binding list" where
  "members_or_none ms = (case ms of None \<Rightarrow> [] | Some l \<Rightarrow> l)"

definition assertContentBinding :: "parameter \<Rightarrow> content_media \<Rightarrow> member_binding list option
    \<Rightarrow> template_error + unit" where
  "assertContentBinding p media ms =
     (if media = Media_urlencoded \<and> p_location p \<noteq> In_querystring then Inl Unsupported_parameter_content
      else if p_location p = In_querystring \<and> media = Media_text then Inl Unsupported_parameter_content
      else if p_location p = In_header \<and> to_lower (p_name p) \<in> set reservedHeaderNames
      then Inl Identity_carrier_argument
      else if p_location p = In_cookie \<and> \<not> is_cookie_name (p_name p) then Inl Invalid_cookie_name
      else if media = Media_urlencoded \<and> members_or_none ms = [] then Inl Unsupported_parameter_content
      else if list_ex (\<lambda>m. structuralMemberName (mb_name m)) (members_or_none ms)
      then Inl Unsupported_object_nesting
      else Inr ())"

definition fitsKind :: "js \<Rightarrow> parameter_kind \<Rightarrow> bool" where
  "fitsKind v k = (case (k, v) of
     (K_integer, JNum n) \<Rightarrow> isSafeInteger n
   | (K_number, JNum n) \<Rightarrow> num_is_finite n
   | (K_boolean, JBool b) \<Rightarrow> True
   | (K_string, JStr s) \<Rightarrow> True
   | _ \<Rightarrow> False)"

definition octets_or_not_string :: "js \<Rightarrow> bool" where
  "octets_or_not_string v = (case v of JStr s \<Rightarrow> isCookieOctets s | _ \<Rightarrow> True)"

definition assertConstantFits :: "argument_fill option \<Rightarrow> parameter_kind \<Rightarrow> bool \<Rightarrow> serialization
    \<Rightarrow> template_error + unit" where
  "assertConstantFits fill kind isArray ser = (case fill of
     Some (Constant v) \<Rightarrow>
       (let ok = (if isArray then (case js_items v of Some vs \<Rightarrow> list_all (\<lambda>i. fitsKind i kind) vs
                                   | None \<Rightarrow> False)
                  else fitsKind v kind);
            items = (case js_items v of Some vs \<Rightarrow> vs | None \<Rightarrow> [v]);
            cookieSafe = (\<not> se_rawCookie ser \<or> list_all octets_or_not_string items)
        in throw_if (\<not> ok \<or> \<not> cookieSafe) Invalid_fill_constant)
   | _ \<Rightarrow> Inr ())"

definition assertScalarBinding :: "parameter \<Rightarrow> parameter_kind \<Rightarrow> bool \<Rightarrow> serialization
    \<Rightarrow> template_error + unit" where
  "assertScalarBinding p kind isArray ser =
     res_bind (assertConstantFits (p_fill p) kind isArray ser) (\<lambda>_.
       if p_location p = In_header \<and> to_lower (p_name p) \<in> set reservedHeaderNames
       then Inl Identity_carrier_argument
       else if p_location p = In_cookie \<and> \<not> is_cookie_name (p_name p) then Inl Invalid_cookie_name
       else if p_location p = In_header \<and> isArray \<and> se_separator ser = None
       then Inl Header_parameter_array
       else Inr ())"

definition check_binding :: "parameter \<Rightarrow> template_error + unit" where
  "check_binding p = (case p_shape p of
     Object_shape notation ms \<Rightarrow> assertObjectBinding p ms
   | Content media ms \<Rightarrow> assertContentBinding p media ms
   | Scalar kind isArray ser \<Rightarrow> assertScalarBinding p kind isArray ser)"

section \<open>Checks on the whole template\<close>

fun claim_names :: "template_error \<Rightarrow> string list \<Rightarrow> string list \<Rightarrow> template_error + string list" where
  "claim_names err seen [] = Inr seen"
| "claim_names err seen (n # ns) =
     (if n \<in> set seen then Inl err else claim_names err (seen @ [n]) ns)"

definition assertUniqueArgumentNames :: "string list \<Rightarrow> string list \<Rightarrow> template_error + string list" where
  "assertUniqueArgumentNames params body =
     res_bind (claim_names Duplicate_argument [] params) (\<lambda>names.
     res_map (drop (length names)) (claim_names Argument_collision names body))"

definition agent_name :: "parameter \<Rightarrow> string" where
  "agent_name p = (case p_argument p of None \<Rightarrow> p_name p | Some a \<Rightarrow> a)"

definition check_parameter :: "string list \<Rightarrow> parameter \<Rightarrow> template_error + string list" where
  "check_parameter names p =
     res_bind (if p_fill p = None then claim_names Argument_collision names [agent_name p] else Inr names)
       (\<lambda>names'. res_map (\<lambda>_. names') (check_binding p))"

definition occupies_carrier :: "carrier list \<Rightarrow> parameter \<Rightarrow> bool" where
  "occupies_carrier carriers p = list_ex (\<lambda>c. ca_in c = p_location p
     \<and> (if ca_in c = In_header then to_lower (ca_name c) = to_lower (p_name p)
        else ca_name c = p_name p)) carriers"

definition assertNoCarrierSlot :: "parameter list \<Rightarrow> carrier list \<Rightarrow> template_error + unit" where
  "assertNoCarrierSlot ps carriers =
     check_all (\<lambda>p. throw_if (occupies_carrier carriers p) Identity_carrier_parameter) ps"

definition assertQuerystring :: "parameter list \<Rightarrow> template_error + unit" where
  "assertQuerystring ps =
     (let querystrings = filter (\<lambda>p. p_location p = In_querystring) ps
      in if length querystrings > 1 then Inl Multiple_querystring
         else if length querystrings = 1 \<and> list_ex (\<lambda>p. p_location p = In_query) ps
         then Inl Querystring_with_query else Inr ())"

section \<open>Routes\<close>

text \<open>
  The matches of \<open>{name...}\<close>: a brace, a longest run of name characters, anything up to the first
  closing brace. The constraint and modifier after the name are dropped.
\<close>

datatype route_part = Chr char | Slot string

definition name_char :: "char \<Rightarrow> bool" where
  "name_char c = (c \<notin> set ''}:?*'')"

function route_parts :: "string \<Rightarrow> route_part list" where
  "route_parts [] = []"
| "route_parts (c # cs) =
     (if c = CHR ''{'' \<and> takeWhile name_char cs \<noteq> [] \<and> CHR ''}'' \<in> set cs
      then Slot (takeWhile name_char cs) # route_parts (tl (dropWhile (\<lambda>d. d \<noteq> CHR ''}'') cs))
      else Chr c # route_parts cs)"
  by pat_completeness auto
termination
proof (relation "measure length", goal_cases)
  case 1
  show ?case by simp
next
  case (2 c cs)
  show ?case using length_dropWhile_le [of "\<lambda>d. d \<noteq> CHR ''}''" cs] by simp
qed simp

fun slot_names :: "route_part list \<Rightarrow> string list" where
  "slot_names [] = []"
| "slot_names (Chr c # ps) = slot_names ps"
| "slot_names (Slot n # ps) = n # slot_names ps"

definition slot_text :: "string \<Rightarrow> string" where
  "slot_text n = ''{'' @ n @ ''}''"

fun render_route :: "(string \<Rightarrow> string) \<Rightarrow> route_part list \<Rightarrow> string" where
  "render_route f [] = []"
| "render_route f (Chr c # ps) = c # render_route f ps"
| "render_route f (Slot n # ps) = f n @ render_route f ps"

definition routePlaceholderNames :: "string \<Rightarrow> string list" where
  "routePlaceholderNames route = js_set (slot_names (route_parts route))"

definition normalizedRoute :: "string \<Rightarrow> string" where
  "normalizedRoute route = render_route slot_text (route_parts route)"

definition check_placeholders :: "string \<Rightarrow> parameter list \<Rightarrow> template_error + unit" where
  "check_placeholders route ps =
     (let placeholders = routePlaceholderNames route
      in res_bind (check_all (\<lambda>p. throw_if (p_location p = In_path \<and> p_name p \<notin> set placeholders)
             Route_placeholder_mismatch) ps) (\<lambda>_.
         check_all (\<lambda>n. throw_if (\<not> list_ex (\<lambda>p. p_location p = In_path \<and> p_name p = n) ps)
             Route_placeholder_mismatch) placeholders))"

section \<open>Body encoding\<close>

definition check_form_field :: "template_input \<Rightarrow> string \<Rightarrow> form_field \<Rightarrow> template_error + unit" where
  "check_form_field input contentType f =
     res_bind (case ff_shape f of
         F_object ms \<Rightarrow> if ms = [] then Inl Unsupported_body_shape else assertFormMembers ms
       | _ \<Rightarrow> Inr ()) (\<lambda>_.
     (case ff_shape f of
        F_scalar k a \<Rightarrow> Inr ()
      | F_file a m \<Rightarrow> throw_if (contentType = urlEncodedMediaType
          \<or> map_of (i_fills input) (ff_name f) \<noteq> None) Unsupported_body_shape
      | F_object ms \<Rightarrow> throw_if (map_of (i_fills input) (ff_name f) \<noteq> None) Unsupported_body_shape))"

fun check_form_fields :: "template_input \<Rightarrow> string \<Rightarrow> string list \<Rightarrow> form_field list
    \<Rightarrow> template_error + string list" where
  "check_form_fields input contentType names [] = Inr names"
| "check_form_fields input contentType names (f # fs) =
     (if ff_name f \<in> set names then Inl Unsupported_body_shape
      else res_bind (check_form_field input contentType f) (\<lambda>_.
        check_form_fields input contentType (names @ [ff_name f]) fs))"

definition is_file_field :: "form_field \<Rightarrow> bool" where
  "is_file_field f = (case ff_shape f of F_file a m \<Rightarrow> True | _ \<Rightarrow> False)"

definition assertFormBody :: "template_input \<Rightarrow> string \<Rightarrow> template_error + unit" where
  "assertFormBody input contentType = (case i_form input of
     None \<Rightarrow> Inl Unsupported_body_shape
   | Some form \<Rightarrow>
     if fb_fields form = [] then Inl Unsupported_body_shape
     else if i_additional input then Inl Unsupported_body_shape
     else res_bind (check_form_fields input contentType [] (fb_fields form)) (\<lambda>names.
       let declared = js_set (case i_bodyProperties input of None \<Rightarrow> [] | Some l \<Rightarrow> l)
       in if i_bodyRoot input = None
             \<and> \<not> (length declared = length names \<and> list_all (\<lambda>n. n \<in> set declared) names)
          then Inl Unsupported_body_shape
          else throw_if (list_ex is_file_field (fb_fields form) \<and> i_fileSources input = Some [])
                 Unsupported_body_shape))"

definition assertBodyEncoding :: "template_input \<Rightarrow> bool \<Rightarrow> template_error + unit" where
  "assertBodyEncoding input hasBody =
     (let contentType = (case i_contentType input of None \<Rightarrow> jsonMediaType | Some c \<Rightarrow> c)
      in if \<not> hasBody then throw_if (i_form input \<noteq> None) Unsupported_body_shape
         else if isJsonMediaType contentType then throw_if (i_form input \<noteq> None) Unsupported_body_shape
         else if contentType = textMediaType
              then throw_if (i_bodyRoot input = None \<or> i_form input \<noteq> None) Unsupported_body_shape
         else if isBinaryMediaType contentType
              then (if \<not> i_binaryBody input \<or> i_bodyRoot input = None \<or> i_form input \<noteq> None
                    then Inl Unsupported_body_shape
                    else throw_if (i_fileSources input = Some []) Unsupported_body_shape)
         else if \<not> isFormMediaType contentType then Inl Unsupported_body_shape
         else assertFormBody input contentType)"

section \<open>The template\<close>

definition body_flag :: "template_input \<Rightarrow> bool" where
  "body_flag input = (i_bodyProperties input \<noteq> None \<or> i_additional input \<or> i_bodyRoot input \<noteq> None)"

definition body_names :: "template_input \<Rightarrow> string list" where
  "body_names input = (case i_bodyRoot input of
     Some root \<Rightarrow> [root]
   | None \<Rightarrow> (case i_bodyProperties input of None \<Rightarrow> [] | Some l \<Rightarrow> l))"

definition build_template :: "template_input \<Rightarrow> string list \<Rightarrow> request_template" where
  "build_template input bodyProperties =
     (let hasBody = body_flag input;
          contentType = (if hasBody \<and> i_contentType input \<noteq> Some jsonMediaType
                         then i_contentType input else None);
          form = (if contentType = None then None else i_form input);
          takesFile = ((case form of None \<Rightarrow> False | Some f \<Rightarrow> list_ex is_file_field (fb_fields f))
            \<or> (case contentType of None \<Rightarrow> False | Some c \<Rightarrow> isBinaryMediaType c))
      in \<lparr>t_method = to_upper (i_method input), t_route = normalizedRoute (i_route input),
          t_parameters = i_parameters input, t_hasBody = hasBody,
          t_bodyProperties = (if i_bodyRoot input = None then bodyProperties else []),
          t_additional = i_additional input, t_bodyRoot = i_bodyRoot input,
          t_aliases = i_aliases input, t_fills = i_fills input, t_rootFill = i_rootFill input,
          t_requiredFills = i_requiredFills input, t_contentType = contentType, t_form = form,
          t_fileSources = (if takesFile
            then Some (case i_fileSources input of None \<Rightarrow> defaultFileSources | Some s \<Rightarrow> s)
            else None)\<rparr>)"

definition createRequestTemplate :: "template_input \<Rightarrow> template_error + request_template" where
  "createRequestTemplate input =
     (if trim (i_route input) = [] then Inl Empty_route
      else if i_bodyRoot input \<noteq> None \<and> (i_bodyProperties input \<noteq> None \<or> i_additional input)
      then Inl Conflicting_body_modes
      else if body_flag input \<and> to_upper (i_method input) \<in> {''GET'', ''HEAD''}
      then Inl Body_not_allowed
      else
       res_bind (assertUniqueArgumentNames (map p_name (i_parameters input)) (body_names input))
         (\<lambda>bodyProperties.
       res_bind (fold_res check_parameter [] (i_parameters input)) (\<lambda>agentNames.
       res_bind (assertNoCarrierSlot (i_parameters input) (i_carriers input)) (\<lambda>_.
       res_bind (assertQuerystring (i_parameters input)) (\<lambda>_.
       res_bind (check_placeholders (i_route input) (i_parameters input)) (\<lambda>_.
       res_bind (claim_names Argument_collision agentNames (map fst (i_aliases input))) (\<lambda>_.
       res_bind (assertBodyEncoding input (body_flag input)) (\<lambda>_.
       Inr (build_template input bodyProperties)))))))))"

definition allowedArgumentNames :: "request_template \<Rightarrow> string list" where
  "allowedArgumentNames t = js_set
     (map agent_name (filter (\<lambda>p. p_fill p = None) (t_parameters t))
      @ map fst (t_aliases t)
      @ filter (\<lambda>f. map_of (t_fills t) f = None \<and> f \<notin> set (map snd (t_aliases t))) (t_bodyProperties t)
      @ (case t_bodyRoot t of Some root \<Rightarrow> if t_rootFill t = None then [root] else [] | None \<Rightarrow> []))"

definition deniedArgumentNames :: "request_template \<Rightarrow> string list" where
  "deniedArgumentNames t = js_set
     (map p_name (filter (\<lambda>p. p_fill p \<noteq> None \<or> p_argument p \<noteq> None) (t_parameters t))
      @ map snd (t_aliases t) @ map fst (t_fills t)
      @ (case t_bodyRoot t of Some root \<Rightarrow> if t_rootFill t \<noteq> None then [root] else [] | None \<Rightarrow> []))"

end
