(* ===== verification/Request_Body.thy ===== *)
theory Request_Body
  imports Request_Template
begin

text \<open>
  \<open>packages/http/core/src/request-body.ts\<close>: reading file arguments, walking the typed fields of a
  form, and encoding the collected body value into the template's media type.

  The regular expressions of the source are boolean functions with the same language. A file
  argument's refusal carries what its message names (the offered keys, the unknown ones), so that a
  theorem can say what an agent learns from it.
\<close>

section \<open>Data\<close>

datatype file_content =
    File_text string string string
  | File_base64 string nat string string
  | File_ref string "string option" "string option" string string

datatype emitted = Emit_value string string | Emit_file string file_content

datatype composed_body =
    Body_json string js
  | Body_text string string
  | Body_urlencoded string string
  | Body_multipart string "emitted list"
  | Body_binary string file_content

definition maxInlineFileBytes :: nat where
  "maxInlineFileBytes = 1048576"

section \<open>Grammars\<close>

definition base64_char :: "char \<Rightarrow> bool" where
  "base64_char c = (is_alnum c \<or> c = CHR ''+'' \<or> c = CHR ''/'')"

fun strictBase64 :: "string \<Rightarrow> bool" where
  "strictBase64 [] = True"
| "strictBase64 (a # b # c # d # rest) = (base64_char a \<and> base64_char b \<and>
     (base64_char c \<and> base64_char d \<and> strictBase64 rest
      \<or> rest = [] \<and> d = CHR ''='' \<and> (base64_char c \<or> c = CHR ''='')))"
| "strictBase64 _ = False"

definition base64ByteLength :: "string \<Rightarrow> nat" where
  "base64ByteLength s = (length s div 4) * 3
     - (if suffix ''=='' s then 2 else if suffix ''='' s then 1 else 0)"

definition unsafe_filename_char :: "char \<Rightarrow> bool" where
  "unsafe_filename_char c = ((of_char c :: nat) \<in> {34, 13, 10, 0, 47, 92})"

definition media_token_char :: "char \<Rightarrow> bool" where
  "media_token_char c = (is_alnum c \<or> c \<in> set ''!#$&^_.+-'')"

definition quoted_char :: "char \<Rightarrow> bool" where
  "quoted_char c = ((of_char c :: nat) \<notin> {34, 13, 10, 92})"

text \<open>One parameter value: a token or a quoted string, and what follows it.\<close>

definition media_value_rest :: "string \<Rightarrow> string option" where
  "media_value_rest s =
     (if takeWhile media_token_char s \<noteq> [] then Some (dropWhile media_token_char s)
      else case s of
        [] \<Rightarrow> None
      | c # cs \<Rightarrow> if c = CHR 0x22 \<and> dropWhile quoted_char cs \<noteq> []
                       \<and> hd (dropWhile quoted_char cs) = CHR 0x22
                  then Some (tl (dropWhile quoted_char cs)) else None)"

definition media_param_rest :: "string \<Rightarrow> string option" where
  "media_param_rest s =
     (case dropWhile is_space s of
        c # cs \<Rightarrow>
          let name = dropWhile is_space cs
          in if c = CHR '';'' \<and> takeWhile media_token_char name \<noteq> []
             then (case dropWhile media_token_char name of
                     d # ds \<Rightarrow> if d = CHR ''='' then media_value_rest ds else None
                   | [] \<Rightarrow> None)
             else None
      | [] \<Rightarrow> None)"

lemma media_value_rest_shorter: "media_value_rest s = Some r \<Longrightarrow> length r \<le> length s"
  using length_dropWhile_le [of media_token_char s] length_dropWhile_le [of quoted_char "tl s"]
  by (auto simp: media_value_rest_def split: if_splits list.splits)

lemma media_param_rest_shorter: "media_param_rest s = Some r \<Longrightarrow> length r < length s"
proof -
  assume "media_param_rest s = Some r"
  then obtain c cs d ds where 1: "dropWhile is_space s = c # cs"
    and 2: "dropWhile media_token_char (dropWhile is_space cs) = d # ds"
    and 3: "media_value_rest ds = Some r"
    by (auto simp: media_param_rest_def Let_def split: list.splits if_splits)
  have "length (c # cs) \<le> length s" using length_dropWhile_le [of is_space s] 1 by simp
  moreover have "length (d # ds) \<le> length cs"
    using length_dropWhile_le [of media_token_char "dropWhile is_space cs"]
      length_dropWhile_le [of is_space cs] 2 by simp
  moreover have "length r \<le> length ds" by (rule media_value_rest_shorter [OF 3])
  ultimately show ?thesis by simp
qed

function media_params :: "string \<Rightarrow> bool" where
  "media_params s = (if s = [] then True
     else case media_param_rest s of None \<Rightarrow> False | Some r \<Rightarrow> media_params r)"
  by pat_completeness auto
termination
  by (relation "measure length") (auto dest: media_param_rest_shorter)

declare media_params.simps [simp del]

definition mediaTypeGrammar :: "string \<Rightarrow> bool" where
  "mediaTypeGrammar s =
     (let t = takeWhile media_token_char s; rest = dropWhile media_token_char s
      in t \<noteq> [] \<and> is_alnum (hd t) \<and> rest \<noteq> [] \<and> hd rest = CHR ''/''
         \<and> (let u = takeWhile media_token_char (tl rest)
            in u \<noteq> [] \<and> is_alnum (hd u) \<and> media_params (dropWhile media_token_char (tl rest))))"

section \<open>One file argument\<close>

definition source_key :: "file_source \<Rightarrow> string" where
  "source_key s = (case s of Src_text \<Rightarrow> ''text'' | Src_base64 \<Rightarrow> ''base64'' | Src_ref \<Rightarrow> ''ref'')"

definition offered_sources :: "file_source list \<Rightarrow> file_source list" where
  "offered_sources sources = filter (\<lambda>s. s \<in> set sources) [Src_text, Src_base64, Src_ref]"

definition offered_keys :: "file_source list \<Rightarrow> string list" where
  "offered_keys sources = map source_key (offered_sources sources) @ [''name'', ''mediaType'']"

definition octet_stream :: string where
  "octet_stream = ''application/octet-stream''"

definition defaultMediaTypeOf :: "string option \<Rightarrow> string \<Rightarrow> string" where
  "defaultMediaTypeOf declared fallback = (case declared of
     None \<Rightarrow> fallback
   | Some m \<Rightarrow> if CHR ''*'' \<notin> set m \<and> m \<noteq> octet_stream then m else fallback)"

definition valid_filename :: "string \<Rightarrow> bool" where
  "valid_filename n = (n \<noteq> [] \<and> \<not> list_ex unsafe_filename_char n)"

text \<open>An optional string property that has to satisfy a check.\<close>

definition optional_text :: "js \<Rightarrow> (string \<Rightarrow> bool) \<Rightarrow> argument_error \<Rightarrow> argument_error + string option" where
  "optional_text v ok err = (case v of
     JUndef \<Rightarrow> Inr None
   | JStr s \<Rightarrow> if ok s then Inr (Some s) else Inl err
   | _ \<Rightarrow> Inl err)"

definition or_else :: "string option \<Rightarrow> string \<Rightarrow> string" where
  "or_else a b = (case a of None \<Rightarrow> b | Some s \<Rightarrow> s)"

definition file_of_source :: "file_source \<Rightarrow> string \<Rightarrow> string \<Rightarrow> string \<Rightarrow> string option
    \<Rightarrow> string option \<Rightarrow> string option \<Rightarrow> argument_error + file_content" where
  "file_of_source source content field bname declared name media = (case source of
     Src_text \<Rightarrow> Inr (File_text content (or_else name bname)
       (or_else media (defaultMediaTypeOf declared ''text/plain; charset=utf-8'')))
   | Src_base64 \<Rightarrow>
       if strictBase64 content
       then Inr (File_base64 content (base64ByteLength content) (or_else name bname)
         (or_else media (defaultMediaTypeOf declared octet_stream)))
       else Inl (Invalid_file_argument field Bad_base64)
   | Src_ref \<Rightarrow>
       if content = [] then Inl (Invalid_file_argument field Empty_ref)
       else Inr (File_ref content name media bname (defaultMediaTypeOf declared octet_stream)))"

definition readFile :: "js \<Rightarrow> string \<Rightarrow> string \<Rightarrow> string option \<Rightarrow> file_source list
    \<Rightarrow> argument_error + file_content" where
  "readFile v field bname declared sources =
     (let bad = (\<lambda>problem. Invalid_file_argument field problem);
          shape = Wrong_shape (map source_key (offered_sources sources))
      in if \<not> is_plain_object v then Inl (bad shape)
         else
          (let unknown = filter (\<lambda>k. k \<notin> set (offered_keys sources)) (js_keys v)
           in if unknown \<noteq> [] then Inl (bad (Unknown_keys unknown (offered_keys sources)))
              else (case filter (\<lambda>s. js_get v (source_key s) \<noteq> JUndef) [Src_text, Src_base64, Src_ref] of
                 [source] \<Rightarrow>
                   (case js_get v (source_key source) of
                      JStr content \<Rightarrow>
                        res_bind (optional_text (js_get v ''name'') valid_filename (bad Bad_filename)) (\<lambda>name.
                        res_bind (optional_text (js_get v ''mediaType'') mediaTypeGrammar (bad Bad_media_type))
                          (\<lambda>media. file_of_source source content field bname declared name media))
                    | _ \<Rightarrow> Inl (bad (Not_a_string (source_key source))))
               | _ \<Rightarrow> Inl (bad shape))))"

section \<open>Form fields\<close>

definition array_or_one :: "bool \<Rightarrow> js \<Rightarrow> js list option" where
  "array_or_one isArray v = (if isArray then js_items v else Some [v])"

definition dotted :: "string \<Rightarrow> string \<Rightarrow> string" where
  "dotted grp mem = grp @ ''.'' @ mem"

definition emit_scalars :: "string \<Rightarrow> string \<Rightarrow> parameter_kind \<Rightarrow> bool \<Rightarrow> js
    \<Rightarrow> argument_error + emitted list" where
  "emit_scalars key label kind isArray v = (case array_or_one isArray v of
     None \<Rightarrow> Inl (Invalid_type label)
   | Some items \<Rightarrow> traverse (\<lambda>e. res_map (Emit_value key) (formatScalar e label kind Invalid_type)) items)"

definition emit_member :: "object_notation \<Rightarrow> string \<Rightarrow> (string \<Rightarrow> string) \<Rightarrow> js \<Rightarrow> member_binding
    \<Rightarrow> argument_error + emitted list" where
  "emit_member notation grp encodeName v m =
     (case js_get v (mb_name m) of
        JUndef \<Rightarrow> Inr []
      | JNull \<Rightarrow> Inl (Null_not_allowed (dotted grp (mb_name m)))
      | item \<Rightarrow> emit_scalars (memberKey grp (mb_name m) notation encodeName)
                 (dotted grp (mb_name m)) (mb_kind m) (mb_isArray m) item)"

definition unknown_members :: "string \<Rightarrow> js \<Rightarrow> member_binding list \<Rightarrow> argument_error + unit" where
  "unknown_members grp v ms =
     (let unknown = filter (\<lambda>k. k \<notin> set (map mb_name ms)) (js_keys v)
      in throw_if (unknown \<noteq> []) (Unknown_argument (map (dotted grp) unknown)
           (sort (map (\<lambda>m. dotted grp (mb_name m)) ms))))"

definition index_label :: "string \<Rightarrow> nat \<Rightarrow> string" where
  "index_label name i = name @ ''['' @ nat_text i @ '']''"

definition emit_files :: "form_field \<Rightarrow> bool \<Rightarrow> string option \<Rightarrow> file_source list \<Rightarrow> (string \<Rightarrow> string)
    \<Rightarrow> js \<Rightarrow> argument_error + emitted list" where
  "emit_files f isArray declared sources encodeName v = (case array_or_one isArray v of
     None \<Rightarrow> Inl (Invalid_type (ff_name f))
   | Some items \<Rightarrow> traverse (\<lambda>(i, e). res_map (Emit_file (encodeName (ff_name f)))
       (readFile e (if isArray then index_label (ff_name f) i else ff_name f) (ff_name f) declared sources))
       (zip [0..<length items] items))"

definition emit_present :: "object_notation \<Rightarrow> file_source list \<Rightarrow> (string \<Rightarrow> string) \<Rightarrow> form_field \<Rightarrow> js
    \<Rightarrow> argument_error + emitted list" where
  "emit_present notation sources encodeName f item = (case ff_shape f of
     F_object ms \<Rightarrow>
       if \<not> is_plain_object item then Inl (Invalid_type (ff_name f))
       else res_bind (unknown_members (ff_name f) item ms) (\<lambda>_.
         res_map concat (traverse (emit_member notation (ff_name f) encodeName item) ms))
   | F_file isArray declared \<Rightarrow> emit_files f isArray declared sources encodeName item
   | F_scalar kind isArray \<Rightarrow>
       emit_scalars (encodeName (ff_name f)) (ff_name f) kind isArray item)"

definition emit_field :: "object_notation \<Rightarrow> file_source list \<Rightarrow> (string \<Rightarrow> string) \<Rightarrow> js \<Rightarrow> form_field
    \<Rightarrow> argument_error + emitted list" where
  "emit_field notation sources encodeName v f =
     (case js_get v (ff_name f) of
        JUndef \<Rightarrow> Inr []
      | JNull \<Rightarrow> Inl (Null_not_allowed (ff_name f))
      | item \<Rightarrow> emit_present notation sources encodeName f item)"

definition emitFields :: "form_binding \<Rightarrow> js \<Rightarrow> file_source list \<Rightarrow> (string \<Rightarrow> string)
    \<Rightarrow> argument_error + emitted list" where
  "emitFields form v sources encodeName =
     res_map concat (traverse (emit_field (fb_notation form) sources encodeName v) (fb_fields form))"

section \<open>The body\<close>

definition inline_bytes :: "emitted \<Rightarrow> nat" where
  "inline_bytes e = (case e of Emit_file n (File_base64 b len f m) \<Rightarrow> len | _ \<Rightarrow> 0)"

definition assertInlineBudget :: "emitted list \<Rightarrow> nat option \<Rightarrow> file_source list \<Rightarrow> argument_error + unit" where
  "assertInlineBudget es limits sources =
     (let limit = (case limits of None \<Rightarrow> maxInlineFileBytes | Some l \<Rightarrow> l);
          total = sum_list (map inline_bytes es)
      in throw_if (total > limit) (File_too_large total limit (Src_ref \<in> set sources)))"

definition entry_text :: "emitted \<Rightarrow> string" where
  "entry_text e = (case e of Emit_value n v \<Rightarrow> n @ ''='' @ percentEncode v | Emit_file n f \<Rightarrow> [])"

definition template_sources :: "request_template \<Rightarrow> file_source list" where
  "template_sources t = (case t_fileSources t of None \<Rightarrow> [] | Some s \<Rightarrow> s)"

definition root_label :: "request_template \<Rightarrow> string" where
  "root_label t = or_else (t_bodyRoot t) ''body''"

definition encode_form :: "request_template \<Rightarrow> string \<Rightarrow> form_binding \<Rightarrow> js \<Rightarrow> nat option
    \<Rightarrow> argument_error + composed_body" where
  "encode_form t contentType form v limits =
     (let sources = template_sources t;
          unknown = filter (\<lambda>k. k \<notin> set (map ff_name (fb_fields form))) (js_keys v)
      in if \<not> is_plain_object v then Inl (Invalid_type (root_label t))
         else res_bind (case t_bodyRoot t of
             None \<Rightarrow> Inr ()
           | Some root \<Rightarrow> throw_if (unknown \<noteq> []) (Unknown_argument (map (dotted root) unknown)
               (sort (map (dotted root) (js_set (map ff_name (fb_fields form))))))) (\<lambda>_.
         if contentType = urlEncodedMediaType
         then res_map (\<lambda>es. Body_urlencoded contentType (join_with ''&'' (map entry_text es)))
                (emitFields form v sources percentEncode)
         else res_bind (emitFields form v sources (\<lambda>n. n)) (\<lambda>es.
              res_map (\<lambda>_. Body_multipart multipartMediaType es) (assertInlineBudget es limits sources))))"

definition encode_file_body :: "request_template \<Rightarrow> string \<Rightarrow> js \<Rightarrow> nat option
    \<Rightarrow> argument_error + composed_body" where
  "encode_file_body t contentType v limits =
     (let sources = template_sources t; field = root_label t
      in res_bind (readFile v field field None sources) (\<lambda>file.
         res_map (\<lambda>_. Body_binary contentType file)
           (assertInlineBudget [Emit_file field file] limits sources)))"

definition encodeBody :: "request_template \<Rightarrow> js \<Rightarrow> nat option \<Rightarrow> argument_error + composed_body option" where
  "encodeBody t v limits =
     (let contentType = (case t_contentType t of None \<Rightarrow> jsonMediaType | Some c \<Rightarrow> c)
      in if v = JUndef then Inr None
         else res_map Some
          (if isJsonMediaType contentType then Inr (Body_json contentType v)
           else if isBinaryMediaType contentType then encode_file_body t contentType v limits
           else if contentType = textMediaType
                then (case v of JStr s \<Rightarrow> Inr (Body_text contentType s)
                      | _ \<Rightarrow> Inl (Invalid_type (root_label t)))
           else (case t_form t of
                   Some form \<Rightarrow> encode_form t contentType form v limits
                 | None \<Rightarrow> Inl (Invalid_type (root_label t)))))"

end
