(* ===== verification/Wire_Laws.thy ===== *)
theory Wire_Laws
  imports Wire_Encoding
begin

text \<open>
  What a reader of the wire recovers: the decoder every HTTP server applies, the proof that both
  encoders are read back exactly, and the contract \<open>wire_encoder\<close> with its consequence for lists of
  \<open>key=value\<close> pairs, interpreted at both encoders.
\<close>

section \<open>Reading encoded text\<close>

text \<open>Percent-decoding followed by UTF-8 decoding, on the characters below 256.\<close>

fun percentDecode :: "string \<Rightarrow> string" where
  "percentDecode [] = []"
| "percentDecode (p # s) =
     (if p \<noteq> CHR ''%'' then p # percentDecode s
      else case s of a # b # t \<Rightarrow>
          let n = 16 * hex_value a + hex_value b
          in if n < 128 then char_of n # percentDecode t
             else (case t of q # c # d # u \<Rightarrow>
                 char_of ((n - 192) * 64 + (16 * hex_value c + hex_value d - 128)) # percentDecode u
               | _ \<Rightarrow> [])
        | _ \<Rightarrow> [])"

lemma byte_value: "n < 256 \<Longrightarrow> 16 * hex_value (hex_upper (n div 16)) + hex_value (hex_upper (n mod 16)) = n"
  by simp

lemma percentDecode_plain: "c \<noteq> CHR ''%'' \<Longrightarrow> percentDecode (c # s) = c # percentDecode s"
  by simp

lemma percentDecode_ascii: "n < 128 \<Longrightarrow> percentDecode (percent_byte n @ s) = char_of n # percentDecode s"
  by (simp add: percent_byte_def Let_def)

lemma percentDecode_two:
  assumes "128 \<le> n" and "n < 256"
  shows "percentDecode (percent_byte (192 + n div 64) @ percent_byte (128 + n mod 64) @ s)
    = char_of n # percentDecode s"
proof -
  have "n div 64 < 4" using assms by (simp add: div_less_iff_less_mult)
  then have 1: "16 * hex_value (hex_upper ((192 + n div 64) div 16)) + hex_value (hex_upper ((192 + n div 64) mod 16))
      = 192 + n div 64"
    by (intro byte_value) simp
  have 2: "16 * hex_value (hex_upper ((128 + n mod 64) div 16)) + hex_value (hex_upper ((128 + n mod 64) mod 16))
      = 128 + n mod 64"
    by (intro byte_value) (simp add: mod_less_divisor [THEN order_less_trans])
  show ?thesis
    unfolding percent_byte_def
    by (simp add: 1 2 Let_def del: hex_value_upper)
qed

lemma unreserved_not_percent: "unreserved c \<Longrightarrow> c \<noteq> CHR ''%''"
  by (auto simp: unreserved_def is_alnum_def isAsciiUpper_code isAsciiLower_code isAsciiDigit_code)

lemma percentDecode_pct_char: "percentDecode (pct_char c @ s) = c # percentDecode s"
proof (cases "unreserved c")
  case True
  then show ?thesis by (simp add: pct_char_def unreserved_not_percent)
next
  case esc: False
  show ?thesis
  proof (cases "(of_char c :: nat) < 128")
    case True
    with esc show ?thesis
      by (simp add: pct_char_def utf8_bytes_def Let_def percentDecode_ascii)
  next
    case False
    with esc percentDecode_two [of "of_char c" s] show ?thesis
      by (simp add: pct_char_def utf8_bytes_def Let_def)
  qed
qed

section \<open>The encoder that keeps reserved characters\<close>

definition kept_reserved :: "char list" where
  "kept_reserved = quote_char # '':/?@!$()*,;[]''"

definition raw_char :: "char \<Rightarrow> string" where
  "raw_char c = (if c \<in> set kept_reserved then [c] else pct_char c)"

lemma unescape_plain: "p \<noteq> CHR ''%'' \<Longrightarrow> unescape_reserved (p # s) = p # unescape_reserved s"
  by (cases s rule: unescape_reserved.cases) simp_all

lemma reserved_escapes:
  "c \<in> set kept_reserved \<Longrightarrow>
   \<exists>a b. pct_char c = [CHR ''%'', a, b] \<and> [a, b] \<in> set reserved_codes
      \<and> char_of (16 * hex_value a + hex_value b) = c"
proof -
  assume "c \<in> set kept_reserved"
  moreover have "list_all (\<lambda>c. case pct_char c of [p, a, b] \<Rightarrow> p = CHR ''%'' \<and> [a, b] \<in> set reserved_codes
      \<and> char_of (16 * hex_value a + hex_value b) = c | _ \<Rightarrow> False) kept_reserved"
    by code_simp
  ultimately show ?thesis
    unfolding list_all_iff by (fastforce split: list.splits)
qed

definition kept_code :: "nat \<Rightarrow> bool" where
  "kept_code n = (n \<in> set (map of_char kept_reserved))"

lemma reserved_code_value:
  assumes "n < 256" and "[hex_upper (n div 16), hex_upper (n mod 16)] \<in> set reserved_codes"
  shows "kept_code n"
proof -
  have "list_all (\<lambda>w. kept_code (16 * hex_value (w ! 0) + hex_value (w ! 1))) reserved_codes"
    by code_simp
  with assms(2) have "kept_code (16 * hex_value (hex_upper (n div 16)) + hex_value (hex_upper (n mod 16)))"
    unfolding list_all_iff by fastforce
  with byte_value [OF assms(1)] show ?thesis by simp
qed

lemma unescape_byte:
  assumes "n < 256" and "\<not> kept_code n"
  shows "unescape_reserved (percent_byte n @ s) = percent_byte n @ unescape_reserved s"
proof -
  have "[hex_upper (n div 16), hex_upper (n mod 16)] \<notin> set reserved_codes"
    using reserved_code_value [OF assms(1)] assms(2) by blast
  moreover have "hex_upper (n div 16) \<noteq> CHR ''%''" "hex_upper (n mod 16) \<noteq> CHR ''%''"
    using hex_upper_plain [of "n div 16"] hex_upper_plain [of "n mod 16"] assms(1) by auto
  ultimately show ?thesis
    by (simp add: percent_byte_def unescape_plain del: set_simps)
qed

lemma kept_code_small: "kept_code n \<Longrightarrow> n < 128"
proof -
  assume "kept_code n"
  moreover have "list_all (\<lambda>n. n < 128) (map of_char kept_reserved :: nat list)" by code_simp
  ultimately show ?thesis unfolding kept_code_def list_all_iff by blast
qed

lemma kept_code_char: "kept_code (of_char c) \<longleftrightarrow> c \<in> set kept_reserved"
  unfolding kept_code_def by (auto simp: image_iff)

lemma unescape_pct_char: "unescape_reserved (pct_char c @ s) = raw_char c @ unescape_reserved s"
proof (cases "c \<in> set kept_reserved")
  case True
  from reserved_escapes [OF this] show ?thesis using True by (auto simp: raw_char_def)
next
  case kept: False
  show ?thesis
  proof (cases "unreserved c")
    case True
    then show ?thesis
      using kept by (simp add: raw_char_def pct_char_def unescape_plain unreserved_not_percent)
  next
    case False
    have "\<forall>b \<in> set (utf8_bytes c). b < 256 \<and> \<not> kept_code b"
    proof
      fix b assume b: "b \<in> set (utf8_bytes c)"
      have "\<not> kept_code b"
      proof (cases "(of_char c :: nat) < 128")
        case True
        with b have "b = of_char c" by (simp add: utf8_bytes_def)
        with kept show ?thesis by (simp add: kept_code_char)
      next
        case False
        with b have "128 \<le> b" by (auto simp: utf8_bytes_def Let_def)
        with kept_code_small [of b] show ?thesis by auto
      qed
      with utf8_small [OF b] show "b < 256 \<and> \<not> kept_code b" by simp
    qed
    moreover have "unescape_reserved (concat (map percent_byte bs) @ s)
        = concat (map percent_byte bs) @ unescape_reserved s"
      if "\<forall>b \<in> set bs. b < 256 \<and> \<not> kept_code b" for bs
      using that by (induction bs) (simp_all add: unescape_byte)
    ultimately show ?thesis using False kept by (simp add: raw_char_def pct_char_def)
  qed
qed

lemma percentEncodeAllowingReserved_chars:
  "percentEncodeAllowingReserved s = concat (map raw_char s)"
  by (induction s) (simp_all add: percentEncodeAllowingReserved_def unescape_pct_char)

lemma percentDecode_raw_char: "percentDecode (raw_char c @ s) = c # percentDecode s"
proof (cases "c \<in> set kept_reserved")
  case True
  then have "c \<noteq> CHR ''%''" by (auto simp: kept_reserved_def)
  with True show ?thesis by (simp add: raw_char_def)
next
  case False
  then show ?thesis by (simp add: raw_char_def percentDecode_pct_char)
qed

lemma decode_plain: "percentDecode (percentEncode s) = s"
  by (induction s) (simp_all add: percentDecode_pct_char)

lemma decode_reserved: "percentDecode (percentEncodeAllowingReserved s) = s"
  unfolding percentEncodeAllowingReserved_chars
  by (induction s) (simp_all add: percentDecode_raw_char)

text \<open>
  Whatever the text, a server that percent-decodes a written value reads back exactly that text,
  for the plain encoder and for the one that leaves reserved characters raw.
\<close>

theorem percentEncode_roundtrip:
  "percentDecode (percentEncode s) = s \<and> percentDecode (percentEncodeAllowingReserved s) = s"
  by (simp add: decode_plain decode_reserved)

section \<open>The contract of an encoder\<close>

locale wire_encoder =
  fixes encode :: "string \<Rightarrow> string"
  assumes decodable: "percentDecode (encode s) = s"
    and pair_safe: "c \<in> set (encode s) \<Longrightarrow> c \<noteq> CHR ''&'' \<and> c \<noteq> CHR ''='' \<and> c \<noteq> CHR ''#''"
begin

lemma encode_inj: "encode s = encode t \<longleftrightarrow> s = t"
  by (metis decodable)

end

text \<open>A query pair, and the query text the composer joins from them.\<close>

definition pair_text :: "string \<Rightarrow> string \<Rightarrow> string" where
  "pair_text k v = k @ ''='' @ v"

definition read_pair :: "string \<Rightarrow> string \<times> string" where
  "read_pair w = (percentDecode (takeWhile (\<lambda>c. c \<noteq> CHR ''='') w),
     percentDecode (tl (dropWhile (\<lambda>c. c \<noteq> CHR ''='') w)))"

definition read_query :: "string \<Rightarrow> (string \<times> string) list" where
  "read_query q = map read_pair (split_on (CHR ''&'') q)"

context wire_encoder
begin

lemma read_pair_text:
  assumes "\<And>c. c \<in> set key \<Longrightarrow> c \<noteq> CHR ''=''"
  shows "read_pair (pair_text key (encode v)) = (percentDecode key, v)"
proof -
  have t: "takeWhile (\<lambda>c. c \<noteq> CHR ''='') (key @ CHR ''='' # w) = key" for w
    using assms by (simp add: takeWhile_append)
  have d: "dropWhile (\<lambda>c. c \<noteq> CHR ''='') (key @ CHR ''='' # w) = CHR ''='' # w" for w
    using assms by (simp add: dropWhile_append)
  show ?thesis by (simp add: read_pair_def pair_text_def t d decodable)
qed

lemma pair_no_amp:
  assumes "\<And>c. c \<in> set key \<Longrightarrow> c \<noteq> CHR ''&''"
  shows "CHR ''&'' \<notin> set (pair_text key (encode v))"
  using assms pair_safe by (auto simp: pair_text_def)

end

lemma read_query_join:
  assumes "ws \<noteq> []" and "\<forall>w \<in> set ws. CHR ''&'' \<notin> set w"
  shows "read_query (join_with ''&'' ws) = map read_pair ws"
  using split_join [OF assms] by (simp add: read_query_def)

lemma raw_char_pair_safe:
  assumes "d \<in> set (raw_char c)"
  shows "d \<noteq> CHR ''&'' \<and> d \<noteq> CHR ''='' \<and> d \<noteq> CHR ''#''"
proof (cases "c \<in> set kept_reserved")
  case True
  with assms show ?thesis by (auto simp: raw_char_def kept_reserved_def)
next
  case False
  with assms have "encoded_char d"
    using pct_char_encoded [of c] by (simp add: raw_char_def list_all_iff)
  from encoded_char_cases [OF this] show ?thesis by auto
qed

interpretation plain: wire_encoder percentEncode
proof (unfold_locales, goal_cases)
  case (1 s)
  show ?case by (rule decode_plain)
next
  case (2 c s)
  from encoded_char_cases [OF percentEncode_set [OF 2]] show ?case by auto
qed

interpretation reserved: wire_encoder percentEncodeAllowingReserved
proof (unfold_locales, goal_cases)
  case (1 s)
  show ?case by (rule decode_reserved)
next
  case (2 c s)
  then show ?case unfolding percentEncodeAllowingReserved_chars using raw_char_pair_safe by auto
qed

end
