(* ===== verification/Request_Composer.thy ===== *)
theory Request_Composer
  imports Request_Body Wire_Laws
begin

text \<open>
  \<open>packages/http/core/src/request-composer.ts\<close>: from an agent's arguments and a template to a path
  with its query, headers and a body, or one argument error.

  \<open>compose\<close> is the source's function cut at its loops: \<open>compose_path\<close>, \<open>compose_query\<close>,
  \<open>compose_querystring\<close>, \<open>compose_headers\<close>, \<open>compose_cookies\<close> and \<open>compose_body_value\<close>, run in
  that order over the wire map that \<open>translate\<close> and \<open>applyFills\<close> build. A \<open>Map\<close> is an association
  list; \<open>None\<close> in a fill's result is the source's \<open>absent\<close> symbol. Deferred values are own
  properties of a record, so an association list with \<open>map_of\<close> for \<open>Object.hasOwn\<close>.
\<close>

record composed_request =
  cr_pathAndQuery :: string
  cr_headers :: "(string \<times> string) list"
  cr_body :: "composed_body option"

section \<open>Agent arguments\<close>

definition toArgumentMap :: "js \<Rightarrow> argument_error + (string \<times> js) list" where
  "toArgumentMap args = (case args of
     JUndef \<Rightarrow> Inr []
   | JObj kvs \<Rightarrow> Inr (fold (\<lambda>(k, v) m. if v = JUndef then m else AList.update k v m) kvs [])
   | JProto \<Rightarrow> Inr []
   | _ \<Rightarrow> Inl (Invalid_type ''arguments''))"

definition known_argument :: "request_template \<Rightarrow> string \<Rightarrow> bool" where
  "known_argument t name = (name \<notin> set (deniedArgumentNames t)
     \<and> (name \<in> set (allowedArgumentNames t) \<or> t_hasBody t \<and> t_additional t))"

definition rejectUnknown :: "request_template \<Rightarrow> (string \<times> js) list \<Rightarrow> argument_error + unit" where
  "rejectUnknown t entries =
     (let unknown = filter (\<lambda>n. \<not> known_argument t n) (keys_of entries)
      in throw_if (unknown \<noteq> []) (Unknown_argument unknown (sort (allowedArgumentNames t))))"

definition declared_members :: "parameter \<Rightarrow> member_binding list option" where
  "declared_members p = (case p_shape p of
     Object_shape notation ms \<Rightarrow> Some ms | Content media ms \<Rightarrow> ms | Scalar k a s \<Rightarrow> None)"

definition member_check :: "(string \<times> js) list \<Rightarrow> parameter \<Rightarrow> argument_error + unit" where
  "member_check entries p = (case declared_members p of
     None \<Rightarrow> Inr ()
   | Some ms \<Rightarrow> (case map_of entries (agent_name p) of
       Some v \<Rightarrow> if is_plain_object v then unknown_members (agent_name p) v ms else Inr ()
     | None \<Rightarrow> Inr ()))"

definition rejectUnknownMembers :: "request_template \<Rightarrow> (string \<times> js) list \<Rightarrow> argument_error + unit" where
  "rejectUnknownMembers t entries = check_all (member_check entries) (t_parameters t)"

definition agent_to_wire :: "request_template \<Rightarrow> (string \<times> string) list" where
  "agent_to_wire t =
     fold (\<lambda>(a, w) m. AList.update a w m) (t_aliases t)
       (fold (\<lambda>p m. case p_argument p of Some a \<Rightarrow> AList.update a (p_name p) m | None \<Rightarrow> m)
         (t_parameters t) [])"

definition wire_name :: "request_template \<Rightarrow> string \<Rightarrow> string" where
  "wire_name t key = (case map_of (agent_to_wire t) key of Some w \<Rightarrow> w | None \<Rightarrow> key)"

definition translate :: "request_template \<Rightarrow> (string \<times> js) list \<Rightarrow> (string \<times> js) list" where
  "translate t entries = fold (\<lambda>(k, v) m. AList.update (wire_name t k) v m) entries []"

section \<open>Fills\<close>

definition resolveFill :: "argument_fill \<Rightarrow> string \<Rightarrow> bool \<Rightarrow> (string \<times> js) list \<Rightarrow> bool
    \<Rightarrow> argument_error + js option" where
  "resolveFill fill wireName required deferred isBodySlot = (case fill of
     Omit \<Rightarrow> Inr None
   | Constant v \<Rightarrow> Inr (Some v)
   | Deferred source \<Rightarrow>
       (let found = map_of deferred source
        in if found = None \<or> found = Some JNull \<and> \<not> isBodySlot
           then (if required then Inl (Deferred_value_missing wireName) else Inr None)
           else Inr found))"

definition header_unsafe :: "char \<Rightarrow> bool" where
  "header_unsafe c = ((of_char c :: nat) \<in> {13, 10, 0})"

definition assertFilledParameter :: "js \<Rightarrow> parameter \<Rightarrow> parameter_kind \<Rightarrow> bool \<Rightarrow> serialization
    \<Rightarrow> argument_error + unit" where
  "assertFilledParameter v p kind isArray ser = (case array_or_one isArray v of
     None \<Rightarrow> Inl (Deferred_value_invalid (p_name p))
   | Some items \<Rightarrow>
      (let scalarsOk = list_all (\<lambda>i. fitsKind i kind) items;
           clean = (p_location p \<noteq> In_header
               \<or> \<not> list_ex (\<lambda>i. case i of JStr s \<Rightarrow> list_ex header_unsafe s | _ \<Rightarrow> False) items)
             \<and> (\<not> se_rawCookie ser \<or> list_all octets_or_not_string items)
       in throw_if (\<not> scalarsOk \<or> \<not> clean) (Deferred_value_invalid (p_name p))))"

definition assertFilledContent :: "js \<Rightarrow> parameter \<Rightarrow> content_media \<Rightarrow> argument_error + unit" where
  "assertFilledContent v p media =
     (case (if media = Media_text then js_str v else json_text v) of
        None \<Rightarrow> Inl (Deferred_value_invalid (p_name p))
      | Some s \<Rightarrow> throw_if (p_location p = In_header \<and> list_ex header_unsafe s)
                    (Deferred_value_invalid (p_name p)))"

definition fill_parameter :: "request_template \<Rightarrow> (string \<times> js) list \<Rightarrow> (string \<times> js) list \<Rightarrow> parameter
    \<Rightarrow> argument_error + (string \<times> js) list" where
  "fill_parameter t deferred wire p = (case p_fill p of
     None \<Rightarrow> Inr wire
   | Some fill \<Rightarrow>
      (let required = (p_location p = In_path \<or> p_name p \<in> set (t_requiredFills t));
           step = (\<lambda>check. res_bind (resolveFill fill (p_name p) required deferred False) (\<lambda>found.
             case found of None \<Rightarrow> Inr wire
             | Some v \<Rightarrow> res_map (\<lambda>_. AList.update (p_name p) v wire) (check v)))
       in case p_shape p of
            Object_shape notation ms \<Rightarrow> Inr wire
          | Content media ms \<Rightarrow> step (\<lambda>v. assertFilledContent v p media)
          | Scalar kind isArray ser \<Rightarrow> step (\<lambda>v. assertFilledParameter v p kind isArray ser)))"

definition fill_body :: "request_template \<Rightarrow> (string \<times> js) list \<Rightarrow> (string \<times> js) list
    \<Rightarrow> string \<times> argument_fill \<Rightarrow> argument_error + (string \<times> js) list" where
  "fill_body t deferred wire ff =
     res_map (\<lambda>found. case found of None \<Rightarrow> wire | Some v \<Rightarrow> AList.update (fst ff) v wire)
       (resolveFill (snd ff) (fst ff) (fst ff \<in> set (t_requiredFills t)) deferred True)"

definition applyFills :: "request_template \<Rightarrow> (string \<times> js) list \<Rightarrow> (string \<times> js) list
    \<Rightarrow> argument_error + (string \<times> js) list" where
  "applyFills t wire deferred =
     res_bind (fold_res (fill_parameter t deferred) wire (t_parameters t)) (\<lambda>w.
     fold_res (fill_body t deferred) w (t_fills t))"

section \<open>Path\<close>

definition contentText :: "parameter \<Rightarrow> content_media \<Rightarrow> js \<Rightarrow> argument_error + string" where
  "contentText p media v =
     (if media = Media_text
      then (case v of JStr s \<Rightarrow> Inr s | _ \<Rightarrow> Inl (Invalid_type (p_name p)))
      else Inr (or_else (json_text v) ''undefined''))"

definition styled_item :: "string \<Rightarrow> serialization \<Rightarrow> string \<Rightarrow> string" where
  "styled_item key ser item = (case se_pathStyle ser of
     Some Path_label \<Rightarrow> ''.'' @ item
   | Some Path_matrix \<Rightarrow> '';'' @ key @ ''='' @ item
   | None \<Rightarrow> item)"

definition styled_items :: "string \<Rightarrow> serialization \<Rightarrow> string list \<Rightarrow> string" where
  "styled_items key ser items = (case se_pathStyle ser of
     Some Path_label \<Rightarrow> ''.'' @ join_with (if se_explode ser then ''.'' else '','') items
   | Some Path_matrix \<Rightarrow>
       (if se_explode ser then concat (map (\<lambda>i. '';'' @ key @ ''='' @ i) items)
        else '';'' @ key @ ''='' @ join_with '','' items)
   | None \<Rightarrow> join_with '','' items)"

definition pathSegment :: "parameter \<Rightarrow> parameter_kind \<Rightarrow> bool \<Rightarrow> serialization \<Rightarrow> js
    \<Rightarrow> argument_error + string" where
  "pathSegment p kind isArray ser v =
     (let key = percentEncode (p_name p);
          enc = (\<lambda>i. res_map percentEncode (formatScalar i (p_name p) kind Invalid_path_type))
      in if \<not> isArray then res_map (styled_item key ser) (enc v)
         else (case js_items v of
              None \<Rightarrow> Inl (Invalid_path_type (p_name p))
            | Some [] \<Rightarrow> Inl (Missing_path_parameter (p_name p))
            | Some vs \<Rightarrow> res_map (styled_items key ser) (traverse enc vs)))"

definition parameter_segment :: "parameter \<Rightarrow> js \<Rightarrow> argument_error + string" where
  "parameter_segment p v = (case p_shape p of
     Content media ms \<Rightarrow> res_map percentEncode (contentText p media v)
   | Scalar kind isArray ser \<Rightarrow> pathSegment p kind isArray ser v
   | Object_shape notation ms \<Rightarrow> Inr [])"

definition is_object_parameter :: "parameter \<Rightarrow> bool" where
  "is_object_parameter p = (case p_shape p of Object_shape notation ms \<Rightarrow> True | _ \<Rightarrow> False)"

definition path_step :: "(string \<times> js) list \<Rightarrow> string \<Rightarrow> parameter \<Rightarrow> argument_error + string" where
  "path_step wire path p = (case map_of wire (p_name p) of
     None \<Rightarrow> Inl (Missing_path_parameter (p_name p))
   | Some v \<Rightarrow>
       if v = JUndef \<or> v = JNull then Inl (Missing_path_parameter (p_name p))
       else res_map (\<lambda>segment. replace_all (slot_text (p_name p)) segment path) (parameter_segment p v))"

definition located :: "location \<Rightarrow> request_template \<Rightarrow> parameter list" where
  "located l t = filter (\<lambda>p. p_location p = l \<and> \<not> is_object_parameter p) (t_parameters t)"

definition compose_path :: "request_template \<Rightarrow> (string \<times> js) list \<Rightarrow> argument_error + string" where
  "compose_path t wire = fold_res (path_step wire) (t_route t) (located In_path t)"

section \<open>Query\<close>

definition query_scalars :: "string \<Rightarrow> string \<Rightarrow> parameter_kind \<Rightarrow> bool \<Rightarrow> js
    \<Rightarrow> argument_error + string list" where
  "query_scalars key label kind isArray v =
     (if \<not> isArray
      then res_map (\<lambda>s. [pair_text key (percentEncode s)]) (formatScalar v label kind Invalid_type)
      else (case js_items v of
          None \<Rightarrow> Inl (Invalid_type label)
        | Some vs \<Rightarrow> traverse (\<lambda>e. res_map (\<lambda>s. pair_text key (percentEncode s))
            (formatScalar e label kind Invalid_type)) vs))"

definition query_member :: "string \<Rightarrow> (string \<Rightarrow> string) \<Rightarrow> js \<Rightarrow> member_binding
    \<Rightarrow> argument_error + string list" where
  "query_member grp keyOf v m = (case js_get v (mb_name m) of
     JUndef \<Rightarrow> Inr []
   | JNull \<Rightarrow> Inl (Null_not_allowed (dotted grp (mb_name m)))
   | item \<Rightarrow> query_scalars (keyOf (mb_name m)) (dotted grp (mb_name m)) (mb_kind m) (mb_isArray m) item)"

definition objectQueryEntries :: "parameter \<Rightarrow> object_notation \<Rightarrow> member_binding list \<Rightarrow> js
    \<Rightarrow> argument_error + string list" where
  "objectQueryEntries p notation ms v =
     (if \<not> is_plain_object v then Inl (Invalid_type (p_name p))
      else res_map concat (traverse (query_member (p_name p)
        (\<lambda>m. memberKey (p_name p) m notation percentEncode) v) ms))"

definition value_encoder :: "serialization \<Rightarrow> string \<Rightarrow> string" where
  "value_encoder ser = (if se_allowReserved ser then percentEncodeAllowingReserved else percentEncode)"

definition query_item :: "parameter \<Rightarrow> parameter_kind \<Rightarrow> serialization \<Rightarrow> js \<Rightarrow> argument_error + string" where
  "query_item p kind ser i =
     res_map (\<lambda>s. if se_allowReserved ser \<and> se_separator ser = Some '',''
                   then replace_all '','' ''%2C'' (value_encoder ser s) else value_encoder ser s)
       (formatScalar i (p_name p) kind Invalid_type)"

definition joined_query :: "string \<Rightarrow> serialization \<Rightarrow> string list \<Rightarrow> string list" where
  "joined_query key ser items = (case se_separator ser of
     None \<Rightarrow> map (pair_text key) items
   | Some sep \<Rightarrow> [pair_text key (join_with (separatorFor sep) items)])"

definition scalarQueryEntries :: "parameter \<Rightarrow> parameter_kind \<Rightarrow> bool \<Rightarrow> serialization \<Rightarrow> js
    \<Rightarrow> argument_error + string list" where
  "scalarQueryEntries p kind isArray ser v =
     (let key = percentEncode (p_name p)
      in if isArray
         then (case js_items v of
             None \<Rightarrow> Inl (Invalid_type (p_name p))
           | Some [] \<Rightarrow> Inr []
           | Some vs \<Rightarrow> res_map (joined_query key ser) (traverse (query_item p kind ser) vs))
         else res_map (\<lambda>s. [pair_text key (value_encoder ser s)])
                (formatScalar v (p_name p) kind Invalid_type))"

definition query_entries :: "(string \<times> js) list \<Rightarrow> parameter \<Rightarrow> argument_error + string list" where
  "query_entries wire p = (case map_of wire (p_name p) of
     None \<Rightarrow> Inr []
   | Some v \<Rightarrow>
       if v = JNull then Inl (Null_not_allowed (p_name p))
       else (case p_shape p of
           Object_shape notation ms \<Rightarrow> objectQueryEntries p notation ms v
         | Content media ms \<Rightarrow> res_map (\<lambda>s. [pair_text (percentEncode (p_name p)) (percentEncode s)])
             (contentText p media v)
         | Scalar kind isArray ser \<Rightarrow> scalarQueryEntries p kind isArray ser v))"

definition compose_query :: "request_template \<Rightarrow> (string \<times> js) list \<Rightarrow> argument_error + string list" where
  "compose_query t wire = res_map concat (traverse (query_entries wire)
     (filter (\<lambda>p. p_location p = In_query) (t_parameters t)))"

definition querystringText :: "parameter \<Rightarrow> content_media \<Rightarrow> member_binding list option \<Rightarrow> js
    \<Rightarrow> argument_error + string" where
  "querystringText p media ms v =
     (if v = JNull then Inl (Null_not_allowed (p_name p))
      else if media \<noteq> Media_urlencoded then res_map percentEncode (contentText p media v)
      else if \<not> is_plain_object v then Inl (Invalid_type (p_name p))
      else res_map (\<lambda>es. join_with ''&'' (concat es))
             (traverse (query_member (p_name p) percentEncode v) (members_or_none ms)))"

definition is_content :: "parameter \<Rightarrow> bool" where
  "is_content p = (case p_shape p of Content media ms \<Rightarrow> True | _ \<Rightarrow> False)"

definition compose_querystring :: "request_template \<Rightarrow> (string \<times> js) list \<Rightarrow> string
    \<Rightarrow> argument_error + string" where
  "compose_querystring t wire queryText =
     (case List.find (\<lambda>p. p_location p = In_querystring \<and> is_content p) (t_parameters t) of
        None \<Rightarrow> Inr queryText
      | Some p \<Rightarrow> (case (p_shape p, map_of wire (p_name p)) of
          (Content media ms, Some v) \<Rightarrow> querystringText p media ms v
        | _ \<Rightarrow> Inr queryText))"

section \<open>Headers and cookies\<close>

text \<open>One header value; \<open>None\<close> for an empty array, which sends no header.\<close>

definition header_text :: "parameter \<Rightarrow> js \<Rightarrow> argument_error + string option" where
  "header_text p v = (case p_shape p of
     Content media ms \<Rightarrow> res_map Some (contentText p media v)
   | Scalar kind isArray ser \<Rightarrow>
       (if isArray
        then (case js_items v of
            None \<Rightarrow> Inl (Invalid_type (p_name p))
          | Some [] \<Rightarrow> Inr None
          | Some vs \<Rightarrow> res_map (\<lambda>items. Some (join_with (or_else (se_separator ser) '','') items))
              (traverse (\<lambda>i. formatScalar i (p_name p) kind Invalid_type) vs))
        else res_map Some (formatScalar v (p_name p) kind Invalid_type))
   | Object_shape notation ms \<Rightarrow> Inr None)"

definition header_step :: "(string \<times> js) list \<Rightarrow> (string \<times> string) list \<Rightarrow> parameter
    \<Rightarrow> argument_error + (string \<times> string) list" where
  "header_step wire headers p = (case map_of wire (p_name p) of
     None \<Rightarrow> Inr headers
   | Some v \<Rightarrow>
       if v = JNull then Inl (Null_not_allowed (p_name p))
       else res_bind (header_text p v) (\<lambda>text. case text of
         None \<Rightarrow> Inr headers
       | Some s \<Rightarrow> if list_ex header_unsafe s then Inl (Header_injection (p_name p))
                   else Inr (obj_put (p_name p) s headers)))"

definition compose_headers :: "request_template \<Rightarrow> (string \<times> js) list
    \<Rightarrow> argument_error + (string \<times> string) list" where
  "compose_headers t wire = fold_res (header_step wire) [] (located In_header t)"

definition cookieValue :: "parameter \<Rightarrow> parameter_kind \<Rightarrow> serialization \<Rightarrow> js \<Rightarrow> argument_error + string" where
  "cookieValue p kind ser v =
     res_bind (formatScalar v (p_name p) kind Invalid_type) (\<lambda>s.
       if \<not> se_rawCookie ser then Inr (percentEncode s)
       else if isCookieOctets s then Inr s else Inl (Invalid_cookie_value (p_name p)))"

definition cookie_entries :: "(string \<times> js) list \<Rightarrow> parameter \<Rightarrow> argument_error + string list" where
  "cookie_entries wire p = (case map_of wire (p_name p) of
     None \<Rightarrow> Inr []
   | Some v \<Rightarrow>
       if v = JNull then Inl (Null_not_allowed (p_name p))
       else (case p_shape p of
           Content media ms \<Rightarrow> res_map (\<lambda>s. [pair_text (p_name p) (percentEncode s)]) (contentText p media v)
         | Scalar kind isArray ser \<Rightarrow>
             (if isArray
              then (case js_items v of
                  None \<Rightarrow> Inl (Invalid_type (p_name p))
                | Some [] \<Rightarrow> Inr []
                | Some vs \<Rightarrow> res_map (\<lambda>items. [pair_text (p_name p)
                      (join_with (or_else (se_separator ser) '','') items)])
                    (traverse (cookieValue p kind ser) vs))
              else res_map (\<lambda>s. [pair_text (p_name p) s]) (cookieValue p kind ser v))
         | Object_shape notation ms \<Rightarrow> Inr []))"

definition compose_cookies :: "request_template \<Rightarrow> (string \<times> js) list \<Rightarrow> argument_error + string list" where
  "compose_cookies t wire = res_map concat (traverse (cookie_entries wire) (located In_cookie t))"

section \<open>Body and request\<close>

definition body_fields :: "request_template \<Rightarrow> (string \<times> js) list \<Rightarrow> (string \<times> js) list" where
  "body_fields t wire = fold (\<lambda>(n, v) fields.
     if n \<notin> set (map p_name (t_parameters t)) \<and> (n \<in> set (t_bodyProperties t) \<or> t_additional t)
     then obj_put n v fields else fields) wire []"

definition compose_body_value :: "request_template \<Rightarrow> (string \<times> js) list \<Rightarrow> (string \<times> js) list
    \<Rightarrow> argument_error + js" where
  "compose_body_value t wire deferred = (case t_bodyRoot t of
     Some root \<Rightarrow> (case t_rootFill t of
         None \<Rightarrow> Inr (case map_of wire root of Some v \<Rightarrow> v | None \<Rightarrow> JUndef)
       | Some fill \<Rightarrow> res_map (\<lambda>found. case found of Some v \<Rightarrow> v | None \<Rightarrow> JUndef)
           (resolveFill fill root (root \<in> set (t_requiredFills t)) deferred True))
   | None \<Rightarrow> Inr (if t_hasBody t then JObj (body_fields t wire) else JUndef))"

definition wire_values :: "request_template \<Rightarrow> js \<Rightarrow> (string \<times> js) list
    \<Rightarrow> argument_error + (string \<times> js) list" where
  "wire_values t args deferred =
     res_bind (toArgumentMap args) (\<lambda>entries.
     res_bind (rejectUnknown t entries) (\<lambda>_.
     res_bind (rejectUnknownMembers t entries) (\<lambda>_.
     applyFills t (translate t entries) deferred)))"

definition compose_wire :: "request_template \<Rightarrow> (string \<times> js) list \<Rightarrow> (string \<times> js) list \<Rightarrow> nat option
    \<Rightarrow> argument_error + composed_request" where
  "compose_wire t wire deferred limits =
     res_bind (compose_path t wire) (\<lambda>path.
     res_bind (compose_query t wire) (\<lambda>query.
     res_bind (compose_querystring t wire (join_with ''&'' query)) (\<lambda>queryText.
     res_bind (compose_headers t wire) (\<lambda>headers.
     res_bind (compose_cookies t wire) (\<lambda>cookies.
     res_bind (compose_body_value t wire deferred) (\<lambda>bodyValue.
     res_map (\<lambda>body.
         \<lparr>cr_pathAndQuery = (if queryText \<noteq> [] then path @ ''?'' @ queryText else path),
          cr_headers = (if cookies \<noteq> [] then obj_put ''cookie'' (join_with ''; '' cookies) headers
                        else headers),
          cr_body = body\<rparr>) (encodeBody t bodyValue limits)))))))"

definition compose :: "request_template \<Rightarrow> js \<Rightarrow> (string \<times> js) list \<Rightarrow> nat option
    \<Rightarrow> argument_error + composed_request" where
  "compose t args deferred limits =
     res_bind (wire_values t args deferred) (\<lambda>wire. compose_wire t wire deferred limits)"

section \<open>Cookies of the caller\<close>

definition cookie_pair_name :: "string \<Rightarrow> string" where
  "cookie_pair_name pair = trim (hd (split_on (CHR ''='') pair))"

definition cookieNames :: "string \<Rightarrow> string list" where
  "cookieNames header = map cookie_pair_name
     (filter (\<lambda>pair. length pair > 0) (map trim (split_on (CHR '';'') header)))"

definition mergeCookieHeader :: "string option \<Rightarrow> string option \<Rightarrow> argument_error + string option" where
  "mergeCookieHeader carried composed = (case composed of
     None \<Rightarrow> Inr carried
   | Some new \<Rightarrow> (case carried of
       None \<Rightarrow> Inr composed
     | Some old \<Rightarrow>
        if trim old = [] then Inr composed
        else (case List.find (\<lambda>n. n \<in> set (cookieNames old)) (cookieNames new) of
            Some clash \<Rightarrow> Inl (Cookie_carrier_collision clash)
          | None \<Rightarrow> Inr (Some (old @ ''; '' @ new)))))"

end
