(* ===== verification/Template_Facts.thy ===== *)
theory Template_Facts
  imports Request_Template
begin

text \<open>
  What a successfully created request template guarantees: unique names, placeholders matched by
  path parameters, no parameter in an identity slot; and the algebra of route templates, whose
  normal form is stable and can be filled slot by slot.
\<close>

section \<open>Name claims\<close>

lemma claim_names_Inr_iff [res_iff]:
  "claim_names e seen ns = Inr r \<longleftrightarrow> r = seen @ ns \<and> distinct ns \<and> set ns \<inter> set seen = {}"
  by (induction e seen ns rule: claim_names.induct) auto

lemma assertUnique_Inr_iff:
  "assertUniqueArgumentNames ps body = Inr r \<longleftrightarrow> r = body \<and> distinct (ps @ body)"
  by (auto simp: assertUniqueArgumentNames_def res_iff)

lemma check_parameter_Inr:
  "check_parameter names p = Inr names' \<longleftrightarrow> check_binding p = Inr ()
     \<and> (if p_fill p = None then agent_name p \<notin> set names \<and> names' = names @ [agent_name p]
        else names' = names)"
  by (cases "check_binding p") (auto simp: check_parameter_def res_iff)

definition visible :: "parameter list \<Rightarrow> string list" where
  "visible ps = map agent_name (filter (\<lambda>p. p_fill p = None) ps)"

lemma visible_simps [simp]:
  "visible [] = []"
  "visible (p # ps) = (if p_fill p = None then agent_name p # visible ps else visible ps)"
  by (simp_all add: visible_def)

lemma fold_check_parameter:
  "fold_res check_parameter names ps = Inr r \<Longrightarrow> distinct names \<Longrightarrow>
   r = names @ visible ps \<and> distinct r \<and> (\<forall>p \<in> set ps. check_binding p = Inr ())"
proof (induction ps arbitrary: names)
  case Nil
  then show ?case by simp
next
  case (Cons p ps)
  from Cons.prems(1) obtain names' where n: "check_parameter names p = Inr names'"
    and r: "fold_res check_parameter names' ps = Inr r"
    by (auto simp: res_iff)
  from n Cons.prems(2) have "distinct names'" by (auto simp: check_parameter_Inr split: if_splits)
  from Cons.IH [OF r this] n show ?case by (auto simp: check_parameter_Inr split: if_splits)
qed

text \<open>The checks a successful creation has passed, in one place.\<close>

lemma createRequestTemplate_Inr:
  assumes "createRequestTemplate input = Inr t"
  shows "distinct (map p_name (i_parameters input) @ body_names input)"
    and "distinct (visible (i_parameters input) @ map fst (i_aliases input))"
    and "\<forall>p \<in> set (i_parameters input). check_binding p = Inr ()"
    and "assertNoCarrierSlot (i_parameters input) (i_carriers input) = Inr ()"
    and "assertQuerystring (i_parameters input) = Inr ()"
    and "check_placeholders (i_route input) (i_parameters input) = Inr ()"
    and "assertBodyEncoding input (body_flag input) = Inr ()"
    and "i_bodyRoot input = None \<or> i_bodyProperties input = None \<and> \<not> i_additional input"
    and "body_flag input \<longrightarrow> to_upper (i_method input) \<notin> {''GET'', ''HEAD''}"
    and "t = build_template input (body_names input)"
proof -
  have g: "trim (i_route input) \<noteq> []"
    "\<not> (i_bodyRoot input \<noteq> None \<and> (i_bodyProperties input \<noteq> None \<or> i_additional input))"
    "\<not> (body_flag input \<and> to_upper (i_method input) \<in> {''GET'', ''HEAD''})"
    using assms unfolding createRequestTemplate_def by (auto split: if_split_asm)
  with assms obtain bp an where
    bp: "assertUniqueArgumentNames (map p_name (i_parameters input)) (body_names input) = Inr bp" and
    an: "fold_res check_parameter [] (i_parameters input) = Inr an" and
    rest: "assertNoCarrierSlot (i_parameters input) (i_carriers input) = Inr ()"
      "assertQuerystring (i_parameters input) = Inr ()"
      "check_placeholders (i_route input) (i_parameters input) = Inr ()"
      "assertBodyEncoding input (body_flag input) = Inr ()" and
    al: "distinct (map fst (i_aliases input))" "set (map fst (i_aliases input)) \<inter> set an = {}" and
    t: "t = build_template input bp"
    unfolding createRequestTemplate_def by (auto simp: res_iff)
  from bp have "bp = body_names input" "distinct (map p_name (i_parameters input) @ body_names input)"
    by (simp_all add: assertUnique_Inr_iff)
  moreover from fold_check_parameter [OF an] have "an = visible (i_parameters input)"
    "distinct (visible (i_parameters input))"
    "\<forall>p \<in> set (i_parameters input). check_binding p = Inr ()" by (auto simp del: visible_simps)
  ultimately show "distinct (map p_name (i_parameters input) @ body_names input)"
    "distinct (visible (i_parameters input) @ map fst (i_aliases input))"
    "\<forall>p \<in> set (i_parameters input). check_binding p = Inr ()"
    "assertNoCarrierSlot (i_parameters input) (i_carriers input) = Inr ()"
    "assertQuerystring (i_parameters input) = Inr ()"
    "check_placeholders (i_route input) (i_parameters input) = Inr ()"
    "assertBodyEncoding input (body_flag input) = Inr ()"
    "i_bodyRoot input = None \<or> i_bodyProperties input = None \<and> \<not> i_additional input"
    "body_flag input \<longrightarrow> to_upper (i_method input) \<notin> {''GET'', ''HEAD''}"
    "t = build_template input (body_names input)"
    using rest al t g by auto
qed

lemma build_template_simps [simp]:
  "t_parameters (build_template i b) = i_parameters i"
  "t_route (build_template i b) = normalizedRoute (i_route i)"
  "t_method (build_template i b) = to_upper (i_method i)"
  "t_hasBody (build_template i b) = body_flag i"
  "t_bodyProperties (build_template i b) = (if i_bodyRoot i = None then b else [])"
  "t_additional (build_template i b) = i_additional i"
  "t_bodyRoot (build_template i b) = i_bodyRoot i"
  "t_aliases (build_template i b) = i_aliases i"
  "t_fills (build_template i b) = i_fills i"
  "t_rootFill (build_template i b) = i_rootFill i"
  by (simp_all add: build_template_def Let_def)

section \<open>Routes\<close>

lemma render_route_append [simp]: "render_route f (xs @ ys) = render_route f xs @ render_route f ys"
  by (induction f xs rule: render_route.induct) auto

text \<open>What \<open>route_parts\<close> produces: a brace that opened no slot is followed by nothing that could.\<close>

fun good_parts :: "route_part list \<Rightarrow> bool" where
  "good_parts [] = True"
| "good_parts (Slot n # ps) = (n \<noteq> [] \<and> list_all name_char n \<and> good_parts ps)"
| "good_parts (Chr c # ps) = (good_parts ps \<and> (c = CHR ''{'' \<longrightarrow>
     (case ps of [] \<Rightarrow> True | Chr d # qs \<Rightarrow> \<not> name_char d | Slot n # qs \<Rightarrow> False)
     \<or> list_all (\<lambda>p. \<exists>d. p = Chr d \<and> d \<noteq> CHR ''}'') ps))"

lemma route_parts_no_close:
  "CHR ''}'' \<notin> set s \<Longrightarrow> route_parts s = map Chr s"
  by (induction s rule: route_parts.induct) auto

lemma good_route_parts: "good_parts (route_parts s)"
proof (induction s rule: route_parts.induct)
  case 1
  show ?case by simp
next
  case (2 c cs)
  show ?case
  proof (cases "c = CHR ''{'' \<and> takeWhile name_char cs \<noteq> [] \<and> CHR ''}'' \<in> set cs")
    case True
    have "list_all name_char (takeWhile name_char cs)"
      unfolding list_all_iff by (blast dest: set_takeWhileD)
    with True 2(1) [OF True] show ?thesis by simp
  next
    case False
    then consider "c \<noteq> CHR ''{''" | "takeWhile name_char cs = []" | "CHR ''}'' \<notin> set cs" by blast
    then show ?thesis
    proof cases
      case 1
      with 2(2) [OF False] False show ?thesis by simp
    next
      case empty: 2
      show ?thesis
      proof (cases cs)
        case Nil
        then show ?thesis by simp
      next
        case (Cons d ds)
        with empty have d: "\<not> name_char d" by (auto split: if_splits)
        then have "d \<noteq> CHR ''{''" by (auto simp: name_char_def)
        with Cons have r: "route_parts cs = Chr d # route_parts ds" by simp
        with 2(2) [OF False] have "good_parts (Chr d # route_parts ds)" by simp
        moreover have "route_parts (c # cs) = Chr c # Chr d # route_parts ds"
          using False r by (simp only: route_parts.simps if_False)
        ultimately show ?thesis using d by simp
      qed
    next
      case 3
      then have m: "route_parts cs = map Chr cs" by (rule route_parts_no_close)
      have r: "route_parts (c # cs) = Chr c # map Chr cs" using False m by simp
      have "list_all (\<lambda>p. \<exists>d. p = Chr d \<and> d \<noteq> CHR ''}'') (map Chr cs)"
        using 3 by (auto simp: list_all_iff)
      with 2(2) [OF False] m show ?thesis by (simp add: r del: route_parts.simps)
    qed
  qed
qed

lemma takeWhile_slot:
  "list_all name_char n \<Longrightarrow> takeWhile name_char (n @ CHR ''}'' # s) = n"
  by (induction n) (simp_all add: name_char_def)

lemma dropWhile_slot:
  "list_all name_char n \<Longrightarrow> dropWhile (\<lambda>d. d \<noteq> CHR ''}'') (n @ CHR ''}'' # s) = CHR ''}'' # s"
  by (induction n) (auto simp: name_char_def)

lemma route_parts_slot_text:
  "n \<noteq> [] \<Longrightarrow> list_all name_char n \<Longrightarrow> route_parts (slot_text n @ s) = Slot n # route_parts s"
  by (simp add: slot_text_def takeWhile_slot dropWhile_slot)

lemma render_no_close:
  "list_all (\<lambda>p. \<exists>d. p = Chr d \<and> d \<noteq> CHR ''}'') ps \<Longrightarrow> CHR ''}'' \<notin> set (render_route f ps)"
  by (induction f ps rule: render_route.induct) auto

lemma route_parts_render: "good_parts ps \<Longrightarrow> route_parts (render_route slot_text ps) = ps"
proof (induction ps rule: good_parts.induct)
  case 1
  show ?case by simp
next
  case (2 n ps)
  then show ?case by (simp add: route_parts_slot_text)
next
  case (3 c ps)
  have "takeWhile name_char (render_route slot_text ps) = [] \<or> CHR ''}'' \<notin> set (render_route slot_text ps)"
    if "c = CHR ''{''"
  proof -
    from 3(2) that consider
        "case ps of [] \<Rightarrow> True | Chr d # qs \<Rightarrow> \<not> name_char d | Slot n # qs \<Rightarrow> False"
      | "list_all (\<lambda>p. \<exists>d. p = Chr d \<and> d \<noteq> CHR ''}'') ps" by auto
    then show ?thesis
    proof cases
      case 1
      then show ?thesis by (auto split: list.splits route_part.splits)
    next
      case 2
      then show ?thesis using render_no_close by blast
    qed
  qed
  with 3 show ?case by auto
qed

lemma normalizedRoute_parts: "route_parts (normalizedRoute r) = route_parts r"
  unfolding normalizedRoute_def by (rule route_parts_render [OF good_route_parts])

section \<open>Filling slots one at a time\<close>

lemma replace_skip: "replace_from (length x) pat rep (x @ y) = replace_from 0 pat rep y"
  by (induction x) simp_all

lemma replace_clean:
  "CHR ''{'' \<notin> set x \<Longrightarrow> replace_from 0 (slot_text n) rep (x @ y) = x @ replace_from 0 (slot_text n) rep y"
  by (induction x) (auto simp: slot_text_def)

lemma slot_prefix_iff:
  assumes "CHR ''}'' \<notin> set n" and "CHR ''}'' \<notin> set m"
  shows "prefix (slot_text n) (slot_text m @ s) \<longleftrightarrow> n = m"
proof
  assume "prefix (slot_text n) (slot_text m @ s)"
  then obtain u where "n @ CHR ''}'' # u = m @ CHR ''}'' # s"
    by (auto simp: slot_text_def prefix_def)
  with assms show "n = m" by (simp add: append_sep_inj)
qed (simp add: slot_text_def prefix_def)

lemma name_char_no_close: "list_all name_char n \<Longrightarrow> CHR ''}'' \<notin> set n"
  by (auto simp: list_all_iff name_char_def)

text \<open>One \<open>replaceAll\<close> on a partly filled route fills one slot and nothing else.\<close>

lemma fill_one_slot:
  assumes "good_parts ps" and "n \<noteq> []" and "list_all name_char n"
    and "\<And>m. m \<in> set (slot_names ps) \<Longrightarrow> CHR ''{'' \<notin> set m"
    and "\<And>m. m \<in> set (slot_names ps) \<Longrightarrow> f m = slot_text m \<or> CHR ''{'' \<notin> set (f m)"
    and "f n = slot_text n" and "g n = w" and "\<And>m. m \<noteq> n \<Longrightarrow> g m = f m"
  shows "replace_all (slot_text n) w (render_route f ps) = render_route g ps"
  using assms(1,4,5) unfolding replace_all_def
proof (induction ps rule: good_parts.induct)
  case 1
  show ?case by (simp add: replace_all_def)
next
  case (2 m ps)
  from 2 have IH: "replace_from 0 (slot_text n) w (render_route f ps) = render_route g ps"
    by simp
  have m: "m \<noteq> []" "list_all name_char m" "CHR ''{'' \<notin> set m" using 2(2,3) by auto
  show ?case
  proof (cases "m = n")
    case True
    have "replace_from 0 (slot_text n) w (slot_text n @ x) = w @ replace_from 0 (slot_text n) w x" for x
    proof -
      have "slot_text n = CHR ''{'' # (n @ ''}'')" by (simp add: slot_text_def)
      moreover have "prefix (slot_text n) (slot_text n @ x)" by simp
      ultimately show ?thesis using replace_skip [of "n @ ''}''" "slot_text n" w x] by simp
    qed
    with True IH assms(6,7) show ?thesis by simp
  next
    case False
    have "replace_from 0 (slot_text n) w (f m @ x) = f m @ replace_from 0 (slot_text n) w x" for x
    proof (cases "f m = slot_text m")
      case True
      have "\<not> prefix (slot_text n) (slot_text m @ x)"
        using slot_prefix_iff [of n m x] False m(2) assms(3) by (simp add: name_char_no_close)
      moreover have "replace_from 0 (slot_text n) w ((m @ ''}'') @ x) = (m @ ''}'') @ replace_from 0 (slot_text n) w x"
        using m(3) by (intro replace_clean) auto
      ultimately show ?thesis by (simp add: True slot_text_def)
    next
      case no: False
      with 2(4) [of m] show ?thesis by (intro replace_clean) simp
    qed
    with False IH assms(8) show ?thesis by simp
  qed
next
  case (3 c ps)
  from 3 have IH: "replace_from 0 (slot_text n) w (render_route f ps) = render_route g ps"
    by simp
  have "\<not> prefix (slot_text n) (c # render_route f ps)"
  proof (cases "c = CHR ''{''")
    case False
    then show ?thesis by (simp add: slot_text_def)
  next
    case True
    obtain a as where n: "n = a # as" using assms(2) by (cases n) auto
    from 3(2) True consider
        "case ps of [] \<Rightarrow> True | Chr d # qs \<Rightarrow> \<not> name_char d | Slot n # qs \<Rightarrow> False"
      | "list_all (\<lambda>p. \<exists>d. p = Chr d \<and> d \<noteq> CHR ''}'') ps" by auto
    then show ?thesis
    proof cases
      case 1
      then show ?thesis
        using n assms(3) by (auto simp: slot_text_def split: list.splits route_part.splits)
    next
      case 2
      then have "CHR ''}'' \<notin> set (render_route f ps)" by (rule render_no_close)
      then show ?thesis by (auto simp: slot_text_def prefix_def)
    qed
  qed
  with IH show ?case by simp
qed

end
