(* ===== verification/Composer_Path.thy ===== *)
theory Composer_Path
  imports Request_Composer Template_Facts
begin

text \<open>
  The path of a composed request: the argument texts stay inside their segments, and the
  left-to-right substitution of the source equals filling every slot of the route at once.
\<close>

section \<open>Generic facts\<close>

lemma traverse_all:
  "traverse f xs = Inr ys \<Longrightarrow> (\<And>x y. x \<in> set xs \<Longrightarrow> f x = Inr y \<Longrightarrow> P y) \<Longrightarrow> \<forall>y \<in> set ys. P y"
proof (induction xs arbitrary: ys)
  case Nil
  then show ?case by simp
next
  case (Cons x xs)
  from Cons.prems(1) obtain y zs where y: "f x = Inr y" and zs: "traverse f xs = Inr zs" "ys = y # zs"
    by (auto simp: res_iff)
  have "P y" by (rule Cons.prems(2) [OF _ y]) simp
  moreover have "\<forall>z \<in> set zs. P z"
  proof (rule Cons.IH [OF zs(1)])
    fix u z
    assume "u \<in> set xs" and "f u = Inr z"
    then show "P z" by (intro Cons.prems(2) [of u z]) simp_all
  qed
  ultimately show ?case using zs(2) by simp
qed

lemma traverse_length: "traverse f xs = Inr ys \<Longrightarrow> length ys = length xs"
  by (induction xs arbitrary: ys) (auto simp: res_iff)

lemma set_join: "c \<in> set (join_with sep ws) \<Longrightarrow> c \<in> set sep \<or> (\<exists>w \<in> set ws. c \<in> set w)"
  using set_join_with_subset [of sep ws] by blast

section \<open>Segments\<close>

definition segment_char :: "char \<Rightarrow> bool" where
  "segment_char c = (encoded_char c \<or> c \<in> set ''.;=,'')"

definition segment_safe :: "string \<Rightarrow> bool" where
  "segment_safe s = list_all segment_char s"

lemma segment_char_excludes:
  "segment_char c \<Longrightarrow> c \<notin> set ''/?#{}$&'' \<and> printable c"
proof (cases "encoded_char c")
  case True
  from encoded_char_cases [OF this] show ?thesis by auto
next
  case False
  moreover assume "segment_char c"
  ultimately have "c \<in> set ''.;=,''" by (simp add: segment_char_def)
  then show ?thesis by (auto simp: printable_def)
qed

lemma segment_safe_encode: "segment_safe (percentEncode s)"
  using percentEncode_encoded [of s] by (auto simp: segment_safe_def segment_char_def list_all_iff)

lemma segment_safe_simps [simp]:
  "segment_safe []" "segment_safe (c # s) \<longleftrightarrow> segment_char c \<and> segment_safe s"
  "segment_safe (s @ t) \<longleftrightarrow> segment_safe s \<and> segment_safe t"
  by (simp_all add: segment_safe_def)

lemma segment_marks [simp]:
  "segment_char (CHR ''.'')" "segment_char (CHR '';'')" "segment_char (CHR ''='')" "segment_char (CHR '','')"
  by (simp_all add: segment_char_def)

lemma segment_safe_join:
  "segment_safe sep \<Longrightarrow> \<forall>w \<in> set ws. segment_safe w \<Longrightarrow> segment_safe (join_with sep ws)"
  by (auto simp: segment_safe_def list_all_iff dest!: set_join)

lemma segment_safe_concat: "\<forall>w \<in> set ws. segment_safe w \<Longrightarrow> segment_safe (concat ws)"
  by (induction ws) simp_all

lemma pathSegment_safe:
  assumes "pathSegment p kind isArray ser v = Inr s"
  shows "segment_safe s"
proof -
  let ?enc = "\<lambda>i. res_map percentEncode (formatScalar i (p_name p) kind Invalid_path_type)"
  have enc: "segment_safe y" if "?enc i = Inr y" for i y
    using that by (auto simp: res_iff segment_safe_encode)
  show ?thesis
  proof (cases isArray)
    case False
    with assms obtain item where "?enc v = Inr item" and s: "s = styled_item (percentEncode (p_name p)) ser item"
      by (auto simp: pathSegment_def Let_def res_map_Inr_iff)
    from enc [OF this(1)] show ?thesis
      unfolding s by (simp add: styled_item_def segment_safe_encode split: option.splits path_style.splits)
  next
    case True
    with assms obtain vs items where "traverse ?enc vs = Inr items"
      and s: "s = styled_items (percentEncode (p_name p)) ser items"
      by (auto simp: pathSegment_def Let_def res_map_Inr_iff simp del: traverse.simps
          split: option.split_asm list.split_asm)
    from traverse_all [OF this(1), of segment_safe] enc have "\<forall>y \<in> set items. segment_safe y" by blast
    then show ?thesis
      unfolding s by (auto simp: styled_items_def segment_safe_encode segment_safe_join
          intro!: segment_safe_concat split: option.splits path_style.splits)
  qed
qed

lemma parameter_segment_safe: "parameter_segment p v = Inr s \<Longrightarrow> segment_safe s"
  by (auto simp: parameter_segment_def res_iff segment_safe_encode dest: pathSegment_safe
      split: shape.splits)

lemma segment_no_brace: "segment_safe s \<Longrightarrow> CHR ''{'' \<notin> set s"
  using segment_char_excludes [of "CHR ''{''"] by (auto simp: segment_safe_def list_all_iff)

section \<open>Filling the route\<close>

definition slot_ok :: "string \<Rightarrow> bool" where
  "slot_ok n = (n \<noteq> [] \<and> list_all name_char n \<and> CHR ''{'' \<notin> set n)"

lemma path_fold:
  assumes "fold_res (path_step wire) (render_route f ps) qs = Inr path"
    and "good_parts ps" and "\<forall>m \<in> set (slot_names ps). slot_ok m"
    and "\<forall>m \<in> set (slot_names ps). f m = slot_text m \<or> CHR ''{'' \<notin> set (f m)"
    and "distinct (map p_name qs)"
    and "\<forall>q \<in> set qs. slot_ok (p_name q) \<and> f (p_name q) = slot_text (p_name q)"
  shows "\<exists>g. path = render_route g ps \<and> (\<forall>m. m \<notin> p_name ` set qs \<longrightarrow> g m = f m)
    \<and> (\<forall>q \<in> set qs. \<exists>v. map_of wire (p_name q) = Some v \<and> parameter_segment q v = Inr (g (p_name q)))"
  using assms(1,4,5,6)
proof (induction qs arbitrary: f)
  case Nil
  then show ?case by auto
next
  case (Cons q qs)
  from Cons.prems(1) obtain p1 where p1: "path_step wire (render_route f ps) q = Inr p1"
    and rest: "fold_res (path_step wire) p1 qs = Inr path" by (auto simp: res_iff)
  from p1 obtain v w where v: "map_of wire (p_name q) = Some v" and w: "parameter_segment q v = Inr w"
    and eq: "p1 = replace_all (slot_text (p_name q)) w (render_route f ps)"
    by (auto simp: path_step_def res_iff split: option.splits if_splits)
  define f' where "f' = f(p_name q := w)"
  have q: "slot_ok (p_name q)" "f (p_name q) = slot_text (p_name q)" using Cons.prems(4) by simp_all
  have "p1 = render_route f' ps"
    unfolding eq
    by (rule fill_one_slot [where f = f])
      (use assms(2,3) Cons.prems(2) q in \<open>auto simp: slot_ok_def f'_def\<close>)
  with rest have r: "fold_res (path_step wire) (render_route f' ps) qs = Inr path" by simp
  have f1: "\<forall>m \<in> set (slot_names ps). f' m = slot_text m \<or> CHR ''{'' \<notin> set (f' m)"
    using Cons.prems(2) segment_no_brace [OF parameter_segment_safe [OF w]] by (simp add: f'_def)
  have f2: "\<forall>q' \<in> set qs. slot_ok (p_name q') \<and> f' (p_name q') = slot_text (p_name q')"
    using Cons.prems(3,4) by (auto simp: f'_def image_iff)
  from Cons.IH [OF r f1 _ f2] Cons.prems(3) obtain g where g: "path = render_route g ps"
    "\<forall>m. m \<notin> p_name ` set qs \<longrightarrow> g m = f' m"
    "\<forall>q \<in> set qs. \<exists>v. map_of wire (p_name q) = Some v \<and> parameter_segment q v = Inr (g (p_name q))"
    by auto
  have "g (p_name q) = w" using g(2) Cons.prems(3) by (simp add: f'_def)
  with g v w show ?case by (intro exI [of _ g]) (auto simp: f'_def)
qed

text \<open>Path parameters of a created template name exactly the route's slots.\<close>

lemma slot_names_good: "good_parts ps \<Longrightarrow> n \<in> set (slot_names ps) \<Longrightarrow> n \<noteq> [] \<and> list_all name_char n"
  by (induction ps rule: good_parts.induct) auto

lemma placeholders_match:
  assumes "check_placeholders route ps = Inr ()"
  shows "p_name ` {p \<in> set ps. p_location p = In_path} = set (slot_names (route_parts route))"
  using assms by (auto simp: check_placeholders_def Let_def res_iff routePlaceholderNames_def list_ex_iff)

lemma path_not_object:
  "check_binding p = Inr () \<Longrightarrow> p_location p = In_path \<Longrightarrow> \<not> is_object_parameter p"
  by (auto simp: check_binding_def assertObjectBinding_def is_object_parameter_def split: shape.splits)

lemma distinct_located: "distinct (map p_name (t_parameters t)) \<Longrightarrow> distinct (map p_name (located l t))"
  by (simp add: located_def distinct_map_filter)

lemma compose_path_slots:
  assumes t: "createRequestTemplate input = Inr t" and path: "compose_path t wire = Inr path"
    and plain: "CHR ''{'' \<notin> \<Union> (set ` set (slot_names (route_parts (i_route input))))"
  shows "\<exists>g. path = render_route g (route_parts (i_route input))
    \<and> (\<forall>p \<in> set (t_parameters t). p_location p = In_path \<longrightarrow>
        (\<exists>v. map_of wire (p_name p) = Some v \<and> parameter_segment p v = Inr (g (p_name p))))
    \<and> (\<forall>n \<in> set (slot_names (route_parts (i_route input))). segment_safe (g n))"
proof -
  let ?ps = "route_parts (i_route input)"
  have tp: "t_parameters t = i_parameters input" "t_route t = render_route slot_text ?ps"
    using createRequestTemplate_Inr(10) [OF t] by (simp_all add: build_template_def Let_def normalizedRoute_def)
  have names: "p_name ` {p \<in> set (t_parameters t). p_location p = In_path} = set (slot_names ?ps)"
    unfolding tp by (rule placeholders_match [OF createRequestTemplate_Inr(6) [OF t]])
  have noobj: "\<not> is_object_parameter p" if "p \<in> set (t_parameters t)" "p_location p = In_path" for p
    using createRequestTemplate_Inr(3) [OF t] that path_not_object by (simp add: tp)
  have ok: "\<forall>m \<in> set (slot_names ?ps). slot_ok m"
    using plain slot_names_good [OF good_route_parts] by (auto simp: slot_ok_def)
  have loc: "set (located In_path t) = {p \<in> set (t_parameters t). p_location p = In_path}"
    using noobj by (auto simp: located_def)
  have dist: "distinct (map p_name (located In_path t))"
    using createRequestTemplate_Inr(1) [OF t] by (intro distinct_located) (simp add: tp)
  have qs: "\<forall>q \<in> set (located In_path t). slot_ok (p_name q) \<and> slot_text (p_name q) = slot_text (p_name q)"
    using ok names loc by auto
  from path have "fold_res (path_step wire) (render_route slot_text ?ps) (located In_path t) = Inr path"
    by (simp add: compose_path_def tp)
  from path_fold [OF this good_route_parts ok _ dist qs] obtain g where
    g: "path = render_route g ?ps"
    "\<forall>q \<in> set (located In_path t). \<exists>v. map_of wire (p_name q) = Some v
       \<and> parameter_segment q v = Inr (g (p_name q))" by blast
  have "segment_safe (g n)" if "n \<in> set (slot_names ?ps)" for n
  proof -
    from that have "n \<in> p_name ` set (located In_path t)" unfolding names [symmetric] loc .
    then obtain p where "p \<in> set (located In_path t)" "p_name p = n" by blast
    with g(2) obtain v where "parameter_segment p v = Inr (g n)" by auto
    then show ?thesis by (rule parameter_segment_safe)
  qed
  with g loc show ?thesis by (intro exI [of _ g]) auto
qed

lemma render_count:
  assumes "\<forall>n \<in> set (slot_names ps). c \<notin> set (g n)"
  shows "count_list (render_route g ps) c = count_list (render_route (\<lambda>n. []) ps) c"
  using assms by (induction g ps rule: render_route.induct) auto

end
