(* ===== verification/Composer_Wire.thy ===== *)
theory Composer_Wire
  imports Composer_Path
begin

text \<open>
  Query, headers and cookies of a composed request: the argument texts add no pair, no header and no
  cookie of their own. The wire encoders enter through the interpretations of \<open>wire_encoder\<close>.
\<close>

section \<open>Separators\<close>

text \<open>
  The separators \<open>serializationFor\<close> produces; a cookie array is joined by a comma. A template built
  by hand may carry others, so this is a hypothesis where it matters.
\<close>

definition plain_separator :: "location \<Rightarrow> string option \<Rightarrow> bool" where
  "plain_separator l sep = (sep \<in> {None, Some '',''} \<or> l \<noteq> In_cookie \<and> sep \<in> {Some '' '', Some ''|''})"

definition plain_binding :: "parameter \<Rightarrow> bool" where
  "plain_binding p = (case p_shape p of Scalar kind isArray ser \<Rightarrow> plain_separator (p_location p) (se_separator ser)
     | _ \<Rightarrow> True)"

definition plain_separators :: "request_template \<Rightarrow> bool" where
  "plain_separators t = list_all plain_binding (t_parameters t)"

lemma arraySeparatorFor_plain: "arraySeparatorFor st ex = Inr sep \<Longrightarrow> sep \<in> {None, Some '','', Some '' '', Some ''|''}"
  by (auto simp: arraySeparatorFor_def Let_def split: if_splits)

lemma serializationFor_plain:
  "serializationFor l st ex isArray res = Inr ser \<Longrightarrow> plain_separator l (se_separator ser)"
  by (cases l) (auto simp: serializationFor_def plain_separator_def no_serialization_def separated_def res_iff
      split: if_splits dest!: arraySeparatorFor_plain)

section \<open>Query pairs\<close>

definition query_clean :: "string \<Rightarrow> bool" where
  "query_clean s = list_all (\<lambda>c. c \<noteq> CHR ''&'' \<and> c \<noteq> CHR ''#'') s"

definition key_clean :: "string \<Rightarrow> bool" where
  "key_clean s = list_all (\<lambda>c. c \<noteq> CHR ''&'' \<and> c \<noteq> CHR ''#'' \<and> c \<noteq> CHR ''='') s"

lemma clean_simps [simp]:
  "query_clean []" "query_clean (c # s) \<longleftrightarrow> c \<noteq> CHR ''&'' \<and> c \<noteq> CHR ''#'' \<and> query_clean s"
  "query_clean (s @ t) \<longleftrightarrow> query_clean s \<and> query_clean t"
  "key_clean []" "key_clean (c # s) \<longleftrightarrow> c \<noteq> CHR ''&'' \<and> c \<noteq> CHR ''#'' \<and> c \<noteq> CHR ''='' \<and> key_clean s"
  "key_clean (s @ t) \<longleftrightarrow> key_clean s \<and> key_clean t"
  by (simp_all add: query_clean_def key_clean_def)

lemma key_clean_query: "key_clean s \<Longrightarrow> query_clean s"
  by (auto simp: key_clean_def query_clean_def list_all_iff)

lemma key_clean_encode: "key_clean (percentEncode s)"
  using plain.pair_safe by (auto simp: key_clean_def list_all_iff)

lemma key_clean_encode_reserved: "key_clean (percentEncodeAllowingReserved s)"
  using reserved.pair_safe by (auto simp: key_clean_def list_all_iff)

lemma key_clean_join: "key_clean sep \<Longrightarrow> \<forall>w \<in> set ws. key_clean w \<Longrightarrow> key_clean (join_with sep ws)"
  by (induction sep ws rule: join_with.induct) auto

lemma key_clean_separator: "plain_separator l (Some sep) \<Longrightarrow> key_clean (separatorFor sep)"
  by (auto simp: plain_separator_def separatorFor_def)

lemma replace_clean_key: "key_clean s \<Longrightarrow> key_clean rep \<Longrightarrow> key_clean (replace_from k pat rep s)"
  by (induction k pat rep s rule: replace_from.induct) auto

lemma decode_append: "percentDecode (percentEncode s @ t) = s @ percentDecode t"
  by (induction s) (simp_all add: percentDecode_pct_char)

lemma decode_memberKey:
  "percentDecode (memberKey g m n percentEncode) = memberKey g m n (\<lambda>s. s)"
proof -
  have "percentDecode [] = []" by simp
  then show ?thesis
    using decode_append [of m "[]"] decode_append [of m "'']''"]
    by (cases n) (simp_all add: memberKey_def decode_append)
qed

lemma key_clean_memberKey: "key_clean (memberKey g m n percentEncode)"
  by (cases n) (simp_all add: memberKey_def key_clean_encode)

text \<open>The query keys a parameter may produce, as the server reads them.\<close>

definition query_keys :: "parameter \<Rightarrow> string set" where
  "query_keys p = (case p_shape p of
     Object_shape nota ms \<Rightarrow> (\<lambda>m. memberKey (p_name p) (mb_name m) nota (\<lambda>s. s)) ` set ms
   | _ \<Rightarrow> {p_name p})"

definition good_entry :: "string set \<Rightarrow> string \<Rightarrow> bool" where
  "good_entry keys e = (\<exists>k v. e = pair_text k v \<and> key_clean k \<and> query_clean v \<and> percentDecode k \<in> keys)"

lemma good_entryI: "key_clean k \<Longrightarrow> query_clean v \<Longrightarrow> percentDecode k \<in> keys \<Longrightarrow> good_entry keys (pair_text k v)"
  by (auto simp: good_entry_def)

lemma query_scalars_good:
  assumes "query_scalars key label kind isArray v = Inr es" and "key_clean key" and "percentDecode key \<in> keys"
  shows "\<forall>e \<in> set es. good_entry keys e"
proof -
  have one: "good_entry keys (pair_text key (percentEncode s))" for s
    using assms(2,3) by (intro good_entryI key_clean_query key_clean_encode)
  show ?thesis
  proof (cases isArray)
    case False
    with assms(1) one show ?thesis by (auto simp: query_scalars_def res_map_Inr_iff)
  next
    case True
    with assms(1) obtain vs where "traverse (\<lambda>e. res_map (\<lambda>s. pair_text key (percentEncode s))
        (formatScalar e label kind Invalid_type)) vs = Inr es"
      by (auto simp: query_scalars_def split: option.splits)
    then show ?thesis by (rule traverse_all) (auto simp: res_map_Inr_iff one)
  qed
qed

lemma query_member_good:
  assumes "query_member grp keyOf v m = Inr es" and "key_clean (keyOf (mb_name m))"
    and "percentDecode (keyOf (mb_name m)) \<in> keys"
  shows "\<forall>e \<in> set es. good_entry keys e"
  using assms query_scalars_good [OF _ assms(2,3)]
  by (auto simp: query_member_def split: js.splits)

lemma value_encoder_clean: "key_clean (value_encoder ser s)"
  by (simp add: value_encoder_def key_clean_encode key_clean_encode_reserved)

lemma query_item_clean: "query_item p kind ser i = Inr y \<Longrightarrow> key_clean y"
proof -
  have "key_clean ''%2C''" by simp
  from replace_clean_key [OF value_encoder_clean this] show "query_item p kind ser i = Inr y \<Longrightarrow> key_clean y"
    by (auto simp: query_item_def res_map_Inr_iff replace_all_def value_encoder_clean)
qed

lemma scalarQueryEntries_good:
  assumes "scalarQueryEntries p kind isArray ser v = Inr es"
    and "plain_separator (p_location p) (se_separator ser)"
  shows "\<forall>e \<in> set es. good_entry {p_name p} e"
proof -
  have key: "good_entry {p_name p} (pair_text (percentEncode (p_name p)) s)" if "key_clean s" for s
    using that decode_append [of "p_name p" "[]"]
    by (intro good_entryI key_clean_encode key_clean_query) simp_all
  show ?thesis
  proof (cases isArray)
    case False
    with assms(1) key value_encoder_clean show ?thesis
      by (auto simp: scalarQueryEntries_def Let_def res_map_Inr_iff)
  next
    case True
    then consider "es = []" | vs items where "traverse (query_item p kind ser) vs = Inr items"
        "es = joined_query (percentEncode (p_name p)) ser items"
      using assms(1) by (auto simp: scalarQueryEntries_def Let_def res_map_Inr_iff simp del: traverse.simps
          split: option.split_asm list.split_asm)
    then show ?thesis
    proof cases
      case 1
      then show ?thesis by simp
    next
      case 2
      have clean: "\<forall>y \<in> set items. key_clean y" by (rule traverse_all [OF 2(1)]) (rule query_item_clean)
      show ?thesis
      proof (cases "se_separator ser")
        case None
        with 2(2) clean key show ?thesis by (auto simp: joined_query_def)
      next
        case (Some sep)
        with assms(2) have "key_clean (separatorFor sep)" by (auto intro: key_clean_separator)
        with 2(2) clean key Some show ?thesis by (simp add: key_clean_join joined_query_def)
      qed
    qed
  qed
qed

lemma query_entries_good:
  assumes "query_entries wire p = Inr es" and "plain_binding p"
  shows "\<forall>e \<in> set es. good_entry (query_keys p) e"
proof (cases "map_of wire (p_name p)")
  case None
  with assms(1) show ?thesis by (simp add: query_entries_def)
next
  case (Some v)
  with assms(1) have nn: "v \<noteq> JNull" by (auto simp: query_entries_def)
  show ?thesis
  proof (cases "p_shape p")
    case (Scalar kind isArray ser)
    with assms Some nn have "scalarQueryEntries p kind isArray ser v = Inr es"
      "plain_separator (p_location p) (se_separator ser)"
      by (simp_all add: query_entries_def plain_binding_def)
    from scalarQueryEntries_good [OF this] Scalar show ?thesis by (simp add: query_keys_def)
  next
    case (Object_shape nota ms)
    with assms(1) Some nn obtain ess where
      ess: "traverse (query_member (p_name p) (\<lambda>m. memberKey (p_name p) m nota percentEncode) v) ms = Inr ess"
      and es: "es = concat ess"
      by (auto simp: query_entries_def objectQueryEntries_def res_map_Inr_iff split: if_splits)
    have "\<forall>l \<in> set ess. \<forall>e \<in> set l. good_entry (query_keys p) e"
    proof (rule traverse_all [OF ess])
      fix m l assume m: "m \<in> set ms"
        and l: "query_member (p_name p) (\<lambda>m. memberKey (p_name p) m nota percentEncode) v m = Inr l"
      show "\<forall>e \<in> set l. good_entry (query_keys p) e"
        by (rule query_member_good [OF l])
          (use m Object_shape in \<open>auto simp: key_clean_memberKey decode_memberKey query_keys_def\<close>)
    qed
    with es show ?thesis by auto
  next
    case (Content media ms)
    with assms(1) Some nn obtain s where "es = [pair_text (percentEncode (p_name p)) (percentEncode s)]"
      by (auto simp: query_entries_def res_map_Inr_iff)
    moreover have "good_entry {p_name p} (pair_text (percentEncode (p_name p)) (percentEncode s))"
      using decode_append [of "p_name p" "[]"]
      by (intro good_entryI key_clean_encode key_clean_query) simp_all
    ultimately show ?thesis using Content by (simp add: query_keys_def)
  qed
qed

lemma takeWhile_key: "key_clean k \<Longrightarrow> takeWhile (\<lambda>c. c \<noteq> CHR ''='') (k @ CHR ''='' # v) = k"
  by (induction k) simp_all

lemma query_clean_set: "query_clean s \<Longrightarrow> CHR ''&'' \<notin> set s \<and> CHR ''#'' \<notin> set s"
  by (induction s) auto

lemma good_entry_read: "good_entry keys e \<Longrightarrow> fst (read_pair e) \<in> keys"
proof -
  assume "good_entry keys e"
  then obtain k v where e: "e = pair_text k v" and k: "key_clean k" and m: "percentDecode k \<in> keys"
    unfolding good_entry_def by blast
  have "fst (read_pair e) = percentDecode (takeWhile (\<lambda>c. c \<noteq> CHR ''='') (k @ CHR ''='' # v))"
    unfolding e read_pair_def pair_text_def by (simp only: fst_conv append_Cons append_Nil)
  with m show ?thesis by (simp only: takeWhile_key [OF k])
qed

lemma good_entry_no_amp: "good_entry keys e \<Longrightarrow> CHR ''&'' \<notin> set e \<and> CHR ''#'' \<notin> set e"
proof -
  assume "good_entry keys e"
  then obtain k v where e: "e = pair_text k v" and "key_clean k" "query_clean v"
    unfolding good_entry_def by blast
  then have "query_clean e" by (simp add: pair_text_def key_clean_query)
  then show ?thesis by (rule query_clean_set)
qed

lemma good_entry_mono: "good_entry A e \<Longrightarrow> A \<subseteq> B \<Longrightarrow> good_entry B e"
  by (auto simp: good_entry_def)

lemma compose_query_good:
  assumes "compose_query t wire = Inr es" and "plain_separators t"
  shows "\<forall>e \<in> set es. good_entry (\<Union> (query_keys ` {p \<in> set (t_parameters t). p_location p = In_query})) e"
proof -
  let ?ps = "filter (\<lambda>p. p_location p = In_query) (t_parameters t)"
  let ?K = "\<Union> (query_keys ` {p \<in> set (t_parameters t). p_location p = In_query})"
  from assms(1) obtain ess where ess: "traverse (query_entries wire) ?ps = Inr ess" and es: "es = concat ess"
    by (auto simp: compose_query_def res_map_Inr_iff)
  have "\<forall>l \<in> set ess. \<forall>e \<in> set l. good_entry ?K e"
  proof (rule traverse_all [OF ess])
    fix p l assume p: "p \<in> set ?ps" and l: "query_entries wire p = Inr l"
    from p assms(2) have "plain_binding p" by (auto simp: plain_separators_def list_all_iff)
    from query_entries_good [OF l this] have "\<forall>e \<in> set l. good_entry (query_keys p) e" .
    moreover have "query_keys p \<subseteq> ?K" using p by auto
    ultimately show "\<forall>e \<in> set l. good_entry ?K e" by (meson good_entry_mono)
  qed
  with es show ?thesis by auto
qed

end
