(* ===== verification/Composer_Headers.thy ===== *)
theory Composer_Headers
  imports Composer_Wire
begin

text \<open>
  The headers of a composed request: no control characters, no header or cookie the template does
  not declare, and the merge of the composed cookies with those an identity carrier brought.
\<close>

section \<open>Safe header text\<close>

definition header_safe :: "string \<Rightarrow> bool" where
  "header_safe s = (\<not> list_ex header_unsafe s)"

lemma header_safe_simps [simp]:
  "header_safe []" "header_safe (c # s) \<longleftrightarrow> \<not> header_unsafe c \<and> header_safe s"
  "header_safe (s @ t) \<longleftrightarrow> header_safe s \<and> header_safe t"
  by (auto simp: header_safe_def)

lemma printable_header_safe: "printable c \<Longrightarrow> \<not> header_unsafe c"
  by (auto simp: printable_def header_unsafe_def)

text \<open>Characters a cookie pair may consist of: nothing that ends a pair or a header line.\<close>

definition cookie_text :: "string \<Rightarrow> bool" where
  "cookie_text s = list_all (\<lambda>c. c \<noteq> CHR '';'' \<and> \<not> header_unsafe c) s"

lemma cookie_text_simps [simp]:
  "cookie_text []" "cookie_text (c # s) \<longleftrightarrow> c \<noteq> CHR '';'' \<and> \<not> header_unsafe c \<and> cookie_text s"
  "cookie_text (s @ t) \<longleftrightarrow> cookie_text s \<and> cookie_text t"
  by (auto simp: cookie_text_def)

lemma cookie_text_safe: "cookie_text s \<Longrightarrow> header_safe s"
  by (induction s) auto

lemma cookie_text_no_semicolon: "cookie_text s \<Longrightarrow> CHR '';'' \<notin> set s"
  by (induction s) auto

lemma encoded_cookie_char: "encoded_char c \<Longrightarrow> c \<noteq> CHR '';'' \<and> \<not> header_unsafe c"
proof -
  assume "encoded_char c"
  from encoded_char_cases [OF this] have "c \<noteq> CHR '';''" "printable c" by auto
  then show ?thesis by (simp add: printable_header_safe)
qed

lemma cookie_text_encode: "cookie_text (percentEncode s)"
  using percentEncode_encoded [of s] encoded_cookie_char by (simp add: cookie_text_def list_all_iff)

lemma cookie_octet_char: "cookie_octet c \<Longrightarrow> c \<noteq> CHR '';'' \<and> \<not> header_unsafe c"
proof -
  assume c: "cookie_octet c"
  have "c \<noteq> CHR '';''"
  proof
    assume "c = CHR '';''"
    with c show False by (simp add: cookie_octet_def)
  qed
  moreover have "33 \<le> (of_char c :: nat)" using c unfolding cookie_octet_def Let_def by linarith
  ultimately show ?thesis by (auto simp: header_unsafe_def)
qed

lemma cookie_text_octets: "isCookieOctets s \<Longrightarrow> cookie_text s"
  using cookie_octet_char by (simp add: isCookieOctets_def cookie_text_def list_all_iff)

lemma cookie_text_join: "cookie_text sep \<Longrightarrow> \<forall>w \<in> set ws. cookie_text w \<Longrightarrow> cookie_text (join_with sep ws)"
  by (induction sep ws rule: join_with.induct) auto

text \<open>Cookie names: no space, no delimiter.\<close>

lemma is_space_code: "is_space c \<Longrightarrow> (of_char c :: nat) \<le> 32 \<or> (of_char c :: nat) = 160"
  unfolding is_space_def by (elim insertE) simp_all

lemma alnum_code: "is_alnum c \<Longrightarrow> 48 \<le> (of_char c :: nat) \<and> (of_char c :: nat) \<le> 122
    \<and> (of_char c :: nat) \<noteq> 59 \<and> (of_char c :: nat) \<noteq> 61"
  unfolding is_alnum_def isAsciiUpper_code isAsciiLower_code isAsciiDigit_code by linarith

lemma cookie_name_char_facts: "cookie_name_char c \<Longrightarrow> c \<noteq> CHR '';'' \<and> c \<noteq> CHR ''='' \<and> \<not> is_space c \<and> printable c"
proof -
  assume "cookie_name_char c"
  then consider "is_alnum c" | "c \<in> set (quote_char # ''!#$%&*+-.^_`|~'')"
    unfolding cookie_name_char_def by blast
  then show ?thesis
  proof cases
    case 1
    note n = alnum_code [OF 1]
    have "\<not> is_space c" using n is_space_code [of c] by linarith
    moreover have "c \<noteq> CHR '';''" "c \<noteq> CHR ''=''" using n by (intro notI; simp)+
    ultimately show ?thesis using n by (simp add: printable_def)
  next
    case 2
    have "list_all (\<lambda>c. c \<noteq> CHR '';'' \<and> c \<noteq> CHR ''='' \<and> \<not> is_space c \<and> printable c)
        (quote_char # ''!#$%&*+-.^_`|~'')" by code_simp
    with 2 show ?thesis unfolding list_all_iff by blast
  qed
qed

lemma cookie_name_facts:
  assumes "is_cookie_name n"
  shows "n \<noteq> []" and "CHR ''='' \<notin> set n" and "\<forall>c \<in> set n. \<not> is_space c" and "cookie_text n"
  using assms cookie_name_char_facts printable_header_safe
  by (auto simp: is_cookie_name_def cookie_text_def list_all_iff)

section \<open>Cookie pairs\<close>

lemma cookieValue_text: "cookieValue p kind ser v = Inr s \<Longrightarrow> cookie_text s"
  by (auto simp: cookieValue_def res_bind_Inr_iff cookie_text_encode cookie_text_octets split: if_splits)

definition good_cookie :: "string \<Rightarrow> string \<Rightarrow> bool" where
  "good_cookie n e = (\<exists>v. e = pair_text n v \<and> cookie_text v)"

lemma plain_cookie_separator:
  "plain_binding p \<Longrightarrow> p_location p = In_cookie \<Longrightarrow> p_shape p = Scalar kind isArray ser \<Longrightarrow>
   cookie_text (or_else (se_separator ser) '','')"
  by (auto simp: plain_binding_def plain_separator_def or_else_def header_unsafe_def)

lemma cookie_entries_good:
  assumes "cookie_entries wire p = Inr es" and "plain_binding p" and "p_location p = In_cookie"
  shows "\<forall>e \<in> set es. good_cookie (p_name p) e"
proof (cases "map_of wire (p_name p)")
  case None
  with assms(1) show ?thesis by (simp add: cookie_entries_def)
next
  case (Some v)
  with assms(1) have nn: "v \<noteq> JNull" by (auto simp: cookie_entries_def)
  show ?thesis
  proof (cases "p_shape p")
    case (Object_shape nota ms)
    with assms(1) Some nn show ?thesis by (simp add: cookie_entries_def)
  next
    case (Content media ms)
    with assms(1) Some nn show ?thesis
      by (auto simp: cookie_entries_def res_map_Inr_iff good_cookie_def cookie_text_encode)
  next
    case (Scalar kind isArray ser)
    show ?thesis
    proof (cases isArray)
      case False
      with assms(1) Some nn Scalar show ?thesis
        by (auto simp: cookie_entries_def res_map_Inr_iff good_cookie_def dest: cookieValue_text)
    next
      case True
      then consider "es = []" | vs items where "traverse (cookieValue p kind ser) vs = Inr items"
          "es = [pair_text (p_name p) (join_with (or_else (se_separator ser) '','') items)]"
        using assms(1) Some nn Scalar by (auto simp: cookie_entries_def res_map_Inr_iff simp del: traverse.simps
          split: option.split_asm list.split_asm)
      then show ?thesis
      proof cases
        case 1
        then show ?thesis by simp
      next
        case 2
        have "\<forall>y \<in> set items. cookie_text y" by (rule traverse_all [OF 2(1)]) (rule cookieValue_text)
        with plain_cookie_separator [OF assms(2,3) Scalar] 2(2) show ?thesis
          by (auto simp: good_cookie_def cookie_text_join)
      qed
    qed
  qed
qed

lemma located_set: "p \<in> set (located l t) \<Longrightarrow> p \<in> set (t_parameters t) \<and> p_location p = l"
  by (auto simp: located_def)

lemma compose_cookies_good:
  assumes "compose_cookies t wire = Inr es" and "plain_separators t"
  shows "\<forall>e \<in> set es. \<exists>p \<in> set (located In_cookie t). good_cookie (p_name p) e"
proof -
  from assms(1) obtain ess where ess: "traverse (cookie_entries wire) (located In_cookie t) = Inr ess"
    and es: "es = concat ess"
    by (auto simp: compose_cookies_def res_map_Inr_iff)
  have "\<forall>l \<in> set ess. \<forall>e \<in> set l. \<exists>p \<in> set (located In_cookie t). good_cookie (p_name p) e"
  proof (rule traverse_all [OF ess])
    fix p l assume p: "p \<in> set (located In_cookie t)" and l: "cookie_entries wire p = Inr l"
    from located_set [OF p] assms(2) have "plain_binding p" by (simp add: plain_separators_def list_all_iff)
    from cookie_entries_good [OF l this] located_set [OF p] p
    show "\<forall>e \<in> set l. \<exists>p \<in> set (located In_cookie t). good_cookie (p_name p) e" by blast
  qed
  with es show ?thesis by auto
qed

section \<open>Reading a cookie header\<close>

lemma split_on_append: "split_on d (a @ d # b) = split_on d a @ split_on d b"
proof (induction a)
  case Nil
  show ?case by simp
next
  case (Cons c a)
  obtain v vs where "split_on d a = v # vs" by (cases "split_on d a") auto
  with Cons.IH show ?case by simp
qed

lemma split_on_prefix: "c \<noteq> d \<Longrightarrow> split_on d (c # s) = (c # hd (split_on d s)) # tl (split_on d s)"
  by (cases "split_on d s") auto

lemma trim_space: "is_space c \<Longrightarrow> trim (c # s) = trim s"
  by (simp add: trim_def)

lemma cookieNames_append:
  "cookieNames (a @ ''; '' @ b) = cookieNames a @ cookieNames b"
proof -
  have sp: "is_space (CHR '' '')" by (simp add: is_space_def)
  have "split_on (CHR '';'') (a @ ''; '' @ b) = split_on (CHR '';'') a @ split_on (CHR '';'') (CHR '' '' # b)"
    using split_on_append [of "CHR '';''" a "CHR '' '' # b"] by simp
  moreover have "map trim (split_on (CHR '';'') (CHR '' '' # b)) = map trim (split_on (CHR '';'') b)"
  proof -
    obtain w ws where "split_on (CHR '';'') b = w # ws" by (cases "split_on (CHR '';'') b") auto
    then show ?thesis using split_on_prefix [of "CHR '' ''" "CHR '';''" b] trim_space [OF sp] by simp
  qed
  ultimately show ?thesis by (simp add: cookieNames_def)
qed

lemma trim_pair:
  assumes "n \<noteq> []" and "\<forall>c \<in> set n. \<not> is_space c"
  shows "\<exists>u. trim (n @ CHR ''='' # v) = n @ CHR ''='' # u"
proof -
  obtain c cs where n: "n = c # cs" using assms(1) by (cases n) auto
  have "dropWhile is_space (n @ CHR ''='' # v) = n @ CHR ''='' # v" using assms(2) n by simp
  moreover have "dropWhile is_space (rev (n @ CHR ''='' # v)) = dropWhile is_space (rev v @ CHR ''='' # rev n)"
    by simp
  moreover have "dropWhile is_space (w @ CHR ''='' # rev n) = dropWhile is_space w @ CHR ''='' # rev n" for w
    by (induction w) (simp_all add: is_space_def)
  ultimately show ?thesis by (intro exI [of _ "rev (dropWhile is_space (rev v))"]) (simp add: trim_def)
qed

lemma trim_name: "\<forall>c \<in> set n. \<not> is_space c \<Longrightarrow> trim n = n"
proof -
  assume n: "\<forall>c \<in> set n. \<not> is_space c"
  have "dropWhile is_space w = w" if "\<forall>c \<in> set w. \<not> is_space c" for w
    using that by (cases w) simp_all
  from this [OF n] this [of "rev n"] n show ?thesis by (simp add: trim_def)
qed

lemma good_cookie_name:
  assumes "good_cookie n e" and "is_cookie_name n"
  shows "cookieNames e = [n]" and "cookie_text e"
proof -
  note f = cookie_name_facts [OF assms(2)]
  from assms(1) obtain v where e: "e = n @ CHR ''='' # v" and v: "cookie_text v"
    by (auto simp: good_cookie_def pair_text_def)
  show ct: "cookie_text e" using e v f(4) by (simp add: header_unsafe_def)
  then have "split_on (CHR '';'') e = [e]" by (intro split_on_clean cookie_text_no_semicolon)
  moreover obtain u where u: "trim e = n @ CHR ''='' # u" using trim_pair [OF f(1,3)] e by blast
  moreover have "split_on (CHR ''='') (n @ CHR ''='' # u) = n # split_on (CHR ''='') u"
    by (rule split_on_append_sep [OF f(2)])
  ultimately show "cookieNames e = [n]"
    by (simp add: cookieNames_def cookie_pair_name_def trim_name [OF f(3)])
qed

lemma cookieNames_join:
  "es \<noteq> [] \<Longrightarrow> cookieNames (join_with ''; '' es) = concat (map cookieNames es)"
proof (induction es)
  case Nil
  then show ?case by simp
next
  case (Cons e es)
  then show ?case by (cases es) (simp_all add: cookieNames_append [simplified])
qed

section \<open>Headers of a created template\<close>

lemma created_binding:
  assumes "createRequestTemplate input = Inr t" and "p \<in> set (t_parameters t)"
  shows "check_binding p = Inr ()"
  using createRequestTemplate_Inr(3,10) [OF assms(1)] assms(2) by simp

lemma cookie_parameter_name:
  assumes "check_binding p = Inr ()" and "p_location p = In_cookie"
  shows "is_cookie_name (p_name p)"
  using assms
  by (auto simp: check_binding_def assertScalarBinding_def assertContentBinding_def assertObjectBinding_def
      res_bind_Inr_iff split: shape.splits if_splits)

lemma header_parameter_name:
  assumes "check_binding p = Inr ()" and "p_location p = In_header"
  shows "to_lower (p_name p) \<notin> set reservedHeaderNames"
  using assms
  by (auto simp: check_binding_def assertScalarBinding_def assertContentBinding_def assertObjectBinding_def
      res_bind_Inr_iff split: shape.splits if_splits)

lemma obj_put_set: "(n, v) \<in> set (obj_put k x m) \<Longrightarrow> (n = k \<and> v = x) \<or> (n, v) \<in> set m"
proof -
  have "(n, v) \<in> set (AList.update k x m) \<Longrightarrow> (n = k \<and> v = x) \<or> (n, v) \<in> set m"
    by (induction m) (auto split: if_splits)
  then show "(n, v) \<in> set (obj_put k x m) \<Longrightarrow> (n = k \<and> v = x) \<or> (n, v) \<in> set m"
    by (auto simp: obj_put_def split: if_splits)
qed

definition headers_ok :: "request_template \<Rightarrow> (string \<times> string) list \<Rightarrow> bool" where
  "headers_ok t hs = (\<forall>(n, v) \<in> set hs. header_safe v \<and> n \<in> p_name ` set (located In_header t))"

lemma compose_headers_ok:
  assumes "compose_headers t wire = Inr hs"
  shows "headers_ok t hs"
  using assms unfolding compose_headers_def
proof (rule fold_res_invariant)
  show "headers_ok t []" by (simp add: headers_ok_def)
next
  fix hs p hs'
  assume ok: "headers_ok t hs" and p: "p \<in> set (located In_header t)" and step: "header_step wire hs p = Inr hs'"
  from step consider "hs' = hs" | s where "hs' = obj_put (p_name p) s hs" and "header_safe s"
    by (auto simp: header_step_def res_bind_Inr_iff header_safe_def split: option.splits if_splits)
  then show "headers_ok t hs'"
  proof cases
    case 1
    with ok show ?thesis by simp
  next
    case 2
    show ?thesis unfolding headers_ok_def
    proof (clarify, goal_cases)
      case (1 n v)
      with 2(1) have "(n = p_name p \<and> v = s) \<or> (n, v) \<in> set hs" by (auto dest: obj_put_set)
      then show ?case
      proof
        assume "n = p_name p \<and> v = s"
        with 2(2) p show ?thesis by simp
      next
        assume "(n, v) \<in> set hs"
        with ok show ?thesis unfolding headers_ok_def by blast
      qed
    qed
  qed
qed

lemma compose_wire_parts:
  assumes "compose_wire t wire d limits = Inr r"
  obtains path query qt headers cookies where "compose_path t wire = Inr path"
    and "compose_query t wire = Inr query"
    and "compose_querystring t wire (join_with ''&'' query) = Inr qt"
    and "compose_headers t wire = Inr headers" and "compose_cookies t wire = Inr cookies"
    and "cr_pathAndQuery r = (if qt \<noteq> [] then path @ ''?'' @ qt else path)"
    and "cr_headers r = (if cookies \<noteq> [] then obj_put ''cookie'' (join_with ''; '' cookies) headers else headers)"
proof -
  from assms obtain path query qt headers cookies bv body where
    1: "compose_path t wire = Inr path" and 2: "compose_query t wire = Inr query"
    and 3: "compose_querystring t wire (join_with ''&'' query) = Inr qt"
    and 4: "compose_headers t wire = Inr headers" and 5: "compose_cookies t wire = Inr cookies"
    and 6: "compose_body_value t wire d = Inr bv" and 7: "encodeBody t bv limits = Inr body"
    and r: "r = \<lparr>cr_pathAndQuery = (if qt \<noteq> [] then path @ ''?'' @ qt else path),
          cr_headers = (if cookies \<noteq> [] then obj_put ''cookie'' (join_with ''; '' cookies) headers
                        else headers),
          cr_body = body\<rparr>"
    unfolding compose_wire_def res_bind_Inr_iff res_map_Inr_iff by blast
  show ?thesis by (rule that [OF 1 2 3 4 5]) (simp_all add: r)
qed

lemma join_header_safe: "\<forall>w \<in> set ws. header_safe w \<Longrightarrow> header_safe sep \<Longrightarrow> header_safe (join_with sep ws)"
  by (induction sep ws rule: join_with.induct) auto

end
