(* ===== verification/Composer_Args.thy ===== *)
theory Composer_Args
  imports Request_Composer Template_Facts
begin

text \<open>
  From agent names to wire values: which arguments are accepted, what a refusal says, and that the
  wire map the composer reads holds exactly the agent's value for every visible parameter and
  exactly the resolved fill for every hidden one.
\<close>

section \<open>Argument maps\<close>

lemma fold_update_cases:
  "map_of (fold (\<lambda>(k, v) m. if P v then m else AList.update (h k) v m) es m0) w = Some u \<Longrightarrow>
   map_of m0 w = Some u \<or> (\<exists>k. (k, u) \<in> set es \<and> \<not> P u \<and> h k = w)"
proof (induction es arbitrary: m0)
  case Nil
  then show ?case by simp
next
  case (Cons e es)
  obtain k v where e: "e = (k, v)" by (cases e)
  have "map_of (if P v then m0 else AList.update (h k) v m0) w = Some u
      \<or> (\<exists>k. (k, u) \<in> set es \<and> \<not> P u \<and> h k = w)"
    using Cons.prems by (intro Cons.IH) (simp add: e)
  then show ?case by (auto simp: e split: if_splits)
qed

lemma distinct_fold_update:
  "distinct (keys_of m0) \<Longrightarrow>
   distinct (keys_of (fold (\<lambda>(k, v) m. if P v then m else AList.update (h k) v m) es m0))"
  by (induction es arbitrary: m0) (auto split: prod.splits)

lemma fold_update_absent:
  "(\<forall>k \<in> set (keys_of es). h k \<noteq> w) \<Longrightarrow>
   map_of (fold (\<lambda>(k, v) m. AList.update (h k) v m) es m0) w = map_of m0 w"
  by (induction es arbitrary: m0) (auto simp: split: prod.splits)

lemma fold_update_unique:
  "distinct (keys_of es) \<Longrightarrow> (\<forall>k \<in> set (keys_of es). h k = w \<longrightarrow> k = k0) \<Longrightarrow> h k0 = w \<Longrightarrow>
   map_of (fold (\<lambda>(k, v) m. AList.update (h k) v m) es m0) w
     = (case map_of es k0 of Some v \<Rightarrow> Some v | None \<Rightarrow> map_of m0 w)"
proof (induction es arbitrary: m0)
  case Nil
  then show ?case by simp
next
  case (Cons e es)
  obtain k v where e: "e = (k, v)" by (cases e)
  from Cons.prems have d: "distinct (keys_of es)" "k \<notin> set (keys_of es)"
    and u: "\<forall>k \<in> set (keys_of es). h k = w \<longrightarrow> k = k0" by (auto simp: e)
  have IH: "map_of (fold (\<lambda>(k, v) m. AList.update (h k) v m) es (AList.update (h k) v m0)) w
     = (case map_of es k0 of Some v \<Rightarrow> Some v | None \<Rightarrow> map_of (AList.update (h k) v m0) w)"
    by (rule Cons.IH [OF d(1) u Cons.prems(3)])
  show ?case
  proof (cases "k = k0")
    case True
    then have "map_of es k0 = None" using d(2) by (simp add: set_keys_of domIff)
    with IH True Cons.prems(3) show ?thesis by (simp add: e)
  next
    case False
    then have "h k \<noteq> w" using Cons.prems(2) by (auto simp: e)
    with IH False show ?thesis by (simp add: e split: option.splits)
  qed
qed

lemma toArgumentMap_distinct: "toArgumentMap args = Inr entries \<Longrightarrow> distinct (keys_of entries)"
  using distinct_fold_update [of "[]" "\<lambda>v. v = JUndef" "\<lambda>k. k"]
  by (auto simp: toArgumentMap_def split: js.splits)

lemma rejectUnknown_Inr_iff:
  "rejectUnknown t entries = Inr () \<longleftrightarrow> (\<forall>k \<in> set (keys_of entries). known_argument t k)"
  by (auto simp: rejectUnknown_def Let_def throw_if_Inr_iff filter_empty_conv)

section \<open>Curation that hides and renames separately\<close>

text \<open>
  No slot is both hidden and renamed, and body aliases and fills concern body fields. Every template
  built from an endpoint whose curation does not combine \<open>as\<close> with \<open>hidden\<close> is of this kind.
\<close>

definition plain_curation :: "request_template \<Rightarrow> bool" where
  "plain_curation t =
     (list_all (\<lambda>p. p_fill p \<noteq> None \<longrightarrow> p_argument p = None) (t_parameters t)
      \<and> list_all (\<lambda>a. snd a \<in> set (t_bodyProperties t) \<and> snd a \<notin> set (map fst (t_fills t))) (t_aliases t)
      \<and> list_all (\<lambda>f. fst f \<in> set (t_bodyProperties t)) (t_fills t)
      \<and> distinct (map fst (t_fills t)))"

definition names_unique :: "request_template \<Rightarrow> bool" where
  "names_unique t = (distinct (map p_name (t_parameters t) @ t_bodyProperties t)
     \<and> distinct (visible (t_parameters t) @ map fst (t_aliases t)))"

lemma created_names_unique:
  assumes "createRequestTemplate input = Inr t"
  shows "names_unique t"
proof -
  have "t = build_template input (body_names input)" by (rule createRequestTemplate_Inr(10) [OF assms])
  moreover note createRequestTemplate_Inr(1,2) [OF assms]
  ultimately show ?thesis by (cases "i_bodyRoot input") (auto simp: names_unique_def)
qed

lemma unique_parameter:
  "names_unique t \<Longrightarrow> p \<in> set (t_parameters t) \<Longrightarrow> q \<in> set (t_parameters t) \<Longrightarrow> p_name p = p_name q \<Longrightarrow> p = q"
  by (auto simp: names_unique_def distinct_map dest: inj_onD)

lemma unique_visible:
  "names_unique t \<Longrightarrow> p \<in> set (t_parameters t) \<Longrightarrow> q \<in> set (t_parameters t) \<Longrightarrow>
   p_fill p = None \<Longrightarrow> p_fill q = None \<Longrightarrow> agent_name p = agent_name q \<Longrightarrow> p = q"
  by (auto simp: names_unique_def visible_def distinct_map dest: inj_onD)

lemma parameter_not_field:
  "names_unique t \<Longrightarrow> p \<in> set (t_parameters t) \<Longrightarrow> p_name p \<notin> set (t_bodyProperties t)"
  by (auto simp: names_unique_def)

lemma visible_not_alias:
  "names_unique t \<Longrightarrow> p \<in> set (t_parameters t) \<Longrightarrow> p_fill p = None \<Longrightarrow> agent_name p \<notin> fst ` set (t_aliases t)"
  by (force simp: names_unique_def visible_def)

lemma plainD:
  assumes "plain_curation t"
  shows "p \<in> set (t_parameters t) \<Longrightarrow> p_fill p \<noteq> None \<Longrightarrow> p_argument p = None"
    and "(a, w) \<in> set (t_aliases t) \<Longrightarrow> w \<in> set (t_bodyProperties t) \<and> w \<notin> set (map fst (t_fills t))"
    and "(f, x) \<in> set (t_fills t) \<Longrightarrow> f \<in> set (t_bodyProperties t)"
    and "distinct (map fst (t_fills t))"
proof -
  assume "p \<in> set (t_parameters t)" and "p_fill p \<noteq> None"
  with assms show "p_argument p = None" unfolding plain_curation_def list_all_iff by blast
next
  assume "(a, w) \<in> set (t_aliases t)"
  with assms show "w \<in> set (t_bodyProperties t) \<and> w \<notin> set (map fst (t_fills t))"
    unfolding plain_curation_def list_all_iff by (metis snd_conv)
next
  assume "(f, x) \<in> set (t_fills t)"
  with assms show "f \<in> set (t_bodyProperties t)" unfolding plain_curation_def list_all_iff by (metis fst_conv)
next
  from assms show "distinct (map fst (t_fills t))" unfolding plain_curation_def by blast
qed

section \<open>From agent names to wire names\<close>

definition renames :: "parameter list \<Rightarrow> (string \<times> string) list" where
  "renames ps = fold (\<lambda>p m. case p_argument p of Some a \<Rightarrow> AList.update a (p_name p) m | None \<Rightarrow> m) ps []"

lemma fold_renames_Some:
  "map_of (fold (\<lambda>p m. case p_argument p of Some a \<Rightarrow> AList.update a (p_name p) m | None \<Rightarrow> m) ps m0) k = Some w
   \<Longrightarrow> map_of m0 k = Some w \<or> (\<exists>p \<in> set ps. p_argument p = Some k \<and> p_name p = w)"
proof (induction ps arbitrary: m0)
  case Nil
  then show ?case by simp
next
  case (Cons p ps)
  let ?m = "case p_argument p of Some a \<Rightarrow> AList.update a (p_name p) m0 | None \<Rightarrow> m0"
  from Cons.prems have "map_of ?m k = Some w \<or> (\<exists>p \<in> set ps. p_argument p = Some k \<and> p_name p = w)"
    by (intro Cons.IH) simp
  then show ?case by (auto split: option.splits if_splits)
qed

lemma fold_renames_in:
  "p \<in> set ps \<Longrightarrow> p_argument p = Some k \<Longrightarrow>
   map_of (fold (\<lambda>p m. case p_argument p of Some a \<Rightarrow> AList.update a (p_name p) m | None \<Rightarrow> m) ps m0) k \<noteq> None"
proof (induction ps arbitrary: m0)
  case Nil
  then show ?case by simp
next
  case (Cons q ps)
  have keep: "map_of (fold (\<lambda>p m. case p_argument p of Some a \<Rightarrow> AList.update a (p_name p) m | None \<Rightarrow> m) qs m) k \<noteq> None"
    if "map_of m k \<noteq> None" for qs m
    using that by (induction qs arbitrary: m) (auto split: option.splits)
  show ?case
  proof (cases "p = q")
    case True
    with Cons.prems keep [of "AList.update k (p_name p) m0" ps] show ?thesis by simp
  next
    case False
    with Cons show ?thesis by simp
  qed
qed

lemma fold_aliases:
  "map_of (fold (\<lambda>(a, w) m. AList.update a w m) as m0) k =
     (if k \<in> fst ` set as then map_of (rev as) k else map_of m0 k)"
proof (induction as arbitrary: m0)
  case Nil
  then show ?case by simp
next
  case (Cons e es)
  obtain a w where e: "e = (a, w)" by (cases e)
  have r: "map_of (rev es @ [(a, w)]) k = (case map_of (rev es) k of None \<Rightarrow> map_of [(a, w)] k | s \<Rightarrow> s)"
    by (simp add: map_add_def split: option.splits)
  have d: "map_of (rev es) k \<noteq> None \<longleftrightarrow> k \<in> fst ` set es"
    by (simp add: map_of_eq_None_iff)
  show ?case
    using Cons.IH [of "AList.update a w m0"] d by (auto simp: e map_add_def split: option.splits)
qed

lemma agent_to_wire_Some:
  assumes "map_of (agent_to_wire t) k = Some w"
  shows "(k, w) \<in> set (t_aliases t) \<or> (\<exists>p \<in> set (t_parameters t). p_argument p = Some k \<and> p_name p = w)"
proof (cases "k \<in> fst ` set (t_aliases t)")
  case True
  with assms have "map_of (rev (t_aliases t)) k = Some w" by (simp add: agent_to_wire_def fold_aliases)
  then show ?thesis by (auto dest: map_of_SomeD)
next
  case False
  with assms show ?thesis
    using fold_renames_Some [of "t_parameters t" "[]" k w] by (simp add: agent_to_wire_def fold_aliases)
qed

lemma agent_to_wire_renamed:
  assumes "names_unique t" and "plain_curation t" and "p \<in> set (t_parameters t)"
    and "p_fill p = None" and "p_argument p = Some a"
  shows "map_of (agent_to_wire t) a = Some (p_name p)"
proof -
  have "agent_name p = a" using assms(5) by (simp add: agent_name_def)
  with visible_not_alias [OF assms(1,3,4)] have na: "a \<notin> fst ` set (t_aliases t)" by simp
  have "map_of (agent_to_wire t) a \<noteq> None"
    using fold_renames_in [OF assms(3,5), of "[]"] na by (simp add: agent_to_wire_def fold_aliases)
  then obtain w where w: "map_of (agent_to_wire t) a = Some w" by blast
  have "(a, w) \<notin> set (t_aliases t)" using na by force
  with agent_to_wire_Some [OF w] obtain q where q: "q \<in> set (t_parameters t)"
    "p_argument q = Some a" "p_name q = w" by blast
  then have "p_fill q = None" using plainD(1) [OF assms(2), of q] by (cases "p_fill q") auto
  then have "q = p" using unique_visible [OF assms(1) q(1) assms(3)] assms(4,5) q(2)
    by (simp add: agent_name_def)
  with w q show ?thesis by simp
qed

lemma agent_to_wire_plain:
  assumes "names_unique t" and "plain_curation t" and "p \<in> set (t_parameters t)"
    and "p_fill p = None" and "p_argument p = None"
  shows "map_of (agent_to_wire t) (p_name p) = None"
proof (rule ccontr)
  assume "map_of (agent_to_wire t) (p_name p) \<noteq> None"
  then obtain w where w: "map_of (agent_to_wire t) (p_name p) = Some w" by blast
  have an: "agent_name p = p_name p" using assms(5) by (simp add: agent_name_def)
  have "(p_name p, w) \<notin> set (t_aliases t)" using visible_not_alias [OF assms(1,3,4)] an by force
  with agent_to_wire_Some [OF w]
  obtain q where q: "q \<in> set (t_parameters t)" "p_argument q = Some (p_name p)" by blast
  then have "p_fill q = None" using plainD(1) [OF assms(2), of q] by (cases "p_fill q") auto
  then have "q = p" using unique_visible [OF assms(1) q(1) assms(3)] assms(4) q(2) an
    by (simp add: agent_name_def)
  with q assms(5) show False by simp
qed

lemma denied_iff:
  "n \<in> set (deniedArgumentNames t) \<longleftrightarrow>
     (\<exists>p \<in> set (t_parameters t). (p_fill p \<noteq> None \<or> p_argument p \<noteq> None) \<and> p_name p = n)
     \<or> n \<in> snd ` set (t_aliases t) \<or> n \<in> fst ` set (t_fills t)
     \<or> t_bodyRoot t = Some n \<and> t_rootFill t \<noteq> None"
  by (auto simp: deniedArgumentNames_def split: option.splits)

text \<open>No accepted agent key is written to a hidden slot.\<close>

lemma wire_name_hidden:
  assumes "names_unique t" and "plain_curation t" and "known_argument t k"
    and "p \<in> set (t_parameters t)" and "p_fill p \<noteq> None"
  shows "wire_name t k \<noteq> p_name p"
proof
  assume eq: "wire_name t k = p_name p"
  show False
  proof (cases "map_of (agent_to_wire t) k")
    case None
    with eq have "k = p_name p" by (simp add: wire_name_def)
    moreover have "p_name p \<in> set (deniedArgumentNames t)"
      unfolding denied_iff using assms(4,5) by blast
    ultimately show False using assms(3) by (simp add: known_argument_def)
  next
    case (Some w)
    with eq have w: "w = p_name p" by (simp add: wire_name_def)
    from agent_to_wire_Some [OF Some] show False
    proof
      assume "(k, w) \<in> set (t_aliases t)"
      then show False using plainD(2) [OF assms(2)] parameter_not_field [OF assms(1,4)] w by blast
    next
      assume "\<exists>q \<in> set (t_parameters t). p_argument q = Some k \<and> p_name q = w"
      then obtain q where q: "q \<in> set (t_parameters t)" "p_argument q = Some k" "p_name q = w" by blast
      then have "q = p" using unique_parameter [OF assms(1) q(1) assms(4)] w by simp
      then show False using plainD(1) [OF assms(2,4,5)] q by simp
    qed
  qed
qed

lemma wire_name_filled_field:
  assumes "names_unique t" and "plain_curation t" and "known_argument t k"
    and "(f, x) \<in> set (t_fills t)"
  shows "wire_name t k \<noteq> f"
proof
  assume eq: "wire_name t k = f"
  show False
  proof (cases "map_of (agent_to_wire t) k")
    case None
    with eq have "k = f" by (simp add: wire_name_def)
    have "f \<in> fst ` set (t_fills t)" using assms(4) by force
    then have "f \<in> set (deniedArgumentNames t)" unfolding denied_iff by blast
    with assms(3) \<open>k = f\<close> show False by (simp add: known_argument_def)
  next
    case (Some w)
    with eq have w: "w = f" by (simp add: wire_name_def)
    from agent_to_wire_Some [OF Some] show False
    proof
      assume "(k, w) \<in> set (t_aliases t)"
      then have "f \<notin> set (map fst (t_fills t))" using plainD(2) [OF assms(2)] w by blast
      moreover have "f \<in> set (map fst (t_fills t))" using assms(4) by force
      ultimately show False by blast
    next
      assume "\<exists>q \<in> set (t_parameters t). p_argument q = Some k \<and> p_name q = w"
      then show False using parameter_not_field [OF assms(1)] plainD(3) [OF assms(2,4)] w by blast
    qed
  qed
qed

lemma wire_name_visible:
  assumes "names_unique t" and "plain_curation t" and "p \<in> set (t_parameters t)" and "p_fill p = None"
  shows "wire_name t (agent_name p) = p_name p"
    and "known_argument t k \<Longrightarrow> wire_name t k = p_name p \<Longrightarrow> k = agent_name p"
proof -
  show "wire_name t (agent_name p) = p_name p"
    using agent_to_wire_renamed [OF assms] agent_to_wire_plain [OF assms]
    by (cases "p_argument p") (simp_all add: wire_name_def agent_name_def)
next
  assume known: "known_argument t k" and eq: "wire_name t k = p_name p"
  show "k = agent_name p"
  proof (cases "map_of (agent_to_wire t) k")
    case None
    with eq have k: "k = p_name p" by (simp add: wire_name_def)
    have "p_argument p = None"
    proof (rule ccontr)
      assume "p_argument p \<noteq> None"
      then have "p_name p \<in> set (deniedArgumentNames t)" unfolding denied_iff using assms(3) by blast
      with k known show False by (simp add: known_argument_def)
    qed
    with k show ?thesis by (simp add: agent_name_def)
  next
    case (Some w)
    with eq have w: "w = p_name p" by (simp add: wire_name_def)
    from agent_to_wire_Some [OF Some] show ?thesis
    proof
      assume "(k, w) \<in> set (t_aliases t)"
      then show ?thesis using plainD(2) [OF assms(2)] parameter_not_field [OF assms(1,3)] w by blast
    next
      assume "\<exists>q \<in> set (t_parameters t). p_argument q = Some k \<and> p_name q = w"
      then obtain q where q: "q \<in> set (t_parameters t)" "p_argument q = Some k" "p_name q = w" by blast
      then have "q = p" using unique_parameter [OF assms(1) q(1) assms(3)] w by simp
      with q show ?thesis by (simp add: agent_name_def)
    qed
  qed
qed

end
