(* ===== verification/Composer_Values.thy ===== *)
theory Composer_Values
  imports Composer_Args
begin

text \<open>
  The fills of hidden slots and the resulting contract of the argument stage of \<open>compose\<close>.
\<close>

section \<open>Fills\<close>

definition fill_required :: "request_template \<Rightarrow> parameter \<Rightarrow> bool" where
  "fill_required t p = (p_location p = In_path \<or> p_name p \<in> set (t_requiredFills t))"

definition hidden_slot :: "parameter \<Rightarrow> bool" where
  "hidden_slot p = (p_fill p \<noteq> None \<and> \<not> is_object_parameter p)"

lemma fill_parameter_other:
  "fill_parameter t d w p = Inr w' \<Longrightarrow> n \<noteq> p_name p \<or> \<not> hidden_slot p \<Longrightarrow> map_of w' n = map_of w n"
  by (auto simp: fill_parameter_def hidden_slot_def is_object_parameter_def Let_def res_iff
      split: option.splits shape.splits)

lemma update_same: "AList.update n v w = w \<Longrightarrow> map_of w n = Some v"
  by (metis fun_upd_same map_of_update)

lemma fill_parameter_own:
  assumes "fill_parameter t d w p = Inr w'" and "hidden_slot p" and "p_fill p = Some x"
    and "map_of w (p_name p) = None"
  shows "resolveFill x (p_name p) (fill_required t p) d False = Inr (map_of w' (p_name p))"
  using assms
  by (auto simp: fill_parameter_def hidden_slot_def is_object_parameter_def fill_required_def Let_def res_iff
      split: option.splits shape.splits)
    (metis not_None_eq update_same)+

lemma fold_fill_parameters:
  assumes "fold_res (fill_parameter t d) w ps = Inr w'" and "distinct (map p_name ps)"
  shows "(\<forall>n. (\<forall>p \<in> set ps. hidden_slot p \<longrightarrow> p_name p \<noteq> n) \<longrightarrow> map_of w' n = map_of w n)
    \<and> (\<forall>p \<in> set ps. \<forall>x. hidden_slot p \<longrightarrow> p_fill p = Some x \<longrightarrow> map_of w (p_name p) = None \<longrightarrow>
        resolveFill x (p_name p) (fill_required t p) d False = Inr (map_of w' (p_name p)))"
  using assms
proof (induction ps arbitrary: w)
  case Nil
  then show ?case by simp
next
  case (Cons p ps)
  from Cons.prems(1) obtain w1 where w1: "fill_parameter t d w p = Inr w1"
    and r: "fold_res (fill_parameter t d) w1 ps = Inr w'" by (auto simp: res_iff)
  from Cons.prems(2) have dp: "distinct (map p_name ps)" and np: "p_name p \<notin> p_name ` set ps" by auto
  note IH = Cons.IH [OF r dp]
  have other: "map_of w' n = map_of w1 n" if "\<forall>q \<in> set ps. hidden_slot q \<longrightarrow> p_name q \<noteq> n" for n
    using IH that by blast
  have 1: "map_of w' n = map_of w n" if "\<forall>q \<in> set (p # ps). hidden_slot q \<longrightarrow> p_name q \<noteq> n" for n
    using other [of n] fill_parameter_other [OF w1, of n] that by auto
  have own: "map_of w' (p_name p) = map_of w1 (p_name p)"
    using np by (intro other) (auto simp: image_iff)
  have 2: "resolveFill x (p_name q) (fill_required t q) d False = Inr (map_of w' (p_name q))"
    if q: "q \<in> set (p # ps)" "hidden_slot q" "p_fill q = Some x" "map_of w (p_name q) = None" for q x
  proof (cases "q = p")
    case True
    with fill_parameter_own [OF w1] q own show ?thesis by simp
  next
    case False
    with q have qs: "q \<in> set ps" by simp
    then have "p_name q \<noteq> p_name p" using np by (auto simp: image_iff)
    then have "map_of w1 (p_name q) = None" using fill_parameter_other [OF w1] q(4) by simp
    with IH qs q show ?thesis by blast
  qed
  from 1 2 show ?case by blast
qed

lemma fold_fill_body:
  assumes "fold_res (fill_body t d) w fs = Inr w'" and "distinct (map fst fs)"
  shows "(\<forall>n. n \<notin> fst ` set fs \<longrightarrow> map_of w' n = map_of w n)
    \<and> (\<forall>f x. (f, x) \<in> set fs \<longrightarrow> map_of w f = None \<longrightarrow>
        resolveFill x f (f \<in> set (t_requiredFills t)) d True = Inr (map_of w' f))"
  using assms
proof (induction fs arbitrary: w)
  case Nil
  then show ?case by simp
next
  case (Cons e fs)
  obtain g y where e: "e = (g, y)" by (cases e)
  from Cons.prems(1) obtain w1 where w1: "fill_body t d w e = Inr w1"
    and r: "fold_res (fill_body t d) w1 fs = Inr w'" by (auto simp: res_iff)
  from Cons.prems(2) have df: "distinct (map fst fs)" and nf: "g \<notin> fst ` set fs" by (auto simp: e)
  note IH = Cons.IH [OF r df]
  from w1 obtain found where found: "resolveFill y g (g \<in> set (t_requiredFills t)) d True = Inr found"
    and w1': "w1 = (case found of None \<Rightarrow> w | Some v \<Rightarrow> AList.update g v w)"
    unfolding fill_body_def res_map_Inr_iff e fst_conv snd_conv by auto
  have keep: "map_of w1 n = map_of w n" if "n \<noteq> g" for n
    using that by (auto simp: w1' split: option.splits)
  have own: "map_of w g = None \<Longrightarrow> map_of w1 g = found"
    by (auto simp: w1' split: option.splits)
  have 1: "map_of w' n = map_of w n" if "n \<notin> fst ` set (e # fs)" for n
    using IH keep that by (simp add: e)
  have 2: "resolveFill x f (f \<in> set (t_requiredFills t)) d True = Inr (map_of w' f)"
    if q: "(f, x) \<in> set (e # fs)" "map_of w f = None" for f x
  proof (cases "(f, x) \<in> set fs")
    case True
    with nf have "f \<noteq> g" by force
    with IH True keep q(2) show ?thesis by simp
  next
    case False
    with q have "f = g" "x = y" by (simp_all add: e)
    with found own q(2) IH nf show ?thesis by simp
  qed
  from 1 2 show ?case by blast
qed

section \<open>The wire map\<close>

lemma wire_values_Inr:
  assumes "wire_values t args d = Inr wire"
  obtains entries w where "toArgumentMap args = Inr entries" and "distinct (keys_of entries)"
    and "\<forall>k \<in> set (keys_of entries). known_argument t k"
    and "fold_res (fill_parameter t d) (translate t entries) (t_parameters t) = Inr w"
    and "fold_res (fill_body t d) w (t_fills t) = Inr wire"
proof -
  from assms obtain entries w where e: "toArgumentMap args = Inr entries"
    and k: "rejectUnknown t entries = Inr ()"
    and w: "fold_res (fill_parameter t d) (translate t entries) (t_parameters t) = Inr w"
    and f: "fold_res (fill_body t d) w (t_fills t) = Inr wire"
    by (auto simp: wire_values_def applyFills_def res_bind_Inr_iff)
  show ?thesis
    by (rule that [OF e toArgumentMap_distinct [OF e] _ w f]) (use k in \<open>simp add: rejectUnknown_Inr_iff\<close>)
qed

lemma wire_values_visible:
  assumes "names_unique t" and "plain_curation t" and "wire_values t args d = Inr wire"
    and "toArgumentMap args = Inr entries" and "p \<in> set (t_parameters t)" and "p_fill p = None"
  shows "map_of wire (p_name p) = map_of entries (agent_name p)"
proof -
  from wire_values_Inr [OF assms(3)] assms(4) obtain w where
    dk: "distinct (keys_of entries)" and known: "\<forall>k \<in> set (keys_of entries). known_argument t k"
    and w: "fold_res (fill_parameter t d) (translate t entries) (t_parameters t) = Inr w"
    and f: "fold_res (fill_body t d) w (t_fills t) = Inr wire" by force
  have dp: "distinct (map p_name (t_parameters t))" using assms(1) by (simp add: names_unique_def)
  have "p_name p \<notin> fst ` set (t_fills t)"
    using parameter_not_field [OF assms(1,5)] plainD(3) [OF assms(2)] by force
  then have "map_of wire (p_name p) = map_of w (p_name p)"
    using fold_fill_body [OF f plainD(4) [OF assms(2)]] by blast
  also have "\<dots> = map_of (translate t entries) (p_name p)"
  proof -
    have "\<forall>q \<in> set (t_parameters t). hidden_slot q \<longrightarrow> p_name q \<noteq> p_name p"
      using unique_parameter [OF assms(1) _ assms(5)] assms(6) unfolding hidden_slot_def by metis
    then show ?thesis using fold_fill_parameters [OF w dp] by blast
  qed
  also have "\<dots> = (case map_of entries (agent_name p) of Some v \<Rightarrow> Some v | None \<Rightarrow> map_of [] (p_name p))"
    unfolding translate_def
    by (rule fold_update_unique [OF dk])
      (use known wire_name_visible [OF assms(1,2,5,6)] in blast)+
  also have "\<dots> = map_of entries (agent_name p)" by (simp split: option.splits)
  finally show ?thesis .
qed

lemma wire_values_hidden:
  assumes "names_unique t" and "plain_curation t" and "wire_values t args d = Inr wire"
    and "p \<in> set (t_parameters t)" and "hidden_slot p" and "p_fill p = Some x"
  shows "resolveFill x (p_name p) (fill_required t p) d False = Inr (map_of wire (p_name p))"
proof -
  from wire_values_Inr [OF assms(3)] obtain entries w where
    known: "\<forall>k \<in> set (keys_of entries). known_argument t k"
    and w: "fold_res (fill_parameter t d) (translate t entries) (t_parameters t) = Inr w"
    and f: "fold_res (fill_body t d) w (t_fills t) = Inr wire" by metis
  have dp: "distinct (map p_name (t_parameters t))" using assms(1) by (simp add: names_unique_def)
  have "map_of (translate t entries) (p_name p) = map_of [] (p_name p)"
    unfolding translate_def
    using known wire_name_hidden [OF assms(1,2) _ assms(4)] assms(6) by (intro fold_update_absent) auto
  then have "map_of (translate t entries) (p_name p) = None" by simp
  then have r: "resolveFill x (p_name p) (fill_required t p) d False = Inr (map_of w (p_name p))"
    using fold_fill_parameters [OF w dp] assms(4-6) by blast
  have "p_name p \<notin> fst ` set (t_fills t)"
    using parameter_not_field [OF assms(1,4)] plainD(3) [OF assms(2)] by force
  then have "map_of wire (p_name p) = map_of w (p_name p)"
    using fold_fill_body [OF f plainD(4) [OF assms(2)]] by blast
  with r show ?thesis by simp
qed

lemma wire_values_filled_field:
  assumes "names_unique t" and "plain_curation t" and "wire_values t args d = Inr wire"
    and "(f, x) \<in> set (t_fills t)"
  shows "resolveFill x f (f \<in> set (t_requiredFills t)) d True = Inr (map_of wire f)"
proof -
  from wire_values_Inr [OF assms(3)] obtain entries w where
    known: "\<forall>k \<in> set (keys_of entries). known_argument t k"
    and w: "fold_res (fill_parameter t d) (translate t entries) (t_parameters t) = Inr w"
    and b: "fold_res (fill_body t d) w (t_fills t) = Inr wire" by metis
  have dp: "distinct (map p_name (t_parameters t))" using assms(1) by (simp add: names_unique_def)
  have "map_of (translate t entries) f = map_of [] f"
    unfolding translate_def
    using known wire_name_filled_field [OF assms(1,2) _ assms(4)] by (intro fold_update_absent) auto
  moreover have "\<forall>p \<in> set (t_parameters t). hidden_slot p \<longrightarrow> p_name p \<noteq> f"
    using parameter_not_field [OF assms(1)] plainD(3) [OF assms(2,4)] by metis
  then have "map_of w f = map_of (translate t entries) f" using fold_fill_parameters [OF w dp] by blast
  ultimately have "map_of w f = None" by simp
  then show ?thesis using fold_fill_body [OF b plainD(4) [OF assms(2)]] assms(4) by blast
qed

section \<open>Properties\<close>


definition scalar_param :: "string \<Rightarrow> location \<Rightarrow> string option \<Rightarrow> argument_fill option \<Rightarrow> parameter" where
  "scalar_param n l a f = \<lparr>p_name = n, p_location = l, p_argument = a, p_fill = f,
     p_shape = Scalar K_string False no_serialization\<rparr>"

definition demo_input :: "parameter list \<Rightarrow> template_input" where
  "demo_input ps = \<lparr>i_method = ''post'', i_route = ''/orders/{id}'', i_parameters = ps,
     i_bodyProperties = Some [''note'', ''actor''], i_additional = True, i_bodyRoot = None,
     i_aliases = [], i_fills = [(''actor'', Constant (JStr ''me''))], i_rootFill = None,
     i_requiredFills = [], i_contentType = None, i_form = None, i_fileSources = None,
     i_carriers = [], i_binaryBody = False\<rparr>"

definition demo_params :: "parameter list" where
  "demo_params = [scalar_param ''id'' In_path (Some ''order'') None,
     scalar_param ''tenant'' In_query None (Some (Deferred ''tenant''))]"




section \<open>Where the deny-list falls short\<close>

definition shadowing_params :: "parameter list" where
  "shadowing_params = [scalar_param ''id'' In_path None None,
     scalar_param ''tenant'' In_query None (Some (Constant (JStr ''acme''))),
     scalar_param ''owner'' In_query (Some ''tenant'') None]"

text \<open>
  Renaming an argument onto the wire name of a hidden one is accepted when the template is
  created, although the two lists then overlap; the composer refuses the published argument and
  answers with a list that offers it.
\<close>

theorem rename_onto_hidden_refused:
  "\<exists>t. createRequestTemplate (demo_input shadowing_params) = Inr t
     \<and> ''tenant'' \<in> set (allowedArgumentNames t) \<inter> set (deniedArgumentNames t)
     \<and> compose t (JObj [(''id'', JStr ''7''), (''tenant'', JStr ''o'')]) [] None
       = Inl (Unknown_argument [''tenant''] [''id'', ''note'', ''tenant''])"
proof -
  have "case createRequestTemplate (demo_input shadowing_params) of Inl e \<Rightarrow> False
      | Inr t \<Rightarrow> ''tenant'' \<in> set (allowedArgumentNames t) \<and> ''tenant'' \<in> set (deniedArgumentNames t)
          \<and> compose t (JObj [(''id'', JStr ''7''), (''tenant'', JStr ''o'')]) [] None
            = Inl (Unknown_argument [''tenant''] [''id'', ''note'', ''tenant''])" by code_simp
  then show ?thesis by (auto split: sum.splits)
qed

definition hidden_renamed_params :: "parameter list" where
  "hidden_renamed_params = [scalar_param ''id'' In_path None None,
     scalar_param ''tenant'' In_query (Some ''scope'') (Some Omit)]"

text \<open>
  A parameter that is both renamed and hidden without a value is not protected on an open body:
  its agent name is on neither list, so the free-form allowance accepts it and the value an agent
  sends is written to the hidden query parameter.
\<close>

theorem hidden_and_renamed_is_writable:
  "\<exists>t r. createRequestTemplate (demo_input hidden_renamed_params) = Inr t
     \<and> ''scope'' \<notin> set (allowedArgumentNames t)
     \<and> compose t (JObj [(''id'', JStr ''7''), (''scope'', JStr ''evil'')]) [] None = Inr r
     \<and> cr_pathAndQuery r = ''/orders/7?tenant=evil''"
proof -
  have "case createRequestTemplate (demo_input hidden_renamed_params) of Inl e \<Rightarrow> False
      | Inr t \<Rightarrow> ''scope'' \<notin> set (allowedArgumentNames t)
          \<and> (case compose t (JObj [(''id'', JStr ''7''), (''scope'', JStr ''evil'')]) [] None of
               Inl e \<Rightarrow> False | Inr r \<Rightarrow> cr_pathAndQuery r = ''/orders/7?tenant=evil'')" by code_simp
  then show ?thesis by (auto split: sum.splits)
qed

end
