(* ===== verification/Composer_Properties.thy ===== *)
theory Composer_Properties
  imports Composer_Headers Composer_Values
begin

text \<open>
  The contract of a composed request: path, query, headers and cookies, each with a concrete request
  on which it is applied.
\<close>

section \<open>A concrete template\<close>

definition shop_params :: "parameter list" where
  "shop_params =
     [\<lparr>p_name = ''shop'', p_location = In_path, p_argument = Some ''store'', p_fill = None,
        p_shape = Scalar K_string False no_serialization\<rparr>,
      \<lparr>p_name = ''id'', p_location = In_path, p_argument = None, p_fill = None,
        p_shape = Scalar K_string True no_serialization\<rparr>,
      \<lparr>p_name = ''tags'', p_location = In_query, p_argument = None, p_fill = None,
        p_shape = Scalar K_string True (separated (Some '','' ))\<rparr>,
      \<lparr>p_name = ''filter'', p_location = In_query, p_argument = None, p_fill = None,
        p_shape = Object_shape Bracket [\<lparr>mb_name = ''min'', mb_kind = K_boolean, mb_isArray = False\<rparr>]\<rparr>,
      \<lparr>p_name = ''X-Trace'', p_location = In_header, p_argument = None, p_fill = None,
        p_shape = Scalar K_string False no_serialization\<rparr>,
      \<lparr>p_name = ''theme'', p_location = In_cookie, p_argument = None, p_fill = None,
        p_shape = Scalar K_string False no_serialization\<rparr>]"

definition shop_input :: template_input where
  "shop_input = \<lparr>i_method = ''get'', i_route = ''/shops/{shop}/items/{id:int}'', i_parameters = shop_params,
     i_bodyProperties = None, i_additional = False, i_bodyRoot = None, i_aliases = [], i_fills = [],
     i_rootFill = None, i_requiredFills = [], i_contentType = None, i_form = None, i_fileSources = None,
     i_carriers = [\<lparr>ca_in = In_header, ca_name = ''Authorization''\<rparr>], i_binaryBody = False\<rparr>"

definition shop_template :: request_template where
  "shop_template = build_template shop_input []"

definition shop_args :: js where
  "shop_args = JObj [(''store'', JStr ''a/b?c''), (''id'', JArr [JStr ''7'', JStr ''-120'']),
     (''tags'', JArr [JStr ''x,y'', JStr ''p&q=r'']), (''filter'', JObj [(''min'', JBool True)]),
     (''X-Trace'', JStr ''t1''), (''theme'', JStr ''dark; sid=1'')]"

definition shop_wire :: "(string \<times> js) list" where
  "shop_wire = (case wire_values shop_template shop_args [] of Inr w \<Rightarrow> w | Inl e \<Rightarrow> [])"

lemma shop_created: "createRequestTemplate shop_input = Inr shop_template"
  by code_simp

lemma shop_plain: "plain_separators shop_template"
  by code_simp

section \<open>Properties\<close>

text \<open>
  C1: In a composed request every path parameter fills exactly its own slot of the route template, and
  the written text cannot leave the segment: it contains no slash, question mark, hash or brace, so
  the path has the separators of the template and no others. This holds for every created template
  whose placeholder names contain no opening brace.
\<close>

theorem path_stays_in_slots:
  assumes "createRequestTemplate input = Inr t" and "compose_path t wire = Inr path"
    and "CHR ''{'' \<notin> \<Union> (set ` set (slot_names (route_parts (i_route input))))"
  shows "\<exists>g. path = render_route g (route_parts (i_route input))
    \<and> (\<forall>p \<in> set (t_parameters t). p_location p = In_path \<longrightarrow>
        (\<exists>v. map_of wire (p_name p) = Some v \<and> parameter_segment p v = Inr (g (p_name p))))
    \<and> (\<forall>n \<in> set (slot_names (route_parts (i_route input))). set (g n) \<inter> set ''/?#{}'' = {})
    \<and> count_list path (CHR ''/'') = count_list (render_route (\<lambda>n. []) (route_parts (i_route input))) (CHR ''/'')"
proof -
  from compose_path_slots [OF assms] obtain g where path: "path = render_route g (route_parts (i_route input))"
    and seg: "\<forall>p \<in> set (t_parameters t). p_location p = In_path \<longrightarrow>
        (\<exists>v. map_of wire (p_name p) = Some v \<and> parameter_segment p v = Inr (g (p_name p)))"
    and safe: "\<forall>n \<in> set (slot_names (route_parts (i_route input))). segment_safe (g n)" by blast
  have ex: "set w \<inter> set ''/?#{}'' = {}" if "segment_safe w" for w
    using that segment_char_excludes by (fastforce simp: segment_safe_def list_all_iff)
  have none: "\<forall>n \<in> set (slot_names (route_parts (i_route input))). set (g n) \<inter> set ''/?#{}'' = {}"
    using safe ex by blast
  then have "\<forall>n \<in> set (slot_names (route_parts (i_route input))). CHR ''/'' \<notin> set (g n)" by auto
  from render_count [OF this] path seg none show ?thesis by blast
qed

lemma path_stays_in_slots_witness:
  "compose_path shop_template shop_wire = Inr ''/shops/a%2Fb%3Fc/items/7,-120''
   \<and> count_list ''/shops/a%2Fb%3Fc/items/7,-120'' (CHR ''/'') = 4"
proof -
  have c: "compose_path shop_template shop_wire = Inr ''/shops/a%2Fb%3Fc/items/7,-120''" by code_simp
  have b: "list_all (\<lambda>n. CHR ''{'' \<notin> set n) (slot_names (route_parts (i_route shop_input)))" by code_simp
  have n: "count_list (render_route (\<lambda>n. []) (route_parts (i_route shop_input))) (CHR ''/'') = 4" by code_simp
  have "CHR ''{'' \<notin> \<Union> (set ` set (slot_names (route_parts (i_route shop_input))))"
    using b by (auto simp: list_all_iff)
  from path_stays_in_slots [OF shop_created c this] n c show ?thesis by metis
qed





text \<open>
  The cookies of a composed request are closed: a server that splits the composed cookie header
  finds only names of declared cookie parameters, so no value can add a cookie.
\<close>

theorem cookies_are_closed:
  assumes "createRequestTemplate input = Inr t" and "plain_separators t"
    and "compose_cookies t wire = Inr es" and "es \<noteq> []"
  shows "set (cookieNames (join_with ''; '' es))
    \<subseteq> p_name ` {p \<in> set (t_parameters t). p_location p = In_cookie}"
proof -
  have "set (cookieNames e) \<subseteq> p_name ` {p \<in> set (t_parameters t). p_location p = In_cookie}"
    if "e \<in> set es" for e
  proof -
    from that compose_cookies_good [OF assms(3,2)] obtain p where p: "p \<in> set (located In_cookie t)"
      "good_cookie (p_name p) e" by blast
    note l = located_set [OF p(1)]
    from l created_binding [OF assms(1)] cookie_parameter_name have "is_cookie_name (p_name p)" by blast
    from good_cookie_name(1) [OF p(2) this] l show ?thesis by simp
  qed
  then show ?thesis unfolding cookieNames_join [OF assms(4)] by (simp add: UN_subset_iff)
qed

lemma cookies_are_closed_witness:
  "compose_cookies shop_template shop_wire = Inr [''theme=dark%3B%20sid%3D1'']
   \<and> set (cookieNames ''theme=dark%3B%20sid%3D1'') \<subseteq> {''theme''}"
proof -
  have c: "compose_cookies shop_template shop_wire = Inr [''theme=dark%3B%20sid%3D1'']" by code_simp
  have p: "t_parameters shop_template = shop_params" by code_simp
  from cookies_are_closed [OF shop_created shop_plain c] have
    "set (cookieNames ''theme=dark%3B%20sid%3D1'') \<subseteq> p_name ` {p \<in> set shop_params. p_location p = In_cookie}"
    unfolding p by simp
  also have "\<dots> \<subseteq> {''theme''}" by (auto simp: shop_params_def)
  finally show ?thesis using c by blast
qed

text \<open>
  Merging the caller's cookies with the composed ones either fails or yields a header in which
  the names read back are the carried names followed by the composed ones, and no name is in both:
  an argument never replaces a cookie that carries the caller's identity.
\<close>

theorem merged_cookies_disjoint:
  assumes "mergeCookieHeader (Some carried) (Some composed) = Inr (Some merged)" and "trim carried \<noteq> []"
  shows "cookieNames merged = cookieNames carried @ cookieNames composed
    \<and> set (cookieNames carried) \<inter> set (cookieNames composed) = {}"
proof -
  from assms have m: "merged = carried @ ''; '' @ composed"
    and "List.find (\<lambda>n. n \<in> set (cookieNames carried)) (cookieNames composed) = None"
    by (auto simp: mergeCookieHeader_def split: option.splits)
  then have "set (cookieNames carried) \<inter> set (cookieNames composed) = {}"
    by (auto simp: find_None_iff)
  with m show ?thesis using cookieNames_append by simp
qed

lemma merged_cookies_disjoint_witness:
  "\<exists>merged. mergeCookieHeader (Some ''sid=1; theme=dark'') (Some ''lang=tr'') = Inr (Some merged)
     \<and> cookieNames merged = [''sid'', ''theme'', ''lang'']"
proof -
  have m: "mergeCookieHeader (Some ''sid=1; theme=dark'') (Some ''lang=tr'')
      = Inr (Some ''sid=1; theme=dark; lang=tr'')" by code_simp
  have t: "trim ''sid=1; theme=dark'' \<noteq> []" by code_simp
  have n: "cookieNames ''sid=1; theme=dark'' = [''sid'', ''theme'']" "cookieNames ''lang=tr'' = [''lang'']"
    by code_simp+
  from merged_cookies_disjoint [OF m t] m n show ?thesis by auto
qed

end
