(* ===== verification/Endpoint.thy ===== *)
theory Endpoint
  imports Request_Template
begin

text \<open>
  The endpoint descriptor (\<open>packages/http/core/src/generated/endpoint-descriptor.ts\<close>), the readings
  of a JSON schema in \<open>json-schema.ts\<close> and the published form of file arguments in
  \<open>file-argument.ts\<close>. A schema is a JSON value; an absent schema is \<open>JUndef\<close>, on which every
  optional-chained read yields \<open>JUndef\<close>. \<open>structuredClone\<close> is the identity on values.
\<close>

section \<open>Descriptor\<close>

record descriptor_parameter =
  dp_name :: string
  dp_in :: location
  dp_required :: bool
  dp_schema :: js
  dp_style :: "parameter_style option"
  dp_explode :: "bool option"
  dp_notation :: "object_notation option"
  dp_description :: "string option"
  dp_contentType :: "content_media option"
  dp_allowReserved :: bool

record request_body =
  rb_schema :: js
  rb_required :: "bool option"
  rb_contentType :: "string option"
  rb_notation :: "object_notation option"

record argument_curation =
  ac_name :: string
  ac_as :: "string option"
  ac_description :: "string option"
  ac_hidden :: "argument_fill option"

record tool_variant =
  tv_name :: string
  tv_description :: string
  tv_arguments :: "argument_curation list"

record endpoint =
  ep_operationId :: "string option"
  ep_container :: "string option"
  ep_containerPrefix :: "string option"
  ep_toolName :: "string option"
  ep_method :: string
  ep_route :: string
  ep_description :: "string option"
  ep_deprecated :: bool
  ep_parameters :: "descriptor_parameter list"
  ep_requestBody :: "request_body option"
  ep_responses :: "(string \<times> js) list option"
  ep_carriers :: "carrier list"
  ep_arguments :: "argument_curation list"
  ep_variants :: "tool_variant list option"

section \<open>Schemas\<close>

definition typeOf :: "js \<Rightarrow> string option" where
  "typeOf schema = (case js_get schema ''type'' of
     JStr t \<Rightarrow> Some t
   | JArr ts \<Rightarrow> (case List.find (\<lambda>c. c \<noteq> JStr ''null'') ts of Some c \<Rightarrow> js_str c | None \<Rightarrow> None)
   | _ \<Rightarrow> None)"

definition allowsAdditional :: "js \<Rightarrow> bool" where
  "allowsAdditional schema = (case js_get schema ''additionalProperties'' of
     JBool b \<Rightarrow> b | JUndef \<Rightarrow> False | _ \<Rightarrow> True)"

definition additionalPropertiesOf :: "js \<Rightarrow> js" where
  "additionalPropertiesOf schema =
     (let additional = js_get schema ''additionalProperties''
      in if is_plain_object additional \<or> js_items additional \<noteq> None then additional
         else JBool (allowsAdditional schema))"

definition js_entries :: "js \<Rightarrow> (string \<times> js) list" where
  "js_entries v = (case v of JObj kvs \<Rightarrow> kvs | _ \<Rightarrow> [])"

definition string_items :: "js \<Rightarrow> string list" where
  "string_items v = (case v of JArr vs \<Rightarrow> List.map_filter js_str vs | _ \<Rightarrow> [])"

text \<open>The properties and required names of a body whose fields can be lifted.\<close>

definition flattenableBody :: "js \<Rightarrow> ((string \<times> js) list \<times> string list) option" where
  "flattenableBody schema =
     (if js_get schema ''properties'' = JUndef then None
      else Some (js_entries (js_get schema ''properties''), string_items (js_get schema ''required'')))"

section \<open>File arguments\<close>

text \<open>The host's \<open>FileOptions\<close> carry one optional text, the description of \<open>ref\<close>.\<close>

definition fileSourcesOf :: "string option \<Rightarrow> file_source list" where
  "fileSourcesOf ref = (case ref of None \<Rightarrow> defaultFileSources | Some d \<Rightarrow> [Src_text, Src_base64, Src_ref])"

definition isFileSchema :: "js \<Rightarrow> bool" where
  "isFileSchema schema = (schema \<noteq> JUndef \<and> js_str (js_get schema ''contentMediaType'') \<noteq> None
     \<and> js_get schema ''contentEncoding'' = JUndef)"

definition isFileArraySchema :: "js \<Rightarrow> bool" where
  "isFileArraySchema schema = (typeOf schema = Some ''array'' \<and> isFileSchema (js_get schema ''items''))"

definition mediaTypeDefault :: "string option \<Rightarrow> string" where
  "mediaTypeDefault declared = (case declared of
     Some m \<Rightarrow> if CHR ''*'' \<notin> set m \<and> m \<noteq> ''application/octet-stream'' then ''Defaults to '' @ m @ ''.''
       else ''Defaults to text/plain; charset=utf-8 for text and application/octet-stream otherwise.''
   | None \<Rightarrow> ''Defaults to text/plain; charset=utf-8 for text and application/octet-stream otherwise.'')"

definition text_schema :: "string \<Rightarrow> js" where
  "text_schema description = JObj [(''type'', JStr ''string''), (''description'', JStr description)]"

definition required_only :: "string \<Rightarrow> js" where
  "required_only name = JObj [(''required'', JArr [JStr name])]"

definition fileArgumentSchema :: "js \<Rightarrow> string \<Rightarrow> string option \<Rightarrow> js" where
  "fileArgumentSchema fileSchema wireName ref =
     (let properties =
        [(''text'', text_schema ''The file's content as text, sent as is.''),
         (''base64'', JObj [(''type'', JStr ''string''), (''contentEncoding'', JStr ''base64''),
            (''description'', JStr ''The file's bytes as standard base64 with padding and no line breaks.'')])]
        @ (case ref of None \<Rightarrow> [] | Some d \<Rightarrow> [(''ref'', text_schema d)])
        @ [(''name'', text_schema (''The filename the backend receives. Defaults to '' @ quoted wireName @ ''.'')),
           (''mediaType'', text_schema (''The file's media type. '' @ mediaTypeDefault (js_str (js_get fileSchema ''contentMediaType''))))]
      in JObj ([(''type'', JStr ''object'')]
        @ (if js_get fileSchema ''description'' = JUndef then []
           else [(''description'', js_get fileSchema ''description'')])
        @ [(''properties'', JObj properties), (''additionalProperties'', JBool False),
           (''oneOf'', JArr ([required_only ''text'', required_only ''base64'']
             @ (if ref = None then [] else [required_only ''ref''])))]))"

text \<open>A file schema becomes the argument object; a list of files keeps its list and replaces its items.\<close>

definition publishFileSchema :: "js \<Rightarrow> string \<Rightarrow> string option \<Rightarrow> js" where
  "publishFileSchema schema wireName ref =
     (if isFileSchema schema then fileArgumentSchema schema wireName ref
      else if isFileArraySchema schema
      then JObj (filter (\<lambda>p. fst p \<noteq> ''items'') (js_entries schema)
             @ [(''items'', fileArgumentSchema (js_get schema ''items'') wireName ref)])
      else schema)"

end
