(* ===== verification/Curation.thy ===== *)
theory Curation
  imports Endpoint Template_Facts
begin

text \<open>
  \<open>packages/http/core/src/curation.ts\<close>: the host's declarations that rename, describe or hide
  arguments, merged with a variant's and resolved against the shape of the operation.

  \<open>relief\<close> is the source's optional \<open>CurationRelief\<close>: its \<open>foldedNames\<close>; the names it reports
  through \<open>onUnused\<close> are collected in \<open>rc_unused\<close>.
\<close>

datatype argument_slot = Slot_parameter | Slot_body | Slot_bodyRoot

record resolved_argument =
  ra_name :: string
  ra_slot :: argument_slot
  ra_required :: bool
  ra_argument :: "string option"
  ra_description :: "string option"
  ra_fill :: "argument_fill option"

record curation_shape =
  sh_parameterNames :: "string list"
  sh_bodyFieldNames :: "string list"
  sh_bodyRoot :: "string option"
  sh_required :: "string list"

record resolved_curation =
  rc_byWire :: "(string \<times> resolved_argument) list"
  rc_denied :: "string list"
  rc_unused :: "string list"

definition emptyCuration :: resolved_curation where
  "emptyCuration = \<lparr>rc_byWire = [], rc_denied = [], rc_unused = []\<rparr>"

definition declare_record :: "(string \<times> argument_curation) list \<Rightarrow> argument_curation
    \<Rightarrow> template_error + (string \<times> argument_curation) list" where
  "declare_record m r =
     (if map_of m (ac_name r) \<noteq> None then Inl Duplicate_argument
      else Inr (AList.update (ac_name r) r m))"

definition override_record :: "(string \<times> argument_curation) list \<times> (string \<times> argument_curation) list
    \<Rightarrow> argument_curation
    \<Rightarrow> template_error + (string \<times> argument_curation) list \<times> (string \<times> argument_curation) list" where
  "override_record s r = (case s of (merged, overrides) \<Rightarrow>
     if map_of overrides (ac_name r) \<noteq> None then Inl Duplicate_argument
     else Inr (AList.update (ac_name r) r merged, AList.update (ac_name r) r overrides))"

definition variant_arguments :: "tool_variant option \<Rightarrow> argument_curation list" where
  "variant_arguments v = (case v of None \<Rightarrow> [] | Some w \<Rightarrow> tv_arguments w)"

definition declarations :: "endpoint \<Rightarrow> tool_variant option \<Rightarrow> template_error + argument_curation list" where
  "declarations e v =
     res_bind (fold_res declare_record [] (ep_arguments e)) (\<lambda>merged.
     res_map (\<lambda>s. map snd (fst s)) (fold_res override_record (merged, []) (variant_arguments v)))"

definition slotOf :: "string \<Rightarrow> curation_shape \<Rightarrow> argument_slot option" where
  "slotOf name shape =
     (if name \<in> set (sh_parameterNames shape) then Some Slot_parameter
      else (case sh_bodyRoot shape of
          Some root \<Rightarrow> if root = name then Some Slot_bodyRoot else None
        | None \<Rightarrow> if name \<in> set (sh_bodyFieldNames shape) then Some Slot_body else None))"

definition curatedDescriptions :: "endpoint \<Rightarrow> tool_variant option \<Rightarrow> template_error + string list" where
  "curatedDescriptions e v = res_map (List.map_filter ac_description) (declarations e v)"

definition resolved_of :: "argument_curation \<Rightarrow> argument_slot \<Rightarrow> bool \<Rightarrow> resolved_argument" where
  "resolved_of r slot required = \<lparr>ra_name = ac_name r, ra_slot = slot, ra_required = required,
     ra_argument = (if ac_as r = Some (ac_name r) then None else ac_as r),
     ra_description = ac_description r, ra_fill = ac_hidden r\<rparr>"

definition resolve_record :: "curation_shape \<Rightarrow> string list option \<Rightarrow> resolved_curation \<Rightarrow> argument_curation
    \<Rightarrow> template_error + resolved_curation" where
  "resolve_record shape relief s r = (case slotOf (ac_name r) shape of
     None \<Rightarrow>
       (if relief \<noteq> None \<and> ac_name r \<in> set (the relief)
        then Inr (s\<lparr>rc_unused := rc_unused s @ [ac_name r]\<rparr>) else Inl Curation_unresolved)
   | Some slot \<Rightarrow>
      (let required = (ac_name r \<in> set (sh_required shape));
           resolved = resolved_of r slot required
       in if ac_hidden r = Some Omit \<and> required then Inl Hidden_required_omitted
          else Inr (s\<lparr>rc_byWire := AList.update (ac_name r) resolved (rc_byWire s),
            rc_denied := (if ra_argument resolved \<noteq> None \<or> ra_fill resolved \<noteq> None
                          then set_add (ac_name r) (rc_denied s) else rc_denied s)\<rparr>)))"

definition isHidden :: "resolved_curation \<Rightarrow> string \<Rightarrow> bool" where
  "isHidden rc w = (case map_of (rc_byWire rc) w of None \<Rightarrow> False | Some r \<Rightarrow> ra_fill r \<noteq> None)"

definition argument_of :: "resolved_curation \<Rightarrow> string \<Rightarrow> string option" where
  "argument_of rc w = (case map_of (rc_byWire rc) w of None \<Rightarrow> None | Some r \<Rightarrow> ra_argument r)"

definition fill_of :: "resolved_curation \<Rightarrow> string \<Rightarrow> argument_fill option" where
  "fill_of rc w = (case map_of (rc_byWire rc) w of None \<Rightarrow> None | Some r \<Rightarrow> ra_fill r)"

definition agentNameOf :: "resolved_curation \<Rightarrow> string \<Rightarrow> string" where
  "agentNameOf rc w = (case argument_of rc w of None \<Rightarrow> w | Some a \<Rightarrow> a)"

definition shape_names :: "curation_shape \<Rightarrow> string list" where
  "shape_names shape = sh_parameterNames shape
     @ (case sh_bodyRoot shape of None \<Rightarrow> sh_bodyFieldNames shape | Some root \<Rightarrow> [root])"

definition assertAgentNamesUnique :: "resolved_curation \<Rightarrow> curation_shape \<Rightarrow> template_error + string list" where
  "assertAgentNamesUnique rc shape =
     claim_names Argument_collision [] (map (agentNameOf rc) (filter (\<lambda>w. \<not> isHidden rc w) (shape_names shape)))"

definition resolveCuration :: "endpoint \<Rightarrow> tool_variant option \<Rightarrow> curation_shape \<Rightarrow> string list option
    \<Rightarrow> template_error + resolved_curation" where
  "resolveCuration e v shape relief =
     res_bind (declarations e v) (\<lambda>records.
       if records = [] then Inr emptyCuration
       else res_bind (fold_res (resolve_record shape relief) emptyCuration records) (\<lambda>rc.
         res_map (\<lambda>_. rc) (assertAgentNamesUnique rc shape)))"

definition curationShapeOf :: "string list \<Rightarrow> string list \<Rightarrow> string list \<Rightarrow> string list
    \<Rightarrow> string option \<Rightarrow> bool \<Rightarrow> curation_shape" where
  "curationShapeOf parameterNames requiredParameters bodyFields requiredFields root rootRequired =
     \<lparr>sh_parameterNames = parameterNames,
      sh_bodyFieldNames = (if root = None then bodyFields else []),
      sh_bodyRoot = root,
      sh_required = (let names = js_set (requiredParameters @ (if root = None then requiredFields else []))
        in case root of Some r \<Rightarrow> if rootRequired then set_add r names else names | None \<Rightarrow> names)\<rparr>"

section \<open>Facts\<close>

text \<open>One record per wire name, the variant's if it has one.\<close>

lemma fold_declare:
  assumes "fold_res declare_record m rs = Inr m'" and "distinct (keys_of m)"
    and "\<forall>(k, r) \<in> set m. ac_name r = k"
  shows "distinct (keys_of m') \<and> (\<forall>(k, r) \<in> set m'. ac_name r = k)
    \<and> (\<forall>n. map_of m' n = (case List.find (\<lambda>r. ac_name r = n) rs of Some r \<Rightarrow> Some r | None \<Rightarrow> map_of m n))"
  using assms
proof (induction rs arbitrary: m)
  case Nil
  then show ?case by simp
next
  case (Cons r rs)
  let ?m = "AList.update (ac_name r) r m"
  from Cons.prems(1) obtain m1 where m1: "declare_record m r = Inr m1" and rest: "fold_res declare_record m1 rs = Inr m'"
    by (auto simp: res_bind_Inr_iff)
  from m1 have new: "map_of m (ac_name r) = None" and eq: "m1 = ?m"
    by (auto simp: declare_record_def split: if_splits)
  note rest = rest [unfolded eq]
  have d: "distinct (keys_of ?m)" using Cons.prems(2) by simp
  have u: "?m = m @ [(ac_name r, r)]" by (rule update_fresh [OF new])
  have k: "\<forall>(k, r) \<in> set ?m. ac_name r = k" using Cons.prems(3) by (auto simp: u)
  note IH = Cons.IH [OF rest d k]
  have later: "List.find (\<lambda>q. ac_name q = ac_name r) rs = None"
  proof (rule ccontr)
    assume "List.find (\<lambda>q. ac_name q = ac_name r) rs \<noteq> None"
    then obtain q where "q \<in> set rs" "ac_name q = ac_name r"
      by (auto simp: find_None_iff)
    then obtain us vs where "rs = us @ q # vs" by (auto simp: in_set_conv_decomp)
    with rest obtain m2 m3 where m2: "fold_res declare_record ?m us = Inr m2" "declare_record m2 q = Inr m3"
      by (auto simp: fold_res_append res_bind_Inr_iff)
    have "map_of m2 (ac_name r) \<noteq> None"
      by (rule fold_res_invariant [OF m2(1)]) (auto simp: declare_record_def split: if_splits)
    moreover from m2(2) have "map_of m2 (ac_name q) = None" by (auto simp: declare_record_def split: if_splits)
    ultimately show False using \<open>ac_name q = ac_name r\<close> by simp
  qed
  with IH later show ?case by (auto split: option.splits)
qed

text \<open>What resolution records about a wire name, and when a resolution succeeds.\<close>

definition byWire_ok :: "curation_shape \<Rightarrow> argument_curation list \<Rightarrow> resolved_curation \<Rightarrow> bool" where
  "byWire_ok shape rs rc = (\<forall>w r. map_of (rc_byWire rc) w = Some r \<longrightarrow>
     (\<exists>c \<in> set rs. \<exists>slot. slotOf w shape = Some slot
        \<and> ac_name c = w \<and> r = resolved_of c slot (w \<in> set (sh_required shape))
        \<and> \<not> (ac_hidden c = Some Omit \<and> w \<in> set (sh_required shape))))"

lemma fold_resolve_byWire:
  assumes "fold_res (resolve_record shape relief) emptyCuration rs = Inr rc"
  shows "byWire_ok shape rs rc"
  using assms
proof (rule fold_res_invariant)
  show "byWire_ok shape rs emptyCuration" by (simp add: byWire_ok_def emptyCuration_def)
next
  fix s c s'
  assume ok: "byWire_ok shape rs s" and c: "c \<in> set rs" and step: "resolve_record shape relief s c = Inr s'"
  show "byWire_ok shape rs s'"
  proof (cases "slotOf (ac_name c) shape")
    case None
    with step have "rc_byWire s' = rc_byWire s" by (auto simp: resolve_record_def split: if_splits)
    with ok show ?thesis unfolding byWire_ok_def by simp
  next
    case (Some slot)
    with step have no: "\<not> (ac_hidden c = Some Omit \<and> ac_name c \<in> set (sh_required shape))"
      and s': "rc_byWire s' = AList.update (ac_name c)
         (resolved_of c slot (ac_name c \<in> set (sh_required shape))) (rc_byWire s)"
      by (auto simp: resolve_record_def Let_def split: if_splits)
    show ?thesis unfolding byWire_ok_def
    proof (intro allI impI)
      fix w r assume w: "map_of (rc_byWire s') w = Some r"
      show "\<exists>c \<in> set rs. \<exists>slot. slotOf w shape = Some slot \<and> ac_name c = w
        \<and> r = resolved_of c slot (w \<in> set (sh_required shape))
        \<and> \<not> (ac_hidden c = Some Omit \<and> w \<in> set (sh_required shape))"
      proof (cases "w = ac_name c")
        case True
        with w s' have "r = resolved_of c slot (w \<in> set (sh_required shape))" by simp
        with True no c Some show ?thesis by blast
      next
        case False
        with w s' have "map_of (rc_byWire s) w = Some r" by simp
        with ok show ?thesis unfolding byWire_ok_def by blast
      qed
    qed
  qed
qed

lemma resolveCuration_byWire:
  assumes "resolveCuration e v shape relief = Inr rc"
  obtains rs where "declarations e v = Inr rs" and "byWire_ok shape rs rc"
    and "distinct (map (agentNameOf rc) (filter (\<lambda>w. \<not> isHidden rc w) (shape_names shape))) \<or> rs = []"
proof -
  from assms obtain rs where rs: "declarations e v = Inr rs"
    and rest: "(if rs = [] then Inr emptyCuration
       else res_bind (fold_res (resolve_record shape relief) emptyCuration rs) (\<lambda>rc.
         res_map (\<lambda>_. rc) (assertAgentNamesUnique rc shape))) = Inr rc"
    by (auto simp: resolveCuration_def res_bind_Inr_iff)
  show ?thesis
  proof (cases "rs = []")
    case True
    with rest have "rc = emptyCuration" by simp
    then have "byWire_ok shape rs rc" by (simp add: byWire_ok_def emptyCuration_def)
    with rs True show ?thesis using that by blast
  next
    case False
    with rest obtain names where f: "fold_res (resolve_record shape relief) emptyCuration rs = Inr rc"
      and a: "assertAgentNamesUnique rc shape = Inr names"
      by (auto simp: res_bind_Inr_iff res_map_Inr_iff)
    from a have "distinct (map (agentNameOf rc) (filter (\<lambda>w. \<not> isHidden rc w) (shape_names shape)))"
      by (simp add: assertAgentNamesUnique_def claim_names_Inr_iff)
    with rs fold_resolve_byWire [OF f] show ?thesis using that by blast
  qed
qed

end
