(* ===== verification/Naming.thy ===== *)
theory Naming
  imports Endpoint
begin

text \<open>
  \<open>packages/http/core/src/naming.ts\<close>: tool names from operation ids, routes and containers, the
  folding of routes that belong to one operation, variants, and the resolution of collisions.

  Catalog errors are modelled by their code; the \<open>onFolded\<close> and \<open>onDiagnostic\<close> callbacks only report
  and are left out. \<open>deduplicateOperations\<close> is generic over items with a selector; the program uses it
  on endpoints and on records that contain one, and the model fixes endpoints.
\<close>

datatype catalog_error = Name_collision | Invalid_name | Variant_declaration_conflict

section \<open>Snake case\<close>

fun squeeze :: "string \<Rightarrow> string" where
  "squeeze [] = []"
| "squeeze [c] = [c]"
| "squeeze (c # d # s) = (if c = CHR ''_'' \<and> d = CHR ''_'' then squeeze (d # s) else c # squeeze (d # s))"

definition strip_first :: "string \<Rightarrow> string" where
  "strip_first s = (if s \<noteq> [] \<and> hd s = CHR ''_'' then tl s else s)"

definition strip_last :: "string \<Rightarrow> string" where
  "strip_last s = (if s \<noteq> [] \<and> last s = CHR ''_'' then butlast s else s)"

definition collapse :: "string \<Rightarrow> string" where
  "collapse s = strip_last (strip_first (squeeze s))"

text \<open>
  The loop of \<open>snakeCase\<close>: \<open>prev\<close> is the character before the position (none at the start), \<open>out\<close>
  what has been written.
\<close>

fun snake_from :: "char option \<Rightarrow> string \<Rightarrow> string \<Rightarrow> string" where
  "snake_from prev out [] = out"
| "snake_from prev out (c # cs) =
     (if isAsciiUpper c then
        let after_lower = (case prev of None \<Rightarrow> False | Some p \<Rightarrow> isAsciiLower p);
            acronym_end = ((case prev of None \<Rightarrow> False | Some p \<Rightarrow> isAsciiUpper p)
              \<and> (case cs of [] \<Rightarrow> False | n # ns \<Rightarrow> isAsciiLower n));
            sep = (if out \<noteq> [] \<and> (after_lower \<or> acronym_end) then [CHR ''_''] else [])
        in snake_from (Some c) (out @ sep @ [lower_char c]) cs
      else if isAsciiLower c \<or> isAsciiDigit c then snake_from (Some c) (out @ [c]) cs
      else snake_from (Some c) (out @ [CHR ''_'']) cs)"

definition snakeCase :: "string \<Rightarrow> string" where
  "snakeCase s = collapse (snake_from None [] s)"

section \<open>Names of one endpoint\<close>

definition placeholderName :: "string \<Rightarrow> string" where
  "placeholderName p = takeWhile (\<lambda>c. c \<notin> set '':?='') (dropWhile (\<lambda>c. c = CHR ''*'') p)"

definition is_placeholder :: "string \<Rightarrow> bool" where
  "is_placeholder s = (s \<noteq> [] \<and> hd s = CHR ''{'' \<and> last s = CHR ''}'')"

definition inner_text :: "string \<Rightarrow> string" where
  "inner_text s = butlast (tl s)"

definition fromRoute :: "endpoint \<Rightarrow> string" where
  "fromRoute e =
     (let segments = filter (\<lambda>s. length s > 0) (split_on (CHR ''/'') (ep_route e));
          parts = to_lower (ep_method e) # map snakeCase (filter (\<lambda>s. \<not> is_placeholder s) segments);
          by_parts = map (\<lambda>s. ''by_'' @ snakeCase (placeholderName (inner_text s))) (filter is_placeholder segments)
      in collapse (join_with ''_'' (parts @ by_parts)))"

definition fold_plural :: "string \<Rightarrow> string" where
  "fold_plural token = (if length token > 3 \<and> last token = CHR ''s'' then butlast token else token)"

definition tokensOf :: "string \<Rightarrow> string list" where
  "tokensOf name = map fold_plural (filter (\<lambda>p. length p > 0) (split_on (CHR ''_'') name))"

definition controllerSuffix :: string where
  "controllerSuffix = ''Controller''"

definition derivePrefix :: "endpoint \<Rightarrow> string option" where
  "derivePrefix e = (case ep_containerPrefix e of
     Some p \<Rightarrow> Some (snakeCase p)
   | None \<Rightarrow> (case ep_container e of
       None \<Rightarrow> None
     | Some container \<Rightarrow>
        if trim container = [] then None
        else
          (let segments = filter (\<lambda>p. length p > 0) (split_on (CHR ''.'') container);
               lst = (if segments = [] then [] else last segments);
               base = (if length lst > length controllerSuffix \<and> suffix controllerSuffix lst
                       then take (length lst - length controllerSuffix) lst else lst);
               prefix = snakeCase base
           in if prefix = [] then None else Some prefix)))"

fun has_run :: "string list \<Rightarrow> string list \<Rightarrow> bool" where
  "has_run ps [] = (ps = [])"
| "has_run ps (b # bs) = (prefix ps (b # bs) \<or> has_run ps bs)"

definition isRedundant :: "string \<Rightarrow> string \<Rightarrow> bool" where
  "isRedundant p body = (tokensOf p \<noteq> [] \<and> has_run (tokensOf p) (tokensOf body))"

definition applyPrefix :: "string \<Rightarrow> string option \<Rightarrow> string" where
  "applyPrefix body p = (case p of
     None \<Rightarrow> body
   | Some q \<Rightarrow> if q = [] \<or> isRedundant q body then body else collapse (q @ ''_'' @ body))"

definition tool_name_char :: "char \<Rightarrow> bool" where
  "tool_name_char c = (isAsciiLower c \<or> isAsciiDigit c \<or> c = CHR ''_'')"

definition toolNamePattern :: "string \<Rightarrow> bool" where
  "toolNamePattern s = (s \<noteq> [] \<and> isAsciiLower (hd s) \<and> length s \<le> 256 \<and> list_all tool_name_char (tl s))"

definition validate_name :: "string \<Rightarrow> catalog_error + string" where
  "validate_name name = (if toolNamePattern name then Inr name else Inl Invalid_name)"

definition blank :: "string option \<Rightarrow> bool" where
  "blank s = (case s of None \<Rightarrow> True | Some t \<Rightarrow> trim t = [])"

definition createToolBody :: "endpoint \<Rightarrow> string" where
  "createToolBody e = (if blank (ep_operationId e) then fromRoute e else snakeCase (the (ep_operationId e)))"

datatype prefix_mode = Always | On_collision

definition createToolName :: "endpoint \<Rightarrow> prefix_mode \<Rightarrow> catalog_error + string" where
  "createToolName e mode = (case ep_toolName e of
     Some name \<Rightarrow> validate_name name
   | None \<Rightarrow> validate_name (if mode = Always then applyPrefix (createToolBody e) (derivePrefix e)
                            else createToolBody e))"

section \<open>Folding routes of one operation\<close>

definition shorter :: "string \<Rightarrow> string \<Rightarrow> bool" where
  "shorter candidate current =
     (if length candidate \<noteq> length current then length candidate < length current else candidate < current)"

type_synonym operation_key = "string \<times> string \<times> string"

definition operation_key_of :: "endpoint \<Rightarrow> operation_key option" where
  "operation_key_of e =
     (if blank (ep_operationId e) then None
      else Some (case ep_container e of None \<Rightarrow> [] | Some c \<Rightarrow> c, the (ep_operationId e), to_upper (ep_method e)))"

text \<open>\<open>operations\<close> and, for every key met so far, its position there.\<close>

type_synonym folding = "endpoint list \<times> (operation_key \<times> nat) list"

definition fold_item :: "folding \<Rightarrow> endpoint \<Rightarrow> folding" where
  "fold_item s e = (case s of (operations, seen) \<Rightarrow> (case operation_key_of e of
     None \<Rightarrow> (operations @ [e], seen)
   | Some k \<Rightarrow> (case map_of seen k of
       None \<Rightarrow> (operations @ [e], AList.update k (length operations) seen)
     | Some i \<Rightarrow>
         if shorter (ep_route e) (ep_route (operations ! i)) then (operations[i := e], seen) else s)))"

definition fold_endpoints :: "endpoint list \<Rightarrow> folding" where
  "fold_endpoints es = foldl fold_item ([], []) es"

definition deduplicateOperations :: "endpoint list \<Rightarrow> endpoint list" where
  "deduplicateOperations es = fst (fold_endpoints es)"

definition expand_variants :: "endpoint \<Rightarrow> catalog_error + (endpoint \<times> tool_variant option) list" where
  "expand_variants e = (case ep_variants e of
     None \<Rightarrow> Inr [(e, None)]
   | Some vs \<Rightarrow> if ep_toolName e \<noteq> None then Inl Variant_declaration_conflict
                else Inr (map (\<lambda>v. (e, Some v)) vs))"

definition expandToolProductions :: "endpoint list \<Rightarrow> catalog_error + (endpoint \<times> tool_variant option) list" where
  "expandToolProductions es = res_map concat (traverse expand_variants (deduplicateOperations es))"

section \<open>Names of a catalog\<close>

definition production_name :: "prefix_mode \<Rightarrow> endpoint \<times> tool_variant option \<Rightarrow> catalog_error + string" where
  "production_name mode pr = (case snd pr of
     None \<Rightarrow> createToolName (fst pr) mode
   | Some v \<Rightarrow> Inr (tv_name v))"

text \<open>A generated name, as opposed to one the host declared on the endpoint or a variant.\<close>

definition generated :: "endpoint \<times> tool_variant option \<Rightarrow> bool" where
  "generated pr = (ep_toolName (fst pr) = None \<and> snd pr = None)"

definition disambiguate :: "(endpoint \<times> tool_variant option) list \<Rightarrow> string list \<Rightarrow> string list" where
  "disambiguate prs names =
     map (\<lambda>(pr, name).
       if generated pr \<and> 2 \<le> length (filter (\<lambda>(q, n). generated q \<and> n = name) (zip prs names))
       then applyPrefix name (derivePrefix (fst pr)) else name) (zip prs names)"

definition createToolNames :: "endpoint list \<Rightarrow> prefix_mode \<Rightarrow> catalog_error + string list" where
  "createToolNames es mode =
     res_bind (expandToolProductions es) (\<lambda>prs.
     res_bind (traverse (production_name mode) prs) (\<lambda>names.
       let final = (if mode = On_collision then disambiguate prs names else names)
       in if distinct final then Inr final else Inl Name_collision))"

section \<open>Shape of names\<close>

lemma snake_from_chars:
  "list_all tool_name_char out \<Longrightarrow> list_all tool_name_char (snake_from prev out s)"
proof (induction prev out s rule: snake_from.induct)
  case (1 prev out)
  then show ?case by simp
next
  case (2 prev out c cs)
  have "isAsciiUpper c \<Longrightarrow> tool_name_char (lower_char c)" by (simp add: tool_name_char_def lower_of_upper)
  moreover have "tool_name_char (CHR ''_'')" by (simp add: tool_name_char_def)
  ultimately show ?case using 2 by (simp add: Let_def tool_name_char_def)
qed

fun no_double :: "string \<Rightarrow> bool" where
  "no_double (c # d # s) = (\<not> (c = CHR ''_'' \<and> d = CHR ''_'') \<and> no_double (d # s))"
| "no_double s = True"

lemma squeeze_Nil_iff [simp]: "squeeze s = [] \<longleftrightarrow> s = []"
  by (induction s rule: squeeze.induct) auto

lemma hd_squeeze: "s \<noteq> [] \<Longrightarrow> hd (squeeze s) = hd s"
  by (induction s rule: squeeze.induct) auto

lemma set_squeeze: "set (squeeze s) \<subseteq> set s"
  by (induction s rule: squeeze.induct) auto

lemma no_double_Cons: "no_double (c # s) \<longleftrightarrow> no_double s \<and> (s \<noteq> [] \<longrightarrow> \<not> (c = CHR ''_'' \<and> hd s = CHR ''_''))"
  by (cases s) auto

lemma no_double_squeeze: "no_double (squeeze s)"
  by (induction s rule: squeeze.induct) (auto simp: no_double_Cons hd_squeeze)

lemma no_double_tl: "no_double s \<Longrightarrow> no_double (tl s)"
  by (cases s) (auto simp: no_double_Cons)

lemma no_double_butlast: "no_double s \<Longrightarrow> no_double (butlast s)"
  by (induction s rule: no_double.induct) (auto simp: no_double_Cons split: if_splits)

lemma no_double_butlast_last:
  "no_double s \<Longrightarrow> s \<noteq> [] \<Longrightarrow> last s = CHR ''_'' \<Longrightarrow> butlast s \<noteq> [] \<Longrightarrow> last (butlast s) \<noteq> CHR ''_''"
  by (induction s rule: no_double.induct) (auto split: if_splits)

definition tidy :: "string \<Rightarrow> bool" where
  "tidy s = (no_double s \<and> (s \<noteq> [] \<longrightarrow> hd s \<noteq> CHR ''_'' \<and> last s \<noteq> CHR ''_''))"

lemma tidy_collapse: "tidy (collapse s)"
proof -
  let ?a = "squeeze s" and ?b = "strip_first (squeeze s)"
  have a: "no_double ?a" by (rule no_double_squeeze)
  have b: "no_double ?b" using a by (simp add: strip_first_def no_double_tl)
  have hb: "?b \<noteq> [] \<Longrightarrow> hd ?b \<noteq> CHR ''_''"
    using a by (cases ?a) (auto simp: strip_first_def no_double_Cons)
  show ?thesis
  proof (cases "?b \<noteq> [] \<and> last ?b = CHR ''_''")
    case True
    then have c: "collapse s = butlast ?b" by (simp add: collapse_def strip_last_def)
    have "hd (butlast ?b) = hd ?b" if "butlast ?b \<noteq> []" using that by (cases ?b) auto
    with True b hb c show ?thesis
      by (auto simp: tidy_def no_double_butlast dest: no_double_butlast_last)
  next
    case False
    then have "collapse s = ?b" by (auto simp: collapse_def strip_last_def)
    with False b hb show ?thesis by (auto simp: tidy_def)
  qed
qed

lemma set_collapse: "set (collapse s) \<subseteq> set s"
proof -
  have "set (strip_first t) \<subseteq> set t" for t by (cases t) (auto simp: strip_first_def)
  moreover have "set (strip_last t) \<subseteq> set t" for t by (auto simp: strip_last_def dest: in_set_butlastD)
  ultimately show ?thesis unfolding collapse_def using set_squeeze by blast
qed

text \<open>
  Whatever identifier it is given, snake case yields only lower-case letters, digits and single
  underscores, and neither starts nor ends with an underscore.
\<close>

theorem snakeCase_shape:
  "list_all tool_name_char (snakeCase s) \<and> tidy (snakeCase s)"
proof -
  have "list_all tool_name_char (snake_from None [] s)" by (rule snake_from_chars) simp
  then have "list_all tool_name_char (collapse (snake_from None [] s))"
    using set_collapse [of "snake_from None [] s"] by (auto simp: list_all_iff)
  then show ?thesis by (simp add: snakeCase_def tidy_collapse)
qed

section \<open>Names of a catalog are distinct\<close>

lemma traverse_nth: "traverse f xs = Inr ys \<Longrightarrow> length ys = length xs \<and> (\<forall>i < length xs. f (xs ! i) = Inr (ys ! i))"
  unfolding traverse_Inr_iff by (simp add: list_all2_conv_all_nth)

lemma createToolName_pattern: "createToolName e mode = Inr n \<Longrightarrow> toolNamePattern n"
  by (auto simp: createToolName_def validate_name_def split: option.splits if_splits)

text \<open>
  C37: A catalog is named only when every tool has a name of its own, and in the mode that always
  prefixes every name that no variant declared has the shape the protocol requires.
\<close>

theorem tool_names_unique:
  assumes "createToolNames es mode = Inr names" and "expandToolProductions es = Inr prs"
  shows "distinct names \<and> length names = length prs
    \<and> (mode = Always \<longrightarrow> (\<forall>i < length prs. snd (prs ! i) = None \<longrightarrow> toolNamePattern (names ! i)))"
proof -
  from assms obtain raw where raw: "traverse (production_name mode) prs = Inr raw"
    and names: "names = (if mode = On_collision then disambiguate prs raw else raw)" and "distinct names"
    by (auto simp: createToolNames_def res_bind_Inr_iff Let_def split: if_splits)
  note len = traverse_nth [OF raw]
  have "toolNamePattern (names ! i)" if "mode = Always" "i < length prs" "snd (prs ! i) = None" for i
  proof -
    from len that have "production_name mode (prs ! i) = Inr (names ! i)" by (simp add: names)
    with that show ?thesis by (simp add: production_name_def createToolName_pattern)
  qed
  moreover have "length names = length prs" using len by (simp add: names disambiguate_def)
  ultimately show ?thesis using \<open>distinct names\<close> by blast
qed

definition plain_endpoint :: "string \<Rightarrow> string \<Rightarrow> string \<Rightarrow> endpoint" where
  "plain_endpoint container oid route = \<lparr>ep_operationId = Some oid, ep_container = Some container,
     ep_containerPrefix = None, ep_toolName = None, ep_method = ''GET'', ep_route = route,
     ep_description = None, ep_deprecated = False, ep_parameters = [], ep_requestBody = None,
     ep_responses = None, ep_carriers = [], ep_arguments = [], ep_variants = None\<rparr>"

lemma tool_names_unique_witness:
  "createToolNames [plain_endpoint ''ShopsController'' ''getItems'' ''/items'',
      plain_endpoint ''OrdersController'' ''listOrders'' ''/orders''] Always
    = Inr [''shops_get_items'', ''list_orders''] \<and> distinct [''shops_get_items'', ''list_orders'']
   \<and> toolNamePattern ''list_orders''"
proof -
  let ?es = "[plain_endpoint ''ShopsController'' ''getItems'' ''/items'',
      plain_endpoint ''OrdersController'' ''listOrders'' ''/orders'']"
  have n: "createToolNames ?es Always = Inr [''shops_get_items'', ''list_orders'']" by code_simp
  have e: "case expandToolProductions ?es of Inl e \<Rightarrow> False
      | Inr prs \<Rightarrow> length prs = 2 \<and> list_all (\<lambda>pr. snd pr = None) prs" by code_simp
  then obtain prs where prs: "expandToolProductions ?es = Inr prs" "length prs = 2"
    "list_all (\<lambda>pr. snd pr = None) prs" by (auto split: sum.splits)
  from prs(2,3) have "snd (prs ! 1) = None" by (auto simp: list_all_length)
  from tool_names_unique [OF n prs(1)] have d: "distinct [''shops_get_items'', ''list_orders'']"
    and p: "\<forall>i < length prs. snd (prs ! i) = None \<longrightarrow> toolNamePattern ([''shops_get_items'', ''list_orders''] ! i)"
    by blast+
  from p [rule_format, of 1] prs(2) \<open>snd (prs ! 1) = None\<close> have "toolNamePattern ''list_orders''" by simp
  with n d show ?thesis by blast
qed

text \<open>
  In the mode that prefixes only on collision the prefixed name is not checked again: two
  operations whose container names start with a digit are published under names that do not have
  the required shape, where the other mode refuses them.
\<close>

theorem collision_prefix_escapes_validation:
  "createToolNames [plain_endpoint ''1Shop'' ''list'' ''/a'', plain_endpoint ''2Shop'' ''list'' ''/b'']
      On_collision = Inr [''1shop_list'', ''2shop_list'']
   \<and> \<not> toolNamePattern ''1shop_list''
   \<and> createToolNames [plain_endpoint ''1Shop'' ''list'' ''/a'', plain_endpoint ''2Shop'' ''list'' ''/b'']
      Always = Inl Invalid_name"
proof -
  have "createToolNames [plain_endpoint ''1Shop'' ''list'' ''/a'', plain_endpoint ''2Shop'' ''list'' ''/b'']
      On_collision = Inr [''1shop_list'', ''2shop_list'']" by code_simp
  moreover have "\<not> toolNamePattern ''1shop_list''" by code_simp
  moreover have "createToolNames [plain_endpoint ''1Shop'' ''list'' ''/a'', plain_endpoint ''2Shop'' ''list'' ''/b'']
      Always = Inl Invalid_name" by code_simp
  ultimately show ?thesis by blast
qed

section \<open>Folding keeps one shortest route per operation\<close>

lemma shorter_irrefl [simp]: "\<not> shorter r r"
  by (simp add: shorter_def)

lemma shorter_keeps_least: "\<not> shorter a b \<Longrightarrow> shorter c b \<Longrightarrow> \<not> shorter a c"
  by (auto simp: shorter_def split: if_splits)

definition folding_ok :: "endpoint list \<Rightarrow> folding \<Rightarrow> bool" where
  "folding_ok es s = (case s of (operations, seen) \<Rightarrow>
     set operations \<subseteq> set es
     \<and> (\<forall>k i. map_of seen k = Some i \<longrightarrow> i < length operations \<and> operation_key_of (operations ! i) = Some k)
     \<and> (\<forall>i < length operations. \<forall>k. operation_key_of (operations ! i) = Some k \<longrightarrow> map_of seen k = Some i)
     \<and> (\<forall>e \<in> set es. (operation_key_of e = None \<longrightarrow> e \<in> set operations)
          \<and> (\<forall>k. operation_key_of e = Some k \<longrightarrow>
               (\<exists>i. map_of seen k = Some i \<and> \<not> shorter (ep_route e) (ep_route (operations ! i))))))"

lemma folding_okD:
  assumes "folding_ok es (operations, seen)"
  shows "set operations \<subseteq> set es"
    and "map_of seen k = Some i \<Longrightarrow> i < length operations \<and> operation_key_of (operations ! i) = Some k"
    and "i < length operations \<Longrightarrow> operation_key_of (operations ! i) = Some k \<Longrightarrow> map_of seen k = Some i"
    and "e \<in> set es \<Longrightarrow> operation_key_of e = None \<Longrightarrow> e \<in> set operations"
    and "e \<in> set es \<Longrightarrow> operation_key_of e = Some k \<Longrightarrow>
      \<exists>i. map_of seen k = Some i \<and> \<not> shorter (ep_route e) (ep_route (operations ! i))"
  using assms unfolding folding_ok_def prod.case by blast+

lemma folding_okI:
  assumes "set operations \<subseteq> set es"
    and "\<And>k i. map_of seen k = Some i \<Longrightarrow> i < length operations \<and> operation_key_of (operations ! i) = Some k"
    and "\<And>k i. i < length operations \<Longrightarrow> operation_key_of (operations ! i) = Some k \<Longrightarrow> map_of seen k = Some i"
    and "\<And>e. e \<in> set es \<Longrightarrow> operation_key_of e = None \<Longrightarrow> e \<in> set operations"
    and "\<And>e k. e \<in> set es \<Longrightarrow> operation_key_of e = Some k \<Longrightarrow>
      \<exists>i. map_of seen k = Some i \<and> \<not> shorter (ep_route e) (ep_route (operations ! i))"
  shows "folding_ok es (operations, seen)"
  unfolding folding_ok_def prod.case using assms by blast

lemma fold_item_appends:
  assumes ok: "folding_ok es (ops, seen)" and key: "operation_key_of e = None"
  shows "folding_ok (es @ [e]) (ops @ [e], seen)"
proof (rule folding_okI, goal_cases)
  case 1
  show ?case using folding_okD(1) [OF ok] by auto
next
  case (2 k i)
  from folding_okD(2) [OF ok 2] show ?case by (simp add: nth_append)
next
  case (3 k i)
  show ?case
  proof (cases "i < length ops")
    case True
    with 3(2) have "operation_key_of (ops ! i) = Some k" by (simp add: nth_append)
    with True show ?thesis by (rule folding_okD(3) [OF ok])
  next
    case False
    with 3(1) have "i = length ops" by simp
    with 3(2) key show ?thesis by simp
  qed
next
  case (4 x)
  then show ?case using folding_okD(4) [OF ok] by auto
next
  case (5 x k)
  then have "x \<in> set es" using key by auto
  with folding_okD(5) [OF ok] 5(2) folding_okD(2) [OF ok] show ?case
    by (metis nth_append)
qed

lemma fold_item_first:
  assumes ok: "folding_ok es (ops, seen)" and key: "operation_key_of e = Some k0" and new: "map_of seen k0 = None"
  shows "folding_ok (es @ [e]) (ops @ [e], AList.update k0 (length ops) seen)"
proof (rule folding_okI, goal_cases)
  case 1
  show ?case using folding_okD(1) [OF ok] by auto
next
  case (2 k i)
  show ?case
  proof (cases "k = k0")
    case True
    with 2 have "i = length ops" by simp
    with True key show ?thesis by simp
  next
    case False
    with 2 have "map_of seen k = Some i" by simp
    from folding_okD(2) [OF ok this] show ?thesis by (simp add: nth_append)
  qed
next
  case (3 k i)
  show ?case
  proof (cases "i < length ops")
    case True
    with 3 have "map_of seen k = Some i" using folding_okD(3) [OF ok, of i k] by (simp add: nth_append)
    with new show ?thesis by (cases "k = k0") auto
  next
    case False
    with 3(1) have "i = length ops" by simp
    with 3(2) key show ?thesis by simp
  qed
next
  case (4 x)
  then show ?case using folding_okD(4) [OF ok] key by auto
next
  case (5 x k)
  show ?case
  proof (cases "k = k0")
    case True
    have "x = e"
    proof (rule ccontr)
      assume "x \<noteq> e"
      with 5 have "x \<in> set es" by auto
      with folding_okD(5) [OF ok this] 5(2) True new show False by auto
    qed
    with True show ?thesis by simp
  next
    case False
    with 5 key have "x \<in> set es" by auto
    with folding_okD(5) [OF ok this] 5(2) obtain i where i: "map_of seen k = Some i"
      "\<not> shorter (ep_route x) (ep_route (ops ! i))" by blast
    with folding_okD(2) [OF ok, of k i] have "i < length ops" by blast
    with i False show ?thesis by (simp add: nth_append)
  qed
qed

lemma fold_item_again:
  assumes ok: "folding_ok es (ops, seen)" and key: "operation_key_of e = Some k0" and old: "map_of seen k0 = Some i0"
    and res: "ops' = (if shorter (ep_route e) (ep_route (ops ! i0)) then ops[i0 := e] else ops)"
  shows "folding_ok (es @ [e]) (ops', seen)"
proof -
  note i0 = folding_okD(2) [OF ok old]
  have len: "length ops' = length ops" by (simp add: res)
  have nth: "ops' ! i = ops ! i \<or> i = i0 \<and> ops' ! i = e \<and> shorter (ep_route e) (ep_route (ops ! i0))" for i
    using i0 by (cases "i = i0") (simp_all add: res)
  have keys: "operation_key_of (ops' ! i) = operation_key_of (ops ! i)" if "i < length ops" for i
    using nth [of i] i0 key by metis
  have least: "\<not> shorter (ep_route x) (ep_route (ops' ! i))" if "\<not> shorter (ep_route x) (ep_route (ops ! i))" for x i
    using nth [of i] that shorter_keeps_least by metis
  have mine: "\<not> shorter (ep_route e) (ep_route (ops' ! i0))" using i0 by (simp add: res)
  show ?thesis
  proof (rule folding_okI, goal_cases)
    case 1
    show ?case using folding_okD(1) [OF ok] set_update_subset_insert [of ops i0 e] by (auto simp: res)
  next
    case (2 k i)
    from folding_okD(2) [OF ok 2] keys [of i] len show ?case by simp
  next
    case (3 k i)
    then have "i < length ops" "operation_key_of (ops ! i) = Some k" using keys [of i] len by simp_all
    then show ?case by (rule folding_okD(3) [OF ok])
  next
    case (4 x)
    with key have "x \<in> set es" by auto
    from folding_okD(4) [OF ok this 4(2)] obtain i where i: "i < length ops" "ops ! i = x"
      by (auto simp: in_set_conv_nth)
    with 4(2) i0 have "i \<noteq> i0" by auto
    with i have "ops' ! i = x" by (simp add: res)
    with i(1) len show ?case by (metis nth_mem)
  next
    case (5 x k)
    show ?case
    proof (cases "x \<in> set es")
      case True
      with folding_okD(5) [OF ok True 5(2)] least show ?thesis by blast
    next
      case False
      with 5 key have "x = e" "k = k0" by auto
      with old mine show ?thesis by blast
    qed
  qed
qed

lemma fold_item_ok: "folding_ok es s \<Longrightarrow> folding_ok (es @ [e]) (fold_item s e)"
proof -
  assume ok: "folding_ok es s"
  obtain ops seen where s: "s = (ops, seen)" by (cases s)
  note ok' = ok [unfolded s]
  show ?thesis
  proof (cases "operation_key_of e")
    case None
    with fold_item_appends [OF ok' None] show ?thesis by (simp add: s fold_item_def)
  next
    case (Some k)
    show ?thesis
    proof (cases "map_of seen k")
      case None
      with fold_item_first [OF ok' Some None] Some show ?thesis by (simp add: s fold_item_def)
    next
      case (Some i)
      with fold_item_again [OF ok' \<open>operation_key_of e = Some k\<close> Some refl] \<open>operation_key_of e = Some k\<close>
      show ?thesis by (cases "shorter (ep_route e) (ep_route (ops ! i))") (simp_all add: s fold_item_def)
    qed
  qed
qed

lemma fold_endpoints_ok: "folding_ok es (fold_endpoints es)"
proof -
  have "folding_ok (ds @ es) (foldl fold_item s es)" if "folding_ok ds s" for ds s
    using that
  proof (induction es arbitrary: ds s)
    case Nil
    then show ?case by simp
  next
    case (Cons e es)
    from Cons.IH [OF fold_item_ok [OF Cons.prems]] show ?case by simp
  qed
  from this [of "[]" "([], [])"] show ?thesis by (simp add: fold_endpoints_def folding_ok_def)
qed

text \<open>
  Folding keeps, for every operation identity, exactly one route, and no route of that operation
  is shorter; endpoints without an operation id are all kept, and nothing is invented.
\<close>

theorem folding_keeps_shortest_route:
  "set (deduplicateOperations es) \<subseteq> set es
   \<and> (\<forall>e \<in> set es. operation_key_of e = None \<longrightarrow> e \<in> set (deduplicateOperations es))
   \<and> (\<forall>e \<in> set es. \<forall>k. operation_key_of e = Some k \<longrightarrow>
        (\<exists>!i. i < length (deduplicateOperations es) \<and> operation_key_of (deduplicateOperations es ! i) = Some k)
        \<and> (\<forall>d \<in> set (deduplicateOperations es). operation_key_of d = Some k \<longrightarrow>
             \<not> shorter (ep_route e) (ep_route d)))"
proof -
  obtain ops seen where s: "fold_endpoints es = (ops, seen)" by (cases "fold_endpoints es")
  note ok = fold_endpoints_ok [of es, unfolded s]
  have d: "deduplicateOperations es = ops" by (simp add: deduplicateOperations_def s)
  have "(\<exists>!i. i < length ops \<and> operation_key_of (ops ! i) = Some k)
      \<and> (\<forall>d \<in> set ops. operation_key_of d = Some k \<longrightarrow> \<not> shorter (ep_route e) (ep_route d))"
    if e: "e \<in> set es" "operation_key_of e = Some k" for e k
  proof -
    from folding_okD(5) [OF ok e] obtain i where i: "map_of seen k = Some i"
      "\<not> shorter (ep_route e) (ep_route (ops ! i))" by blast
    have u: "j = i" if "j < length ops" "operation_key_of (ops ! j) = Some k" for j
      using folding_okD(3) [OF ok that] i(1) by simp
    have "\<exists>!i. i < length ops \<and> operation_key_of (ops ! i) = Some k"
      using folding_okD(2) [OF ok i(1)] u by blast
    moreover have "\<forall>d \<in> set ops. operation_key_of d = Some k \<longrightarrow> \<not> shorter (ep_route e) (ep_route d)"
      using u i(2) by (metis in_set_conv_nth)
    ultimately show ?thesis by blast
  qed
  with folding_okD(1,4) [OF ok] show ?thesis unfolding d by blast
qed

lemma folding_keeps_shortest_route_witness:
  "deduplicateOperations [plain_endpoint ''A'' ''get'' ''/v1/items'', plain_endpoint ''A'' ''get'' ''/items'']
     = [plain_endpoint ''A'' ''get'' ''/items'']
   \<and> \<not> shorter ''/v1/items'' ''/items''"
proof -
  let ?es = "[plain_endpoint ''A'' ''get'' ''/v1/items'', plain_endpoint ''A'' ''get'' ''/items'']"
  have d: "deduplicateOperations ?es = [plain_endpoint ''A'' ''get'' ''/items'']" by code_simp
  have k: "operation_key_of (plain_endpoint ''A'' ''get'' ''/v1/items'') = Some (''A'', ''get'', ''GET'')"
    "operation_key_of (plain_endpoint ''A'' ''get'' ''/items'') = Some (''A'', ''get'', ''GET'')" by code_simp+
  from folding_keeps_shortest_route [of ?es] k have
    "\<not> shorter (ep_route (plain_endpoint ''A'' ''get'' ''/v1/items'')) (ep_route (plain_endpoint ''A'' ''get'' ''/items''))"
    unfolding d by auto
  with d show ?thesis by (simp add: plain_endpoint_def)
qed

end
