(* ===== verification/Tool.thy ===== *)
theory Tool
  imports Curation Naming
begin

text \<open>
  \<open>packages/http/core/src/tool-definition.ts\<close> and \<open>tool.ts\<close>: one endpoint becomes the definition an
  agent reads (its input and output schema) and the request template the composer enforces. Both
  resolve the same curation over the same shape; the theory \<open>Tool_Consistency\<close> shows when the two
  agree on the names of arguments.

  \<open>files\<close> is the host's optional description of \<open>ref\<close>; the naming of an undeclared tool is
  \<open>createToolName\<close> in its default mode.
\<close>

datatype build_error = Template_failed template_error | Catalog_failed catalog_error

definition lift_error :: "('e \<Rightarrow> 'f) \<Rightarrow> 'e + 'a \<Rightarrow> 'f + 'a" where
  "lift_error f m = (case m of Inl e \<Rightarrow> Inl (f e) | Inr x \<Rightarrow> Inr x)"

section \<open>The body's mode\<close>

datatype body_root_reason = Optional_body | Non_object | Unflattenable_root | Collision

definition bodyRootArgument :: string where
  "bodyRootArgument = ''body''"

definition flattenableKeys :: "string list" where
  "flattenableKeys = [''type'', ''properties'', ''required'', ''$defs'', ''additionalProperties'', ''description'']"

definition ignoredKeys :: "string list" where
  "ignoredKeys = [''title'', ''$schema'', ''$comment'', ''example'', ''examples'', ''default'',
     ''deprecated'', ''readOnly'', ''writeOnly'']"

definition harmless_key :: "string \<times> js \<Rightarrow> bool" where
  "harmless_key p = (snd p = JUndef \<or> fst p \<in> set flattenableKeys \<or> fst p \<in> set ignoredKeys
     \<or> prefix ''x-'' (fst p))"

definition unflattenableRootKey :: "js \<Rightarrow> string option" where
  "unflattenableRootKey body =
     (if js_items (js_get body ''type'') \<noteq> None then Some ''type''
      else map_option fst (List.find (\<lambda>p. \<not> harmless_key p) (js_entries body)))"

definition collidingBodyField :: "js \<Rightarrow> string list \<Rightarrow> string option" where
  "collidingBodyField body taken =
     List.find (\<lambda>n. n \<in> set taken) (map fst (js_entries (js_get body ''properties'')))"

definition bodyRootReasonOf :: "js \<Rightarrow> bool option \<Rightarrow> string list \<Rightarrow> body_root_reason option" where
  "bodyRootReasonOf body required parameterNames =
     (if body = JUndef then None
      else if required = Some False then Some Optional_body
      else if typeOf body \<notin> {None, Some ''object''} then Some Non_object
      else if unflattenableRootKey body \<noteq> None then Some Unflattenable_root
      else if js_get body ''properties'' = JUndef \<and> \<not> allowsAdditional body then Some Unflattenable_root
      else if collidingBodyField body parameterNames \<noteq> None then Some Collision
      else None)"

definition bodyRootOf :: "js \<Rightarrow> bool option \<Rightarrow> string list \<Rightarrow> string option" where
  "bodyRootOf body required parameterNames =
     (if bodyRootReasonOf body required parameterNames = None then None else Some bodyRootArgument)"

section \<open>What both halves read of an endpoint\<close>

definition body_schema :: "endpoint \<Rightarrow> js" where
  "body_schema e = (case ep_requestBody e of None \<Rightarrow> JUndef | Some b \<Rightarrow> rb_schema b)"

definition body_required :: "endpoint \<Rightarrow> bool option" where
  "body_required e = (case ep_requestBody e of None \<Rightarrow> None | Some b \<Rightarrow> rb_required b)"

definition body_content :: "endpoint \<Rightarrow> string option" where
  "body_content e = (case ep_requestBody e of None \<Rightarrow> None | Some b \<Rightarrow> rb_contentType b)"

definition parameter_names :: "endpoint \<Rightarrow> string list" where
  "parameter_names e = map dp_name (ep_parameters e)"

definition root_of :: "endpoint \<Rightarrow> string option" where
  "root_of e = bodyRootOf (body_schema e) (body_required e) (parameter_names e)"

definition flattened_of :: "endpoint \<Rightarrow> ((string \<times> js) list \<times> string list) option" where
  "flattened_of e = (if root_of e = None then flattenableBody (body_schema e) else None)"

definition field_schemas :: "endpoint \<Rightarrow> (string \<times> js) list" where
  "field_schemas e = (case flattened_of e of None \<Rightarrow> [] | Some f \<Rightarrow> fst f)"

definition required_fields :: "endpoint \<Rightarrow> string list" where
  "required_fields e = (case flattened_of e of None \<Rightarrow> [] | Some f \<Rightarrow> snd f)"

definition endpoint_shape :: "endpoint \<Rightarrow> curation_shape" where
  "endpoint_shape e = curationShapeOf (parameter_names e)
     (map dp_name (filter dp_required (ep_parameters e))) (map fst (field_schemas e)) (required_fields e)
     (root_of e) (body_required e \<noteq> Some False)"

definition endpoint_curation :: "endpoint \<Rightarrow> tool_variant option \<Rightarrow> string list option
    \<Rightarrow> template_error + resolved_curation" where
  "endpoint_curation e v relief = resolveCuration e v (endpoint_shape e) relief"

section \<open>Input schema\<close>

definition describe :: "js \<Rightarrow> string option \<Rightarrow> js" where
  "describe schema description = (case description of
     Some d \<Rightarrow> if trim d \<noteq> [] \<and> js_get schema ''description'' \<in> {JUndef, JNull}
                then JObj (obj_put ''description'' (JStr d) (js_entries schema)) else schema
   | None \<Rightarrow> schema)"

text \<open>The properties and the required names published so far.\<close>

type_synonym published = "(string \<times> js) list \<times> string list"

definition publish :: "resolved_curation \<Rightarrow> string \<Rightarrow> js \<Rightarrow> published \<Rightarrow> published" where
  "publish rc w schema s =
     (if isHidden rc w then s
      else (let described = (case map_of (rc_byWire rc) w of
               Some r \<Rightarrow> (case ra_description r of
                   Some d \<Rightarrow> JObj (obj_put ''description'' (JStr d) (js_entries schema)) | None \<Rightarrow> schema)
             | None \<Rightarrow> schema)
            in (obj_put (agentNameOf rc w) described (fst s), snd s)))"

definition require_name :: "resolved_curation \<Rightarrow> string \<Rightarrow> published \<Rightarrow> published" where
  "require_name rc w s = (if isHidden rc w then s else (fst s, set_add (agentNameOf rc w) (snd s)))"

definition publish_parameter :: "resolved_curation \<Rightarrow> published \<Rightarrow> descriptor_parameter \<Rightarrow> published" where
  "publish_parameter rc s p =
     (let s' = publish rc (dp_name p) (describe (dp_schema p) (dp_description p)) s
      in if dp_required p then require_name rc (dp_name p) s' else s')"

definition withFileArguments :: "js \<Rightarrow> string option \<Rightarrow> js" where
  "withFileArguments body files =
     (if js_get body ''properties'' = JUndef then body
      else JObj (AList.update ''properties''
        (JObj (fold (\<lambda>(n, s) m. obj_put n (publishFileSchema s n files) m)
          (js_entries (js_get body ''properties'')) [])) (js_entries body)))"

definition is_multipart :: "endpoint \<Rightarrow> bool" where
  "is_multipart e = (body_content e = Some multipartMediaType)"

definition is_binary :: "endpoint \<Rightarrow> bool" where
  "is_binary e = (case body_content e of None \<Rightarrow> False | Some c \<Rightarrow> isBinaryMediaType c)"

definition publish_root :: "resolved_curation \<Rightarrow> endpoint \<Rightarrow> string option \<Rightarrow> published \<Rightarrow> published" where
  "publish_root rc e files s = (case root_of e of
     None \<Rightarrow> s
   | Some root \<Rightarrow>
      (let body = body_schema e;
           s' = publish rc root (if is_multipart e then withFileArguments body files
                  else if is_binary e then publishFileSchema body root files else body) s
       in if body_required e \<noteq> Some False then require_name rc root s' else s'))"

definition publish_field :: "resolved_curation \<Rightarrow> endpoint \<Rightarrow> string option \<Rightarrow> published \<Rightarrow> string \<times> js \<Rightarrow> published" where
  "publish_field rc e files s f =
     publish rc (fst f) (if is_multipart e then publishFileSchema (snd f) (fst f) files else snd f) s"

definition require_field :: "resolved_curation \<Rightarrow> published \<Rightarrow> string \<Rightarrow> published" where
  "require_field rc s n =
     (if \<not> isHidden rc n \<and> map_of (fst s) (agentNameOf rc n) \<noteq> None then require_name rc n s else s)"

definition publish_all :: "resolved_curation \<Rightarrow> endpoint \<Rightarrow> string option \<Rightarrow> published" where
  "publish_all rc e files =
     (let s1 = foldl (publish_parameter rc) ([], []) (ep_parameters e);
          s2 = publish_root rc e files s1;
          s3 = foldl (publish_field rc e files) s2 (field_schemas e)
      in foldl (require_field rc) s3 (required_fields e))"

section \<open>Definitions lifted to the root\<close>

definition ordered_members :: "(string \<times> string) list \<Rightarrow> string list" where
  "ordered_members ms = map snd (sort_key fst ms)"

fun canonical :: "js \<Rightarrow> string" where
  "canonical (JArr vs) = ''['' @ join_with '','' (map canonical vs) @ '']''"
| "canonical (JObj kvs) = ''{'' @ join_with '',''
     (ordered_members (map (\<lambda>p. (fst p, json_quote (fst p) @ '':'' @ canonical (snd p))) kvs)) @ ''}''"
| "canonical JProto = ''{}''"
| "canonical v = (case json_text v of Some t \<Rightarrow> t | None \<Rightarrow> ''null'')"

type_synonym lifted = "(string \<times> js) list \<times> bool"

definition take_def :: "lifted \<Rightarrow> string \<times> js \<Rightarrow> template_error + lifted" where
  "take_def s d =
     (let existing = js_get (JObj (fst s)) (fst d)
      in if existing \<noteq> JUndef
         then (if canonical existing \<noteq> canonical (snd d) then Inl Schema_def_conflict else Inr s)
         else Inr (obj_put (fst d) (snd d) (fst s), True))"

text \<open>One property: its own bag is taken and removed, unless its \<open>$id\<close> makes it a resource.\<close>

definition lift_property :: "(string \<times> js) list \<times> lifted \<Rightarrow> string \<times> js
    \<Rightarrow> template_error + (string \<times> js) list \<times> lifted" where
  "lift_property s p = (case s of (done_props, l) \<Rightarrow>
     if js_get (snd p) ''$defs'' = JUndef \<or> js_get (snd p) ''$id'' \<noteq> JUndef
     then Inr (done_props @ [p], l)
     else res_map (\<lambda>l'. (done_props @ [(fst p, JObj (AList.delete ''$defs'' (js_entries (snd p))))], l'))
            (fold_res take_def l (js_entries (js_get (snd p) ''$defs''))))"

definition liftDefs :: "(string \<times> js) list \<Rightarrow> js
    \<Rightarrow> template_error + (string \<times> js) list \<times> (string \<times> js) list option" where
  "liftDefs properties seed =
     res_bind (fold_res take_def ([], False) (js_entries seed)) (\<lambda>l.
     res_map (\<lambda>(ps, l'). (ps, if snd l' then Some (sort_key fst (fst l')) else None))
       (fold_res lift_property ([], l) properties))"

definition buildInputSchema :: "endpoint \<Rightarrow> tool_variant option \<Rightarrow> string list option \<Rightarrow> string option
    \<Rightarrow> template_error + js" where
  "buildInputSchema e v relief files =
     res_bind (assertUniqueArgumentNames (parameter_names e)
       (case root_of e of Some root \<Rightarrow> [root] | None \<Rightarrow> map fst (field_schemas e))) (\<lambda>_.
     res_bind (endpoint_curation e v relief) (\<lambda>rc.
       let s = publish_all rc e files;
           body = body_schema e
       in res_map (\<lambda>(ps, defs). JObj ([(''type'', JStr ''object''), (''properties'', JObj ps),
              (''required'', JArr (map JStr (snd s))),
              (''additionalProperties'', if root_of e = None then additionalPropertiesOf body else JBool False)]
            @ (case defs of None \<Rightarrow> [] | Some ds \<Rightarrow> [(''$defs'', JObj ds)])))
          (liftDefs (fst s) (if root_of e = None then js_get body ''$defs'' else JUndef))))"

section \<open>Output schema and definition\<close>

definition success_status :: "string \<Rightarrow> bool" where
  "success_status s = (length s = 3 \<and> hd s = CHR ''2'' \<and> list_all isAsciiDigit (tl s))"

definition status_number :: "string \<Rightarrow> nat" where
  "status_number s = foldl (\<lambda>n c. 10 * n + (of_char c - 48)) 0 s"

definition primaryResponseOf :: "(string \<times> js) list \<Rightarrow> js" where
  "primaryResponseOf responses =
     (let successes = filter success_status (map fst responses);
          chosen = (case List.find (\<lambda>s. s \<in> set successes) [''200'', ''201'', ''202'', ''204''] of
              Some s \<Rightarrow> Some s
            | None \<Rightarrow> (case sort_key status_number successes of
                s # ss \<Rightarrow> Some s
              | [] \<Rightarrow> if map_of responses ''2XX'' = None then None else Some ''2XX''))
      in case chosen of None \<Rightarrow> JUndef
         | Some s \<Rightarrow> (case map_of responses s of Some schema \<Rightarrow> schema | None \<Rightarrow> JUndef))"

definition isObjectRoot :: "js \<Rightarrow> bool" where
  "isObjectRoot schema = (case js_get schema ''type'' of
     JStr t \<Rightarrow> t = ''object''
   | JArr ts \<Rightarrow> filter (\<lambda>t. t \<noteq> JStr ''null'') ts = [JStr ''object'']
   | _ \<Rightarrow> False)"

definition buildOutputSchema :: "endpoint \<Rightarrow> template_error + js" where
  "buildOutputSchema e = (case ep_responses e of
     None \<Rightarrow> Inr JUndef
   | Some responses \<Rightarrow>
      (let primary = primaryResponseOf responses
       in if primary = JUndef then Inr JUndef
          else if isObjectRoot primary then Inr primary
          else res_map (\<lambda>(ps, defs). JObj ([(''type'', JStr ''object''), (''properties'', JObj ps),
                 (''required'', JArr [JStr ''result''])]
               @ (case defs of None \<Rightarrow> [] | Some ds \<Rightarrow> [(''$defs'', JObj ds)])))
             (liftDefs [(''result'', primary)] JUndef)))"

record annotations =
  an_readOnly :: "bool option"
  an_destructive :: "bool option"
  an_idempotent :: "bool option"

definition annotate :: "string \<Rightarrow> annotations" where
  "annotate meth =
     (let m = to_upper meth; none = \<lparr>an_readOnly = None, an_destructive = None, an_idempotent = None\<rparr>
      in if m \<in> {''GET'', ''HEAD'', ''OPTIONS'', ''QUERY''}
         then none\<lparr>an_readOnly := Some True, an_idempotent := Some True\<rparr>
         else if m = ''POST'' then none\<lparr>an_destructive := Some False\<rparr>
         else if m = ''PUT'' \<or> m = ''DELETE'' then none\<lparr>an_destructive := Some True, an_idempotent := Some True\<rparr>
         else if m = ''PATCH'' then none\<lparr>an_destructive := Some True\<rparr>
         else none)"

record tool_definition =
  td_name :: string
  td_description :: string
  td_inputSchema :: js
  td_outputSchema :: js
  td_deprecated :: bool
  td_annotations :: annotations

definition tool_description :: "endpoint \<Rightarrow> tool_variant option \<Rightarrow> string" where
  "tool_description e v =
     (let declared = (case v of Some w \<Rightarrow> Some (tv_description w) | None \<Rightarrow> ep_description e)
      in case declared of
           Some d \<Rightarrow> if trim d = [] then ep_method e @ '' '' @ ep_route e else d
         | None \<Rightarrow> ep_method e @ '' '' @ ep_route e)"

definition tool_name_of :: "endpoint \<Rightarrow> string option \<Rightarrow> tool_variant option \<Rightarrow> catalog_error + string" where
  "tool_name_of e name v = (case name of
     Some n \<Rightarrow> Inr n
   | None \<Rightarrow> (case v of Some w \<Rightarrow> Inr (tv_name w) | None \<Rightarrow> createToolName e Always))"

definition createToolDefinition :: "endpoint \<Rightarrow> string option \<Rightarrow> tool_variant option \<Rightarrow> string list option
    \<Rightarrow> string option \<Rightarrow> build_error + tool_definition" where
  "createToolDefinition e name v relief files =
     res_bind (lift_error Template_failed (buildOutputSchema e)) (\<lambda>output.
     res_bind (lift_error Catalog_failed (tool_name_of e name v)) (\<lambda>n.
     res_map (\<lambda>input. \<lparr>td_name = n, td_description = tool_description e v, td_inputSchema = input,
         td_outputSchema = output, td_deprecated = ep_deprecated e, td_annotations = annotate (ep_method e)\<rparr>)
       (lift_error Template_failed (buildInputSchema e v relief files))))"

section \<open>Bindings\<close>

definition kindOf :: "string option \<Rightarrow> parameter_kind" where
  "kindOf t = (if t = Some ''integer'' then K_integer else if t = Some ''number'' then K_number
     else if t = Some ''boolean'' then K_boolean else K_string)"

definition query_scalar_type :: "string option \<Rightarrow> bool" where
  "query_scalar_type t = (t \<in> {Some ''string'', Some ''number'', Some ''integer'', Some ''boolean''})"

definition has_references :: "js \<Rightarrow> bool" where
  "has_references schema = (js_get schema ''$ref'' \<noteq> JUndef \<or> js_get schema ''$defs'' \<noteq> JUndef)"

definition scalar_type :: "js \<Rightarrow> string option" where
  "scalar_type schema = (if typeOf schema = Some ''array'' then typeOf (js_get schema ''items'') else typeOf schema)"

definition member_for :: "string \<Rightarrow> js \<Rightarrow> member_binding" where
  "member_for name schema = \<lparr>mb_name = name, mb_kind = kindOf (scalar_type schema),
     mb_isArray = (typeOf schema = Some ''array'')\<rparr>"

definition objectBindingFor :: "descriptor_parameter \<Rightarrow> string option \<Rightarrow> argument_fill option
    \<Rightarrow> template_error + parameter" where
  "objectBindingFor p argument fill =
     (if dp_style p \<noteq> Some DeepObject then Inl Unsupported_object_style
      else if dp_explode p = Some False then Inl Unsupported_object_style
      else if fill \<noteq> None then Inl Unsupported_object_style
      else res_map (\<lambda>ms. \<lparr>p_name = dp_name p, p_location = dp_in p, p_argument = argument, p_fill = None,
              p_shape = Object_shape (case dp_notation p of None \<Rightarrow> Bracket | Some n \<Rightarrow> n) ms\<rparr>)
             (traverse (\<lambda>(n, s). if \<not> query_scalar_type (scalar_type s) \<or> has_references s
                then Inl Unsupported_object_nesting else Inr (member_for n s))
               (js_entries (js_get (dp_schema p) ''properties''))))"

definition contentBindingFor :: "descriptor_parameter \<Rightarrow> content_media \<Rightarrow> string option \<Rightarrow> argument_fill option
    \<Rightarrow> template_error + parameter" where
  "contentBindingFor p media argument fill =
     (if dp_style p \<noteq> None \<or> dp_explode p \<noteq> None then Inl Unsupported_parameter_content
      else res_map (\<lambda>ms. \<lparr>p_name = dp_name p, p_location = dp_in p, p_argument = argument, p_fill = fill,
              p_shape = Content media (if ms = [] then None else Some ms)\<rparr>)
             (if media = Media_urlencoded
              then traverse (\<lambda>(n, s). if \<not> query_scalar_type (scalar_type s)
                     then Inl Unsupported_object_nesting else Inr (member_for n s))
                   (js_entries (js_get (dp_schema p) ''properties''))
              else Inr []))"

definition is_object_declaration :: "descriptor_parameter \<Rightarrow> bool" where
  "is_object_declaration p = (dp_style p = Some DeepObject \<or> typeOf (dp_schema p) = Some ''object'')"

definition binding_for :: "resolved_curation \<Rightarrow> descriptor_parameter \<Rightarrow> template_error + parameter" where
  "binding_for rc p =
     (let argument = argument_of rc (dp_name p); fill = fill_of rc (dp_name p)
      in case dp_contentType p of
           Some media \<Rightarrow> contentBindingFor p media argument fill
         | None \<Rightarrow>
            if is_object_declaration p then objectBindingFor p argument fill
            else (let isArray = (typeOf (dp_schema p) = Some ''array'')
                  in res_map (\<lambda>ser. \<lparr>p_name = dp_name p, p_location = dp_in p, p_argument = argument,
                         p_fill = fill, p_shape = Scalar (kindOf (scalar_type (dp_schema p))) isArray ser\<rparr>)
                       (serializationFor (dp_in p) (dp_style p) (dp_explode p) isArray (dp_allowReserved p))))"

text \<open>The wire names whose fill must produce a value, among the parameters.\<close>

definition required_fill :: "resolved_curation \<Rightarrow> descriptor_parameter \<Rightarrow> bool" where
  "required_fill rc p = (fill_of rc (dp_name p) \<noteq> None \<and> dp_required p
     \<and> (dp_contentType p \<noteq> None \<or> \<not> is_object_declaration p))"

definition isQueryScalar :: "js \<Rightarrow> bool" where
  "isQueryScalar schema = (query_scalar_type (typeOf schema) \<and> \<not> has_references schema)"

definition formMember :: "string \<times> js \<Rightarrow> template_error + member_binding" where
  "formMember m =
     (if isQueryScalar (if typeOf (snd m) = Some ''array'' then js_get (snd m) ''items'' else snd m)
      then Inr (member_for (fst m) (snd m)) else Inl Unsupported_body_shape)"

definition formFieldFor :: "string \<times> js \<Rightarrow> template_error + form_field" where
  "formFieldFor f = (case f of (name, schema) \<Rightarrow>
     if isFileSchema schema
     then Inr \<lparr>ff_name = name, ff_shape = F_file False (js_str (js_get schema ''contentMediaType''))\<rparr>
     else if isFileArraySchema schema
     then Inr \<lparr>ff_name = name,
       ff_shape = F_file True (js_str (js_get (js_get schema ''items'') ''contentMediaType''))\<rparr>
     else if isQueryScalar schema
     then Inr \<lparr>ff_name = name, ff_shape = F_scalar (kindOf (typeOf schema)) False\<rparr>
     else if typeOf schema = Some ''array'' \<and> isQueryScalar (js_get schema ''items'')
     then Inr \<lparr>ff_name = name, ff_shape = F_scalar (kindOf (typeOf (js_get schema ''items''))) True\<rparr>
     else if typeOf schema = Some ''object'' \<and> js_get schema ''$ref'' = JUndef
             \<and> js_get schema ''properties'' \<noteq> JUndef
     then res_map (\<lambda>ms. \<lparr>ff_name = name, ff_shape = F_object ms\<rparr>)
            (traverse formMember (js_entries (js_get schema ''properties'')))
     else Inl Unsupported_body_shape)"

definition formBindingFor :: "endpoint \<Rightarrow> (string \<times> js) list option \<Rightarrow> template_error + form_binding" where
  "formBindingFor e properties = (case properties of
     None \<Rightarrow> Inl Unsupported_body_shape
   | Some ps \<Rightarrow> res_map (\<lambda>fs. \<lparr>fb_notation = (case ep_requestBody e of
          Some b \<Rightarrow> (case rb_notation b of None \<Rightarrow> Bracket | Some n \<Rightarrow> n) | None \<Rightarrow> Bracket),
        fb_fields = fs\<rparr>) (traverse formFieldFor ps))"

section \<open>The template of an endpoint\<close>

definition is_form :: "endpoint \<Rightarrow> bool" where
  "is_form e = (case body_content e of None \<Rightarrow> False | Some c \<Rightarrow> isFormMediaType c)"

definition optional_form :: "endpoint \<Rightarrow> (string \<times> js) list option \<Rightarrow> template_error + form_binding option" where
  "optional_form e properties = (if is_form e then res_map Some (formBindingFor e properties) else Inr None)"

definition base_input :: "endpoint \<Rightarrow> string option \<Rightarrow> parameter list \<Rightarrow> template_input" where
  "base_input e files ps = \<lparr>i_method = ep_method e, i_route = ep_route e, i_parameters = ps,
     i_bodyProperties = None, i_additional = False, i_bodyRoot = None, i_aliases = [], i_fills = [],
     i_rootFill = None, i_requiredFills = [], i_contentType = body_content e, i_form = None,
     i_fileSources = Some (fileSourcesOf files), i_carriers = ep_carriers e,
     i_binaryBody = (is_binary e \<and> isFileSchema (body_schema e))\<rparr>"

definition root_input :: "resolved_curation \<Rightarrow> endpoint \<Rightarrow> string option \<Rightarrow> string \<Rightarrow> string list
    \<Rightarrow> parameter list \<Rightarrow> form_binding option \<Rightarrow> template_input" where
  "root_input rc e files root fills ps form =
     (base_input e files ps)\<lparr>i_bodyRoot := Some root, i_rootFill := fill_of rc root,
        i_requiredFills := (if fill_of rc root \<noteq> None \<and> body_required e \<noteq> Some False
                            then set_add root fills else fills),
        i_form := form\<rparr>"

definition field_aliases :: "resolved_curation \<Rightarrow> string list \<Rightarrow> (string \<times> string) list" where
  "field_aliases rc names = fold (\<lambda>f m. case argument_of rc f of Some a \<Rightarrow> AList.update a f m | None \<Rightarrow> m) names []"

definition field_fills :: "resolved_curation \<Rightarrow> string list \<Rightarrow> (string \<times> argument_fill) list" where
  "field_fills rc names = fold (\<lambda>f m. case fill_of rc f of Some x \<Rightarrow> AList.update f x m | None \<Rightarrow> m) names []"

definition flat_input :: "resolved_curation \<Rightarrow> endpoint \<Rightarrow> string option \<Rightarrow> string list
    \<Rightarrow> parameter list \<Rightarrow> form_binding option \<Rightarrow> template_input" where
  "flat_input rc e files fills ps form =
     (let names = map fst (field_schemas e)
      in (base_input e files ps)\<lparr>
        i_bodyProperties := map_option (\<lambda>f. map fst (fst f)) (flattened_of e),
        i_additional := allowsAdditional (body_schema e),
        i_aliases := field_aliases rc names, i_fills := field_fills rc names,
        i_requiredFills := js_set (fills @ filter (\<lambda>f. fill_of rc f \<noteq> None \<and> f \<in> set (required_fields e)) names),
        i_form := form\<rparr>)"

definition createRequestTemplateFromEndpoint :: "endpoint \<Rightarrow> tool_variant option \<Rightarrow> string list option
    \<Rightarrow> string option \<Rightarrow> template_error + request_template" where
  "createRequestTemplateFromEndpoint e v relief files =
     res_bind (endpoint_curation e v relief) (\<lambda>rc.
     res_bind (traverse (binding_for rc) (ep_parameters e)) (\<lambda>ps.
       let fills = js_set (map dp_name (filter (required_fill rc) (ep_parameters e)))
       in case root_of e of
            Some root \<Rightarrow>
              res_bind (optional_form e
                (if typeOf (body_schema e) = Some ''object'' \<and> js_get (body_schema e) ''properties'' \<noteq> JUndef
                 then Some (js_entries (js_get (body_schema e) ''properties'')) else None)) (\<lambda>form.
              createRequestTemplate (root_input rc e files root fills ps form))
          | None \<Rightarrow>
              res_bind (optional_form e (map_option fst (flattened_of e))) (\<lambda>form.
              createRequestTemplate (flat_input rc e files fills ps form))))"

definition createTool :: "endpoint \<Rightarrow> string option \<Rightarrow> tool_variant option \<Rightarrow> string list option
    \<Rightarrow> string option \<Rightarrow> build_error + tool_definition \<times> request_template" where
  "createTool e name v relief files =
     res_bind (createToolDefinition e name v relief files) (\<lambda>definition.
     res_map (\<lambda>template. (definition, template))
       (lift_error Template_failed (createRequestTemplateFromEndpoint e v relief files)))"

end
