(* ===== verification/Tool_Consistency.thy ===== *)
theory Tool_Consistency
  imports Tool Request_Composer
begin

text \<open>
  The two halves of a tool agree. The names published in the input schema are the names the composer
  accepts, \<open>additionalProperties\<close> is closed exactly when the template is, and every required name is
  published. Two declarations break the agreement, and both are shown: a record that renames the
  argument of the whole body, and one that hides and renames at once.
\<close>

section \<open>What a resolved curation satisfies\<close>

lemma set_update_subset: "set (AList.update k v m) \<subseteq> insert (k, v) (set m)"
  by (induction m) auto

lemma declarations_subset:
  assumes "declarations e v = Inr rs"
  shows "set rs \<subseteq> set (ep_arguments e @ variant_arguments v)"
proof -
  let ?A = "set (ep_arguments e @ variant_arguments v)"
  from assms obtain m m' o' where m: "fold_res declare_record [] (ep_arguments e) = Inr m"
    and m': "fold_res override_record (m, []) (variant_arguments v) = Inr (m', o')"
    and rs: "rs = map snd m'"
    unfolding declarations_def res_bind_Inr_iff res_map_Inr_iff by fastforce
  have "snd ` set m \<subseteq> ?A"
    by (rule fold_res_invariant [OF m])
      (fastforce simp: declare_record_def split: if_splits dest: set_update_subset [THEN subsetD])+
  then have "snd ` set (fst (m', o')) \<subseteq> ?A"
    by (intro fold_res_invariant [OF m', where P = "\<lambda>s. snd ` set (fst s) \<subseteq> ?A"])
      (fastforce simp: override_record_def split: if_splits prod.splits dest: set_update_subset [THEN subsetD])+
  with rs show ?thesis by simp
qed

text \<open>Records that the two halves read alike.\<close>

definition plain_record :: "string option \<Rightarrow> argument_curation \<Rightarrow> bool" where
  "plain_record root c = ((ac_as c = None \<or> ac_hidden c = None)
     \<and> (root = Some (ac_name c) \<longrightarrow> ac_as c = None) \<and> ac_as c \<noteq> Some proto_key)"

lemma isHidden_fill: "isHidden rc w \<longleftrightarrow> fill_of rc w \<noteq> None"
  by (simp add: isHidden_def fill_of_def split: option.splits)

lemma curation_plain:
  assumes "endpoint_curation e v relief = Inr rc"
    and "\<forall>c \<in> set (ep_arguments e @ variant_arguments v). plain_record (root_of e) c"
  shows "argument_of rc w = Some a \<Longrightarrow> fill_of rc w = None \<and> root_of e \<noteq> Some w \<and> a \<noteq> proto_key"
    and "distinct (map (agentNameOf rc) (filter (\<lambda>w. \<not> isHidden rc w) (shape_names (endpoint_shape e))))
       \<or> (\<forall>w. argument_of rc w = None \<and> fill_of rc w = None)"
proof -
  from resolveCuration_byWire [OF assms(1) [unfolded endpoint_curation_def]] obtain rs
    where d: "declarations e v = Inr rs" and b: "byWire_ok (endpoint_shape e) rs rc"
      and u: "distinct (map (agentNameOf rc) (filter (\<lambda>w. \<not> isHidden rc w) (shape_names (endpoint_shape e)))) \<or> rs = []"
    by blast
  have p: "plain_record (root_of e) c" if "c \<in> set rs" for c
    using assms(2) declarations_subset [OF d] that by blast
  show "fill_of rc w = None \<and> root_of e \<noteq> Some w \<and> a \<noteq> proto_key" if a: "argument_of rc w = Some a"
  proof -
    from a obtain r where r: "map_of (rc_byWire rc) w = Some r" "ra_argument r = Some a"
      by (auto simp: argument_of_def split: option.splits)
    with b obtain c slot req where c: "c \<in> set rs" "ac_name c = w" "r = resolved_of c slot req"
      unfolding byWire_ok_def by blast
    with r p [OF c(1)] show ?thesis
      by (auto simp: plain_record_def resolved_of_def fill_of_def split: if_splits)
  qed
  show "distinct (map (agentNameOf rc) (filter (\<lambda>w. \<not> isHidden rc w) (shape_names (endpoint_shape e))))
       \<or> (\<forall>w. argument_of rc w = None \<and> fill_of rc w = None)"
  proof (cases "rs = []")
    case True
    with b have "map_of (rc_byWire rc) w = None" for w
      unfolding byWire_ok_def by (cases "map_of (rc_byWire rc) w") auto
    then show ?thesis by (simp add: argument_of_def fill_of_def)
  next
    case False
    with u show ?thesis by blast
  qed
qed

section \<open>What is published\<close>

lemma map_of_not_None: "map_of m k \<noteq> None \<longleftrightarrow> k \<in> fst ` set m"
  by (induction m) auto

lemma fst_set_obj_put: "k \<noteq> proto_key \<Longrightarrow> fst ` set (obj_put k v m) = insert k (fst ` set m)"
  by (simp add: obj_put_def dom_map_of_conv_image_fst [symmetric])

text \<open>A step of publication turns the names of \<open>ws\<close> into their agent names, hidden ones left out.\<close>

definition agent_names :: "resolved_curation \<Rightarrow> string list \<Rightarrow> string set" where
  "agent_names rc ws = agentNameOf rc ` {w \<in> set ws. \<not> isHidden rc w}"

lemma agent_names_simps [simp]:
  "agent_names rc [] = {}"
  "agent_names rc (w # ws) = (if isHidden rc w then agent_names rc ws
     else insert (agentNameOf rc w) (agent_names rc ws))"
  "agent_names rc (us @ ws) = agent_names rc us \<union> agent_names rc ws"
  by (auto simp: agent_names_def)

lemma keys_publish:
  assumes "agentNameOf rc w \<noteq> proto_key"
  shows "fst ` set (fst (publish rc w schema s)) = fst ` set (fst s) \<union> agent_names rc [w]"
  using assms by (simp add: publish_def Let_def fst_set_obj_put)

lemma keys_require [simp]: "fst (require_name rc w s) = fst s"
  by (simp add: require_name_def)

lemma required_publish [simp]: "snd (publish rc w schema s) = snd s"
  by (simp add: publish_def Let_def)

lemma required_require: "set (snd (require_name rc w s)) = set (snd s) \<union> agent_names rc [w]"
  by (auto simp: require_name_def)

lemma fold_parameters:
  assumes "\<forall>p \<in> set ps. agentNameOf rc (dp_name p) \<noteq> proto_key"
  shows "fst ` set (fst (foldl (publish_parameter rc) s ps)) = fst ` set (fst s) \<union> agent_names rc (map dp_name ps)"
    and "set (snd (foldl (publish_parameter rc) s ps))
       = set (snd s) \<union> agent_names rc (map dp_name (filter dp_required ps))"
  using assms
  by (induction ps arbitrary: s)
    (auto simp: publish_parameter_def Let_def keys_publish required_require)

lemma fold_fields:
  assumes "\<forall>f \<in> set fs. agentNameOf rc (fst f) \<noteq> proto_key"
  shows "fst ` set (fst (foldl (publish_field rc e files) s fs)) = fst ` set (fst s) \<union> agent_names rc (map fst fs)"
    and "snd (foldl (publish_field rc e files) s fs) = snd s"
  using assms by (induction fs arbitrary: s) (auto simp: publish_field_def keys_publish)

lemma require_field_alt:
  "require_field rc s n =
     (if \<not> isHidden rc n \<and> agentNameOf rc n \<in> fst ` set (fst s) then require_name rc n s else s)"
  unfolding require_field_def map_of_not_None ..

lemma fold_require_fields:
  "fst (foldl (require_field rc) s ns) = fst s"
  "set (snd (foldl (require_field rc) s ns))
     = set (snd s) \<union> agent_names rc (filter (\<lambda>n. agentNameOf rc n \<in> fst ` set (fst s)) ns)"
  by (induction ns arbitrary: s) (auto simp: require_field_alt required_require)

definition wire_names :: "endpoint \<Rightarrow> string list" where
  "wire_names e = shape_names (endpoint_shape e)"

lemma wire_names_eq:
  "wire_names e = parameter_names e @ (case root_of e of None \<Rightarrow> map fst (field_schemas e) | Some root \<Rightarrow> [root])"
  by (simp add: wire_names_def shape_names_def endpoint_shape_def curationShapeOf_def split: option.splits)

definition no_proto :: "resolved_curation \<Rightarrow> endpoint \<Rightarrow> bool" where
  "no_proto rc e = (\<forall>w \<in> set (wire_names e). agentNameOf rc w \<noteq> proto_key)"

lemma field_schemas_root: "root_of e = Some root \<Longrightarrow> field_schemas e = []"
  "root_of e = Some root \<Longrightarrow> required_fields e = []"
  by (simp_all add: field_schemas_def required_fields_def flattened_of_def)

text \<open>The names that must be present: declared required, published.\<close>

definition required_wire :: "endpoint \<Rightarrow> string list" where
  "required_wire e = map dp_name (filter dp_required (ep_parameters e))
     @ (case root_of e of None \<Rightarrow> [] | Some root \<Rightarrow> if body_required e \<noteq> Some False then [root] else [])"

lemma publish_all_names:
  assumes "no_proto rc e"
  shows "fst ` set (fst (publish_all rc e files)) = agent_names rc (wire_names e)"
    and "set (snd (publish_all rc e files)) = agent_names rc (required_wire e)
       \<union> agent_names rc (filter (\<lambda>n. agentNameOf rc n \<in> agent_names rc (wire_names e)) (required_fields e))"
proof -
  let ?s1 = "foldl (publish_parameter rc) ([], []) (ep_parameters e)"
  let ?s2 = "publish_root rc e files ?s1"
  let ?s3 = "foldl (publish_field rc e files) ?s2 (field_schemas e)"
  have ps: "\<forall>p \<in> set (ep_parameters e). agentNameOf rc (dp_name p) \<noteq> proto_key"
    using assms by (simp add: no_proto_def wire_names_eq parameter_names_def)
  have fs: "\<forall>f \<in> set (field_schemas e). agentNameOf rc (fst f) \<noteq> proto_key"
    using assms by (cases "root_of e") (auto simp: no_proto_def wire_names_eq field_schemas_root)
  have r: "agentNameOf rc root \<noteq> proto_key" if "root_of e = Some root" for root
    using assms that by (simp add: no_proto_def wire_names_eq)
  note s1 = fold_parameters [OF ps, of "([], [])"]
  have k2: "fst ` set (fst ?s2) = agent_names rc (parameter_names e @ (case root_of e of None \<Rightarrow> [] | Some root \<Rightarrow> [root]))"
    using s1 r by (auto simp: publish_root_def Let_def keys_publish parameter_names_def split: option.splits)
  have r2: "set (snd ?s2) = agent_names rc (required_wire e)"
    using s1 r by (auto simp: publish_root_def Let_def required_require required_wire_def split: option.splits)
  have k3: "fst ` set (fst ?s3) = agent_names rc (wire_names e)"
    using fold_fields(1) [OF fs, of e files ?s2] k2
    by (cases "root_of e") (auto simp: wire_names_eq field_schemas_root)
  have r3: "snd ?s3 = snd ?s2" using fold_fields(2) [OF fs] by blast
  show "fst ` set (fst (publish_all rc e files)) = agent_names rc (wire_names e)"
    using k3 by (simp add: publish_all_def Let_def fold_require_fields(1))
  show "set (snd (publish_all rc e files)) = agent_names rc (required_wire e)
       \<union> agent_names rc (filter (\<lambda>n. agentNameOf rc n \<in> agent_names rc (wire_names e)) (required_fields e))"
    unfolding publish_all_def Let_def fold_require_fields(2) k3 r3 r2 by simp
qed

text \<open>Lifting definitions keeps the names of the properties.\<close>

lemma lift_properties_names:
  "fold_res lift_property s ps = Inr s' \<Longrightarrow> map fst (fst s') = map fst (fst s) @ map fst ps"
proof (induction ps arbitrary: s)
  case Nil
  then show ?case by simp
next
  case (Cons p ps)
  then obtain s1 where s1: "lift_property s p = Inr s1" and rest: "fold_res lift_property s1 ps = Inr s'"
    by (auto simp: res_bind_Inr_iff)
  from s1 have "map fst (fst s1) = map fst (fst s) @ [fst p]"
    by (auto simp: lift_property_def res_map_Inr_iff split: if_splits prod.splits)
  with Cons.IH [OF rest] show ?case by simp
qed

lemma liftDefs_names: "liftDefs ps seed = Inr (ps', defs) \<Longrightarrow> map fst ps' = map fst ps"
  by (auto simp: liftDefs_def res_bind_Inr_iff res_map_Inr_iff dest: lift_properties_names)

lemma buildInputSchema_Inr:
  assumes "buildInputSchema e v relief files = Inr input"
  obtains rc ps tail where "endpoint_curation e v relief = Inr rc"
    and "distinct (wire_names e)"
    and "map fst ps = map fst (fst (publish_all rc e files))"
    and "input = JObj ([(''type'', JStr ''object''), (''properties'', JObj ps),
        (''required'', JArr (map JStr (snd (publish_all rc e files)))),
        (''additionalProperties'', if root_of e = None then additionalPropertiesOf (body_schema e) else JBool False)] @ tail)"
proof -
  from assms obtain names rc ps defs where n: "assertUniqueArgumentNames (parameter_names e)
       (case root_of e of Some root \<Rightarrow> [root] | None \<Rightarrow> map fst (field_schemas e)) = Inr names"
    and rc: "endpoint_curation e v relief = Inr rc"
    and l: "liftDefs (fst (publish_all rc e files)) (if root_of e = None then js_get (body_schema e) ''$defs'' else JUndef)
        = Inr (ps, defs)"
    and i: "input = JObj ([(''type'', JStr ''object''), (''properties'', JObj ps),
        (''required'', JArr (map JStr (snd (publish_all rc e files)))),
        (''additionalProperties'', if root_of e = None then additionalPropertiesOf (body_schema e) else JBool False)]
        @ (case defs of None \<Rightarrow> [] | Some ds \<Rightarrow> [(''$defs'', JObj ds)]))"
    unfolding buildInputSchema_def Let_def res_bind_Inr_iff res_map_Inr_iff by fastforce
  from n have "distinct (wire_names e)"
    by (auto simp: assertUnique_Inr_iff wire_names_eq split: option.splits)
  with rc liftDefs_names [OF l] i show ?thesis using that by blast
qed

section \<open>What is accepted\<close>

lemma binding_for_Inr:
  assumes "binding_for rc p = Inr q"
  shows "p_name q = dp_name p" and "p_location q = dp_in p"
    and "p_argument q = argument_of rc (dp_name p)" and "p_fill q = fill_of rc (dp_name p)"
  using assms
  by (auto simp: binding_for_def Let_def contentBindingFor_def objectBindingFor_def res_map_Inr_iff
      split: option.splits if_splits)

lemma bindings_visible:
  assumes "list_all2 (\<lambda>p q. binding_for rc p = Inr q) dps ps"
  shows "set (visible ps) = agent_names rc (map dp_name dps)"
  using assms
proof (induction rule: list_all2_induct)
  case Nil
  show ?case by simp
next
  case (Cons p dps q ps)
  note b = binding_for_Inr [OF Cons(1)]
  have "agent_name q = agentNameOf rc (dp_name p)" 
    by (simp add: agent_name_def agentNameOf_def b split: option.splits)
  with Cons.IH b(4) show ?case by (simp add: isHidden_fill)
qed

lemma fold_alias_updates:
  assumes "distinct (List.map_filter g fs)" and "set (List.map_filter g fs) \<inter> fst ` set m = {}"
  shows "fold (\<lambda>f m. case g f of Some a \<Rightarrow> AList.update a f m | None \<Rightarrow> m) fs m
    = m @ List.map_filter (\<lambda>f. map_option (\<lambda>a. (a, f)) (g f)) fs"
  using assms
proof (induction fs arbitrary: m)
  case Nil
  then show ?case by (simp add: map_filter_simps)
next
  case (Cons f fs)
  show ?case
  proof (cases "g f")
    case None
    with Cons show ?thesis by (simp add: map_filter_simps)
  next
    case (Some a)
    with Cons.prems have "map_of m a = None" by (simp add: map_filter_simps map_of_eq_None_iff)
    then have u: "AList.update a f m = m @ [(a, f)]" by (rule update_fresh)
    from Some Cons.prems have d: "distinct (List.map_filter g fs)"
      "set (List.map_filter g fs) \<inter> fst ` set (m @ [(a, f)]) = {}"
      by (auto simp: map_filter_simps)
    from Cons.IH [OF d] Some u show ?thesis by (simp add: map_filter_simps)
  qed
qed

lemma fold_fills:
  "map_of (fold (\<lambda>f m. case g f of Some x \<Rightarrow> AList.update f x m | None \<Rightarrow> m) fs m) k
     = (if k \<in> set fs \<and> g k \<noteq> None then g k else map_of m k)"
  by (induction fs arbitrary: m) (auto split: option.splits)

lemma field_fills_of: "f \<in> set names \<Longrightarrow> map_of (field_fills rc names) f = fill_of rc f"
  unfolding field_fills_def fold_fills by auto

lemma map_filter_agent_names:
  assumes "distinct (map (agentNameOf rc) (filter (\<lambda>w. \<not> isHidden rc w) ws))"
    and "\<And>w a. argument_of rc w = Some a \<Longrightarrow> fill_of rc w = None"
  shows "distinct (List.map_filter (argument_of rc) ws)"
    and "set (List.map_filter (argument_of rc) ws) \<subseteq> agentNameOf rc ` {w \<in> set ws. \<not> isHidden rc w}"
proof -
  have "set (List.map_filter (argument_of rc) ws) \<subseteq> agentNameOf rc ` {w \<in> set ws. \<not> isHidden rc w}
    \<and> distinct (List.map_filter (argument_of rc) ws)"
    using assms(1)
  proof (induction ws)
    case Nil
    then show ?case by (simp add: map_filter_simps)
  next
    case (Cons w ws)
    show ?case
    proof (cases "argument_of rc w")
      case None
      with Cons show ?thesis by (auto simp: map_filter_simps split: if_splits)
    next
      case (Some a)
      with assms(2) have h: "\<not> isHidden rc w" and a: "agentNameOf rc w = a"
        by (auto simp: isHidden_fill agentNameOf_def)
      from Cons h a have "a \<notin> agentNameOf rc ` {w \<in> set ws. \<not> isHidden rc w}" by auto
      with Cons Some h a show ?thesis by (auto simp: map_filter_simps)
    qed
  qed
  then show "distinct (List.map_filter (argument_of rc) ws)"
    and "set (List.map_filter (argument_of rc) ws) \<subseteq> agentNameOf rc ` {w \<in> set ws. \<not> isHidden rc w}"
    by auto
qed

lemma set_map_filter_iff: "y \<in> set (List.map_filter f xs) \<longleftrightarrow> (\<exists>x \<in> set xs. f x = Some y)"
  by (induction xs) (auto simp: map_filter_simps split: option.splits)

text \<open>The body's share of the accepted names, when the fields are lifted.\<close>

lemma lifted_names:
  assumes "distinct (List.map_filter (argument_of rc) fs)"
    and "\<And>w a. argument_of rc w = Some a \<Longrightarrow> fill_of rc w = None"
  shows "fst ` set (field_aliases rc fs)
      \<union> {f \<in> set fs. map_of (field_fills rc fs) f = None \<and> f \<notin> snd ` set (field_aliases rc fs)}
    = agent_names rc fs"
proof -
  have al: "field_aliases rc fs = List.map_filter (\<lambda>f. map_option (\<lambda>a. (a, f)) (argument_of rc f)) fs"
    unfolding field_aliases_def using fold_alias_updates [OF assms(1), of "[]"] by simp
  have in_al: "(a, f) \<in> set (field_aliases rc fs) \<longleftrightarrow> f \<in> set fs \<and> argument_of rc f = Some a" for a f
    unfolding al set_map_filter_iff by auto
  have 1: "fst ` set (field_aliases rc fs) = {a. \<exists>f \<in> set fs. argument_of rc f = Some a}"
  proof (intro set_eqI iffI)
    fix a assume "a \<in> fst ` set (field_aliases rc fs)"
    then obtain f where "(a, f) \<in> set (field_aliases rc fs)" by auto
    then show "a \<in> {a. \<exists>f \<in> set fs. argument_of rc f = Some a}" unfolding in_al by blast
  next
    fix a assume "a \<in> {a. \<exists>f \<in> set fs. argument_of rc f = Some a}"
    then obtain f where "(a, f) \<in> set (field_aliases rc fs)" unfolding in_al by blast
    then show "a \<in> fst ` set (field_aliases rc fs)" by (rule image_eqI [rotated]) simp
  qed
  have 2: "f \<in> snd ` set (field_aliases rc fs) \<longleftrightarrow> f \<in> set fs \<and> argument_of rc f \<noteq> None" for f
  proof
    assume "f \<in> snd ` set (field_aliases rc fs)"
    then obtain a where "(a, f) \<in> set (field_aliases rc fs)" by auto
    then show "f \<in> set fs \<and> argument_of rc f \<noteq> None" unfolding in_al by simp
  next
    assume "f \<in> set fs \<and> argument_of rc f \<noteq> None"
    then obtain a where "(a, f) \<in> set (field_aliases rc fs)" unfolding in_al by blast
    then show "f \<in> snd ` set (field_aliases rc fs)" by (rule image_eqI [rotated]) simp
  qed
  have 3: "x \<in> agent_names rc fs \<longleftrightarrow> (\<exists>f \<in> set fs. argument_of rc f = Some x)
      \<or> (x \<in> set fs \<and> fill_of rc x = None \<and> argument_of rc x = None)" for x
  proof
    assume "x \<in> agent_names rc fs"
    then obtain f where f: "f \<in> set fs" "fill_of rc f = None" "x = agentNameOf rc f"
      by (auto simp: agent_names_def isHidden_fill)
    then show "(\<exists>f \<in> set fs. argument_of rc f = Some x)
      \<or> (x \<in> set fs \<and> fill_of rc x = None \<and> argument_of rc x = None)"
      by (cases "argument_of rc f") (auto simp: agentNameOf_def)
  next
    assume "(\<exists>f \<in> set fs. argument_of rc f = Some x)
      \<or> (x \<in> set fs \<and> fill_of rc x = None \<and> argument_of rc x = None)"
    then obtain f where "f \<in> set fs" "x = agentNameOf rc f" "fill_of rc f = None"
    proof (elim disjE bexE conjE)
      fix f assume "f \<in> set fs" and a: "argument_of rc f = Some x"
      then show thesis using that [of f] assms(2) [OF a] by (simp add: agentNameOf_def)
    next
      assume "x \<in> set fs" "fill_of rc x = None" "argument_of rc x = None"
      then show thesis using that [of x] by (simp add: agentNameOf_def)
    qed
    then show "x \<in> agent_names rc fs" by (auto simp: agent_names_def isHidden_fill)
  qed
  show ?thesis
  proof (rule set_eqI)
    fix x
    show "x \<in> fst ` set (field_aliases rc fs)
      \<union> {f \<in> set fs. map_of (field_fills rc fs) f = None \<and> f \<notin> snd ` set (field_aliases rc fs)}
      \<longleftrightarrow> x \<in> agent_names rc fs"
      unfolding Un_iff 1 mem_Collect_eq 2 3 using field_fills_of [of x fs rc] by auto
  qed
qed

lemma createTool_Inr:
  assumes "createTool e n v relief files = Inr (d, t)"
  shows "buildInputSchema e v relief files = Inr (td_inputSchema d)"
    and "createRequestTemplateFromEndpoint e v relief files = Inr t"
  using assms
  by (auto simp: createTool_def createToolDefinition_def lift_error_def res_bind_Inr_iff res_map_Inr_iff
      split: sum.splits)

lemma template_parts:
  assumes "createRequestTemplateFromEndpoint e v relief files = Inr t"
    and "endpoint_curation e v relief = Inr rc"
  obtains ps where "list_all2 (\<lambda>p q. binding_for rc p = Inr q) (ep_parameters e) ps"
    and "t_parameters t = ps"
    and "t_fills t = (if root_of e = None then field_fills rc (map fst (field_schemas e)) else [])"
    and "t_aliases t = (if root_of e = None then field_aliases rc (map fst (field_schemas e)) else [])"
    and "t_bodyRoot t = root_of e"
    and "t_rootFill t = (if root_of e = None then None else fill_of rc (the (root_of e)))"
    and "t_bodyProperties t = (if root_of e = None then map fst (field_schemas e) else [])"
    and "t_additional t = (root_of e = None \<and> allowsAdditional (body_schema e))"
proof -
  let ?fills = "js_set (map dp_name (filter (required_fill rc) (ep_parameters e)))"
  from assms obtain ps form where ps: "list_all2 (\<lambda>p q. binding_for rc p = Inr q) (ep_parameters e) ps"
    and c: "createRequestTemplate (case root_of e of
        Some root \<Rightarrow> root_input rc e files root ?fills ps form
      | None \<Rightarrow> flat_input rc e files ?fills ps form) = Inr t"
    unfolding createRequestTemplateFromEndpoint_def Let_def res_bind_Inr_iff traverse_Inr_iff
    by (cases "root_of e") (auto simp: res_bind_Inr_iff)
  note t = createRequestTemplate_Inr(10) [OF c]
  show ?thesis
  proof (rule that [OF ps])
    show "t_parameters t = ps" "t_bodyRoot t = root_of e"
      "t_fills t = (if root_of e = None then field_fills rc (map fst (field_schemas e)) else [])"
      "t_aliases t = (if root_of e = None then field_aliases rc (map fst (field_schemas e)) else [])"
      "t_rootFill t = (if root_of e = None then None else fill_of rc (the (root_of e)))"
      "t_bodyProperties t = (if root_of e = None then map fst (field_schemas e) else [])"
      "t_additional t = (root_of e = None \<and> allowsAdditional (body_schema e))"
      using t by (cases "root_of e"; simp add: root_input_def flat_input_def Let_def base_input_def
          body_names_def field_schemas_def split: option.splits)+
  qed
qed

text \<open>The names a template accepts, read off the endpoint.\<close>

lemma accepted_names:
  assumes t: "createRequestTemplateFromEndpoint e v relief files = Inr t"
    and rc: "endpoint_curation e v relief = Inr rc"
    and plain: "\<forall>c \<in> set (ep_arguments e @ variant_arguments v). plain_record (root_of e) c"
  shows "set (allowedArgumentNames t) = agent_names rc (wire_names e)"
    and "t_additional t = (root_of e = None \<and> allowsAdditional (body_schema e))"
proof -
  note pl = curation_plain [OF rc plain]
  from template_parts [OF t rc] obtain ps where
    ps: "list_all2 (\<lambda>p q. binding_for rc p = Inr q) (ep_parameters e) ps" and tp: "t_parameters t = ps"
    "t_fills t = (if root_of e = None then field_fills rc (map fst (field_schemas e)) else [])"
    "t_aliases t = (if root_of e = None then field_aliases rc (map fst (field_schemas e)) else [])"
    "t_bodyRoot t = root_of e" "t_rootFill t = (if root_of e = None then None else fill_of rc (the (root_of e)))"
    "t_bodyProperties t = (if root_of e = None then map fst (field_schemas e) else [])"
    "t_additional t = (root_of e = None \<and> allowsAdditional (body_schema e))" by blast
  have vis: "set (map agent_name (filter (\<lambda>p. p_fill p = None) ps)) = agent_names rc (parameter_names e)"
    using bindings_visible [OF ps] by (simp add: visible_def parameter_names_def)
  have "set (allowedArgumentNames t) = agent_names rc (wire_names e)
    \<and> t_additional t = (root_of e = None \<and> allowsAdditional (body_schema e))"
  proof (cases "root_of e")
    case (Some root)
    have t: "t_parameters t = ps" "t_aliases t = []" "t_bodyProperties t = []" "t_bodyRoot t = Some root"
      "t_rootFill t = fill_of rc root" "\<not> t_additional t"
      by (simp_all add: tp Some)
    have "agentNameOf rc root = root"
      using pl(1) [of root] Some by (auto simp: agentNameOf_def split: option.splits)
    then have "agent_names rc [root] = (if fill_of rc root = None then {root} else {})"
      by (simp add: isHidden_fill)
    with t vis Some show ?thesis
      by (auto simp: allowedArgumentNames_def wire_names_eq)
  next
    case None
    have t: "t_parameters t = ps" "t_aliases t = field_aliases rc (map fst (field_schemas e))"
      "t_fills t = field_fills rc (map fst (field_schemas e))" "t_bodyRoot t = None"
      "t_bodyProperties t = map fst (field_schemas e)" "t_additional t = allowsAdditional (body_schema e)"
      by (simp_all add: tp None)
    have d: "distinct (List.map_filter (argument_of rc) (map fst (field_schemas e)))"
    proof -
      from pl(2) consider
          "distinct (map (agentNameOf rc) (filter (\<lambda>w. \<not> isHidden rc w) (map fst (field_schemas e))))"
        | "\<forall>w. argument_of rc w = None"
        using None by (auto simp: wire_names_def [symmetric] wire_names_eq)
      then show ?thesis
      proof cases
        case 1
        then show ?thesis using map_filter_agent_names(1) pl(1) by blast
      next
        case 2
        then have "List.map_filter (argument_of rc) ws = []" for ws
          by (induction ws) (auto simp: map_filter_simps)
        then show ?thesis by simp
      qed
    qed
    have b: "fst ` set (t_aliases t) \<union> {f \<in> set (t_bodyProperties t). map_of (t_fills t) f = None
        \<and> f \<notin> snd ` set (t_aliases t)} = agent_names rc (map fst (field_schemas e))"
      unfolding t using pl(1) by (intro lifted_names [OF d]) blast
    have "set (allowedArgumentNames t) = agent_names rc (parameter_names e)
        \<union> (fst ` set (t_aliases t) \<union> {f \<in> set (t_bodyProperties t). map_of (t_fills t) f = None
        \<and> f \<notin> snd ` set (t_aliases t)})"
      using vis unfolding allowedArgumentNames_def t(1,4) by auto
    with b t None show ?thesis by (simp add: wire_names_eq)
  qed
  then show "set (allowedArgumentNames t) = agent_names rc (wire_names e)"
    "t_additional t = (root_of e = None \<and> allowsAdditional (body_schema e))" by blast+
qed

lemma bindings_denied:
  assumes "list_all2 (\<lambda>p q. binding_for rc p = Inr q) dps ps" and "w \<in> set (map dp_name dps)"
    and "fill_of rc w \<noteq> None"
  shows "w \<in> set (map p_name (filter (\<lambda>p. p_fill p \<noteq> None \<or> p_argument p \<noteq> None) ps))"
  using assms(1,2)
proof (induction rule: list_all2_induct)
  case Nil
  then show ?case by simp
next
  case (Cons p dps q ps)
  note b = binding_for_Inr(1,4) [OF Cons(1)]
  show ?case
  proof (cases "dp_name p = w")
    case True
    with b assms(3) have "p_name q = w" "p_fill q \<noteq> None" by simp_all
    then show ?thesis by simp
  next
    case False
    with Cons show ?thesis by auto
  qed
qed

lemma hidden_denied:
  assumes "createRequestTemplateFromEndpoint e v relief files = Inr t"
    and "endpoint_curation e v relief = Inr rc" and "w \<in> set (wire_names e)" and "isHidden rc w"
  shows "w \<in> set (deniedArgumentNames t)"
proof -
  from assms(4) have f: "fill_of rc w \<noteq> None" by (simp add: isHidden_fill)
  from template_parts [OF assms(1,2)] obtain ps where
    ps: "list_all2 (\<lambda>p q. binding_for rc p = Inr q) (ep_parameters e) ps" and t: "t_parameters t = ps"
      "t_fills t = (if root_of e = None then field_fills rc (map fst (field_schemas e)) else [])"
      "t_bodyRoot t = root_of e" "t_rootFill t = (if root_of e = None then None else fill_of rc (the (root_of e)))"
    by blast
  from assms(3) consider "w \<in> set (parameter_names e)" | "root_of e = None" "w \<in> set (map fst (field_schemas e))"
    | "root_of e = Some w" by (cases "root_of e") (auto simp: wire_names_eq)
  then show ?thesis
  proof cases
    case 1
    have "w \<in> set (map p_name (filter (\<lambda>p. p_fill p \<noteq> None \<or> p_argument p \<noteq> None) ps))"
      by (rule bindings_denied [OF ps 1 [unfolded parameter_names_def] f])
    then show ?thesis unfolding deniedArgumentNames_def t(1) set_js_set set_append by blast
  next
    case 2
    have "map_of (t_fills t) w \<noteq> None" using 2 f t(2) field_fills_of [OF 2(2)] by simp
    then have "w \<in> set (map fst (t_fills t))" unfolding map_of_not_None by simp
    then show ?thesis unfolding deniedArgumentNames_def set_js_set set_append by blast
  next
    case 3
    then have "w \<in> set (case t_bodyRoot t of Some root \<Rightarrow> if t_rootFill t \<noteq> None then [root] else [] | None \<Rightarrow> [])"
      using t(3,4) f by simp
    then show ?thesis unfolding deniedArgumentNames_def set_js_set set_append by blast
  qed
qed

section \<open>Agreement\<close>

lemma string_items_strs [simp]: "string_items (JArr (map JStr xs)) = xs"
  by (induction xs) (simp_all add: string_items_def js_str_def map_filter_simps)

lemma additional_closed: "additionalPropertiesOf body = JBool False \<longleftrightarrow> \<not> allowsAdditional body"
proof (cases "js_get body ''additionalProperties''")
qed (auto simp: additionalPropertiesOf_def allowsAdditional_def Let_def)

lemma no_protoI:
  assumes "endpoint_curation e v relief = Inr rc"
    and "\<forall>c \<in> set (ep_arguments e @ variant_arguments v). plain_record (root_of e) c"
    and "proto_key \<notin> set (wire_names e)"
  shows "no_proto rc e"
  unfolding no_proto_def
proof
  fix w assume "w \<in> set (wire_names e)"
  with assms(3) curation_plain(1) [OF assms(1,2), of w] show "agentNameOf rc w \<noteq> proto_key"
    by (auto simp: agentNameOf_def split: option.splits)
qed

lemma agent_names_mono: "set us \<subseteq> set ws \<Longrightarrow> agent_names rc us \<subseteq> agent_names rc ws"
  by (auto simp: agent_names_def)

lemma required_wire_subset: "set (required_wire e) \<subseteq> set (wire_names e)"
  by (auto simp: required_wire_def wire_names_eq parameter_names_def split: option.splits)

text \<open>The published half of a tool, in terms of wire names.\<close>

lemma published_schema:
  assumes "buildInputSchema e v relief files = Inr input" and "endpoint_curation e v relief = Inr rc"
    and "no_proto rc e"
  shows "set (js_keys (js_get input ''properties'')) = agent_names rc (wire_names e)"
    and "set (string_items (js_get input ''required'')) = agent_names rc (required_wire e)
       \<union> agent_names rc (filter (\<lambda>n. agentNameOf rc n \<in> agent_names rc (wire_names e)) (required_fields e))"
    and "js_get input ''additionalProperties'' = JBool False
       \<longleftrightarrow> \<not> (root_of e = None \<and> allowsAdditional (body_schema e))"
proof -
  from buildInputSchema_Inr [OF assms(1)] obtain rc' ps tail
    where r: "endpoint_curation e v relief = Inr rc'"
      and ps: "map fst ps = map fst (fst (publish_all rc' e files))"
      and i: "input = JObj ([(''type'', JStr ''object''), (''properties'', JObj ps),
        (''required'', JArr (map JStr (snd (publish_all rc' e files)))),
        (''additionalProperties'', if root_of e = None then additionalPropertiesOf (body_schema e) else JBool False)] @ tail)"
    by blast
  from r assms(2) have rc: "rc' = rc" by simp
  note n = publish_all_names [OF assms(3), of files]
  from ps rc have "fst ` set ps = fst ` set (fst (publish_all rc e files))"
    by (metis list.set_map)
  with n(1) i show "set (js_keys (js_get input ''properties'')) = agent_names rc (wire_names e)" by simp
  show "set (string_items (js_get input ''required'')) = agent_names rc (required_wire e)
       \<union> agent_names rc (filter (\<lambda>n. agentNameOf rc n \<in> agent_names rc (wire_names e)) (required_fields e))"
    using n(2) i rc by simp
  show "js_get input ''additionalProperties'' = JBool False
       \<longleftrightarrow> \<not> (root_of e = None \<and> allowsAdditional (body_schema e))"
    using i by (simp add: additional_closed)
qed



section \<open>A concrete tool\<close>

definition string_parameter :: "string \<Rightarrow> location \<Rightarrow> bool \<Rightarrow> descriptor_parameter" where
  "string_parameter name loc req = \<lparr>dp_name = name, dp_in = loc, dp_required = req,
     dp_schema = JObj [(''type'', JStr ''string'')], dp_style = None, dp_explode = None, dp_notation = None,
     dp_description = None, dp_contentType = None, dp_allowReserved = False\<rparr>"

definition note_body :: js where
  "note_body = JObj [(''type'', JStr ''object''),
     (''properties'', JObj [(''note'', JObj [(''type'', JStr ''string'')])]), (''required'', JArr [JStr ''note''])]"

definition order_endpoint :: "js \<Rightarrow> bool option \<Rightarrow> argument_curation list \<Rightarrow> endpoint" where
  "order_endpoint body req records = \<lparr>ep_operationId = Some ''addNote'', ep_container = Some ''Orders'',
     ep_containerPrefix = None, ep_toolName = None, ep_method = ''post'', ep_route = ''/orders/{id}'',
     ep_description = None, ep_deprecated = False,
     ep_parameters = [string_parameter ''id'' In_path True, string_parameter ''tenant'' In_query True],
     ep_requestBody = Some \<lparr>rb_schema = body, rb_required = req, rb_contentType = None, rb_notation = None\<rparr>,
     ep_responses = None, ep_carriers = [], ep_arguments = records, ep_variants = None\<rparr>"

definition order_curation :: "argument_curation list" where
  "order_curation =
     [\<lparr>ac_name = ''tenant'', ac_as = None, ac_description = None, ac_hidden = Some (Constant (JStr ''acme''))\<rparr>,
      \<lparr>ac_name = ''note'', ac_as = Some ''remark'', ac_description = Some ''What to add'', ac_hidden = None\<rparr>]"



definition root_renamed :: endpoint where
  "root_renamed = order_endpoint (JObj [(''type'', JStr ''string'')]) None
     [\<lparr>ac_name = ''body'', ac_as = Some ''payload'', ac_description = None, ac_hidden = None\<rparr>]"

text \<open>
  Renaming the argument of a whole body breaks the agreement: the schema publishes and requires the
  new name, the template only knows \<open>body\<close>, and every call that follows the schema is refused.
\<close>

theorem renamed_body_root_is_unusable:
  "\<exists>d t. createTool root_renamed None None None None = Inr (d, t)
     \<and> string_items (js_get (td_inputSchema d) ''required'') = [''id'', ''tenant'', ''payload'']
     \<and> allowedArgumentNames t = [''id'', ''tenant'', ''body'']
     \<and> compose t (JObj [(''id'', JStr ''7''), (''tenant'', JStr ''acme''), (''payload'', JStr ''hello'')]) [] None
       = Inl (Unknown_argument [''payload''] [''body'', ''id'', ''tenant''])"
proof -
  have "case createTool root_renamed None None None None of Inl x \<Rightarrow> False | Inr (d, t) \<Rightarrow>
       string_items (js_get (td_inputSchema d) ''required'') = [''id'', ''tenant'', ''payload'']
     \<and> allowedArgumentNames t = [''id'', ''tenant'', ''body'']
     \<and> compose t (JObj [(''id'', JStr ''7''), (''tenant'', JStr ''acme''), (''payload'', JStr ''hello'')]) [] None
       = Inl (Unknown_argument [''payload''] [''body'', ''id'', ''tenant''])" by code_simp
  then show ?thesis by (auto split: sum.splits)
qed

end
