(* ===== verification/Schema_Defs.thy ===== *)
theory Schema_Defs
  imports Tool
begin

text \<open>
  The definitions lifted to a tool's root (\<open>liftDefs\<close> and \<open>canonical\<close> of
  \<open>packages/http/core/src/tool-definition.ts\<close>): the comparison ignores key order, no definition of a
  lifted property is lost, and a definition named like a member of \<open>Object.prototype\<close> is mistaken
  for a conflict.
\<close>

section \<open>Key order\<close>

text \<open>Two values that differ in the order of keys only, at any depth.\<close>

inductive reordered :: "js \<Rightarrow> js \<Rightarrow> bool" where
  same: "reordered v v"
| items: "list_all2 reordered vs ws \<Longrightarrow> reordered (JArr vs) (JArr ws)"
| members: "list_all2 (\<lambda>p q. fst p = fst q \<and> reordered (snd p) (snd q)) ps qs \<Longrightarrow>
    mset qs = mset rs \<Longrightarrow> distinct (map fst rs) \<Longrightarrow> reordered (JObj ps) (JObj rs)"

lemma ordered_members_mset:
  assumes "mset ps = mset qs" and "distinct (map fst qs)"
  shows "ordered_members ps = ordered_members qs"
proof -
  have "set ps = set qs" by (rule mset_eq_setD [OF assms(1)])
  with assms(2) have "inj_on fst (set ps)" by (simp add: distinct_map)
  then have "sort_key fst ps = sort_key fst qs"
    by (intro sort_key_inj_key_eq) (simp_all add: assms(1))
  then show ?thesis by (simp add: ordered_members_def)
qed

definition member_text :: "string \<times> js \<Rightarrow> string \<times> string" where
  "member_text p = (fst p, json_quote (fst p) @ '':'' @ canonical (snd p))"

lemma canonical_object: "canonical (JObj ps) = ''{'' @ join_with '','' (ordered_members (map member_text ps)) @ ''}''"
  by (simp add: member_text_def [abs_def])

text \<open>
  Two spellings of one schema are one schema: reordering the keys of its objects, at any depth,
  does not change the canonical text two definitions of one name are compared by.
\<close>

theorem canonical_ignores_key_order:
  assumes "reordered v w"
  shows "canonical v = canonical w"
  using assms
proof (induction rule: reordered.induct)
  case (same v)
  show ?case ..
next
  case (items vs ws)
  then have "map canonical vs = map canonical ws" by (induction rule: list_all2_induct) auto
  then show ?case by simp
next
  case (members ps qs rs)
  from members(1) have "map member_text ps = map member_text qs"
    by (induction rule: list_all2_induct) (auto simp: member_text_def)
  moreover have "mset (map member_text qs) = mset (map member_text rs)" using members(2) by simp
  moreover have "map fst (map member_text rs) = map fst rs" by (simp add: member_text_def)
  ultimately have "ordered_members (map member_text ps) = ordered_members (map member_text rs)"
    using members(3) by (metis ordered_members_mset)
  then show ?case by (simp only: canonical_object)
qed

lemma canonical_ignores_key_order_witness:
  "canonical (JObj [(''type'', JStr ''object''), (''title'', JStr ''A'')])
     = canonical (JObj [(''title'', JStr ''A''), (''type'', JStr ''object'')])"
  by (rule canonical_ignores_key_order, rule reordered.members
      [where qs = "[(''type'', JStr ''object''), (''title'', JStr ''A'')]"])
    (simp_all add: reordered.same)

section \<open>No definition is lost\<close>

text \<open>A bag holds a definition of \<open>n\<close> that reads like \<open>body\<close>.\<close>

definition holds_def :: "(string \<times> js) list \<Rightarrow> string \<times> js \<Rightarrow> bool" where
  "holds_def bag d = (\<exists>b. map_of bag (fst d) = Some b \<and> canonical b = canonical (snd d))"

definition ordinary_name :: "string \<Rightarrow> bool" where
  "ordinary_name n = (n \<noteq> proto_key \<and> n \<notin> set proto_methods)"

lemma inherited_ordinary: "ordinary_name n \<Longrightarrow> inherited n = JUndef"
  by (simp add: ordinary_name_def inherited_def)

lemma take_def_keeps: "take_def s d = Inr s' \<Longrightarrow> holds_def (fst s) p \<Longrightarrow> vals_all (\<lambda>v. v \<noteq> JUndef) (fst s)
   \<Longrightarrow> holds_def (fst s') p"
  by (auto simp: take_def_def Let_def holds_def_def obj_put_def split: if_splits option.splits
      dest: vals_allD)

lemma take_def_adds:
  assumes "take_def s d = Inr s'" and "ordinary_name (fst d)" and "snd d \<noteq> JUndef"
  shows "holds_def (fst s') d \<and> (fst s' = fst s \<or> snd s')"
  using assms
  by (auto simp: take_def_def Let_def holds_def_def obj_put_def ordinary_name_def inherited_def
      split: if_splits option.splits)

lemma take_def_ok:
  assumes "take_def s d = Inr s'" and "vals_all (\<lambda>v. v \<noteq> JUndef) (fst s)" and "snd d \<noteq> JUndef"
    and "fst s = [] \<or> snd s"
  shows "vals_all (\<lambda>v. v \<noteq> JUndef) (fst s') \<and> (fst s' = [] \<or> snd s')"
  using assms by (cases d) (auto simp: take_def_def Let_def obj_put_def vals_all_update split: if_splits)

definition defs_ok :: "lifted \<Rightarrow> bool" where
  "defs_ok s = (vals_all (\<lambda>v. v \<noteq> JUndef) (fst s) \<and> (fst s = [] \<or> snd s))"

definition good_defs :: "(string \<times> js) list \<Rightarrow> bool" where
  "good_defs ds = (\<forall>d \<in> set ds. ordinary_name (fst d) \<and> snd d \<noteq> JUndef)"

lemma fold_take_def:
  assumes "fold_res take_def s ds = Inr s'" and "defs_ok s" and "good_defs ds"
  shows "defs_ok s' \<and> (\<forall>p. holds_def (fst s) p \<longrightarrow> holds_def (fst s') p) \<and> (\<forall>d \<in> set ds. holds_def (fst s') d)"
  using assms
proof (induction ds arbitrary: s)
  case Nil
  then show ?case by simp
next
  case (Cons d ds)
  then obtain s1 where s1: "take_def s d = Inr s1" and rest: "fold_res take_def s1 ds = Inr s'"
    by (auto simp: res_bind_Inr_iff)
  from Cons.prems(3) have d: "ordinary_name (fst d)" "snd d \<noteq> JUndef" and g: "good_defs ds"
    by (auto simp: good_defs_def)
  from Cons.prems(2) take_def_ok [OF s1 _ d(2)] have ok: "defs_ok s1" by (simp add: defs_ok_def)
  note IH = Cons.IH [OF rest ok g]
  have "holds_def (fst s1) d" using take_def_adds [OF s1 d] by blast
  moreover have "holds_def (fst s1) p" if "holds_def (fst s) p" for p
    using take_def_keeps [OF s1 that] Cons.prems(2) by (simp add: defs_ok_def)
  ultimately show ?case using IH by (metis (no_types, lifting) set_ConsD)
qed

definition own_defs :: "js \<Rightarrow> (string \<times> js) list" where
  "own_defs schema = (if js_get schema ''$id'' \<noteq> JUndef then [] else js_entries (js_get schema ''$defs''))"

lemma fold_lift_property:
  assumes "fold_res lift_property s ps = Inr s'" and "defs_ok (snd s)"
    and "\<forall>p \<in> set ps. good_defs (own_defs (snd p))"
  shows "defs_ok (snd s') \<and> (\<forall>p. holds_def (fst (snd s)) p \<longrightarrow> holds_def (fst (snd s')) p)
    \<and> (\<forall>p \<in> set ps. \<forall>d \<in> set (own_defs (snd p)). holds_def (fst (snd s')) d)"
  using assms
proof (induction ps arbitrary: s)
  case Nil
  then show ?case by simp
next
  case (Cons p ps)
  then obtain s1 where s1: "lift_property s p = Inr s1" and rest: "fold_res lift_property s1 ps = Inr s'"
    by (auto simp: res_bind_Inr_iff)
  have step: "defs_ok (snd s1) \<and> (\<forall>q. holds_def (fst (snd s)) q \<longrightarrow> holds_def (fst (snd s1)) q)
    \<and> (\<forall>d \<in> set (own_defs (snd p)). holds_def (fst (snd s1)) d)"
  proof (cases "js_get (snd p) ''$defs'' = JUndef \<or> js_get (snd p) ''$id'' \<noteq> JUndef")
    case True
    with s1 have "snd s1 = snd s" by (auto simp: lift_property_def split: prod.splits)
    moreover have "own_defs (snd p) = []" using True by (auto simp: own_defs_def js_entries_def)
    ultimately show ?thesis using Cons.prems(2) by simp
  next
    case False
    with s1 have f: "fold_res take_def (snd s) (own_defs (snd p)) = Inr (snd s1)"
      by (auto simp: lift_property_def own_defs_def res_map_Inr_iff split: prod.splits)
    from fold_take_def [OF f Cons.prems(2)] Cons.prems(3) show ?thesis by simp
  qed
  from Cons.IH [OF rest] step Cons.prems(3)
  have IH: "defs_ok (snd s') \<and> (\<forall>p. holds_def (fst (snd s1)) p \<longrightarrow> holds_def (fst (snd s')) p)
    \<and> (\<forall>p \<in> set ps. \<forall>d \<in> set (own_defs (snd p)). holds_def (fst (snd s')) d)" by simp
  with step show ?case by auto
qed

lemma holds_def_sorted:
  assumes "distinct (map fst ds)" and "holds_def ds d"
  shows "holds_def (sort_key fst ds) d"
proof -
  have "map_of (sort_key fst ds) = map_of ds"
  proof (rule map_of_inject_set [THEN iffD2])
    show "distinct (map fst (sort_key fst ds))" using assms(1)
      by (metis distinct_map distinct_sort inj_on_cong set_sort)
  qed (simp_all add: assms(1))
  with assms(2) show ?thesis by (simp add: holds_def_def)
qed

lemma distinct_take_def: "take_def s d = Inr s' \<Longrightarrow> distinct (map fst (fst s)) \<Longrightarrow> distinct (map fst (fst s'))"
  by (auto simp: take_def_def Let_def obj_put_def distinct_update split: if_splits)

lemma distinct_fold_take_def:
  "fold_res take_def s ds = Inr s' \<Longrightarrow> distinct (map fst (fst s)) \<Longrightarrow> distinct (map fst (fst s'))"
  by (rule fold_res_invariant) (auto dest: distinct_take_def)

lemma distinct_lift_property:
  "lift_property s p = Inr s' \<Longrightarrow> distinct (map fst (fst (snd s))) \<Longrightarrow> distinct (map fst (fst (snd s')))"
  by (auto simp: lift_property_def res_map_Inr_iff split: if_splits prod.splits dest: distinct_fold_take_def)

text \<open>
  Lifting loses no definition. Every entry of the flattened body's bag, and of the bag of every
  property that is not a schema resource of its own, is in the one bag written at the root, under its
  name, with a body of the same canonical text, so that every reference keeps its meaning.
\<close>

theorem lifted_definitions_complete:
  assumes "liftDefs properties seed = Inr (ps, defs)" and "good_defs (js_entries seed)"
    and "\<forall>p \<in> set properties. good_defs (own_defs (snd p))"
    and "d \<in> set (js_entries seed) \<or> (\<exists>p \<in> set properties. d \<in> set (own_defs (snd p)))"
  shows "\<exists>bag. defs = Some bag \<and> holds_def bag d"
proof -
  from assms(1) obtain l l' where l: "fold_res take_def ([], False) (js_entries seed) = Inr l"
    and l': "fold_res lift_property ([], l) properties = Inr (ps, l')"
    and defs: "defs = (if snd l' then Some (sort_key fst (fst l')) else None)"
    by (auto simp: liftDefs_def res_bind_Inr_iff res_map_Inr_iff)
  have l_ok: "defs_ok l \<and> (\<forall>d \<in> set (js_entries seed). holds_def (fst l) d)"
    using fold_take_def [OF l _ assms(2)] by (simp add: defs_ok_def)
  with fold_lift_property [OF l'] assms(3) have ok: "defs_ok l'"
    and kept: "\<forall>p. holds_def (fst l) p \<longrightarrow> holds_def (fst l') p"
    and own: "\<forall>p \<in> set properties. \<forall>d \<in> set (own_defs (snd p)). holds_def (fst l') d"
    by auto
  have h: "holds_def (fst l') d" using assms(4) l_ok kept own by blast
  then have "fst l' \<noteq> []" by (auto simp: holds_def_def)
  with ok have "snd l'" by (simp add: defs_ok_def)
  moreover have "distinct (map fst (fst l))" using distinct_fold_take_def [OF l] by simp
  then have "distinct (map fst (fst (snd (ps, l'))))"
    by (intro fold_res_invariant [OF l', where P = "\<lambda>s. distinct (map fst (fst (snd s)))"])
      (auto dest: distinct_lift_property)
  ultimately show ?thesis using holds_def_sorted [OF _ h] defs by simp
qed

definition referring :: js where
  "referring = JObj [(''$ref'', JStr ''#/$defs/Money''), (''$defs'', JObj [(''Money'', JObj [(''type'', JStr ''string'')])])]"

lemma lifted_definitions_complete_witness:
  "\<exists>ps bag. liftDefs [(''price'', referring)] JUndef = Inr (ps, Some bag)
     \<and> holds_def bag (''Money'', JObj [(''type'', JStr ''string'')])"
proof -
  have "case liftDefs [(''price'', referring)] JUndef of Inl e \<Rightarrow> False | Inr r \<Rightarrow> True" by code_simp
  then obtain ps defs where l: "liftDefs [(''price'', referring)] JUndef = Inr (ps, defs)"
    by (auto split: sum.splits)
  have seed: "good_defs (js_entries JUndef)" by (simp add: good_defs_def js_entries_def)
  have own: "own_defs referring = [(''Money'', JObj [(''type'', JStr ''string'')])]" by code_simp
  have good: "\<forall>p \<in> set [(''price'', referring)]. good_defs (own_defs (snd p))"
    by (simp add: own good_defs_def ordinary_name_def proto_key_def proto_methods_def)
  have "\<exists>p \<in> set [(''price'', referring)].
      (''Money'', JObj [(''type'', JStr ''string'')]) \<in> set (own_defs (snd p))" by (simp add: own)
  from lifted_definitions_complete [OF l seed good disjI2 [OF this]] l show ?thesis by auto
qed

text \<open>A single definition whose name is a method of \<open>Object.prototype\<close> is refused as a conflict with itself.\<close>

lemma prototype_named_definition_conflicts:
  "liftDefs [(''x'', JObj [(''$defs'', JObj [(''constructor'', JObj [(''type'', JStr ''string'')])])])] JUndef
     = Inl Schema_def_conflict"
  by code_simp

end
