(* ===== verification/Body_Properties.thy ===== *)
theory Body_Properties
  imports Composer_Wire
begin

text \<open>
  What an encoded body guarantees: a file argument hands on only what passed its checks and comes from
  a source the template offers, the inline budget counts the bytes that base64 stands for, and a
  urlencoded body reads back as the typed fields the walk collected.
\<close>

section \<open>Base64\<close>

text \<open>The bytes a base64 text stands for (RFC 4648, section 4).\<close>

definition sextet :: "char \<Rightarrow> nat" where
  "sextet c = (let n = of_char c :: nat
     in if 65 \<le> n \<and> n \<le> 90 then n - 65
        else if 97 \<le> n \<and> n \<le> 122 then n - 71
        else if 48 \<le> n \<and> n \<le> 57 then n + 4
        else if n = 43 then 62 else 63)"

fun base64_bytes :: "string \<Rightarrow> nat list" where
  "base64_bytes (a # b # c # d # rest) =
     (let n = ((sextet a * 64 + sextet b) * 64 + sextet c) * 64 + sextet d
      in if d = CHR ''='' then
           (if c = CHR ''='' then [(sextet a * 64 + sextet b) div 16]
            else take 2 [((sextet a * 64 + sextet b) * 64 + sextet c) div 1024,
                         ((sextet a * 64 + sextet b) * 64 + sextet c) div 4 mod 256])
         else [n div 65536, n div 256 mod 256, n mod 256] @ base64_bytes rest)"
| "base64_bytes _ = []"

lemma base64_char_not_pad: "base64_char c \<Longrightarrow> c \<noteq> CHR ''=''"
  by (auto simp: base64_char_def is_alnum_def isAsciiUpper_def isAsciiLower_def isAsciiDigit_def)

lemma base64ByteLength_group:
  assumes "rest \<noteq> []" and "strictBase64 rest"
  shows "base64ByteLength (a # b # c # d # rest) = 3 + base64ByteLength rest"
proof -
  obtain e f g h r where r: "rest = e # f # g # h # r"
    using assms by (cases rest rule: strictBase64.cases) auto
  have s: "suffix x (a # b # c # d # rest) \<longleftrightarrow> suffix x rest" if "length x \<le> 2" for x :: string
  proof
    assume "suffix x (a # b # c # d # rest)"
    moreover have "suffix rest (a # b # c # d # rest)" by (simp add: suffix_def)
    moreover have "length x \<le> length rest" using that r by simp
    ultimately show "suffix x rest" using suffix_length_suffix by blast
  next
    assume "suffix x rest"
    moreover have "suffix rest (a # b # c # d # rest)" by (simp add: suffix_def)
    ultimately show "suffix x (a # b # c # d # rest)" by (rule suffix_order.trans)
  qed
  have l: "length (a # b # c # d # rest) div 4 = Suc (length rest div 4)" and "1 \<le> length rest div 4"
    using r by simp_all
  then have "3 \<le> length rest div 4 * 3" by simp
  moreover have "suffix ''=='' (a # b # c # d # rest) = suffix ''=='' rest"
    "suffix ''='' (a # b # c # d # rest) = suffix ''='' rest" by (rule s, simp)+
  ultimately show ?thesis unfolding base64ByteLength_def l by simp
qed

lemma base64_length: "strictBase64 s \<Longrightarrow> length (base64_bytes s) = base64ByteLength s"
proof (induction s rule: strictBase64.induct)
  case (2 a b c d rest)
  show ?case
  proof (cases "d = CHR ''=''")
    case True
    with 2(2) have rest: "rest = []" by (auto dest: base64_char_not_pad)
    show ?thesis by (cases "c = CHR ''=''") (simp_all add: True rest Let_def base64ByteLength_def suffix_def)
  next
    case False
    with 2(2) have c: "base64_char c" "strictBase64 rest" by auto
    show ?thesis
    proof (cases "rest = []")
      case True
      have "\<not> suffix ''='' [a, b, c, d]" "\<not> suffix ''=='' [a, b, c, d]"
        using False by (auto simp: suffix_def append_eq_Cons_conv Cons_eq_append_conv)
      then show ?thesis using False True by (simp add: Let_def base64ByteLength_def)
    next
      case no: False
      from 2(1) c False no show ?thesis
        by (simp add: Let_def base64ByteLength_group [OF no c(2)])
    qed
  qed
qed (simp_all add: base64ByteLength_def)

section \<open>File arguments\<close>

definition content_source :: "file_content \<Rightarrow> file_source" where
  "content_source f = (case f of File_text t n m \<Rightarrow> Src_text | File_base64 b l n m \<Rightarrow> Src_base64
     | File_ref r n m fn fm \<Rightarrow> Src_ref)"

definition content_names :: "file_content \<Rightarrow> string set" where
  "content_names f = (case f of File_text t n m \<Rightarrow> {n} | File_base64 b l n m \<Rightarrow> {n}
     | File_ref r n m fn fm \<Rightarrow> set_option n \<union> {fn})"

definition content_media_types :: "file_content \<Rightarrow> string set" where
  "content_media_types f = (case f of File_text t n m \<Rightarrow> {m} | File_base64 b l n m \<Rightarrow> {m}
     | File_ref r n m fn fm \<Rightarrow> set_option m \<union> {fm})"

definition content_exact :: "file_content \<Rightarrow> bool" where
  "content_exact f = (case f of File_text t n m \<Rightarrow> True
     | File_base64 b l n m \<Rightarrow> strictBase64 b \<and> l = length (base64_bytes b)
     | File_ref r n m fn fm \<Rightarrow> r \<noteq> [])"

definition default_media_types :: "string option \<Rightarrow> string set" where
  "default_media_types declared = set_option declared \<union> {''text/plain; charset=utf-8'', octet_stream}"

lemma optional_text_Inr: "optional_text v ok err = Inr r \<Longrightarrow> \<forall>s \<in> set_option r. ok s"
  by (auto simp: optional_text_def split: js.splits if_splits)

lemma defaultMediaTypeOf_in: "fallback \<in> {''text/plain; charset=utf-8'', octet_stream} \<Longrightarrow>
  defaultMediaTypeOf declared fallback \<in> default_media_types declared"
  by (auto simp: defaultMediaTypeOf_def default_media_types_def split: option.splits)

lemma file_of_source_Inr:
  assumes "file_of_source source content field bname declared name media = Inr f"
  shows "content_source f = source" and "content_names f \<subseteq> set_option name \<union> {bname}"
    and "content_media_types f \<subseteq> set_option media \<union> default_media_types declared" and "content_exact f"
  using assms base64_length [of content]
    defaultMediaTypeOf_in [of "''text/plain; charset=utf-8''" declared] defaultMediaTypeOf_in [of octet_stream declared]
  by (auto simp: file_of_source_def content_source_def content_names_def content_media_types_def
      content_exact_def or_else_def split: file_source.splits if_splits option.splits)

lemma readFile_Inr:
  assumes "readFile v field bname declared sources = Inr f"
  obtains source content name media where "filter (\<lambda>s. js_get v (source_key s) \<noteq> JUndef) [Src_text, Src_base64, Src_ref] = [source]"
    and "filter (\<lambda>k. k \<notin> set (offered_keys sources)) (js_keys v) = []"
    and "optional_text (js_get v ''name'') valid_filename (Invalid_file_argument field Bad_filename) = Inr name"
    and "optional_text (js_get v ''mediaType'') mediaTypeGrammar (Invalid_file_argument field Bad_media_type) = Inr media"
    and "file_of_source source content field bname declared name media = Inr f"
proof -
  define present where "present = filter (\<lambda>s. js_get v (source_key s) \<noteq> JUndef) [Src_text, Src_base64, Src_ref]"
  have "\<exists>source content name media. present = [source]
      \<and> filter (\<lambda>k. k \<notin> set (offered_keys sources)) (js_keys v) = []
      \<and> optional_text (js_get v ''name'') valid_filename (Invalid_file_argument field Bad_filename) = Inr name
      \<and> optional_text (js_get v ''mediaType'') mediaTypeGrammar (Invalid_file_argument field Bad_media_type) = Inr media
      \<and> file_of_source source content field bname declared name media = Inr f"
    using assms unfolding readFile_def Let_def present_def [symmetric]
    by (simp add: res_bind_Inr_iff split: if_split_asm list.split_asm js.split_asm) blast
  then show ?thesis unfolding present_def using that by blast
qed

lemma js_get_owned_key: "js_get v k \<noteq> JUndef \<Longrightarrow> inherited k = JUndef \<Longrightarrow> v \<noteq> JProto \<Longrightarrow> k \<in> set (js_keys v)"
  by (cases v) (auto split: option.splits dest: map_of_SomeD intro: rev_image_eqI)

lemma source_key_inj [simp]: "source_key s = source_key s' \<longleftrightarrow> s = s'"
  by (cases s; cases s') (simp_all add: source_key_def)

lemma offered_source: "source_key s \<in> set (offered_keys sources) \<Longrightarrow> s \<in> set sources"
  by (cases s) (auto simp: offered_keys_def offered_sources_def source_key_def split: if_splits)

text \<open>
  A file argument that is accepted comes from a source the template offers, so \<open>ref\<close> only reaches a
  host that bound a resolver; its filename is the declared one or free of quotes, slashes,
  backslashes and line breaks; its media type is a declared default or well formed; and base64 content
  is strict with the byte length the budget will count.
\<close>

theorem file_argument_checked:
  assumes "readFile v field bname declared sources = Inr f" and "v \<noteq> JProto"
  shows "content_source f \<in> set sources \<and> (\<forall>n \<in> content_names f. n = bname \<or> valid_filename n)
    \<and> (\<forall>m \<in> content_media_types f. m \<in> default_media_types declared \<or> mediaTypeGrammar m) \<and> content_exact f"
proof -
  obtain source content name media where
    s: "filter (\<lambda>s. js_get v (source_key s) \<noteq> JUndef) [Src_text, Src_base64, Src_ref] = [source]" and
    u: "filter (\<lambda>k. k \<notin> set (offered_keys sources)) (js_keys v) = []" and
    n: "optional_text (js_get v ''name'') valid_filename (Invalid_file_argument field Bad_filename) = Inr name" and
    m: "optional_text (js_get v ''mediaType'') mediaTypeGrammar (Invalid_file_argument field Bad_media_type) = Inr media" and
    f: "file_of_source source content field bname declared name media = Inr f"
    by (rule readFile_Inr [OF assms(1)])
  have "source \<in> set (filter (\<lambda>s. js_get v (source_key s) \<noteq> JUndef) [Src_text, Src_base64, Src_ref])"
    unfolding s by simp
  then have "js_get v (source_key source) \<noteq> JUndef" unfolding set_filter by blast
  moreover have "inherited (source_key source) = JUndef"
    by (cases source) (simp_all add: source_key_def inherited_def proto_key_def proto_methods_def)
  ultimately have "source_key source \<in> set (js_keys v)" by (rule js_get_owned_key [OF _ _ assms(2)])
  moreover have "\<forall>k \<in> set (js_keys v). k \<in> set (offered_keys sources)" using u unfolding filter_empty_conv by simp
  ultimately have "source_key source \<in> set (offered_keys sources)" by blast
  then have "source \<in> set sources" by (rule offered_source)
  then have "content_source f \<in> set sources" by (simp add: file_of_source_Inr(1) [OF f])
  moreover have "\<forall>n \<in> content_names f. n = bname \<or> valid_filename n"
    using file_of_source_Inr(2) [OF f] optional_text_Inr [OF n] by auto
  moreover have "\<forall>m \<in> content_media_types f. m \<in> default_media_types declared \<or> mediaTypeGrammar m"
    using file_of_source_Inr(3) [OF f] optional_text_Inr [OF m] by auto
  ultimately show ?thesis using file_of_source_Inr(4) [OF f] by simp
qed

lemma file_argument_checked_witness:
  "\<exists>f. readFile (JObj [(''base64'', JStr ''TWE=''), (''name'', JStr ''a.txt'')]) ''file'' ''file'' None defaultFileSources = Inr f
     \<and> content_source f = Src_base64 \<and> content_exact f"
proof -
  let ?v = "JObj [(''base64'', JStr ''TWE=''), (''name'', JStr ''a.txt'')]"
  have r: "readFile ?v ''file'' ''file'' None defaultFileSources
    = Inr (File_base64 ''TWE='' 2 ''a.txt'' octet_stream)" by code_simp
  from file_argument_checked [OF r] show ?thesis using r by (auto simp: content_source_def)
qed

section \<open>The inline budget\<close>

definition inline_content :: "emitted \<Rightarrow> nat" where
  "inline_content e = (case e of Emit_file n (File_base64 b len fn m) \<Rightarrow> length (base64_bytes b) | _ \<Rightarrow> 0)"

lemma traverse_set: "traverse f xs = Inr ys \<Longrightarrow> y \<in> set ys \<Longrightarrow> \<exists>x \<in> set xs. f x = Inr y"
  by (induction xs arbitrary: ys) (auto simp: res_bind_Inr_iff res_map_Inr_iff)

lemma readFile_exact: "readFile v field bname declared sources = Inr f \<Longrightarrow> content_exact f"
  by (erule readFile_Inr) (rule file_of_source_Inr(4))

lemma inline_exact: "content_exact f \<Longrightarrow> inline_bytes (Emit_file n f) = inline_content (Emit_file n f)"
  by (auto simp: content_exact_def inline_bytes_def inline_content_def split: file_content.splits)

lemma emit_scalars_inline:
  "emit_scalars key label kind isArray v = Inr es \<Longrightarrow> e \<in> set es \<Longrightarrow> \<exists>s. e = Emit_value key s"
  by (auto simp: emit_scalars_def res_map_Inr_iff split: option.splits dest!: traverse_set)

lemma emit_present_inline:
  assumes "emit_present nota sources enc f item = Inr es" and "e \<in> set es"
  shows "inline_bytes e = inline_content e"
proof (cases "ff_shape f")
  case (F_scalar kind isArray)
  with assms emit_scalars_inline show ?thesis
    by (fastforce simp: emit_present_def inline_bytes_def inline_content_def)
next
  case (F_object ms)
  with assms(1) obtain ess where ess: "traverse (emit_member nota (ff_name f) enc item) ms = Inr ess"
    and es: "es = concat ess"
    by (auto simp: emit_present_def res_bind_Inr_iff res_map_Inr_iff split: if_splits)
  from assms(2) es obtain es1 where "es1 \<in> set ess" "e \<in> set es1" by auto
  moreover from traverse_set [OF ess this(1)] obtain m where "emit_member nota (ff_name f) enc item m = Inr es1"
    by blast
  ultimately have "\<exists>k s. e = Emit_value k s"
    by (auto simp: emit_member_def split: js.splits dest!: emit_scalars_inline)
  then show ?thesis by (auto simp: inline_bytes_def inline_content_def)
next
  case (F_file isArray declared)
  with assms(1) obtain items where
    "traverse (\<lambda>(i, e). res_map (Emit_file (enc (ff_name f)))
       (readFile e (if isArray then index_label (ff_name f) i else ff_name f) (ff_name f) declared sources))
       (zip [0..<length items] items) = Inr es"
    by (auto simp: emit_present_def emit_files_def split: option.splits)
  from traverse_set [OF this assms(2)] obtain i v label where
    "res_map (Emit_file (enc (ff_name f))) (readFile v label (ff_name f) declared sources) = Inr e"
    by (auto split: prod.splits)
  then obtain x where "e = Emit_file (enc (ff_name f)) x" "content_exact x"
    by (auto simp: res_map_Inr_iff dest: readFile_exact)
  then show ?thesis by (simp add: inline_exact)
qed

lemma emitFields_inline:
  assumes "emitFields form v sources enc = Inr es" and "e \<in> set es"
  shows "inline_bytes e = inline_content e"
proof -
  from assms(1) obtain ess where ess: "traverse (emit_field (fb_notation form) sources enc v) (fb_fields form) = Inr ess"
    and es: "es = concat ess" by (auto simp: emitFields_def res_map_Inr_iff)
  from assms(2) es obtain es1 where e1: "es1 \<in> set ess" "e \<in> set es1" by auto
  from traverse_set [OF ess e1(1)] obtain f where "emit_field (fb_notation form) sources enc v f = Inr es1" by blast
  then have "es1 = [] \<or> emit_present (fb_notation form) sources enc f (js_get v (ff_name f)) = Inr es1"
    by (auto simp: emit_field_def split: js.splits)
  with e1(2) show ?thesis using emit_present_inline by fastforce
qed

definition budget_of :: "nat option \<Rightarrow> nat" where
  "budget_of limits = (case limits of None \<Rightarrow> maxInlineFileBytes | Some l \<Rightarrow> l)"

text \<open>
  C22: The bytes that the base64 file arguments of one multipart body decode to never exceed the inline
  limit: what the budget counts is the decoded length, over all files of the body.
\<close>

theorem multipart_within_budget:
  assumes "encodeBody t v limits = Inr (Some (Body_multipart c es))"
  shows "sum_list (map inline_content es) \<le> budget_of limits"
proof -
  from assms obtain form where e: "encode_form t (case t_contentType t of None \<Rightarrow> jsonMediaType | Some c \<Rightarrow> c) form v limits
      = Inr (Body_multipart c es)"
    by (auto simp: encodeBody_def Let_def encode_file_body_def res_map_Inr_iff res_bind_Inr_iff
        split: if_splits option.splits js.splits)
  then obtain ms where ms: "emitFields form v (template_sources t) (\<lambda>n. n) = Inr ms"
    and b: "assertInlineBudget ms limits (template_sources t) = Inr ()" and es: "es = ms"
    unfolding encode_form_def Let_def res_bind_Inr_iff res_map_Inr_iff
    by (simp add: res_bind_Inr_iff res_map_Inr_iff split: if_split_asm) blast
  have "map inline_content es = map inline_bytes es"
    using emitFields_inline [OF ms] es by (intro map_cong) simp_all
  then show ?thesis unfolding \<open>map inline_content es = map inline_bytes es\<close>
    using b es by (simp add: assertInlineBudget_def Let_def budget_of_def throw_if_Inr_iff)
qed

section \<open>Reading a urlencoded body\<close>

definition same_entry :: "emitted \<Rightarrow> emitted \<Rightarrow> bool" where
  "same_entry e e' = (\<exists>k k' s. e = Emit_value k s \<and> e' = Emit_value k' s \<and> key_clean k \<and> percentDecode k = k')"

lemma traverse_related:
  assumes "traverse f xs = Inr ys"
    and "\<And>x y. x \<in> set xs \<Longrightarrow> f x = Inr y \<Longrightarrow> \<exists>y'. g x = Inr y' \<and> R y y'"
  shows "\<exists>ys'. traverse g xs = Inr ys' \<and> list_all2 R ys ys'"
  using assms
proof (induction xs arbitrary: ys)
  case Nil
  then show ?case by simp
next
  case (Cons x xs)
  from Cons.prems(1) obtain y zs where y: "f x = Inr y" and zs: "traverse f xs = Inr zs" and ys: "ys = y # zs"
    by (auto simp: res_bind_Inr_iff res_map_Inr_iff)
  from Cons.prems(2) [OF _ y] obtain y' where y': "g x = Inr y'" "R y y'" by auto
  from Cons.IH [OF zs] Cons.prems(2) obtain zs' where "traverse g xs = Inr zs'" "list_all2 R zs zs'" by auto
  with y' ys show ?case by simp
qed

lemma list_all2_concat: "list_all2 (list_all2 R) xss yss \<Longrightarrow> list_all2 R (concat xss) (concat yss)"
  by (induction rule: list_all2_induct) (auto intro: list_all2_appendI)

lemma emit_scalars_same:
  assumes "emit_scalars k label kind isArray v = Inr es" and "key_clean k" and "percentDecode k = k'"
  shows "\<exists>es'. emit_scalars k' label kind isArray v = Inr es' \<and> list_all2 same_entry es es'"
proof -
  from assms(1) obtain items where i: "array_or_one isArray v = Some items"
    and t: "traverse (\<lambda>e. res_map (Emit_value k) (formatScalar e label kind Invalid_type)) items = Inr es"
    by (auto simp: emit_scalars_def split: option.splits)
  have "\<exists>es'. traverse (\<lambda>e. res_map (Emit_value k') (formatScalar e label kind Invalid_type)) items = Inr es'
    \<and> list_all2 same_entry es es'"
    by (rule traverse_related [OF t]) (use assms(2,3) in \<open>auto simp: res_map_Inr_iff same_entry_def\<close>)
  with i show ?thesis by (simp add: emit_scalars_def)
qed

lemma decode_encode: "percentDecode (percentEncode s) = s"
  by (rule decode_plain)

lemma emit_field_same:
  assumes "emit_field nota sources percentEncode v f = Inr es" and "\<not> is_file_field f"
  shows "\<exists>es'. emit_field nota sources (\<lambda>n. n) v f = Inr es' \<and> list_all2 same_entry es es'"
proof (cases "js_get v (ff_name f) = JUndef")
  case True
  with assms(1) show ?thesis by (simp add: emit_field_def)
next
  case False
  let ?item = "js_get v (ff_name f)"
  have nn: "?item \<noteq> JNull" using assms(1) by (auto simp: emit_field_def)
  have present: "emit_field nota sources enc v f = emit_present nota sources enc f ?item" for enc
    using False nn by (cases ?item) (simp_all add: emit_field_def)
  show ?thesis
  proof (cases "ff_shape f")
    case (F_scalar kind isArray)
    with assms(1) have "emit_scalars (percentEncode (ff_name f)) (ff_name f) kind isArray ?item = Inr es"
      by (simp add: present emit_present_def)
    from emit_scalars_same [OF this key_clean_encode decode_encode] F_scalar show ?thesis
      by (simp add: present emit_present_def)
  next
    case (F_object ms)
    with assms(1) obtain ess where u: "unknown_members (ff_name f) ?item ms = Inr ()" "is_plain_object ?item"
      and ess: "traverse (emit_member nota (ff_name f) percentEncode ?item) ms = Inr ess" and es: "es = concat ess"
      by (auto simp: present emit_present_def res_bind_Inr_iff res_map_Inr_iff split: if_splits)
    have "\<exists>es'. emit_member nota (ff_name f) (\<lambda>n. n) ?item m = Inr es' \<and> list_all2 same_entry es1 es'"
      if m: "emit_member nota (ff_name f) percentEncode ?item m = Inr es1" for m es1
    proof (cases "js_get ?item (mb_name m) \<in> {JUndef, JNull}")
      case True
      with m show ?thesis by (auto simp: emit_member_def)
    next
      case False
      then have mem: "emit_member nota (ff_name f) enc ?item m
          = emit_scalars (memberKey (ff_name f) (mb_name m) nota enc) (dotted (ff_name f) (mb_name m))
              (mb_kind m) (mb_isArray m) (js_get ?item (mb_name m))" for enc
        by (cases "js_get ?item (mb_name m)") (simp_all add: emit_member_def)
      from m have "emit_scalars (memberKey (ff_name f) (mb_name m) nota percentEncode) (dotted (ff_name f) (mb_name m))
              (mb_kind m) (mb_isArray m) (js_get ?item (mb_name m)) = Inr es1" by (simp add: mem)
      from emit_scalars_same [OF this key_clean_memberKey decode_memberKey] show ?thesis by (simp add: mem)
    qed
    from traverse_related [OF ess, of "emit_member nota (ff_name f) (\<lambda>n. n) ?item" "list_all2 same_entry"] this
    obtain ess' where "traverse (emit_member nota (ff_name f) (\<lambda>n. n) ?item) ms = Inr ess'"
      "list_all2 (list_all2 same_entry) ess ess'" by blast
    with u es F_object show ?thesis
      by (simp add: present emit_present_def list_all2_concat)
  next
    case (F_file a m)
    with assms(2) show ?thesis by (simp add: is_file_field_def)
  qed
qed

definition entry_pair :: "emitted \<Rightarrow> string \<times> string" where
  "entry_pair e = (case e of Emit_value k s \<Rightarrow> (k, s) | Emit_file k f \<Rightarrow> (k, []))"

lemma read_entry:
  assumes "same_entry e e'"
  shows "read_pair (entry_text e) = entry_pair e'" and "CHR ''&'' \<notin> set (entry_text e)"
proof -
  obtain k s where e: "e = Emit_value k s" "e' = Emit_value (percentDecode k) s" and k: "key_clean k"
    using assms by (auto simp: same_entry_def)
  from k have "c \<noteq> CHR ''=''" "c \<noteq> CHR ''&''" if "c \<in> set k" for c
    using that by (auto simp: key_clean_def list_all_iff)
  with e show "read_pair (entry_text e) = entry_pair e'" "CHR ''&'' \<notin> set (entry_text e)"
    using plain.read_pair_text [of k s] plain.pair_no_amp [of k s]
    by (auto simp: entry_text_def entry_pair_def pair_text_def)
qed

lemma check_form_fields_no_file:
  "check_form_fields input urlEncodedMediaType names fs = Inr r \<Longrightarrow> f \<in> set fs \<Longrightarrow> \<not> is_file_field f"
  by (induction fs arbitrary: names)
    (auto simp: res_bind_Inr_iff check_form_field_def is_file_field_def throw_if_Inr_iff
      split: if_splits field_shape.splits)

lemma urlencoded_kinds:
  "isJsonMediaType urlEncodedMediaType = False" "isBinaryMediaType urlEncodedMediaType = False"
  "urlEncodedMediaType \<noteq> textMediaType" "isFormMediaType urlEncodedMediaType" "urlEncodedMediaType \<noteq> jsonMediaType"
  by code_simp+

text \<open>
  A urlencoded body is exactly its typed fields. Reading the text back, pair by pair and percent
  decoded, yields the field and member keys with the values of the walk, in declaration order and
  nothing else, whatever characters the values hold.
\<close>

theorem urlencoded_body_reads_back:
  assumes "createRequestTemplate input = Inr t" and "encodeBody t v limits = Inr (Some (Body_urlencoded c text))"
  shows "\<exists>form es. t_form t = Some form \<and> emitFields form v (template_sources t) (\<lambda>n. n) = Inr es
    \<and> (if es = [] then text = [] else read_query text = map entry_pair es)"
proof -
  define ct where "ct = (case t_contentType t of None \<Rightarrow> jsonMediaType | Some c \<Rightarrow> c)"
  from assms(2) obtain form where form: "t_form t = Some form" and e: "encode_form t ct form v limits = Inr (Body_urlencoded c text)"
    by (auto simp: encodeBody_def ct_def [symmetric] Let_def encode_file_body_def res_map_Inr_iff res_bind_Inr_iff
        split: if_splits option.splits js.splits)
  from e obtain ms where ct: "ct = urlEncodedMediaType"
    and ms: "emitFields form v (template_sources t) percentEncode = Inr ms"
    and tx: "text = join_with ''&'' (map entry_text ms)"
    unfolding encode_form_def Let_def
    by (auto simp: res_bind_Inr_iff res_map_Inr_iff split: if_splits)
  from createRequestTemplate_Inr(10) [OF assms(1)] have t: "t_form t = (if t_contentType t = None then None else i_form input)"
    "t_contentType t = (if body_flag input \<and> i_contentType input \<noteq> Some jsonMediaType then i_contentType input else None)"
    by (simp_all add: build_template_def Let_def)
  with form ct have i: "i_form input = Some form" "i_contentType input = Some urlEncodedMediaType" "body_flag input"
    by (auto simp: ct_def urlencoded_kinds split: if_splits option.splits)
  with createRequestTemplate_Inr(7) [OF assms(1)] have "assertFormBody input urlEncodedMediaType = Inr ()"
    by (simp add: assertBodyEncoding_def urlencoded_kinds)
  then obtain names where "check_form_fields input urlEncodedMediaType [] (fb_fields form) = Inr names"
    using i(1) by (auto simp: assertFormBody_def res_bind_Inr_iff split: if_splits)
  then have nf: "\<not> is_file_field f" if "f \<in> set (fb_fields form)" for f
    using check_form_fields_no_file that by blast
  from ms obtain mss where mss: "traverse (emit_field (fb_notation form) (template_sources t) percentEncode v) (fb_fields form) = Inr mss"
    and m: "ms = concat mss" by (auto simp: emitFields_def res_map_Inr_iff)
  have "\<exists>ess. traverse (emit_field (fb_notation form) (template_sources t) (\<lambda>n. n) v) (fb_fields form) = Inr ess
    \<and> list_all2 (list_all2 same_entry) mss ess"
    by (rule traverse_related [OF mss]) (erule emit_field_same, erule nf)
  then obtain ess where ess: "traverse (emit_field (fb_notation form) (template_sources t) (\<lambda>n. n) v) (fb_fields form) = Inr ess"
    and rel: "list_all2 same_entry ms (concat ess)" unfolding m using list_all2_concat by blast
  from ess have es: "emitFields form v (template_sources t) (\<lambda>n. n) = Inr (concat ess)" by (simp add: emitFields_def)
  have "if concat ess = [] then text = [] else read_query text = map entry_pair (concat ess)"
  proof (cases "ms = []")
    case True
    with rel tx show ?thesis by simp
  next
    case False
    have "\<forall>w \<in> set (map entry_text ms). CHR ''&'' \<notin> set w"
      using rel by (induction rule: list_all2_induct) (simp_all add: read_entry(2))
    with False have "read_query text = map read_pair (map entry_text ms)"
      unfolding tx by (intro read_query_join) simp_all
    also have "\<dots> = map entry_pair (concat ess)"
      using rel by (induction rule: list_all2_induct) (simp_all add: read_entry(1))
    finally have "read_query text = map entry_pair (concat ess)" .
    moreover from rel False have "concat ess \<noteq> []" by (metis list_all2_Nil2)
    ultimately show ?thesis by (simp only: if_False)
  qed
  with form es show ?thesis by blast
qed

section \<open>Concrete bodies\<close>

definition upload_form :: "string \<Rightarrow> form_field list \<Rightarrow> template_input" where
  "upload_form contentType fs = \<lparr>i_method = ''post'', i_route = ''/files'', i_parameters = [],
     i_bodyProperties = Some (map ff_name fs), i_additional = False, i_bodyRoot = None, i_aliases = [],
     i_fills = [], i_rootFill = None, i_requiredFills = [], i_contentType = Some contentType,
     i_form = Some \<lparr>fb_notation = Bracket, fb_fields = fs\<rparr>, i_fileSources = Some defaultFileSources,
     i_carriers = [], i_binaryBody = False\<rparr>"

definition note_field :: form_field where
  "note_field = \<lparr>ff_name = ''note'', ff_shape = F_scalar K_string False\<rparr>"

definition file_field :: form_field where
  "file_field = \<lparr>ff_name = ''file'', ff_shape = F_file False None\<rparr>"

lemma multipart_within_budget_witness:
  "\<exists>t es. createRequestTemplate (upload_form multipartMediaType [file_field]) = Inr t
     \<and> encodeBody t (JObj [(''file'', JObj [(''base64'', JStr ''TWE='')])]) (Some 2)
       = Inr (Some (Body_multipart multipartMediaType es)) \<and> sum_list (map inline_content es) \<le> 2"
proof -
  have "case createRequestTemplate (upload_form multipartMediaType [file_field]) of Inl e \<Rightarrow> False
    | Inr t \<Rightarrow> (case encodeBody t (JObj [(''file'', JObj [(''base64'', JStr ''TWE='')])]) (Some 2) of
        Inr (Some (Body_multipart m es)) \<Rightarrow> m = multipartMediaType | _ \<Rightarrow> False)" by code_simp
  then obtain t es where t: "createRequestTemplate (upload_form multipartMediaType [file_field]) = Inr t"
    and e: "encodeBody t (JObj [(''file'', JObj [(''base64'', JStr ''TWE='')])]) (Some 2)
       = Inr (Some (Body_multipart multipartMediaType es))"
    by (auto split: sum.splits option.splits composed_body.splits)
  from multipart_within_budget [OF e] t e show ?thesis by (auto simp: budget_of_def)
qed

lemma urlencoded_body_reads_back_witness:
  "\<exists>t text. createRequestTemplate (upload_form urlEncodedMediaType [note_field]) = Inr t
     \<and> encodeBody t (JObj [(''note'', JStr ''a&b=c'')]) None = Inr (Some (Body_urlencoded urlEncodedMediaType text))
     \<and> read_query text = [(''note'', ''a&b=c'')]"
proof -
  have "case createRequestTemplate (upload_form urlEncodedMediaType [note_field]) of Inl e \<Rightarrow> False
    | Inr t \<Rightarrow> (case encodeBody t (JObj [(''note'', JStr ''a&b=c'')]) None of
        Inr (Some (Body_urlencoded m x)) \<Rightarrow> m = urlEncodedMediaType | _ \<Rightarrow> False)
      \<and> (case t_form t of None \<Rightarrow> False | Some f \<Rightarrow>
          emitFields f (JObj [(''note'', JStr ''a&b=c'')]) (template_sources t) (\<lambda>n. n)
            = Inr [Emit_value ''note'' ''a&b=c''])" by code_simp
  then obtain t x form where t: "createRequestTemplate (upload_form urlEncodedMediaType [note_field]) = Inr t"
    and e: "encodeBody t (JObj [(''note'', JStr ''a&b=c'')]) None = Inr (Some (Body_urlencoded urlEncodedMediaType x))"
    and f: "t_form t = Some form" and es: "emitFields form (JObj [(''note'', JStr ''a&b=c'')]) (template_sources t) (\<lambda>n. n)
            = Inr [Emit_value ''note'' ''a&b=c'']"
    by (auto split: sum.splits option.splits composed_body.splits)
  from urlencoded_body_reads_back [OF t e] f es have "read_query x = [(''note'', ''a&b=c'')]"
    by (auto simp: entry_pair_def)
  with t e show ?thesis by blast
qed

end
