(* ===== verification/Regex.thy ===== *)
theory Regex
  imports JS_String
begin

text \<open>
  The regular expressions the sources write as literals: their syntax as data, an executable search,
  and the language each stands for as an inductive relation. A match is a step from one place of the
  text to another; a place is the character before it (for \<open>^\<close> and the word boundary) and the text
  after it. Only \<open>test\<close> is modelled, so greed and captures play no part.
\<close>

section \<open>Syntax\<close>

datatype rx =
    Rx_empty
  | Rx_in "char \<Rightarrow> bool" string
  | Rx_not_in "char \<Rightarrow> bool" string
  | Rx_fold char
  | Rx_seq rx rx
  | Rx_alt rx rx
  | Rx_star rx
  | Rx_start
  | Rx_edge

datatype place = At (before: "char option") (after: string)

text \<open>The three kinds of character: in a class, outside one, and a letter in either case (flag \<open>i\<close>).\<close>

definition in_class :: "(char \<Rightarrow> bool) \<Rightarrow> string \<Rightarrow> char \<Rightarrow> bool" where
  "in_class P cs c = (P c \<or> c \<in> set cs)"

definition same_letter :: "char \<Rightarrow> char \<Rightarrow> bool" where
  "same_letter d c = (lower_char c = lower_char d)"

definition no_char :: "char \<Rightarrow> bool" where
  "no_char c = False"

text \<open>Characters \<open>\\w\<close> matches, and the word boundary between two characters.\<close>

definition word_char :: "char \<Rightarrow> bool" where
  "word_char c = (isAsciiUpper c \<or> isAsciiLower c \<or> isAsciiDigit c \<or> c = CHR ''_'')"

definition at_edge :: "place \<Rightarrow> bool" where
  "at_edge p = ((case before p of None \<Rightarrow> False | Some c \<Rightarrow> word_char c)
     \<noteq> (case after p of [] \<Rightarrow> False | c # cs \<Rightarrow> word_char c))"

section \<open>Language\<close>

inductive rx_match :: "rx \<Rightarrow> place \<Rightarrow> place \<Rightarrow> bool" where
  empty: "rx_match Rx_empty p p"
| char_in: "in_class P cs c \<Longrightarrow> rx_match (Rx_in P cs) (At b (c # s)) (At (Some c) s)"
| char_out: "\<not> in_class P cs c \<Longrightarrow> rx_match (Rx_not_in P cs) (At b (c # s)) (At (Some c) s)"
| char_fold: "same_letter d c \<Longrightarrow> rx_match (Rx_fold d) (At b (c # s)) (At (Some c) s)"
| seq: "rx_match r p q \<Longrightarrow> rx_match r' q q' \<Longrightarrow> rx_match (Rx_seq r r') p q'"
| left: "rx_match r p q \<Longrightarrow> rx_match (Rx_alt r r') p q"
| right: "rx_match r' p q \<Longrightarrow> rx_match (Rx_alt r r') p q"
| stop: "rx_match (Rx_star r) p p"
| more: "rx_match r p q \<Longrightarrow> rx_match (Rx_star r) q q' \<Longrightarrow> rx_match (Rx_star r) p q'"
| start: "rx_match Rx_start (At None s) (At None s)"
| edge: "at_edge p \<Longrightarrow> rx_match Rx_edge p p"

inductive_simps rx_match_simps:
  "rx_match Rx_empty p q" "rx_match (Rx_in P cs) p q" "rx_match (Rx_not_in P cs) p q" "rx_match (Rx_fold d) p q" "rx_match (Rx_seq r r') p q"
  "rx_match (Rx_alt r r') p q" "rx_match Rx_start p q" "rx_match Rx_edge p q"

lemma rx_match_advances: "rx_match r p q \<Longrightarrow> p = q \<or> length (after q) < length (after p)"
  by (induction rule: rx_match.induct) auto

section \<open>Search\<close>

text \<open>The places a match from \<open>p\<close> can end at. A repetition that read nothing is not repeated.\<close>

fun iterate :: "(place \<Rightarrow> place list) \<Rightarrow> nat \<Rightarrow> place \<Rightarrow> place list" where
  "iterate f 0 p = [p]"
| "iterate f (Suc n) p =
     p # concat (map (iterate f n) (filter (\<lambda>q. length (after q) < length (after p)) (f p)))"

definition eat :: "bool \<Rightarrow> char \<Rightarrow> string \<Rightarrow> place list" where
  "eat ok c s = (if ok then [At (Some c) s] else [])"

fun rx_ends :: "rx \<Rightarrow> place \<Rightarrow> place list" where
  "rx_ends Rx_empty p = [p]"
| "rx_ends (Rx_in P cs) p = (case after p of [] \<Rightarrow> [] | c # s \<Rightarrow> eat (in_class P cs c) c s)"
| "rx_ends (Rx_not_in P cs) p = (case after p of [] \<Rightarrow> [] | c # s \<Rightarrow> eat (\<not> in_class P cs c) c s)"
| "rx_ends (Rx_fold d) p = (case after p of [] \<Rightarrow> [] | c # s \<Rightarrow> eat (same_letter d c) c s)"
| "rx_ends (Rx_seq r r') p = concat (map (rx_ends r') (rx_ends r p))"
| "rx_ends (Rx_alt r r') p = rx_ends r p @ rx_ends r' p"
| "rx_ends (Rx_star r) p = iterate (rx_ends r) (length (after p)) p"
| "rx_ends Rx_start p = (case before p of None \<Rightarrow> [p] | Some c \<Rightarrow> [])"
| "rx_ends Rx_edge p = (if at_edge p then [p] else [])"

fun places :: "char option \<Rightarrow> string \<Rightarrow> place list" where
  "places b [] = [At b []]"
| "places b (c # s) = At b (c # s) # places (Some c) s"

definition rx_test :: "rx \<Rightarrow> string \<Rightarrow> bool" where
  "rx_test r s = list_ex (\<lambda>p. rx_ends r p \<noteq> []) (places None s)"

section \<open>Search and language agree\<close>

lemma star_progress:
  assumes "rx_match (Rx_star r) p q'" and "p \<noteq> q'"
  shows "\<exists>q. rx_match r p q \<and> length (after q) < length (after p) \<and> rx_match (Rx_star r) q q'"
  using assms
proof (induction "Rx_star r" p q' rule: rx_match.induct)
  case (stop p)
  then show ?case by simp
next
  case (more p q q')
  show ?case
  proof (cases "p = q")
    case True
    with more show ?thesis by blast
  next
    case False
    with rx_match_advances [OF more(1)] more(1,3) show ?thesis by blast
  qed
qed

lemma iterate_iff:
  assumes "\<And>p q. q \<in> set (f p) \<longleftrightarrow> rx_match r p q"
  shows "length (after p) \<le> n \<Longrightarrow> q \<in> set (iterate f n p) \<longleftrightarrow> rx_match (Rx_star r) p q"
proof (induction n arbitrary: p)
  case 0
  then have "\<not> length (after q') < length (after p)" for q' by simp
  with star_progress [of r p q] show ?case by (auto intro: rx_match.stop)
next
  case (Suc n)
  show ?case
  proof
    assume "q \<in> set (iterate f (Suc n) p)"
    then consider "q = p" | q1 where "rx_match r p q1" "length (after q1) < length (after p)" "q \<in> set (iterate f n q1)"
      by (auto simp: assms)
    then show "rx_match (Rx_star r) p q"
    proof cases
      case 1
      then show ?thesis by (simp add: rx_match.stop)
    next
      case 2
      with Suc show ?thesis by (auto intro: rx_match.more)
    qed
  next
    assume m: "rx_match (Rx_star r) p q"
    show "q \<in> set (iterate f (Suc n) p)"
    proof (cases "p = q")
      case False
      with star_progress [OF m] obtain q1 where "rx_match r p q1" "length (after q1) < length (after p)"
        "rx_match (Rx_star r) q1 q" by blast
      with Suc have "q1 \<in> set (f p)" "length (after q1) < length (after p)" "q \<in> set (iterate f n q1)"
        by (auto simp: assms)
      then show ?thesis by auto
    qed simp
  qed
qed

lemma rx_ends_iff: "q \<in> set (rx_ends r p) \<longleftrightarrow> rx_match r p q"
proof (induction r arbitrary: p q)
  case (Rx_star r)
  show ?case using iterate_iff [of "rx_ends r" r p "length (after p)" q] Rx_star by simp
next
  case (Rx_in P cs)
  show ?case by (cases p; cases "after p") (auto simp: rx_match_simps eat_def)
next
  case (Rx_not_in P cs)
  show ?case by (cases p; cases "after p") (auto simp: rx_match_simps eat_def)
next
  case (Rx_fold d)
  show ?case by (cases p; cases "after p") (auto simp: rx_match_simps eat_def)
next
  case Rx_start
  show ?case by (cases p; cases "before p") (auto simp: rx_match_simps)
qed (auto simp: rx_match_simps)

text \<open>The place after the first part of a text.\<close>

definition last_char :: "char option \<Rightarrow> string \<Rightarrow> char option" where
  "last_char b s = (if s = [] then b else Some (last s))"

lemma places_iff: "p \<in> set (places b s) \<longleftrightarrow> (\<exists>u v. s = u @ v \<and> p = At (last_char b u) v)"
proof (induction s arbitrary: b)
  case Nil
  then show ?case by (auto simp: last_char_def)
next
  case (Cons c s)
  have "(\<exists>u v. c # s = u @ v \<and> p = At (last_char b u) v)
    \<longleftrightarrow> p = At b (c # s) \<or> (\<exists>u v. s = u @ v \<and> p = At (last_char (Some c) u) v)"
  proof (intro iffI)
    assume "\<exists>u v. c # s = u @ v \<and> p = At (last_char b u) v"
    then obtain u v where uv: "c # s = u @ v" "p = At (last_char b u) v" by blast
    then show "p = At b (c # s) \<or> (\<exists>u v. s = u @ v \<and> p = At (last_char (Some c) u) v)"
    proof (cases u)
      case Nil
      with uv show ?thesis by (simp add: last_char_def)
    next
      case (Cons d u')
      with uv have "s = u' @ v" "p = At (last_char (Some c) u') v" by (auto simp: last_char_def)
      then show ?thesis by blast
    qed
  next
    assume "p = At b (c # s) \<or> (\<exists>u v. s = u @ v \<and> p = At (last_char (Some c) u) v)"
    then consider "p = At (last_char b []) (c # s)" | u v where "s = u @ v" "p = At (last_char (Some c) u) v"
      by (auto simp: last_char_def)
    then show "\<exists>u v. c # s = u @ v \<and> p = At (last_char b u) v"
    proof cases
      case 1
      then show ?thesis by (metis append_Nil)
    next
      case 2
      then show ?thesis by (intro exI [of _ "c # u"] exI [of _ v]) (auto simp: last_char_def)
    qed
  qed
  with Cons show ?case by simp
qed

lemma rx_test_iff:
  "rx_test r s \<longleftrightarrow> (\<exists>u v q. s = u @ v \<and> rx_match r (At (last_char None u) v) q)"
proof -
  have "rx_test r s \<longleftrightarrow> (\<exists>p \<in> set (places None s). \<exists>q. q \<in> set (rx_ends r p))"
    unfolding rx_test_def list_ex_iff by (metis list.set_intros(1) list.set(1) empty_iff neq_Nil_conv)
  also have "\<dots> \<longleftrightarrow> (\<exists>u v q. s = u @ v \<and> rx_match r (At (last_char None u) v) q)"
    unfolding rx_ends_iff Bex_def places_iff by blast
  finally show ?thesis .
qed

section \<open>Derived forms\<close>

definition rx_opt :: "rx \<Rightarrow> rx" where
  "rx_opt r = Rx_alt r Rx_empty"

definition rx_plus :: "rx \<Rightarrow> rx" where
  "rx_plus r = Rx_seq r (Rx_star r)"

fun rx_cat :: "rx list \<Rightarrow> rx" where
  "rx_cat [] = Rx_empty"
| "rx_cat [r] = r"
| "rx_cat (r # rs) = Rx_seq r (rx_cat rs)"

fun rx_any :: "rx list \<Rightarrow> rx" where
  "rx_any [] = Rx_in no_char []"
| "rx_any [r] = r"
| "rx_any (r # rs) = Rx_alt r (rx_any rs)"

definition rx_lit :: "string \<Rightarrow> rx" where
  "rx_lit s = rx_cat (map (\<lambda>c. Rx_in no_char [c]) s)"

text \<open>A literal under the flag \<open>i\<close>: letters of ASCII match in both cases.\<close>

definition rx_lit_i :: "string \<Rightarrow> rx" where
  "rx_lit_i s = rx_cat (map Rx_fold s)"

definition rx_times :: "nat \<Rightarrow> rx \<Rightarrow> rx" where
  "rx_times n r = rx_cat (replicate n r)"

lemma rx_cat_Cons: "rx_match (rx_cat (r # rs)) p q \<longleftrightarrow> (\<exists>p'. rx_match r p p' \<and> rx_match (rx_cat rs) p' q)"
  by (cases rs) (auto simp: rx_match_simps)

lemma rx_any_iff: "rx_match (rx_any rs) p q \<longleftrightarrow> (\<exists>r \<in> set rs. rx_match r p q)"
  by (induction rs rule: rx_any.induct) (auto simp: rx_match_simps in_class_def no_char_def)

lemma rx_lit_match: "rx_match (rx_lit w) (At b (w @ s)) (At (last_char b w) s)"
proof (induction w arbitrary: b)
  case Nil
  show ?case by (simp add: rx_lit_def last_char_def rx_match.empty)
next
  case (Cons c w)
  have "rx_match (Rx_in no_char [c]) (At b (c # w @ s)) (At (Some c) (w @ s))" by (simp add: rx_match.char_in in_class_def)
  moreover have "rx_match (rx_cat (map (\<lambda>c. Rx_in no_char [c]) w)) (At (Some c) (w @ s)) (At (last_char (Some c) w) s)"
    using Cons.IH [of "Some c"] by (simp add: rx_lit_def)
  ultimately show ?case
    unfolding rx_lit_def list.map rx_cat_Cons by (auto simp: last_char_def)
qed

lemma rx_plus_match:
  assumes "w \<noteq> []" and "\<forall>c \<in> set w. in_class P cs c"
  shows "rx_match (rx_plus (Rx_in P cs)) (At b (w @ s)) (At (last_char b w) s)"
proof -
  have star: "\<forall>c \<in> set v. in_class P cs c \<Longrightarrow> rx_match (Rx_star (Rx_in P cs)) (At d (v @ s)) (At (last_char d v) s)" for v d
  proof (induction v arbitrary: d)
    case Nil
    show ?case by (simp add: last_char_def rx_match.stop)
  next
    case (Cons c v)
    then have "rx_match (Rx_star (Rx_in P cs)) (At (Some c) (v @ s)) (At (last_char (Some c) v) s)" by simp
    with Cons.prems show ?case
      by (auto simp: last_char_def intro: rx_match.more [OF rx_match.char_in])
  qed
  from assms obtain c v where w: "w = c # v" by (cases w) auto
  with assms star [of v "Some c"] show ?thesis
    by (auto simp: rx_plus_def last_char_def rx_match_simps intro: rx_match.char_in)
qed

end
