(* ===== verification/Leak_Filter.thy ===== *)
theory Leak_Filter
  imports Regex
begin

text \<open>
  \<open>packages/http/core/src/leak-filter.ts\<close>: the texts of a backend that may reach an agent. A text is
  normalised, tried against the patterns of stack frames, paths, connection strings and credentials,
  and bounded in length; it is forwarded only when no rule names it.
\<close>

datatype leak_rule = Stack_frame | Exception_type | File_path | Connection_string | Credential | Too_long

definition maxForwardableLength :: nat where
  "maxForwardableLength = 1000"

section \<open>Patterns\<close>

definition sp :: rx where
  "sp = Rx_in is_space []"

definition digit :: rx where
  "digit = Rx_in isAsciiDigit []"

definition letter :: "char \<Rightarrow> bool" where
  "letter c = (isAsciiUpper c \<or> isAsciiLower c)"

definition alnum :: "char \<Rightarrow> bool" where
  "alnum c = (letter c \<or> isAsciiDigit c)"

definition backslash :: char where
  "backslash = CHR 0x5C"

definition at_call :: rx where
  "at_call = rx_cat [Rx_alt Rx_start sp, rx_lit ''at'', rx_plus sp, rx_plus (Rx_in word_char ''$.<>''),
     Rx_star (Rx_in is_space ''.''), rx_lit ''('']"

definition at_position :: rx where
  "at_position = rx_cat [Rx_alt Rx_start sp, rx_lit ''at'', rx_plus sp, rx_plus (Rx_not_in is_space []),
     rx_lit '':'', rx_plus digit, rx_lit '':'', rx_plus digit, rx_opt (rx_lit '')'')]"

definition traceback :: rx where
  "traceback = rx_lit ''Traceback (most recent call last):''"

definition exception_word :: rx where
  "exception_word = rx_cat [Rx_edge, Rx_star (Rx_in word_char []), rx_lit ''Exception'', Rx_edge]"

definition js_error :: rx where
  "js_error = rx_cat [Rx_edge, rx_any (map rx_lit [''TypeError'', ''ReferenceError'', ''SyntaxError'',
     ''RangeError'', ''EvalError'', ''URIError'']), Rx_edge]"

definition drive_path :: rx where
  "drive_path = rx_cat [Rx_in letter [], rx_lit '':'', rx_lit [backslash], rx_plus (Rx_not_in is_space [CHR 0x22])]"

definition unc_path :: rx where
  "unc_path = rx_cat [rx_lit [backslash, backslash], rx_plus (Rx_not_in is_space [backslash]), rx_lit [backslash],
     rx_plus (Rx_not_in is_space [CHR 0x22])]"

definition unix_path :: rx where
  "unix_path = rx_cat [rx_lit ''/'', rx_any (map rx_lit [''Users'', ''home'', ''var'', ''usr'', ''opt'', ''srv'',
     ''app'', ''src'', ''etc'', ''tmp'']), rx_lit ''/'', Rx_star (Rx_not_in is_space [CHR 0x22])]"

definition source_line :: rx where
  "source_line = rx_cat [rx_lit ''.'', rx_any (map rx_lit_i [''cs'', ''ts'', ''tsx'', ''js'', ''jsx'', ''py'',
     ''java'', ''rb'', ''go'', ''php'', ''cpp'', ''c'', ''h'', ''kt'', ''swift'']), rx_lit '':'',
     rx_opt (rx_lit_i ''line ''), rx_plus digit]"

definition connection_key :: rx where
  "connection_key = rx_cat [Rx_edge, rx_any (map rx_lit_i [''Server'', ''Data Source'', ''Password'', ''User Id'',
     ''Uid'', ''Pwd'', ''Initial Catalog'']), Rx_star sp, rx_lit ''='', Rx_star sp,
     rx_plus (Rx_not_in no_char '';''), rx_lit '';'']"

definition connection_scheme :: rx where
  "connection_scheme = rx_cat [Rx_edge, rx_any [rx_cat [rx_lit_i ''mongodb'', rx_opt (rx_lit_i ''+srv'')],
     rx_cat [rx_lit_i ''postgres'', rx_opt (rx_lit_i ''ql'')], rx_lit_i ''mysql'', rx_lit_i ''redis'',
     rx_lit_i ''amqp'', rx_lit_i ''mssql''], rx_lit ''://'']"

definition url_credentials :: rx where
  "url_credentials = rx_cat [rx_lit ''://'', rx_plus (Rx_not_in is_space ''/:@''), rx_lit '':'',
     rx_plus (Rx_not_in is_space ''/:@''), rx_lit ''@'']"

definition bearer_char :: rx where
  "bearer_char = Rx_in alnum ''-._~+/''"

definition bearer_token :: rx where
  "bearer_token = rx_cat [Rx_edge, rx_lit_i ''Bearer'', rx_plus sp, rx_times 8 bearer_char,
     Rx_star bearer_char, Rx_star (rx_lit ''='')]"

definition jwt_part :: rx where
  "jwt_part = rx_plus (Rx_in alnum ''_-'')"

definition json_web_token :: rx where
  "json_web_token = rx_cat [Rx_edge, rx_lit ''eyJ'', jwt_part, rx_lit ''.'', jwt_part, rx_lit ''.'', jwt_part]"

definition leakPatterns :: "(leak_rule \<times> rx) list" where
  "leakPatterns = [(Stack_frame, at_call), (Stack_frame, at_position), (Stack_frame, traceback),
     (Exception_type, exception_word), (Exception_type, js_error), (File_path, drive_path),
     (File_path, unc_path), (File_path, unix_path), (File_path, source_line),
     (Connection_string, connection_key), (Connection_string, connection_scheme),
     (Connection_string, url_credentials), (Credential, bearer_token), (Credential, json_web_token)]"

section \<open>Inspection\<close>

fun one_space :: "bool \<Rightarrow> string \<Rightarrow> string" where
  "one_space seen [] = []"
| "one_space seen (c # s) = (if is_space c then (if seen then one_space True s else CHR '' '' # one_space True s)
     else c # one_space False s)"

definition normalizeWhitespace :: "string \<Rightarrow> string" where
  "normalizeWhitespace s = trim (one_space False s)"

definition inspect :: "string \<Rightarrow> string \<times> leak_rule option" where
  "inspect value =
     (let normalized = normalizeWhitespace value
      in case List.find (\<lambda>p. rx_test (snd p) normalized) leakPatterns of
           Some p \<Rightarrow> (normalized, Some (fst p))
         | None \<Rightarrow> (normalized, if length normalized > maxForwardableLength then Some Too_long else None))"

definition forwardable :: "string \<Rightarrow> string option" where
  "forwardable value = (case inspect value of (normalized, rule) \<Rightarrow> if rule = None then Some normalized else None)"

section \<open>Facts\<close>

text \<open>A normalised text has no space at its ends, none but the plain one, and never two in a row.\<close>

fun tidy_spaces :: "string \<Rightarrow> bool" where
  "tidy_spaces [] = True"
| "tidy_spaces [c] = (is_space c \<longrightarrow> c = CHR '' '')"
| "tidy_spaces (c # d # s) = ((is_space c \<longrightarrow> c = CHR '' '' \<and> \<not> is_space d) \<and> tidy_spaces (d # s))"

lemma tidy_tl: "tidy_spaces (c # s) \<Longrightarrow> tidy_spaces s"
  by (cases s) auto

lemma is_space_blank [simp]: "is_space (CHR '' '')"
  by (simp add: is_space_def)

lemma one_space_not_space: "one_space True s = c # r \<Longrightarrow> \<not> is_space c"
  by (induction s) (auto split: if_splits)

lemma tidy_one_space: "tidy_spaces (one_space seen s)"
proof (induction seen s rule: one_space.induct)
  case (1 seen)
  show ?case by simp
next
  case (2 seen c s)
  consider "is_space c" seen | "is_space c" "\<not> seen" | "\<not> is_space c" by blast
  then show ?case
  proof cases
    case 1
    then show ?thesis using 2 by simp
  next
    case b: 2
    with 2 have "tidy_spaces (one_space True s)" by simp
    with b show ?thesis using one_space_not_space [of s] by (cases "one_space True s") auto
  next
    case 3
    with 2 have "tidy_spaces (one_space False s)" by simp
    with 3 show ?thesis by (cases "one_space False s") auto
  qed
qed

lemma tidy_append: "tidy_spaces (u @ v) \<Longrightarrow> tidy_spaces u \<and> tidy_spaces v"
proof (induction u rule: tidy_spaces.induct)
  case (2 c)
  then show ?case by (cases v) auto
qed auto

lemma dropWhile_suffix: "\<exists>u. s = u @ dropWhile P s"
  by (metis takeWhile_dropWhile_id)

lemma trim_infix: "\<exists>u v. s = u @ trim s @ v"
proof -
  obtain u where u: "s = u @ dropWhile is_space s" using dropWhile_suffix by metis
  obtain v where v: "rev (dropWhile is_space s) = v @ dropWhile is_space (rev (dropWhile is_space s))"
    using dropWhile_suffix by metis
  then have "dropWhile is_space s = trim s @ rev v"
    unfolding trim_def by (metis rev_append rev_rev_ident)
  with u show ?thesis by metis
qed

lemma tidy_normalized: "tidy_spaces (normalizeWhitespace s)"
  unfolding normalizeWhitespace_def using tidy_one_space [of False s] trim_infix [of "one_space False s"] tidy_append
  by metis

lemma one_space_tidy: "tidy_spaces s \<Longrightarrow> (seen \<Longrightarrow> s \<noteq> [] \<Longrightarrow> \<not> is_space (hd s)) \<Longrightarrow> one_space seen s = s"
proof (induction seen s rule: one_space.induct)
  case (2 seen c s)
  show ?case
  proof (cases "is_space c")
    case True
    with 2(5) have "\<not> seen" by auto
    moreover from True 2(4) have "c = CHR '' ''" "s \<noteq> [] \<Longrightarrow> \<not> is_space (hd s)" by (cases s; auto)+
    ultimately show ?thesis using True 2(2) tidy_tl [OF 2(4)] by simp
  next
    case False
    with 2(3) tidy_tl [OF 2(4)] show ?thesis by simp
  qed
qed simp

lemma trim_ends: "trim s \<noteq> [] \<Longrightarrow> \<not> is_space (hd (trim s)) \<and> \<not> is_space (last (trim s))"
proof
  let ?d = "dropWhile is_space s"
  assume ne: "trim s \<noteq> []"
  then have ne': "dropWhile is_space (rev ?d) \<noteq> []" by (simp add: trim_def)
  have "last (trim s) = hd (dropWhile is_space (rev ?d))" unfolding trim_def by (rule last_rev)
  with hd_dropWhile [OF ne'] show "\<not> is_space (last (trim s))" by simp
  have "?d \<noteq> []" using ne unfolding trim_def by (metis dropWhile.simps(1) rev.simps(1))
  obtain v where "rev ?d = v @ dropWhile is_space (rev ?d)" using dropWhile_suffix by metis
  then have "?d = trim s @ rev v" unfolding trim_def by (metis rev_append rev_rev_ident)
  with ne have "hd ?d = hd (trim s)" by simp
  with hd_dropWhile [OF \<open>?d \<noteq> []\<close>] show "\<not> is_space (hd (trim s))" by simp
qed

lemma trim_id: "s = [] \<or> \<not> is_space (hd s) \<and> \<not> is_space (last s) \<Longrightarrow> trim s = s"
proof (elim disjE conjE)
  assume h: "\<not> is_space (hd s)" and l: "\<not> is_space (last s)"
  show ?thesis
  proof (cases "s = []")
    case False
    have "dropWhile is_space s = s" using h False by (cases s) auto
    moreover have "dropWhile is_space (rev s) = rev s" using l False by (cases s rule: rev_cases) auto
    ultimately show ?thesis by (simp add: trim_def)
  qed (simp add: trim_def)
qed (simp add: trim_def)

lemma normalize_idem [simp]: "normalizeWhitespace (normalizeWhitespace s) = normalizeWhitespace s"
proof -
  let ?n = "normalizeWhitespace s"
  have "one_space False ?n = ?n" by (rule one_space_tidy [OF tidy_normalized]) simp
  moreover have "trim ?n = ?n"
    using trim_ends [of "one_space False s"] by (intro trim_id) (auto simp: normalizeWhitespace_def)
  ultimately show ?thesis by (simp add: normalizeWhitespace_def)
qed

lemma forwardable_Some:
  "forwardable v = Some m \<longleftrightarrow> m = normalizeWhitespace v \<and> (\<forall>p \<in> set leakPatterns. \<not> rx_test (snd p) m)
    \<and> length m \<le> maxForwardableLength"
proof -
  have f: "List.find (\<lambda>p. rx_test (snd p) n) leakPatterns = None \<longleftrightarrow> (\<forall>p \<in> set leakPatterns. \<not> rx_test (snd p) n)" for n
    by (auto simp: find_None_iff)
  show ?thesis
    unfolding forwardable_def inspect_def Let_def f [symmetric]
    by (auto split: option.splits)
qed

text \<open>The language of a pattern occurs somewhere in a text.\<close>

definition occurs :: "rx \<Rightarrow> string \<Rightarrow> bool" where
  "occurs r s = (\<exists>u v q. s = u @ v \<and> rx_match r (At (last_char None u) v) q)"

definition clean_text :: "string \<Rightarrow> bool" where
  "clean_text m = ((\<forall>(rule, r) \<in> set leakPatterns. \<not> occurs r m) \<and> length m \<le> 1000)"

lemma forwardable_clean_text: "forwardable v = Some m \<Longrightarrow> clean_text m"
proof -
  assume "forwardable v = Some m"
  then have c: "\<forall>p \<in> set leakPatterns. \<not> rx_test (snd p) m" and l: "length m \<le> 1000"
    unfolding forwardable_Some maxForwardableLength_def by blast+
  from c have "\<forall>(rule, r) \<in> set leakPatterns. \<not> occurs r m" by (auto simp: occurs_def rx_test_iff)
  with l show ?thesis by (simp add: clean_text_def)
qed

text \<open>
  C19: Whatever is forwarded is clean: no part of it is in the language of a leak pattern, it is at most
  1000 characters long, and inspecting it again changes nothing.
\<close>

theorem forwardable_clean:
  assumes "forwardable v = Some m"
  shows "(\<forall>(rule, r) \<in> set leakPatterns. \<not> occurs r m) \<and> length m \<le> 1000 \<and> forwardable m = Some m"
proof -
  have "m = normalizeWhitespace m" using assms unfolding forwardable_Some by (metis normalize_idem)
  then have "forwardable m = Some m" using assms unfolding forwardable_Some by blast
  with forwardable_clean_text [OF assms] show ?thesis by (simp add: clean_text_def)
qed

lemma forwardable_clean_witness:
  "forwardable ''Bad  id'' = Some ''Bad id'' \<and> \<not> occurs exception_word ''Bad id''"
proof -
  have "normalizeWhitespace ''Bad  id'' = ''Bad id''" "\<forall>p \<in> set leakPatterns. \<not> rx_test (snd p) ''Bad id''"
    by code_simp+
  then have f: "forwardable ''Bad  id'' = Some ''Bad id''"
    by (simp add: forwardable_Some maxForwardableLength_def)
  have "(Exception_type, exception_word) \<in> set leakPatterns" by (simp add: leakPatterns_def)
  with forwardable_clean [OF f] f show ?thesis by blast
qed

text \<open>
  A bearer token never passes: a text whose normal form holds the word \<open>Bearer\<close>, a space and eight
  token characters, not in the middle of a word, is withheld.
\<close>

theorem bearer_token_withheld:
  assumes "normalizeWhitespace v = u @ ''Bearer '' @ token @ w" and "length token = 8"
    and "\<forall>c \<in> set token. in_class alnum ''-._~+/'' c" and "u = [] \<or> \<not> word_char (last u)"
  shows "forwardable v = None"
proof -
  let ?p = "At (last_char None u) (''Bearer '' @ token @ w)"
  have "at_edge ?p" using assms(4)
    by (auto simp: at_edge_def last_char_def word_char_def isAsciiUpper_def)
  then have e: "rx_match Rx_edge ?p ?p" by (rule rx_match.edge)
  have lit: "rx_match (rx_lit_i ''Bearer'') ?p (At (Some (CHR ''r'')) ('' '' @ token @ w))"
    unfolding rx_ends_iff [symmetric] by (simp add: rx_lit_i_def same_letter_def eat_def)
  have space: "rx_match (rx_plus sp) (At (Some (CHR ''r'')) ('' '' @ token @ w)) (At (Some (CHR '' '')) (token @ w))"
    using rx_plus_match [of "'' ''" is_space "[]" "Some (CHR ''r'')" "token @ w"] by (simp add: sp_def last_char_def in_class_def)
  have chars: "\<exists>q. rx_match (rx_cat (replicate (length t) bearer_char )) (At b (t @ w)) q"
    if "\<forall>c \<in> set t. in_class alnum ''-._~+/'' c" for t b
    using that
  proof (induction t arbitrary: b)
    case Nil
    show ?case by (auto intro: rx_match.empty)
  next
    case (Cons c t)
    then obtain q where "rx_match (rx_cat (replicate (length t) bearer_char)) (At (Some c) (t @ w)) q"
      by auto
    with Cons.prems show ?case
      unfolding list.size replicate_add [symmetric] add_Suc_right add_0_right replicate_Suc rx_cat_Cons
      unfolding bearer_char_def by (auto intro: rx_match.char_in)
  qed
  from chars [OF assms(3)] assms(2) obtain q
    where tok: "rx_match (rx_times 8 bearer_char) (At (Some (CHR '' '')) (token @ w)) q"
    by (auto simp: rx_times_def)
  have "rx_match bearer_token ?p q"
    unfolding bearer_token_def rx_cat_Cons
    using e lit space tok rx_match.stop [of _ q] by (auto simp: rx_match_simps) (blast intro: rx_match.empty)
  with assms(1) have "rx_test bearer_token (normalizeWhitespace v)" unfolding rx_test_iff by blast
  moreover have "(Credential, bearer_token) \<in> set leakPatterns" by (simp add: leakPatterns_def)
  ultimately have "forwardable v \<noteq> Some m" for m unfolding forwardable_Some by fastforce
  then show ?thesis by (cases "forwardable v") auto
qed

lemma bearer_token_withheld_witness: "forwardable ''sent Bearer abcdefgh'' = None"
  by (rule bearer_token_withheld [where u = "''sent ''" and token = "''abcdefgh''" and w = "[]"]; code_simp)

end
