(* ===== verification/Error_Mapping.thy ===== *)
theory Error_Mapping
  imports Leak_Filter Json_Value
begin

text \<open>
  \<open>packages/http/core/src/error-mapping.ts\<close>: what an agent is told about a backend's response. The
  body is classified, recognisers look for a message or field errors in it, and the envelope carries a
  standard message unless the backend's own text passes the leak filter.

  \<open>parse\<close> stands for \<open>JSON.parse\<close> (\<open>None\<close> for a thrown error); every theorem holds whatever it
  returns. Headers are an object with lower-case names. The number of \<open>retry-after\<close> is kept exact,
  which a double is up to \<open>2 ^ 53\<close>.
\<close>

section \<open>Data\<close>

record backend_response =
  br_status :: nat
  br_contentType :: "string option"
  br_headers :: "(string \<times> string) list"
  br_body :: "string option"

datatype parsed_body = Empty_body | Json_body js | Html_body string | Text_body string

record field_error =
  fe_name :: "string option"
  fe_message :: string

record invoke_outcome =
  oc_message :: "string option"
  oc_fields :: "field_error list option"

type_synonym recognizer = "parsed_body \<Rightarrow> backend_response \<Rightarrow> invoke_outcome option"

record error_mapping_options =
  eo_recognizers :: "recognizer list"
  eo_knownFields :: "string list option"
  eo_fieldAliases :: "(string \<times> string) list"
  eo_hiddenFields :: "string list"

datatype backend_error_code = Validation_failed | Bad_request | Unauthenticated | Forbidden | Not_found
  | Conflict | Rate_limited | Backend_error | Backend_unavailable

record mapped_error =
  me_error :: backend_error_code
  me_message :: string
  me_status :: nat
  me_retryable :: bool
  me_fields :: "field_error list option"
  me_retryAfterSeconds :: "nat option"
  me_reference :: "string option"

record invoke_success =
  is_status :: nat
  is_body :: js
  is_contentType :: "string option"
  is_location :: "string option"

datatype invoke_result = Succeeded invoke_success | Failed mapped_error

section \<open>Codes and standard messages\<close>

definition retryableStatuses :: "nat list" where
  "retryableStatuses = [408, 429, 502, 503, 504]"

definition codeFor :: "nat \<Rightarrow> bool \<Rightarrow> backend_error_code" where
  "codeFor status hasFields =
     (if status = 401 then Unauthenticated
      else if status = 403 then Forbidden
      else if status = 404 \<or> status = 410 then Not_found
      else if status = 409 \<or> status = 412 \<or> status = 428 then Conflict
      else if status = 429 then Rate_limited
      else if status = 408 \<or> status = 502 \<or> status = 503 \<or> status = 504 then Backend_unavailable
      else if status \<ge> 500 then Backend_error
      else if (status = 400 \<or> status = 422) \<and> hasFields then Validation_failed
      else Bad_request)"

definition standardMessage :: "backend_error_code \<Rightarrow> nat \<Rightarrow> nat option \<Rightarrow> string option \<Rightarrow> string" where
  "standardMessage code status retryAfterSeconds reference = (case code of
     Validation_failed \<Rightarrow> ''The backend rejected one or more arguments. Fix the listed fields and call the operation again.''
   | Bad_request \<Rightarrow> ''The backend rejected the request ('' @ nat_text status @ '') without usable details. Check the arguments against the input schema.''
   | Unauthenticated \<Rightarrow> ''The backend did not accept the caller's identity (401). The MCP session's credentials were forwarded unchanged; retrying with the same session will not help.''
   | Forbidden \<Rightarrow> ''The caller is authenticated but not permitted to perform this operation (403).''
   | Not_found \<Rightarrow> ''No resource matched these arguments (404). The operation exists; check identifier arguments.''
   | Conflict \<Rightarrow> ''The request conflicts with the current state of the resource ('' @ nat_text status @ ''). Re-read the resource before retrying.''
   | Rate_limited \<Rightarrow> (case retryAfterSeconds of
       None \<Rightarrow> ''The backend is rate-limiting this caller (429).''
     | Some n \<Rightarrow> ''The backend is rate-limiting this caller (429). Retry after '' @ nat_text n @ '' seconds.'')
   | Backend_error \<Rightarrow> (case reference of
       None \<Rightarrow> ''The backend failed while handling the call ('' @ nat_text status @ ''). Details were withheld.''
     | Some r \<Rightarrow> ''The backend failed while handling the call ('' @ nat_text status @ ''). Details were withheld. Reference: '' @ r @ ''.'')
   | Backend_unavailable \<Rightarrow> ''The backend is temporarily unavailable ('' @ nat_text status @ ''). Retry later.'')"

definition fieldLeakMessage :: string where
  "fieldLeakMessage = ''The value was rejected; details were withheld.''"

section \<open>The body\<close>

definition mediaType :: "string option \<Rightarrow> string option" where
  "mediaType contentType = map_option (\<lambda>c. to_lower (trim (takeWhile (\<lambda>d. d \<noteq> CHR '';'') c))) contentType"

definition looksLikeHtml :: "string \<Rightarrow> bool" where
  "looksLikeHtml trimmed = (let lower = to_lower trimmed in prefix ''<!doctype'' lower \<or> prefix ''<html'' lower)"

definition shouldAttemptJson :: "string option \<Rightarrow> bool" where
  "shouldAttemptJson type = (case type of None \<Rightarrow> True
     | Some t \<Rightarrow> t = ''application/json'' \<or> t = ''text/json'' \<or> suffix ''+json'' t)"

definition parseBody :: "(string \<Rightarrow> js option) \<Rightarrow> string option \<Rightarrow> string option \<Rightarrow> parsed_body" where
  "parseBody parse body contentType =
     (let trimmed = trim (case body of None \<Rightarrow> [] | Some b \<Rightarrow> b);
          type = mediaType contentType
      in if trimmed = [] then Empty_body
         else if type = Some ''text/html'' \<or> looksLikeHtml trimmed then Html_body trimmed
         else (case if shouldAttemptJson type then parse trimmed else None of
             Some v \<Rightarrow> Json_body v | None \<Rightarrow> Text_body trimmed))"

section \<open>Built-in recognisers\<close>

definition json_object :: "parsed_body \<Rightarrow> js option" where
  "json_object parsed = (case parsed of Json_body v \<Rightarrow> if is_plain_object v then Some v else None | _ \<Rightarrow> None)"

definition object_entries :: "js \<Rightarrow> (string \<times> js) list" where
  "object_entries v = (case v of JObj kvs \<Rightarrow> kvs | _ \<Rightarrow> [])"

definition message_outcome :: "string \<Rightarrow> invoke_outcome" where
  "message_outcome m = \<lparr>oc_message = Some m, oc_fields = None\<rparr>"

definition entry_fields :: "string \<times> js \<Rightarrow> field_error list" where
  "entry_fields e = List.map_filter (\<lambda>m. case m of
       JStr s \<Rightarrow> if s = [] then None else Some \<lparr>fe_name = Some (fst e), fe_message = s\<rparr> | _ \<Rightarrow> None)
     (case js_items (snd e) of Some vs \<Rightarrow> vs | None \<Rightarrow> [snd e])"

definition recognizeFieldErrors :: recognizer where
  "recognizeFieldErrors parsed response = (case json_object parsed of
     None \<Rightarrow> None
   | Some v \<Rightarrow>
      if \<not> is_plain_object (js_get v ''errors'') then None
      else (let names = concat (map entry_fields (object_entries (js_get v ''errors'')))
            in if names = [] then None else Some \<lparr>oc_message = None, oc_fields = Some names\<rparr>))"

definition js_number :: "js \<Rightarrow> bool" where
  "js_number v = (case v of JNum n \<Rightarrow> True | _ \<Rightarrow> False)"

definition recognizeProblemDetails :: recognizer where
  "recognizeProblemDetails parsed response = (case json_object parsed of
     None \<Rightarrow> None
   | Some v \<Rightarrow>
      (let detail = js_str (js_get v ''detail''); title = js_str (js_get v ''title'');
           isProblemJson = (mediaType (br_contentType response) = Some ''application/problem+json'');
           hasProblemShape = ((detail \<noteq> None \<or> title \<noteq> None) \<and> js_number (js_get v ''status''))
       in if \<not> isProblemJson \<and> \<not> hasProblemShape then None
          else map_option message_outcome (case detail of None \<Rightarrow> title | Some d \<Rightarrow> Some d)))"

definition recognizeNestException :: recognizer where
  "recognizeNestException parsed response = (case json_object parsed of
     None \<Rightarrow> None
   | Some v \<Rightarrow>
      if \<not> js_number (js_get v ''statusCode'') then None
      else (case js_get v ''message'' of
          JStr s \<Rightarrow> if s = [] then None else Some (message_outcome s)
        | JArr ms \<Rightarrow>
            if \<not> list_all (\<lambda>m. js_str m \<noteq> None) ms then None
            else (let strings = List.map_filter js_str ms
                  in if strings = [] then None
                     else if br_status response = 400 \<or> br_status response = 422
                     then Some \<lparr>oc_message = None,
                            oc_fields = Some (map (\<lambda>s. \<lparr>fe_name = None, fe_message = s\<rparr>) strings)\<rparr>
                     else Some (message_outcome (join_with ''; '' strings)))
        | _ \<Rightarrow> None))"

definition envelopeKeys :: "string list" where
  "envelopeKeys = [''message'', ''detail'', ''error_description'', ''error'', ''title'', ''reason'']"

definition envelope_text :: "(string \<times> js) list \<Rightarrow> string \<Rightarrow> string option" where
  "envelope_text lowered key = (case map_of lowered key of
     Some (JStr s) \<Rightarrow> if s = [] then None else Some s | _ \<Rightarrow> None)"

definition recognizeMessageEnvelope :: recognizer where
  "recognizeMessageEnvelope parsed response = (case parsed of
     Json_body (JStr s) \<Rightarrow> if s = [] then None else Some (message_outcome s)
   | Json_body v \<Rightarrow>
      if \<not> is_plain_object v then None
      else (let lowered = fold (\<lambda>(k, x) m. AList.update (to_lower k) x m) (object_entries v) []
            in case List.map_filter (envelope_text lowered) envelopeKeys of
                 [] \<Rightarrow> None | m # ms \<Rightarrow> Some (message_outcome m))
   | _ \<Rightarrow> None)"

definition recognizePlainText :: recognizer where
  "recognizePlainText parsed response = (case parsed of
     Text_body s \<Rightarrow> if s = [] then None else Some (message_outcome s) | _ \<Rightarrow> None)"

definition builtInRecognizers :: "recognizer list" where
  "builtInRecognizers = [recognizeFieldErrors, recognizeProblemDetails, recognizeNestException,
     recognizeMessageEnvelope, recognizePlainText]"

text \<open>The first outcome a list of recognisers produces.\<close>

fun recognized :: "recognizer list \<Rightarrow> parsed_body \<Rightarrow> backend_response \<Rightarrow> invoke_outcome option" where
  "recognized [] parsed response = None"
| "recognized (r # rs) parsed response = (case r parsed response of
     Some outcome \<Rightarrow> Some outcome | None \<Rightarrow> recognized rs parsed response)"

section \<open>References\<close>

definition referenceHeaders :: "string list" where
  "referenceHeaders = [''x-correlation-id'', ''x-request-id'', ''request-id'', ''x-trace-id'']"

definition referenceFromHeaders :: "(string \<times> string) list \<Rightarrow> string option" where
  "referenceFromHeaders headers =
     (case List.map_filter (\<lambda>n. case map_of headers n of
          Some v \<Rightarrow> if trim v = [] then None else Some (trim v) | None \<Rightarrow> None) referenceHeaders of
        [] \<Rightarrow> None | r # rs \<Rightarrow> Some r)"

definition trace_char :: "char \<Rightarrow> bool" where
  "trace_char c = (alnum c \<or> c \<in> set '':_.-'')"

definition traceIdPattern :: "string \<Rightarrow> bool" where
  "traceIdPattern s = (1 \<le> length s \<and> length s \<le> 100 \<and> list_all trace_char s)"

definition referenceFromProblemDetails :: "parsed_body \<Rightarrow> string option" where
  "referenceFromProblemDetails parsed = (case json_object parsed of
     None \<Rightarrow> None
   | Some v \<Rightarrow> (case js_str (js_get v ''traceId'') of
       Some s \<Rightarrow> if traceIdPattern s then Some s else None | None \<Rightarrow> None))"

definition resolveReference :: "backend_response \<Rightarrow> parsed_body \<Rightarrow> string option" where
  "resolveReference response parsed = (case referenceFromHeaders (br_headers response) of
     Some r \<Rightarrow> Some r | None \<Rightarrow> referenceFromProblemDetails parsed)"

definition decimal :: "string \<Rightarrow> nat" where
  "decimal s = foldl (\<lambda>n c. 10 * n + (of_char c - 48)) 0 s"

definition parseRetryAfter :: "string option \<Rightarrow> nat option" where
  "parseRetryAfter value = (case value of
     None \<Rightarrow> None
   | Some v \<Rightarrow> if trim v \<noteq> [] \<and> list_all isAsciiDigit (trim v) then Some (decimal (trim v)) else None)"

section \<open>Field names\<close>

definition matchInsensitively :: "string \<Rightarrow> string list \<Rightarrow> string option" where
  "matchInsensitively name candidates = List.find (\<lambda>c. to_lower c = to_lower name) candidates"

definition alias_of :: "string \<Rightarrow> error_mapping_options \<Rightarrow> string option" where
  "alias_of name options = (case matchInsensitively name (map fst (eo_fieldAliases options)) of
     Some k \<Rightarrow> map_of (eo_fieldAliases options) k | None \<Rightarrow> None)"

definition known_fields :: "error_mapping_options \<Rightarrow> string list" where
  "known_fields options = (case eo_knownFields options of None \<Rightarrow> [] | Some l \<Rightarrow> l)"

definition normalizeFieldName :: "string \<Rightarrow> error_mapping_options \<Rightarrow> string option" where
  "normalizeFieldName name options =
     (let stripped = (if prefix ''$.'' name then drop 2 name else name)
      in case matchInsensitively stripped (known_fields options) of
           Some k \<Rightarrow> Some k
         | None \<Rightarrow> (case alias_of stripped options of
             Some a \<Rightarrow> Some a
           | None \<Rightarrow> if matchInsensitively stripped (eo_hiddenFields options) \<noteq> None then None
                     else Some stripped))"

definition leading_start :: "char \<Rightarrow> bool" where
  "leading_start c = (letter c \<or> c \<in> set ''_$'')"

definition leading_char :: "char \<Rightarrow> bool" where
  "leading_char c = (alnum c \<or> c \<in> set ''_$.[]'')"

text \<open>The identifier a message starts with, up to its first dot or bracket, in lower case.\<close>

definition leading_token :: "string \<Rightarrow> string option" where
  "leading_token message = (case dropWhile is_space message of
     [] \<Rightarrow> None
   | c # cs \<Rightarrow> if leading_start c
               then Some (to_lower (takeWhile (\<lambda>d. d \<noteq> CHR ''.'' \<and> d \<noteq> CHR ''['') (c # takeWhile leading_char cs)))
               else None)"

definition fieldNameFromMessage :: "string \<Rightarrow> error_mapping_options \<Rightarrow> string option" where
  "fieldNameFromMessage message options =
     (if known_fields options = [] then None
      else (case leading_token message of
          None \<Rightarrow> None
        | Some token \<Rightarrow>
            if token = [] then None
            else if matchInsensitively token (eo_hiddenFields options) \<noteq> None then None
            else (case alias_of token options of
                Some a \<Rightarrow> Some a | None \<Rightarrow> matchInsensitively token (known_fields options))))"

definition normalizeField :: "error_mapping_options \<Rightarrow> field_error \<Rightarrow> field_error" where
  "normalizeField options f =
     \<lparr>fe_name = (case fe_name f of None \<Rightarrow> fieldNameFromMessage (fe_message f) options
                 | Some n \<Rightarrow> normalizeFieldName n options),
      fe_message = (case forwardable (fe_message f) of Some m \<Rightarrow> m | None \<Rightarrow> fieldLeakMessage)\<rparr>"

section \<open>The result\<close>

definition outcome_fields :: "invoke_outcome option \<Rightarrow> field_error list" where
  "outcome_fields outcome = (case outcome of
     None \<Rightarrow> [] | Some oc \<Rightarrow> (case oc_fields oc of None \<Rightarrow> [] | Some l \<Rightarrow> l))"

definition finalizeError :: "nat \<Rightarrow> invoke_outcome option \<Rightarrow> backend_response \<Rightarrow> error_mapping_options
    \<Rightarrow> string option \<Rightarrow> mapped_error" where
  "finalizeError status outcome response options reference =
     (let names = outcome_fields outcome; hasFields = (names \<noteq> []);
          code = codeFor status hasFields;
          retryAfterSeconds = parseRetryAfter (map_of (br_headers response) ''retry-after'');
          forwarded = (case outcome of None \<Rightarrow> None
            | Some oc \<Rightarrow> (case oc_message oc of None \<Rightarrow> None | Some m \<Rightarrow> forwardable m))
      in \<lparr>me_error = code,
          me_message = (case forwarded of Some m \<Rightarrow> m
            | None \<Rightarrow> standardMessage code status retryAfterSeconds reference),
          me_status = status, me_retryable = (status \<in> set retryableStatuses),
          me_fields = (if hasFields then Some (map (normalizeField options) names) else None),
          me_retryAfterSeconds = retryAfterSeconds, me_reference = reference\<rparr>)"

definition buildSuccess :: "backend_response \<Rightarrow> parsed_body \<Rightarrow> invoke_success" where
  "buildSuccess response parsed =
     \<lparr>is_status = br_status response,
      is_body = (case parsed of Json_body v \<Rightarrow> v | Text_body s \<Rightarrow> JStr s | _ \<Rightarrow> JUndef),
      is_contentType = (case parsed of Text_body s \<Rightarrow> br_contentType response | _ \<Rightarrow> None),
      is_location = (if 300 \<le> br_status response \<and> br_status response < 400
        then (case map_of (br_headers response) ''location'' of
                Some l \<Rightarrow> if l = [] then None else Some l | None \<Rightarrow> None) else None)\<rparr>"

definition mapInvokeResult :: "(string \<Rightarrow> js option) \<Rightarrow> backend_response \<Rightarrow> error_mapping_options \<Rightarrow> invoke_result" where
  "mapInvokeResult parse response options =
     (let parsed = parseBody parse (br_body response) (br_contentType response);
          status = br_status response;
          reference = (if status \<ge> 500 then resolveReference response parsed else None)
      in case recognized (eo_recognizers options) parsed response of
           Some outcome \<Rightarrow> Failed (finalizeError status (Some outcome) response options reference)
         | None \<Rightarrow>
            if status < 400 then Succeeded (buildSuccess response parsed)
            else if status = 401 then Failed (finalizeError status None response options None)
            else if status \<ge> 500 then Failed (finalizeError status None response options reference)
            else Failed (finalizeError status (recognized builtInRecognizers parsed response) response options None))"

end
