(* ===== verification/Body_Writer.thy ===== *)
theory Body_Writer
  imports Body_Properties
begin

text \<open>
  \<open>packages/http/core/src/body-writer.ts\<close>: the bytes and the content type of a composed body.

  A byte string is a string. The random boundary and the host's resolver of file references are
  parameters: the resolver's promise is a sum, its left side the rejection. \<open>Buffer.from(s, "base64")\<close>
  is \<open>base64_decode\<close> on the texts \<open>strictBase64\<close> accepts, the only ones that reach it.
  A JSON body is never the value \<open>undefined\<close>: \<open>encodeBody\<close> writes no body for it.
\<close>

section \<open>Bytes\<close>

definition utf8 :: "string \<Rightarrow> string" where
  "utf8 s = concat (map (\<lambda>c. map char_of (utf8_bytes c)) s)"

text \<open>The bytes of a base64 text are those \<open>base64_bytes\<close> reads.\<close>

definition base64_decode :: "string \<Rightarrow> string" where
  "base64_decode s = map char_of (base64_bytes s)"

definition crlf :: string where
  "crlf = [CHR 0x0D, CHR 0x0A]"

section \<open>Part headers\<close>

definition quoted_char_text :: "char \<Rightarrow> string" where
  "quoted_char_text c = (if c = CHR 0x22 then ''%22'' else if c = CHR 0x0D then ''%0D''
     else if c = CHR 0x0A then ''%0A'' else [c])"

definition quoted_value :: "string \<Rightarrow> string" where
  "quoted_value s = concat (map quoted_char_text s)"

definition ascii_printable :: "char \<Rightarrow> bool" where
  "ascii_printable c = (32 \<le> (of_char c :: nat) \<and> (of_char c :: nat) \<le> 126)"

definition attribute :: "string \<Rightarrow> string \<Rightarrow> string" where
  "attribute name v = name @ [CHR ''='', CHR 0x22] @ v @ [CHR 0x22]"

definition dispositionOf :: "string \<Rightarrow> string option \<Rightarrow> string" where
  "dispositionOf name filename =
     (let base = ''form-data; '' @ attribute ''name'' (quoted_value name)
      in case filename of
           None \<Rightarrow> base
         | Some f \<Rightarrow>
            if list_all ascii_printable f then base @ ''; '' @ attribute ''filename'' (quoted_value f)
            else base @ ''; '' @ attribute ''filename''
                   (quoted_value (map (\<lambda>c. if ascii_printable c then c else CHR ''_'') f))
                 @ ''; filename*=UTF-8'' @ [quote_char, quote_char] @ percentEncode f)"

definition part_header :: "string \<Rightarrow> string \<Rightarrow> string" where
  "part_header disposition media =
     ''Content-Disposition: '' @ disposition @ crlf @ ''Content-Type: '' @ media"

section \<open>Files\<close>

record resolved_file =
  rf_bytes :: string
  rf_filename :: string
  rf_mediaType :: string

type_synonym 'e ref_resolver = "file_content \<Rightarrow> string \<Rightarrow> 'e + resolved_file"

definition fileBytes :: "'e ref_resolver \<Rightarrow> file_content \<Rightarrow> string \<Rightarrow> 'e + resolved_file" where
  "fileBytes resolveRef file field = (case file of
     File_text t n m \<Rightarrow> Inr \<lparr>rf_bytes = utf8 t, rf_filename = n, rf_mediaType = m\<rparr>
   | File_base64 b len n m \<Rightarrow> Inr \<lparr>rf_bytes = base64_decode b, rf_filename = n, rf_mediaType = m\<rparr>
   | File_ref r n m fn fm \<Rightarrow> resolveRef file field)"

section \<open>The body\<close>

record written_body =
  wb_contentType :: string
  wb_bytes :: string

text \<open>What one part carries: its header lines and its content.\<close>

definition part_of :: "'e ref_resolver \<Rightarrow> emitted \<Rightarrow> 'e + string \<times> string" where
  "part_of resolveRef e = (case e of
     Emit_value n v \<Rightarrow>
       Inr (utf8 (part_header (dispositionOf n None) ''text/plain; charset=utf-8''), utf8 v)
   | Emit_file n f \<Rightarrow> res_map (\<lambda>file.
       (utf8 (part_header (dispositionOf n (Some (rf_filename file))) (rf_mediaType file)), rf_bytes file))
       (fileBytes resolveRef f n))"

definition part_bytes :: "string \<Rightarrow> string \<times> string \<Rightarrow> string" where
  "part_bytes boundary p = ''--'' @ boundary @ crlf @ fst p @ crlf @ crlf @ snd p @ crlf"

definition multipart_bytes :: "string \<Rightarrow> (string \<times> string) list \<Rightarrow> string" where
  "multipart_bytes boundary ps = concat (map (part_bytes boundary) ps) @ ''--'' @ boundary @ ''--'' @ crlf"

definition boundary_of :: "string \<Rightarrow> string" where
  "boundary_of random = ''----liaiso-'' @ random"

definition writeBody :: "string \<Rightarrow> 'e ref_resolver \<Rightarrow> composed_body \<Rightarrow> 'e + written_body" where
  "writeBody random resolveRef body = (case body of
     Body_json contentType v \<Rightarrow>
       Inr \<lparr>wb_contentType = contentType @ ''; charset=utf-8'',
            wb_bytes = utf8 (case json_text v of None \<Rightarrow> [] | Some t \<Rightarrow> t)\<rparr>
   | Body_text contentType t \<Rightarrow>
       Inr \<lparr>wb_contentType = contentType @ ''; charset=utf-8'', wb_bytes = utf8 t\<rparr>
   | Body_urlencoded contentType encoded \<Rightarrow> Inr \<lparr>wb_contentType = contentType, wb_bytes = encoded\<rparr>
   | Body_binary contentType f \<Rightarrow>
       res_map (\<lambda>file. \<lparr>wb_contentType = contentType, wb_bytes = rf_bytes file\<rparr>) (fileBytes resolveRef f ''body'')
   | Body_multipart contentType parts \<Rightarrow>
       res_map (\<lambda>ps. \<lparr>wb_contentType = contentType @ ''; boundary='' @ boundary_of random,
                     wb_bytes = multipart_bytes (boundary_of random) ps\<rparr>)
         (traverse (part_of resolveRef) parts))"

section \<open>Reading a multipart body\<close>

text \<open>
  A reader after RFC 2046: the parts lie between delimiter lines, and a part's header ends at the
  first empty line.
\<close>

fun find_sub :: "string \<Rightarrow> string \<Rightarrow> (string \<times> string) option" where
  "find_sub d [] = (if d = [] then Some ([], []) else None)"
| "find_sub d (c # s) =
     (if prefix d (c # s) then Some ([], drop (length d) (c # s))
      else map_option (\<lambda>(a, b). (c # a, b)) (find_sub d s))"

lemma find_sub_shorter: "find_sub d s = Some (a, b) \<Longrightarrow> d \<noteq> [] \<Longrightarrow> length b < length s"
proof (induction s arbitrary: a b)
  case (Cons c s)
  then show ?case by (cases d) (auto split: if_splits simp: less_Suc_eq)
qed simp

function split_sub :: "string \<Rightarrow> string \<Rightarrow> string list" where
  "split_sub d s = (if d = [] then [s] else case find_sub d s of
     None \<Rightarrow> [s] | Some p \<Rightarrow> fst p # split_sub d (snd p))"
  by pat_completeness auto
termination
  by (relation "measure (\<lambda>(d, s). length s)") (auto dest: find_sub_shorter)

declare split_sub.simps [simp del]

definition delimiter :: "string \<Rightarrow> string" where
  "delimiter boundary = crlf @ ''--'' @ boundary"

definition read_part :: "string \<Rightarrow> string \<times> string" where
  "read_part chunk = (case find_sub (crlf @ crlf) (drop 2 chunk) of Some p \<Rightarrow> p | None \<Rightarrow> (chunk, []))"

definition read_multipart :: "string \<Rightarrow> string \<Rightarrow> (string \<times> string) list" where
  "read_multipart boundary s =
     map read_part (butlast (tl (split_sub (delimiter boundary) (crlf @ s))))"

section \<open>Finding a delimiter\<close>

lemma find_sub_skip: "CHR 0x0D \<notin> set x \<Longrightarrow> find_sub (CHR 0x0D # d) (x @ s)
    = map_option (\<lambda>(a, b). (x @ a, b)) (find_sub (CHR 0x0D # d) s)"
proof (induction x)
  case Nil
  show ?case by (simp add: option.map_id0 [unfolded id_def] case_prod_eta split_def)
next
  case (Cons c x)
  then have "\<not> prefix (CHR 0x0D # d) (c # x @ s)" by auto
  with Cons show ?case by (auto simp: option.map_comp o_def split_def)
qed

lemma no_overlap:
  assumes "prefix (d0 # d) (c # x @ (d0 # d) @ y)" and "d0 \<notin> set d"
  shows "prefix (d0 # d) (c # x)"
proof -
  from assms(1) have c: "c = d0" and p: "prefix d (x @ d0 # d @ y)" by auto
  show ?thesis
  proof (cases "length d \<le> length x")
    case True
    then have "prefix d x" using p by (metis prefix_length_prefix prefix_append append_Nil2 prefix_def)
    then show ?thesis using c by simp
  next
    case False
    from p obtain z where "x @ d0 # d @ y = d @ z" by (auto simp: prefix_def)
    then have "(x @ d0 # d @ y) ! length x = (d @ z) ! length x" by simp
    then have "d0 = d ! length x" using False by (simp add: nth_append)
    with False assms(2) show ?thesis by (metis nth_mem not_le_imp_less)
  qed
qed

lemma find_sub_first:
  assumes "d0 \<notin> set d" and "\<not> sublist (d0 # d) x"
  shows "find_sub (d0 # d) (x @ (d0 # d) @ y) = Some (x, y)"
  using assms(2)
proof (induction x)
  case Nil
  show ?case by simp
next
  case (Cons c x)
  have "\<not> prefix (d0 # d) (c # x @ (d0 # d) @ y)"
    using no_overlap [of d0 d c x y] assms(1) Cons.prems prefix_imp_sublist by blast
  moreover have "\<not> sublist (d0 # d) x" using Cons.prems by (simp add: sublist_Cons_right)
  ultimately show ?case using Cons.IH by simp
qed

lemma split_sub_join:
  assumes "d0 \<notin> set d" and "\<forall>x \<in> set (xs @ [z]). \<not> sublist (d0 # d) x"
  shows "split_sub (d0 # d) (concat (map (\<lambda>x. x @ d0 # d) xs) @ z) = xs @ [z]"
  using assms(2)
proof (induction xs)
  case Nil
  have "find_sub (d0 # d) z = None"
  proof -
    have "\<not> sublist (d0 # d) z" using Nil by simp
    then show ?thesis
    proof (induction z)
      case (Cons c z)
      then have "\<not> prefix (d0 # d) (c # z)" "\<not> sublist (d0 # d) z"
        using prefix_imp_sublist by (blast, simp add: sublist_Cons_right)
      with Cons.IH show ?case by simp
    qed simp
  qed
  then show ?case by (subst split_sub.simps) simp
next
  case (Cons x xs)
  let ?r = "concat (map (\<lambda>x. x @ d0 # d) xs) @ z"
  have "find_sub (d0 # d) (x @ (d0 # d) @ ?r) = Some (x, ?r)"
    using find_sub_first [OF assms(1), of x ?r] Cons.prems by simp
  then have "split_sub (d0 # d) (x @ (d0 # d) @ ?r) = x # split_sub (d0 # d) ?r"
    by (subst split_sub.simps) simp
  with Cons show ?case by simp
qed

section \<open>A written body reads back\<close>

lemma sublist_split: "sublist b (x @ c # y) \<Longrightarrow> c \<notin> set b \<Longrightarrow> sublist b x \<or> sublist b y"
proof -
  assume b: "sublist b (x @ c # y)" and c: "c \<notin> set b"
  from b consider "sublist b x" | "sublist b (c # y)"
    | u v where "b = u @ v" and "suffix u x" and "prefix v (c # y)"
    unfolding sublist_append by blast
  then show ?thesis
  proof cases
    case 1
    then show ?thesis ..
  next
    case 2
    then show ?thesis using c by (auto simp: sublist_Cons_right prefix_Cons)
  next
    case 3
    then have "v = []" using c by (auto simp: prefix_Cons)
    with 3 show ?thesis by (simp add: suffix_imp_sublist)
  qed
qed

lemma sublist_empty_text: "sublist b [] \<Longrightarrow> b = []"
  by simp

definition line_free :: "string \<Rightarrow> bool" where
  "line_free s = (CHR 0x0D \<notin> set s \<and> CHR 0x0A \<notin> set s)"

text \<open>A boundary is fresh for a part when neither its header nor its content holds it.\<close>

definition fresh_boundary :: "string \<Rightarrow> string \<times> string \<Rightarrow> bool" where
  "fresh_boundary b p = (\<not> sublist b (fst p) \<and> \<not> sublist b (snd p))"

definition part_chunk :: "string \<times> string \<Rightarrow> string" where
  "part_chunk p = crlf @ fst p @ crlf @ crlf @ snd p"

lemma delimiter_fresh:
  assumes "line_free b" and "b \<noteq> []" and "fresh_boundary b p"
  shows "\<not> sublist (delimiter b) (part_chunk p)"
proof
  assume "sublist (delimiter b) (part_chunk p)"
  moreover have "sublist b (delimiter b)"
    using sublist_appendI [of b "crlf @ ''--''" "[]"] by (simp add: delimiter_def)
  ultimately have "sublist b (part_chunk p)" by (rule sublist_order.order_trans [rotated])
  then have s: "sublist b (CHR 0x0D # CHR 0x0A # fst p @ CHR 0x0D # CHR 0x0A # CHR 0x0D # CHR 0x0A # snd p)"
    unfolding part_chunk_def crlf_def append_Cons append_Nil .
  have n: "CHR 0x0D \<notin> set b" "CHR 0x0A \<notin> set b" using assms(1) by (simp_all add: line_free_def)
  have cut: "sublist b (c # y) \<Longrightarrow> c \<notin> set b \<Longrightarrow> sublist b y" for c y
  proof -
    assume "sublist b (c # y)" and "c \<notin> set b"
    then show "sublist b y" using sublist_split [of b "[]" c y] assms(2) by simp
  qed
  have "sublist b (fst p @ CHR 0x0D # CHR 0x0A # CHR 0x0D # CHR 0x0A # snd p)"
    by (rule cut [OF cut [OF s n(1)] n(2)])
  then consider "sublist b (fst p)" | "sublist b (CHR 0x0A # CHR 0x0D # CHR 0x0A # snd p)"
    using sublist_split [of b "fst p" "CHR 0x0D"] n(1) by auto
  then show False
  proof cases
    case 1
    with assms(3) show False by (simp add: fresh_boundary_def)
  next
    case 2
    have "sublist b (snd p)" by (rule cut [OF cut [OF cut [OF 2 n(2)] n(1)] n(2)])
    with assms(3) show False by (simp add: fresh_boundary_def)
  qed
qed

lemma multipart_layout: "crlf @ multipart_bytes b ps
    = concat (map (\<lambda>x. x @ delimiter b) ([] # map part_chunk ps)) @ ''--'' @ crlf"
proof -
  have "crlf @ concat (map (part_bytes b) ps) @ ''--'' @ b @ z
      = delimiter b @ concat (map (\<lambda>p. part_chunk p @ delimiter b) ps) @ z" for z
    by (induction ps arbitrary: z) (simp_all add: part_bytes_def part_chunk_def delimiter_def)
  from this [of "''--'' @ crlf"] show ?thesis by (simp add: multipart_bytes_def o_def)
qed

lemma multipart_chunks:
  assumes "line_free b" and "b \<noteq> []" and "\<forall>p \<in> set ps. fresh_boundary b p"
  shows "split_sub (delimiter b) (crlf @ multipart_bytes b ps) = ([] # map part_chunk ps) @ [''--'' @ crlf]"
proof -
  define d where "d = CHR 0x0A # ''--'' @ b"
  have d: "delimiter b = CHR 0x0D # d" by (simp add: delimiter_def d_def crlf_def)
  have "CHR 0x0D \<notin> set d" using assms(1) by (simp add: d_def line_free_def)
  moreover have "\<not> sublist (delimiter b) x" if x: "x \<in> set (([] # map part_chunk ps) @ [''--'' @ crlf])" for x
  proof -
    have l: "length (delimiter b) > 4" using assms(2) by (simp add: delimiter_def crlf_def)
    from x consider "x = []" | p where "p \<in> set ps" "x = part_chunk p" | "x = ''--'' @ crlf" by auto
    then show ?thesis
    proof cases
      case 1
      with l show ?thesis by (auto simp: d)
    next
      case 2
      then show ?thesis using delimiter_fresh [OF assms(1,2)] assms(3) by blast
    next
      case 3
      with l show ?thesis using sublist_length_le [of "delimiter b" x] by (auto simp: crlf_def)
    qed
  qed
  ultimately show ?thesis unfolding multipart_layout d by (intro split_sub_join) blast+
qed

text \<open>A header of two lines, neither of which holds a line break.\<close>

lemma read_chunk:
  assumes "line_free u" and "line_free v" and "v \<noteq> []"
  shows "read_part (part_chunk (u @ crlf @ v, content)) = (u @ crlf @ v, content)"
proof -
  let ?r = "CHR 0x0D"
  let ?d = "[CHR 0x0A, ?r, CHR 0x0A]"
  let ?rest = "?r # ?d @ content"
  have u: "?r \<notin> set u" and v: "?r \<notin> set v" using assms by (simp_all add: line_free_def)
  have v0: "hd v \<noteq> ?r" using assms(3) v by (cases v) auto
  have "find_sub (?r # ?d) (v @ ?rest) = Some (v, content)"
    using find_sub_skip [OF v, of ?d ?rest] by simp
  moreover have "find_sub (?r # ?d) (?r # CHR 0x0A # v @ ?rest)
      = map_option (\<lambda>(a, b). (?r # CHR 0x0A # a, b)) (find_sub (?r # ?d) (v @ ?rest))"
    using v0 assms(3) by (cases v) (auto simp: option.map_comp o_def split_def)
  ultimately have "find_sub (?r # ?d) (?r # CHR 0x0A # v @ ?rest) = Some (?r # CHR 0x0A # v, content)"
    by simp
  with find_sub_skip [OF u, of ?d "?r # CHR 0x0A # v @ ?rest"]
  have "find_sub (?r # ?d) (u @ ?r # CHR 0x0A # v @ ?rest) = Some (u @ ?r # CHR 0x0A # v, content)" by simp
  then show ?thesis by (simp add: read_part_def part_chunk_def crlf_def)
qed

section \<open>No name or filename leaves its header line\<close>

lemma line_free_simps [simp]:
  "line_free []" "line_free (c # s) \<longleftrightarrow> c \<noteq> CHR 0x0D \<and> c \<noteq> CHR 0x0A \<and> line_free s"
  "line_free (s @ t) \<longleftrightarrow> line_free s \<and> line_free t"
  by (auto simp: line_free_def)

lemma line_free_concat: "\<forall>c. line_free (f c) \<Longrightarrow> line_free (concat (map f s))"
  by (induction s) auto

lemma line_free_quoted: "line_free (quoted_value s)"
  unfolding quoted_value_def by (rule line_free_concat) (auto simp: quoted_char_text_def)

lemma line_free_encoded: "line_free (percentEncode s)"
proof -
  have "list_all encoded_char (percentEncode s)" by (rule percentEncode_encoded)
  moreover have "\<not> encoded_char (CHR 0x0D)" "\<not> encoded_char (CHR 0x0A)" by code_simp+
  ultimately show ?thesis by (auto simp: line_free_def list_all_iff)
qed

lemma line_free_disposition: "line_free (dispositionOf n f)"
  by (auto simp: dispositionOf_def Let_def attribute_def line_free_quoted line_free_encoded
      split: option.split)

lemma utf8_simps [simp]: "utf8 [] = []" "utf8 (s @ t) = utf8 s @ utf8 t"
  by (simp_all add: utf8_def)

lemma utf8_ascii: "(of_char c :: nat) < 128 \<Longrightarrow> utf8 (c # s) = c # utf8 s"
  by (simp add: utf8_def utf8_bytes_def)

lemma utf8_crlf [simp]: "utf8 crlf = crlf"
  by (simp add: crlf_def utf8_ascii)

lemma line_free_utf8: "line_free s \<Longrightarrow> line_free (utf8 s)"
proof (induction s)
  case (Cons c s)
  have 1: "CHR 0x0D \<noteq> (char_of n :: char) \<and> CHR 0x0A \<noteq> (char_of n :: char)" if "128 \<le> n" "n < 256" for n :: nat
  proof -
    have "(of_char (char_of n :: char) :: nat) = n" using that by (simp add: of_char_char_of_small)
    moreover have "(of_char (CHR 0x0D) :: nat) = 13" "(of_char (CHR 0x0A) :: nat) = 10" by simp_all
    ultimately have "(of_char (CHR 0x0D) :: nat) \<noteq> of_char (char_of n :: char)"
      "(of_char (CHR 0x0A) :: nat) \<noteq> of_char (char_of n :: char)" using that by linarith+
    then show ?thesis by metis
  qed
  have "line_free (map char_of (utf8_bytes c))"
  proof (cases "(of_char c :: nat) < 128")
    case True
    with Cons.prems show ?thesis by (simp add: utf8_bytes_def)
  next
    case False
    have "(of_char c :: nat) div 64 < 4" by (rule less_mult_imp_div_less) simp
    then have "128 \<le> 192 + (of_char c :: nat) div 64" "192 + (of_char c :: nat) div 64 < 256"
      "128 \<le> 128 + (of_char c :: nat) mod 64" "128 + (of_char c :: nat) mod 64 < 256"
      by (linarith, linarith, simp, simp add: less_trans [OF mod_less_divisor])
    with 1 have "CHR 0x0D \<noteq> (char_of (192 + (of_char c :: nat) div 64) :: char)"
      "CHR 0x0A \<noteq> (char_of (192 + (of_char c :: nat) div 64) :: char)"
      "CHR 0x0D \<noteq> (char_of (128 + (of_char c :: nat) mod 64) :: char)"
      "CHR 0x0A \<noteq> (char_of (128 + (of_char c :: nat) mod 64) :: char)" by blast+
    with False show ?thesis unfolding utf8_bytes_def Let_def by (simp del: of_char_of char_of_nat) 
  qed
  with Cons show ?case by (simp add: utf8_def)
qed simp

lemma utf8_header: "utf8 (part_header d m)
    = utf8 (''Content-Disposition: '' @ d) @ crlf @ utf8 (''Content-Type: '' @ m)"
  unfolding part_header_def by (simp only: utf8_simps utf8_crlf append.assoc)

text \<open>The media types a file part is written with have no line break.\<close>

definition plain_media :: "'e ref_resolver \<Rightarrow> emitted \<Rightarrow> bool" where
  "plain_media resolveRef e = (case e of
     Emit_file n f \<Rightarrow> (case fileBytes resolveRef f n of Inr file \<Rightarrow> line_free (rf_mediaType file) | Inl x \<Rightarrow> True)
   | Emit_value n v \<Rightarrow> True)"

lemma part_of_reads_back:
  assumes "part_of resolveRef e = Inr p" and "plain_media resolveRef e"
  shows "read_part (part_chunk p) = p"
proof -
  from assms obtain d m content where p: "p = (utf8 (part_header d m), content)"
    and d: "line_free d" and m: "line_free m"
    by (cases e) (auto simp: part_of_def plain_media_def res_map_Inr_iff line_free_disposition)
  have "line_free (utf8 (''Content-Disposition: '' @ d))" "line_free (utf8 (''Content-Type: '' @ m))"
    by (rule line_free_utf8; simp add: d m)+
  moreover have "utf8 (''Content-Type: '' @ m) \<noteq> []" by (simp add: utf8_ascii)
  ultimately show ?thesis unfolding p utf8_header by (rule read_chunk)
qed

section \<open>Properties\<close>

text \<open>
  C23: A multipart body reads back: a reader that splits at the announced boundary finds the written
  parts, one for one and in order, each with its own header lines and its content byte for byte,
  whatever the names, the filenames and the contents hold, when the boundary is fresh and the media
  types have no line break.
\<close>

theorem multipart_reads_back:
  assumes "writeBody random resolveRef (Body_multipart c es) = Inr w"
    and "traverse (part_of resolveRef) es = Inr ps"
    and "line_free random" and "\<forall>p \<in> set ps. fresh_boundary (boundary_of random) p"
    and "\<forall>e \<in> set es. plain_media resolveRef e"
  shows "wb_contentType w = c @ ''; boundary='' @ boundary_of random
    \<and> read_multipart (boundary_of random) (wb_bytes w) = ps"
proof -
  have w: "w = \<lparr>wb_contentType = c @ ''; boundary='' @ boundary_of random,
      wb_bytes = multipart_bytes (boundary_of random) ps\<rparr>"
    using assms(1,2) by (simp add: writeBody_def)
  have "line_free (boundary_of random)" "boundary_of random \<noteq> []" using assms(3) by (simp_all add: boundary_of_def)
  then have "read_multipart (boundary_of random) (wb_bytes w) = map (read_part \<circ> part_chunk) ps"
    using multipart_chunks [OF _ _ assms(4)] by (simp add: w read_multipart_def)
  moreover have "\<forall>p \<in> set ps. read_part (part_chunk p) = p"
    by (rule traverse_all [OF assms(2)]) (use assms(5) part_of_reads_back in blast)
  ultimately show ?thesis by (simp add: w map_idI)
qed

definition sample_parts :: "emitted list" where
  "sample_parts = [Emit_value ''note'' ''a'',
     Emit_file [CHR ''f'', CHR 0x22] (File_text ''hi'' ''n.txt'' ''text/csv'')]"

definition no_refs :: "unit ref_resolver" where
  "no_refs = (\<lambda>f n. Inl ())"

lemma multipart_reads_back_witness:
  "\<exists>ps w. writeBody ''0f'' no_refs (Body_multipart multipartMediaType sample_parts) = Inr w
     \<and> length ps = 2 \<and> read_multipart (boundary_of ''0f'') (wb_bytes w) = ps"
proof -
  have "case traverse (part_of no_refs) sample_parts of Inl e \<Rightarrow> False
      | Inr ps \<Rightarrow> length ps = 2 \<and> list_all (fresh_boundary (boundary_of ''0f'')) ps"
    by code_simp
  then obtain ps where ps: "traverse (part_of no_refs) sample_parts = Inr ps" and n: "length ps = 2"
    and f: "\<forall>p \<in> set ps. fresh_boundary (boundary_of ''0f'') p"
    by (auto simp: list_all_iff split: sum.splits)
  define w where "w = \<lparr>wb_contentType = multipartMediaType @ ''; boundary='' @ boundary_of ''0f'',
      wb_bytes = multipart_bytes (boundary_of ''0f'') ps\<rparr>"
  have w: "writeBody ''0f'' no_refs (Body_multipart multipartMediaType sample_parts) = Inr w"
    by (simp add: writeBody_def ps w_def)
  have m: "\<forall>e \<in> set sample_parts. plain_media no_refs e"
    by (simp add: sample_parts_def plain_media_def fileBytes_def)
  from multipart_reads_back [OF w ps _ f m] n w show ?thesis by auto
qed

text \<open>
  A media type of the agent can end its part's header. The grammar allows any white space around
  \<open>;\<close>, so a type with an empty line in front of a parameter is accepted, and a reader takes what follows
  the empty line for the start of the file's content.
\<close>

definition broken_media :: string where
  "broken_media = ''text/csv'' @ crlf @ crlf @ '';a=b''"

definition broken_file :: js where
  "broken_file = JObj [(''text'', JStr ''1,2''), (''mediaType'', JStr broken_media)]"

definition broken_part :: "file_content \<Rightarrow> string" where
  "broken_part f = (case writeBody ''0f'' no_refs (Body_multipart multipartMediaType [Emit_file ''file'' f]) of
     Inl e \<Rightarrow> [] | Inr w \<Rightarrow> snd (hd (read_multipart (boundary_of ''0f'') (wb_bytes w))))"

theorem media_type_splits_part:
  "readFile broken_file ''file'' ''file'' None defaultFileSources = Inr (File_text ''1,2'' ''file'' broken_media)
     \<and> broken_part (File_text ''1,2'' ''file'' broken_media) = '';a=b'' @ crlf @ crlf @ ''1,2''"
proof
  show "readFile broken_file ''file'' ''file'' None defaultFileSources = Inr (File_text ''1,2'' ''file'' broken_media)"
    by code_simp
  show "broken_part (File_text ''1,2'' ''file'' broken_media) = '';a=b'' @ crlf @ crlf @ ''1,2''"
    by code_simp
qed

end
