(* ===== verification/Deadline.thy ===== *)
theory Deadline
  imports Prelude
begin

text \<open>
  \<open>packages/http/core/src/invoke/deadline.ts\<close>: the deadline of an invocation and the race between
  work and abandonment.

  \<open>abandonment\<close> is what \<open>armDeadline\<close> closes over: the reason, the resolution signal it aborts,
  the one listener, the timer with the milliseconds it still has to run, and whether \<open>onAbort\<close> is
  attached to the caller's signal. \<open>ab_notified\<close> records the calls of listeners. An event is one
  call of the returned interface, an abort of the caller's signal, or one millisecond of the
  timer's clock; the timer's callback runs in the millisecond it is due.
\<close>

section \<open>The deadline\<close>

datatype abort_reason = Timeout | Caller | Pipeline

record dispatch_deadline =
  dd_signal :: "bool option"
  dd_timeoutMs :: "nat option"

record 'l abandonment =
  ab_reason :: "abort_reason option"
  ab_aborted :: bool
  ab_listener :: "'l option"
  ab_timer :: "nat option"
  ab_attached :: bool
  ab_notified :: "('l \<times> abort_reason) list"

definition unarmed :: "'l abandonment" where
  "unarmed = \<lparr>ab_reason = None, ab_aborted = False, ab_listener = None, ab_timer = None,
     ab_attached = False, ab_notified = []\<rparr>"

definition abandon :: "abort_reason \<Rightarrow> 'l abandonment \<Rightarrow> 'l abandonment" where
  "abandon reason a =
     (if ab_reason a \<noteq> None then a
      else a\<lparr>ab_reason := Some reason, ab_aborted := True,
             ab_notified := ab_notified a @ (case ab_listener a of None \<Rightarrow> [] | Some l \<Rightarrow> [(l, reason)])\<rparr>)"

definition attach_signal :: "bool option \<Rightarrow> 'l abandonment \<Rightarrow> 'l abandonment" where
  "attach_signal signal a = (case signal of
     None \<Rightarrow> a
   | Some aborted \<Rightarrow> if aborted then abandon Caller a else a\<lparr>ab_attached := True\<rparr>)"

definition armDeadline :: "dispatch_deadline option \<Rightarrow> 'l abandonment" where
  "armDeadline deadline =
     (let signal = Option.bind deadline dd_signal;
          timeoutMs = (case Option.bind deadline dd_timeoutMs of None \<Rightarrow> 0 | Some n \<Rightarrow> n)
      in (attach_signal signal unarmed)\<lparr>ab_timer := (if timeoutMs > 0 then Some timeoutMs else None)\<rparr>)"

definition onAbandon :: "'l \<Rightarrow> 'l abandonment \<Rightarrow> 'l abandonment" where
  "onAbandon listener a = a\<lparr>ab_listener := Some listener\<rparr>"

definition dispose :: "'l abandonment \<Rightarrow> 'l abandonment" where
  "dispose a = a\<lparr>ab_timer := None, ab_attached := False\<rparr>"

definition caller_aborts :: "'l abandonment \<Rightarrow> 'l abandonment" where
  "caller_aborts a = (if ab_attached a then abandon Caller (a\<lparr>ab_attached := False\<rparr>) else a)"

definition elapse :: "'l abandonment \<Rightarrow> 'l abandonment" where
  "elapse a = (case ab_timer a of
     None \<Rightarrow> a
   | Some n \<Rightarrow> if n \<le> 1 then abandon Timeout (a\<lparr>ab_timer := None\<rparr>) else a\<lparr>ab_timer := Some (n - 1)\<rparr>)"

datatype 'l deadline_event = Abandon abort_reason | On_abandon 'l | Dispose | Caller_aborts | Elapse

fun deadline_step :: "'l deadline_event \<Rightarrow> 'l abandonment \<Rightarrow> 'l abandonment" where
  "deadline_step (Abandon r) a = abandon r a"
| "deadline_step (On_abandon l) a = onAbandon l a"
| "deadline_step Dispose a = dispose a"
| "deadline_step Caller_aborts a = caller_aborts a"
| "deadline_step Elapse a = elapse a"

definition deadline_run :: "dispatch_deadline option \<Rightarrow> 'l deadline_event list \<Rightarrow> 'l abandonment" where
  "deadline_run deadline es = fold deadline_step es (armDeadline deadline)"

section \<open>Work raced against abandonment\<close>

datatype ('v, 'e) settlement = Resolved 'v | Rejected 'e | Abandoned abort_reason

text \<open>
  The promise of \<open>untilAbandoned\<close>: its settlement, and whether \<open>onAbort\<close> listens on the signal.
  Settling a settled promise does nothing.
\<close>

record ('v, 'e) race =
  rc_settled :: "('v, 'e) settlement option"
  rc_listening :: bool

definition settle :: "('v, 'e) settlement \<Rightarrow> ('v, 'e) race \<Rightarrow> ('v, 'e) race" where
  "settle s r = (if rc_settled r = None then r\<lparr>rc_settled := Some s\<rparr> else r)"

definition reason_or_caller :: "abort_reason option \<Rightarrow> abort_reason" where
  "reason_or_caller reason = (case reason of None \<Rightarrow> Caller | Some r \<Rightarrow> r)"

definition untilAbandoned :: "'l abandonment \<Rightarrow> ('v, 'e) race" where
  "untilAbandoned a =
     (if ab_aborted a
      then \<lparr>rc_settled = Some (Abandoned (reason_or_caller (ab_reason a))), rc_listening = False\<rparr>
      else \<lparr>rc_settled = None, rc_listening = True\<rparr>)"

definition race_abort :: "'l abandonment \<Rightarrow> ('v, 'e) race \<Rightarrow> ('v, 'e) race" where
  "race_abort a r =
     (if rc_listening r then settle (Abandoned (reason_or_caller (ab_reason a))) (r\<lparr>rc_listening := False\<rparr>)
      else r)"

definition race_work :: "('v, 'e) settlement \<Rightarrow> ('v, 'e) race \<Rightarrow> ('v, 'e) race" where
  "race_work s r = settle s (r\<lparr>rc_listening := False\<rparr>)"

section \<open>Invariant\<close>

text \<open>
  The signal is aborted exactly when there is a reason, and a listener has been told at most once,
  with that reason.
\<close>

definition abandonment_ok :: "'l abandonment \<Rightarrow> bool" where
  "abandonment_ok a = ((ab_aborted a \<longleftrightarrow> ab_reason a \<noteq> None)
     \<and> (ab_notified a = [] \<or> (\<exists>l r. ab_reason a = Some r \<and> ab_notified a = [(l, r)])))"

lemma abandon_ok: "abandonment_ok a \<Longrightarrow> abandonment_ok (abandon r a)"
  by (auto simp: abandonment_ok_def abandon_def split: option.splits)

lemma abandonment_ok_irrelevant [simp]:
  "abandonment_ok (a\<lparr>ab_timer := t\<rparr>) = abandonment_ok a"
  "abandonment_ok (a\<lparr>ab_attached := b\<rparr>) = abandonment_ok a"
  "abandonment_ok (a\<lparr>ab_listener := m\<rparr>) = abandonment_ok a"
  by (simp_all add: abandonment_ok_def)

lemma armDeadline_ok: "abandonment_ok (armDeadline deadline)"
proof -
  have "abandonment_ok unarmed" by (simp add: abandonment_ok_def unarmed_def)
  then show ?thesis
    by (auto simp: armDeadline_def attach_signal_def Let_def abandon_ok split: option.splits)
qed

lemma deadline_step_ok: "abandonment_ok a \<Longrightarrow> abandonment_ok (deadline_step e a)"
  by (cases e) (auto simp: onAbandon_def dispose_def caller_aborts_def elapse_def abandon_ok split: option.splits)

lemma fold_deadline_ok: "abandonment_ok a \<Longrightarrow> abandonment_ok (fold deadline_step es a)"
  by (induction es arbitrary: a) (simp_all add: deadline_step_ok)

lemma abandon_reason [simp]:
  "ab_reason (abandon r a) = (case ab_reason a of None \<Rightarrow> Some r | Some r' \<Rightarrow> Some r')"
  by (auto simp: abandon_def split: option.splits)

lemma abandon_timer [simp]: "ab_timer (abandon r a) = ab_timer a"
  by (simp add: abandon_def)

lemma reason_kept: "ab_reason a = Some r \<Longrightarrow> ab_reason (deadline_step e a) = Some r"
  by (cases e) (auto simp: onAbandon_def dispose_def caller_aborts_def elapse_def split: option.splits)

lemma fold_reason_kept: "ab_reason a = Some r \<Longrightarrow> ab_reason (fold deadline_step es a) = Some r"
  by (induction es arbitrary: a) (simp_all add: reason_kept)

section \<open>Expiry\<close>

text \<open>How many milliseconds the timer's clock ran.\<close>

definition elapsed :: "'l deadline_event list \<Rightarrow> nat" where
  "elapsed es = length (filter (\<lambda>e. e = Elapse) es)"

lemma elapsed_simps [simp]: "elapsed [] = 0" "elapsed (e # es) = (if e = Elapse then Suc (elapsed es) else elapsed es)"
  by (simp_all add: elapsed_def)

text \<open>A pending timer that is not disposed of abandons once its time has passed, and never before.\<close>

lemma timer_expires:
  assumes "ab_timer a = Some n" and "Dispose \<notin> set es" and "n \<le> elapsed es" and "0 < n"
  shows "ab_reason (fold deadline_step es a) \<noteq> None"
  using assms
proof (induction es arbitrary: a n)
  case Nil
  then show ?case by simp
next
  case (Cons e es)
  show ?case
  proof (cases "e = Elapse")
    case True
    show ?thesis
    proof (cases "n \<le> 1")
      case True
      then have "ab_reason (deadline_step e a) \<noteq> None"
        using Cons.prems(1) \<open>e = Elapse\<close> by (auto simp: elapse_def split: option.splits)
      then show ?thesis using fold_reason_kept [of "deadline_step e a" _ es] by auto
    next
      case False
      then have "ab_timer (deadline_step e a) = Some (n - 1)"
        using Cons.prems(1) \<open>e = Elapse\<close> by (simp add: elapse_def)
      then show ?thesis using Cons.IH [of "deadline_step e a" "n - 1"] Cons.prems False \<open>e = Elapse\<close> by simp
    qed
  next
    case False
    then have "ab_timer (deadline_step e a) = Some n"
      using Cons.prems(1,2) by (cases e) (auto simp: onAbandon_def caller_aborts_def)
    then show ?thesis using Cons.IH [of "deadline_step e a" n] Cons.prems False by simp
  qed
qed

lemma timer_not_early:
  assumes "ab_timer a = Some n \<and> elapsed es < n \<or> ab_timer a = None"
    and "ab_reason a \<noteq> Some Timeout" and "Abandon Timeout \<notin> set es"
  shows "ab_reason (fold deadline_step es a) \<noteq> Some Timeout"
  using assms
proof (induction es arbitrary: a n)
  case Nil
  then show ?case by simp
next
  case (Cons e es)
  have 1: "ab_reason (deadline_step e a) \<noteq> Some Timeout"
    using Cons.prems
    by (cases e) (auto simp: onAbandon_def dispose_def caller_aborts_def elapse_def split: option.splits)
  have 2: "(\<exists>m. ab_timer (deadline_step e a) = Some m \<and> elapsed es < m) \<or> ab_timer (deadline_step e a) = None"
    using Cons.prems(1)
    by (cases e) (auto simp: onAbandon_def dispose_def caller_aborts_def elapse_def split: option.splits)
  from 1 2 Cons.prems(3) Cons.IH [of "deadline_step e a"] show ?case by auto
qed

section \<open>Properties\<close>

text \<open>
  An invocation is abandoned at most once. Whatever the order of timer, caller and pipeline, the
  first reason is kept through every later event, the resolution signal is aborted exactly when there
  is one, and at most one listener is told, once, with that reason.
\<close>

theorem abandoned_once:
  fixes es fs :: "'l deadline_event list" and deadline :: "dispatch_deadline option"
  defines "a \<equiv> deadline_run deadline es"
  shows "(ab_aborted a \<longleftrightarrow> ab_reason a \<noteq> None)
    \<and> (ab_notified a = [] \<or> (\<exists>l r. ab_reason a = Some r \<and> ab_notified a = [(l, r)]))
    \<and> (\<forall>r. ab_reason a = Some r \<longrightarrow> ab_reason (deadline_run deadline (es @ fs)) = Some r)"
proof -
  have "abandonment_ok a" unfolding a_def deadline_run_def by (intro fold_deadline_ok armDeadline_ok)
  moreover have "ab_reason (deadline_run deadline (es @ fs)) = Some r" if "ab_reason a = Some r" for r
    using fold_reason_kept [OF that] by (simp add: a_def deadline_run_def)
  ultimately show ?thesis by (simp add: abandonment_ok_def)
qed

lemma abandoned_once_witness:
  "ab_reason (deadline_run (Some \<lparr>dd_signal = Some False, dd_timeoutMs = Some 2\<rparr>)
      ([On_abandon (), Elapse, Elapse] @ [Caller_aborts, Abandon Pipeline])) = Some Timeout"
proof -
  have "ab_reason (deadline_run (Some \<lparr>dd_signal = Some False, dd_timeoutMs = Some 2\<rparr>)
      [On_abandon (), Elapse, Elapse]) = Some Timeout"
    by (simp add: deadline_run_def armDeadline_def attach_signal_def unarmed_def onAbandon_def elapse_def
        abandon_def Let_def)
  then show ?thesis using abandoned_once by blast
qed

text \<open>
  A deadline of \<open>n\<close> milliseconds ends every invocation that is not disposed of: after \<open>n\<close>
  milliseconds the signal is aborted, whatever else happened, and the reason is never the timeout
  before.
\<close>

theorem deadline_expires:
  fixes es :: "'l deadline_event list" and signal :: "bool option"
  assumes "0 < n" and "Dispose \<notin> set es"
  defines "a \<equiv> deadline_run (Some \<lparr>dd_signal = signal, dd_timeoutMs = Some n\<rparr>) es"
  shows "(n \<le> elapsed es \<longrightarrow> ab_aborted a)
    \<and> (elapsed es < n \<and> Abandon Timeout \<notin> set es \<longrightarrow> ab_reason a \<noteq> Some Timeout)"
proof -
  let ?a = "armDeadline (Some \<lparr>dd_signal = signal, dd_timeoutMs = Some n\<rparr>) :: 'l abandonment"
  have t: "ab_timer ?a = Some n" using assms(1) by (simp add: armDeadline_def)
  have r: "ab_reason ?a \<noteq> Some Timeout"
    by (auto simp: armDeadline_def attach_signal_def unarmed_def Let_def split: option.splits)
  have "abandonment_ok a" unfolding a_def deadline_run_def by (intro fold_deadline_ok armDeadline_ok)
  then have "ab_aborted a" if "n \<le> elapsed es"
    using timer_expires [OF t assms(2) that assms(1)] by (simp add: abandonment_ok_def a_def deadline_run_def)
  moreover have "ab_reason a \<noteq> Some Timeout" if "elapsed es < n \<and> Abandon Timeout \<notin> set es"
    using timer_not_early [of ?a n es] t r that by (simp add: a_def deadline_run_def)
  ultimately show ?thesis by blast
qed

lemma deadline_expires_witness:
  "ab_aborted (deadline_run (Some \<lparr>dd_signal = None, dd_timeoutMs = Some 2\<rparr>) [Elapse, On_abandon (), Elapse])"
  using deadline_expires [of 2 "[Elapse, On_abandon (), Elapse]" None] by simp

end
