(* ===== verification/Search_Tokens.thy ===== *)
theory Search_Tokens
  imports JS_String "HOL-Library.List_Lexorder"
begin

text \<open>
  \<open>foldToken\<close> and \<open>tokenize\<close> of \<open>packages/http/core/src/search.ts\<close>, the normal form under which the
  search index, the tag filter and the diagnostics of the catalog compare words. On code units below
  256 a decomposed letter is an ASCII letter followed by a mark, which folding drops; no other
  character decomposes, and nothing recomposes. Final sigma lies outside the range.
\<close>

section \<open>Unicode classes below 256\<close>

definition is_Lu :: "char \<Rightarrow> bool" where
  "is_Lu c = (let n = of_char c :: nat in 65 \<le> n \<and> n \<le> 90 \<or> 192 \<le> n \<and> n \<le> 222 \<and> n \<noteq> 215)"

definition is_Ll :: "char \<Rightarrow> bool" where
  "is_Ll c = (let n = of_char c :: nat in 97 \<le> n \<and> n \<le> 122 \<or> n = 181 \<or> 223 \<le> n \<and> n \<noteq> 247)"

definition is_Lo :: "char \<Rightarrow> bool" where
  "is_Lo c = ((of_char c :: nat) \<in> {170, 186})"

definition is_N :: "char \<Rightarrow> bool" where
  "is_N c = (isAsciiDigit c \<or> (of_char c :: nat) \<in> {178, 179, 185, 188, 189, 190})"

definition letterOrDigit :: "char \<Rightarrow> bool" where
  "letterOrDigit c = (is_Lu c \<or> is_Ll c \<or> is_Lo c \<or> is_N c)"

section \<open>Folding\<close>

text \<open>The base letters of the characters from 192 up; a character that does not decompose is its own.\<close>

definition base_letters :: string where
  "base_letters = ''AAAAAA'' @ [CHR 0xC6] @ ''CEEEEIIII'' @ [CHR 0xD0] @ ''NOOOOO'' @ [CHR 0xD7, CHR 0xD8]
     @ ''UUUUY'' @ [CHR 0xDE, CHR 0xDF] @ ''aaaaaa'' @ [CHR 0xE6] @ ''ceeeeiiii'' @ [CHR 0xF0] @ ''nooooo''
     @ [CHR 0xF7, CHR 0xF8] @ ''uuuuy'' @ [CHR 0xFE] @ ''y''"

definition base_char :: "char \<Rightarrow> char" where
  "base_char c = (let n = of_char c :: nat in if n < 192 then c else base_letters ! (n - 192))"

definition foldToken :: "string \<Rightarrow> string" where
  "foldToken s = to_lower (map base_char s)"

section \<open>Tokens\<close>

definition flush :: "string \<Rightarrow> string list" where
  "flush current =
     (let folded = foldToken current
      in if length folded < 2 then []
         else if length folded > 3 \<and> last folded = CHR ''s'' then [butlast folded] else [folded])"

text \<open>A word also begins at a capital that follows a small letter, or that ends a run of capitals.\<close>

definition word_boundary :: "char option \<Rightarrow> char \<Rightarrow> string \<Rightarrow> bool" where
  "word_boundary previous c rest = (case previous of
     None \<Rightarrow> False
   | Some p \<Rightarrow> is_Lu c \<and> (is_Ll p \<or> is_Lu p \<and> rest \<noteq> [] \<and> is_Ll (hd rest)))"

fun token_scan :: "char option \<Rightarrow> string \<Rightarrow> string \<Rightarrow> string list" where
  "token_scan previous current [] = flush current"
| "token_scan previous current (c # rest) =
     (if \<not> letterOrDigit c then flush current @ token_scan (Some c) [] rest
      else if word_boundary previous c rest then flush current @ token_scan (Some c) [c] rest
      else token_scan (Some c) (current @ [c]) rest)"

definition tokenize :: "string \<Rightarrow> string list" where
  "tokenize s = (if trim s = [] then [] else token_scan None [] s)"

section \<open>What folding and tokenizing yield\<close>

definition fold_char :: "char \<Rightarrow> char" where
  "fold_char c = lower_char (base_char c)"

lemma folded_base_letters: "list_all (\<lambda>b. fold_char (lower_char b) = lower_char b) base_letters"
  by (simp add: base_letters_def fold_char_def base_char_def lower_char_def Let_def) code_simp

lemma fold_char_idem [simp]: "fold_char (fold_char c) = fold_char c"
proof (cases "(of_char c :: nat) < 192")
  case True
  then have "base_char c = c" by (simp add: base_char_def)
  with True show ?thesis by (auto simp: fold_char_def base_char_def lower_char_def Let_def)
next
  case False
  have "(of_char c :: nat) < 256" by simp
  with False have "(of_char c :: nat) - 192 < 64" by linarith
  also have "64 = length base_letters" by (simp add: base_letters_def)
  finally have "base_char c \<in> set base_letters" using False by (simp add: base_char_def)
  with folded_base_letters show ?thesis by (simp add: list_all_iff fold_char_def [of c])
qed

lemma foldToken_map: "foldToken s = map fold_char s"
  by (simp add: foldToken_def to_lower_def fold_char_def)

lemma foldToken_idem: "foldToken (foldToken s) = foldToken s"
  by (simp add: foldToken_map)

lemma length_foldToken [simp]: "length (foldToken s) = length s"
  by (simp add: foldToken_def to_lower_def)

lemma flush_folded: "t \<in> set (flush s) \<Longrightarrow> foldToken t = t \<and> 2 \<le> length t"
proof -
  assume "t \<in> set (flush s)"
  then have t: "t = foldToken s \<and> 2 \<le> length (foldToken s) \<or> t = butlast (foldToken s) \<and> 3 < length (foldToken s)"
    by (auto simp: flush_def Let_def split: if_splits)
  have "foldToken (butlast (foldToken s)) = butlast (foldToken s)"
    by (simp add: foldToken_map flip: map_butlast)
  with t foldToken_idem [of s] show ?thesis by auto
qed

lemma token_scan_folded: "t \<in> set (token_scan p cur s) \<Longrightarrow> foldToken t = t \<and> 2 \<le> length t"
  by (induction p cur s rule: token_scan.induct) (auto split: if_splits dest: flush_folded)

lemma tokenize_folded: "t \<in> set (tokenize s) \<Longrightarrow> foldToken t = t \<and> 2 \<le> length t"
  by (auto simp: tokenize_def dest: token_scan_folded split: if_splits)

end
