(* ===== verification/Card.thy ===== *)
theory Card
  imports Tool Visibility Search_Tokens Error_Mapping
begin

text \<open>
  \<open>packages/http/core/src/card.ts\<close>, the projections of a tool an agent sees and searches by, and
  \<open>invoke-guard.ts\<close> and \<open>invoke-arguments.ts\<close>, what an invocation does with odd arguments and with an
  answer it has to refuse. Published schemas are JSON values of any shape. The ellipsis, outside the
  modelled characters, is the argument \<open>mark\<close>.
\<close>

section \<open>Cards\<close>

definition cardDescriptionBudget :: nat where "cardDescriptionBudget = 160"

text \<open>\<open>lastIndexOf(" ", n)\<close>: the last space at a position up to \<open>n\<close>.\<close>

definition last_space :: "string \<Rightarrow> nat \<Rightarrow> nat option" where
  "last_space s n = (case filter (\<lambda>i. s ! i = CHR '' '') [0..<min (Suc n) (length s)] of
     [] \<Rightarrow> None | is \<Rightarrow> Some (last is))"

definition truncateDescription :: "string \<Rightarrow> string \<Rightarrow> string" where
  "truncateDescription mark s =
     (if length s \<le> cardDescriptionBudget then s
      else (case last_space s cardDescriptionBudget of
          Some n \<Rightarrow> if n > cardDescriptionBudget div 2 then take n s else take cardDescriptionBudget s
        | None \<Rightarrow> take cardDescriptionBudget s) @ mark)"

text \<open>A schema that is an object and no array has properties; the type of anything else is unknown.\<close>

definition typeLabel :: "js \<Rightarrow> string" where
  "typeLabel schema = (case js_get schema ''type'' of
     JStr t \<Rightarrow> t
   | JArr ts \<Rightarrow> (case List.map_filter js_str (filter (\<lambda>t. t \<noteq> JStr ''null'') ts) of t # _ \<Rightarrow> t | [] \<Rightarrow> ''any'')
   | _ \<Rightarrow> ''any'')"

definition required_names :: "js \<Rightarrow> string list" where
  "required_names inputSchema = (case js_get inputSchema ''required'' of
     JArr names \<Rightarrow> List.map_filter js_str names | _ \<Rightarrow> [])"

definition summarizeParameters :: "js \<Rightarrow> string" where
  "summarizeParameters inputSchema =
     join_with '', '' (map (\<lambda>(name, schema). name @ '': '' @ typeLabel schema
         @ (if name \<in> set (required_names inputSchema) then '' (required)'' else ''''))
       (js_entries (js_get inputSchema ''properties'')))"

definition memberTerms :: "string \<Rightarrow> js \<Rightarrow> string list" where
  "memberTerms grp schema = map (\<lambda>m. grp @ ''.'' @ m) (js_keys (js_get schema ''properties''))"

definition searchParameters :: "js \<Rightarrow> string list \<Rightarrow> string list" where
  "searchParameters inputSchema grouped =
     concat (map (\<lambda>(name, schema). name # (case js_get schema ''description'' of JStr d \<Rightarrow> [d] | _ \<Rightarrow> [])
         @ (if name \<in> set grouped then memberTerms name schema else []))
       (js_entries (js_get inputSchema ''properties'')))"

record card =
  card_name :: string
  card_description :: string
  card_parameters :: string
  card_deprecated :: bool
  card_authUncertain :: bool

definition createCard :: "string \<Rightarrow> tool_definition \<Rightarrow> visibility \<Rightarrow> card" where
  "createCard mark t decision = \<lparr>card_name = td_name t, card_description = truncateDescription mark (td_description t),
     card_parameters = summarizeParameters (td_inputSchema t), card_deprecated = td_deprecated t,
     card_authUncertain = (decision = Unknown)\<rparr>"

record tool_detail =
  de_name :: string
  de_description :: string
  de_inputSchema :: js
  de_outputSchema :: "js option"
  de_annotations :: annotations
  de_deprecated :: bool
  de_authUncertain :: bool

definition createDetail :: "tool_definition \<Rightarrow> visibility \<Rightarrow> tool_detail" where
  "createDetail t decision = \<lparr>de_name = td_name t, de_description = td_description t,
     de_inputSchema = td_inputSchema t,
     de_outputSchema = (if td_outputSchema t = JUndef then None else Some (td_outputSchema t)),
     de_annotations = td_annotations t, de_deprecated = td_deprecated t,
     de_authUncertain = (decision = Unknown)\<rparr>"

section \<open>Arguments of an invocation\<close>

text \<open>\<open>parse\<close> is \<open>JSON.parse\<close>, nothing when it throws.\<close>

definition normalizeInvokeArguments :: "(string \<Rightarrow> js option) \<Rightarrow> js \<Rightarrow> js \<times> bool" where
  "normalizeInvokeArguments parse raw = (case raw of
     JUndef \<Rightarrow> (JObj [], False)
   | JNull \<Rightarrow> (JObj [], False)
   | JStr s \<Rightarrow> (case parse s of
       Some (JObj kvs) \<Rightarrow> (JObj kvs, True)
     | _ \<Rightarrow> (raw, False))
   | _ \<Rightarrow> (raw, False))"

section \<open>Refusals\<close>

datatype sdk_error_code = Sdk_unknown_tool | Sdk_not_invocable | Sdk_unknown_argument | Sdk_invalid_path_type
  | Sdk_missing_path_parameter | Sdk_header_injection | Sdk_null_not_allowed | Sdk_invalid_type
  | Sdk_deferred_value_missing | Sdk_deferred_value_invalid | Sdk_invalid_cookie_value
  | Sdk_cookie_carrier_collision | Sdk_invalid_file_argument | Sdk_file_too_large | Sdk_file_unresolved
  | Sdk_response_too_large | Sdk_invoke_timeout | Sdk_internal_error

datatype payload_kind = Kind_array | Kind_object | Kind_text

type_synonym payload_shape = "payload_kind \<times> nat option"

record payload_facts =
  pf_bytes :: nat
  pf_limit :: nat
  pf_shape :: payload_shape

record sdk_error =
  se_error :: sdk_error_code
  se_message :: string
  se_retryable :: bool
  se_fields :: "field_error list option"
  se_payload :: "payload_facts option"

definition sdkError :: "sdk_error_code \<Rightarrow> string \<Rightarrow> sdk_error" where
  "sdkError code message = \<lparr>se_error = code, se_message = message, se_retryable = False, se_fields = None,
     se_payload = None\<rparr>"

definition describePayload :: "js \<Rightarrow> payload_shape" where
  "describePayload v = (case v of
     JArr vs \<Rightarrow> (Kind_array, Some (length vs))
   | JObj kvs \<Rightarrow> (Kind_object, Some (length kvs))
   | JProto \<Rightarrow> (Kind_object, Some 0)
   | JStr s \<Rightarrow> (Kind_text, Some (length s))
   | _ \<Rightarrow> (Kind_text, None))"

definition narrowingFallback :: string where
  "narrowingFallback = ''Constrains the result set.''"

definition maxNarrowingArguments :: nat where "maxNarrowingArguments = 8"

definition cardinalityTokens :: "string list" where
  "cardinalityTokens = [''limit'', ''top'', ''take'', ''max'', ''count'', ''size'', ''page'', ''per'']"

definition selectionTokens :: "string list" where
  "selectionTokens = [''offset'', ''skip'', ''cursor'', ''after'', ''before'', ''filter'', ''query'', ''search'',
     ''field'', ''select'', ''since'', ''from'', ''until'', ''status'']"

definition carries_token :: "string list \<Rightarrow> string \<times> js \<Rightarrow> bool" where
  "carries_token tokens e = list_ex (\<lambda>t. t \<in> set tokens) (tokenize (fst e))"

definition narrowing_of :: "string \<times> js \<Rightarrow> field_error" where
  "narrowing_of e = \<lparr>fe_name = Some (fst e),
     fe_message = (case js_get (snd e) ''description'' of JStr d \<Rightarrow> d | _ \<Rightarrow> narrowingFallback)\<rparr>"

definition narrowingArguments :: "js \<Rightarrow> field_error list" where
  "narrowingArguments schema =
     (let properties = js_entries (js_get schema ''properties'');
          cardinality = filter (carries_token cardinalityTokens) properties;
          selection = filter (\<lambda>e. \<not> carries_token cardinalityTokens e \<and> carries_token selectionTokens e) properties
      in take maxNarrowingArguments (map narrowing_of (cardinality @ selection)))"

definition shapeSentence :: "payload_shape \<Rightarrow> string" where
  "shapeSentence shape = (case shape of
     (kind, None) \<Rightarrow> ''The body is not a JSON array or object.''
   | (Kind_array, Some n) \<Rightarrow> ''The body is an array of '' @ nat_text n @ '' items.''
   | (Kind_object, Some n) \<Rightarrow> ''The body is an object with '' @ nat_text n @ '' properties.''
   | (Kind_text, Some n) \<Rightarrow> ''The body is a text value of '' @ nat_text n @ '' characters.'')"

definition refuseOversizeResponse :: "nat \<Rightarrow> nat \<Rightarrow> payload_shape \<Rightarrow> field_error list \<Rightarrow> sdk_error" where
  "refuseOversizeResponse bytes limit shape named =
     \<lparr>se_error = Sdk_response_too_large,
      se_message = join_with '' '' [''The response is '' @ nat_text bytes @ '' bytes; the limit is '' @ nat_text limit @ '' bytes.'',
        ''It is refused, not truncated: no part of the body was returned.'', shapeSentence shape,
        if named = [] then ''No argument of this call narrows the response.''
        else ''Narrow it and call again: ''
          @ join_with '', '' (map (\<lambda>f. case fe_name f of Some n \<Rightarrow> n | None \<Rightarrow> ''undefined'') named) @ ''.''],
      se_retryable = False, se_fields = (if named = [] then None else Some named),
      se_payload = Some \<lparr>pf_bytes = bytes, pf_limit = limit, pf_shape = shape\<rparr>\<rparr>"

datatype file_refusal = File_not_found | File_forbidden | File_unavailable | File_too_large

definition refuseUnresolvedFile :: "string \<Rightarrow> file_refusal \<Rightarrow> nat \<Rightarrow> sdk_error" where
  "refuseUnresolvedFile field reason limit = (case reason of
     File_too_large \<Rightarrow> sdkError Sdk_file_too_large (''File argument '' @ quoted field @ '' is over the limit of ''
       @ nat_text limit @ '' bytes and was not sent.'')
   | File_unavailable \<Rightarrow> (sdkError Sdk_file_unresolved (''File argument '' @ quoted field
       @ '' could not be resolved right now. Retry the call.''))\<lparr>se_retryable := True\<rparr>
   | _ \<Rightarrow> sdkError Sdk_file_unresolved (''File argument '' @ quoted field
       @ '' names a ref that could not be resolved. Retrying with the same ref will not help.''))"

definition refuseTimedOutInvoke :: "nat \<Rightarrow> sdk_error" where
  "refuseTimedOutInvoke limitMs = (sdkError Sdk_invoke_timeout (''The backend did not answer within ''
     @ nat_text limitMs @ '' ms and the call was abandoned. ''
     @ ''The operation may already have been applied; re-read before retrying.''))\<lparr>se_retryable := True\<rparr>"

section \<open>Facts\<close>

lemma last_space_bound: "last_space s n = Some i \<Longrightarrow> i \<le> n"
proof -
  assume "last_space s n = Some i"
  then have "filter (\<lambda>i. s ! i = CHR '' '') [0..<min (Suc n) (length s)] \<noteq> []
      \<and> i = last (filter (\<lambda>i. s ! i = CHR '' '') [0..<min (Suc n) (length s)])"
    unfolding last_space_def by (auto split: list.splits)
  then have "i \<in> set (filter (\<lambda>i. s ! i = CHR '' '') [0..<min (Suc n) (length s)])" using last_in_set by blast
  then show ?thesis by simp
qed

lemma truncated_length:
  "cardDescriptionBudget < length s \<Longrightarrow> length (truncateDescription mark s) \<le> cardDescriptionBudget + length mark"
  using last_space_bound [of s cardDescriptionBudget]
  by (auto simp: truncateDescription_def min_def split: option.split)

lemma truncated_short: "length s \<le> cardDescriptionBudget \<Longrightarrow> truncateDescription mark s = s"
  by (simp add: truncateDescription_def)

lemma refused_refs_alike: "refuseUnresolvedFile field File_not_found limit = refuseUnresolvedFile field File_forbidden limit"
  by (simp add: refuseUnresolvedFile_def)

lemma narrowing_bounded: "length (narrowingArguments schema) \<le> maxNarrowingArguments"
  by (simp add: narrowingArguments_def Let_def)

end
