(* ===== verification/Dispatch.thy ===== *)
theory Dispatch
  imports Body_Writer Deadline Composer_Headers Card
begin

text \<open>
  \<open>sdks/nestjs/src/dispatcher.ts\<close> and \<open>synthetic-context.ts\<close>: one composed request through the
  host's own HTTP pipeline, under a deadline.

  The synchronous part of the host's pipeline and its later calls of the response object are
  parameters: the list of response operations it performs before it returns and the error it throws,
  and one event for every later operation. The host's projector is a function on the headers. A
  dispatch is a state machine over the events of the event loop; \<open>Turn\<close> runs the continuation that
  waits for a settled promise.
\<close>

section \<open>Headers\<close>

datatype header_field = One string | Many "string list"

definition field_text :: "header_field \<Rightarrow> string" where
  "field_text v = (case v of One s \<Rightarrow> s | Many vs \<Rightarrow> join_with '', '' vs)"

record outer_request =
  or_headers :: "(string \<times> header_field) list"
  or_protocol :: "string option"

record synthetic_options =
  sy_host :: "string option"
  sy_scheme :: "string option"
  sy_accept :: "string option"
  sy_userAgent :: "string option"

type_synonym header_map = "(string \<times> string) list"

definition outer_header :: "outer_request option \<Rightarrow> string \<Rightarrow> header_field option" where
  "outer_header outer name = Option.bind outer (\<lambda>r. map_of (or_headers r) name)"

definition string_header :: "outer_request option \<Rightarrow> string \<Rightarrow> string option" where
  "string_header outer name = (case outer_header outer name of Some (One s) \<Rightarrow> Some s | _ \<Rightarrow> None)"

definition dispatch_scheme :: "synthetic_options \<Rightarrow> outer_request option \<Rightarrow> string" where
  "dispatch_scheme synthetic outer = (case sy_scheme synthetic of
     Some s \<Rightarrow> s
   | None \<Rightarrow> (case Option.bind outer or_protocol of Some p \<Rightarrow> if p = [] then ''http'' else p | None \<Rightarrow> ''http''))"

definition base_headers :: "synthetic_options \<Rightarrow> outer_request option \<Rightarrow> header_map" where
  "base_headers synthetic outer =
     (let host = (case sy_host synthetic of Some h \<Rightarrow> h
            | None \<Rightarrow> (case string_header outer ''host'' of Some h \<Rightarrow> h | None \<Rightarrow> ''localhost''));
          accept = (case sy_accept synthetic of Some a \<Rightarrow> if a = [] then [] else [(''accept'', a)] | None \<Rightarrow> [])
      in [(''host'', host)] @ accept
         @ [(''user-agent'', case sy_userAgent synthetic of Some u \<Rightarrow> u | None \<Rightarrow> ''liaiso/0.0.0'')])"

definition trace_step :: "outer_request option \<Rightarrow> string \<Rightarrow> header_map \<Rightarrow> header_map" where
  "trace_step outer name headers = (case string_header outer name of
     Some v \<Rightarrow> obj_put name v headers | None \<Rightarrow> headers)"

definition carrier_step :: "outer_request option \<Rightarrow> string \<Rightarrow> header_map \<Rightarrow> header_map" where
  "carrier_step outer name headers = (case outer_header outer name of
     Some v \<Rightarrow> obj_put name (field_text v) headers | None \<Rightarrow> headers)"

definition identity_headers :: "string list \<Rightarrow> (outer_request \<Rightarrow> header_map \<Rightarrow> header_map) option
    \<Rightarrow> outer_request option \<Rightarrow> header_map \<Rightarrow> header_map" where
  "identity_headers carriers projector outer headers = (case outer of
     None \<Rightarrow> headers
   | Some r \<Rightarrow>
      (let forwarded = fold (carrier_step outer) carriers
             (fold (trace_step outer) [''traceparent'', ''tracestate''] headers)
       in case projector of None \<Rightarrow> forwarded | Some p \<Rightarrow> p r forwarded))"

definition composed_step :: "header_map \<Rightarrow> string \<times> string \<Rightarrow> argument_error + header_map" where
  "composed_step headers h =
     (let key = to_lower (fst h)
      in if key = ''cookie''
         then res_map (\<lambda>merged. case merged of None \<Rightarrow> headers | Some v \<Rightarrow> obj_put ''cookie'' v headers)
                (mergeCookieHeader (map_of headers ''cookie'') (Some (snd h)))
         else Inr (obj_put key (snd h) headers))"

definition dispatch_headers :: "synthetic_options \<Rightarrow> string list
    \<Rightarrow> (outer_request \<Rightarrow> header_map \<Rightarrow> header_map) option \<Rightarrow> outer_request option \<Rightarrow> header_map
    \<Rightarrow> argument_error + header_map" where
  "dispatch_headers synthetic carriers projector outer composed =
     fold_res composed_step (identity_headers carriers projector outer (base_headers synthetic outer)) composed"

section \<open>File references\<close>

record ref_file =
  rr_bytes :: string
  rr_filename :: "string option"
  rr_mediaType :: "string option"

datatype ref_error = No_resolver string | File_refused string file_refusal nat

definition usableFilename :: "string option \<Rightarrow> string option" where
  "usableFilename v = Option.bind v (\<lambda>s. if valid_filename s then Some s else None)"

definition usableMediaType :: "string option \<Rightarrow> string option" where
  "usableMediaType v = Option.bind v (\<lambda>s. if mediaTypeGrammar s then Some s else None)"

definition first_some :: "string option list \<Rightarrow> string \<Rightarrow> string" where
  "first_some vs d = (case List.map_filter (\<lambda>v. v) vs of [] \<Rightarrow> d | v # rest \<Rightarrow> v)"

text \<open>\<open>resolve\<close> is the host's resolver, given the reference, the field and the byte limit.\<close>

definition refResolver :: "(string \<Rightarrow> string \<Rightarrow> nat \<Rightarrow> file_refusal + ref_file) option \<Rightarrow> nat option
    \<Rightarrow> ref_error ref_resolver" where
  "refResolver resolver maxFileBytes file field = (case (resolver, maxFileBytes, file) of
     (Some resolve, Some limit, File_ref ref filename media fallbackFilename fallbackMediaType) \<Rightarrow>
       (case resolve ref field limit of
          Inl reason \<Rightarrow> Inl (File_refused field reason limit)
        | Inr outcome \<Rightarrow>
            if length (rr_bytes outcome) > limit then Inl (File_refused field File_too_large limit)
            else Inr \<lparr>rf_bytes = rr_bytes outcome,
                   rf_filename = first_some [filename, usableFilename (rr_filename outcome)] fallbackFilename,
                   rf_mediaType = first_some [media, usableMediaType (rr_mediaType outcome)] fallbackMediaType\<rparr>)
   | _ \<Rightarrow> Inl (No_resolver field))"

section \<open>The synthetic response\<close>

datatype emission = Res_finish | Res_close | Req_aborted | Req_close | Socket_close

record dispatch_result =
  dr_status :: nat
  dr_body :: string
  dr_contentType :: "string option"
  dr_headers :: header_map

record exchange =
  cx_status :: nat
  cx_headers :: "(string \<times> header_field) list"
  cx_chunks :: "string list"
  cx_settled :: bool
  cx_result :: "(dispatch_result, unit) settlement option"
  cx_emitted :: "emission list"

definition new_context :: exchange where
  "new_context = \<lparr>cx_status = 200, cx_headers = [], cx_chunks = [], cx_settled = False,
     cx_result = None, cx_emitted = []\<rparr>"

text \<open>A response operation; a chunk that is neither text nor bytes is \<open>None\<close>.\<close>

datatype response_op = Set_status nat | Set_header string header_field | Write "string option" | End "string option"

definition captureHeaders :: "(string \<times> header_field) list \<Rightarrow> header_map" where
  "captureHeaders hs = fold (\<lambda>(n, v). obj_put (to_lower n) (field_text v)) hs []"

definition capture :: "string option \<Rightarrow> exchange \<Rightarrow> exchange" where
  "capture chunk cx = (case chunk of
     None \<Rightarrow> cx | Some c \<Rightarrow> if cx_settled cx then cx else cx\<lparr>cx_chunks := cx_chunks cx @ [c]\<rparr>)"

definition response_of :: "exchange \<Rightarrow> dispatch_result" where
  "response_of cx = (let hs = captureHeaders (cx_headers cx) in
     \<lparr>dr_status = cx_status cx, dr_body = concat (cx_chunks cx),
      dr_contentType = map_of hs ''content-type'', dr_headers = hs\<rparr>)"

definition end_response :: "string option \<Rightarrow> exchange \<Rightarrow> exchange" where
  "end_response chunk cx =
     (if cx_settled cx then cx
      else let cx' = capture chunk cx in
        cx'\<lparr>cx_settled := True, cx_result := Some (Resolved (response_of cx')),
            cx_emitted := cx_emitted cx' @ [Res_finish, Res_close]\<rparr>)"

definition abort_context :: "abort_reason \<Rightarrow> exchange \<Rightarrow> exchange" where
  "abort_context reason cx =
     (if cx_settled cx then cx
      else cx\<lparr>cx_settled := True, cx_result := Some (Abandoned reason),
              cx_emitted := cx_emitted cx @ [Req_aborted, Req_close, Res_close, Socket_close]\<rparr>)"

fun perform :: "response_op \<Rightarrow> exchange \<Rightarrow> exchange" where
  "perform (Set_status n) cx = cx\<lparr>cx_status := n\<rparr>"
| "perform (Set_header n v) cx = cx\<lparr>cx_headers := AList.update n v (cx_headers cx)\<rparr>"
| "perform (Write c) cx = capture c cx"
| "perform (End c) cx = end_response c cx"

section \<open>One dispatch\<close>

datatype 'e outcome = Responded dispatch_result | Dispatch_aborted abort_reason | Threw 'e

record 'e dispatch =
  di_deadline :: "unit abandonment"
  di_race :: "(written_body, 'e) race"
  di_context :: "exchange option"
  di_outcome :: "'e outcome option"

text \<open>What the pipeline does before it returns, given the body's bytes.\<close>

type_synonym 'e pipeline = "written_body option \<Rightarrow> response_op list \<times> 'e option"

datatype 'e dispatch_event = Millisecond | Caller_gone | Body_done "'e + written_body" | Respond response_op | Turn

definition finish :: "'e outcome \<Rightarrow> 'e dispatch \<Rightarrow> 'e dispatch" where
  "finish out d = d\<lparr>di_outcome := Some out, di_deadline := dispose (di_deadline d)\<rparr>"

definition run_pipeline :: "'e pipeline \<Rightarrow> written_body option \<Rightarrow> 'e dispatch \<Rightarrow> 'e dispatch" where
  "run_pipeline pipeline written d = (case ab_reason (di_deadline d) of
     Some r \<Rightarrow> finish (Dispatch_aborted r) d
   | None \<Rightarrow>
      (let (ops, thrown) = pipeline written; cx = fold perform ops new_context;
           d' = d\<lparr>di_deadline := onAbandon () (di_deadline d)\<rparr>
       in case thrown of
            None \<Rightarrow> d'\<lparr>di_context := Some cx\<rparr>
          | Some e \<Rightarrow> finish (Threw e) (d'\<lparr>di_context := Some (abort_context Pipeline cx)\<rparr>)))"

definition dispatch_start :: "'e pipeline \<Rightarrow> dispatch_deadline option \<Rightarrow> bool \<Rightarrow> 'e dispatch" where
  "dispatch_start pipeline deadline has_body =
     (let a = armDeadline deadline;
          d = \<lparr>di_deadline = a, di_race = untilAbandoned a, di_context = None, di_outcome = None\<rparr>
      in if has_body then d else run_pipeline pipeline None d)"

text \<open>An abandonment aborts the race and tells the registered listener, the context's abort.\<close>

definition deadline_signal :: "unit deadline_event \<Rightarrow> 'e dispatch \<Rightarrow> 'e dispatch" where
  "deadline_signal e d =
     (let old = di_deadline d; new = deadline_step e old; d' = d\<lparr>di_deadline := new\<rparr>
      in case (ab_reason old, ab_reason new) of
           (None, Some r) \<Rightarrow>
             d'\<lparr>di_race := race_abort new (di_race d),
                di_context := (if ab_listener old = None then di_context d
                               else map_option (abort_context r) (di_context d))\<rparr>
         | _ \<Rightarrow> d')"

definition turn :: "'e pipeline \<Rightarrow> 'e dispatch \<Rightarrow> 'e dispatch" where
  "turn pipeline d =
     (if di_outcome d \<noteq> None then d
      else case di_context d of
          None \<Rightarrow> (case rc_settled (di_race d) of
              None \<Rightarrow> d
            | Some (Resolved w) \<Rightarrow> run_pipeline pipeline (Some w) d
            | Some (Rejected e) \<Rightarrow> finish (Threw e) d
            | Some (Abandoned r) \<Rightarrow> finish (Dispatch_aborted r) d)
        | Some cx \<Rightarrow> (case cx_result cx of
              Some (Resolved response) \<Rightarrow> finish (Responded response) d
            | Some (Abandoned r) \<Rightarrow> finish (Dispatch_aborted r) d
            | _ \<Rightarrow> d))"

fun dispatch_step :: "'e pipeline \<Rightarrow> 'e dispatch_event \<Rightarrow> 'e dispatch \<Rightarrow> 'e dispatch" where
  "dispatch_step pipeline Millisecond d = deadline_signal Elapse d"
| "dispatch_step pipeline Caller_gone d = deadline_signal Caller_aborts d"
| "dispatch_step pipeline (Body_done (Inr w)) d = d\<lparr>di_race := race_work (Resolved w) (di_race d)\<rparr>"
| "dispatch_step pipeline (Body_done (Inl e)) d = d\<lparr>di_race := race_work (Rejected e) (di_race d)\<rparr>"
| "dispatch_step pipeline (Respond op) d = d\<lparr>di_context := map_option (perform op) (di_context d)\<rparr>"
| "dispatch_step pipeline Turn d = turn pipeline d"

definition dispatch_run :: "'e pipeline \<Rightarrow> dispatch_deadline option \<Rightarrow> bool \<Rightarrow> 'e dispatch_event list \<Rightarrow> 'e dispatch" where
  "dispatch_run pipeline deadline has_body es =
     fold (dispatch_step pipeline) es (dispatch_start pipeline deadline has_body)"

end
