(* ===== verification/Dispatch_Headers.thy ===== *)
theory Dispatch_Headers
  imports Dispatch Composer_Properties
begin

text \<open>
  What becomes of the caller's identity on the way to the backend: a forwarded header arrives
  unchanged when the template knows it as a carrier, and can be replaced by an argument when it does
  not, which is how a framework SDK's descriptors are.
\<close>

section \<open>Names of composed headers\<close>

lemma compose_header_names:
  assumes "createRequestTemplate input = Inr t" and "compose t args d limits = Inr r"
    and "(n, v) \<in> set (cr_headers r)" and "n \<noteq> ''cookie''"
  shows "\<exists>p \<in> set (i_parameters input). p_location p = In_header \<and> p_name p = n
    \<and> to_lower n \<notin> {''authorization'', ''cookie''}"
proof -
  from assms(2) obtain wire where "compose_wire t wire d limits = Inr r" by (auto simp: compose_def res_bind_Inr_iff)
  then obtain headers cookies where h: "compose_headers t wire = Inr headers"
    and r: "cr_headers r = (if cookies \<noteq> [] then obj_put ''cookie'' (join_with ''; '' cookies) headers else headers)"
    by (rule compose_wire_parts)
  have "(n, v) \<in> set headers" using assms(3,4) r by (auto split: if_splits dest: obj_put_set)
  with compose_headers_ok [OF h] have "n \<in> p_name ` set (located In_header t)"
    unfolding headers_ok_def by blast
  then obtain p where p: "p \<in> set (t_parameters t)" "p_location p = In_header" "p_name p = n"
    by (auto dest: located_set)
  have "to_lower (p_name p) \<notin> set reservedHeaderNames"
    by (rule header_parameter_name [OF created_binding [OF assms(1) p(1)] p(2)])
  with p createRequestTemplate_Inr(10) [OF assms(1)] show ?thesis by (auto simp: reservedHeaderNames_def)
qed

lemma carrier_slot_free:
  assumes "createRequestTemplate input = Inr t" and "p \<in> set (i_parameters input)"
    and "p_location p = In_header" and "\<lparr>ca_in = In_header, ca_name = c\<rparr> \<in> set (i_carriers input)"
  shows "to_lower (p_name p) \<noteq> to_lower c"
proof -
  have "assertNoCarrierSlot (i_parameters input) (i_carriers input) = Inr ()"
    by (rule createRequestTemplate_Inr(4) [OF assms(1)])
  then have "\<not> occupies_carrier (i_carriers input) p"
    using assms(2) by (auto simp: assertNoCarrierSlot_def res_iff)
  with assms(3,4) show ?thesis by (auto simp: occupies_carrier_def list_ex_iff)
qed

section \<open>Forwarded headers\<close>

lemma fold_carrier_step:
  assumes "c \<noteq> proto_key" and "outer_header outer c = Some v"
  shows "map_of (fold (carrier_step outer) cs hs) c
    = (if c \<in> set cs then Some (field_text v) else map_of hs c)"
proof (induction cs arbitrary: hs)
  case Nil
  show ?case by simp
next
  case (Cons a cs)
  have 1: "map_of (carrier_step outer a hs) c = (if a = c then Some (field_text v) else map_of hs c)"
    using assms by (auto simp: carrier_step_def set_obj_put split: option.split)
  from Cons [of "carrier_step outer a hs"] 1 show ?case by (cases "a = c") simp_all
qed

lemma composed_step_other:
  assumes "composed_step hs h = Inr hs'" and "to_lower (fst h) \<noteq> c" 
  shows "map_of hs' c = map_of hs c"
  using assms by (auto simp: composed_step_def Let_def res_map_Inr_iff split: if_splits option.splits)

lemma trim_Nil: "trim s = [] \<longleftrightarrow> (\<forall>c \<in> set s. is_space c)"
proof
  assume s: "trim s = []"
  show "\<forall>c \<in> set s. is_space c"
  proof (rule ccontr)
    assume "\<not> (\<forall>c \<in> set s. is_space c)"
    then have "dropWhile is_space s \<noteq> []" by (simp add: dropWhile_eq_Nil_conv)
    then have "\<not> is_space (hd (dropWhile is_space s))" by (rule hd_dropWhile)
    moreover have "hd (dropWhile is_space s) \<in> set (rev (dropWhile is_space s))"
      using \<open>dropWhile is_space s \<noteq> []\<close> by simp
    ultimately have "dropWhile is_space (rev (dropWhile is_space s)) \<noteq> []"
      unfolding dropWhile_eq_Nil_conv by blast
    with s show False by (simp add: trim_def)
  qed
next
  assume "\<forall>c \<in> set s. is_space c"
  then show "trim s = []" by (auto simp: trim_def dest: set_dropWhileD)
qed

lemma composed_step_cookie:
  assumes "composed_step hs h = Inr hs'" and "map_of hs ''cookie'' = Some (old @ rest)" and "trim old \<noteq> []"
  shows "\<exists>rest. map_of hs' ''cookie'' = Some (old @ rest)"
proof (cases "to_lower (fst h) = ''cookie''")
  case False
  have "map_of hs' ''cookie'' = map_of hs ''cookie''" by (rule composed_step_other [OF assms(1) False])
  with assms(2) show ?thesis by simp
next
  case True
  have "trim (old @ rest) \<noteq> []" using assms(3) by (auto simp: trim_Nil)
  then have m: "mergeCookieHeader (Some (old @ rest)) (Some (snd h)) = Inr v \<Longrightarrow>
      v = Some ((old @ rest) @ ''; '' @ snd h)" for v
    by (auto simp: mergeCookieHeader_def split: option.splits)
  from assms(1) True assms(2) obtain v where
    "mergeCookieHeader (Some (old @ rest)) (Some (snd h)) = Inr v"
    and "hs' = (case v of None \<Rightarrow> hs | Some w \<Rightarrow> obj_put ''cookie'' w hs)"
    unfolding composed_step_def Let_def by (auto simp: res_map_Inr_iff)
  with m have "hs' = obj_put ''cookie'' (old @ rest @ ''; '' @ snd h) hs" by simp
  then have "map_of hs' ''cookie'' = Some (old @ rest @ ''; '' @ snd h)"
    by (simp add: set_obj_put proto_key_def)
  then show ?thesis by blast
qed

section \<open>Properties\<close>


definition sample_synthetic :: synthetic_options where
  "sample_synthetic = \<lparr>sy_host = None, sy_scheme = None, sy_accept = Some ''application/json'', sy_userAgent = None\<rparr>"

definition sample_outer :: outer_request where
  "sample_outer = \<lparr>or_headers = [(''host'', One ''api''), (''authorization'', One ''Bearer a''),
      (''x-tenant'', One ''acme'')], or_protocol = None\<rparr>"


definition tenant_input :: template_input where
  "tenant_input = shop_input\<lparr>i_route := ''/orders'', i_carriers := [], i_parameters :=
     [\<lparr>p_name = ''X-Tenant'', p_location = In_header, p_argument = None, p_fill = None,
        p_shape = Scalar K_string False no_serialization\<rparr>]\<rparr>"

definition tenant_headers :: "argument_error + header_map" where
  "tenant_headers =
     res_bind (compose (build_template tenant_input []) (JObj [(''X-Tenant'', JStr ''globex'')]) [] None) (\<lambda>r.
       dispatch_headers sample_synthetic [''authorization'', ''x-tenant''] None (Some sample_outer) (cr_headers r))"

text \<open>
  A forwarded header that the template does not know as a carrier is the agent's to write. With
  \<open>x-tenant\<close> forwarded by the host and declared as a header parameter by the endpoint, whose
  descriptor lists no carriers, the caller's tenant is replaced by the argument.
\<close>

theorem forwarded_header_overwritten:
  "createRequestTemplate tenant_input = Inr (build_template tenant_input [])
    \<and> map_of (or_headers sample_outer) ''x-tenant'' = Some (One ''acme'')
    \<and> (case tenant_headers of Inr hs \<Rightarrow> map_of hs ''x-tenant'' = Some ''globex'' | Inl e \<Rightarrow> False)"
proof (intro conjI)
  show "createRequestTemplate tenant_input = Inr (build_template tenant_input [])" by code_simp
  show "map_of (or_headers sample_outer) ''x-tenant'' = Some (One ''acme'')" by (simp add: sample_outer_def)
  show "case tenant_headers of Inr hs \<Rightarrow> map_of hs ''x-tenant'' = Some ''globex'' | Inl e \<Rightarrow> False" by code_simp
qed

end
