(* ===== verification/Dispatch_Properties.thy ===== *)
theory Dispatch_Properties
  imports Dispatch
begin

text \<open>
  A dispatch settles once, with a result nothing can change afterwards, and within its deadline
  whatever the resolver, the pipeline and the handler do.
\<close>

section \<open>The synthetic response\<close>

definition exchange_ok :: "exchange \<Rightarrow> bool" where
  "exchange_ok cx = ((cx_settled cx \<longleftrightarrow> cx_result cx \<noteq> None)
     \<and> cx_emitted cx = (case cx_result cx of
          None \<Rightarrow> []
        | Some (Abandoned r) \<Rightarrow> [Req_aborted, Req_close, Res_close, Socket_close]
        | Some _ \<Rightarrow> [Res_finish, Res_close])
     \<and> cx_result cx \<noteq> Some (Rejected ()))"

lemma new_context_ok: "exchange_ok new_context"
  by (simp add: exchange_ok_def new_context_def)

lemma capture_keeps [simp]:
  "cx_settled (capture c cx) = cx_settled cx" "cx_result (capture c cx) = cx_result cx"
  "cx_emitted (capture c cx) = cx_emitted cx"
  by (simp_all add: capture_def split: option.split)

lemma end_response_settled: "cx_settled cx \<Longrightarrow> end_response c cx = cx"
  by (simp add: end_response_def)

lemma perform_settled:
  "cx_settled cx \<Longrightarrow> cx_settled (perform op cx) \<and> cx_result (perform op cx) = cx_result cx
     \<and> cx_emitted (perform op cx) = cx_emitted cx"
  by (cases op) (simp_all add: end_response_settled)

lemma perform_ok: "exchange_ok cx \<Longrightarrow> exchange_ok (perform op cx)"
  by (cases op) (auto simp: exchange_ok_def end_response_def Let_def)

lemma fold_perform_ok: "exchange_ok cx \<Longrightarrow> exchange_ok (fold perform ops cx)"
  by (induction ops arbitrary: cx) (simp_all add: perform_ok)

lemma abort_context_ok: "exchange_ok cx \<Longrightarrow> exchange_ok (abort_context r cx)"
  by (auto simp: exchange_ok_def abort_context_def)

lemma abort_context_settled [simp]: "cx_settled (abort_context r cx)"
  by (simp add: abort_context_def)

lemma perform_not_abandoned:
  "cx_result cx \<noteq> Some (Abandoned r) \<Longrightarrow> cx_result (perform op cx) \<noteq> Some (Abandoned r)"
  by (cases op) (auto simp: end_response_def Let_def)

lemma fold_perform_not_abandoned:
  "cx_result cx \<noteq> Some (Abandoned r) \<Longrightarrow> cx_result (fold perform ops cx) \<noteq> Some (Abandoned r)"
  by (induction ops arbitrary: cx) (simp_all add: perform_not_abandoned)

section \<open>Invariant of a dispatch\<close>

definition context_inv :: "'e dispatch \<Rightarrow> exchange \<Rightarrow> bool" where
  "context_inv d cx = (exchange_ok cx
     \<and> (\<forall>r. cx_result cx = Some (Abandoned r) \<longrightarrow> di_outcome d = None \<longrightarrow> ab_reason (di_deadline d) = Some r))"

definition outcome_inv :: "'e dispatch \<Rightarrow> 'e outcome \<Rightarrow> bool" where
  "outcome_inv d out = (ab_timer (di_deadline d) = None \<and> \<not> ab_attached (di_deadline d)
     \<and> (case out of
          Responded x \<Rightarrow> \<exists>cx. di_context d = Some cx \<and> cx_result cx = Some (Resolved x)
        | Dispatch_aborted r \<Rightarrow> ab_reason (di_deadline d) = Some r
        | Threw e \<Rightarrow> True))"

definition dispatch_inv :: "'e dispatch \<Rightarrow> bool" where
  "dispatch_inv d = (abandonment_ok (di_deadline d)
     \<and> (\<forall>r. rc_settled (di_race d) = Some (Abandoned r) \<longrightarrow> ab_reason (di_deadline d) = Some r)
     \<and> (\<forall>cx. di_context d = Some cx \<longrightarrow> context_inv d cx)
     \<and> (\<forall>out. di_outcome d = Some out \<longrightarrow> outcome_inv d out))"

lemma finish_inv:
  assumes "dispatch_inv d"
    and "case out of
          Responded x \<Rightarrow> \<exists>cx. di_context d = Some cx \<and> cx_result cx = Some (Resolved x)
        | Dispatch_aborted r \<Rightarrow> ab_reason (di_deadline d) = Some r
        | Threw e \<Rightarrow> True"
  shows "dispatch_inv (finish out d)"
  using assms
  by (auto simp: dispatch_inv_def finish_def outcome_inv_def context_inv_def dispose_def split: outcome.splits)

lemma run_pipeline_inv:
  assumes "dispatch_inv d" and "di_outcome d = None"
  shows "dispatch_inv (run_pipeline pipeline w d)"
proof (cases "ab_reason (di_deadline d)")
  case (Some r)
  then show ?thesis using finish_inv [OF assms(1), of "Dispatch_aborted r"] by (simp add: run_pipeline_def)
next
  case None
  obtain ops thrown where p: "pipeline w = (ops, thrown)" by force
  let ?cx = "fold perform ops new_context"
  have ok: "exchange_ok ?cx" by (intro fold_perform_ok new_context_ok)
  have na: "cx_result ?cx \<noteq> Some (Abandoned r)" for r
    by (rule fold_perform_not_abandoned) (simp add: new_context_def)
  show ?thesis
  proof (cases thrown)
    case t: None
    with None p assms ok na show ?thesis
      by (auto simp: run_pipeline_def dispatch_inv_def context_inv_def onAbandon_def)
  next
    case (Some e)
    with None p assms abort_context_ok [OF ok, of Pipeline] show ?thesis
      by (auto simp: run_pipeline_def dispatch_inv_def context_inv_def outcome_inv_def onAbandon_def finish_def
          dispose_def)
  qed
qed

lemma start_inv:
  fixes pipeline :: "'e pipeline"
  shows "dispatch_inv (dispatch_start pipeline deadline b)"
proof -
  let ?a = "armDeadline deadline :: unit abandonment"
  have "abandonment_ok ?a" by (rule armDeadline_ok)
  then have d: "dispatch_inv (\<lparr>di_deadline = ?a, di_race = untilAbandoned ?a, di_context = None, di_outcome = None\<rparr> :: 'e dispatch)"
    by (auto simp: dispatch_inv_def untilAbandoned_def abandonment_ok_def reason_or_caller_def split: option.splits)
  from d run_pipeline_inv [OF d, of pipeline None] show ?thesis by (simp add: dispatch_start_def Let_def)
qed

text \<open>The clock and the caller are deaf to a disposed deadline.\<close>

lemma disposed_deaf:
  "ab_timer a = None \<Longrightarrow> \<not> ab_attached a \<Longrightarrow> e \<in> {Elapse, Caller_aborts} \<Longrightarrow> deadline_step e a = a"
  by (auto simp: elapse_def caller_aborts_def)

lemma deadline_signal_inv:
  assumes "dispatch_inv d" and "e \<in> {Elapse, Caller_aborts}"
  shows "dispatch_inv (deadline_signal e d)"
proof (cases "di_outcome d")
  case (Some out)
  with assms have "deadline_step e (di_deadline d) = di_deadline d"
    by (intro disposed_deaf) (auto simp: dispatch_inv_def outcome_inv_def)
  then have "deadline_signal e d = d" by (simp add: deadline_signal_def Let_def split: option.split)
  with assms(1) show ?thesis by simp
next
  case None
  let ?a = "di_deadline d" and ?b = "deadline_step e (di_deadline d)"
  have b: "abandonment_ok ?b" using assms(1) by (intro deadline_step_ok) (simp add: dispatch_inv_def)
  show ?thesis
  proof (cases "ab_reason ?a")
    case (Some r)
    then have r: "ab_reason ?b = Some r" by (rule reason_kept)
    have "deadline_signal e d = d\<lparr>di_deadline := ?b\<rparr>" by (simp add: deadline_signal_def Let_def Some)
    with assms(1) None Some r b show ?thesis by (auto simp: dispatch_inv_def context_inv_def)
  next
    case a: None
    show ?thesis
    proof (cases "ab_reason ?b")
      case b': None
      have "deadline_signal e d = d\<lparr>di_deadline := ?b\<rparr>" by (simp add: deadline_signal_def Let_def a b')
      with assms(1) None a b' b show ?thesis by (auto simp: dispatch_inv_def context_inv_def)
    next
      case (Some r)
      have s: "deadline_signal e d = d\<lparr>di_deadline := ?b, di_race := race_abort ?b (di_race d),
          di_context := (if ab_listener ?a = None then di_context d
                         else map_option (abort_context r) (di_context d))\<rparr>"
        by (simp add: deadline_signal_def Let_def a Some)
      have race: "rc_settled (race_abort ?b (di_race d)) = Some (Abandoned x) \<Longrightarrow> x = r" for x
        using assms(1) a Some
        by (auto simp: dispatch_inv_def race_abort_def settle_def reason_or_caller_def split: if_splits)
      have cx: "exchange_ok cx \<and> (cx_result cx = Some (Abandoned x) \<longrightarrow> x = r)"
        if "map_option (abort_context r) (di_context d) = Some cx" for cx x
      proof -
        from that obtain cx0 where "di_context d = Some cx0" and c: "cx = abort_context r cx0" by auto
        with assms(1) None a have "exchange_ok cx0" "cx_result cx0 \<noteq> Some (Abandoned x)"
          by (auto simp: dispatch_inv_def context_inv_def)
        then show ?thesis using abort_context_ok [of cx0 r] by (auto simp: c abort_context_def)
      qed
      from assms(1) None a have cx': "exchange_ok cx \<and> cx_result cx \<noteq> Some (Abandoned x)" if "di_context d = Some cx" for cx x
        using that by (auto simp: dispatch_inv_def context_inv_def)
      show ?thesis unfolding s dispatch_inv_def context_inv_def
        using b Some None race cx cx' by (auto split: if_splits)
    qed
  qed
qed

lemma turn_inv:
  assumes "dispatch_inv d" shows "dispatch_inv (turn pipeline d)"
proof (cases "di_outcome d = None")
  case False
  then show ?thesis using assms by (simp add: turn_def)
next
  case True
  show ?thesis
  proof (cases "di_context d")
    case None
    show ?thesis
    proof (cases "rc_settled (di_race d)")
      case n: None
      then show ?thesis using assms True None by (simp add: turn_def)
    next
      case (Some s)
      then show ?thesis using assms True None run_pipeline_inv [OF assms True]
          finish_inv [OF assms, of "Threw e" for e] finish_inv [OF assms, of "Dispatch_aborted r" for r]
        by (cases s) (auto simp: turn_def dispatch_inv_def)
    qed
  next
    case (Some cx)
    with assms True have "exchange_ok cx"
      and ab: "cx_result cx = Some (Abandoned r) \<Longrightarrow> ab_reason (di_deadline d) = Some r" for r
      by (auto simp: dispatch_inv_def context_inv_def)
    then show ?thesis
      using assms True Some finish_inv [OF assms, of "Responded x" for x] finish_inv [OF assms, of "Dispatch_aborted r" for r]
      by (auto simp: turn_def split: option.split settlement.split)
  qed
qed

lemma respond_inv:
  assumes "dispatch_inv d"
  shows "dispatch_inv (d\<lparr>di_context := map_option (perform op) (di_context d)\<rparr>)"
proof (cases "di_context d")
  case None
  then have "d\<lparr>di_context := map_option (perform op) (di_context d)\<rparr> = d" by (cases d) simp
  with assms show ?thesis by simp
next
  case (Some cx)
  with assms have ok: "exchange_ok cx"
    and ab: "cx_result cx = Some (Abandoned r) \<Longrightarrow> di_outcome d = None \<Longrightarrow> ab_reason (di_deadline d) = Some r" for r
    by (simp_all add: dispatch_inv_def context_inv_def)
  let ?d = "d\<lparr>di_context := Some (perform op cx)\<rparr>"
  have "context_inv ?d (perform op cx)"
    using perform_ok [OF ok] ab perform_not_abandoned [of cx _ op] by (auto simp: context_inv_def)
  moreover have "outcome_inv ?d out" if "di_outcome d = Some out" for out
  proof -
    have "cx_result (perform op cx) = Some (Resolved x)" if "cx_result cx = Some (Resolved x)" for x
      using that ok perform_settled [of cx op] by (simp add: exchange_ok_def)
    with that assms Some show ?thesis by (auto simp: dispatch_inv_def outcome_inv_def split: outcome.splits)
  qed
  ultimately show ?thesis using assms Some by (simp add: dispatch_inv_def)
qed

lemma race_work_inv:
  assumes "dispatch_inv d" and "\<And>r. s \<noteq> Abandoned r"
  shows "dispatch_inv (d\<lparr>di_race := race_work s (di_race d)\<rparr>)"
  using assms
  by (auto simp: dispatch_inv_def context_inv_def outcome_inv_def race_work_def settle_def split: outcome.splits if_splits)

lemma dispatch_step_inv: "dispatch_inv d \<Longrightarrow> dispatch_inv (dispatch_step pipeline e d)"
  by (cases "(pipeline, e, d)" rule: dispatch_step.cases)
    (simp_all add: deadline_signal_inv turn_inv race_work_inv respond_inv)

lemma dispatch_run_inv: "dispatch_inv (dispatch_run pipeline deadline b es)"
proof -
  have "dispatch_inv d \<Longrightarrow> dispatch_inv (fold (dispatch_step pipeline) es d)" for d
    by (induction es arbitrary: d) (simp_all add: dispatch_step_inv)
  then show ?thesis by (simp add: dispatch_run_def start_inv)
qed

section \<open>Time\<close>

text \<open>
  \<open>n\<close> is the deadline in milliseconds and \<open>k\<close> the milliseconds that have passed. A dispatch that is
  not finished waits for its timer, or has been abandoned and only waits for its turn.
\<close>

definition waiting_inv :: "nat \<Rightarrow> nat \<Rightarrow> 'e dispatch \<Rightarrow> bool" where
  "waiting_inv n k d =
     (if ab_reason (di_deadline d) = None
      then ab_timer (di_deadline d) = Some (n - k) \<and> k < n
        \<and> (if di_context d = None then rc_listening (di_race d) \<or> rc_settled (di_race d) \<noteq> None
           else ab_listener (di_deadline d) \<noteq> None)
      else (case di_context d of None \<Rightarrow> rc_settled (di_race d) \<noteq> None | Some cx \<Rightarrow> cx_settled cx))"

definition timing_inv :: "nat \<Rightarrow> nat \<Rightarrow> 'e dispatch \<Rightarrow> bool" where
  "timing_inv n k d = ((ab_reason (di_deadline d) = Some Timeout \<longrightarrow> n \<le> k)
     \<and> (di_outcome d = None \<longrightarrow> waiting_inv n k d))"

lemma finish_timing: "timing_inv n k d \<Longrightarrow> timing_inv n k (finish out d)"
  by (simp add: timing_inv_def finish_def dispose_def)

lemma run_pipeline_timing:
  assumes "timing_inv n k d" and "di_outcome d = None"
  shows "timing_inv n k (run_pipeline pipeline w d)"
proof (cases "ab_reason (di_deadline d)")
  case (Some r)
  then show ?thesis using finish_timing [OF assms(1)] by (simp add: run_pipeline_def)
next
  case None
  obtain ops thrown where p: "pipeline w = (ops, thrown)" by force
  have "ab_timer (di_deadline d) = Some (n - k) \<and> k < n"
    using assms None by (simp add: timing_inv_def waiting_inv_def)
  with None p show ?thesis
    by (cases thrown) (simp_all add: run_pipeline_def timing_inv_def waiting_inv_def onAbandon_def finish_def dispose_def)
qed

lemma start_timing:
  fixes pipeline :: "'e pipeline"
  assumes "0 < n"
  shows "timing_inv n 0 (dispatch_start pipeline (Some \<lparr>dd_signal = signal, dd_timeoutMs = Some n\<rparr>) b)"
proof -
  let ?a = "armDeadline (Some \<lparr>dd_signal = signal, dd_timeoutMs = Some n\<rparr>) :: unit abandonment"
  have d: "timing_inv n 0 (\<lparr>di_deadline = ?a, di_race = untilAbandoned ?a, di_context = None, di_outcome = None\<rparr> :: 'e dispatch)"
    using assms
    by (auto simp: timing_inv_def waiting_inv_def untilAbandoned_def armDeadline_def attach_signal_def unarmed_def
        abandon_def Let_def split: option.splits)
  from d run_pipeline_timing [OF d, of pipeline None] show ?thesis by (simp add: dispatch_start_def Let_def)
qed

lemma race_abort_settled: "rc_listening r \<or> rc_settled r \<noteq> None \<Longrightarrow> rc_settled (race_abort a r) \<noteq> None"
  by (auto simp: race_abort_def settle_def)

lemma deadline_signal_timing:
  assumes "dispatch_inv d" and "timing_inv n k d" and "e = Elapse \<and> k' = Suc k \<or> e = Caller_aborts \<and> k' = k"
  shows "timing_inv n k' (deadline_signal e d)"
proof (cases "di_outcome d")
  case (Some out)
  have "deadline_step e (di_deadline d) = di_deadline d"
    using assms(1,3) Some by (intro disposed_deaf) (auto simp: dispatch_inv_def outcome_inv_def)
  then have "deadline_signal e d = d" by (simp add: deadline_signal_def Let_def split: option.split)
  with assms(2,3) Some show ?thesis by (auto simp: timing_inv_def)
next
  case None
  let ?a = "di_deadline d" and ?b = "deadline_step e (di_deadline d)"
  from None assms(2) have w: "waiting_inv n k d" by (simp add: timing_inv_def)
  show ?thesis
  proof (cases "ab_reason ?a")
    case (Some r)
    then have r: "ab_reason ?b = Some r" by (rule reason_kept)
    have "deadline_signal e d = d\<lparr>di_deadline := ?b\<rparr>" by (simp add: deadline_signal_def Let_def Some)
    with w assms(2,3) Some r show ?thesis by (auto simp: timing_inv_def waiting_inv_def split: option.splits)
  next
    case a: None
    from w a have t: "ab_timer ?a = Some (n - k)" "k < n" by (simp_all add: waiting_inv_def)
    show ?thesis
    proof (cases "ab_reason ?b")
      case b: None
      have "deadline_signal e d = d\<lparr>di_deadline := ?b\<rparr>" by (simp add: deadline_signal_def Let_def a b)
      moreover have "ab_timer ?b = Some (n - k') \<and> k' < n \<and> ab_listener ?b = ab_listener ?a"
        using assms(3) t a b by (auto simp: elapse_def caller_aborts_def abandon_def split: if_splits)
      ultimately show ?thesis using w a b by (auto simp: timing_inv_def waiting_inv_def split: if_splits)
    next
      case (Some r)
      have s: "deadline_signal e d = d\<lparr>di_deadline := ?b, di_race := race_abort ?b (di_race d),
          di_context := (if ab_listener ?a = None then di_context d
                         else map_option (abort_context r) (di_context d))\<rparr>"
        by (simp add: deadline_signal_def Let_def a Some)
      have "r = Timeout \<Longrightarrow> n \<le> k'"
        using assms(3) t a Some by (auto simp: elapse_def caller_aborts_def split: if_splits)
      moreover have "di_context d = None \<Longrightarrow> rc_settled (race_abort ?b (di_race d)) \<noteq> None"
        using w a race_abort_settled by (auto simp: waiting_inv_def)
      ultimately show ?thesis unfolding s using w a Some
        by (auto simp: timing_inv_def waiting_inv_def split: option.splits)
    qed
  qed
qed

lemma turn_timing: "timing_inv n k d \<Longrightarrow> timing_inv n k (turn pipeline d)"
  by (auto simp: turn_def finish_timing run_pipeline_timing split: option.split settlement.split)

lemma respond_timing:
  assumes "timing_inv n k d"
  shows "timing_inv n k (d\<lparr>di_context := map_option (perform op) (di_context d)\<rparr>)"
  using assms perform_settled
  by (cases "di_context d") (auto simp: timing_inv_def waiting_inv_def)

lemma race_work_timing:
  "timing_inv n k d \<Longrightarrow> timing_inv n k (d\<lparr>di_race := race_work s (di_race d)\<rparr>)"
  by (auto simp: timing_inv_def waiting_inv_def race_work_def settle_def split: option.splits)

definition milliseconds :: "'e dispatch_event list \<Rightarrow> nat" where
  "milliseconds es = length (filter (\<lambda>e. e = Millisecond) es)"

lemma dispatch_step_timing:
  assumes "dispatch_inv d" and "timing_inv n k d"
  shows "timing_inv n (k + milliseconds [e]) (dispatch_step pipeline e d)"
  using assms
  by (cases "(pipeline, e, d)" rule: dispatch_step.cases)
    (auto simp: milliseconds_def turn_timing respond_timing race_work_timing
      intro: deadline_signal_timing)

lemma fold_timing:
  assumes "dispatch_inv d" and "timing_inv n k d"
  shows "timing_inv n (k + milliseconds es) (fold (dispatch_step pipeline) es d)"
  using assms
proof (induction es arbitrary: k d)
  case Nil
  then show ?case by (simp add: milliseconds_def)
next
  case (Cons e es)
  have "milliseconds (e # es) = milliseconds [e] + milliseconds es" by (simp add: milliseconds_def)
  with Cons.IH [OF dispatch_step_inv [OF Cons.prems(1)] dispatch_step_timing [OF Cons.prems]] show ?case
    by (simp add: add.assoc)
qed

lemma dispatch_run_timing:
  "0 < n \<Longrightarrow> timing_inv n (milliseconds es)
     (dispatch_run pipeline (Some \<lparr>dd_signal = signal, dd_timeoutMs = Some n\<rparr>) b es)"
  using fold_timing [OF start_inv start_timing] by (simp add: dispatch_run_def)

section \<open>Properties\<close>

text \<open>An abandoned dispatch is over as soon as it has its turn.\<close>

lemma abandoned_turn:
  assumes "dispatch_inv d" and "waiting_inv n k d" and "ab_reason (di_deadline d) = Some r"
  shows "di_outcome (turn pipeline d) \<noteq> None"
proof (cases "di_context d")
  case None
  with assms(2,3) obtain s where s: "rc_settled (di_race d) = Some s" by (auto simp: waiting_inv_def)
  then show ?thesis
    by (cases s) (simp_all add: turn_def None run_pipeline_def assms(3) finish_def)
next
  case (Some cx)
  with assms have "cx_settled cx" "exchange_ok cx"
    by (auto simp: waiting_inv_def dispatch_inv_def context_inv_def)
  then obtain s where "cx_result cx = Some s" "s \<noteq> Rejected ()" by (auto simp: exchange_ok_def)
  then show ?thesis by (cases s) (simp_all add: turn_def Some finish_def)
qed

text \<open>
  C27: Every dispatch with a deadline ends. After \<open>n\<close> milliseconds and one more turn of the event loop
  it has an outcome, whatever the resolver of a file reference, the pipeline and the handler did or
  failed to do, and it ends for a timeout only when the \<open>n\<close> milliseconds have passed.
\<close>

theorem dispatch_ends_by_deadline:
  fixes pipeline :: "'e pipeline" and signal :: "bool option"
  assumes "0 < n"
  defines "deadline \<equiv> Some \<lparr>dd_signal = signal, dd_timeoutMs = Some n\<rparr>"
  shows "(n \<le> milliseconds es \<longrightarrow> di_outcome (dispatch_run pipeline deadline b (es @ [Turn])) \<noteq> None)
    \<and> (di_outcome (dispatch_run pipeline deadline b es) = Some (Dispatch_aborted Timeout) \<longrightarrow> n \<le> milliseconds es)"
proof -
  let ?d = "dispatch_run pipeline deadline b es"
  have inv: "dispatch_inv ?d" by (rule dispatch_run_inv)
  have time: "timing_inv n (milliseconds es) ?d" unfolding deadline_def by (rule dispatch_run_timing [OF assms(1)])
  have turn: "dispatch_run pipeline deadline b (es @ [Turn]) = turn pipeline ?d" by (simp add: dispatch_run_def)
  have "di_outcome (turn pipeline ?d) \<noteq> None" if "n \<le> milliseconds es"
  proof (cases "di_outcome ?d")
    case None
    with time that obtain r where "waiting_inv n (milliseconds es) ?d" "ab_reason (di_deadline ?d) = Some r"
      by (auto simp: timing_inv_def waiting_inv_def split: if_splits)
    then show ?thesis by (rule abandoned_turn [OF inv])
  qed (simp add: turn_def)
  moreover have "n \<le> milliseconds es" if "di_outcome ?d = Some (Dispatch_aborted Timeout)"
    using inv time that by (auto simp: dispatch_inv_def outcome_inv_def timing_inv_def)
  ultimately show ?thesis by (simp add: turn)
qed

definition silent :: "string pipeline" where
  "silent w = ([Set_status 200, Write (Some ''par'')], None)"

lemma dispatch_ends_by_deadline_witness:
  "di_outcome (dispatch_run silent (Some \<lparr>dd_signal = None, dd_timeoutMs = Some 2\<rparr>) False
      ([Millisecond, Turn, Millisecond] @ [Turn])) \<noteq> None"
  using dispatch_ends_by_deadline [of 2 "[Millisecond, Turn, Millisecond]" silent None False]
  by (simp add: milliseconds_def)

text \<open>
  C28: A dispatch settles once. Its outcome is kept through every later event, a response is the one its
  handler ended, the disconnect of an abandonment and the end of a response are never both delivered,
  and none is delivered twice.
\<close>

theorem dispatch_settles_once:
  fixes pipeline :: "'e pipeline" and deadline :: "dispatch_deadline option" and has_body :: bool
    and es fs :: "'e dispatch_event list"
  defines "d \<equiv> dispatch_run pipeline deadline has_body es"
  assumes "di_outcome d = Some out"
  shows "di_outcome (dispatch_run pipeline deadline has_body (es @ fs)) = Some out
    \<and> (\<forall>cx. di_context d = Some cx \<longrightarrow> cx_emitted cx \<in>
        {[], [Res_finish, Res_close], [Req_aborted, Req_close, Res_close, Socket_close]})
    \<and> (\<forall>x. out = Responded x \<longrightarrow> (\<exists>cx. di_context d = Some cx
        \<and> cx_result cx = Some (Resolved x) \<and> cx_emitted cx = [Res_finish, Res_close]))"
proof -
  have step: "di_outcome e = Some out \<Longrightarrow> di_outcome (dispatch_step pipeline ev e) = Some out" for ev e
    by (cases "(pipeline, ev, e)" rule: dispatch_step.cases)
      (auto simp: deadline_signal_def turn_def Let_def split: option.split)
  have "di_outcome e = Some out \<Longrightarrow> di_outcome (fold (dispatch_step pipeline) fs e) = Some out" for e
    by (induction fs arbitrary: e) (simp_all add: step)
  then have "di_outcome (dispatch_run pipeline deadline has_body (es @ fs)) = Some out"
    using assms by (simp add: dispatch_run_def)
  moreover have inv: "dispatch_inv d" unfolding d_def by (rule dispatch_run_inv)
  moreover from inv have "cx_emitted cx \<in> {[], [Res_finish, Res_close], [Req_aborted, Req_close, Res_close, Socket_close]}"
    if "di_context d = Some cx" for cx
    using that by (auto simp: dispatch_inv_def context_inv_def exchange_ok_def split: option.splits settlement.splits)
  moreover have "\<exists>cx. di_context d = Some cx \<and> cx_result cx = Some (Resolved x) \<and> cx_emitted cx = [Res_finish, Res_close]"
    if "out = Responded x" for x
    using inv assms(2) that by (auto simp: dispatch_inv_def outcome_inv_def context_inv_def exchange_ok_def)
  ultimately show ?thesis by blast
qed

lemma dispatch_settles_once_witness:
  "di_outcome (dispatch_run silent None False ([Respond (End (Some ''t'')), Turn] @ [Respond (End (Some ''x'')), Caller_gone]))
     = Some (Responded \<lparr>dr_status = 200, dr_body = ''part'', dr_contentType = None, dr_headers = []\<rparr>)"
proof -
  have "di_outcome (dispatch_run silent None False [Respond (End (Some ''t'')), Turn])
      = Some (Responded \<lparr>dr_status = 200, dr_body = ''part'', dr_contentType = None, dr_headers = []\<rparr>)"
    by code_simp
  then show ?thesis using dispatch_settles_once by blast
qed

end
