(* ===== verification/Visibility_Provider.thy ===== *)
theory Visibility_Provider
  imports Visibility Cache_Contract Endpoint
begin

text \<open>
  \<open>sdks/nestjs/src/visibility/provider.ts\<close> and \<open>probe.ts\<close> with \<open>core/src/cache/single-flight.ts\<close>: what
  is known of a caller, computed once for concurrent askers, kept in the caller-scoped cache and
  guarded by an epoch.

  The cache is the model of \<open>MemoryLiaisoCache\<close>. An ask (\<open>facts\<close> or \<open>probe\<close>) runs in the pieces
  between two awaits: it enters and observes the epoch, reads the cache, joins or starts a flight,
  and resumes when the flight has settled. The evaluator's work is a parameter: its result arrives in
  the event that settles a flight. The host's events are invalidations and \<open>bump\<close>. A stored text
  that \<open>facts\<close> reads is always one \<open>encodeFacts\<close> wrote, so what \<open>decodeFacts\<close> does on other texts
  does not matter.
\<close>

section \<open>Facts as text\<close>

definition identity_code :: "identity \<Rightarrow> string" where
  "identity_code i = (case i of Present \<Rightarrow> ''P'' | Absent \<Rightarrow> ''A'' | Unknown_identity \<Rightarrow> ''U'')"

definition decision_code :: "visibility \<Rightarrow> string" where
  "decision_code v = (case v of Allow \<Rightarrow> ''A'' | Deny \<Rightarrow> ''D'' | Unknown \<Rightarrow> ''U'')"

definition policy_text :: "string \<times> visibility \<Rightarrow> string" where
  "policy_text p = fst p @ ''='' @ decision_code (snd p)"

definition encodeFacts :: "caller_facts \<Rightarrow> string" where
  "encodeFacts facts = identity_code (cf_identity facts) @ ''|''
     @ join_with '';'' (map policy_text (sort_key fst (cf_policyResults facts)))"

definition policy_of :: "string \<Rightarrow> (string \<times> visibility) list \<Rightarrow> (string \<times> visibility) list" where
  "policy_of pair results = (case split_on (CHR ''='') pair of
     name # code # rest \<Rightarrow>
       obj_put name (if code = ''A'' then Allow else if code = ''D'' then Deny else Unknown) results
   | _ \<Rightarrow> results)"

definition decodeFacts :: "string \<Rightarrow> caller_facts" where
  "decodeFacts encoded =
     (let parts = split_on (CHR ''|'') encoded; identityCode = hd parts;
          results = (case tl parts of [] \<Rightarrow> [] | r # rs \<Rightarrow> r)
      in \<lparr>cf_identity = (if identityCode = ''P'' then Present
            else if identityCode = ''A'' then Absent else Unknown_identity),
          cf_policyResults = fold policy_of (filter (\<lambda>p. p \<noteq> []) (split_on (CHR '';'') results)) []\<rparr>)"

section \<open>The probe's verdict\<close>

datatype probe_outcome = Probe_aborted | Probe_answered nat bool

text \<open>The verdict, and whether the tool is not probed again until the catalog changes.\<close>

definition probe_verdict :: "probe_outcome \<Rightarrow> visibility \<times> bool" where
  "probe_verdict result = (case result of
     Probe_aborted \<Rightarrow> (Unknown, True)
   | Probe_answered status shortCircuited \<Rightarrow>
       if status = 401 \<or> status = 403 then (Deny, False)
       else if shortCircuited \<and> status < 400 then (Allow, False)
       else (Unknown, True))"

definition placeholderFor :: "descriptor_parameter list \<Rightarrow> string \<Rightarrow> string" where
  "placeholderFor ps name =
     (let schema = (case List.find (\<lambda>p. dp_name p = name \<and> dp_in p = In_path) ps of
            Some p \<Rightarrow> dp_schema p | None \<Rightarrow> JUndef);
          type = js_get schema ''type''; format = js_get schema ''format''
      in if type = JStr ''integer'' \<or> type = JStr ''number'' then ''1''
         else if type = JStr ''boolean'' then ''true''
         else if format = JStr ''uuid'' then ''00000000-0000-0000-0000-000000000000''
         else if format = JStr ''date-time'' then ''2000-01-01''
         else ''probe'')"

text \<open>Every \<open>{name}\<close> of the route is replaced by the text of its name.\<close>

function fill_route :: "(string \<Rightarrow> string) \<Rightarrow> string \<Rightarrow> string" where
  "fill_route f [] = []"
| "fill_route f (c # s) =
     (let name = takeWhile (\<lambda>d. d \<noteq> CHR ''}'') s; rest = dropWhile (\<lambda>d. d \<noteq> CHR ''}'') s
      in if c = CHR ''{'' \<and> name \<noteq> [] \<and> rest \<noteq> [] then f name @ fill_route f (tl rest)
         else c # fill_route f s)"
  by pat_completeness auto
termination
  by (relation "measure (\<lambda>(f, s). length s)")
    (auto simp: less_Suc_eq_le intro: le_trans [OF diff_le_self length_dropWhile_le])

definition pathFor :: "(string \<times> string) list \<Rightarrow> descriptor_parameter list \<Rightarrow> string \<Rightarrow> string" where
  "pathFor probeValues ps route = fill_route (\<lambda>name. encodeURIComponent
     (case map_of probeValues (to_lower name) of Some v \<Rightarrow> v | None \<Rightarrow> placeholderFor ps name)) route"

section \<open>Entries\<close>

datatype entry = Facts_entry caller_facts | Verdict_entry visibility

definition decode_entry :: "cache_kind \<Rightarrow> string \<Rightarrow> entry option" where
  "decode_entry kind text = (case kind of
     Facts \<Rightarrow> Some (Facts_entry (decodeFacts text))
   | Probe \<Rightarrow> if text = ''A'' then Some (Verdict_entry Allow)
       else if text = ''D'' then Some (Verdict_entry Deny) else None)"

definition encode_entry :: "entry \<Rightarrow> string option" where
  "encode_entry e = (case e of
     Facts_entry f \<Rightarrow> Some (encodeFacts f)
   | Verdict_entry Allow \<Rightarrow> Some ''A'' | Verdict_entry Deny \<Rightarrow> Some ''D'' | Verdict_entry Unknown \<Rightarrow> None)"

section \<open>The provider\<close>

text \<open>
  A flight is one run of the evaluator. \<open>fl_since\<close> is the epoch at its start; no operation reads it,
  the theorems do. \<open>fl_result\<close> is \<open>None\<close> while it runs and \<open>Some None\<close> when it threw.
\<close>

record flight =
  fl_slot :: "cache_kind \<times> string"
  fl_since :: nat
  fl_result :: "entry option option"

datatype stage = Entered | Has_read "string option" | Waiting nat | Direct | Answered entry | Failed_ask

record ask =
  as_key :: cache_key
  as_observed :: nat
  as_stage :: stage
  as_started :: bool

record provider =
  vp_epoch :: nat
  vp_cache :: memory_cache
  vp_flights :: "flight list"
  vp_table :: "((cache_kind \<times> string) \<times> nat) list"
  vp_asks :: "ask list"

definition new_provider :: "int \<Rightarrow> int \<Rightarrow> provider" where
  "new_provider lifetime callers = \<lparr>vp_epoch = 0, vp_cache = new_cache lifetime callers,
     vp_flights = [], vp_table = [], vp_asks = []\<rparr>"

text \<open>\<open>factsFlight\<close> is keyed by the scope, \<open>probeFlight\<close> by scope and tool.\<close>

definition flight_slot :: "cache_key \<Rightarrow> cache_kind \<times> string" where
  "flight_slot key = (ck_kind key, case ck_subkey key of
     None \<Rightarrow> cs_key (ck_scope key) | Some tool \<Rightarrow> cs_key (ck_scope key) @ '':'' @ tool)"

definition set_stage :: "nat \<Rightarrow> stage \<Rightarrow> provider \<Rightarrow> provider" where
  "set_stage i s p = p\<lparr>vp_asks := (vp_asks p)[i := (vp_asks p ! i)\<lparr>as_stage := s\<rparr>]\<rparr>"

definition enter :: "cache_key \<Rightarrow> provider \<Rightarrow> provider" where
  "enter key p = p\<lparr>vp_asks := vp_asks p @ [\<lparr>as_key = key, as_observed = vp_epoch p,
     as_stage = (if mc_lifetimeMs (vp_cache p) \<le> 0 then Direct else Entered), as_started = False\<rparr>]\<rparr>"

definition read_cache :: "nat \<Rightarrow> int \<Rightarrow> provider \<Rightarrow> provider" where
  "read_cache i now p =
     (let (found, c) = cache_get (as_key (vp_asks p ! i)) now (vp_cache p)
      in set_stage i (Has_read found) (p\<lparr>vp_cache := c\<rparr>))"

text \<open>\<open>SingleFlight.run\<close>: an existing flight of the key is shared, otherwise the work starts.\<close>

definition join_flight :: "nat \<Rightarrow> provider \<Rightarrow> provider" where
  "join_flight i p =
     (let slot = flight_slot (as_key (vp_asks p ! i)) in
      case map_of (vp_table p) slot of
        Some j \<Rightarrow> set_stage i (Waiting j) p
      | None \<Rightarrow>
         (let j = length (vp_flights p);
              p' = set_stage i (Waiting j) p
          in p'\<lparr>vp_flights := vp_flights p @ [\<lparr>fl_slot = slot, fl_since = vp_epoch p, fl_result = None\<rparr>],
                vp_table := AList.update slot j (vp_table p),
                vp_asks := (vp_asks p')[i := (vp_asks p' ! i)\<lparr>as_started := True\<rparr>]\<rparr>))"

definition after_read :: "nat \<Rightarrow> string option \<Rightarrow> provider \<Rightarrow> provider" where
  "after_read i found p =
     (case Option.bind found (decode_entry (ck_kind (as_key (vp_asks p ! i)))) of
        Some e \<Rightarrow> set_stage i (Answered e) p
      | None \<Rightarrow> join_flight i p)"

definition settle_flight :: "nat \<Rightarrow> entry option \<Rightarrow> provider \<Rightarrow> provider" where
  "settle_flight j r p = p\<lparr>vp_flights := (vp_flights p)[j := (vp_flights p ! j)\<lparr>fl_result := Some r\<rparr>],
     vp_table := AList.delete (fl_slot (vp_flights p ! j)) (vp_table p)\<rparr>"

definition write_back :: "ask \<Rightarrow> entry \<Rightarrow> int \<Rightarrow> provider \<Rightarrow> provider" where
  "write_back a e now p = (case encode_entry e of
     Some text \<Rightarrow> if as_observed a = vp_epoch p
       then p\<lparr>vp_cache := cache_set (as_key a) text now (vp_cache p)\<rparr> else p
   | None \<Rightarrow> p)"

definition resume :: "nat \<Rightarrow> nat \<Rightarrow> int \<Rightarrow> provider \<Rightarrow> provider" where
  "resume i j now p = (case fl_result (vp_flights p ! j) of
     None \<Rightarrow> p
   | Some None \<Rightarrow> set_stage i Failed_ask p
   | Some (Some e) \<Rightarrow> set_stage i (Answered e) (write_back (vp_asks p ! i) e now p))"

definition bump :: "provider \<Rightarrow> provider" where
  "bump p = p\<lparr>vp_epoch := vp_epoch p + 1\<rparr>"

text \<open>\<open>LiaisoCacheInvalidator\<close> of \<open>sdks/nestjs/src/cache.ts\<close>: it reaches the cache and nothing else.\<close>

datatype invalidation = Invalidate_caller string | Invalidate_tag string | Invalidate_all

definition invalidate :: "invalidation \<Rightarrow> provider \<Rightarrow> provider" where
  "invalidate what p = p\<lparr>vp_cache := (case what of
     Invalidate_caller k \<Rightarrow> removeScope k (vp_cache p)
   | Invalidate_tag t \<Rightarrow> removeTag t (vp_cache p)
   | Invalidate_all \<Rightarrow> cache_clear (vp_cache p))\<rparr>"

section \<open>Steps\<close>

inductive vp_step :: "provider \<Rightarrow> provider \<Rightarrow> bool" where
  enters: "vp_step p (enter key p)"
| reads: "i < length (vp_asks p) \<Longrightarrow> as_stage (vp_asks p ! i) = Entered \<Longrightarrow> vp_step p (read_cache i now p)"
| continues: "i < length (vp_asks p) \<Longrightarrow> as_stage (vp_asks p ! i) = Has_read found \<Longrightarrow>
    vp_step p (after_read i found p)"
| settles: "j < length (vp_flights p) \<Longrightarrow> fl_result (vp_flights p ! j) = None \<Longrightarrow>
    vp_step p (settle_flight j r p)"
| resumes: "i < length (vp_asks p) \<Longrightarrow> as_stage (vp_asks p ! i) = Waiting j \<Longrightarrow>
    fl_result (vp_flights p ! j) \<noteq> None \<Longrightarrow> vp_step p (resume i j now p)"
| direct: "i < length (vp_asks p) \<Longrightarrow> as_stage (vp_asks p ! i) = Direct \<Longrightarrow> vp_step p (set_stage i (Answered e) p)"
| bumps: "vp_step p (bump p)"
| invalidates: "vp_step p (invalidate what p)"

inductive reachable :: "int \<Rightarrow> int \<Rightarrow> provider \<Rightarrow> bool" for lifetime callers where
  initial: "reachable lifetime callers (new_provider lifetime callers)"
| stepped: "reachable lifetime callers p \<Longrightarrow> vp_step p q \<Longrightarrow> reachable lifetime callers q"

inductive_cases vp_stepE: "vp_step p q"

end
