(* ===== verification/Visibility_Caching.thy ===== *)
theory Visibility_Caching
  imports Visibility_Provider
begin

text \<open>
  The cached knowledge of a caller: cached facts decide as the resolved ones do, concurrent asks share
  one computation, an ask that ran its own computation writes back only what is current, and the two
  ways in which an outdated verdict is written back after an invalidation.
\<close>

section \<open>Facts read back\<close>

definition plain_name :: "string \<Rightarrow> bool" where
  "plain_name n = (CHR ''='' \<notin> set n \<and> CHR '';'' \<notin> set n \<and> CHR ''|'' \<notin> set n \<and> n \<noteq> proto_key)"

lemma codes_plain:
  "CHR ''|'' \<notin> set (identity_code i)" "CHR ''='' \<notin> set (decision_code v)"
  "CHR '';'' \<notin> set (decision_code v)" "CHR ''|'' \<notin> set (decision_code v)"
  by (simp_all add: identity_code_def decision_code_def split: identity.split visibility.split)

lemma policy_of_text: "plain_name n \<Longrightarrow> policy_of (policy_text (n, v)) rs = obj_put n v rs"
  using split_on_append_sep [of "CHR ''=''" n "decision_code v"] split_on_clean [OF codes_plain(2), of v]
  by (auto simp: plain_name_def policy_text_def policy_of_def decision_code_def split: visibility.splits)

lemma fold_policy_of:
  assumes "\<forall>p \<in> set ps. plain_name (fst p)" and "distinct (map fst ps)"
  shows "map_of (fold policy_of (map policy_text ps) rs) = (\<lambda>n. case map_of ps n of Some v \<Rightarrow> Some v | None \<Rightarrow> map_of rs n)"
  using assms
proof (induction ps arbitrary: rs)
  case Nil
  show ?case by simp
next
  case (Cons p ps)
  obtain n v where p: "p = (n, v)" by force
  from Cons.prems p have n: "plain_name n" "map_of ps n = None"
    by (auto simp: map_of_eq_None_iff)
  have "map_of (obj_put n v rs) = (map_of rs)(n \<mapsto> v)"
    by (rule set_obj_put) (use n(1) in \<open>simp add: plain_name_def\<close>)
  then show ?case using Cons.IH [of "obj_put n v rs"] Cons.prems n
    by (auto simp: p policy_of_text fun_eq_iff split: option.split)
qed

lemma policy_texts_read:
  assumes "\<forall>p \<in> set ps. plain_name (fst p)"
  shows "filter (\<lambda>w. w \<noteq> []) (split_on (CHR '';'') (join_with '';'' (map policy_text ps))) = map policy_text ps"
proof (cases "ps = []")
  case True
  then show ?thesis by simp
next
  case False
  have "\<forall>w \<in> set (map policy_text ps). CHR '';'' \<notin> set w"
    using assms codes_plain(3) by (auto simp: policy_text_def plain_name_def)
  moreover have "\<forall>w \<in> set (map policy_text ps). w \<noteq> []" by (auto simp: policy_text_def)
  ultimately show ?thesis using False split_join [of "map policy_text ps" "CHR '';''"]
    by (simp add: filter_id_conv)
qed

lemma decode_encodeFacts:
  assumes "\<forall>p \<in> set (cf_policyResults f). plain_name (fst p)" and "distinct (map fst (cf_policyResults f))"
  shows "cf_identity (decodeFacts (encodeFacts f)) = cf_identity f
    \<and> map_of (cf_policyResults (decodeFacts (encodeFacts f))) = map_of (cf_policyResults f)"
proof -
  let ?ps = "sort_key fst (cf_policyResults f)"
  let ?r = "join_with '';'' (map policy_text ?ps)"
  have ps: "\<forall>p \<in> set ?ps. plain_name (fst p)" "distinct (map fst ?ps)" using assms
    by (simp, metis distinct_map distinct_sort inj_on_cong set_sort)
  have "\<forall>w \<in> set (map policy_text ?ps). CHR ''|'' \<notin> set w"
    using assms(1) codes_plain(4) by (auto simp: policy_text_def plain_name_def)
  then have "CHR ''|'' \<notin> set ?r" using set_join_with_subset [of "'';''" "map policy_text ?ps"] by auto
  then have s: "split_on (CHR ''|'') (encodeFacts f) = [identity_code (cf_identity f), ?r]"
    using split_on_append_sep [OF codes_plain(1)] by (simp add: encodeFacts_def split_on_clean)
  have "map_of ?ps = map_of (cf_policyResults f)"
    using assms(2) ps(2) by (simp add: map_of_inject_set)
  moreover have "map_of (cf_policyResults (decodeFacts (encodeFacts f))) = map_of ?ps"
    using fold_policy_of [OF ps, of "[]"]
    by (simp add: decodeFacts_def s Let_def policy_texts_read [OF ps(1)] fun_eq_iff split: option.split)
  moreover have "cf_identity (decodeFacts (encodeFacts f)) = cf_identity f"
    by (simp add: decodeFacts_def s Let_def identity_code_def split: identity.split)
  ultimately show ?thesis by simp
qed

text \<open>
  Facts read from the cache decide like the facts that were resolved: for policy names without the
  separators \<open>=\<close>, \<open>;\<close> and \<open>|\<close>, every endpoint gets the same decision from the decoded text.
\<close>

theorem cached_facts_decide_alike:
  assumes "\<forall>p \<in> set (cf_policyResults f). plain_name (fst p)" and "distinct (map fst (cf_policyResults f))"
  shows "evaluateVisibility a (decodeFacts (encodeFacts f)) = evaluateVisibility a f"
  unfolding evaluateVisibility_def decode_encodeFacts [OF assms, THEN conjunct1]
    decode_encodeFacts [OF assms, THEN conjunct2] by (rule refl)

lemma cached_facts_decide_alike_witness:
  "evaluateVisibility \<lparr>au_anonymous = Anon_no, au_policies = [''admin''], au_imperative = False\<rparr>
     (decodeFacts (encodeFacts \<lparr>cf_identity = Present, cf_policyResults = [(''editor'', Deny), (''admin'', Allow)]\<rparr>))
   = Allow"
proof -
  have "evaluateVisibility a (decodeFacts (encodeFacts \<lparr>cf_identity = Present, cf_policyResults = [(''editor'', Deny), (''admin'', Allow)]\<rparr>))
      = evaluateVisibility a \<lparr>cf_identity = Present, cf_policyResults = [(''editor'', Deny), (''admin'', Allow)]\<rparr>" for a
    by (rule cached_facts_decide_alike) (simp_all add: plain_name_def proto_key_def)
  then show ?thesis by (simp only:) (simp add: evaluateVisibility_def)
qed

text \<open>
  A policy whose name holds a separator changes what is decided: the endpoint of another policy becomes
  visible for certain once the facts come from the cache.
\<close>

lemma separator_in_policy_name:
  defines "f \<equiv> \<lparr>cf_identity = Present, cf_policyResults = [(''a;admin'', Allow)]\<rparr>"
    and "a \<equiv> \<lparr>au_anonymous = Anon_no, au_policies = [''admin''], au_imperative = False\<rparr>"
  shows "evaluateVisibility a f = Unknown \<and> evaluateVisibility a (decodeFacts (encodeFacts f)) = Allow"
  unfolding f_def a_def by code_simp

section \<open>Invariant\<close>

definition table_inv :: "provider \<Rightarrow> bool" where
  "table_inv p = ((\<forall>slot j. map_of (vp_table p) slot = Some j \<longrightarrow>
       j < length (vp_flights p) \<and> fl_slot (vp_flights p ! j) = slot \<and> fl_result (vp_flights p ! j) = None)
     \<and> (\<forall>j < length (vp_flights p). fl_since (vp_flights p ! j) \<le> vp_epoch p
         \<and> (fl_result (vp_flights p ! j) = None \<longrightarrow> map_of (vp_table p) (fl_slot (vp_flights p ! j)) = Some j)))"

definition before_flight :: "stage \<Rightarrow> bool" where
  "before_flight s = (s = Entered \<or> (\<exists>found. s = Has_read found))"

definition ask_inv :: "provider \<Rightarrow> ask \<Rightarrow> bool" where
  "ask_inv p a = (as_observed a \<le> vp_epoch p \<and> (before_flight (as_stage a) \<longrightarrow> \<not> as_started a) \<and> (\<forall>j. as_stage a = Waiting j \<longrightarrow>
     j < length (vp_flights p) \<and> fl_slot (vp_flights p ! j) = flight_slot (as_key a)
     \<and> (as_started a \<longrightarrow> as_observed a \<le> fl_since (vp_flights p ! j))))"

definition provider_inv :: "provider \<Rightarrow> bool" where
  "provider_inv p = (table_inv p \<and> (\<forall>a \<in> set (vp_asks p). ask_inv p a))"

lemma set_update_mono: "x \<in> set (xs[i := y]) \<Longrightarrow> x = y \<or> x \<in> set xs"
  using set_update_subset_insert [of xs i y] by auto

text \<open>Changing the stage of an ask to one that waits for nothing, or for a flight of its slot.\<close>

lemma set_stage_inv:
  assumes "provider_inv p" and "i < length (vp_asks p)"
    and "\<And>j. s = Waiting j \<Longrightarrow> j < length (vp_flights p)
      \<and> fl_slot (vp_flights p ! j) = flight_slot (as_key (vp_asks p ! i)) \<and> \<not> as_started (vp_asks p ! i)"
    and "before_flight s \<Longrightarrow> \<not> as_started (vp_asks p ! i)"
  shows "provider_inv (set_stage i s p)"
proof -
  have "ask_inv p (vp_asks p ! i)" using assms(1,2) by (simp add: provider_inv_def)
  then have "ask_inv (set_stage i s p) ((vp_asks p ! i)\<lparr>as_stage := s\<rparr>)"
    using assms(3,4) by (auto simp: ask_inv_def set_stage_def)
  moreover have "ask_inv (set_stage i s p) a" if "ask_inv p a" for a
    using that by (simp add: ask_inv_def set_stage_def)
  ultimately show ?thesis using assms(1)
    by (auto simp: provider_inv_def set_stage_def table_inv_def dest!: set_update_mono)
qed

lemma cache_irrelevant: "provider_inv (p\<lparr>vp_cache := c\<rparr>) = provider_inv p"
  by (simp add: provider_inv_def table_inv_def ask_inv_def)

lemma write_back_cache: "\<exists>c. write_back a e now p = p\<lparr>vp_cache := c\<rparr>"
proof -
  have p: "\<exists>c. p = p\<lparr>vp_cache := c\<rparr>" by (rule exI [of _ "vp_cache p"]) simp
  show ?thesis
  proof (cases "encode_entry e")
    case None
    with p show ?thesis by (simp add: write_back_def)
  next
    case (Some s)
    with p show ?thesis by (cases "as_observed a = vp_epoch p") (auto simp: write_back_def)
  qed
qed

lemma enter_inv: "provider_inv p \<Longrightarrow> provider_inv (enter key p)"
  by (auto simp: provider_inv_def enter_def table_inv_def ask_inv_def before_flight_def)

lemma join_flight_inv:
  assumes "provider_inv p" and "i < length (vp_asks p)" and "\<not> as_started (vp_asks p ! i)"
  shows "provider_inv (join_flight i p)"
proof -
  let ?slot = "flight_slot (as_key (vp_asks p ! i))"
  have tab: "table_inv p" using assms(1) by (simp add: provider_inv_def)
  show ?thesis
  proof (cases "map_of (vp_table p) ?slot")
    case (Some j)
    with tab have "j < length (vp_flights p) \<and> fl_slot (vp_flights p ! j) = ?slot" unfolding table_inv_def by blast
    with Some set_stage_inv [OF assms(1,2), of "Waiting j"] assms(3) show ?thesis
      by (simp add: join_flight_def Let_def before_flight_def)
  next
    case None
    let ?j = "length (vp_flights p)"
    let ?f = "\<lparr>fl_slot = ?slot, fl_since = vp_epoch p, fl_result = None\<rparr>"
    let ?a = "(vp_asks p ! i)\<lparr>as_stage := Waiting ?j, as_started := True\<rparr>"
    have eq: "join_flight i p = p\<lparr>vp_flights := vp_flights p @ [?f],
        vp_table := AList.update ?slot ?j (vp_table p), vp_asks := (vp_asks p)[i := ?a]\<rparr>" (is "_ = ?q")
      using assms(2) None by (simp add: join_flight_def Let_def set_stage_def)
    have "table_inv ?q" using tab None
      by (auto simp: table_inv_def nth_append less_Suc_eq split: if_splits)
    moreover have "ask_inv ?q ?a" using assms(1,2)
      by (auto simp: ask_inv_def provider_inv_def before_flight_def)
    moreover have "ask_inv ?q a" if "ask_inv p a" for a
      using that by (auto simp: ask_inv_def nth_append)
    ultimately show ?thesis unfolding eq using assms(1)
      by (auto simp: provider_inv_def dest!: set_update_mono)
  qed
qed

lemma settle_flight_inv:
  assumes "provider_inv p" and "j < length (vp_flights p)" and "fl_result (vp_flights p ! j) = None"
  shows "provider_inv (settle_flight j r p)"
proof -
  have tab: "table_inv p" using assms(1) by (simp add: provider_inv_def)
  have "k = j" if "k < length (vp_flights p)" and "fl_result (vp_flights p ! k) = None"
    and "fl_slot (vp_flights p ! k) = fl_slot (vp_flights p ! j)" for k
  proof -
    have "map_of (vp_table p) (fl_slot (vp_flights p ! j)) = Some j"
      "map_of (vp_table p) (fl_slot (vp_flights p ! k)) = Some k"
      using tab assms(2,3) that(1,2) unfolding table_inv_def by blast+
    with that(3) show ?thesis by simp
  qed
  with tab assms(2,3) have "table_inv (settle_flight j r p)"
    by (auto simp: table_inv_def settle_flight_def nth_list_update split: if_splits)
  moreover have "ask_inv (settle_flight j r p) a" if "ask_inv p a" for a
    using that assms(2) by (auto simp: ask_inv_def settle_flight_def nth_list_update)
  moreover have "vp_asks (settle_flight j r p) = vp_asks p" by (simp add: settle_flight_def)
  ultimately show ?thesis using assms(1) by (simp add: provider_inv_def)
qed

lemma step_inv:
  assumes "vp_step p q" and "provider_inv p"
  shows "provider_inv q"
  using assms(1)
proof (cases rule: vp_step.cases)
  case (enters key)
  with assms(2) show ?thesis by (simp add: enter_inv)
next
  case (reads i now)
  then have "ask_inv p (vp_asks p ! i)" using assms(2) by (simp add: provider_inv_def)
  then have "\<not> as_started (vp_asks p ! i)" using reads by (simp add: ask_inv_def before_flight_def)
  moreover have "provider_inv (p\<lparr>vp_cache := c\<rparr>)" for c using assms(2) by (simp add: cache_irrelevant)
  ultimately show ?thesis using reads(2) unfolding reads(1) read_cache_def Let_def split_def
    by (intro set_stage_inv) simp_all
next
  case (continues i found)
  then have "ask_inv p (vp_asks p ! i)" using assms(2) by (simp add: provider_inv_def)
  then have "\<not> as_started (vp_asks p ! i)" using continues by (simp add: ask_inv_def before_flight_def)
  with continues assms(2) show ?thesis
    by (auto simp: after_read_def join_flight_inv before_flight_def intro!: set_stage_inv split: option.split)
next
  case (settles j r)
  with assms(2) show ?thesis by (simp add: settle_flight_inv)
next
  case (resumes i j now)
  have "provider_inv (set_stage i (Answered e) (write_back (vp_asks p ! i) e now p))" for e
  proof -
    obtain c where "write_back (vp_asks p ! i) e now p = p\<lparr>vp_cache := c\<rparr>"
      using write_back_cache by blast
    then show ?thesis using resumes(2) assms(2)
      by (auto simp: before_flight_def cache_irrelevant intro!: set_stage_inv)
  qed
  then show ?thesis using resumes assms(2)
    by (auto simp: resume_def before_flight_def intro!: set_stage_inv split: option.split)
next
  case (direct i e)
  with assms(2) show ?thesis by (auto simp: before_flight_def intro!: set_stage_inv)
next
  case bumps
  with assms(2) show ?thesis
    by (fastforce simp: provider_inv_def bump_def table_inv_def ask_inv_def)
next
  case (invalidates what)
  with assms(2) show ?thesis by (simp add: invalidate_def cache_irrelevant)
qed

lemma reachable_inv: "reachable lifetime callers p \<Longrightarrow> provider_inv p"
proof (induction rule: reachable.induct)
  case initial
  show ?case by (simp add: provider_inv_def new_provider_def table_inv_def)
next
  case (stepped p q)
  then show ?case by (simp add: step_inv)
qed

section \<open>Properties\<close>


text \<open>
  An ask that ran the computation itself writes back only a current result: when its resumption
  changes the cache, the epoch is the one at which the computation began, so that no bump came
  between.
\<close>

theorem own_computation_written_current:
  assumes "reachable lifetime callers p" and "i < length (vp_asks p)"
    and "as_stage (vp_asks p ! i) = Waiting j" and "as_started (vp_asks p ! i)"
    and "vp_cache (resume i j now p) \<noteq> vp_cache p"
  shows "fl_since (vp_flights p ! j) = vp_epoch p"
proof -
  have inv: "provider_inv p" by (rule reachable_inv [OF assms(1)])
  then have "ask_inv p (vp_asks p ! i)" using assms(2) by (simp add: provider_inv_def)
  with assms(3,4) have j: "j < length (vp_flights p)" "as_observed (vp_asks p ! i) \<le> fl_since (vp_flights p ! j)"
    by (simp_all add: ask_inv_def)
  have "fl_since (vp_flights p ! j) \<le> vp_epoch p" using inv j(1) by (simp add: provider_inv_def table_inv_def)
  moreover have "as_observed (vp_asks p ! i) = vp_epoch p"
    using assms(5) by (auto simp: resume_def set_stage_def write_back_def split: option.splits if_splits)
  ultimately show ?thesis using j(2) by simp
qed

definition tool_key :: cache_key where
  "tool_key = \<lparr>ck_scope = \<lparr>cs_key = ''c'', cs_tags = []\<rparr>, ck_kind = Probe, ck_subkey = Some ''t''\<rparr>"

text \<open>An ask that has started its computation.\<close>

definition asked :: provider where
  "asked = after_read 0 None (read_cache 0 0 (enter tool_key (new_provider 1000 8)))"

text \<open>The host invalidates; a second ask joins the running computation and resumes with its result.\<close>

definition invalidated :: "bool \<Rightarrow> provider" where
  "invalidated b = invalidate Invalidate_all (if b then bump asked else asked)"

definition rejoined :: "bool \<Rightarrow> provider" where
  "rejoined b = after_read 1 None (read_cache 1 1 (enter tool_key (invalidated b)))"

definition rewritten :: "bool \<Rightarrow> provider" where
  "rewritten b = resume 1 0 2 (settle_flight 0 (Some (Verdict_entry Allow)) (rejoined b))"

lemma asked_reachable: "reachable 1000 8 asked"
proof -
  have 1: "reachable 1000 8 (enter tool_key (new_provider 1000 8))" (is "reachable _ _ ?a")
    by (intro reachable.stepped [OF reachable.initial] vp_step.enters)
  have "0 < length (vp_asks ?a)" "as_stage (vp_asks ?a ! 0) = Entered" by code_simp+
  then have 2: "reachable 1000 8 (read_cache 0 0 ?a)" (is "reachable _ _ ?b")
    by (intro reachable.stepped [OF 1] vp_step.reads)
  have "0 < length (vp_asks ?b)" "as_stage (vp_asks ?b ! 0) = Has_read None" by code_simp+
  then show ?thesis unfolding asked_def by (intro reachable.stepped [OF 2] vp_step.continues)
qed

lemma own_computation_written_current_witness:
  "fl_since (vp_flights (settle_flight 0 (Some (Verdict_entry Deny)) asked) ! 0)
     = vp_epoch (settle_flight 0 (Some (Verdict_entry Deny)) asked)"
proof (rule own_computation_written_current [where i = 0 and now = 5])
  have "0 < length (vp_flights asked)" "fl_result (vp_flights asked ! 0) = None" by code_simp+
  then show "reachable 1000 8 (settle_flight 0 (Some (Verdict_entry Deny)) asked)"
    by (intro reachable.stepped [OF asked_reachable] vp_step.settles)
qed code_simp+


text \<open>What each step of this run needs.\<close>

definition rewriting_run :: "bool \<Rightarrow> bool" where
  "rewriting_run b =
     (let p1 = enter tool_key (invalidated b); p2 = read_cache 1 1 p1; p3 = rejoined b;
          p4 = settle_flight 0 (Some (Verdict_entry Allow)) p3
      in 1 < length (vp_asks p1) \<and> as_stage (vp_asks p1 ! 1) = Entered
         \<and> 1 < length (vp_asks p2) \<and> as_stage (vp_asks p2 ! 1) = Has_read None
         \<and> 0 < length (vp_flights p3) \<and> fl_result (vp_flights p3 ! 0) = None
         \<and> 1 < length (vp_asks p4) \<and> as_stage (vp_asks p4 ! 1) = Waiting 0
         \<and> fl_result (vp_flights p4 ! 0) \<noteq> None \<and> length (vp_flights (rewritten b)) = 1
         \<and> cache_answer tool_key 1 (vp_cache (invalidated b)) = None
         \<and> cache_answer tool_key 3 (vp_cache (rewritten b)) = Some ''A'')"

lemma rewriting_run_ok: "rewriting_run b"
proof (cases b)
  case True
  have "rewriting_run True" by code_simp
  with True show ?thesis by simp
next
  case False
  have "rewriting_run False" by code_simp
  with False show ?thesis by simp
qed

lemma rewriting_steps: "vp_step\<^sup>*\<^sup>* (invalidated b) (rewritten b)"
proof -
  note run = rewriting_run_ok [of b, unfolded rewriting_run_def Let_def]
  have 1: "vp_step (invalidated b) (enter tool_key (invalidated b))" (is "vp_step _ ?a") by (rule vp_step.enters)
  have 2: "vp_step ?a (read_cache 1 1 ?a)" (is "vp_step _ ?c") by (rule vp_step.reads) (use run in blast)+
  have 3: "vp_step ?c (rejoined b)" unfolding rejoined_def by (rule vp_step.continues) (use run in blast)+
  have 4: "vp_step (rejoined b) (settle_flight 0 (Some (Verdict_entry Allow)) (rejoined b))" (is "vp_step _ ?d")
    by (rule vp_step.settles) (use run in blast)+
  have 5: "vp_step ?d (rewritten b)" unfolding rewritten_def by (rule vp_step.resumes) (use run in blast)+
  from 1 2 3 4 5 show ?thesis by (meson converse_rtranclp_into_rtranclp rtranclp.rtrancl_refl)
qed


end
