(* ===== verification/Schema_Simplification.thy ===== *)
theory Schema_Simplification
  imports Endpoint
begin

text \<open>
  \<open>packages/http/core/src/schema-simplification.ts\<close> and \<open>generated/type-shape.ts\<close>: a graph of types
  becomes one JSON schema with shared and recursive types hoisted into \<open>$defs\<close>.

  The writer's methods \<open>node\<close>, \<open>descend\<close>, \<open>map\<close>, \<open>ref\<close>, \<open>body\<close> and \<open>object\<close> call one another without a
  decreasing argument: \<open>node\<close> has fuel, one unit for each nested call of \<open>node\<close>, and the others take
  the writer's \<open>node\<close> as an argument. \<open>None\<close> is running out of fuel; a result carries the diagnostics
  reported on the way, in order. A key of \<open>types\<close> is not a member of \<open>Object.prototype\<close>.
\<close>

section \<open>Shapes\<close>

datatype scalar_kind = S_string | S_boolean | S_integer | S_number

datatype enum_form = Form_string | Form_integer | Form_unresolved

record enum_facts =
  ef_wireForm :: enum_form
  ef_combinable :: bool
  ef_names :: "string list"
  ef_numbers :: "jsnum list"

record map_key =
  mk_writable :: bool
  mk_scalar :: "scalar_kind option"
  mk_format :: "string option"

datatype type_node =
    Scalar_node "scalar_kind option" "string option"
  | Binary_node
  | Enum_node "enum_facts option"
  | Map_node "map_key option" "type_node option"
  | Array_node "type_node option"
  | Ref_node "string option"
  | Verbatim_node "js option"
  | Unknown_node "string option"

record constraints =
  co_minSize :: "jsnum option"
  co_maxSize :: "jsnum option"
  co_minimum :: "jsnum option"
  co_maximum :: "jsnum option"
  co_pattern :: "string option"
  co_format :: "string option"

record type_member =
  tm_name :: string
  tm_type :: type_node
  tm_required :: bool
  tm_readOnly :: bool
  tm_constructorBound :: bool
  tm_description :: "string option"
  tm_constraints :: "constraints option"

record object_type =
  ot_name :: string
  ot_wrapper :: bool
  ot_members :: "type_member list"

record type_shape =
  ts_root :: type_node
  ts_types :: "(string \<times> object_type) list"

datatype schema_code = Unsupported_dictionary_key | Schema_def_name_disambiguated
  | Schema_depth_truncated | Unreadable_shape

type_synonym schema_diagnostic = "schema_code \<times> string"

section \<open>The graph of references\<close>

fun collectRefs :: "type_node \<Rightarrow> string list" where
  "collectRefs (Ref_node (Some r)) = [r]"
| "collectRefs (Array_node (Some items)) = collectRefs items"
| "collectRefs (Map_node keys (Some vals)) = collectRefs vals"
| "collectRefs _ = []"

record ref_graph =
  rg_uses :: "(string \<times> nat) list"
  rg_edges :: "(string \<times> string list) list"

definition count_use :: "string \<Rightarrow> (string \<times> nat) list \<Rightarrow> (string \<times> nat) list" where
  "count_use key uses = AList.update key (Suc (case map_of uses key of None \<Rightarrow> 0 | Some n \<Rightarrow> n)) uses"

definition member_refs :: "object_type \<Rightarrow> string list" where
  "member_refs declared = concat (map (\<lambda>m. collectRefs (tm_type m)) (ot_members declared))"

text \<open>The types that have not been visited.\<close>

definition unvisited :: "(string \<times> 'a) list \<Rightarrow> (string \<times> 'b) list \<Rightarrow> string list" where
  "unvisited types edges = filter (\<lambda>k. map_of edges k = None) (map fst types)"

lemma filter_smaller:
  assumes "x \<in> set xs" and "P x" and "\<And>y. Q y \<longleftrightarrow> P y \<and> y \<noteq> x"
  shows "length (filter Q xs) < length (filter P xs)"
proof -
  have "filter Q xs = filter (\<lambda>y. y \<noteq> x) (filter P xs)"
    unfolding filter_filter by (rule filter_cong) (auto simp: assms(3))
  moreover have "length (filter (\<lambda>y. y \<noteq> x) (filter P xs)) < length (filter P xs)"
    by (rule length_filter_less [of x]) (use assms(1,2) in auto)
  ultimately show ?thesis by simp
qed

lemma unvisited_update:
  assumes "map_of edges key = None" and "map_of types key = Some d"
  shows "length (unvisited types (AList.update key refs edges)) < length (unvisited types edges)"
  unfolding unvisited_def
  by (rule filter_smaller [of key]) (use assms in \<open>auto dest: map_of_SomeD intro: rev_image_eqI\<close>)

lemma unvisited_undeclared:
  assumes "map_of types key = None"
  shows "unvisited types (AList.update key refs edges) = unvisited types edges"
  using assms unfolding unvisited_def
  by (intro filter_cong) (auto simp: map_of_eq_None_iff)

function visit :: "(string \<times> object_type) list \<Rightarrow> string list \<Rightarrow> ref_graph \<Rightarrow> ref_graph" where
  "visit types [] g = g"
| "visit types (key # queue) g =
     (if map_of (rg_edges g) key \<noteq> None then visit types queue g
      else case map_of types key of
          None \<Rightarrow> visit types queue (g\<lparr>rg_edges := AList.update key [] (rg_edges g)\<rparr>)
        | Some declared \<Rightarrow>
            let refs = member_refs declared
            in visit types (queue @ refs)
                 \<lparr>rg_uses = fold count_use refs (rg_uses g), rg_edges = AList.update key refs (rg_edges g)\<rparr>)"
  by pat_completeness auto
termination
  by (relation "measures [\<lambda>(types, queue, g). length (unvisited types (rg_edges g)),
      \<lambda>(types, queue, g). length queue]")
    (auto simp: unvisited_undeclared unvisited_update)

definition buildGraph :: "type_shape \<Rightarrow> ref_graph" where
  "buildGraph shape =
     (let rootRefs = collectRefs (ts_root shape)
      in visit (ts_types shape) rootRefs \<lparr>rg_uses = fold count_use rootRefs [], rg_edges = []\<rparr>)"

definition edges_of :: "(string \<times> string list) list \<Rightarrow> string \<Rightarrow> string list" where
  "edges_of edges key = (case map_of edges key of None \<Rightarrow> [] | Some refs \<Rightarrow> refs)"

function search :: "(string \<times> string list) list \<Rightarrow> string \<Rightarrow> string list \<Rightarrow> string list \<Rightarrow> bool" where
  "search edges target [] seen = False"
| "search edges target (key # queue) seen =
     (if key = target then True
      else if key \<in> set seen then search edges target queue seen
      else search edges target (queue @ edges_of edges key) (key # seen))"
  by pat_completeness auto
termination
proof (relation "measures [\<lambda>(edges, target, queue, seen). length (filter (\<lambda>k. k \<notin> set seen) (map fst edges)),
    \<lambda>(edges, target, queue, seen). length queue]", goal_cases)
  case (3 edges target key queue seen)
  let ?left = "\<lambda>seen. filter (\<lambda>k. k \<notin> set seen) (map fst edges)"
  have "length (?left (key # seen)) < length (?left seen)
      \<or> length (?left (key # seen)) = length (?left seen) \<and> edges_of edges key = []"
  proof (cases "map_of edges key")
    case None
    then have "?left (key # seen) = ?left seen"
      by (intro filter_cong) (auto simp: map_of_eq_None_iff)
    with None show ?thesis by (simp only: edges_of_def) simp
  next
    case (Some refs)
    have "length (?left (key # seen)) < length (?left seen)"
      by (rule filter_smaller [of key]) (use Some 3(2) in \<open>auto dest: map_of_SomeD intro: rev_image_eqI\<close>)
    then show ?thesis ..
  qed
  then show ?case unfolding in_measures by (auto simp del: filter.simps)
qed auto

definition reaches :: "ref_graph \<Rightarrow> string \<Rightarrow> string \<Rightarrow> bool" where
  "reaches g start target = search (rg_edges g) target (edges_of (rg_edges g) start) []"

section \<open>Leaves\<close>

definition opaque :: js where
  "opaque = JObj [(''type'', JStr ''object''), (''additionalProperties'', JBool True)]"

definition scalar_text :: "scalar_kind \<Rightarrow> string" where
  "scalar_text k = (case k of S_string \<Rightarrow> ''string'' | S_boolean \<Rightarrow> ''boolean''
     | S_integer \<Rightarrow> ''integer'' | S_number \<Rightarrow> ''number'')"

definition strings :: "string list \<Rightarrow> js" where
  "strings ss = JArr (map JStr ss)"

definition enumSchema :: "enum_facts \<Rightarrow> js" where
  "enumSchema facts =
     (let names = strings (ef_names facts); numbers = JArr (map JNum (ef_numbers facts))
      in case ef_wireForm facts of
          Form_unresolved \<Rightarrow>
            if ef_combinable facts
            then JObj [(''anyOf'', JArr [JObj [(''type'', JStr ''string'')], JObj [(''type'', JStr ''integer'')]])]
            else JObj [(''anyOf'', JArr [JObj [(''type'', JStr ''string''), (''enum'', names)],
                   JObj [(''type'', JStr ''integer''), (''enum'', numbers)]])]
        | Form_string \<Rightarrow> JObj ((''type'', JStr ''string'') # (if ef_combinable facts then [] else [(''enum'', names)]))
        | Form_integer \<Rightarrow> JObj ((''type'', JStr ''integer'') # (if ef_combinable facts then [] else [(''enum'', numbers)])))"

definition propertyNames :: "map_key \<Rightarrow> js option" where
  "propertyNames keys = (case mk_scalar keys of
     None \<Rightarrow> None
   | Some k \<Rightarrow> Some (JObj ((''type'', JStr ''string'') # (case mk_format keys of
        Some f \<Rightarrow> [(''format'', JStr f)]
      | None \<Rightarrow> if k = S_integer then [(''pattern'', JStr ''^-?[0-9]+$'')] else []))))"

fun js_put :: "string \<Rightarrow> js \<Rightarrow> js \<Rightarrow> js" where
  "js_put k v (JObj kvs) = JObj (obj_put k v kvs)"
| "js_put k v j = j"

definition put_some :: "string \<Rightarrow> ('a \<Rightarrow> js) \<Rightarrow> 'a option \<Rightarrow> js \<Rightarrow> js" where
  "put_some k f v schema = (case v of None \<Rightarrow> schema | Some x \<Rightarrow> js_put k (f x) schema)"

definition put_constraints :: "constraints \<Rightarrow> js \<Rightarrow> js" where
  "put_constraints c schema =
     (let type = typeOf schema; items = (type = Some ''array''); chars = (type = Some ''string'');
          numeric = (type = Some ''integer'' \<or> type = Some ''number'');
          s1 = put_some (if items then ''minItems'' else ''minLength'') JNum (co_minSize c) schema;
          s2 = put_some (if items then ''maxItems'' else ''maxLength'') JNum (co_maxSize c) s1;
          s3 = (if numeric then put_some ''minimum'' JNum (co_minimum c) s2 else s2);
          s4 = (if numeric then put_some ''maximum'' JNum (co_maximum c) s3 else s3);
          s5 = (if chars then put_some ''pattern'' JStr (co_pattern c) s4 else s4)
      in if chars \<and> js_get s5 ''format'' = JUndef then put_some ''format'' JStr (co_format c) s5 else s5)"

definition applyConstraints :: "string option \<Rightarrow> constraints option \<Rightarrow> js \<Rightarrow> js" where
  "applyConstraints description cs schema =
     (let described = (if js_get schema ''description'' = JUndef
            then put_some ''description'' JStr description schema else schema)
      in case cs of None \<Rightarrow> described | Some c \<Rightarrow> put_constraints c described)"

definition populatable :: "type_node \<Rightarrow> bool" where
  "populatable node = (case node of Array_node i \<Rightarrow> True | Map_node k v \<Rightarrow> True | _ \<Rightarrow> False)"

section \<open>The writer\<close>

record writer =
  wr_types :: "(string \<times> object_type) list"
  wr_hoisted :: "string list"
  wr_names :: "(string \<times> string) list"
  wr_dropReadOnly :: bool
  wr_maxDepth :: "nat option"

type_synonym written = "(js \<times> schema_diagnostic list) option"

definition hoisted_keys :: "ref_graph \<Rightarrow> string list" where
  "hoisted_keys g = map fst (filter (\<lambda>(key, n). n > 1 \<or> reaches g key key) (rg_uses g))"

definition base_name :: "(string \<times> object_type) list \<Rightarrow> string \<Rightarrow> string" where
  "base_name types key = (case map_of types key of Some d \<Rightarrow> ot_name d | None \<Rightarrow> key)"

definition same_name_message :: "string \<Rightarrow> string \<Rightarrow> string \<Rightarrow> string" where
  "same_name_message key base suffixed = ''Types '' @ quoted key @ '' and another type share the simple name ''
     @ quoted base @ ''; this one is emitted as '' @ quoted suffixed @ ''.''"

definition name_step :: "(string \<times> object_type) list \<Rightarrow> string
    \<Rightarrow> (string \<times> nat) list \<times> (string \<times> string) list \<times> schema_diagnostic list
    \<Rightarrow> (string \<times> nat) list \<times> (string \<times> string) list \<times> schema_diagnostic list" where
  "name_step types key st = (case st of (claimed, names, ds) \<Rightarrow>
     let base = base_name types key; seen = (case map_of claimed base of None \<Rightarrow> 0 | Some n \<Rightarrow> n);
         claimed' = AList.update base (Suc seen) claimed
     in if seen = 0 then (claimed', AList.update key base names, ds)
        else let suffixed = base @ ''_'' @ nat_text (Suc seen)
             in (claimed', AList.update key suffixed names,
                 ds @ [(Schema_def_name_disambiguated, same_name_message key base suffixed)]))"

definition assignNames :: "(string \<times> object_type) list \<Rightarrow> string list
    \<Rightarrow> (string \<times> string) list \<times> schema_diagnostic list" where
  "assignNames types hoisted = snd (fold (name_step types) (sort hoisted) ([], [], []))"

definition create_writer :: "type_shape \<Rightarrow> bool \<Rightarrow> nat option \<Rightarrow> writer" where
  "create_writer shape dropReadOnly maxDepth =
     (let hoisted = hoisted_keys (buildGraph shape)
      in \<lparr>wr_types = ts_types shape, wr_hoisted = hoisted,
          wr_names = fst (assignNames (ts_types shape) hoisted),
          wr_dropReadOnly = dropReadOnly, wr_maxDepth = maxDepth\<rparr>)"

definition clean :: "js \<Rightarrow> written" where
  "clean v = Some (v, [])"

definition reported :: "schema_code \<Rightarrow> string \<Rightarrow> written" where
  "reported code message = Some (opaque, [(code, message)])"

definition truncated :: "writer \<Rightarrow> nat \<Rightarrow> bool" where
  "truncated w depth = (case wr_maxDepth w of None \<Rightarrow> False | Some m \<Rightarrow> depth \<ge> m)"

definition truncated_message :: "writer \<Rightarrow> string" where
  "truncated_message w = ''The configured depth budget of ''
     @ (case wr_maxDepth w of None \<Rightarrow> ''undefined'' | Some m \<Rightarrow> nat_text m) @ '' cut the shape here.''"

type_synonym node_writer = "type_node \<Rightarrow> nat \<Rightarrow> bool \<Rightarrow> written"

definition descend :: "writer \<Rightarrow> node_writer \<Rightarrow> type_node \<Rightarrow> nat \<Rightarrow> written" where
  "descend w self node depth =
     (if truncated w (Suc depth) then reported Schema_depth_truncated (truncated_message w)
      else self node (Suc depth) False)"

definition descend_or_opaque :: "writer \<Rightarrow> node_writer \<Rightarrow> type_node option \<Rightarrow> nat \<Rightarrow> written" where
  "descend_or_opaque w self node depth = (case node of None \<Rightarrow> clean opaque | Some n \<Rightarrow> descend w self n depth)"

definition wrap :: "(js \<Rightarrow> js) \<Rightarrow> written \<Rightarrow> written" where
  "wrap f r = map_option (\<lambda>(v, ds). (f v, ds)) r"

definition map_schema :: "writer \<Rightarrow> node_writer \<Rightarrow> map_key option \<Rightarrow> type_node option \<Rightarrow> nat \<Rightarrow> written" where
  "map_schema w self keys vals depth =
     (if (case keys of Some k \<Rightarrow> \<not> mk_writable k | None \<Rightarrow> False)
      then reported Unsupported_dictionary_key
        ''The serializer cannot write this map's key type as a JSON property name; the value shape was dropped.''
      else wrap (\<lambda>v. JObj ([(''type'', JStr ''object''), (''additionalProperties'', v)]
             @ (case Option.bind keys propertyNames of None \<Rightarrow> [] | Some p \<Rightarrow> [(''propertyNames'', p)])))
           (descend_or_opaque w self vals depth))"

definition selected :: "writer \<Rightarrow> object_type \<Rightarrow> type_member list" where
  "selected w declared = filter (\<lambda>m. \<not> (wr_dropReadOnly w \<and> tm_readOnly m
     \<and> \<not> tm_constructorBound m \<and> \<not> populatable (tm_type m))) (ot_members declared)"

definition member_schema :: "writer \<Rightarrow> node_writer \<Rightarrow> nat \<Rightarrow> type_member \<Rightarrow> written" where
  "member_schema w self depth m =
     wrap (applyConstraints (tm_description m) (tm_constraints m)) (descend w self (tm_type m) depth)"

fun members_schema :: "writer \<Rightarrow> node_writer \<Rightarrow> nat \<Rightarrow> type_member list
    \<Rightarrow> ((string \<times> js) list \<times> schema_diagnostic list) option" where
  "members_schema w self depth [] = Some ([], [])"
| "members_schema w self depth (m # ms) =
     (case member_schema w self depth m of
        None \<Rightarrow> None
      | Some (v, ds) \<Rightarrow> map_option (\<lambda>(vs, es). ((tm_name m, v) # vs, ds @ es)) (members_schema w self depth ms))"

definition object_schema :: "writer \<Rightarrow> node_writer \<Rightarrow> object_type \<Rightarrow> nat \<Rightarrow> written" where
  "object_schema w self declared depth =
     (let ms = selected w declared in
      if ot_wrapper declared \<and> length ms = 1
      then wrap (applyConstraints (tm_description (hd ms)) (tm_constraints (hd ms))) (self (tm_type (hd ms)) depth False)
      else map_option (\<lambda>(ps, ds).
             (JObj ([(''type'', JStr ''object''), (''properties'', JObj (fold (\<lambda>(k, v). obj_put k v) ps []))]
                @ (let required = map tm_name (filter tm_required ms)
                   in if required = [] then [] else [(''required'', strings required)])), ds))
             (members_schema w self depth ms))"

definition type_body :: "writer \<Rightarrow> node_writer \<Rightarrow> string \<Rightarrow> nat \<Rightarrow> written" where
  "type_body w self key depth = (case map_of (wr_types w) key of
     None \<Rightarrow> reported Unreadable_shape (''No type is declared for '' @ quoted key @ ''.'')
   | Some declared \<Rightarrow> object_schema w self declared depth)"

definition name_of :: "writer \<Rightarrow> string \<Rightarrow> string" where
  "name_of w key = (case map_of (wr_names w) key of Some n \<Rightarrow> n | None \<Rightarrow> ''undefined'')"

definition ref_schema :: "writer \<Rightarrow> node_writer \<Rightarrow> string option \<Rightarrow> nat \<Rightarrow> bool \<Rightarrow> written" where
  "ref_schema w self ref depth rootInline = (case ref of
     None \<Rightarrow> reported Unreadable_shape ''A ref node carries no target.''
   | Some key \<Rightarrow>
       if \<not> rootInline \<and> key \<in> set (wr_hoisted w)
       then clean (JObj [(''$ref'', JStr (''#/$defs/'' @ name_of w key))])
       else type_body w self key depth)"

definition node_step :: "writer \<Rightarrow> node_writer \<Rightarrow> node_writer" where
  "node_step w self node depth rootInline = (case node of
     Verbatim_node schema \<Rightarrow> clean (case schema of Some s \<Rightarrow> s | None \<Rightarrow> JObj [])
   | Binary_node \<Rightarrow> clean (JObj [(''type'', JStr ''string''), (''contentEncoding'', JStr ''base64'')])
   | Scalar_node k format \<Rightarrow> clean (JObj ((''type'', JStr (case k of Some s \<Rightarrow> scalar_text s | None \<Rightarrow> ''string''))
       # (case format of None \<Rightarrow> [] | Some f \<Rightarrow> [(''format'', JStr f)])))
   | Enum_node facts \<Rightarrow> (case facts of
       None \<Rightarrow> reported Unreadable_shape ''An enum node carries no members.''
     | Some f \<Rightarrow> clean (enumSchema f))
   | Map_node keys vals \<Rightarrow> map_schema w self keys vals depth
   | Array_node items \<Rightarrow> wrap (\<lambda>v. JObj [(''type'', JStr ''array''), (''items'', v)]) (descend_or_opaque w self items depth)
   | Ref_node ref \<Rightarrow> ref_schema w self ref depth rootInline
   | Unknown_node reason \<Rightarrow> reported Unreadable_shape (case reason of Some r \<Rightarrow> r
       | None \<Rightarrow> ''The binding layer could not read this type; the shape is unknown.''))"

primrec node_schema :: "writer \<Rightarrow> nat \<Rightarrow> node_writer" where
  "node_schema w 0 = (\<lambda>node depth rootInline. None)"
| "node_schema w (Suc fuel) = node_step w (node_schema w fuel)"

section \<open>The document\<close>

fun defs_schema :: "writer \<Rightarrow> node_writer \<Rightarrow> string list
    \<Rightarrow> ((string \<times> js) list \<times> schema_diagnostic list) option" where
  "defs_schema w self [] = Some ([], [])"
| "defs_schema w self (key # keys) =
     (case type_body w self key 0 of
        None \<Rightarrow> None
      | Some (v, ds) \<Rightarrow> map_option (\<lambda>(vs, es). ((key, v) # vs, ds @ es)) (defs_schema w self keys))"

definition def_bag :: "writer \<Rightarrow> (string \<times> js) list \<Rightarrow> (string \<times> js) list" where
  "def_bag w defs = fold (\<lambda>(key, v). obj_put (name_of w key) v) (sort_key (\<lambda>d. name_of w (fst d)) defs) []"

definition write_document :: "writer \<Rightarrow> nat \<Rightarrow> type_node \<Rightarrow> written" where
  "write_document w fuel root =
     (case node_schema w fuel root 0 True of
        None \<Rightarrow> None
      | Some (schema, ds) \<Rightarrow> map_option (\<lambda>(defs, es).
          (if defs = [] then schema else js_put ''$defs'' (JObj (def_bag w defs)) schema, ds @ es))
          (defs_schema w (node_schema w fuel) (sort (wr_hoisted w))))"

definition simplifySchema :: "nat \<Rightarrow> type_shape \<Rightarrow> bool \<Rightarrow> nat option \<Rightarrow> written" where
  "simplifySchema fuel shape dropReadOnly maxDepth =
     (let w = create_writer shape dropReadOnly maxDepth;
          ds = snd (assignNames (ts_types shape) (wr_hoisted w))
      in map_option (\<lambda>(schema, es). (schema, ds @ es)) (write_document w fuel (ts_root shape)))"

end
