(* ===== verification/Schema_Termination.thy ===== *)
theory Schema_Termination
  imports Schema_Simplification
begin

text \<open>
  The writer of a simplified schema ends: every cycle of references passes through a hoisted type,
  because the graph it builds first holds every reference and its search finds every cycle.
\<close>

section \<open>The graph is complete\<close>

definition refs_of_key :: "(string \<times> object_type) list \<Rightarrow> string \<Rightarrow> string list" where
  "refs_of_key types k = (case map_of types k of None \<Rightarrow> [] | Some d \<Rightarrow> member_refs d)"

lemma count_use_dom: "dom (map_of (fold count_use ks uses)) = dom (map_of uses) \<union> set ks"
  by (induction ks arbitrary: uses) (auto simp: count_use_def split: if_splits)

definition graph_inv :: "(string \<times> object_type) list \<Rightarrow> string list \<Rightarrow> ref_graph \<Rightarrow> bool" where
  "graph_inv types queue g =
     ((\<forall>k rs. map_of (rg_edges g) k = Some rs \<longrightarrow>
         rs = refs_of_key types k \<and> set rs \<subseteq> dom (map_of (rg_edges g)) \<union> set queue)
      \<and> dom (map_of (rg_uses g)) = dom (map_of (rg_edges g)) \<union> set queue)"

lemma visit_inv:
  assumes "graph_inv types queue g"
  shows "graph_inv types [] (visit types queue g)
    \<and> set queue \<union> dom (map_of (rg_edges g)) \<subseteq> dom (map_of (rg_edges (visit types queue g)))"
  using assms
proof (induction types queue g rule: visit.induct)
  case (1 types g)
  then show ?case by simp
next
  case (2 types key queue g)
  show ?case
  proof (cases "map_of (rg_edges g) key = None")
    case False
    then have "graph_inv types queue g" using "2.prems" by (auto simp: graph_inv_def)
    with False "2.IH"(1) show ?thesis by auto
  next
    case True
    show ?thesis
    proof (cases "map_of types key")
      case None
      let ?g = "g\<lparr>rg_edges := AList.update key [] (rg_edges g)\<rparr>"
      have "graph_inv types queue ?g"
        using "2.prems" None by (auto simp: graph_inv_def refs_of_key_def)
      from "2.IH"(2) [OF _ None this] True
      have "graph_inv types [] (visit types queue ?g)"
        "set queue \<union> dom (map_of (rg_edges ?g)) \<subseteq> dom (map_of (rg_edges (visit types queue ?g)))" by blast+
      moreover have "dom (map_of (rg_edges ?g)) = insert key (dom (map_of (rg_edges g)))" by simp
      moreover have "visit types (key # queue) g = visit types queue ?g" using True None by simp
      ultimately show ?thesis unfolding list.set by (simp only:) blast
    next
      case (Some d)
      let ?refs = "member_refs d"
      let ?g = "\<lparr>rg_uses = fold count_use ?refs (rg_uses g), rg_edges = AList.update key ?refs (rg_edges g)\<rparr>"
      have "graph_inv types (queue @ ?refs) ?g"
        using "2.prems" Some by (auto simp: graph_inv_def refs_of_key_def count_use_dom)
      from "2.IH"(3) [OF _ Some refl this] True
      have "graph_inv types [] (visit types (queue @ ?refs) ?g)"
        "set (queue @ ?refs) \<union> dom (map_of (rg_edges ?g)) \<subseteq> dom (map_of (rg_edges (visit types (queue @ ?refs) ?g)))"
        by blast+
      moreover have "dom (map_of (rg_edges ?g)) = insert key (dom (map_of (rg_edges g)))" by simp
      moreover have "visit types (key # queue) g = visit types (queue @ ?refs) ?g"
        using True Some by (simp add: Let_def)
      ultimately show ?thesis unfolding list.set by (simp only: set_append) blast
    qed
  qed
qed

definition visited :: "type_shape \<Rightarrow> string set" where
  "visited shape = dom (map_of (rg_edges (buildGraph shape)))"

lemma buildGraph_facts:
  "set (collectRefs (ts_root shape)) \<subseteq> visited shape"
  "k \<in> visited shape \<Longrightarrow> edges_of (rg_edges (buildGraph shape)) k = refs_of_key (ts_types shape) k"
  "k \<in> visited shape \<Longrightarrow> set (refs_of_key (ts_types shape) k) \<subseteq> visited shape"
  "dom (map_of (rg_uses (buildGraph shape))) = visited shape"
proof -
  let ?rs = "collectRefs (ts_root shape)"
  have "graph_inv (ts_types shape) ?rs \<lparr>rg_uses = fold count_use ?rs [], rg_edges = []\<rparr>"
    by (simp add: graph_inv_def count_use_dom)
  from visit_inv [OF this] have g: "graph_inv (ts_types shape) [] (buildGraph shape)"
    and r: "set ?rs \<subseteq> visited shape" by (simp_all add: buildGraph_def Let_def visited_def)
  from r show "set ?rs \<subseteq> visited shape" .
  from g show "dom (map_of (rg_uses (buildGraph shape))) = visited shape" by (simp add: graph_inv_def visited_def)
  show "edges_of (rg_edges (buildGraph shape)) k = refs_of_key (ts_types shape) k"
    and "set (refs_of_key (ts_types shape) k) \<subseteq> visited shape" if k: "k \<in> visited shape" for k
    using g k by (auto simp: graph_inv_def visited_def edges_of_def)
qed

section \<open>The search finds every cycle\<close>

lemma search_complete:
  assumes "\<not> search edges target queue seen" and "target \<notin> set seen"
    and "\<forall>k \<in> set seen. set (edges_of edges k) \<subseteq> set seen \<union> set queue"
  shows "\<exists>S. set queue \<union> set seen \<subseteq> S \<and> target \<notin> S \<and> (\<forall>k \<in> S. set (edges_of edges k) \<subseteq> S)"
  using assms
proof (induction edges target queue seen rule: search.induct)
  case (1 edges target seen)
  then show ?case by (intro exI [of _ "set seen"]) auto
next
  case (2 edges target key queue seen)
  then have ne: "key \<noteq> target" by auto
  show ?case
  proof (cases "key \<in> set seen")
    case True
    have "\<forall>k \<in> set seen. set (edges_of edges k) \<subseteq> set seen \<union> set queue" using "2.prems"(3) True by auto
    moreover have "\<not> search edges target queue seen" using "2.prems"(1) ne True by simp
    ultimately obtain S where "set queue \<union> set seen \<subseteq> S" "target \<notin> S"
      "\<forall>k \<in> S. set (edges_of edges k) \<subseteq> S" using "2.IH"(1) [OF ne True] "2.prems"(2) by blast
    with True show ?thesis by (intro exI [of _ S]) auto
  next
    case False
    have "\<forall>k \<in> set (key # seen). set (edges_of edges k) \<subseteq> set (key # seen) \<union> set (queue @ edges_of edges key)"
      using "2.prems"(3) by auto
    moreover have "\<not> search edges target (queue @ edges_of edges key) (key # seen)" using "2.prems"(1) ne False by simp
    moreover have "target \<notin> set (key # seen)" using "2.prems"(2) ne by simp
    ultimately obtain S where "set (queue @ edges_of edges key) \<union> set (key # seen) \<subseteq> S" "target \<notin> S"
      "\<forall>k \<in> S. set (edges_of edges k) \<subseteq> S" using "2.IH"(2) [OF ne False] by blast
    then show ?thesis by (intro exI [of _ S]) auto
  qed
qed

definition edge_rel :: "ref_graph \<Rightarrow> (string \<times> string) set" where
  "edge_rel g = {(k', k). k' \<in> set (edges_of (rg_edges g) k)}"

lemma reaches_complete:
  assumes "(target, start) \<in> (edge_rel g)\<^sup>+"
  shows "reaches g start target"
proof (rule ccontr)
  assume "\<not> reaches g start target"
  then obtain S where S: "set (edges_of (rg_edges g) start) \<subseteq> S" "target \<notin> S"
    "\<forall>k \<in> S. set (edges_of (rg_edges g) k) \<subseteq> S"
    using search_complete [of "rg_edges g" target "edges_of (rg_edges g) start" "[]"] by (auto simp: reaches_def)
  from assms have "target \<in> S"
  proof (induction rule: converse_trancl_induct)
    case (base y)
    with S(1) show ?case by (auto simp: edge_rel_def)
  next
    case (step y z)
    with S(3) show ?case by (auto simp: edge_rel_def)
  qed
  with S(2) show False ..
qed

section \<open>Types that are written in place\<close>

text \<open>\<open>k'\<close> is written inside \<open>k\<close>: it is referenced there and is not hoisted.\<close>

definition inlined :: "type_shape \<Rightarrow> (string \<times> string) set" where
  "inlined shape = {(k', k). k \<in> visited shape \<and> k' \<in> set (refs_of_key (ts_types shape) k)
     \<and> k' \<notin> set (hoisted_keys (buildGraph shape))}"

lemma not_hoisted:
  assumes "k \<in> visited shape" and "k \<notin> set (hoisted_keys (buildGraph shape))"
  shows "(k, k) \<notin> (edge_rel (buildGraph shape))\<^sup>+"
proof
  assume "(k, k) \<in> (edge_rel (buildGraph shape))\<^sup>+"
  then have r: "reaches (buildGraph shape) k k" by (rule reaches_complete)
  from assms(1) obtain n where "map_of (rg_uses (buildGraph shape)) k = Some n"
    by (auto simp flip: buildGraph_facts(4))
  then have "(k, n) \<in> set (rg_uses (buildGraph shape))" by (rule map_of_SomeD)
  with r assms(2) show False by (force simp: hoisted_keys_def)
qed

lemma inlined_wf: "wf (inlined shape)"
proof (rule finite_acyclic_wf)
  have "inlined shape \<subseteq> visited shape \<times> visited shape"
    using buildGraph_facts(3) by (force simp: inlined_def)
  moreover have "finite (visited shape)" by (simp add: visited_def finite_dom_map_of)
  ultimately show "finite (inlined shape)" by (meson finite_SigmaI finite_subset)
  have sub: "inlined shape \<subseteq> edge_rel (buildGraph shape)"
    using buildGraph_facts(2) by (auto simp: inlined_def edge_rel_def)
  show "acyclic (inlined shape)"
  proof (rule acyclicI, intro allI notI)
    fix k assume c: "(k, k) \<in> (inlined shape)\<^sup>+"
    then obtain k' where "(k, k') \<in> inlined shape" by (meson tranclD)
    then have "k \<notin> set (hoisted_keys (buildGraph shape))" "k \<in> visited shape"
      using buildGraph_facts(3) by (auto simp: inlined_def)
    then have "(k, k) \<notin> (edge_rel (buildGraph shape))\<^sup>+" by (intro not_hoisted)
    with trancl_mono [OF c sub] show False by simp
  qed
qed

section \<open>More fuel changes nothing\<close>

definition extends_writer :: "node_writer \<Rightarrow> node_writer \<Rightarrow> bool" where
  "extends_writer self self' = (\<forall>nd d r x. self nd d r = Some x \<longrightarrow> self' nd d r = Some x)"

lemma wrap_Some [simp]: "wrap f r = Some x \<longleftrightarrow> (\<exists>v ds. r = Some (v, ds) \<and> x = (f v, ds))"
  by (cases r) (auto simp: wrap_def)

lemma wrap_None [simp]: "wrap f r = None \<longleftrightarrow> r = None"
  by (simp add: wrap_def)

lemma descend_mono:
  "extends_writer self self' \<Longrightarrow> descend w self nd d = Some x \<Longrightarrow> descend w self' nd d = Some x"
  by (cases x) (auto simp: descend_def extends_writer_def split: if_splits)

lemma descend_or_opaque_mono:
  "extends_writer self self' \<Longrightarrow> descend_or_opaque w self nd d = Some x \<Longrightarrow> descend_or_opaque w self' nd d = Some x"
  by (cases x) (auto simp: descend_or_opaque_def descend_mono split: option.splits)

lemma member_schema_mono:
  "extends_writer self self' \<Longrightarrow> member_schema w self d m = Some x \<Longrightarrow> member_schema w self' d m = Some x"
  by (auto simp: member_schema_def dest: descend_mono)

lemma members_schema_mono:
  "extends_writer self self' \<Longrightarrow> members_schema w self d ms = Some x \<Longrightarrow> members_schema w self' d ms = Some x"
proof (induction ms arbitrary: x)
  case (Cons m ms)
  from Cons.prems(2) obtain v ds y where "member_schema w self d m = Some (v, ds)"
    and "members_schema w self d ms = Some y" and "x = (case y of (vs, es) \<Rightarrow> ((tm_name m, v) # vs, ds @ es))"
    by (auto split: option.splits prod.splits)
  with member_schema_mono [OF Cons.prems(1)] Cons.IH [OF Cons.prems(1)] show ?case by auto
qed simp

lemma type_body_mono:
  assumes "extends_writer self self'" and "type_body w self k d = Some x"
  shows "type_body w self' k d = Some x"
proof (cases "map_of (wr_types w) k")
  case None
  with assms(2) show ?thesis by (simp add: type_body_def)
next
  case (Some t)
  have "object_schema w self t d = Some x" using assms(2) Some by (simp add: type_body_def)
  then have "object_schema w self' t d = Some x"
    using assms(1) members_schema_mono [OF assms(1)]
    by (auto simp: object_schema_def Let_def extends_writer_def split: if_splits)
  with Some show ?thesis by (simp add: type_body_def)
qed

lemma node_step_mono:
  assumes "extends_writer self self'"
  shows "extends_writer (node_step w self) (node_step w self')"
  unfolding extends_writer_def
proof (intro allI impI)
  fix nd d r x
  assume "node_step w self nd d r = Some x"
  then show "node_step w self' nd d r = Some x"
    using descend_or_opaque_mono [OF assms] type_body_mono [OF assms]
    by (cases x; cases nd) (auto simp: node_step_def map_schema_def ref_schema_def split: option.splits if_splits)
qed

lemma fuel_extends: "n \<le> m \<Longrightarrow> extends_writer (node_schema w n) (node_schema w m)"
proof (induction m arbitrary: n)
  case 0
  then show ?case by (simp add: extends_writer_def)
next
  case (Suc m)
  show ?case
  proof (cases n)
    case 0
    then show ?thesis by (simp add: extends_writer_def)
  next
    case (Suc k)
    with Suc.prems Suc.IH [of k] show ?thesis by (simp add: node_step_mono)
  qed
qed

section \<open>Enough fuel\<close>

definition writes_node :: "writer \<Rightarrow> nat \<Rightarrow> type_node \<Rightarrow> bool" where
  "writes_node w n nd = (\<forall>d. node_schema w n nd d False \<noteq> None)"

definition writes_body :: "writer \<Rightarrow> nat \<Rightarrow> string \<Rightarrow> bool" where
  "writes_body w n k = (\<forall>d. type_body w (node_schema w n) k d \<noteq> None)"

lemma writes_node_mono: "writes_node w n nd \<Longrightarrow> n \<le> m \<Longrightarrow> writes_node w m nd"
  using fuel_extends [of n m w] unfolding writes_node_def extends_writer_def by (metis option.exhaust option.distinct(1))

lemma writes_body_mono: "writes_body w n k \<Longrightarrow> n \<le> m \<Longrightarrow> writes_body w m k"
  using type_body_mono [OF fuel_extends [of n m w]] unfolding writes_body_def by (metis option.exhaust option.distinct(1))

lemma common_fuel:
  fixes P :: "nat \<Rightarrow> 'a \<Rightarrow> bool"
  assumes "\<forall>x \<in> set xs. \<exists>n. P n x" and "\<And>n m x. P n x \<Longrightarrow> n \<le> m \<Longrightarrow> P m x"
  shows "\<exists>n. \<forall>x \<in> set xs. P n x"
  using assms(1)
proof (induction xs)
  case (Cons x xs)
  then obtain n m where "\<forall>y \<in> set xs. P n y" and "P m x" by auto
  then have "\<forall>y \<in> set (x # xs). P (max n m) y"
    using assms(2) [of n _ "max n m"] assms(2) [of m x "max n m"] by simp
  then show ?case by blast
qed simp

lemma descend_writes: "writes_node w n nd \<Longrightarrow> descend w (node_schema w n) nd d \<noteq> None"
  by (simp add: descend_def writes_node_def reported_def)

lemma option_node_writes:
  assumes "\<And>i. items = Some i \<Longrightarrow> \<exists>n. writes_node w n i"
  shows "\<exists>n. \<forall>d. descend_or_opaque w (node_schema w n) items d \<noteq> None"
proof (cases items)
  case None
  then show ?thesis by (simp add: descend_or_opaque_def clean_def)
next
  case (Some i)
  with assms obtain n where "writes_node w n i" by blast
  with descend_writes [of w n i] Some show ?thesis by (auto simp: descend_or_opaque_def)
qed

lemma node_writes:
  assumes "\<forall>k \<in> set (collectRefs nd). k \<notin> set (wr_hoisted w) \<longrightarrow> (\<exists>n. writes_body w n k)"
  shows "\<exists>n. writes_node w n nd"
  using assms
proof (induction nd rule: collectRefs.induct)
  case (1 k)
  show ?case
  proof (cases "k \<in> set (wr_hoisted w)")
    case True
    have "writes_node w 1 (Ref_node (Some k))"
      by (simp add: writes_node_def node_step_def ref_schema_def True clean_def)
    then show ?thesis ..
  next
    case False
    with 1 obtain n where "writes_body w n k" by auto
    then have "writes_node w (Suc n) (Ref_node (Some k))"
      by (simp add: writes_node_def node_step_def ref_schema_def False writes_body_def)
    then show ?thesis ..
  qed
next
  case (2 items)
  have "\<exists>n. \<forall>d. descend_or_opaque w (node_schema w n) (Some items) d \<noteq> None"
    by (rule option_node_writes) (use 2 in auto)
  then obtain n where "\<forall>d. descend_or_opaque w (node_schema w n) (Some items) d \<noteq> None" by blast
  then have "writes_node w (Suc n) (Array_node (Some items))"
    by (simp add: writes_node_def node_step_def del: not_None_eq)
  then show ?case ..
next
  case (3 keys vals)
  have "\<exists>n. \<forall>d. descend_or_opaque w (node_schema w n) (Some vals) d \<noteq> None"
    by (rule option_node_writes) (use 3 in auto)
  then obtain n where "\<forall>d. descend_or_opaque w (node_schema w n) (Some vals) d \<noteq> None" by blast
  then have "writes_node w (Suc n) (Map_node keys (Some vals))"
    by (simp add: writes_node_def node_step_def map_schema_def reported_def del: not_None_eq)
  then show ?case ..
qed (rule exI [of _ 1], simp add: writes_node_def node_step_def map_schema_def descend_or_opaque_def
    ref_schema_def clean_def reported_def split: option.split)+

lemma members_write:
  assumes "\<forall>m \<in> set ms. writes_node w n (tm_type m)"
  shows "members_schema w (node_schema w n) d ms \<noteq> None"
  using assms
proof (induction ms)
  case (Cons m ms)
  have "member_schema w (node_schema w n) d m \<noteq> None"
    using descend_writes Cons.prems by (simp add: member_schema_def del: not_None_eq)
  with Cons show ?case by auto
qed simp

lemma body_writes:
  assumes "\<forall>k' \<in> set (refs_of_key (wr_types w) k). k' \<notin> set (wr_hoisted w) \<longrightarrow> (\<exists>n. writes_body w n k')"
  shows "\<exists>n. writes_body w n k"
proof (cases "map_of (wr_types w) k")
  case None
  then show ?thesis by (simp add: writes_body_def type_body_def reported_def)
next
  case (Some t)
  have "\<forall>m \<in> set (ot_members t). \<exists>n. writes_node w n (tm_type m)"
  proof
    fix m assume "m \<in> set (ot_members t)"
    then have "set (collectRefs (tm_type m)) \<subseteq> set (refs_of_key (wr_types w) k)"
      by (auto simp: refs_of_key_def Some member_refs_def)
    with assms show "\<exists>n. writes_node w n (tm_type m)" by (intro node_writes) auto
  qed
  then obtain n where n: "\<forall>m \<in> set (ot_members t). writes_node w n (tm_type m)"
    using common_fuel [of "ot_members t" "\<lambda>n m. writes_node w n (tm_type m)"] writes_node_mono by blast
  have sel: "\<forall>m \<in> set (selected w t). writes_node w n (tm_type m)" using n by (auto simp: selected_def)
  have "object_schema w (node_schema w n) t d \<noteq> None" for d
  proof (cases "ot_wrapper t \<and> length (selected w t) = 1")
    case True
    then have "hd (selected w t) \<in> set (selected w t)" by (intro hd_in_set) auto
    with sel have "writes_node w n (tm_type (hd (selected w t)))" by blast
    with True show ?thesis by (simp add: object_schema_def Let_def writes_node_def)
  next
    case False
    with members_write [OF sel, of d] show ?thesis by (auto simp: object_schema_def Let_def)
  qed
  with Some show ?thesis by (auto simp: writes_body_def type_body_def)
qed

section \<open>The property\<close>

lemma visited_writes:
  assumes "wr_types w = ts_types shape" and "wr_hoisted w = hoisted_keys (buildGraph shape)"
    and "k \<in> visited shape"
  shows "\<exists>n. writes_body w n k"
  using assms(3)
proof (induction k rule: wf_induct_rule [OF inlined_wf [of shape], consumes 0, case_names less])
  case (less k)
  show ?case
  proof (rule body_writes, intro ballI impI)
    fix k' assume k': "k' \<in> set (refs_of_key (wr_types w) k)" "k' \<notin> set (wr_hoisted w)"
    then have "(k', k) \<in> inlined shape" using less(2) assms by (simp add: inlined_def)
    moreover have "k' \<in> visited shape" using k'(1) buildGraph_facts(3) [OF less(2)] assms(1) by auto
    ultimately show "\<exists>n. writes_body w n k'" by (rule less(1))
  qed
qed

lemma hoisted_visited: "set (hoisted_keys (buildGraph shape)) \<subseteq> visited shape"
proof
  fix k assume "k \<in> set (hoisted_keys (buildGraph shape))"
  then obtain n where "(k, n) \<in> set (rg_uses (buildGraph shape))" by (auto simp: hoisted_keys_def)
  then have "k \<in> dom (map_of (rg_uses (buildGraph shape)))" by (simp add: dom_map_of_conv_image_fst rev_image_eqI)
  then show "k \<in> visited shape" by (simp add: buildGraph_facts(4))
qed

lemma root_writes:
  assumes "\<forall>k \<in> set (collectRefs nd). \<exists>n. writes_body w n k"
  shows "\<exists>n. \<forall>m \<ge> n. node_schema w m nd d True \<noteq> None"
proof (cases "\<exists>k. nd = Ref_node (Some k)")
  case True
  then obtain k n where nd: "nd = Ref_node (Some k)" and "writes_body w n k" using assms by auto
  then have "\<forall>m \<ge> n. node_schema w (Suc m) nd d True \<noteq> None"
    using writes_body_mono [of w n k] by (simp add: node_step_def ref_schema_def writes_body_def)
  then show ?thesis by (metis Suc_le_D Suc_le_mono)
next
  case False
  then have same: "node_schema w m nd d True = node_schema w m nd d False" for m
    by (cases m; cases nd) (auto simp: node_step_def ref_schema_def split: option.split)
  obtain n where "writes_node w n nd" using node_writes [of nd w] assms by blast
  then have "\<forall>m \<ge> n. node_schema w m nd d False \<noteq> None"
    using writes_node_mono [of w n nd] unfolding writes_node_def by blast
  then show ?thesis unfolding same by blast
qed

lemma defs_write:
  assumes "\<forall>k \<in> set keys. writes_body w n k"
  shows "defs_schema w (node_schema w n) keys \<noteq> None"
  using assms
proof (induction keys)
  case (Cons k keys)
  then have "type_body w (node_schema w n) k 0 \<noteq> None" by (simp add: writes_body_def)
  with Cons show ?case by auto
qed simp

lemma simplify_enough:
  "\<exists>n. \<forall>m \<ge> n. simplifySchema m shape dropReadOnly maxDepth \<noteq> None"
proof -
  define w where "w = create_writer shape dropReadOnly maxDepth"
  have w: "wr_types w = ts_types shape" "wr_hoisted w = hoisted_keys (buildGraph shape)"
    by (simp_all add: w_def create_writer_def Let_def)
  obtain a where a: "\<forall>m \<ge> a. node_schema w m (ts_root shape) 0 True \<noteq> None"
    using root_writes [of "ts_root shape" w 0] visited_writes [OF w] buildGraph_facts(1) by blast
  have "\<forall>k \<in> set (sort (wr_hoisted w)). \<exists>n. writes_body w n k"
    using visited_writes [OF w] hoisted_visited w(2) by auto
  then obtain b where b: "\<forall>k \<in> set (sort (wr_hoisted w)). writes_body w b k"
    using common_fuel [of "sort (wr_hoisted w)" "writes_body w"] writes_body_mono by blast
  have "simplifySchema m shape dropReadOnly maxDepth \<noteq> None" if "m \<ge> max a b" for m
  proof -
    have "node_schema w m (ts_root shape) 0 True \<noteq> None" using a that by simp
    moreover have "defs_schema w (node_schema w m) (sort (wr_hoisted w)) \<noteq> None"
      by (rule defs_write) (use b that writes_body_mono in \<open>meson max.boundedE\<close>)
    ultimately show ?thesis by (auto simp: simplifySchema_def Let_def write_document_def simp flip: w_def)
  qed
  then show ?thesis by blast
qed

lemma defs_mono:
  assumes "extends_writer self self'" and "defs_schema w self keys = Some x"
  shows "defs_schema w self' keys = Some x"
  using assms(2)
proof (induction keys arbitrary: x)
  case (Cons k keys)
  from Cons.prems obtain v ds y where "type_body w self k 0 = Some (v, ds)"
    and "defs_schema w self keys = Some y" and "x = (case y of (vs, es) \<Rightarrow> ((k, v) # vs, ds @ es))"
    by (auto split: option.splits prod.splits)
  with type_body_mono [OF assms(1)] Cons.IH show ?case by auto
qed simp

lemma simplify_mono:
  assumes "simplifySchema n shape ro depth = Some r" and "n \<le> m"
  shows "simplifySchema m shape ro depth = Some r"
proof -
  define w where "w = create_writer shape ro depth"
  have ext: "extends_writer (node_schema w n) (node_schema w m)" by (rule fuel_extends [OF assms(2)])
  obtain schema es where d: "write_document w n (ts_root shape) = Some (schema, es)"
    and r: "r = (schema, snd (assignNames (ts_types shape) (wr_hoisted w)) @ es)"
    using assms(1) by (auto simp: simplifySchema_def Let_def simp flip: w_def)
  then obtain root rs defs es' where root: "node_schema w n (ts_root shape) 0 True = Some (root, rs)"
    and defs: "defs_schema w (node_schema w n) (sort (wr_hoisted w)) = Some (defs, es')"
    and s: "schema = (if defs = [] then root else js_put ''$defs'' (JObj (def_bag w defs)) root)" "es = rs @ es'"
    by (auto simp: write_document_def split: option.splits)
  have "node_schema w m (ts_root shape) 0 True = Some (root, rs)"
    using ext root by (simp add: extends_writer_def)
  moreover have "defs_schema w (node_schema w m) (sort (wr_hoisted w)) = Some (defs, es')"
    by (rule defs_mono [OF ext defs])
  ultimately show ?thesis by (simp add: simplifySchema_def Let_def write_document_def r s flip: w_def)
qed

text \<open>
  C38: Writing a schema always ends, for every graph of types, recursive or not, with or without a depth
  budget: from some amount of fuel on the writer returns a document, the same one for every larger
  amount.
\<close>

theorem simplifySchema_terminates:
  "\<exists>n schema diagnostics. \<forall>m. simplifySchema (n + m) shape dropReadOnly maxDepth = Some (schema, diagnostics)"
proof -
  obtain n where n: "simplifySchema n shape dropReadOnly maxDepth \<noteq> None"
    using simplify_enough [of shape dropReadOnly maxDepth] by blast
  then obtain schema ds where "simplifySchema n shape dropReadOnly maxDepth = Some (schema, ds)" by auto
  then have "simplifySchema (n + m) shape dropReadOnly maxDepth = Some (schema, ds)" for m
    by (rule simplify_mono) simp
  then show ?thesis by blast
qed

end
