(* ===== verification/Schema_References.thy ===== *)
theory Schema_References
  imports Schema_Termination
begin

text \<open>
  Every reference of a simplified schema resolves inside the document, to the schema of the type it
  stands for, as long as the names of the hoisted types are distinct; and the names are not always.
\<close>

section \<open>The references of a document\<close>

definition string_value :: "js \<Rightarrow> string list" where
  "string_value v = (case v of JStr s \<Rightarrow> [s] | _ \<Rightarrow> [])"

fun ref_texts :: "js \<Rightarrow> string list" where
  "ref_texts (JArr vs) = concat (map ref_texts vs)"
| "ref_texts (JObj kvs) = concat (map (\<lambda>p. (if fst p = ''$ref'' then string_value (snd p) else []) @ ref_texts (snd p)) kvs)"
| "ref_texts _ = []"

definition def_ref :: "writer \<Rightarrow> string \<Rightarrow> string" where
  "def_ref w key = ''#/$defs/'' @ name_of w key"

definition refs_ok :: "writer \<Rightarrow> js \<Rightarrow> bool" where
  "refs_ok w v = (set (ref_texts v) \<subseteq> def_ref w ` set (wr_hoisted w))"

text \<open>A schema the writer may embed: an object whose references are references to hoisted types.\<close>

definition schema_ok :: "writer \<Rightarrow> js \<Rightarrow> bool" where
  "schema_ok w v = (refs_ok w v \<and> (\<exists>kvs. v = JObj kvs))"

lemma refs_ok_leaf [simp]: "refs_ok w (JStr s)" "refs_ok w (JNum n)" "refs_ok w (JBool b)"
  by (simp_all add: refs_ok_def)

lemma refs_ok_JArr [simp]: "refs_ok w (JArr vs) \<longleftrightarrow> (\<forall>v \<in> set vs. refs_ok w v)"
  by (auto simp: refs_ok_def)

lemma refs_ok_JObj: "refs_ok w (JObj kvs) \<longleftrightarrow> (\<forall>(k, v) \<in> set kvs. refs_ok w v
    \<and> (k = ''$ref'' \<longrightarrow> set (string_value v) \<subseteq> def_ref w ` set (wr_hoisted w)))"
  by (simp add: refs_ok_def UN_subset_iff split_def) blast

lemma schema_okI: "\<forall>(k, v) \<in> set kvs. refs_ok w v \<and> k \<noteq> ''$ref'' \<Longrightarrow> schema_ok w (JObj kvs)"
  by (auto simp: schema_ok_def refs_ok_JObj)

lemma schema_ok_refs: "schema_ok w v \<Longrightarrow> refs_ok w v \<and> string_value v = []"
  by (auto simp: schema_ok_def string_value_def)

lemma set_obj_put_subset: "set (obj_put k v kvs) \<subseteq> insert (k, v) (set kvs)"
proof -
  have "set (AList.update k v kvs) \<subseteq> insert (k, v) (set kvs)" by (induction kvs) auto
  then show ?thesis by (simp add: obj_put_def subset_insertI)
qed

lemma refs_ok_obj_put:
  assumes "refs_ok w (JObj kvs)" and "refs_ok w v" and "k = ''$ref'' \<Longrightarrow> string_value v = []"
  shows "refs_ok w (JObj (obj_put k v kvs))"
  unfolding refs_ok_JObj
proof (rule ballI, clarify)
  fix a b assume "(a, b) \<in> set (obj_put k v kvs)"
  then consider "a = k \<and> b = v" | "(a, b) \<in> set kvs" using set_obj_put_subset [of k v kvs] by blast
  then show "refs_ok w b \<and> (a = ''$ref'' \<longrightarrow> set (string_value b) \<subseteq> def_ref w ` set (wr_hoisted w))"
  proof cases
    case 1
    with assms(2,3) show ?thesis by simp
  next
    case 2
    with assms(1) show ?thesis unfolding refs_ok_JObj by blast
  qed
qed

lemma schema_ok_put: "schema_ok w v \<Longrightarrow> refs_ok w x \<Longrightarrow> k \<noteq> ''$ref'' \<Longrightarrow> schema_ok w (js_put k x v)"
  using refs_ok_obj_put by (auto simp: schema_ok_def)

lemma schema_ok_put_some:
  "schema_ok w v \<Longrightarrow> (\<And>x. refs_ok w (f x)) \<Longrightarrow> k \<noteq> ''$ref'' \<Longrightarrow> schema_ok w (put_some k f x v)"
  by (simp add: put_some_def schema_ok_put split: option.split)

lemma schema_ok_constraints: "schema_ok w v \<Longrightarrow> schema_ok w (applyConstraints d cs v)"
  by (simp add: applyConstraints_def put_constraints_def Let_def schema_ok_put_some split: option.split)

lemma opaque_ok: "schema_ok w opaque"
  unfolding opaque_def by (rule schema_okI) simp

lemma enumSchema_ok: "schema_ok w (enumSchema f)"
  by (auto simp: enumSchema_def Let_def schema_ok_def refs_ok_JObj strings_def split: enum_form.split)

lemma propertyNames_ok: "propertyNames k = Some p \<Longrightarrow> refs_ok w p"
  by (auto simp: propertyNames_def refs_ok_JObj split: option.splits if_splits)

section \<open>What the writer embeds\<close>

text \<open>Schemas taken over as they are bring no references of their own.\<close>

fun plain_node :: "type_node \<Rightarrow> bool" where
  "plain_node (Verbatim_node (Some s)) = (ref_texts s = [] \<and> (case s of JObj kvs \<Rightarrow> True | _ \<Rightarrow> False))"
| "plain_node (Array_node (Some items)) = plain_node items"
| "plain_node (Map_node keys (Some vals)) = plain_node vals"
| "plain_node _ = True"

definition plain_types :: "(string \<times> object_type) list \<Rightarrow> bool" where
  "plain_types types = (\<forall>d \<in> snd ` set types. \<forall>m \<in> set (ot_members d). plain_node (tm_type m))"

definition good_writer :: "writer \<Rightarrow> node_writer \<Rightarrow> bool" where
  "good_writer w self = (\<forall>nd d r v ds. plain_node nd \<longrightarrow> self nd d r = Some (v, ds) \<longrightarrow> schema_ok w v)"

lemma good_writerD: "good_writer w self \<Longrightarrow> plain_node nd \<Longrightarrow> self nd d r = Some (v, ds) \<Longrightarrow> schema_ok w v"
  unfolding good_writer_def by blast

lemma descend_ok:
  "good_writer w self \<Longrightarrow> plain_node nd \<Longrightarrow> descend w self nd d = Some (v, ds) \<Longrightarrow> schema_ok w v"
  by (auto simp: descend_def reported_def opaque_ok dest: good_writerD split: if_splits)

lemma descend_or_opaque_ok:
  assumes "good_writer w self" and "\<And>n. nd = Some n \<Longrightarrow> plain_node n"
    and "descend_or_opaque w self nd d = Some (v, ds)"
  shows "schema_ok w v"
  using assms descend_ok [OF assms(1)] by (auto simp: descend_or_opaque_def clean_def opaque_ok split: option.splits)

lemma members_ok:
  assumes "good_writer w self" and "\<forall>m \<in> set ms. plain_node (tm_type m)"
    and "members_schema w self d ms = Some (ps, ds)"
  shows "\<forall>p \<in> set ps. schema_ok w (snd p)"
  using assms(2,3)
proof (induction ms arbitrary: ps ds)
  case (Cons m ms)
  then obtain v es vs fs where m: "member_schema w self d m = Some (v, es)"
    and r: "members_schema w self d ms = Some (vs, fs)" and ps: "ps = (tm_name m, v) # vs"
    by (auto split: option.splits)
  have "schema_ok w v" using m Cons.prems(1) descend_ok [OF assms(1)]
    by (auto simp: member_schema_def intro!: schema_ok_constraints)
  with Cons r ps show ?case by simp
qed simp

lemma fold_properties_ok:
  "\<forall>p \<in> set ps. schema_ok w (snd p) \<Longrightarrow> refs_ok w (JObj kvs) \<Longrightarrow> refs_ok w (JObj (fold (\<lambda>(k, v). obj_put k v) ps kvs))"
proof (induction ps arbitrary: kvs)
  case (Cons p ps)
  obtain k v where p: "p = (k, v)" by force
  with Cons.prems(1) have "schema_ok w v" by simp
  from schema_ok_refs [OF this] have "refs_ok w (JObj (obj_put k v kvs))"
    by (intro refs_ok_obj_put) (simp_all add: Cons.prems(2))
  with Cons p show ?case by simp
qed simp

lemma object_schema_ok:
  assumes "good_writer w self" and "\<forall>m \<in> set (ot_members t). plain_node (tm_type m)"
    and "object_schema w self t d = Some (v, ds)"
  shows "schema_ok w v"
proof -
  have sel: "\<forall>m \<in> set (selected w t). plain_node (tm_type m)" using assms(2) by (auto simp: selected_def)
  show ?thesis
  proof (cases "ot_wrapper t \<and> length (selected w t) = 1")
    case True
    then have "hd (selected w t) \<in> set (selected w t)" by (intro hd_in_set) auto
    with sel have "plain_node (tm_type (hd (selected w t)))" by blast
    with assms(1,3) True show ?thesis
      by (auto simp: object_schema_def Let_def dest: good_writerD intro!: schema_ok_constraints)
  next
    case False
    then obtain ps where ps: "members_schema w self d (selected w t) = Some (ps, ds)"
      and v: "v = JObj ([(''type'', JStr ''object''), (''properties'', JObj (fold (\<lambda>(k, v). obj_put k v) ps []))]
                @ (let required = map tm_name (filter tm_required (selected w t))
                   in if required = [] then [] else [(''required'', strings required)]))"
      using assms(3) by (auto simp: object_schema_def Let_def split: if_splits)
    have "refs_ok w (JObj (fold (\<lambda>(k, v). obj_put k v) ps []))"
      by (rule fold_properties_ok [OF members_ok [OF assms(1) sel ps]]) (simp add: refs_ok_JObj)
    then show ?thesis unfolding v by (intro schema_okI) (auto simp: Let_def strings_def)
  qed
qed

lemma type_body_ok:
  assumes "good_writer w self" and "plain_types (wr_types w)" and "type_body w self k d = Some (v, ds)"
  shows "schema_ok w v"
proof (cases "map_of (wr_types w) k")
  case None
  with assms(3) show ?thesis by (simp add: type_body_def reported_def opaque_ok)
next
  case (Some t)
  then have "t \<in> snd ` set (wr_types w)" by (force dest: map_of_SomeD)
  then have "\<forall>m \<in> set (ot_members t). plain_node (tm_type m)" using assms(2) by (auto simp: plain_types_def)
  with assms(1,3) Some show ?thesis by (auto simp: type_body_def intro: object_schema_ok)
qed

lemma node_step_ok:
  assumes "good_writer w self" and "plain_types (wr_types w)"
  shows "good_writer w (node_step w self)"
  unfolding good_writer_def
proof (intro allI impI)
  fix nd d r v ds
  assume p: "plain_node nd" and n: "node_step w self nd d r = Some (v, ds)"
  show "schema_ok w v"
  proof (cases nd)
    case (Scalar_node k f)
    with n show ?thesis by (auto simp: node_step_def clean_def intro!: schema_okI split: option.splits)
  next
    case Binary_node
    with n show ?thesis by (auto simp: node_step_def clean_def intro!: schema_okI)
  next
    case (Enum_node f)
    with n show ?thesis
      by (auto simp: node_step_def clean_def reported_def opaque_ok enumSchema_ok split: option.splits)
  next
    case (Map_node keys vals)
    from p Map_node have pv: "\<And>x. vals = Some x \<Longrightarrow> plain_node x" by simp
    show ?thesis
    proof (cases "case keys of Some k \<Rightarrow> \<not> mk_writable k | None \<Rightarrow> False")
      case True
      with n Map_node show ?thesis by (simp add: node_step_def map_schema_def reported_def opaque_ok)
    next
      case False
      with n Map_node obtain x where x: "descend_or_opaque w self vals d = Some (x, ds)"
        and v: "v = JObj ([(''type'', JStr ''object''), (''additionalProperties'', x)]
             @ (case Option.bind keys propertyNames of None \<Rightarrow> [] | Some p \<Rightarrow> [(''propertyNames'', p)]))"
        by (auto simp: node_step_def map_schema_def)
      have "schema_ok w x" by (rule descend_or_opaque_ok [OF assms(1) pv x])
      with schema_ok_refs show ?thesis unfolding v
        by (intro schema_okI) (auto dest: propertyNames_ok propertyNames_ok [OF sym] split: option.splits bind_splits)
    qed
  next
    case (Array_node items)
    from p Array_node have pv: "\<And>x. items = Some x \<Longrightarrow> plain_node x" by simp
    from n Array_node obtain x where x: "descend_or_opaque w self items d = Some (x, ds)"
      and v: "v = JObj [(''type'', JStr ''array''), (''items'', x)]" by (auto simp: node_step_def)
    have "schema_ok w x" by (rule descend_or_opaque_ok [OF assms(1) pv x])
    with schema_ok_refs show ?thesis unfolding v by (intro schema_okI) auto
  next
    case (Ref_node ref)
    have "schema_ok w (JObj [(''$ref'', JStr (def_ref w key))])" if "key \<in> set (wr_hoisted w)" for key
      using that by (simp add: schema_ok_def refs_ok_JObj string_value_def)
    with n Ref_node show ?thesis
      by (auto simp: node_step_def ref_schema_def reported_def clean_def opaque_ok def_ref_def
          dest: type_body_ok [OF assms] split: option.splits if_splits)
  next
    case (Verbatim_node s)
    with n p show ?thesis
      by (auto simp: node_step_def clean_def schema_ok_def refs_ok_def split: option.splits js.splits)
  next
    case (Unknown_node reason)
    with n show ?thesis by (simp add: node_step_def reported_def opaque_ok)
  qed
qed

lemma node_schema_ok: "plain_types (wr_types w) \<Longrightarrow> good_writer w (node_schema w n)"
  by (induction n) (simp add: good_writer_def, simp add: node_step_ok)

section \<open>The definitions\<close>

lemma fold_obj_put:
  assumes "distinct (map fst ps)" and "proto_key \<notin> fst ` set ps" and "(k, v) \<in> set ps"
  shows "map_of (fold (\<lambda>(k, v). obj_put k v) ps kvs) k = Some v"
  using assms
proof (induction ps arbitrary: kvs)
  case (Cons p ps)
  obtain a b where p: "p = (a, b)" by force
  have other: "k' \<notin> fst ` set qs \<Longrightarrow> map_of (fold (\<lambda>(k, v). obj_put k v) qs kvs) k' = map_of kvs k'" for k' qs kvs
    by (induction qs arbitrary: kvs) auto
  show ?case
  proof (cases "(k, v) = p")
    case True
    then have "k = a" "v = b" "a \<notin> fst ` set ps" "a \<noteq> proto_key" using p Cons.prems by auto
    then show ?thesis using other [of a ps "obj_put a b kvs"] by (simp add: p set_obj_put)
  next
    case False
    with Cons.prems have "(k, v) \<in> set ps" "distinct (map fst ps)" "proto_key \<notin> fst ` set ps" by auto
    with Cons.IH [of "obj_put a b kvs"] show ?thesis by (simp add: p)
  qed
qed simp

lemma defs_schema_entries:
  "defs_schema w self keys = Some (defs, ds) \<Longrightarrow> map fst defs = keys
    \<and> (\<forall>(key, v) \<in> set defs. \<exists>es. type_body w self key 0 = Some (v, es))"
  by (induction keys arbitrary: defs ds) (auto split: option.splits)

lemma def_bag_lookup:
  assumes "distinct (map (name_of w) (map fst defs))" and "proto_key \<notin> name_of w ` fst ` set defs"
    and "(key, v) \<in> set defs"
  shows "map_of (def_bag w defs) (name_of w key) = Some v"
proof -
  define ps where "ps = map (\<lambda>(key, v). (name_of w key, v)) (sort_key (\<lambda>d. name_of w (fst d)) defs)"
  have "def_bag w defs = fold (\<lambda>(k, v). obj_put k v) ps []"
    by (simp add: def_bag_def ps_def fold_map o_def split_def)
  moreover have "distinct (map fst ps)"
  proof -
    have "map fst ps = map (\<lambda>d. name_of w (fst d)) (sort_key (\<lambda>d. name_of w (fst d)) defs)"
      by (simp add: ps_def split_def o_def)
    moreover have "distinct (map (\<lambda>d. name_of w (fst d)) defs)" using assms(1) by (simp add: o_def)
    ultimately show ?thesis by (simp add: distinct_map)
  qed
  moreover have "fst ` set ps = name_of w ` fst ` set defs" by (simp add: ps_def image_image split_def)
  moreover have "(name_of w key, v) \<in> set ps"
    using imageI [OF assms(3), of "\<lambda>(key, v). (name_of w key, v)"] by (simp add: ps_def)
  ultimately show ?thesis using fold_obj_put [of ps "name_of w key" v "[]"] assms(2) by simp
qed

lemma def_bag_refs:
  assumes "\<forall>p \<in> set defs. schema_ok w (snd p)"
  shows "refs_ok w (JObj (def_bag w defs))"
proof -
  have "def_bag w defs = fold (\<lambda>(k, v). obj_put k v)
      (map (\<lambda>(key, v). (name_of w key, v)) (sort_key (\<lambda>d. name_of w (fst d)) defs)) []"
    by (simp add: def_bag_def fold_map o_def split_def)
  moreover have "refs_ok w (JObj [])" by (simp add: refs_ok_JObj)
  ultimately show ?thesis using assms
    fold_properties_ok [of "map (\<lambda>(key, v). (name_of w key, v)) (sort_key (\<lambda>d. name_of w (fst d)) defs)" w "[]"]
    by (simp add: split_def)
qed

section \<open>Properties\<close>


definition plain_member :: "string \<Rightarrow> type_node \<Rightarrow> type_member" where
  "plain_member name node = \<lparr>tm_name = name, tm_type = node, tm_required = False, tm_readOnly = False,
     tm_constructorBound = False, tm_description = None, tm_constraints = None\<rparr>"

definition plain_object :: "string \<Rightarrow> type_member list \<Rightarrow> object_type" where
  "plain_object name ms = \<lparr>ot_name = name, ot_wrapper = False, ot_members = ms\<rparr>"

definition tree_shape :: type_shape where
  "tree_shape = \<lparr>ts_root = Ref_node (Some ''Tree''), ts_types = [(''Tree'', plain_object ''Tree''
     [plain_member ''left'' (Ref_node (Some ''Tree'')), plain_member ''name'' (Scalar_node (Some S_string) None)])]\<rparr>"


text \<open>
  The names given to the hoisted types can clash. Of two types with one simple name the second gets
  the suffix \<open>_2\<close>, which is not compared with the simple names of other types: the definition of a type
  really called so takes its place, and the references to the second type resolve to a schema with
  other properties.
\<close>

definition twice :: "string \<Rightarrow> string \<Rightarrow> type_member list" where
  "twice name key = [plain_member (name @ ''1'') (Ref_node (Some key)), plain_member (name @ ''2'') (Ref_node (Some key))]"

definition clash_shape :: type_shape where
  "clash_shape = \<lparr>ts_root = Ref_node (Some ''Root''), ts_types =
     [(''Root'', plain_object ''Root'' (twice ''a'' ''x.Item'' @ twice ''b'' ''y.Item'' @ twice ''c'' ''z.Item_2'')),
      (''x.Item'', plain_object ''Item'' [plain_member ''x'' (Scalar_node None None)]),
      (''y.Item'', plain_object ''Item'' [plain_member ''y'' (Scalar_node None None)]),
      (''z.Item_2'', plain_object ''Item_2'' [plain_member ''z'' (Scalar_node None None)])]\<rparr>"

definition property :: "string \<Rightarrow> js \<Rightarrow> js" where
  "property name schema = js_get (js_get schema ''properties'') name"

theorem definition_names_clash:
  "case simplifySchema 3 clash_shape True None of
     Some (schema, ds) \<Rightarrow>
       js_get (property ''b1'' schema) ''$ref'' = JStr ''#/$defs/Item_2''
       \<and> property ''y'' (js_get (js_get schema ''$defs'') ''Item_2'') = JUndef
       \<and> property ''z'' (js_get (js_get schema ''$defs'') ''Item_2'') \<noteq> JUndef
   | None \<Rightarrow> False"
  by code_simp

end
