(* ===== verification/Composer_Types.thy ===== *)
theory Composer_Types
  imports Composer_Properties
begin

text \<open>
  The types of the values a composed request carries: what the schema of a scalar parameter
  promises is what the text of its header reads as.
\<close>

section \<open>The texts of a kind\<close>

definition typed_text :: "parameter_kind \<Rightarrow> string \<Rightarrow> bool" where
  "typed_text kind s = (case kind of
       K_string \<Rightarrow> True
     | K_boolean \<Rightarrow> s \<in> {''true'', ''false''}
     | K_integer \<Rightarrow> (\<exists>n \<le> 9007199254740991. s = nat_text n \<or> n \<noteq> 0 \<and> s = ''-'' @ nat_text n)
     | K_number \<Rightarrow> (\<exists>n. s = number_text n))"

lemma nat_text_shift: "0 < s \<Longrightarrow> nat_text s @ replicate k (CHR ''0'') = nat_text (s * 10 ^ k)"
proof (induction k)
  case 0
  then show ?case by simp
next
  case (Suc k)
  have z: "digit_char 0 = CHR ''0''" by code_simp
  let ?m = "s * 10 ^ k"
  have "nat_text (s * 10 ^ Suc k) = nat_text (10 * ?m)" by (simp add: mult.left_commute)
  also have "\<dots> = nat_text ?m @ [digit_char 0]"
    using Suc.prems by (subst nat_text.simps) simp
  also have "\<dots> = nat_text s @ replicate (Suc k) (CHR ''0'')"
    using Suc by (simp add: z flip: replicate_append_same)
  finally show ?case by simp
qed

lemma nat_text_length: "n < 10 ^ Suc k \<Longrightarrow> length (nat_text n) \<le> Suc k"
proof (induction k arbitrary: n)
  case 0
  then show ?case by (simp add: nat_text.simps [of n])
next
  case (Suc k)
  then have "n div 10 < 10 ^ Suc k" by (simp add: less_mult_imp_div_less)
  with Suc.IH [of "n div 10"] show ?case by (subst nat_text.simps) simp
qed

lemma nat_text_nonempty: "0 < length (nat_text n)"
  by (subst nat_text.simps) simp

lemma safe_magnitude:
  assumes "0 < s" and "0 \<le> e" and "e < 16" and "s * 10 ^ nat e \<le> 9007199254740991"
  shows "magnitude_text s e = nat_text (s * 10 ^ nat e)"
proof -
  have eq: "nat_text s @ replicate (nat e) (CHR ''0'') = nat_text (s * 10 ^ nat e)"
    by (rule nat_text_shift [OF assms(1)])
  have "length (nat_text (s * 10 ^ nat e)) \<le> Suc 15"
    by (rule nat_text_length) (use assms(4) in simp)
  then have "length (nat_text s) + nat e \<le> 16" unfolding eq [symmetric] by simp
  with assms(2) have "int (length (nat_text s)) + e \<le> 21" by linarith
  with assms(2) eq show ?thesis by (simp add: magnitude_text_def Let_def)
qed

lemma safe_integer_text: "isSafeInteger n \<Longrightarrow> typed_text K_integer (number_text n)"
proof -
  assume safe: "isSafeInteger n"
  then obtain neg s e where n: "n = Dec neg s e" by (cases n) (auto simp: isSafeInteger_def)
  have z: "nat_text 0 = ''0''" by code_simp
  show ?thesis
  proof (cases "s = 0")
    case True
    then show ?thesis using n z by (auto simp: typed_text_def intro!: exI [of _ 0])
  next
    case False
    with safe n have e: "0 \<le> e" "e < 16" "s * 10 ^ nat e \<le> 9007199254740991"
      by (auto simp: isSafeInteger_def num_is_integer_def)
    from False e safe_magnitude [of s e] n show ?thesis
      by (auto simp: typed_text_def intro!: exI [of _ "s * 10 ^ nat e"])
  qed
qed

lemma formatScalar_typed: "formatScalar v name kind err = Inr s \<Longrightarrow> typed_text kind s"
  using safe_integer_text
  by (cases kind; cases v) (auto simp: formatScalar_def typed_text_def split: if_splits)

section \<open>Headers\<close>

definition typed_header :: "parameter \<Rightarrow> string \<Rightarrow> bool" where
  "typed_header p s = (case p_shape p of
       Scalar kind isArray ser \<Rightarrow> (\<exists>items. s = join_with (or_else (se_separator ser) '','') items
         \<and> (\<forall>i \<in> set items. typed_text kind i) \<and> items \<noteq> [] \<and> (isArray \<or> length items = 1))
     | _ \<Rightarrow> True)"

lemma header_text_typed: "header_text p v = Inr (Some s) \<Longrightarrow> typed_header p s"
proof (cases "p_shape p")
  case (Scalar kind isArray ser)
  assume h: "header_text p v = Inr (Some s)"
  show ?thesis
  proof (cases isArray)
    case False
    with h Scalar have "typed_text kind s" by (auto simp: header_text_def res_map_Inr_iff dest: formatScalar_typed)
    then show ?thesis using Scalar by (auto simp: typed_header_def intro!: exI [of _ "[s]"])
  next
    case True
    then obtain vs items where t: "traverse (\<lambda>i. formatScalar i (p_name p) kind Invalid_type) vs = Inr items"
      and s: "s = join_with (or_else (se_separator ser) '','') items" and ne: "vs \<noteq> []"
      using h Scalar by (auto simp: header_text_def res_map_Inr_iff simp del: traverse.simps
        split: option.split_asm list.split_asm)
    have "\<forall>i \<in> set items. typed_text kind i" by (rule traverse_all [OF t]) (rule formatScalar_typed)
    moreover have "items \<noteq> []" using t ne by (cases vs) (auto simp: res_bind_Inr_iff res_map_Inr_iff)
    ultimately show ?thesis using Scalar True s by (auto simp: typed_header_def)
  qed
qed (simp_all add: typed_header_def)

lemma compose_headers_typed:
  assumes "compose_headers t wire = Inr hs"
  shows "\<forall>(n, s) \<in> set hs. \<exists>p \<in> set (located In_header t). p_name p = n \<and> typed_header p s"
  using assms unfolding compose_headers_def
proof (rule fold_res_invariant)
  show "\<forall>(n, s) \<in> set []. \<exists>p \<in> set (located In_header t). p_name p = n \<and> typed_header p s" by simp
next
  fix hs p hs'
  assume ok: "\<forall>(n, s) \<in> set hs. \<exists>p \<in> set (located In_header t). p_name p = n \<and> typed_header p s"
    and p: "p \<in> set (located In_header t)" and step: "header_step wire hs p = Inr hs'"
  from step consider "hs' = hs" | s where "hs' = obj_put (p_name p) s hs" and "typed_header p s"
    using header_text_typed [of p]
    by (auto simp: header_step_def res_bind_Inr_iff split: option.split_asm if_split_asm)
  then show "\<forall>(n, s) \<in> set hs'. \<exists>p \<in> set (located In_header t). p_name p = n \<and> typed_header p s"
  proof cases
    case 1
    with ok show ?thesis by simp
  next
    case 2
    show ?thesis
    proof (intro ballI, clarify)
      fix n x assume "(n, x) \<in> set hs'"
      then have "(n = p_name p \<and> x = s) \<or> (n, x) \<in> set hs" unfolding 2(1) by (rule obj_put_set)
      with ok p 2(2) show "\<exists>p \<in> set (located In_header t). p_name p = n \<and> typed_header p x" by auto
    qed
  qed
qed

text \<open>
  C4: The headers of a composed request are typed as the parameters are declared: the header of a
  boolean parameter reads \<open>true\<close> or \<open>false\<close>, that of an integer parameter is the decimal text of an
  integer of magnitude at most \<open>2 ^ 53 - 1\<close> (never an exponent, a fraction, \<open>NaN\<close> or a rounded
  value), that of a number parameter is the text of a number, and an array parameter joins texts of
  its item type.
\<close>

theorem composed_headers_typed:
  assumes "createRequestTemplate input = Inr t" and "compose t args d limits = Inr r"
    and "p \<in> set (t_parameters t)" and "p_location p = In_header"
    and "(p_name p, s) \<in> set (cr_headers r)"
  shows "typed_header p s"
proof -
  from assms(2) obtain wire where "compose_wire t wire d limits = Inr r" by (auto simp: compose_def res_bind_Inr_iff)
  then obtain headers cookies where h: "compose_headers t wire = Inr headers"
    and r: "cr_headers r = (if cookies \<noteq> [] then obj_put ''cookie'' (join_with ''; '' cookies) headers else headers)"
    by (rule compose_wire_parts)
  from header_parameter_name [OF created_binding [OF assms(1,3)] assms(4)]
  moreover have "to_lower ''cookie'' \<in> set reservedHeaderNames" by code_simp
  ultimately have "p_name p \<noteq> ''cookie''" by auto
  with assms(5) r have "(p_name p, s) \<in> set headers" by (auto split: if_splits dest: obj_put_set)
  with compose_headers_typed [OF h] obtain q where q: "q \<in> set (located In_header t)" "p_name q = p_name p" "typed_header q s"
    by blast
  from located_set [OF q(1)] unique_parameter [OF created_names_unique [OF assms(1)] _ assms(3) q(2)]
  have "q = p" by blast
  with q(3) show ?thesis by simp
qed

definition offset_parameter :: parameter where
  "offset_parameter = \<lparr>p_name = ''X-Offset'', p_location = In_header, p_argument = None, p_fill = None,
     p_shape = Scalar K_integer False no_serialization\<rparr>"

definition paging_input :: template_input where
  "paging_input = shop_input\<lparr>i_route := ''/items'', i_parameters := [offset_parameter]\<rparr>"

definition paging_template :: request_template where
  "paging_template = build_template paging_input []"

lemma paging_created: "createRequestTemplate paging_input = Inr paging_template"
  by code_simp

lemma paging_headers:
  "compose_headers paging_template [(''X-Offset'', JNum (Dec True 15 2))] = Inr [(''X-Offset'', ''-1500'')]"
proof -
  have l: "located In_header paging_template = [offset_parameter]" by code_simp
  have n: "number_text (Dec True 15 2) = ''-1500''" by code_simp
  have "isSafeInteger (Dec True 15 2)" by (simp add: isSafeInteger_def num_is_integer_def)
  then have t: "header_text offset_parameter (JNum (Dec True 15 2)) = Inr (Some ''-1500'')"
    by (simp add: header_text_def offset_parameter_def formatScalar_def n del: number_text.simps)
  have u: "\<not> list_ex header_unsafe ''-1500''" by code_simp
  have o: "obj_put ''X-Offset'' ''-1500'' [] = [(''X-Offset'', ''-1500'')]" by code_simp
  have "p_name offset_parameter = ''X-Offset''" by (simp add: offset_parameter_def)
  with t u o show ?thesis
    unfolding compose_headers_def l
    by (simp add: header_step_def)
qed

lemma composed_headers_typed_witness:
  "\<exists>r. compose paging_template (JObj [(''X-Offset'', JNum (Dec True 15 2))]) [] None = Inr r
     \<and> cr_headers r = [(''X-Offset'', ''-1500'')] \<and> typed_header offset_parameter ''-1500''"
proof -
  let ?w = "[(''X-Offset'', JNum (Dec True 15 2))]"
  have w: "wire_values paging_template (JObj ?w) [] = Inr ?w" by code_simp
  have rest: "case compose_path paging_template ?w of Inl e \<Rightarrow> False | Inr path \<Rightarrow> True"
    "compose_query paging_template ?w = Inr []" "compose_querystring paging_template ?w [] = Inr []"
    "compose_cookies paging_template ?w = Inr []" "compose_body_value paging_template ?w [] = Inr JUndef"
    "encodeBody paging_template JUndef None = Inr None"
    by code_simp+
  then obtain path where p: "compose_path paging_template ?w = Inr path" by (auto split: sum.splits)
  define r where "r = \<lparr>cr_pathAndQuery = path, cr_headers = [(''X-Offset'', ''-1500'')], cr_body = None\<rparr>"
  have r: "compose paging_template (JObj ?w) [] None = Inr r"
    by (simp add: compose_def compose_wire_def w p rest paging_headers r_def)
  have "offset_parameter \<in> set (t_parameters paging_template)" by code_simp
  moreover have "p_location offset_parameter = In_header" "p_name offset_parameter = ''X-Offset''"
    by (simp_all add: offset_parameter_def)
  ultimately have "typed_header offset_parameter ''-1500''"
    by (intro composed_headers_typed [OF paging_created r]) (simp_all add: r_def)
  with r show ?thesis by (auto simp: r_def)
qed

end
