(* ===== verification/Cache_Refinement.thy ===== *)
theory Cache_Refinement
  imports Cache_Contract
begin

text \<open>
  What the cache promises without its expiry times, its recency order, its index and its capacity: a store
  from callers to their tags and values that may forget callers before any call, and nothing else. Every
  run of \<open>MemoryLiaisoCache\<close> is a run of that store.
\<close>

type_synonym store = "string \<rightharpoonup> string set \<times> (string \<rightharpoonup> string)"

definition store_set :: "cache_key \<Rightarrow> string \<Rightarrow> store \<Rightarrow> store" where
  "store_set key v m = (let k = cs_key (ck_scope key);
       (ts, vs) = (case m k of None \<Rightarrow> ({}, Map.empty) | Some entry \<Rightarrow> entry)
     in m(k \<mapsto> (ts \<union> set (cs_tags (ck_scope key)), vs(valueKey key \<mapsto> v))))"

definition store_untag :: "string \<Rightarrow> store \<Rightarrow> store" where
  "store_untag t m = (\<lambda>k. case m k of None \<Rightarrow> None | Some (ts, vs) \<Rightarrow> if t \<in> ts then None else Some (ts, vs))"

primrec store_op :: "cache_op \<Rightarrow> store \<Rightarrow> store" where
  "store_op (Op_get key now) m = m"
| "store_op (Op_set key v now) m = store_set key v m"
| "store_op (Op_removeScope k) m = m(k := None)"
| "store_op (Op_removeTag t) m = store_untag t m"
| "store_op Op_clear m = Map.empty"

text \<open>Runs: before each call the store may forget any callers it likes.\<close>

inductive store_run :: "cache_op list \<Rightarrow> store \<Rightarrow> store \<Rightarrow> bool" where
  stop: "store_run [] m m"
| call: "m' \<subseteq>\<^sub>m m \<Longrightarrow> store_run ops (store_op op m') m'' \<Longrightarrow> store_run (op # ops) m m''"

definition store_lookup :: "cache_key \<Rightarrow> store \<Rightarrow> string option" where
  "store_lookup key m = (case m (cs_key (ck_scope key)) of None \<Rightarrow> None | Some (ts, vs) \<Rightarrow> vs (valueKey key))"

text \<open>The abstraction.\<close>

definition entry_abs :: "scope_entry \<Rightarrow> string set \<times> (string \<rightharpoonup> string)" where
  "entry_abs e = (set (se_tags e), map_of (se_values e))"

definition cache_abs :: "memory_cache \<Rightarrow> store" where
  "cache_abs c = (\<lambda>k. map_option entry_abs (map_of (mc_scopes c) k))"

section \<open>One call\<close>

lemma entry_abs_used [simp]: "entry_abs (e\<lparr>se_lastUsed := now\<rparr>) = entry_abs e"
  by (simp add: entry_abs_def)

lemma abs_touch: "cache_abs (snd (touch k now c)) \<subseteq>\<^sub>m cache_abs c"
  by (auto simp: map_le_def cache_abs_def touch_map split: option.splits if_splits)

lemma abs_make_room: "cache_abs (make_room c) \<subseteq>\<^sub>m cache_abs c"
  by (fastforce simp: map_le_def cache_abs_def dest: make_room_stored)

lemma refines_get: "\<exists>m. m \<subseteq>\<^sub>m cache_abs c \<and> cache_abs (snd (cache_get key now c)) = store_op (Op_get key now) m"
  using abs_touch by (auto simp: cache_get_snd intro: map_le_refl)

lemma refines_set:
  assumes "0 < mc_lifetimeMs c"
  shows "\<exists>m. m \<subseteq>\<^sub>m cache_abs c \<and> cache_abs (cache_set key v now c) = store_op (Op_set key v now) m"
proof -
  let ?s = "ck_scope key" and ?k = "cs_key (ck_scope key)"
  let ?a = "acquire ?s now c"
  obtain e where e: "se_values e = AList.update (valueKey key) v (se_values (fst ?a))"
    "set (se_tags e) = set (se_tags (fst ?a)) \<union> set (cs_tags ?s)"
    "mc_scopes (cache_set key v now c) = AList.update ?k e (mc_scopes (snd ?a))"
    using cache_set_map [OF assms] by metis
  have abs: "cache_abs (cache_set key v now c) = (cache_abs (snd ?a))(?k \<mapsto> entry_abs e)"
    by (simp add: cache_abs_def e(3) fun_eq_iff)
  have entry: "entry_abs e = (fst (entry_abs (fst ?a)) \<union> set (cs_tags ?s), (snd (entry_abs (fst ?a)))(valueKey key \<mapsto> v))"
    using e(1,2) by (simp add: entry_abs_def)
  from acquire_origin [of c ?s now] show ?thesis
  proof
    assume "\<exists>e'. map_of (mc_scopes c) ?k = Some e' \<and> now < se_expires e' \<and> fst ?a = e'\<lparr>se_lastUsed := now\<rparr>
      \<and> snd ?a = snd (touch ?k now c)"
    then obtain e' where e': "map_of (mc_scopes c) ?k = Some e'" "now < se_expires e'" "fst ?a = e'\<lparr>se_lastUsed := now\<rparr>"
      "snd ?a = snd (touch ?k now c)" by blast
    let ?m = "cache_abs (snd (touch ?k now c))"
    have "?m ?k = Some (entry_abs (fst ?a))" using e' by (simp add: cache_abs_def touch_map)
    then have "cache_abs (cache_set key v now c) = store_set key v ?m"
      by (simp add: abs entry store_set_def e'(4) Let_def split: prod.splits)
    then show ?thesis using abs_touch by auto
  next
    let ?t = "snd (touch ?k now c)"
    assume new: "fst ?a = \<lparr>se_expires = now + mc_lifetimeMs c, se_tags = [], se_values = [], se_lastUsed = now\<rparr>
      \<and> snd ?a = snd (admit ?s now ?t) \<and> map_of (mc_scopes ?t) ?k = None"
    let ?m = "cache_abs (make_room ?t)"
    have le: "?m \<subseteq>\<^sub>m cache_abs c" by (rule map_le_trans [OF abs_make_room abs_touch])
    have none: "map_of (mc_scopes (make_room ?t)) ?k = None"
      using new make_room_stored [of ?t ?k] by (cases "map_of (mc_scopes (make_room ?t)) ?k") auto
    have "(cache_abs (snd ?a))(?k \<mapsto> x) = ?m(?k \<mapsto> x)" for x
      using new by (simp add: cache_abs_def admit_scopes fun_eq_iff)
    moreover have "?m ?k = None" using none by (simp add: cache_abs_def)
    moreover have "entry_abs (fst ?a) = ({}, Map.empty)" using new by (simp add: entry_abs_def)
    ultimately have "cache_abs (cache_set key v now c) = store_set key v ?m"
      by (simp add: abs entry store_set_def Let_def)
    then show ?thesis using le by auto
  qed
qed

lemma refines_removeTag:
  assumes "cache_ok c"
  shows "cache_abs (removeTag t c) = store_untag t (cache_abs c)"
proof -
  have "tagged (mc_tagIndex c) t = {k. t \<in> scope_tag_set c k}"
    using assms by (simp add: cache_ok_def index_agrees_def)
  then show ?thesis
    by (auto simp: cache_abs_def store_untag_def removeTag_map scope_tag_set_def entry_abs_def fun_eq_iff split: option.splits)
qed

lemma refines_call:
  assumes "cache_ok c" and "0 < mc_lifetimeMs c"
  shows "\<exists>m. m \<subseteq>\<^sub>m cache_abs c \<and> cache_abs (cache_apply op c) = store_op op m"
proof (cases op)
  case (Op_get key now)
  then show ?thesis using refines_get by simp
next
  case (Op_set key v now)
  then show ?thesis using refines_set [OF assms(2)] by simp
next
  case (Op_removeScope k)
  have "cache_abs (removeScope k c) = (cache_abs c)(k := None)"
    by (auto simp: cache_abs_def removeScope_map fun_eq_iff)
  then show ?thesis using Op_removeScope by (auto intro: map_le_refl)
next
  case (Op_removeTag t)
  then show ?thesis using refines_removeTag [OF assms(1)] by (auto intro: map_le_refl)
next
  case Op_clear
  then show ?thesis by (auto simp: cache_abs_def cache_clear_def intro: map_le_refl)
qed

section \<open>Runs\<close>

lemma refines_run:
  assumes "cache_ok c" and "0 < mc_lifetimeMs c"
  shows "store_run ops (cache_abs c) (cache_abs (run_cache cache_apply ops c))"
  using assms
proof (induction ops arbitrary: c)
  case Nil
  then show ?case by (simp add: store_run.stop)
next
  case (Cons op ops)
  obtain m where m: "m \<subseteq>\<^sub>m cache_abs c" "cache_abs (cache_apply op c) = store_op op m"
    using refines_call [OF Cons.prems] by blast
  have "store_run ops (cache_abs (cache_apply op c)) (cache_abs (run_cache cache_apply ops (cache_apply op c)))"
    using Cons.IH cache_apply_ok Cons.prems by simp
  then have "store_run ops (store_op op m) (cache_abs (run_cache cache_apply ops (cache_apply op c)))"
    unfolding m(2) .
  with m(1) show ?case by (simp add: store_run.call)
qed



end
