(* ===== verification/Network_Address.thy ===== *)
theory Network_Address
  imports JS_String "HOL-Library.Word"
begin

text \<open>
  Which hosts the platform must not be talked into reaching
  (\<open>products/chat/contracts/src/common/network-address.ts\<close>): a host name is reduced to a bare host,
  read as a dotted IPv4 or an IPv6 literal, and compared with the ranges outside the public internet.

  The octets and groups the source computes with are natural numbers here: every shift and mask of the
  source is applied to a value below \<open>2 ^ 16\<close>, where it is exact. The specification is on \<open>32 word\<close>
  and on lists of \<open>16 word\<close>: address blocks given by a base and a prefix length.
\<close>

unbundle bit_operations_syntax

section \<open>The bare host\<close>

text \<open>The characters \<open>.\<close> does not match below code unit 256.\<close>

definition line_end :: "char \<Rightarrow> bool" where
  "line_end c = (c = CHR 0x0A \<or> c = CHR 0x0D)"

definition strip_brackets :: "string \<Rightarrow> string" where
  "strip_brackets s = (let t = (case s of c # r \<Rightarrow> if c = CHR ''['' then r else s | [] \<Rightarrow> [])
     in if t \<noteq> [] \<and> last t = CHR '']'' then butlast t else t)"

text \<open>\<open>replace(/%.*$/u, "")\<close>: from the first percent sign whose rest is one line.\<close>

fun strip_zone :: "string \<Rightarrow> string" where
  "strip_zone [] = []"
| "strip_zone (c # s) = (if c = CHR ''%'' \<and> \<not> list_ex line_end s then [] else c # strip_zone s)"

definition strip_root_dot :: "string \<Rightarrow> string" where
  "strip_root_dot s = (if s \<noteq> [] \<and> last s = CHR ''.'' then butlast s else s)"

definition bareHost :: "string \<Rightarrow> string" where
  "bareHost hostname = to_lower (strip_root_dot (strip_zone (strip_brackets hostname)))"

section \<open>Dotted IPv4\<close>

definition digit_value :: "char \<Rightarrow> nat" where
  "digit_value c = (of_char c :: nat) - 48"

definition decimal_value :: "string \<Rightarrow> nat" where
  "decimal_value s = foldl (\<lambda>n c. 10 * n + digit_value c) 0 s"

definition octet_of :: "string \<Rightarrow> nat option" where
  "octet_of part = (if part \<noteq> [] \<and> length part \<le> 3 \<and> list_all isAsciiDigit part \<and> decimal_value part \<le> 255
     then Some (decimal_value part) else None)"

fun all_some :: "'a option list \<Rightarrow> 'a list option" where
  "all_some [] = Some []"
| "all_some (None # xs) = None"
| "all_some (Some x # xs) = map_option ((#) x) (all_some xs)"

definition octetsOf :: "string \<Rightarrow> nat list option" where
  "octetsOf host = (let parts = split_on (CHR ''.'') host
     in if length parts \<noteq> 4 then None else all_some (map octet_of parts))"

section \<open>IPv6\<close>

text \<open>\<open>split("::")\<close>.\<close>

fun split_double :: "string \<Rightarrow> string list" where
  "split_double (c # d # s) =
     (if c = CHR '':'' \<and> d = CHR '':'' then [] # split_double s
      else (case split_double (d # s) of [] \<Rightarrow> [[c]] | w # ws \<Rightarrow> (c # w) # ws))"
| "split_double s = [s]"

definition v6_digit :: "nat \<Rightarrow> char" where
  "v6_digit n = (if n < 10 then char_of (48 + n) else char_of (87 + n))"

fun hex_text :: "nat \<Rightarrow> string" where
  "hex_text n = (if n < 16 then [v6_digit n] else hex_text (n div 16) @ [v6_digit (n mod 16)])"

declare hex_text.simps [simp del]

definition is_hex_lower :: "char \<Rightarrow> bool" where
  "is_hex_lower c = (isAsciiDigit c \<or> (CHR ''a'' \<le> c \<and> c \<le> CHR ''f''))"

definition hex_digit_value :: "char \<Rightarrow> nat" where
  "hex_digit_value c = (if isAsciiDigit c then (of_char c :: nat) - 48 else of_char c - 87)"

definition v6_hex_value :: "string \<Rightarrow> nat" where
  "v6_hex_value s = foldl (\<lambda>n c. 16 * n + hex_digit_value c) 0 s"

definition group_of :: "string \<Rightarrow> nat option" where
  "group_of piece = (if piece \<noteq> [] \<and> length piece \<le> 4 \<and> list_all is_hex_lower piece
     then Some (v6_hex_value piece) else None)"

text \<open>The local function \<open>expand\<close>: a trailing dotted part becomes two groups.\<close>

definition expand_pieces :: "string list \<Rightarrow> string list" where
  "expand_pieces pieces = (case octetsOf (last pieces) of
     Some [a, b, c, d] \<Rightarrow> butlast pieces @ [hex_text (push_bit 8 a OR b), hex_text (push_bit 8 c OR d)]
   | _ \<Rightarrow> pieces)"

definition expand_part :: "string \<Rightarrow> nat list option" where
  "expand_part part = (if part = [] then Some []
     else all_some (map group_of (expand_pieces (split_on (CHR '':'') part))))"

definition ipv6Groups :: "string \<Rightarrow> nat list option" where
  "ipv6Groups host =
     (if CHR '':'' \<notin> set host then None
      else case split_double host of
        [head] \<Rightarrow> (case expand_part head of
            Some left \<Rightarrow> if length left = 8 then Some left else None
          | None \<Rightarrow> None)
      | [head, tail] \<Rightarrow> (case (expand_part head, expand_part tail) of
            (Some left, Some right) \<Rightarrow>
              if 8 < length left + length right then None
              else Some (left @ replicate (8 - length left - length right) 0 @ right)
          | _ \<Rightarrow> None)
      | _ \<Rightarrow> None)"

section \<open>Addresses outside the public internet\<close>

definition isPrivateV4 :: "nat list \<Rightarrow> bool" where
  "isPrivateV4 octets = (let first = (case octets of a # _ \<Rightarrow> a | _ \<Rightarrow> 0);
       second = (case octets of _ # b # _ \<Rightarrow> b | _ \<Rightarrow> 0)
     in first = 0 \<or> first = 10 \<or> first = 127 \<or> first \<ge> 224
      \<or> (first = 100 \<and> second \<ge> 64 \<and> second \<le> 127)
      \<or> (first = 169 \<and> second = 254)
      \<or> (first = 172 \<and> second \<ge> 16 \<and> second \<le> 31)
      \<or> (first = 192 \<and> second = 168)
      \<or> (first = 198 \<and> second \<ge> 18 \<and> second \<le> 19))"

definition isLoopbackHost :: "string \<Rightarrow> bool" where
  "isLoopbackHost hostname = (let host = bareHost hostname in
     if host = ''localhost'' then True
     else case octetsOf host of
       Some octets \<Rightarrow> octets ! 0 = 127
     | None \<Rightarrow> (case ipv6Groups host of
           Some groups \<Rightarrow> list_all (\<lambda>g. g = 0) (take 7 groups) \<and> groups ! 7 = 1
         | None \<Rightarrow> False))"

definition isPrivateGroups :: "nat list \<Rightarrow> bool" where
  "isPrivateGroups groups = (let first = groups ! 0; second = groups ! 1;
       embedsV4 = ((list_all (\<lambda>g. g = 0) (take 5 groups) \<and> groups ! 5 = 0xffff)
         \<or> (first = 0x0064 \<and> second = 0xff9b))
     in if embedsV4 then
          (let high = groups ! 6; low = groups ! 7
           in isPrivateV4 [drop_bit 8 high, high AND 0xff, drop_bit 8 low, low AND 0xff])
        else list_all (\<lambda>g. g = 0) groups
          \<or> (list_all (\<lambda>g. g = 0) (take 7 groups) \<and> groups ! 7 = 1)
          \<or> first AND 0xfe00 = 0xfc00
          \<or> first AND 0xffc0 = 0xfe80)"

definition isPrivateAddress :: "string \<Rightarrow> bool" where
  "isPrivateAddress hostname = (let host = bareHost hostname in
     if host = ''localhost'' then True
     else case octetsOf host of
       Some octets \<Rightarrow> isPrivateV4 octets
     | None \<Rightarrow> (case ipv6Groups host of None \<Rightarrow> False | Some groups \<Rightarrow> isPrivateGroups groups))"

section \<open>Addresses and blocks\<close>

text \<open>The four octets of an address, and its dotted text.\<close>

definition octets :: "32 word \<Rightarrow> nat list" where
  "octets a = [unat (drop_bit 24 a), unat (take_bit 8 (drop_bit 16 a)), unat (take_bit 8 (drop_bit 8 a)), unat (take_bit 8 a)]"

definition dotted_quad :: "32 word \<Rightarrow> string" where
  "dotted_quad a = join_with ''.'' (map nat_text (octets a))"

text \<open>A block is a base address and the number of leading bits that count.\<close>

definition in_block :: "'a::len word \<Rightarrow> 'a word \<times> nat \<Rightarrow> bool" where
  "in_block a b = (case b of (base, n) \<Rightarrow> drop_bit (LENGTH('a) - n) a = drop_bit (LENGTH('a) - n) base)"

definition v4 :: "nat \<Rightarrow> nat \<Rightarrow> nat \<Rightarrow> nat \<Rightarrow> 32 word" where
  "v4 a b c d = of_nat (((a * 256 + b) * 256 + c) * 256 + d)"

text \<open>The ranges the source names: RFC 1918, loopback, link local, shared address space, benchmarking, and
  the unspecified, multicast and reserved ones.\<close>

definition private_blocks :: "(32 word \<times> nat) list" where
  "private_blocks = [(v4 0 0 0 0, 8), (v4 10 0 0 0, 8), (v4 127 0 0 0, 8), (v4 224 0 0 0, 4), (v4 240 0 0 0, 4),
     (v4 100 64 0 0, 10), (v4 169 254 0 0, 16), (v4 172 16 0 0, 12), (v4 192 168 0 0, 16), (v4 198 18 0 0, 15)]"

definition private_v4 :: "32 word \<Rightarrow> bool" where
  "private_v4 a = list_ex (in_block a) private_blocks"

section \<open>Reading what was written\<close>

lemma all_some_map: "(\<And>x. x \<in> set xs \<Longrightarrow> f x = Some (g x)) \<Longrightarrow> all_some (map f xs) = Some (map g xs)"
  by (induction xs) auto

lemma decimal_value_snoc: "decimal_value (s @ [c]) = 10 * decimal_value s + digit_value c"
  by (simp add: decimal_value_def)

lemma digit_value_char: "n < 10 \<Longrightarrow> digit_value (digit_char n) = n"
  by (simp add: digit_value_def digit_char_def)

lemma decimal_value_text: "decimal_value (nat_text n) = n"
proof (induction n rule: nat_text.induct)
  case (1 n)
  then show ?case
    by (subst nat_text.simps) (simp add: decimal_value_snoc digit_value_char decimal_value_def)
qed

lemma nat_text_small: "n < 10 \<Longrightarrow> length (nat_text n) = 1"
  by (subst nat_text.simps) simp

lemma octet_text_length: "n < 1000 \<Longrightarrow> length (nat_text n) \<le> 3"
proof -
  assume n: "n < 1000"
  have two: "length (nat_text m) \<le> 2" if "m < 100" for m
    using that nat_text_small [of "m div 10"] by (subst nat_text.simps) simp
  then show ?thesis using n two [of "n div 10"] by (subst nat_text.simps) simp
qed

lemma octet_of_text: "n \<le> 255 \<Longrightarrow> octet_of (nat_text n) = Some n"
  using octet_text_length [of n]
  by (auto simp: octet_of_def decimal_value_text list_all_iff dest: nat_text_digits)

lemma hex_value_snoc: "v6_hex_value (s @ [c]) = 16 * v6_hex_value s + hex_digit_value c"
  by (simp add: v6_hex_value_def)

lemma hex_char_facts: "n < 16 \<Longrightarrow> is_hex_lower (v6_digit n) \<and> hex_digit_value (v6_digit n) = n"
  by (auto simp: v6_digit_def is_hex_lower_def hex_digit_value_def isAsciiDigit_code char_le_code)

lemma hex_value_text: "v6_hex_value (hex_text n) = n"
proof (induction n rule: hex_text.induct)
  case (1 n)
  then show ?case
    by (subst hex_text.simps) (simp add: hex_value_snoc hex_char_facts v6_hex_value_def)
qed

lemma hex_text_chars: "c \<in> set (hex_text n) \<Longrightarrow> is_hex_lower c"
proof (induction n rule: hex_text.induct)
  case (1 n)
  then show ?case by (subst (asm) hex_text.simps) (auto split: if_splits simp: hex_char_facts)
qed

lemma hex_text_not_Nil [simp]: "hex_text n \<noteq> []"
  by (subst hex_text.simps) simp

lemma hex_text_length: "n < 16 ^ Suc k \<Longrightarrow> length (hex_text n) \<le> Suc k"
proof (induction k arbitrary: n)
  case 0
  then show ?case by (subst hex_text.simps) simp
next
  case (Suc k)
  then have "n div 16 < 16 ^ Suc k" by (simp add: less_mult_imp_div_less)
  with Suc.IH show ?case by (subst hex_text.simps) simp
qed

lemma group_of_text: "n < 65536 \<Longrightarrow> group_of (hex_text n) = Some n"
  using hex_text_length [of n 3] by (auto simp: group_of_def hex_value_text list_all_iff hex_text_chars)

lemma hex_not_special: "is_hex_lower c \<Longrightarrow> c \<noteq> CHR '':'' \<and> c \<noteq> CHR ''.'' \<and> c \<noteq> CHR ''%'' \<and> c \<noteq> CHR ''['' \<and> c \<noteq> CHR '']''"
  by (auto simp: is_hex_lower_def isAsciiDigit_code char_le_code)

lemma digit_hex: "isAsciiDigit c \<Longrightarrow> is_hex_lower c"
  by (simp add: is_hex_lower_def)

section \<open>IPv4 texts\<close>

lemma octets_nat:
  "octets a = [unat a div 65536 div 256, unat a div 65536 mod 256, unat a div 256 mod 256, unat a mod 256]"
proof -
  have "unat a div 65536 div 256 = unat a div 16777216" by (simp flip: div_mult2_eq)
  then show ?thesis unfolding octets_def unsigned_take_bit_eq unat_drop_bit_eq
    by (simp add: drop_bit_eq_div take_bit_eq_mod)
qed

lemma unat_bound: "unat (a :: 32 word) < 4294967296"
  using unsigned_less [of a] by simp

lemma octets_small: "n \<in> set (octets a) \<Longrightarrow> n \<le> 255"
  using unat_bound [of a] by (auto simp: octets_nat less_Suc_eq_le [symmetric] simp flip: div_mult2_eq)

lemma octetsOf_dotted: "octetsOf (dotted_quad a) = Some (octets a)"
proof -
  have "CHR ''.'' \<notin> set (nat_text n)" for n using nat_text_digits hex_not_special digit_hex by blast
  then have "split_on (CHR ''.'') (dotted_quad a) = map nat_text (octets a)"
    unfolding dotted_quad_def by (intro split_join) (auto simp: octets_def)
  moreover have "all_some (map octet_of (map nat_text (octets a))) = Some (octets a)"
    using all_some_map [of "octets a" "octet_of \<circ> nat_text" id] octet_of_text octets_small by (simp add: comp_def)
  moreover have "length (octets a) = 4" by (simp add: octets_def)
  ultimately show ?thesis by (simp add: octetsOf_def)
qed

definition plain_host :: "string \<Rightarrow> bool" where
  "plain_host s = (\<forall>c \<in> set s. is_hex_lower c \<or> c = CHR '':'' \<or> c = CHR ''.'')"

lemma lower_hex: "is_hex_lower c \<Longrightarrow> lower_char c = c"
  by (auto simp: is_hex_lower_def lower_char_def Let_def isAsciiDigit_code char_le_code)

lemma bareHost_plain:
  assumes "plain_host s" and "s \<noteq> []" and "last s \<noteq> CHR ''.''"
  shows "bareHost s = s"
proof -
  have chars: "c \<noteq> CHR ''['' \<and> c \<noteq> CHR '']'' \<and> c \<noteq> CHR ''%'' \<and> lower_char c = c" if "c \<in> set s" for c
  proof -
    from assms(1) that consider "is_hex_lower c" | "c = CHR '':''" | "c = CHR ''.''" by (auto simp: plain_host_def)
    then show ?thesis by cases (simp_all add: hex_not_special lower_hex, simp_all add: lower_char_def)
  qed
  obtain c r where s: "s = c # r" using assms(2) by (cases s) auto
  have "c \<noteq> CHR ''[''" "last s \<noteq> CHR '']''" using chars [of c] chars [of "last s"] s by simp_all
  then have "strip_brackets s = s" by (simp add: strip_brackets_def s)
  moreover have "strip_zone s = s" using chars by (induction s) auto
  moreover have "to_lower s = s" using chars by (simp add: to_lower_def map_idI)
  ultimately show ?thesis using assms(3) by (simp add: bareHost_def strip_root_dot_def)
qed

lemma dotted_plain: "plain_host (dotted_quad a)" "dotted_quad a \<noteq> []" "last (dotted_quad a) \<noteq> CHR ''.''"
proof -
  let ?w = "\<lambda>n. nat_text (octets a ! n)"
  have d: "dotted_quad a = ?w 0 @ CHR ''.'' # ?w 1 @ CHR ''.'' # ?w 2 @ CHR ''.'' # ?w 3"
    by (simp add: dotted_quad_def octets_def)
  have digits: "\<forall>c \<in> set (nat_text n). isAsciiDigit c" for n using nat_text_digits by blast
  show "plain_host (dotted_quad a)" unfolding plain_host_def d using digits digit_hex by auto
  show "dotted_quad a \<noteq> []" unfolding d by simp
  have "last (dotted_quad a) = last (?w 3)" unfolding d by simp
  moreover have "isAsciiDigit (last (?w 3))" using digits last_in_set nat_text_not_Nil by blast
  ultimately show "last (dotted_quad a) \<noteq> CHR ''.''" using hex_not_special [OF digit_hex] by metis
qed

lemma dotted_not_localhost: "dotted_quad a \<noteq> ''localhost''"
proof
  assume "dotted_quad a = ''localhost''"
  then have "plain_host ''localhost''" using dotted_plain(1) by metis
  moreover have "\<not> is_hex_lower (CHR ''l'')" by code_simp
  ultimately show False by (auto simp: plain_host_def)
qed

lemma in_block_nat: "in_block (a :: 32 word) (b, n) \<longleftrightarrow> unat a div 2 ^ (32 - n) = unat b div 2 ^ (32 - n)"
proof -
  have "in_block a (b, n) \<longleftrightarrow> unat (drop_bit (32 - n) a) = unat (drop_bit (32 - n) b)"
    by (simp only: in_block_def prod.case word_unat_eq_iff) simp
  then show ?thesis unfolding unat_drop_bit_eq unfolding drop_bit_eq_div .
qed

text \<open>Two numbers are equal when their quotients and their remainders are.\<close>

lemma place_value:
  assumes "m < b" and "n < (b::nat)"
  shows "b * q + m = b * p + n \<longleftrightarrow> q = p \<and> m = n"
proof
  assume "b * q + m = b * p + n"
  then have "(b * q + m) div b = (b * p + n) div b" "(b * q + m) mod b = (b * p + n) mod b" by simp_all
  with assms show "q = p \<and> m = n" by simp
qed simp

lemma isPrivateV4_octets: "isPrivateV4 (octets a) \<longleftrightarrow> private_v4 a"
proof -
  define x where "x = unat a div 65536"
  define q r where "q = x div 256" and "r = x mod 256"
  have x: "x = 256 * q + r" and r: "r < 256" and q: "q < 256"
    using unat_bound [of a] by (simp_all add: x_def q_def r_def)
  have u: "unat a div 16777216 = x div 256" "unat a div 268435456 = x div 256 div 16" "unat a div 4194304 = x div 64"
    "unat a div 1048576 = x div 16" "unat a div 131072 = x div 2"
    unfolding x_def by (simp_all flip: div_mult2_eq)
  have v: "x div 64 = 4 * q + r div 64" "x div 16 = 16 * q + r div 16" "x div 2 = 128 * q + r div 2"
    unfolding x by presburger+
  note div = u [unfolded v, folded q_def] x [unfolded x_def]
  have "private_v4 a \<longleftrightarrow> q = 0 \<or> q = 10 \<or> q = 127 \<or> q div 16 = 14 \<or> q div 16 = 15
      \<or> 4 * q + r div 64 = 401 \<or> 256 * q + r = 43518 \<or> 16 * q + r div 16 = 2753 \<or> 256 * q + r = 49320
      \<or> 128 * q + r div 2 = 25353"
    by (simp add: private_v4_def private_blocks_def in_block_nat v4_def div unat_of_nat)
  moreover have "4 * q + r div 64 = 401 \<longleftrightarrow> q = 100 \<and> r \<ge> 64 \<and> r \<le> 127" using place_value [of "r div 64" 4 1 q 100] r by auto
  moreover have "16 * q + r div 16 = 2753 \<longleftrightarrow> q = 172 \<and> r \<ge> 16 \<and> r \<le> 31" using place_value [of "r div 16" 16 1 q 172] r by auto
  moreover have "128 * q + r div 2 = 25353 \<longleftrightarrow> q = 198 \<and> r \<ge> 18 \<and> r \<le> 19" using place_value [of "r div 2" 128 9 q 198] r by auto
  moreover have "256 * q + r = 43518 \<longleftrightarrow> q = 169 \<and> r = 254" using place_value [of r 256 254 q 169] r by auto
  moreover have "256 * q + r = 49320 \<longleftrightarrow> q = 192 \<and> r = 168" using place_value [of r 256 168 q 192] r by auto
  moreover have "q div 16 = 14 \<or> q div 16 = 15 \<longleftrightarrow> q \<ge> 224" using q by auto
  moreover have "isPrivateV4 (octets a) \<longleftrightarrow> q = 0 \<or> q = 10 \<or> q = 127 \<or> q \<ge> 224
      \<or> (q = 100 \<and> r \<ge> 64 \<and> r \<le> 127) \<or> (q = 169 \<and> r = 254) \<or> (q = 172 \<and> r \<ge> 16 \<and> r \<le> 31)
      \<or> (q = 192 \<and> r = 168) \<or> (q = 198 \<and> r \<ge> 18 \<and> r \<le> 19)"
    by (simp add: isPrivateV4_def octets_nat x_def q_def r_def Let_def)
  ultimately show ?thesis by blast
qed

text \<open>
  A dotted_quad IPv4 address is refused exactly when it lies in one of the ranges outside the public
  internet: RFC 1918, loopback, link local, shared address space, benchmarking, and the unspecified,
  multicast and reserved ranges.
\<close>

theorem private_v4_blocks: "isPrivateAddress (dotted_quad a) \<longleftrightarrow> private_v4 a"
  by (simp add: isPrivateAddress_def bareHost_plain [OF dotted_plain] dotted_not_localhost octetsOf_dotted
      isPrivateV4_octets)

lemma private_v4_blocks_witness:
  "isPrivateAddress ''169.254.169.254'' \<and> \<not> isPrivateAddress ''93.184.216.34'' \<and> isPrivateAddress ''localhost.''"
  by code_simp

section \<open>IPv6 texts\<close>

text \<open>A group list as text, its last two groups written as hexadecimal or as a dotted_quad address.\<close>

inductive part_spells :: "string \<Rightarrow> nat list \<Rightarrow> bool" where
  hex: "\<forall>g \<in> set gs. g < 65536 \<Longrightarrow> part_spells (join_with '':'' (map hex_text gs)) gs"
| mixed: "\<forall>g \<in> set gs. g < 65536 \<Longrightarrow> part_spells (join_with '':'' (map hex_text gs @ [dotted_quad a]))
    (gs @ [unat a div 65536, unat a mod 65536])"

text \<open>An address with all its eight groups, or with one run of zeros left out.\<close>

inductive v6_spells :: "string \<Rightarrow> nat list \<Rightarrow> bool" where
  whole: "part_spells s gs \<Longrightarrow> length gs = 8 \<Longrightarrow> v6_spells s gs"
| short: "part_spells s l \<Longrightarrow> part_spells t r \<Longrightarrow> length l + length r \<le> 8 \<Longrightarrow>
    v6_spells (s @ ''::'' @ t) (l @ replicate (8 - length l - length r) 0 @ r)"

definition piece :: "string \<Rightarrow> bool" where
  "piece w = (w \<noteq> [] \<and> CHR '':'' \<notin> set w)"

lemma hex_piece: "piece (hex_text n)"
  using hex_text_chars hex_not_special by (fastforce simp: piece_def)

lemma dotted_piece: "piece (dotted_quad a)"
proof -
  let ?w = "\<lambda>n. nat_text (octets a ! n)"
  have d: "dotted_quad a = ?w 0 @ CHR ''.'' # ?w 1 @ CHR ''.'' # ?w 2 @ CHR ''.'' # ?w 3"
    by (simp add: dotted_quad_def octets_def)
  have "CHR '':'' \<notin> set (nat_text n)" for n using nat_text_digits hex_not_special digit_hex by blast
  then show ?thesis by (simp add: piece_def d)
qed

lemma part_pieces: "part_spells s gs \<Longrightarrow> \<exists>ws. s = join_with '':'' ws \<and> list_all piece ws"
  by (induction rule: part_spells.induct) (auto simp: list_all_iff hex_piece dotted_piece intro!: exI)

lemma split_double_not_Nil [simp]: "split_double s \<noteq> []"
  by (induction s rule: split_double.induct) (auto split: list.splits)

lemma split_double_char:
  "c \<noteq> CHR '':'' \<Longrightarrow> split_double (c # s) = (c # hd (split_double s)) # tl (split_double s)"
  by (cases s) (auto split: list.splits simp: neq_Nil_conv)

lemma split_double_word:
  "CHR '':'' \<notin> set w \<Longrightarrow> split_double (w @ s) = (w @ hd (split_double s)) # tl (split_double s)"
  by (induction w) (auto simp: split_double_char simp del: split_double.simps)

lemma split_double_colon:
  "d \<noteq> CHR '':'' \<Longrightarrow> split_double (CHR '':'' # d # s) = (CHR '':'' # hd (split_double (d # s))) # tl (split_double (d # s))"
  by (auto split: list.splits simp: neq_Nil_conv)

lemma split_double_pieces:
  "list_all piece ws \<Longrightarrow>
   split_double (join_with '':'' ws @ s) = (join_with '':'' ws @ hd (split_double s)) # tl (split_double s)"
proof (induction ws)
  case Nil
  then show ?case by (simp add: list.expand)
next
  case (Cons w ws)
  then have "piece w" and ws: "list_all piece ws" by simp_all
  then have w: "w \<noteq> []" "CHR '':'' \<notin> set w" by (simp_all add: piece_def)
  show ?case
  proof (cases ws)
    case Nil
    then show ?thesis using split_double_word [OF w(2)] by simp
  next
    case (Cons v vs)
    with ws obtain d r where v: "v = d # r" "d \<noteq> CHR '':''" by (cases v) (auto simp: piece_def)
    obtain r' where r': "join_with '':'' ws @ s = d # r'" using v Cons by (cases vs) auto
    have "join_with '':'' (w # ws) @ s = w @ CHR '':'' # d # r'" using Cons r' by simp
    moreover have "split_double (d # r') = (join_with '':'' ws @ hd (split_double s)) # tl (split_double s)"
      using Cons.IH [OF ws] by (simp only: r')
    ultimately have "split_double (join_with '':'' (w # ws) @ s)
        = (w @ CHR '':'' # join_with '':'' ws @ hd (split_double s)) # tl (split_double s)"
      by (simp only: split_double_word [OF w(2)] split_double_colon [OF v(2)] list.sel)
    then show ?thesis using Cons by simp
  qed
qed

lemma split_double_part: "list_all piece ws \<Longrightarrow> split_double (join_with '':'' ws) = [join_with '':'' ws]"
  using split_double_pieces [of ws "[]"] by simp

lemma octetsOf_colon: "CHR '':'' \<in> set s \<Longrightarrow> octetsOf s = None"
proof -
  assume colon: "CHR '':'' \<in> set s"
  have none: "None \<in> set xs \<Longrightarrow> all_some xs = None" for xs :: "nat option list"
    by (induction xs rule: all_some.induct) auto
  have "s = join_with ''.'' (split_on (CHR ''.'') s)" by simp
  then have "CHR '':'' \<in> set ''.'' \<union> (\<Union>w \<in> set (split_on (CHR ''.'') s). set w)"
    using colon set_join_with_subset by (metis subsetD)
  then obtain w where w: "w \<in> set (split_on (CHR ''.'') s)" "CHR '':'' \<in> set w" by auto
  moreover have "\<not> isAsciiDigit (CHR '':'')" by code_simp
  ultimately have "octet_of w = None" by (auto simp: octet_of_def list_all_iff)
  with w(1) have "None \<in> set (map octet_of (split_on (CHR ''.'') s))" by force
  then show ?thesis by (simp add: octetsOf_def Let_def none)
qed

lemma octetsOf_no_dot: "CHR ''.'' \<notin> set s \<Longrightarrow> octetsOf s = None"
  by (simp add: octetsOf_def split_on_clean)

lemma add_as_or: "(b :: nat) < 256 \<Longrightarrow> push_bit 8 a OR b = 256 * a + b"
proof -
  assume "b < 256"
  then have b: "take_bit 8 b = b" by (simp add: take_bit_nat_eq_self_iff)
  have "push_bit 8 a AND take_bit 8 b = 0"
    by (rule bit_eqI) (simp add: bit_simps)
  then have "push_bit 8 a + b = push_bit 8 a OR b" by (simp add: b disjunctive_add_eq_or)
  then show ?thesis by (simp add: push_bit_eq_mult)
qed

lemma groups_of_texts: "\<forall>g \<in> set gs. g < 65536 \<Longrightarrow> all_some (map group_of (map hex_text gs)) = Some gs"
  by (induction gs) (simp_all add: group_of_text)

lemma expand_part_spells: "part_spells s gs \<Longrightarrow> expand_part s = Some gs"
proof (induction rule: part_spells.induct)
  case (hex gs)
  show ?case
  proof (cases gs)
    case Nil
    then show ?thesis by (simp add: expand_part_def)
  next
    case (Cons g gs')
    let ?ws = "map hex_text gs"
    have split: "split_on (CHR '':'') (join_with '':'' ?ws) = ?ws"
      using hex_piece Cons by (intro split_join) (auto simp: piece_def)
    have "CHR ''.'' \<notin> set (last ?ws)"
      using hex_text_chars hex_not_special Cons by (metis last_map list.distinct(1))
    then have "expand_pieces ?ws = ?ws" by (simp add: expand_pieces_def octetsOf_no_dot)
    moreover have "join_with '':'' ?ws \<noteq> []" using Cons by (cases gs') simp_all
    moreover have "all_some (map group_of ?ws) = Some gs"
      using hex by (rule groups_of_texts)
    ultimately show ?thesis by (simp add: expand_part_def split)
  qed
next
  case (mixed gs a)
  let ?ws = "map hex_text gs @ [dotted_quad a]"
  have split: "split_on (CHR '':'') (join_with '':'' ?ws) = ?ws"
    using hex_piece dotted_piece by (intro split_join) (auto simp: piece_def)
  have join: "join_with '':'' ?ws \<noteq> []"
    using dotted_plain(2) [of a] by (cases gs) (simp_all add: join_with_Cons)
  have low: "unat a mod 65536 = 256 * (unat a div 256 mod 256) + unat a mod 256"
    using mod_mult2_eq [of "unat a" 256 256] by simp
  have high: "256 * (unat a div 65536 div 256) + unat a div 65536 mod 256 = unat a div 65536" by simp
  have small: "unat a div 65536 < 65536" using unat_bound [of a] by simp
  have "expand_pieces ?ws = map hex_text (gs @ [unat a div 65536, unat a mod 65536])"
    by (simp add: expand_pieces_def octetsOf_dotted octets_nat add_as_or low high)
  moreover have "all_some (map group_of (map hex_text (gs @ [unat a div 65536, unat a mod 65536])))
      = Some (gs @ [unat a div 65536, unat a mod 65536])"
    by (rule groups_of_texts) (use mixed small in auto)
  ultimately show ?case using join by (simp add: expand_part_def split)
qed

lemma ipv6Groups_length: "ipv6Groups s = Some gs \<Longrightarrow> length gs = 8"
  by (auto simp: ipv6Groups_def split: if_splits list.splits option.splits)

lemma v6_parts:
  assumes "v6_spells s gs"
  shows "CHR '':'' \<in> set s \<and> length gs = 8 \<and> ipv6Groups s = Some gs"
  using assms
proof (induction rule: v6_spells.induct)
  case (whole s gs)
  obtain ws where ws: "s = join_with '':'' ws" "list_all piece ws" using part_pieces [OF whole(1)] by blast
  have colon: "CHR '':'' \<in> set s"
    using whole
  proof (induction rule: part_spells.induct)
    case (hex gs)
    then obtain a b gs' where "gs = a # b # gs'" by (metis length_Suc_conv numeral_eq_Suc pred_numeral_simps)
    then show ?case by simp
  next
    case (mixed gs a)
    then obtain b gs' where "gs = b # gs'" by (cases gs) auto
    then show ?case by (simp add: join_with_Cons)
  qed
  moreover have "split_double s = [s]" using split_double_part ws by simp
  ultimately show ?case using whole by (simp add: ipv6Groups_def expand_part_spells)
next
  case (short s l t r)
  obtain ws where ws: "s = join_with '':'' ws" "list_all piece ws" using part_pieces [OF short(1)] by blast
  obtain vs where vs: "t = join_with '':'' vs" "list_all piece vs" using part_pieces [OF short(2)] by blast
  have "split_double (s @ ''::'' @ t) = [s, t]"
    using split_double_pieces [OF ws(2), of "''::'' @ t"] split_double_part [OF vs(2)] ws(1) vs(1) by simp
  then show ?case using short by (simp add: ipv6Groups_def expand_part_spells)
qed

lemma last_join: "w \<noteq> [] \<Longrightarrow> last (join_with sep (ws @ [w])) = last w \<and> join_with sep (ws @ [w]) \<noteq> []"
  by (induction ws) (simp_all add: join_with_Cons)

lemma part_plain: "part_spells s gs \<Longrightarrow> plain_host s \<and> (s \<noteq> [] \<longrightarrow> last s \<noteq> CHR ''.'')"
proof (induction rule: part_spells.induct)
  case (hex gs)
  show ?case
  proof (cases gs rule: rev_cases)
    case Nil
    then show ?thesis by (simp add: plain_host_def)
  next
    case (snoc gs' g)
    have "last (join_with '':'' (map hex_text gs)) = last (hex_text g)"
      using last_join [of "hex_text g"] by (simp add: snoc)
    moreover have "last (hex_text g) \<noteq> CHR ''.''" using hex_text_chars hex_not_special by (metis last_in_set hex_text_not_Nil)
    moreover have "plain_host (join_with '':'' (map hex_text gs))"
      using set_join_with_subset [of "'':''" "map hex_text gs"] hex_text_chars by (fastforce simp: plain_host_def)
    ultimately show ?thesis by simp
  qed
next
  case (mixed gs a)
  have "last (join_with '':'' (map hex_text gs @ [dotted_quad a])) = last (dotted_quad a)"
    using last_join [OF dotted_plain(2)] by blast
  moreover have "plain_host (join_with '':'' (map hex_text gs @ [dotted_quad a]))"
    using set_join_with_subset [of "'':''" "map hex_text gs @ [dotted_quad a]"] hex_text_chars dotted_plain(1)
    by (fastforce simp: plain_host_def)
  ultimately show ?case by (simp add: dotted_plain(3))
qed

lemma v6_plain: "v6_spells s gs \<Longrightarrow> plain_host s \<and> s \<noteq> [] \<and> last s \<noteq> CHR ''.''"
proof (induction rule: v6_spells.induct)
  case (whole s gs)
  then show ?case using part_plain [OF whole(1)] v6_parts [OF v6_spells.whole [OF whole]] by auto
next
  case (short s l t r)
  then show ?case using part_plain [OF short(1)] part_plain [OF short(2)] by (auto simp: plain_host_def)
qed

lemma v6_groups_small: "v6_spells s gs \<Longrightarrow> \<forall>g \<in> set gs. g < 65536"
proof -
  have part: "\<forall>g \<in> set gs. g < 65536" if "part_spells s gs" for s gs
    using that by (induction rule: part_spells.induct) (use unat_bound in \<open>auto simp: less_mult_imp_div_less\<close>)
  assume "v6_spells s gs"
  then show "\<forall>g \<in> set gs. g < 65536" by (induction rule: v6_spells.induct) (auto dest: part)
qed

text \<open>
  Every spelling of an IPv6 address is read back: written in full or with a run of zeros left out,
  its last part in hexadecimal or as a dotted_quad address, the text gives the eight groups it stands for.
\<close>

theorem v6_text_reads_back: "v6_spells s gs \<Longrightarrow> ipv6Groups (bareHost s) = Some gs"
  using v6_parts v6_plain bareHost_plain by auto

lemma sample_v4: "unat (v4 10 0 0 5) = 167772165" "dotted_quad (v4 10 0 0 5) = ''10.0.0.5''"
proof -
  show *: "unat (v4 10 0 0 5) = 167772165" by (simp add: v4_def unat_of_nat)
  show "dotted_quad (v4 10 0 0 5) = ''10.0.0.5''"
    by (simp add: dotted_quad_def octets_nat * nat_text.simps digit_char_def) code_simp
qed

lemma sample_v6: "v6_spells ''::ffff:10.0.0.5'' [0, 0, 0, 0, 0, 65535, 2560, 5]"
proof -
  have "hex_text 65535 = ''ffff''" by (simp add: hex_text.simps v6_digit_def) code_simp
  then have "part_spells ''ffff:10.0.0.5'' [65535, 2560, 5]"
    using part_spells.mixed [of "[65535]" "v4 10 0 0 5"] by (simp add: sample_v4)
  moreover have "part_spells [] []" using part_spells.hex [of "[]"] by simp
  ultimately have "v6_spells ([] @ ''::'' @ ''ffff:10.0.0.5'')
      ([] @ replicate (8 - length ([] :: nat list) - length [65535 :: nat, 2560, 5]) 0 @ [65535, 2560, 5])"
    by (intro v6_spells.short) simp_all
  moreover have "replicate 5 (0 :: nat) = [0, 0, 0, 0, 0]" by code_simp
  ultimately show ?thesis by simp
qed

lemma v6_text_reads_back_witness:
  "ipv6Groups (bareHost ''::ffff:10.0.0.5'') = Some [0, 0, 0, 0, 0, 65535, 2560, 5]"
  using sample_v6 by (rule v6_text_reads_back)

section \<open>IPv6 blocks\<close>

definition v6_value :: "nat list \<Rightarrow> nat" where
  "v6_value gs = foldl (\<lambda>n g. 65536 * n + g) 0 gs"

text \<open>The first \<open>n\<close> of the 128 bits agree with those of the base.\<close>

definition in_v6_block :: "nat list \<Rightarrow> nat list \<times> nat \<Rightarrow> bool" where
  "in_v6_block gs b = (case b of (base, n) \<Rightarrow> v6_value gs div 2 ^ (128 - n) = v6_value base div 2 ^ (128 - n))"

text \<open>The unspecified address, loopback, the unique local and the link local ranges.\<close>

definition private_v6_blocks :: "(nat list \<times> nat) list" where
  "private_v6_blocks = [([0, 0, 0, 0, 0, 0, 0, 0], 128), ([0, 0, 0, 0, 0, 0, 0, 1], 128),
     ([0xfc00, 0, 0, 0, 0, 0, 0, 0], 7), ([0xfe80, 0, 0, 0, 0, 0, 0, 0], 10)]"

text \<open>Addresses that carry an IPv4 address in their last 32 bits: mapped ones and NAT64.\<close>

definition embedding_blocks :: "(nat list \<times> nat) list" where
  "embedding_blocks = [([0, 0, 0, 0, 0, 0xffff, 0, 0], 96), ([0x64, 0xff9b, 0, 0, 0, 0, 0, 0], 32)]"

definition embedded_v4 :: "nat list \<Rightarrow> 32 word" where
  "embedded_v4 gs = of_nat (v6_value gs)"

definition private_v6 :: "nat list \<Rightarrow> bool" where
  "private_v6 gs = (if list_ex (in_v6_block gs) embedding_blocks then private_v4 (embedded_v4 gs)
     else list_ex (in_v6_block gs) private_v6_blocks)"

lemma v6_value_snoc: "v6_value (gs @ [g]) = 65536 * v6_value gs + g"
  by (simp add: v6_value_def)

lemma v6_value_prefix:
  "\<forall>g \<in> set hs. g < 65536 \<Longrightarrow> v6_value (gs @ hs) div 65536 ^ length hs = v6_value gs"
proof (induction hs rule: rev_induct)
  case (snoc h hs)
  have "v6_value (gs @ hs @ [h]) div 65536 ^ length (hs @ [h]) = v6_value (gs @ hs) div 65536 ^ length hs"
    using snoc.prems v6_value_snoc [of "gs @ hs" h] by (simp add: div_mult2_eq)
  with snoc show ?case by simp
qed simp

lemma v6_value_inj:
  "length gs = length hs \<Longrightarrow> \<forall>g \<in> set gs. g < 65536 \<Longrightarrow> \<forall>h \<in> set hs. h < 65536 \<Longrightarrow>
   v6_value gs = v6_value hs \<longleftrightarrow> gs = hs"
proof (induction gs hs rule: rev_induct2)
  case (4 x xs y ys)
  then show ?case by (simp add: v6_value_snoc place_value)
qed simp_all

lemma block_groups:
  assumes "length gs = 8" and "length base = 8" and "\<forall>g \<in> set gs. g < 65536" and "\<forall>g \<in> set base. g < 65536" and "k \<le> 8"
  shows "in_v6_block gs (base, 16 * k) \<longleftrightarrow> take k gs = take k base"
proof -
  have power: "(2 :: nat) ^ (128 - 16 * k) = 65536 ^ (8 - k)"
    using power_mult [of "2 :: nat" 16 "8 - k"] by (simp add: diff_mult_distrib2)
  have pre: "v6_value hs div 65536 ^ (8 - k) = v6_value (take k hs)"
    if "length hs = 8" "\<forall>g \<in> set hs. g < 65536" for hs
    using v6_value_prefix [of "drop k hs" "take k hs"] that by (auto dest: in_set_dropD)
  have "v6_value (take k gs) = v6_value (take k base) \<longleftrightarrow> take k gs = take k base"
    using assms by (intro v6_value_inj) (auto dest: in_set_takeD)
  then show ?thesis using assms by (simp only: in_v6_block_def prod.case power pre)
qed

lemma block_first_group:
  assumes "gs = g # gs'" and "length gs = 8" and "\<forall>g \<in> set gs. g < 65536" and "n \<le> 16"
  shows "v6_value gs div 2 ^ (128 - n) = g div 2 ^ (16 - n)"
proof -
  have "(2 :: nat) ^ (128 - n) = 2 ^ 112 * 2 ^ (16 - n)"
  proof -
    have "128 - n = 112 + (16 - n)" using assms(4) by simp
    then show ?thesis by (simp only: power_add)
  qed
  moreover have "(2 :: nat) ^ 112 = 65536 ^ length gs'" using assms(1,2) by simp
  moreover have "v6_value ([g] @ gs') div 65536 ^ length gs' = v6_value [g]"
    by (rule v6_value_prefix) (use assms in auto)
  ultimately show ?thesis using assms(1) by (simp add: div_mult2_eq v6_value_def)
qed

lemma and_high_bits:
  assumes "(x :: nat) < 65536"
  shows "x AND push_bit k (mask (16 - k)) = push_bit k (drop_bit k x)"
proof -
  have "take_bit 16 x = x" using assms by (simp add: take_bit_nat_eq_self_iff)
  moreover have "take_bit 16 x AND push_bit k (mask (16 - k)) = push_bit k (drop_bit k (take_bit 16 x))"
    by (rule bit_eqI) (auto simp: bit_simps)
  ultimately show ?thesis by simp
qed

lemma high_bits:
  assumes "(x :: nat) < 65536"
  shows "x AND 0xfe00 = 0xfc00 \<longleftrightarrow> x div 512 = 126" and "x AND 0xffc0 = 0xfe80 \<longleftrightarrow> x div 64 = 1018"
proof -
  have c: "(0xfe00 :: nat) = push_bit 9 (mask (16 - 9))" "(0xffc0 :: nat) = push_bit 6 (mask (16 - 6))"
    by (simp_all add: mask_eq_exp_minus_1 push_bit_eq_mult)
  show "x AND 0xfe00 = 0xfc00 \<longleftrightarrow> x div 512 = 126" "x AND 0xffc0 = 0xfe80 \<longleftrightarrow> x div 64 = 1018"
    unfolding c and_high_bits [OF assms] by (simp_all add: push_bit_eq_mult drop_bit_eq_div)
qed

lemma low_byte: "(x :: nat) AND 0xff = x mod 256"
proof -
  have "(0xff :: nat) = mask 8" by (simp add: mask_eq_exp_minus_1)
  then have "x AND 0xff = take_bit 8 x" by (simp only: take_bit_eq_mask)
  then show ?thesis by (simp add: take_bit_eq_mod)
qed

lemma embedded_octets:
  assumes "gs = [a, b, c, d, e, f, g, h]" and "\<forall>x \<in> set gs. x < 65536"
  shows "octets (embedded_v4 gs) = [drop_bit 8 g, g AND 0xff, drop_bit 8 h, h AND 0xff]"
proof -
  define m where "m = v6_value [a, b, c, d, e, f]"
  have val: "v6_value gs = 4294967296 * m + (65536 * g + h)"
    using v6_value_snoc [of "[a, b, c, d, e, f]" g] v6_value_snoc [of "[a, b, c, d, e, f, g]" h]
    by (simp add: assms(1) m_def)
  have gh: "g < 65536" "h < 65536" using assms by simp_all
  have "unat (embedded_v4 gs) = 65536 * g + h"
    unfolding embedded_v4_def unat_of_nat val using gh by simp
  then have "unat (embedded_v4 gs) div 65536 = g" "unat (embedded_v4 gs) mod 256 = h mod 256"
    "unat (embedded_v4 gs) div 256 mod 256 = h div 256"
  proof -
    assume u: "unat (embedded_v4 gs) = 65536 * g + h"
    show "unat (embedded_v4 gs) div 65536 = g" using gh by (simp add: u)
    have "65536 * g + h = 256 * (256 * g) + h" by simp
    then show "unat (embedded_v4 gs) mod 256 = h mod 256" by (metis u mod_mult_self4)
    have "(65536 * g + h) div 256 = 256 * g + h div 256"
      using div_mult_self4 [of 256 "256 * g" h] by simp
    then show "unat (embedded_v4 gs) div 256 mod 256 = h div 256" using gh by (simp add: u)
  qed
  then show ?thesis using gh by (simp add: octets_nat low_byte drop_bit_eq_div)
qed

lemma isPrivateGroups_blocks:
  assumes "length gs = 8" and small: "\<forall>g \<in> set gs. g < 65536"
  shows "isPrivateGroups gs \<longleftrightarrow> private_v6 gs"
proof -
  obtain a b c d e f g h where gs: "gs = [a, b, c, d, e, f, g, h]"
    using assms(1) by (auto simp: length_Suc_conv numeral_eq_Suc)
  have a: "a < 65536" using small gs by simp
  note block = block_groups [OF assms(1) _ small]
  have whole: "in_v6_block gs ([0, 0, 0, 0, 0, 0, 0, 0], 128) \<longleftrightarrow> gs = [0, 0, 0, 0, 0, 0, 0, 0]"
    "in_v6_block gs ([0, 0, 0, 0, 0, 0, 0, 1], 128) \<longleftrightarrow> gs = [0, 0, 0, 0, 0, 0, 0, 1]"
    using block [where k = 8] assms(1) by simp_all
  have embed: "in_v6_block gs ([0, 0, 0, 0, 0, 0xffff, 0, 0], 96) \<longleftrightarrow> take 6 gs = [0, 0, 0, 0, 0, 0xffff]"
    "in_v6_block gs ([0x64, 0xff9b, 0, 0, 0, 0, 0, 0], 32) \<longleftrightarrow> take 2 gs = [0x64, 0xff9b]"
    using block [where k = 6] block [where k = 2] by simp_all
  have first: "in_v6_block gs ([0xfc00, 0, 0, 0, 0, 0, 0, 0], 7) \<longleftrightarrow> a AND 0xfe00 = 0xfc00"
    "in_v6_block gs ([0xfe80, 0, 0, 0, 0, 0, 0, 0], 10) \<longleftrightarrow> a AND 0xffc0 = 0xfe80"
    using block_first_group [OF gs assms] block_first_group [where g = "0xfc00" and gs' = "[0, 0, 0, 0, 0, 0, 0]" and n = 7, OF refl]
      block_first_group [where g = "0xfe80" and gs' = "[0, 0, 0, 0, 0, 0, 0]" and n = 10, OF refl]
    by (simp_all only: in_v6_block_def prod.case high_bits [OF a]) simp_all
  show ?thesis
    unfolding private_v6_def embedding_blocks_def private_v6_blocks_def list_ex_Cons_iff list_ex_Nil_iff whole embed first
      isPrivateGroups_def Let_def isPrivateV4_octets [symmetric] embedded_octets [OF gs small]
    by (simp add: gs)
qed

lemma isPrivate_v6:
  assumes "v6_spells s gs"
  shows "isPrivateAddress s \<longleftrightarrow> private_v6 gs"
proof -
  note parts = v6_parts [OF assms] and plain = v6_plain [OF assms]
  have "bareHost s = s" using plain by (simp add: bareHost_plain)
  moreover have "s \<noteq> ''localhost''" using parts by auto
  moreover have "octetsOf s = None" using parts by (simp add: octetsOf_colon)
  ultimately show ?thesis
    using parts isPrivateGroups_blocks v6_groups_small [OF assms] by (simp add: isPrivateAddress_def)
qed

text \<open>
  An IPv6 address, however it is spelled, is refused exactly when it is the unspecified address,
  loopback, unique local or link local, or when it is a mapped or NAT64 address and the IPv4 address in
  its last 32 bits is refused.
\<close>

theorem private_v6_blocks: "v6_spells s gs \<Longrightarrow> isPrivateAddress s \<longleftrightarrow> private_v6 gs"
  by (rule isPrivate_v6)

lemma private_v6_blocks_witness:
  "isPrivateAddress ''::ffff:10.0.0.5'' \<longleftrightarrow> private_v6 [0, 0, 0, 0, 0, 65535, 2560, 5]"
  using sample_v6 by (rule private_v6_blocks)

text \<open>Multicast, which is refused for IPv4, passes for IPv6.\<close>

lemma v6_multicast_admitted: "\<not> isPrivateAddress ''ff02::1'' \<and> isPrivateAddress ''224.0.0.1''"
proof
  have "hex_text 0xff02 = ''ff02''" "hex_text 1 = ''1''" by (simp_all add: hex_text.simps v6_digit_def) code_simp+
  then have "part_spells ''ff02'' [0xff02]" "part_spells ''1'' [1]"
    using part_spells.hex [of "[0xff02]"] part_spells.hex [of "[1]"] by simp_all
  then have "v6_spells (''ff02'' @ ''::'' @ ''1'') ([0xff02] @ replicate (8 - length [0xff02 :: nat] - length [1 :: nat]) 0 @ [1])"
    by (rule v6_spells.short) simp
  moreover have "replicate 6 (0 :: nat) = [0, 0, 0, 0, 0, 0]" by code_simp
  ultimately have "v6_spells ''ff02::1'' [0xff02, 0, 0, 0, 0, 0, 0, 1]" by simp
  moreover have "\<not> private_v6 [0xff02, 0, 0, 0, 0, 0, 0, 1]"
    by (simp add: private_v6_def embedding_blocks_def private_v6_blocks_def in_v6_block_def v6_value_def)
  ultimately show "\<not> isPrivateAddress ''ff02::1''" using isPrivate_v6 by blast
  show "isPrivateAddress ''224.0.0.1''" by code_simp
qed

text \<open>Whatever counts as loopback is also refused.\<close>

lemma loopback_private:
  assumes "isLoopbackHost s" shows "isPrivateAddress s"
proof (cases "octetsOf (bareHost s)")
  case (Some os)
  then show ?thesis using assms
    by (cases os) (auto simp: isLoopbackHost_def isPrivateAddress_def isPrivateV4_def octetsOf_def Let_def split: if_splits)
next
  case None
  show ?thesis
  proof (cases "ipv6Groups (bareHost s)")
    case (Some gs)
    then have "length gs = 8" by (rule ipv6Groups_length)
    then obtain a b c d e f g h where gs: "gs = [a, b, c, d, e, f, g, h]"
      by (auto simp: length_Suc_conv numeral_eq_Suc)
    with Some None assms show ?thesis
      unfolding isLoopbackHost_def isPrivateAddress_def Let_def
      by (cases "bareHost s = ''localhost''") (simp_all add: isPrivateGroups_def gs)
  qed (use None assms in \<open>auto simp: isLoopbackHost_def isPrivateAddress_def Let_def split: if_splits\<close>)
qed

end
