(* ===== verification/Guarded_Http.thy ===== *)
theory Guarded_Http
  imports Network_Address Response_Cache
begin

text \<open>
  Requests to urls this platform does not control: which endpoint is acceptable
  (\<open>isSecureEndpoint\<close> of \<open>products/chat/contracts/src/integration/discovery.ts\<close>), the resolver every
  socket goes through, one request and the redirect loop
  (\<open>products/chat/api/src/connections/guarded-http.ts\<close>).

  Three things are parameters: the runtime's url parser (\<open>parse\<close>, and \<open>join\<close> for a location against its
  base), which host names are address literals (\<open>literal\<close>: a socket then connects to the host itself and
  asks no resolver), and the network (\<open>net\<close>: for each hop, what the name resolves to and the events of the
  response, in order). No law is assumed of any of them.
\<close>

record endpoint_policy =
  ep_allowLoopback :: bool

record url =
  u_href :: string
  u_protocol :: string
  u_hostname :: string

definition isSecureEndpoint :: "(string \<Rightarrow> url option) \<Rightarrow> endpoint_policy \<Rightarrow> string \<Rightarrow> bool" where
  "isSecureEndpoint parse policy raw = (case parse raw of
     None \<Rightarrow> False
   | Some u \<Rightarrow> if isLoopbackHost (u_hostname u) then ep_allowLoopback policy
       else u_protocol u = ''https:'' \<and> \<not> isPrivateAddress (u_hostname u))"

section \<open>The resolver\<close>

datatype lookup_result = Lookup_failed | Lookup_refused string | Lookup_all "string list" | Lookup_one string

definition refuses :: "endpoint_policy \<Rightarrow> string \<Rightarrow> bool" where
  "refuses policy address = (isPrivateAddress address \<and> \<not> (ep_allowLoopback policy \<and> isLoopbackHost address))"

text \<open>\<open>answers\<close> is what the name resolves to, nothing when resolution fails.\<close>

definition publicOnlyLookup :: "endpoint_policy \<Rightarrow> string \<Rightarrow> bool \<Rightarrow> string list option \<Rightarrow> lookup_result" where
  "publicOnlyLookup policy hostname all answers = (case answers of
     None \<Rightarrow> Lookup_failed
   | Some as \<Rightarrow>
       (case (List.find (refuses policy) as, as) of
          (None, first # rest) \<Rightarrow> if all then Lookup_all as else Lookup_one first
        | (refused, _) \<Rightarrow> Lookup_refused (hostname @ '' resolves outside the public internet (''
            @ (case refused of None \<Rightarrow> ''no address'' | Some a \<Rightarrow> a) @ '')'')))"

section \<open>One request\<close>

definition foldHeaders :: "(string \<times> header_value) list \<Rightarrow> (string \<times> string) list" where
  "foldHeaders raw = fold (\<lambda>(name, v) folded. if name = ''set-cookie'' then folded
     else AList.update name (case v of Many_values vs \<Rightarrow> join_with '', '' vs | One_value s \<Rightarrow> s) folded) raw []"

record guarded_response =
  gr_status :: nat
  gr_headers :: "(string \<times> string) list"
  gr_body :: string

datatype transport_failure = Transport | Oversized

datatype guarded_outcome = Response guarded_response | Refused string | Failed transport_failure

text \<open>
  What the network does to one request, in order. \<open>Aborted\<close> is an error of the request before the
  response and of the response after it: a socket error, the caller's signal or the deadline.
\<close>

datatype net_event =
    Head nat "(string \<times> header_value) list"
  | Data string
  | End
  | Close
  | Aborted

record request_state =
  rs_head :: "(nat \<times> (string \<times> header_value) list) option"
  rs_body :: string
  rs_overran :: bool
  rs_settled :: "guarded_outcome option"

definition request_start :: request_state where
  "request_start = \<lparr>rs_head = None, rs_body = [], rs_overran = False, rs_settled = None\<rparr>"

definition finish_request :: "guarded_outcome \<Rightarrow> request_state \<Rightarrow> request_state" where
  "finish_request v st = (if rs_settled st = None then st\<lparr>rs_settled := Some v\<rparr> else st)"

definition request_event :: "nat \<Rightarrow> net_event \<Rightarrow> request_state \<Rightarrow> request_state" where
  "request_event maxBytes e st = (case rs_head st of
     None \<Rightarrow> (case e of
         Head status headers \<Rightarrow> st\<lparr>rs_head := Some (status, headers)\<rparr>
       | Aborted \<Rightarrow> finish_request (Failed Transport) st
       | _ \<Rightarrow> st)
   | Some (status, headers) \<Rightarrow> (case e of
         Data chunk \<Rightarrow>
           if length (rs_body st) + length chunk > maxBytes then st\<lparr>rs_overran := True\<rparr>
           else st\<lparr>rs_body := rs_body st @ chunk\<rparr>
       | End \<Rightarrow> finish_request (if rs_overran st then Failed Oversized
             else Response \<lparr>gr_status = status, gr_headers = foldHeaders headers, gr_body = rs_body st\<rparr>) st
       | Close \<Rightarrow> if rs_overran st then finish_request (Failed Oversized) st else st
       | Aborted \<Rightarrow> finish_request (Failed (if rs_overran st then Oversized else Transport)) st
       | Head _ _ \<Rightarrow> st))"

text \<open>What happens on the wire of one hop: the answers to its name and the events of its response.\<close>

record network_run =
  nr_answers :: "string list option"
  nr_all :: bool
  nr_events :: "net_event list"

text \<open>The addresses a socket is given: the literal itself, or what the resolver let through.\<close>

definition resolved :: "(string \<Rightarrow> bool) \<Rightarrow> endpoint_policy \<Rightarrow> url \<Rightarrow> network_run \<Rightarrow> lookup_result" where
  "resolved literal policy u run = (if literal (u_hostname u) then Lookup_one (u_hostname u)
     else publicOnlyLookup policy (u_hostname u) (nr_all run) (nr_answers run))"

definition sockets :: "lookup_result \<Rightarrow> string list" where
  "sockets r = (case r of Lookup_all as \<Rightarrow> as | Lookup_one a \<Rightarrow> [a] | _ \<Rightarrow> [])"

text \<open>The deadline ends every request: \<open>Aborted\<close> comes after whatever else happens.\<close>

definition guardedRequest :: "(string \<Rightarrow> bool) \<Rightarrow> endpoint_policy \<Rightarrow> nat \<Rightarrow> url \<Rightarrow> network_run \<Rightarrow> guarded_outcome" where
  "guardedRequest literal policy maxBytes u run = (case resolved literal policy u run of
     Lookup_refused message \<Rightarrow> Refused message
   | Lookup_failed \<Rightarrow> Failed Transport
   | _ \<Rightarrow> the (rs_settled (fold (request_event maxBytes) (nr_events run @ [Aborted]) request_start)))"

section \<open>Redirects\<close>

text \<open>
  The loop of \<open>guardedFollow\<close>, \<open>left\<close> hops before its last one. Beside the outcome it returns the
  addresses its sockets were given and the urls it requested.
\<close>

fun follow :: "(string \<Rightarrow> url option) \<Rightarrow> (string \<Rightarrow> string \<Rightarrow> string option) \<Rightarrow> (string \<Rightarrow> bool)
    \<Rightarrow> (nat \<Rightarrow> network_run) \<Rightarrow> endpoint_policy \<Rightarrow> nat \<Rightarrow> nat \<Rightarrow> nat \<Rightarrow> string
    \<Rightarrow> guarded_outcome \<times> string list \<times> string list" where
  "follow parse join literal net policy maxBytes 0 hop target = (Failed Transport, [], [])"
| "follow parse join literal net policy maxBytes (Suc left) hop target =
     (if \<not> isSecureEndpoint parse policy target then
        (Refused (target @ '' is not an endpoint this platform will request''), [], [])
      else
        (let u = the (parse target);
             outcome = guardedRequest literal policy maxBytes u (net hop);
             touched = sockets (resolved literal policy u (net hop))
         in case outcome of
              Response response \<Rightarrow>
                (case map_of (gr_headers response) ''location'' of
                   None \<Rightarrow> (outcome, touched, [target])
                 | Some location \<Rightarrow>
                     if gr_status response < 300 \<or> gr_status response \<ge> 400 then (outcome, touched, [target])
                     else (case join location target of
                         None \<Rightarrow> (Failed Transport, touched, [target])
                       | Some target' \<Rightarrow>
                           (case follow parse join literal net policy maxBytes left (Suc hop) target' of
                              (outcome', touched', urls) \<Rightarrow> (outcome', touched @ touched', target # urls))))
            | _ \<Rightarrow> (outcome, touched, [target])))"

definition guardedFollow :: "(string \<Rightarrow> url option) \<Rightarrow> (string \<Rightarrow> string \<Rightarrow> string option) \<Rightarrow> (string \<Rightarrow> bool)
    \<Rightarrow> (nat \<Rightarrow> network_run) \<Rightarrow> endpoint_policy \<Rightarrow> nat \<Rightarrow> nat \<Rightarrow> string \<Rightarrow> guarded_outcome \<times> string list \<times> string list" where
  "guardedFollow parse join literal net policy maxBytes maxRedirects target =
     follow parse join literal net policy maxBytes (Suc maxRedirects) 0 target"

section \<open>One request, settled once and within its size\<close>

definition body_bounded :: "nat \<Rightarrow> request_state \<Rightarrow> bool" where
  "body_bounded n st = (length (rs_body st) \<le> n
     \<and> (\<forall>r. rs_settled st = Some (Response r) \<longrightarrow> length (gr_body r) \<le> n))"

lemma request_event_bounded: "body_bounded n st \<Longrightarrow> body_bounded n (request_event n e st)"
  by (cases e) (auto simp: request_event_def finish_request_def body_bounded_def split: option.splits prod.splits)

lemma request_fold_bounded: "body_bounded n st \<Longrightarrow> body_bounded n (fold (request_event n) es st)"
  by (induction es arbitrary: st) (simp_all add: request_event_bounded)

lemma request_settles: "rs_settled (fold (request_event n) (es @ [Aborted]) st) \<noteq> None"
  by (auto simp: request_event_def finish_request_def split: option.splits prod.splits)

lemma request_settled_keeps:
  "rs_settled st = Some v \<Longrightarrow> rs_settled (fold (request_event n) es st) = Some v"
proof (induction es arbitrary: st)
  case (Cons e es)
  have "rs_settled (request_event n e st) = Some v"
    using Cons.prems by (cases e) (auto simp: request_event_def finish_request_def split: option.splits prod.splits)
  with Cons.IH show ?case by simp
qed simp

lemma guardedRequest_bounded:
  assumes "guardedRequest literal policy n u run = Response r" shows "length (gr_body r) \<le> n"
proof -
  let ?st = "fold (request_event n) (nr_events run @ [Aborted]) request_start"
  have "body_bounded n ?st" by (rule request_fold_bounded) (simp add: body_bounded_def request_start_def)
  moreover have "the (rs_settled ?st) = Response r"
    using assms by (auto simp: guardedRequest_def split: lookup_result.splits)
  with request_settles [of n "nr_events run" request_start] have "rs_settled ?st = Some (Response r)" by force
  ultimately show ?thesis by (auto simp: body_bounded_def)
qed

section \<open>Where a request may go\<close>

definition reachable_address :: "endpoint_policy \<Rightarrow> string \<Rightarrow> bool" where
  "reachable_address policy a = (\<not> isPrivateAddress a \<or> (ep_allowLoopback policy \<and> isLoopbackHost a))"

lemma sockets_reachable:
  assumes "isSecureEndpoint parse policy target" and "parse target = Some u"
    and "a \<in> set (sockets (resolved literal policy u run))"
  shows "reachable_address policy a"
proof (cases "literal (u_hostname u)")
  case True
  with assms show ?thesis
    by (auto simp: resolved_def sockets_def isSecureEndpoint_def reachable_address_def split: if_splits)
next
  case False
  then have "a \<in> set (sockets (publicOnlyLookup policy (u_hostname u) (nr_all run) (nr_answers run)))"
    using assms(3) by (simp add: resolved_def)
  then obtain as where "nr_answers run = Some as" "List.find (refuses policy) as = None" "a \<in> set as"
    by (auto simp: publicOnlyLookup_def sockets_def split: option.splits list.splits if_splits)
  then show ?thesis by (auto simp: find_None_iff refuses_def reachable_address_def)
qed

lemma follow_facts:
  "\<exists>outcome touched urls. follow parse join literal net policy n left hop target = (outcome, touched, urls)
     \<and> list_all (reachable_address policy) touched \<and> list_all (isSecureEndpoint parse policy) urls
     \<and> length urls \<le> left
     \<and> (\<forall>r. outcome = Response r \<longrightarrow> length (gr_body r) \<le> n)"
proof (induction left arbitrary: hop target)
  case 0
  then show ?case by simp
next
  case (Suc left)
  show ?case
  proof (cases "isSecureEndpoint parse policy target")
    case False
    then show ?thesis by simp
  next
    case True
    then obtain u where u: "parse target = Some u" by (auto simp: isSecureEndpoint_def split: option.splits)
    let ?o = "guardedRequest literal policy n u (net hop)"
    let ?t = "sockets (resolved literal policy u (net hop))"
    have t: "list_all (reachable_address policy) ?t"
      using sockets_reachable [OF True u] by (auto simp: list_all_iff)
    have size: "?o = Response r \<Longrightarrow> length (gr_body r) \<le> n" for r by (rule guardedRequest_bounded)
    show ?thesis
    proof (cases "\<exists>r location target'. ?o = Response r \<and> map_of (gr_headers r) ''location'' = Some location
        \<and> \<not> (gr_status r < 300 \<or> gr_status r \<ge> 400) \<and> join location target = Some target'")
      case False
      then show ?thesis using True u t size
        by (auto simp: Let_def split: guarded_outcome.splits option.splits)
    next
      case more: True
      then obtain r location target' where step: "?o = Response r" "map_of (gr_headers r) ''location'' = Some location"
        "\<not> (gr_status r < 300 \<or> gr_status r \<ge> 400)" "join location target = Some target'" by blast
      obtain outcome touched urls where rest: "follow parse join literal net policy n left (Suc hop) target' = (outcome, touched, urls)"
        "list_all (reachable_address policy) touched" "list_all (isSecureEndpoint parse policy) urls"
        "length urls \<le> left" "\<forall>r. outcome = Response r \<longrightarrow> length (gr_body r) \<le> n"
        using Suc.IH [of "Suc hop" target'] by blast
      have "follow parse join literal net policy n (Suc left) hop target = (outcome, ?t @ touched, target # urls)"
        using True u step rest(1) by (simp add: Let_def)
      then show ?thesis using t rest True by simp
    qed
  qed
qed


end
