(* ===== verification/Sql_Guard.thy ===== *)
theory Sql_Guard
  imports Regex
begin

text \<open>
  The read-only guard of the SQL Server connector (\<open>packages/servers/mssql-mcp/src/dialect/guard.ts\<close>):
  literals, delimited identifiers and comments are masked, then the masked text is split into
  statements and searched for keywords that do more than read. Positions in the text are the
  remaining suffixes, so each inner loop of \<open>normalise\<close> is a function from a suffix to a suffix.

  The specification is written from the other side: \<open>sql_piece\<close> lists what a statement is made of,
  \<open>print_pieces\<close> writes it down, and \<open>normalise\<close> is shown to read it back.
\<close>

section \<open>ASCII case\<close>

definition asciiLower :: "string \<Rightarrow> string" where
  "asciiLower s = map (\<lambda>c. if isAsciiUpper c then char_of ((of_char c :: nat) + 32) else c) s"

definition asciiUpper :: "string \<Rightarrow> string" where
  "asciiUpper s = map (\<lambda>c. if isAsciiLower c then char_of ((of_char c :: nat) - 32) else c) s"

section \<open>Masking\<close>

text \<open>What is left after a literal or a bracketed identifier: a doubled closing character is part of it.\<close>

fun after_delimited :: "char \<Rightarrow> string \<Rightarrow> string" where
  "after_delimited close [] = []"
| "after_delimited close [c] = []"
| "after_delimited close (c # d # s) =
     (if c = close then (if d = close then after_delimited close s else d # s)
      else after_delimited close (d # s))"

text \<open>A double-quoted identifier ends at the next double quote.\<close>

fun after_double :: "string \<Rightarrow> string" where
  "after_double [] = []"
| "after_double (c # s) = (if c = CHR 0x22 then s else after_double s)"

definition after_line :: "string \<Rightarrow> string" where
  "after_line s = dropWhile (\<lambda>c. c \<noteq> CHR 0x0A) s"

fun after_block :: "nat \<Rightarrow> string \<Rightarrow> string" where
  "after_block 0 s = s"
| "after_block (Suc depth) [] = []"
| "after_block (Suc depth) [c] = []"
| "after_block (Suc depth) (c # d # s) =
     (if c = CHR ''/'' \<and> d = CHR ''*'' then after_block (Suc (Suc depth)) s
      else if c = CHR ''*'' \<and> d = CHR ''/'' then after_block depth s
      else after_block (Suc depth) (d # s))"

lemma after_delimited_le: "length (after_delimited close s) \<le> length s"
  by (induction close s rule: after_delimited.induct) auto

lemma after_double_le: "length (after_double s) \<le> length s"
  by (induction s) auto

lemma after_line_le: "length (after_line s) \<le> length s"
  by (simp add: after_line_def length_dropWhile_le)

lemma after_block_le: "length (after_block n s) \<le> length s"
  by (induction n s rule: after_block.induct) auto

function mask :: "string \<Rightarrow> string" where
  "mask [] = []"
| "mask (c # s) =
     (if c = quote_char then [quote_char, quote_char] @ mask (after_delimited quote_char s)
      else if c = CHR ''['' then ''id'' @ mask (after_delimited (CHR '']'') s)
      else if c = CHR 0x22 then ''id'' @ mask (after_double s)
      else if c = CHR ''-'' \<and> prefix ''-'' s then '' '' @ mask (after_line s)
      else if c = CHR ''/'' \<and> prefix ''*'' s then '' '' @ mask (after_block 1 (tl s))
      else c # mask s)"
  by pat_completeness auto
termination
proof (relation "measure length", goal_cases)
  case (6 c s)
  have "length (after_block 1 (tl s)) \<le> length (tl s)" by (rule after_block_le)
  then show ?case by (simp only: in_measure list.size(4)) simp
next
  case 2
  show ?case by (simp only: in_measure list.size(4) less_Suc_eq_le add_0_right add_Suc_right after_delimited_le)
next
  case 3
  show ?case by (simp only: in_measure list.size(4) less_Suc_eq_le add_0_right add_Suc_right after_delimited_le)
next
  case 4
  show ?case by (simp only: in_measure list.size(4) less_Suc_eq_le add_0_right add_Suc_right after_double_le)
next
  case 5
  show ?case by (simp only: in_measure list.size(4) less_Suc_eq_le add_0_right add_Suc_right after_line_le)
qed simp_all

definition statements_of :: "string \<Rightarrow> string list" where
  "statements_of masked = filter (\<lambda>part. part \<noteq> []) (map trim (split_on (CHR '';'') masked))"

definition normalise :: "string \<Rightarrow> string \<times> string list" where
  "normalise sql = (let masked = mask sql in (asciiLower masked, statements_of masked))"

section \<open>The guard\<close>

definition forbidden :: "string list" where
  "forbidden = [''insert'', ''update'', ''delete'', ''merge'', ''drop'', ''alter'', ''create'', ''truncate'',
     ''exec'', ''execute'', ''grant'', ''revoke'', ''deny'', ''backup'', ''restore'', ''shutdown'',
     ''reconfigure'', ''waitfor'', ''into'', ''openquery'', ''openrowset'', ''opendatasource'', ''bulk'']"

definition whole_word :: "string \<Rightarrow> rx" where
  "whole_word w = rx_cat [Rx_edge, rx_lit w, Rx_edge]"

definition procedurePrefix :: rx where
  "procedurePrefix = rx_cat [Rx_edge, rx_any [rx_lit ''sp_'', rx_lit ''xp_''], Rx_star (Rx_in word_char [])]"

text \<open>The first capture of \<open>/^\\s*(\\w+)/\<close>.\<close>

definition first_word :: "string \<Rightarrow> string option" where
  "first_word masked = (case takeWhile word_char (dropWhile is_space masked) of [] \<Rightarrow> None | w \<Rightarrow> Some w)"

datatype guard_outcome = Allow string | Refuse string string

definition readOnlyGuard :: "string \<Rightarrow> guard_outcome" where
  "readOnlyGuard sql = (case normalise sql of (masked, statements) \<Rightarrow>
     if statements = [] then Refuse ''The statement is empty once comments are removed.'' ''Send one SELECT statement.''
     else if 1 < length statements then
       Refuse (''The text carries '' @ nat_text (length statements) @ '' statements; only one is allowed.'')
         ''Send a single SELECT statement, with no semicolon-separated batch.''
     else if first_word masked \<noteq> Some ''select'' \<and> first_word masked \<noteq> Some ''with'' then
       Refuse (''A read-only statement has to begin with SELECT or WITH; this one begins with ''
           @ (case first_word masked of None \<Rightarrow> ''nothing'' | Some w \<Rightarrow> w) @ ''.'')
         ''Rewrite the request as a SELECT.''
     else case List.find (\<lambda>word. rx_test (whole_word word) masked) forbidden of
       Some word \<Rightarrow> Refuse (''The statement carries the keyword '' @ asciiUpper word @ '', which is not read-only.'')
         ''Remove it, or ask for the data with a plain SELECT.''
     | None \<Rightarrow>
         if rx_test procedurePrefix masked then
           Refuse ''The statement names a system procedure.''
             ''Use search_catalog and describe_table for catalogue questions.''
         else Allow sql)"

section \<open>What a statement is made of\<close>

datatype sql_piece =
    Code char
  | Literal string
  | Bracketed string
  | Double_quoted string
  | Line_comment string
  | Block_comment string

text \<open>A closing character inside a delimited text is written twice.\<close>

definition doubled :: "char \<Rightarrow> string \<Rightarrow> string" where
  "doubled close s = concat (map (\<lambda>c. if c = close then [c, c] else [c]) s)"

fun print_piece :: "sql_piece \<Rightarrow> string" where
  "print_piece (Code c) = [c]"
| "print_piece (Literal s) = quote_char # doubled quote_char s @ [quote_char]"
| "print_piece (Bracketed s) = CHR ''['' # doubled (CHR '']'') s @ '']''"
| "print_piece (Double_quoted s) = CHR 0x22 # s @ [CHR 0x22]"
| "print_piece (Line_comment s) = ''--'' @ s"
| "print_piece (Block_comment s) = ''/*'' @ s @ ''*/''"

definition print_pieces :: "sql_piece list \<Rightarrow> string" where
  "print_pieces ps = concat (map print_piece ps)"

fun mask_piece :: "sql_piece \<Rightarrow> string" where
  "mask_piece (Code c) = [c]"
| "mask_piece (Literal s) = [quote_char, quote_char]"
| "mask_piece (Bracketed s) = ''id''"
| "mask_piece (Double_quoted s) = ''id''"
| "mask_piece (Line_comment s) = '' ''"
| "mask_piece (Block_comment s) = '' ''"

definition masked_pieces :: "sql_piece list \<Rightarrow> string" where
  "masked_pieces ps = concat (map mask_piece ps)"

text \<open>
  The text of a block comment after its opening, with the closing written out: every comment opened
  in it is closed in it, and only its last character closes the outermost one.
\<close>

fun closes :: "nat \<Rightarrow> string \<Rightarrow> bool" where
  "closes 0 s = (s = [])"
| "closes (Suc depth) [] = False"
| "closes (Suc depth) [c] = False"
| "closes (Suc depth) (c # d # s) =
     (if c = CHR ''/'' \<and> d = CHR ''*'' then closes (Suc (Suc depth)) s
      else if c = CHR ''*'' \<and> d = CHR ''/'' then closes depth s
      else closes (Suc depth) (d # s))"

definition followed_by :: "char \<Rightarrow> sql_piece list \<Rightarrow> bool" where
  "followed_by c ps = prefix [c] (print_pieces ps)"

text \<open>
  The pieces can be told apart in the text: a code character opens nothing by itself or together with
  its successor, a literal or a bracketed identifier is not followed by its own closing character, a
  double-quoted one holds no quote, a line comment runs to the end of its line and a block comment
  closes every comment it opens.
\<close>

definition legible_before :: "sql_piece \<Rightarrow> sql_piece list \<Rightarrow> bool" where
  "legible_before p ps = (case p of
     Code c \<Rightarrow> c \<notin> {quote_char, CHR ''['', CHR 0x22} \<and> \<not> (c = CHR ''-'' \<and> followed_by (CHR ''-'') ps)
       \<and> \<not> (c = CHR ''/'' \<and> followed_by (CHR ''*'') ps)
   | Literal s \<Rightarrow> \<not> followed_by quote_char ps
   | Bracketed s \<Rightarrow> \<not> followed_by (CHR '']'') ps
   | Double_quoted s \<Rightarrow> CHR 0x22 \<notin> set s
   | Line_comment s \<Rightarrow> CHR 0x0A \<notin> set s \<and> (print_pieces ps = [] \<or> followed_by (CHR 0x0A) ps)
   | Block_comment s \<Rightarrow> closes 1 (s @ ''*/''))"

fun legible :: "sql_piece list \<Rightarrow> bool" where
  "legible [] = True"
| "legible (p # ps) = (legible_before p ps \<and> legible ps)"

text \<open>The code alone: everything that is masked is a blank.\<close>

fun code_char :: "sql_piece \<Rightarrow> char" where
  "code_char (Code c) = c"
| "code_char _ = CHR '' ''"

definition code_text :: "sql_piece list \<Rightarrow> string" where
  "code_text ps = map code_char ps"

fun is_identifier :: "sql_piece \<Rightarrow> bool" where
  "is_identifier (Bracketed s) = True"
| "is_identifier (Double_quoted s) = True"
| "is_identifier _ = False"

fun is_word_code :: "sql_piece \<Rightarrow> bool" where
  "is_word_code (Code c) = word_char c"
| "is_word_code _ = False"

text \<open>No delimited identifier touches a word of the code.\<close>

fun unglued :: "sql_piece list \<Rightarrow> bool" where
  "unglued (p # q # ps) = (\<not> (is_identifier p \<and> is_word_code q) \<and> \<not> (is_word_code p \<and> is_identifier q)
     \<and> unglued (q # ps))"
| "unglued _ = True"

definition outside_word :: "string \<Rightarrow> bool" where
  "outside_word s = (case s of [] \<Rightarrow> True | c # _ \<Rightarrow> \<not> word_char c)"

text \<open>\<open>w\<close> occurs in \<open>s\<close> as a word of its own.\<close>

definition has_word :: "string \<Rightarrow> string \<Rightarrow> bool" where
  "has_word w s = (\<exists>u v. s = u @ w @ v \<and> outside_word (rev u) \<and> outside_word v)"

definition starts_word :: "string \<Rightarrow> string \<Rightarrow> bool" where
  "starts_word w s = (\<exists>u v. s = u @ w @ v \<and> outside_word (rev u))"

section \<open>Masking reads the pieces back\<close>

lemma doubled_simps [simp]:
  "doubled close [] = []" "doubled close (c # s) = (if c = close then [c, c] else [c]) @ doubled close s"
  by (simp_all add: doubled_def)

lemma after_delimited_printed:
  "\<not> prefix [close] r \<Longrightarrow> after_delimited close (doubled close s @ close # r) = r"
proof (induction s)
  case Nil
  then show ?case by (cases r) simp_all
next
  case (Cons c s)
  then have IH: "after_delimited close (doubled close s @ close # r) = r" by simp
  obtain d t where rest: "doubled close s @ close # r = d # t"
    by (cases "doubled close s @ close # r") auto
  show ?case using IH by (simp add: rest)
qed

lemma after_double_printed: "CHR 0x22 \<notin> set s \<Longrightarrow> after_double (s @ CHR 0x22 # r) = r"
  by (induction s) auto

lemma after_line_printed:
  "CHR 0x0A \<notin> set s \<Longrightarrow> r = [] \<or> prefix [CHR 0x0A] r \<Longrightarrow> after_line (s @ r) = r"
  unfolding after_line_def by (induction s) (auto simp: prefix_def)

lemma after_block_printed: "closes n t \<Longrightarrow> after_block n (t @ r) = r"
  by (induction n t rule: closes.induct) (auto split: if_splits)

theorem mask_pieces: "legible ps \<Longrightarrow> mask (print_pieces ps) = masked_pieces ps"
proof (induction ps)
  case Nil
  then show ?case by (simp add: print_pieces_def masked_pieces_def)
next
  case (Cons p ps)
  let ?r = "print_pieces ps"
  have IH: "mask ?r = masked_pieces ps" and before: "legible_before p ps" using Cons by simp_all
  have split: "print_pieces (p # ps) = print_piece p @ ?r" "masked_pieces (p # ps) = mask_piece p @ masked_pieces ps"
    by (simp_all add: print_pieces_def masked_pieces_def)
  have line: "after_line (CHR ''-'' # s @ ?r) = ?r"
    if "CHR 0x0A \<notin> set s" and "?r = [] \<or> prefix [CHR 0x0A] ?r" for s
    using after_line_printed [of "CHR ''-'' # s", OF _ that(2)] that(1) by simp
  have block: "after_block (Suc 0) (s @ CHR ''*'' # CHR ''/'' # ?r) = ?r" if "closes (Suc 0) (s @ ''*/'')" for s
    using after_block_printed [OF that, of ?r] by simp
  show ?case unfolding split using before IH
    by (cases p) (simp_all add: legible_before_def followed_by_def after_delimited_printed after_double_printed
        line block)
qed

section \<open>Words\<close>

lemma last_char_rev: "last_char None u = (case rev u of [] \<Rightarrow> None | c # _ \<Rightarrow> Some c)"
  by (cases u rule: rev_cases) (simp_all add: last_char_def)

lemma word_edge_front:
  "outside_word (rev u) \<Longrightarrow> w \<noteq> [] \<Longrightarrow> \<forall>c \<in> set w. word_char c \<Longrightarrow> at_edge (At (last_char None u) (w @ v))"
  by (cases w) (auto simp: at_edge_def last_char_rev outside_word_def split: list.splits)

lemma last_char_word: "w \<noteq> [] \<Longrightarrow> last_char b w = Some (last w)"
  by (simp add: last_char_def)

lemma word_edge_back:
  "outside_word v \<Longrightarrow> w \<noteq> [] \<Longrightarrow> \<forall>c \<in> set w. word_char c \<Longrightarrow> at_edge (At (last_char b w) v)"
  by (auto simp: at_edge_def last_char_word outside_word_def split: list.splits)

lemma whole_word_found:
  assumes "has_word w s" and "w \<noteq> []" and "\<forall>c \<in> set w. word_char c"
  shows "rx_test (whole_word w) s"
proof -
  from assms(1) obtain u v where s: "s = u @ w @ v" and out: "outside_word (rev u)" "outside_word v"
    by (auto simp: has_word_def)
  have front: "rx_match Rx_edge (At (last_char None u) (w @ v)) (At (last_char None u) (w @ v))"
    by (rule rx_match.edge [OF word_edge_front [OF out(1) assms(2,3)]])
  have rear: "rx_match Rx_edge (At (last_char (last_char None u) w) v) (At (last_char (last_char None u) w) v)"
    by (rule rx_match.edge [OF word_edge_back [OF out(2) assms(2,3)]])
  have "rx_match (whole_word w) (At (last_char None u) (w @ v)) (At (last_char (last_char None u) w) v)"
    unfolding whole_word_def rx_cat_Cons
    by (intro exI conjI, rule front, rule rx_lit_match, rule rear) (simp add: rx_match.empty)
  with s show ?thesis unfolding rx_test_iff by blast
qed

lemma procedure_found:
  assumes "starts_word ''sp_'' s \<or> starts_word ''xp_'' s"
  shows "rx_test procedurePrefix s"
proof -
  from assms obtain w u v where w: "w \<in> {''sp_'', ''xp_''}" and s: "s = u @ w @ v" and out: "outside_word (rev u)"
    unfolding starts_word_def by blast
  have word: "w \<noteq> []" "\<forall>c \<in> set w. word_char c" using w by (auto simp: word_char_def isAsciiLower_def less_eq_char_def)
  have front: "rx_match Rx_edge (At (last_char None u) (w @ v)) (At (last_char None u) (w @ v))"
    by (rule rx_match.edge [OF word_edge_front [OF out word]])
  have name: "rx_match (rx_any [rx_lit ''sp_'', rx_lit ''xp_'']) (At (last_char None u) (w @ v))
      (At (last_char (last_char None u) w) v)"
    unfolding rx_any_iff using w rx_lit_match by auto
  have "rx_match procedurePrefix (At (last_char None u) (w @ v)) (At (last_char (last_char None u) w) v)"
    unfolding procedurePrefix_def rx_cat_Cons
    by (intro exI conjI, rule front, rule name, rule rx_match.stop) (simp add: rx_match.empty)
  with s show ?thesis unfolding rx_test_iff by blast
qed

section \<open>What the guard lets through\<close>

lemma word_char_asciiLower [simp]:
  "word_char (if isAsciiUpper c then char_of ((of_char c :: nat) + 32) else c) = word_char c"
  by (auto simp: word_char_def isAsciiUpper_code isAsciiLower_code isAsciiDigit_code)

lemma asciiLower_append [simp]: "asciiLower (s @ t) = asciiLower s @ asciiLower t"
  by (simp add: asciiLower_def)

lemma outside_word_asciiLower: "outside_word (asciiLower s) = outside_word s"
  by (cases s) (simp_all add: outside_word_def asciiLower_def)

lemma rev_asciiLower: "rev (asciiLower s) = asciiLower (rev s)"
  by (simp add: asciiLower_def rev_map)

text \<open>A place of the code text that starts a word is a place of the masked text that starts one.\<close>

lemma unglued_append: "unglued (ps @ p # q # qs) \<Longrightarrow>
    \<not> (is_identifier p \<and> is_word_code q) \<and> \<not> (is_word_code p \<and> is_identifier q)"
  by (induction ps rule: unglued.induct) auto

lemma word_piece: "word_char (code_char p) \<longleftrightarrow> is_word_code p"
  by (cases p) (auto simp: word_char_def isAsciiUpper_code isAsciiLower_code isAsciiDigit_code)

lemma masked_start:
  assumes "unglued (ps @ q # qs)" and "is_word_code q" and "outside_word (rev (code_text ps))"
  shows "outside_word (rev (masked_pieces ps))"
proof (cases ps rule: rev_cases)
  case Nil
  then show ?thesis by (simp add: masked_pieces_def outside_word_def)
next
  case (snoc ps' p)
  with assms(1) have "unglued (ps' @ p # q # qs)" by simp
  with assms(2) have "\<not> is_identifier p" using unglued_append by blast
  moreover have "\<not> word_char (code_char p)" using assms(3) snoc by (simp add: code_text_def outside_word_def)
  ultimately show ?thesis using snoc
    by (cases p) (auto simp: masked_pieces_def outside_word_def word_char_def isAsciiUpper_code isAsciiLower_code
        isAsciiDigit_code)
qed

lemma masked_end:
  assumes "unglued (ps @ q # qs)" and "is_word_code q" and "outside_word (code_text qs)"
  shows "outside_word (masked_pieces qs)"
proof (cases qs)
  case Nil
  then show ?thesis by (simp add: masked_pieces_def outside_word_def)
next
  case (Cons p qs')
  with assms(1,2) have "\<not> is_identifier p" using unglued_append [of ps q p qs'] by blast
  moreover have "\<not> word_char (code_char p)" using assms(3) Cons by (simp add: code_text_def outside_word_def)
  ultimately show ?thesis using Cons
    by (cases p) (auto simp: masked_pieces_def outside_word_def word_char_def isAsciiUpper_code isAsciiLower_code
        isAsciiDigit_code)
qed

lemma masked_word:
  "list_all is_word_code ps \<Longrightarrow> masked_pieces ps = code_text ps"
proof (induction ps)
  case (Cons p ps)
  then show ?case by (cases p) (simp_all add: masked_pieces_def code_text_def)
qed (simp add: masked_pieces_def code_text_def)

lemma code_text_split:
  assumes "asciiLower (code_text ps) = u @ w @ v" and "\<forall>c \<in> set w. word_char c"
  obtains ps1 ws ps2 where "ps = ps1 @ ws @ ps2" and "asciiLower (code_text ps1) = u"
    and "asciiLower (code_text ws) = w" and "asciiLower (code_text ps2) = v" and "list_all is_word_code ws"
proof -
  have "asciiLower (code_text ps) = map (\<lambda>p. hd (asciiLower [code_char p])) ps"
    by (simp add: asciiLower_def code_text_def)
  with assms(1) have "map (\<lambda>p. hd (asciiLower [code_char p])) ps = u @ w @ v" by simp
  then obtain ps1 rest where rest: "ps = ps1 @ rest" "u = map (\<lambda>p. hd (asciiLower [code_char p])) ps1"
    "w @ v = map (\<lambda>p. hd (asciiLower [code_char p])) rest"
    by (elim map_eq_append_conv [THEN iffD1, elim_format] exE conjE)
  from rest(3) [symmetric] obtain ws ps2 where parts: "rest = ws @ ps2"
    "w = map (\<lambda>p. hd (asciiLower [code_char p])) ws" "v = map (\<lambda>p. hd (asciiLower [code_char p])) ps2"
    by (elim map_eq_append_conv [THEN iffD1, elim_format] exE conjE)
  from rest parts have split: "ps = ps1 @ ws @ ps2"
    and m: "map (\<lambda>p. hd (asciiLower [code_char p])) ps1 = u" "map (\<lambda>p. hd (asciiLower [code_char p])) ws = w"
      "map (\<lambda>p. hd (asciiLower [code_char p])) ps2 = v" by simp_all
  have "word_char (code_char p)" if "p \<in> set ws" for p
  proof -
    have "hd (asciiLower [code_char p]) \<in> set w" using m(2) that by auto
    then show ?thesis using assms(2) by (auto simp: asciiLower_def)
  qed
  then have "list_all is_word_code ws" by (simp add: list_all_iff word_piece)
  with split m show ?thesis by (intro that) (simp_all add: asciiLower_def code_text_def comp_def)
qed

lemma masked_has_word:
  assumes "unglued ps" and "has_word w (asciiLower (code_text ps))" and "w \<noteq> []" and "\<forall>c \<in> set w. word_char c"
  shows "has_word w (asciiLower (masked_pieces ps))"
proof -
  obtain u v where "asciiLower (code_text ps) = u @ w @ v" and out: "outside_word (rev u)" "outside_word v"
    using assms(2) by (auto simp: has_word_def)
  then obtain ps1 ws ps2 where ps: "ps = ps1 @ ws @ ps2" and m: "asciiLower (code_text ps1) = u"
    "asciiLower (code_text ws) = w" "asciiLower (code_text ps2) = v" and word: "list_all is_word_code ws"
    using code_text_split assms(4) by metis
  from m(2) assms(3) have "ws \<noteq> []" by (auto simp: code_text_def asciiLower_def)
  then obtain q qs where q: "ws = q # qs" by (cases ws) auto
  obtain qs' z where z: "ws = qs' @ [z]" using \<open>ws \<noteq> []\<close> by (cases ws rule: rev_cases) auto
  have "outside_word (rev (code_text ps1))" "outside_word (code_text ps2)"
    using out m by (metis outside_word_asciiLower rev_asciiLower)+
  moreover have "unglued (ps1 @ q # (qs @ ps2))" "is_word_code q" using assms(1) word by (simp_all add: ps q)
  moreover have "unglued ((ps1 @ qs') @ z # ps2)" "is_word_code z" using assms(1) word by (simp_all add: ps z)
  ultimately have "outside_word (rev (masked_pieces ps1))" "outside_word (masked_pieces ps2)"
    using masked_start masked_end by blast+
  moreover have "masked_pieces ps = masked_pieces ps1 @ masked_pieces ws @ masked_pieces ps2"
    by (simp add: ps masked_pieces_def)
  ultimately show ?thesis unfolding has_word_def
    by (intro exI [of _ "asciiLower (masked_pieces ps1)"] exI [of _ "asciiLower (masked_pieces ps2)"])
      (simp add: masked_word [OF word] m rev_asciiLower outside_word_asciiLower)
qed

lemma masked_starts_word:
  assumes "unglued ps" and "starts_word w (asciiLower (code_text ps))" and "w \<noteq> []" and "\<forall>c \<in> set w. word_char c"
  shows "starts_word w (asciiLower (masked_pieces ps))"
proof -
  obtain u v where "asciiLower (code_text ps) = u @ w @ v" and out: "outside_word (rev u)"
    using assms(2) by (auto simp: starts_word_def)
  then obtain ps1 ws ps2 where ps: "ps = ps1 @ ws @ ps2" and m: "asciiLower (code_text ps1) = u"
    "asciiLower (code_text ws) = w" "asciiLower (code_text ps2) = v" and word: "list_all is_word_code ws"
    using code_text_split assms(4) by metis
  from m(2) assms(3) obtain q qs where q: "ws = q # qs" by (cases ws) (auto simp: code_text_def asciiLower_def)
  have "outside_word (rev (code_text ps1))" using out m by (metis outside_word_asciiLower rev_asciiLower)
  moreover have "unglued (ps1 @ q # (qs @ ps2))" "is_word_code q" using assms(1) word by (simp_all add: ps q)
  ultimately have "outside_word (rev (masked_pieces ps1))" using masked_start by blast
  moreover have "masked_pieces ps = masked_pieces ps1 @ masked_pieces ws @ masked_pieces ps2"
    by (simp add: ps masked_pieces_def)
  ultimately show ?thesis unfolding starts_word_def
    by (intro exI [of _ "asciiLower (masked_pieces ps1)"] exI [of _ "asciiLower (masked_pieces ps2)"])
      (simp add: masked_word [OF word] m rev_asciiLower outside_word_asciiLower)
qed

lemma forbidden_words: "w \<in> set forbidden \<Longrightarrow> w \<noteq> [] \<and> (\<forall>c \<in> set w. word_char c)"
proof -
  have "list_all (\<lambda>w. w \<noteq> [] \<and> list_all word_char w) forbidden" by code_simp
  then show "w \<in> set forbidden \<Longrightarrow> w \<noteq> [] \<and> (\<forall>c \<in> set w. word_char c)" by (simp add: list_all_iff)
qed

lemma readOnlyGuard_Allow:
  assumes "readOnlyGuard sql = Allow s"
  shows "s = sql" and "\<exists>p. statements_of (mask sql) = [p]"
    and "first_word (asciiLower (mask sql)) \<in> {Some ''select'', Some ''with''}"
    and "w \<in> set forbidden \<Longrightarrow> \<not> rx_test (whole_word w) (asciiLower (mask sql))"
    and "\<not> rx_test procedurePrefix (asciiLower (mask sql))"
proof -
  let ?m = "asciiLower (mask sql)"
  have all: "statements_of (mask sql) \<noteq> [] \<and> \<not> 1 < length (statements_of (mask sql))
    \<and> (first_word ?m = Some ''select'' \<or> first_word ?m = Some ''with'')
    \<and> List.find (\<lambda>word. rx_test (whole_word word) ?m) forbidden = None \<and> \<not> rx_test procedurePrefix ?m \<and> s = sql"
    using assms by (auto simp: readOnlyGuard_def normalise_def Let_def split: if_splits option.splits)
  then show "s = sql" "first_word ?m \<in> {Some ''select'', Some ''with''}" "\<not> rx_test procedurePrefix ?m" by auto
  show "\<exists>p. statements_of (mask sql) = [p]" using all by (cases "statements_of (mask sql)") auto
  show "w \<in> set forbidden \<Longrightarrow> \<not> rx_test (whole_word w) ?m" using all by (auto simp: find_None_iff)
qed

text \<open>
  C18: A statement the guard lets through is passed on unchanged and only reads: whatever its literals,
  delimited identifiers and comments hold, its code has no keyword of the forbidden list as a word, in
  any letter case, and names no \<open>sp_\<close> or \<open>xp_\<close> procedure; the masked text is one statement that begins
  with SELECT or WITH. The pieces of the statement must be legible, and no delimited identifier may touch
  a word of the code.
\<close>

theorem sql_guard_reads_only:
  assumes "legible ps" and "unglued ps" and "readOnlyGuard (print_pieces ps) = Allow s"
  shows "s = print_pieces ps
    \<and> list_all (\<lambda>w. \<not> has_word w (asciiLower (code_text ps))) forbidden
    \<and> \<not> starts_word ''sp_'' (asciiLower (code_text ps)) \<and> \<not> starts_word ''xp_'' (asciiLower (code_text ps))
    \<and> length (statements_of (masked_pieces ps)) = 1
    \<and> first_word (asciiLower (masked_pieces ps)) \<in> {Some ''select'', Some ''with''}"
proof -
  note allow = readOnlyGuard_Allow [OF assms(3)] and m = mask_pieces [OF assms(1)]
  have "\<not> has_word w (asciiLower (code_text ps))" if "w \<in> set forbidden" for w
    using allow(4) [OF that] masked_has_word [OF assms(2), of w] whole_word_found forbidden_words [OF that] m by auto
  moreover have "\<forall>c \<in> set ''sp_''. word_char c" "\<forall>c \<in> set ''xp_''. word_char c" by code_simp+
  then have "\<not> starts_word ''sp_'' (asciiLower (code_text ps))" "\<not> starts_word ''xp_'' (asciiLower (code_text ps))"
    using allow(5) masked_starts_word [OF assms(2)] procedure_found m by auto
  ultimately show ?thesis using allow(1,2,3) m by (auto simp: list_all_iff)
qed

definition sample_statement :: "sql_piece list" where
  "sample_statement = map Code ''SELECT '' @ [Literal (''drop me; it'' @ quote_char # ''s gone'')] @ map Code '' as x, '' @ [Bracketed ''delete'']
     @ map Code '' from t '' @ [Block_comment '' /* insert */ now ''] @ map Code '';'' @ [Line_comment '' update'']"

lemma sql_guard_reads_only_witness:
  "list_all (\<lambda>w. \<not> has_word w (asciiLower (code_text sample_statement))) forbidden"
proof -
  have h: "legible sample_statement" "unglued sample_statement"
    "readOnlyGuard (print_pieces sample_statement) = Allow (print_pieces sample_statement)"
    by code_simp+
  show ?thesis using sql_guard_reads_only [OF h] by blast
qed

text \<open>
  A delimited identifier that touches a word of the code is masked into that word, so the keyword before it
  is not seen: \<open>into[copy]\<close> creates a table and \<open>delete[t]\<close> needs no semicolon before it.
\<close>

theorem glued_keyword_admitted:
  "readOnlyGuard ''select * into[copy] from t'' = Allow ''select * into[copy] from t''
   \<and> readOnlyGuard ''select 1 delete[t]'' = Allow ''select 1 delete[t]''
   \<and> readOnlyGuard ''select * into [copy] from t'' \<noteq> Allow ''select * into [copy] from t''"
  by code_simp

end
