(* ===== verification/Pool.thy ===== *)
theory Pool
  imports Prelude "HOL-Library.Multiset"
begin

text \<open>
  The connection pool of the database servers (\<open>packages/cores/db-core/src/pool/pool.ts\<close>) as a state
  machine over the calls of \<open>acquire\<close>. Each call is an ask with a state of its own; what happens between
  two turns of the event loop is one step. Connections are numbered in the order they are opened, and the
  driver decides by events whether an opening succeeds.

  A waiter object is the number of its ask in \<open>po_waiters\<close>; its \<open>settled\<close> flag is set exactly when the ask
  is no longer \<open>Queued\<close>, so a cancelled waiter stays in the queue, as in the source.
\<close>

section \<open>State\<close>

record pool_limits =
  pl_maxConnections :: nat
  pl_maxQueueDepth :: nat

datatype pool_error = Pool_closed | Cancelled_before | Connection_failed | Queue_full | Cancelled_waiting | Shutting_down

record lease =
  ls_connection :: nat
  ls_generation :: nat
  ls_released :: bool
  ls_poisoned :: bool

datatype pool_ask = Opening | Queued | Handed nat | Leased lease | Denied pool_error

record pool =
  po_idle :: "nat list"
  po_waiters :: "nat list"
  po_opened :: int
  po_generation :: nat
  po_closed :: bool
  po_asks :: "pool_ask list"
  po_destroyed :: "nat list"
  po_next :: nat

definition pool_start :: pool where
  "pool_start = \<lparr>po_idle = [], po_waiters = [], po_opened = 0, po_generation = 0, po_closed = False,
     po_asks = [], po_destroyed = [], po_next = 0\<rparr>"

section \<open>Operations\<close>

definition set_ask :: "nat \<Rightarrow> pool_ask \<Rightarrow> pool \<Rightarrow> pool" where
  "set_ask i a p = p\<lparr>po_asks := (po_asks p)[i := a]\<rparr>"

definition leaseFor :: "nat \<Rightarrow> pool \<Rightarrow> pool_ask" where
  "leaseFor connection p = Leased \<lparr>ls_connection = connection, ls_generation = po_generation p,
     ls_released = False, ls_poisoned = False\<rparr>"

text \<open>The loop of \<open>handOff\<close>: the first waiter that is not settled, and the waiters after it.\<close>

fun next_waiter :: "pool_ask list \<Rightarrow> nat list \<Rightarrow> nat option \<times> nat list" where
  "next_waiter as [] = (None, [])"
| "next_waiter as (i # ws) = (if as ! i = Queued then (Some i, ws) else next_waiter as ws)"

definition handOff :: "nat \<Rightarrow> pool \<Rightarrow> bool \<times> pool" where
  "handOff connection p = (case next_waiter (po_asks p) (po_waiters p) of
     (None, ws) \<Rightarrow> (False, p\<lparr>po_waiters := ws\<rparr>)
   | (Some i, ws) \<Rightarrow> (True, set_ask i (Handed connection) (p\<lparr>po_waiters := ws\<rparr>)))"

definition discard :: "nat \<Rightarrow> pool \<Rightarrow> pool" where
  "discard connection p = p\<lparr>po_opened := po_opened p - 1, po_generation := Suc (po_generation p),
     po_destroyed := po_destroyed p @ [connection]\<rparr>"

definition release :: "nat \<Rightarrow> pool \<Rightarrow> pool" where
  "release i p = (case po_asks p ! i of
     Leased l \<Rightarrow>
       if ls_released l then p
       else (let p' = set_ask i (Leased (l\<lparr>ls_released := True\<rparr>)) p in
         if ls_poisoned l \<or> po_closed p then discard (ls_connection l) p'
         else (case handOff (ls_connection l) p' of
             (True, p'') \<Rightarrow> p''
           | (False, p'') \<Rightarrow> p''\<lparr>po_idle := po_idle p'' @ [ls_connection l]\<rparr>))
   | _ \<Rightarrow> p)"

definition quarantine :: "nat \<Rightarrow> pool \<Rightarrow> pool" where
  "quarantine i p = (case po_asks p ! i of
     Leased l \<Rightarrow> set_ask i (Leased (l\<lparr>ls_poisoned := True\<rparr>)) p | _ \<Rightarrow> p)"

definition new_ask :: "pool_ask \<Rightarrow> pool \<Rightarrow> pool" where
  "new_ask a p = p\<lparr>po_asks := po_asks p @ [a]\<rparr>"

text \<open>\<open>pool_acquire\<close> up to its first wait.\<close>

definition pool_acquire :: "pool_limits \<Rightarrow> bool \<Rightarrow> pool \<Rightarrow> pool" where
  "pool_acquire limits aborted p =
     (if po_closed p then new_ask (Denied Pool_closed) p
      else if aborted then new_ask (Denied Cancelled_before) p
      else if po_idle p \<noteq> [] then
        new_ask (leaseFor (last (po_idle p)) p) (p\<lparr>po_idle := butlast (po_idle p)\<rparr>)
      else if po_opened p < int (pl_maxConnections limits) then
        new_ask Opening (p\<lparr>po_opened := po_opened p + 1\<rparr>)
      else if length (po_waiters p) \<ge> pl_maxQueueDepth limits then new_ask (Denied Queue_full) p
      else new_ask Queued (p\<lparr>po_waiters := po_waiters p @ [length (po_asks p)]\<rparr>))"

fun deny_waiters :: "nat list \<Rightarrow> pool_ask list \<Rightarrow> pool_ask list" where
  "deny_waiters [] as = as"
| "deny_waiters (i # ws) as = deny_waiters ws (if as ! i = Queued then as[i := Denied Shutting_down] else as)"

text \<open>\<open>close\<close> rejects the waiters that are not settled and destroys the idle connections.\<close>

definition close_pool :: "pool \<Rightarrow> pool" where
  "close_pool p = p\<lparr>po_closed := True,
     po_asks := deny_waiters (po_waiters p) (po_asks p), po_waiters := [],
     po_opened := po_opened p - int (length (po_idle p)), po_idle := [],
     po_destroyed := po_destroyed p @ po_idle p\<rparr>"

section \<open>Steps\<close>

text \<open>
  \<open>Open_done\<close> and \<open>Open_fails\<close> are the driver's answers, \<open>Resume\<close> the turn in which an ask that was handed a
  connection makes its lease, \<open>Abort_ask\<close> the signal of a waiting call. An event that does not apply does
  nothing.
\<close>

datatype pool_event =
    Acquire bool
  | Open_done nat
  | Open_fails nat
  | Resume nat
  | Abort_ask nat
  | Quarantine nat
  | Release nat
  | Close_pool

definition pool_step :: "pool_limits \<Rightarrow> pool_event \<Rightarrow> pool \<Rightarrow> pool" where
  "pool_step limits e p = (case e of
     Acquire aborted \<Rightarrow> pool_acquire limits aborted p
   | Open_done i \<Rightarrow> if i < length (po_asks p) \<and> po_asks p ! i = Opening
       then set_ask i (leaseFor (po_next p) p) (p\<lparr>po_next := Suc (po_next p)\<rparr>) else p
   | Open_fails i \<Rightarrow> if i < length (po_asks p) \<and> po_asks p ! i = Opening
       then set_ask i (Denied Connection_failed) (p\<lparr>po_opened := po_opened p - 1\<rparr>) else p
   | Resume i \<Rightarrow> if i < length (po_asks p)
       then (case po_asks p ! i of Handed c \<Rightarrow> set_ask i (leaseFor c p) p | _ \<Rightarrow> p) else p
   | Abort_ask i \<Rightarrow> if i < length (po_asks p) \<and> po_asks p ! i = Queued
       then set_ask i (Denied Cancelled_waiting) p else p
   | Quarantine i \<Rightarrow> if i < length (po_asks p) then quarantine i p else p
   | Release i \<Rightarrow> if i < length (po_asks p) then release i p else p
   | Close_pool \<Rightarrow> close_pool p)"

definition pool_run :: "pool_limits \<Rightarrow> pool_event list \<Rightarrow> pool" where
  "pool_run limits es = fold (pool_step limits) es pool_start"

section \<open>What holds in every state\<close>

text \<open>The connection an ask holds: one handed to it, or that of a lease not yet released.\<close>

definition held_by :: "pool_ask \<Rightarrow> nat list" where
  "held_by a = (case a of Handed c \<Rightarrow> [c] | Leased l \<Rightarrow> if ls_released l then [] else [ls_connection l] | _ \<Rightarrow> [])"

definition held :: "pool_ask list \<Rightarrow> nat multiset" where
  "held as = sum_list (map (\<lambda>a. mset (held_by a)) as)"

definition openings :: "pool_ask list \<Rightarrow> nat" where
  "openings as = sum_list (map (\<lambda>a. if a = Opening then 1 else 0) as)"

text \<open>Every connection is in one place at most, and only opened connections are anywhere.\<close>

definition connections_ok :: "pool \<Rightarrow> bool" where
  "connections_ok p = (\<forall>c. count (mset (po_idle p) + held (po_asks p) + mset (po_destroyed p)) c
     \<le> (if c < po_next p then 1 else 0))"

definition count_ok :: "pool_limits \<Rightarrow> pool \<Rightarrow> bool" where
  "count_ok limits p = (po_opened p = int (length (po_idle p) + size (held (po_asks p)) + openings (po_asks p))
     \<and> po_opened p \<le> int (pl_maxConnections limits))"

definition queue_ok :: "pool_limits \<Rightarrow> pool \<Rightarrow> bool" where
  "queue_ok limits p =
     ((\<forall>i < length (po_asks p). po_asks p ! i = Queued \<longrightarrow> i \<in> set (po_waiters p))
      \<and> (\<forall>i \<in> set (po_waiters p). i < length (po_asks p))
      \<and> (po_idle p \<noteq> [] \<longrightarrow> po_waiters p = [])
      \<and> length (po_waiters p) \<le> pl_maxQueueDepth limits
      \<and> (po_closed p \<longrightarrow> po_idle p = [] \<and> po_waiters p = []))"

definition pool_ok :: "pool_limits \<Rightarrow> pool \<Rightarrow> bool" where
  "pool_ok limits p = (connections_ok p \<and> count_ok limits p \<and> queue_ok limits p)"

lemma sum_list_update_add:
  "i < length xs \<Longrightarrow> sum_list (map f (xs[i := x])) + f (xs ! i) = sum_list (map f xs) + (f x :: 'b :: comm_monoid_add)"
proof (induction xs arbitrary: i)
  case (Cons y ys)
  then show ?case by (cases i) (auto simp: ac_simps)
qed simp

lemma held_update: "i < length as \<Longrightarrow> held (as[i := a]) + mset (held_by (as ! i)) = held as + mset (held_by a)"
  unfolding held_def by (rule sum_list_update_add)

lemma openings_update:
  "i < length as \<Longrightarrow> openings (as[i := a]) + (if as ! i = Opening then 1 else 0) = openings as + (if a = Opening then 1 else 0)"
  unfolding openings_def by (rule sum_list_update_add)

lemma held_snoc [simp]: "held (as @ [a]) = held as + mset (held_by a)"
  by (simp add: held_def)

lemma openings_snoc [simp]: "openings (as @ [a]) = openings as + (if a = Opening then 1 else 0)"
  by (simp add: openings_def)

text \<open>An update that moves nothing: the ask held nothing before and after, and was not opening.\<close>

lemma update_inert:
  assumes "i < length as" and "held_by (as ! i) = held_by a" and "(as ! i = Opening) = (a = Opening)"
  shows "held (as[i := a]) = held as" and "openings (as[i := a]) = openings as"
  using held_update [OF assms(1), of a] openings_update [OF assms(1), of a] assms(2,3) by auto

lemma next_waiter_None: "next_waiter as ws = (None, ws') \<Longrightarrow> ws' = [] \<and> (\<forall>i \<in> set ws. as ! i \<noteq> Queued)"
  by (induction ws) (auto split: if_splits)

lemma next_waiter_Some:
  "next_waiter as ws = (Some i, ws') \<Longrightarrow>
   \<exists>pre. ws = pre @ i # ws' \<and> as ! i = Queued \<and> (\<forall>j \<in> set pre. as ! j \<noteq> Queued)"
proof (induction ws)
  case (Cons j ws)
  show ?case
  proof (cases "as ! j = Queued")
    case True
    with Cons.prems show ?thesis by (intro exI [of _ "[]"]) simp
  next
    case False
    with Cons obtain pre where "ws = pre @ i # ws'" "as ! i = Queued" "\<forall>j \<in> set pre. as ! j \<noteq> Queued" by auto
    with False show ?thesis by (intro exI [of _ "j # pre"]) simp
  qed
qed simp

lemma pool_ok_start: "pool_ok limits pool_start"
  by (simp add: pool_ok_def connections_ok_def count_ok_def queue_ok_def pool_start_def held_def openings_def)

lemma new_ask_denied:
  "pool_ok limits p \<Longrightarrow> pool_ok limits (new_ask (Denied e) p)"
  by (auto simp: pool_ok_def connections_ok_def count_ok_def queue_ok_def new_ask_def held_by_def nth_append less_Suc_eq)

lemma acquire_idle:
  assumes "pool_ok limits p" and "po_idle p \<noteq> []"
  shows "pool_ok limits (new_ask (leaseFor (last (po_idle p)) p) (p\<lparr>po_idle := butlast (po_idle p)\<rparr>))"
proof -
  obtain xs x where idle: "po_idle p = xs @ [x]" using assms(2) by (cases "po_idle p" rule: rev_cases) auto
  show ?thesis using assms(1)
    by (simp add: pool_ok_def connections_ok_def count_ok_def queue_ok_def new_ask_def leaseFor_def held_by_def idle
        nth_append less_Suc_eq) auto
qed

lemma acquire_opening:
  "pool_ok limits p \<Longrightarrow> po_idle p = [] \<Longrightarrow> po_opened p < int (pl_maxConnections limits) \<Longrightarrow>
   pool_ok limits (new_ask Opening (p\<lparr>po_opened := po_opened p + 1\<rparr>))"
  by (auto simp: pool_ok_def connections_ok_def count_ok_def queue_ok_def new_ask_def held_by_def nth_append less_Suc_eq)

lemma acquire_queued:
  "pool_ok limits p \<Longrightarrow> po_idle p = [] \<Longrightarrow> \<not> po_closed p \<Longrightarrow> length (po_waiters p) < pl_maxQueueDepth limits \<Longrightarrow>
   pool_ok limits (new_ask Queued (p\<lparr>po_waiters := po_waiters p @ [length (po_asks p)]\<rparr>))"
  by (auto simp: pool_ok_def connections_ok_def count_ok_def queue_ok_def new_ask_def held_by_def nth_append less_Suc_eq)

lemma acquire_ok: "pool_ok limits p \<Longrightarrow> pool_ok limits (pool_acquire limits aborted p)"
  unfolding pool_acquire_def by (simp add: new_ask_denied acquire_idle acquire_opening acquire_queued)

text \<open>Moving what ask \<open>i\<close> holds.\<close>

lemma set_ask_fields [simp]:
  "po_idle (set_ask i a p) = po_idle p" "po_waiters (set_ask i a p) = po_waiters p"
  "po_opened (set_ask i a p) = po_opened p" "po_generation (set_ask i a p) = po_generation p"
  "po_closed (set_ask i a p) = po_closed p" "po_asks (set_ask i a p) = (po_asks p)[i := a]"
  "po_destroyed (set_ask i a p) = po_destroyed p" "po_next (set_ask i a p) = po_next p"
  by (simp_all add: set_ask_def)

lemma nth_update: "xs[i := a] ! j = (if i = j \<and> i < length xs then a else xs ! j)"
  by (cases "i < length xs") (simp_all add: nth_list_update list_update_beyond)

lemma queue_ok_set_ask: "queue_ok limits p \<Longrightarrow> a \<noteq> Queued \<Longrightarrow> queue_ok limits (set_ask i a p)"
  by (auto simp: queue_ok_def nth_update)

lemma pool_ok_inert:
  assumes "pool_ok limits p" and "i < length (po_asks p)" and "held_by (po_asks p ! i) = held_by a"
    and "(po_asks p ! i = Opening) = (a = Opening)" and "a \<noteq> Queued"
  shows "pool_ok limits (set_ask i a p)"
  using assms(1) update_inert [OF assms(2-4)] queue_ok_set_ask [OF _ assms(5)]
  by (simp add: pool_ok_def connections_ok_def count_ok_def)

lemma open_done_ok:
  assumes "pool_ok limits p" and "i < length (po_asks p)" and "po_asks p ! i = Opening"
  shows "pool_ok limits (set_ask i (leaseFor (po_next p) p) (p\<lparr>po_next := Suc (po_next p)\<rparr>))"
proof -
  let ?a = "leaseFor (po_next p) p"
  have h: "held ((po_asks p)[i := ?a]) = add_mset (po_next p) (held (po_asks p))"
    using held_update [OF assms(2), of ?a] assms(3) by (simp add: leaseFor_def held_by_def)
  have o: "openings ((po_asks p)[i := ?a]) + 1 = openings (po_asks p)"
    using openings_update [OF assms(2), of ?a] assms(3) by (simp add: leaseFor_def)
  have c: "count (mset (po_idle p) + held (po_asks p) + mset (po_destroyed p)) c \<le> (if c < po_next p then 1 else 0)" for c
    using assms(1) by (simp add: pool_ok_def connections_ok_def)
  have "connections_ok (set_ask i ?a (p\<lparr>po_next := Suc (po_next p)\<rparr>))"
    unfolding connections_ok_def
  proof
    fix x
    show "count (mset (po_idle (set_ask i ?a (p\<lparr>po_next := Suc (po_next p)\<rparr>)))
        + held (po_asks (set_ask i ?a (p\<lparr>po_next := Suc (po_next p)\<rparr>)))
        + mset (po_destroyed (set_ask i ?a (p\<lparr>po_next := Suc (po_next p)\<rparr>)))) x
      \<le> (if x < po_next (set_ask i ?a (p\<lparr>po_next := Suc (po_next p)\<rparr>)) then 1 else 0)"
      using c [of x] by (cases "x = po_next p") (simp_all add: h less_Suc_eq)
  qed
  moreover have "count_ok limits (set_ask i ?a (p\<lparr>po_next := Suc (po_next p)\<rparr>))"
    using assms(1) o by (simp add: pool_ok_def count_ok_def h)
  moreover have "queue_ok limits (set_ask i ?a (p\<lparr>po_next := Suc (po_next p)\<rparr>))"
    using assms(1) by (intro queue_ok_set_ask) (simp_all add: pool_ok_def queue_ok_def leaseFor_def)
  ultimately show ?thesis by (simp add: pool_ok_def)
qed

lemma open_fails_ok:
  assumes "pool_ok limits p" and "i < length (po_asks p)" and "po_asks p ! i = Opening"
  shows "pool_ok limits (set_ask i (Denied e) (p\<lparr>po_opened := po_opened p - 1\<rparr>))"
proof -
  have h: "held ((po_asks p)[i := Denied e]) = held (po_asks p)"
    using held_update [OF assms(2), of "Denied e"] assms(3) by (simp add: held_by_def)
  have o: "openings ((po_asks p)[i := Denied e]) + 1 = openings (po_asks p)"
    using openings_update [OF assms(2), of "Denied e"] assms(3) by simp
  have "queue_ok limits (set_ask i (Denied e) (p\<lparr>po_opened := po_opened p - 1\<rparr>))"
    using assms(1) by (intro queue_ok_set_ask) (simp_all add: pool_ok_def queue_ok_def)
  then show ?thesis using assms(1) o by (simp add: pool_ok_def connections_ok_def count_ok_def h)
qed

lemma discard_ok:
  assumes "connections_ok p" and "count_ok limits p" and "queue_ok limits p"
    and "i < length (po_asks p)" and "po_asks p ! i = Leased l" and "\<not> ls_released l"
  shows "pool_ok limits (discard (ls_connection l) (set_ask i (Leased (l\<lparr>ls_released := True\<rparr>)) p))"
proof -
  let ?a = "Leased (l\<lparr>ls_released := True\<rparr>)"
  have h: "add_mset (ls_connection l) (held ((po_asks p)[i := ?a])) = held (po_asks p)"
    using held_update [OF assms(4), of ?a] assms(5,6) by (simp add: held_by_def)
  have o: "openings ((po_asks p)[i := ?a]) = openings (po_asks p)"
    using openings_update [OF assms(4), of ?a] assms(5) by simp
  have "queue_ok limits (set_ask i ?a p)" by (rule queue_ok_set_ask [OF assms(3)]) simp
  then show ?thesis using assms(1,2) o
    by (auto simp: pool_ok_def connections_ok_def count_ok_def queue_ok_def discard_def simp flip: h)
qed

lemma released_idle_ok:
  assumes "pool_ok limits p" and "i < length (po_asks p)" and "po_asks p ! i = Leased l" and "\<not> ls_released l"
    and "\<not> po_closed p" and "\<forall>j < length (po_asks p). po_asks p ! j \<noteq> Queued"
  shows "pool_ok limits ((set_ask i (Leased (l\<lparr>ls_released := True\<rparr>)) p)\<lparr>po_waiters := [],
    po_idle := po_idle p @ [ls_connection l]\<rparr>)"
proof -
  let ?a = "Leased (l\<lparr>ls_released := True\<rparr>)"
  have h: "add_mset (ls_connection l) (held ((po_asks p)[i := ?a])) = held (po_asks p)"
    using held_update [OF assms(2), of ?a] assms(3,4) by (simp add: held_by_def)
  have o: "openings ((po_asks p)[i := ?a]) = openings (po_asks p)"
    using openings_update [OF assms(2), of ?a] assms(3) by simp
  show ?thesis using assms(1,5,6) o
    by (auto simp: pool_ok_def connections_ok_def count_ok_def queue_ok_def nth_update simp flip: h)
qed

lemma handed_ok:
  assumes "pool_ok limits p" and "i < length (po_asks p)" and "po_asks p ! i = Leased l" and "\<not> ls_released l"
    and "j < length (po_asks p)" and "po_asks p ! j = Queued" and "po_waiters p = pre @ j # ws"
    and "\<forall>k \<in> set pre. po_asks p ! k \<noteq> Queued"
  shows "pool_ok limits (set_ask j (Handed (ls_connection l))
    ((set_ask i (Leased (l\<lparr>ls_released := True\<rparr>)) p)\<lparr>po_waiters := ws\<rparr>))"
proof -
  let ?a = "Leased (l\<lparr>ls_released := True\<rparr>)"
  have ij: "i \<noteq> j" using assms(3,6) by auto
  have h1: "add_mset (ls_connection l) (held ((po_asks p)[i := ?a])) = held (po_asks p)"
    using held_update [OF assms(2), of ?a] assms(3,4) by (simp add: held_by_def)
  have "held ((po_asks p)[i := ?a, j := Handed (ls_connection l)]) = add_mset (ls_connection l) (held ((po_asks p)[i := ?a]))"
    using held_update [of j "(po_asks p)[i := ?a]" "Handed (ls_connection l)"] assms(5,6) ij by (simp add: held_by_def)
  with h1 have h: "held ((po_asks p)[i := ?a, j := Handed (ls_connection l)]) = held (po_asks p)" by simp
  have o: "openings ((po_asks p)[i := ?a, j := Handed (ls_connection l)]) = openings (po_asks p)"
    using openings_update [OF assms(2), of ?a] openings_update [of j "(po_asks p)[i := ?a]" "Handed (ls_connection l)"]
      assms(3,5,6) ij by simp
  have "queue_ok limits (set_ask j (Handed (ls_connection l)) ((set_ask i ?a p)\<lparr>po_waiters := ws\<rparr>))"
    using assms(1,7,8) by (auto simp: pool_ok_def queue_ok_def nth_update)
  then show ?thesis using assms(1) o by (simp add: pool_ok_def connections_ok_def count_ok_def h)
qed

lemma release_ok:
  assumes ok: "pool_ok limits p" and i: "i < length (po_asks p)"
  shows "pool_ok limits (release i p)"
proof (cases "\<exists>l. po_asks p ! i = Leased l \<and> \<not> ls_released l")
  case False
  then have "release i p = p" by (auto simp: release_def split: pool_ask.splits)
  with ok show ?thesis by simp
next
  case True
  then obtain l where l: "po_asks p ! i = Leased l" "\<not> ls_released l" by blast
  let ?p = "set_ask i (Leased (l\<lparr>ls_released := True\<rparr>)) p"
  show ?thesis
  proof (cases "ls_poisoned l \<or> po_closed p")
    case True
    then have "release i p = discard (ls_connection l) ?p" using l by (simp add: release_def)
    moreover have "connections_ok p" "count_ok limits p" "queue_ok limits p" using ok by (simp_all add: pool_ok_def)
    then have "pool_ok limits (discard (ls_connection l) ?p)" by (rule discard_ok [OF _ _ _ i l])
    ultimately show ?thesis by simp
  next
    case healthy: False
    obtain found ws where nw: "next_waiter (po_asks ?p) (po_waiters p) = (found, ws)" by fastforce
    show ?thesis
    proof (cases found)
      case None
      with nw next_waiter_None have none: "ws = []" "\<forall>j \<in> set (po_waiters p). po_asks ?p ! j \<noteq> Queued" by blast+
      have "\<forall>j < length (po_asks p). po_asks p ! j \<noteq> Queued"
      proof (intro allI impI notI)
        fix j assume j: "j < length (po_asks p)" "po_asks p ! j = Queued"
        then have "j \<in> set (po_waiters p)" using ok by (simp add: pool_ok_def queue_ok_def)
        moreover have "i \<noteq> j" using j(2) l(1) by auto
        ultimately show False using none(2) j(2) by (auto simp: nth_update)
      qed
      then have "pool_ok limits (?p\<lparr>po_waiters := [], po_idle := po_idle p @ [ls_connection l]\<rparr>)"
        using released_idle_ok [OF ok i l] healthy by blast
      moreover have "release i p = ?p\<lparr>po_waiters := [], po_idle := po_idle p @ [ls_connection l]\<rparr>"
        using l healthy nw None none(1) by (simp add: release_def handOff_def)
      ultimately show ?thesis by simp
    next
      case (Some j)
      with nw next_waiter_Some obtain pre where pre: "po_waiters p = pre @ j # ws" "po_asks ?p ! j = Queued"
        "\<forall>k \<in> set pre. po_asks ?p ! k \<noteq> Queued" by blast
      have j: "j < length (po_asks p)" using ok pre(1) by (simp add: pool_ok_def queue_ok_def)
      have q: "po_asks p ! j = Queued" using pre(2) by (auto simp: nth_update split: if_splits)
      have "\<forall>k \<in> set pre. po_asks p ! k \<noteq> Queued" using pre(3) l(1) by (auto simp: nth_update split: if_splits)
      with handed_ok [OF ok i l j q pre(1)]
      have "pool_ok limits (set_ask j (Handed (ls_connection l)) (?p\<lparr>po_waiters := ws\<rparr>))" by blast
      moreover have "release i p = set_ask j (Handed (ls_connection l)) (?p\<lparr>po_waiters := ws\<rparr>)"
        using l healthy nw Some by (simp add: release_def handOff_def)
      ultimately show ?thesis by simp
    qed
  qed
qed

lemma deny_waiters_facts:
  "\<forall>i \<in> set ws. i < length as \<Longrightarrow> length (deny_waiters ws as) = length as \<and> held (deny_waiters ws as) = held as
   \<and> openings (deny_waiters ws as) = openings as
   \<and> (deny_waiters ws as ! j = Queued \<longrightarrow> as ! j = Queued \<and> j \<notin> set ws)"
proof (induction ws arbitrary: as)
  case (Cons i ws)
  let ?as = "if as ! i = Queued then as[i := Denied Shutting_down] else as"
  have i: "i < length as" using Cons.prems by simp
  have "held ?as = held as \<and> openings ?as = openings as"
    using update_inert [OF i, of "Denied Shutting_down"] by (simp add: held_by_def)
  moreover have "?as ! j = Queued \<longrightarrow> as ! j = Queued \<and> j \<noteq> i" using i by (auto simp: nth_update)
  moreover have "length ?as = length as" by simp
  ultimately show ?case using Cons.IH [of ?as] Cons.prems by simp
qed simp

lemma close_ok: "pool_ok limits p \<Longrightarrow> pool_ok limits (close_pool p)"
proof -
  assume ok: "pool_ok limits p"
  then have "\<forall>i \<in> set (po_waiters p). i < length (po_asks p)" by (simp add: pool_ok_def queue_ok_def)
  note deny = deny_waiters_facts [OF this]
  let ?as = "po_asks (close_pool p)"
  have as: "length ?as = length (po_asks p)" "held ?as = held (po_asks p)" "openings ?as = openings (po_asks p)"
    using deny by (simp_all add: close_pool_def)
  have none: "?as ! j \<noteq> Queued" if "j < length ?as" for j
  proof
    assume "?as ! j = Queued"
    then have "po_asks p ! j = Queued" "j \<notin> set (po_waiters p)" using deny by (simp_all add: close_pool_def)
    then show False using ok that as(1) by (simp add: pool_ok_def queue_ok_def)
  qed
  have fields: "po_idle (close_pool p) = []" "po_waiters (close_pool p) = []" "po_next (close_pool p) = po_next p"
    "po_destroyed (close_pool p) = po_destroyed p @ po_idle p" "po_opened (close_pool p) = po_opened p - int (length (po_idle p))"
    by (simp_all add: close_pool_def)
  have "connections_ok (close_pool p)" using ok by (simp add: pool_ok_def connections_ok_def as fields ac_simps)
  moreover have "count_ok limits (close_pool p)" using ok by (simp add: pool_ok_def count_ok_def as fields)
  moreover have "queue_ok limits (close_pool p)" using none by (auto simp: queue_ok_def fields)
  ultimately show ?thesis by (simp add: pool_ok_def)
qed

lemma quarantine_ok: "pool_ok limits p \<Longrightarrow> i < length (po_asks p) \<Longrightarrow> pool_ok limits (quarantine i p)"
  by (auto simp: quarantine_def held_by_def intro!: pool_ok_inert split: pool_ask.splits)

lemma resume_ok:
  assumes "pool_ok limits p" and "i < length (po_asks p)" and "po_asks p ! i = Handed c"
  shows "pool_ok limits (set_ask i (leaseFor c p) p)"
  by (rule pool_ok_inert [OF assms(1,2)]) (simp_all add: assms(3) held_by_def leaseFor_def)

lemma abort_ok:
  assumes "pool_ok limits p" and "i < length (po_asks p)" and "po_asks p ! i = Queued"
  shows "pool_ok limits (set_ask i (Denied e) p)"
  by (rule pool_ok_inert [OF assms(1,2)]) (simp_all add: assms(3) held_by_def)

lemma pool_step_ok:
  assumes ok: "pool_ok limits p" shows "pool_ok limits (pool_step limits e p)"
proof (cases e)
  case (Resume i)
  show ?thesis
  proof (cases "i < length (po_asks p)")
    case True
    then show ?thesis using ok resume_ok [OF ok True] by (cases "po_asks p ! i") (simp_all add: pool_step_def Resume)
  qed (simp add: pool_step_def Resume ok)
qed (simp_all add: pool_step_def ok acquire_ok open_done_ok open_fails_ok quarantine_ok release_ok close_ok abort_ok)

lemma pool_run_ok: "pool_ok limits (pool_run limits es)"
proof -
  have "pool_ok limits (fold (pool_step limits) es p)" if "pool_ok limits p" for p
    using that by (induction es arbitrary: p) (simp_all add: pool_step_ok)
  then show ?thesis by (simp add: pool_run_def pool_ok_start)
qed

section \<open>Properties\<close>

lemma distinct_if_counted: "(\<And>c. count (mset xs) c \<le> 1) \<Longrightarrow> distinct xs"
proof (induction xs)
  case (Cons x xs)
  have "count (mset xs) c \<le> 1" for c
    by (rule order_trans [OF _ Cons.prems [of c]]) simp
  moreover have "x \<notin> set xs" using Cons.prems [of x] by (simp flip: count_mset_0_iff)
  ultimately show ?case using Cons.IH by simp
qed simp

lemma held_list: "held as = mset (concat (map held_by as))"
  by (induction as) (simp_all add: held_def)

text \<open>
  C12: After any sequence of calls, aborts, driver answers and releases, the connections that are idle, held
  or being opened number at most \<open>maxConnections\<close>; no connection is with two calls, or idle or destroyed
  while a call has it; at most \<open>maxQueueDepth\<close> calls wait, and none waits while a connection is idle.
\<close>

theorem pool_bounded_and_exclusive:
  "length (po_idle (pool_run limits es)) + length (concat (map held_by (po_asks (pool_run limits es))))
      + openings (po_asks (pool_run limits es)) \<le> pl_maxConnections limits
   \<and> distinct (po_idle (pool_run limits es) @ concat (map held_by (po_asks (pool_run limits es)))
      @ po_destroyed (pool_run limits es))
   \<and> length (po_waiters (pool_run limits es)) \<le> pl_maxQueueDepth limits
   \<and> (po_idle (pool_run limits es) = [] \<or> list_all (\<lambda>a. a \<noteq> Queued) (po_asks (pool_run limits es)))"
proof -
  let ?p = "pool_run limits es" and ?all = "\<lambda>p. po_idle p @ concat (map held_by (po_asks p)) @ po_destroyed p"
  have ok: "connections_ok ?p" "count_ok limits ?p" "queue_ok limits ?p"
    using pool_run_ok [of limits es] by (simp_all add: pool_ok_def)
  have "mset (?all ?p) = mset (po_idle ?p) + held (po_asks ?p) + mset (po_destroyed ?p)"
    by (simp add: held_list ac_simps)
  then have "count (mset (?all ?p)) c \<le> (if c < po_next ?p then 1 else 0)" for c
    using ok(1) by (simp only: connections_ok_def)
  then have "count (mset (?all ?p)) c \<le> 1" for c by (rule order_trans) simp
  then have "distinct (?all ?p)" by (rule distinct_if_counted)
  moreover have "po_idle ?p = [] \<or> list_all (\<lambda>a. a \<noteq> Queued) (po_asks ?p)"
    using ok(3) by (auto simp: queue_ok_def list_all_length)
  ultimately show ?thesis using ok(2,3) by (simp add: count_ok_def queue_ok_def held_list)
qed

text \<open>Waiters stand in the order of their calls.\<close>

definition in_order :: "pool \<Rightarrow> bool" where
  "in_order p = (sorted_wrt (<) (po_waiters p) \<and> (\<forall>i \<in> set (po_waiters p). i < length (po_asks p)))"

lemma next_waiter_suffix: "next_waiter as ws = (found, ws') \<Longrightarrow> \<exists>pre. ws = pre @ ws'"
  using next_waiter_None next_waiter_Some by (cases found) fastforce+

lemma handOff_in_order: "in_order p \<Longrightarrow> in_order (snd (handOff c p))"
proof -
  assume o: "in_order p"
  obtain found ws where nw: "next_waiter (po_asks p) (po_waiters p) = (found, ws)" by fastforce
  then obtain pre where pre: "po_waiters p = pre @ ws" using next_waiter_suffix by blast
  with o have "sorted_wrt (<) ws" "\<forall>i \<in> set ws. i < length (po_asks p)"
    by (auto simp: in_order_def sorted_wrt_append)
  with nw show ?thesis by (cases found) (simp_all add: handOff_def in_order_def)
qed

lemma release_in_order: "in_order p \<Longrightarrow> in_order (release i p)"
proof -
  assume o: "in_order p"
  have "in_order (set_ask i a p)" for a using o by (simp add: in_order_def)
  then have h: "in_order (snd (handOff c (set_ask i a p)))" for c a by (rule handOff_in_order)
  show ?thesis
  proof (cases "po_asks p ! i")
    case (Leased l)
    obtain b p' where hand: "handOff (ls_connection l) (set_ask i (Leased (l\<lparr>ls_released := True\<rparr>)) p) = (b, p')" by fastforce
    have "in_order p'" using h [of "ls_connection l" "Leased (l\<lparr>ls_released := True\<rparr>)"] hand by simp
    then show ?thesis using o Leased hand
      by (cases b) (auto simp: release_def in_order_def discard_def Let_def)
  qed (use o in \<open>simp_all add: release_def\<close>)
qed

lemma pool_step_in_order: "in_order p \<Longrightarrow> in_order (pool_step limits e p)"
proof (cases e)
  case (Acquire aborted)
  assume "in_order p"
  then show ?thesis unfolding Acquire pool_step_def
    by (auto simp: pool_acquire_def new_ask_def in_order_def sorted_wrt_append less_Suc_eq)
next
  case (Release i)
  assume "in_order p"
  then show ?thesis by (simp add: Release pool_step_def release_in_order)
next
  case (Resume i)
  assume "in_order p"
  then show ?thesis by (auto simp: Resume pool_step_def in_order_def split: pool_ask.splits)
next
  case (Quarantine i)
  assume "in_order p"
  then show ?thesis by (auto simp: Quarantine pool_step_def quarantine_def in_order_def split: pool_ask.splits)
next
  case Close_pool
  then show ?thesis by (simp add: pool_step_def close_pool_def in_order_def)
qed (simp_all add: pool_step_def in_order_def)

lemma pool_run_in_order: "in_order (pool_run limits es)"
proof -
  have "in_order (fold (pool_step limits) es p)" if "in_order p" for p
    using that by (induction es arbitrary: p) (simp_all add: pool_step_in_order)
  then show ?thesis by (simp add: pool_run_def pool_start_def in_order_def)
qed

text \<open>
  A sound connection that is released goes to the call that has waited longest: the first call that is
  still queued is handed the very connection, before any later one and before it could become idle, and
  every other call stays as it is.
\<close>

theorem pool_serves_first_waiter:
  assumes "i < length (po_asks (pool_run limits es))" and "po_asks (pool_run limits es) ! i = Leased l"
    and "\<not> ls_released l" and "\<not> ls_poisoned l" and "\<not> po_closed (pool_run limits es)"
    and "j < length (po_asks (pool_run limits es))" and "po_asks (pool_run limits es) ! j = Queued"
    and "\<forall>k < j. po_asks (pool_run limits es) ! k \<noteq> Queued"
  shows "po_asks (release i (pool_run limits es))
    = (po_asks (pool_run limits es))[i := Leased (l\<lparr>ls_released := True\<rparr>), j := Handed (ls_connection l)]"
proof -
  let ?p = "pool_run limits es"
  let ?q = "set_ask i (Leased (l\<lparr>ls_released := True\<rparr>)) ?p"
  obtain found ws where nw: "next_waiter (po_asks ?q) (po_waiters ?p) = (found, ws)" by fastforce
  have ij: "i \<noteq> j" using assms(2,7) by auto
  have queue: "queue_ok limits ?p" using pool_run_ok [of limits es] by (simp add: pool_ok_def)
  have j: "j \<in> set (po_waiters ?p)" "po_asks ?q ! j = Queued"
    using queue assms(6,7) ij by (simp_all add: queue_ok_def)
  have "found \<noteq> None"
  proof
    assume "found = None"
    with nw next_waiter_None have "\<forall>k \<in> set (po_waiters ?p). po_asks ?q ! k \<noteq> Queued" by blast
    with j show False by blast
  qed
  then obtain k where found: "found = Some k" by auto
  with nw next_waiter_Some obtain pre where pre: "po_waiters ?p = pre @ k # ws" "po_asks ?q ! k = Queued"
    "\<forall>m \<in> set pre. po_asks ?q ! m \<noteq> Queued" by blast
  have "\<not> k < j" using pre(2) assms(2,8) by (auto simp: nth_update split: if_splits)
  moreover have "\<not> j < k"
  proof
    assume "j < k"
    have order: "sorted_wrt (<) (pre @ k # ws)" using pool_run_in_order [of limits es] pre(1) by (simp add: in_order_def)
    have "j \<notin> set pre" using pre(3) j(2) by blast
    then have "j = k \<or> j \<in> set ws" using j(1) pre(1) by auto
    with order \<open>j < k\<close> show False by (auto simp: sorted_wrt_append)
  qed
  ultimately have "k = j" by simp
  then show ?thesis using nw found assms(2-5) by (simp add: release_def handOff_def)
qed

definition small_pool :: pool_limits where
  "small_pool = \<lparr>pl_maxConnections = 1, pl_maxQueueDepth = 2\<rparr>"

definition busy_pool :: "pool_event list" where
  "busy_pool = [Acquire False, Acquire False, Acquire False, Open_done 0, Abort_ask 1]"

lemma pool_serves_first_waiter_witness:
  "po_asks (release 0 (pool_run small_pool busy_pool))
   = (po_asks (pool_run small_pool busy_pool))[0 := Leased \<lparr>ls_connection = 0, ls_generation = 0, ls_released = True,
       ls_poisoned = False\<rparr>, 2 := Handed 0]"
proof -
  let ?l = "\<lparr>ls_connection = 0, ls_generation = 0, ls_released = False, ls_poisoned = False\<rparr>"
  have asks: "po_asks (pool_run small_pool busy_pool) = [Leased ?l, Denied Cancelled_waiting, Queued]" by code_simp
  have closed: "\<not> po_closed (pool_run small_pool busy_pool)" by code_simp
  have "\<forall>k < 2. [Leased ?l, Denied Cancelled_waiting, Queued] ! k \<noteq> Queued"
    by (simp add: numeral_2_eq_2 less_Suc_eq)
  then show ?thesis
    using pool_serves_first_waiter [of 0 small_pool busy_pool ?l 2] closed by (simp add: asks)
qed

section \<open>Waiters nobody serves\<close>

text \<open>
  A poisoned connection that is released is discarded, and the place it leaves is offered to nobody: here one
  connection was allowed, it was destroyed, none is open or being opened, and the second call still waits.
  Until another call comes or the waiting one gives up, no event changes that.
\<close>

definition stranded_pool :: "pool_event list" where
  "stranded_pool = [Acquire False, Open_done 0, Acquire False, Quarantine 0, Release 0]"

fun new_call :: "pool_event \<Rightarrow> bool" where
  "new_call (Acquire aborted) = True"
| "new_call (Abort_ask i) = True"
| "new_call Close_pool = True"
| "new_call _ = False"

lemma stranded_state:
  "pool_run small_pool stranded_pool = \<lparr>po_idle = [], po_waiters = [1], po_opened = 0, po_generation = 1,
     po_closed = False, po_asks = [Leased \<lparr>ls_connection = 0, ls_generation = 0, ls_released = True, ls_poisoned = True\<rparr>,
     Queued], po_destroyed = [0], po_next = 1\<rparr>"
  by code_simp

lemma stranded_step:
  assumes "\<not> new_call e"
  shows "pool_step limits e (pool_run small_pool stranded_pool) = pool_run small_pool stranded_pool"
  unfolding stranded_state using assms
  by (cases e) (auto simp: pool_step_def set_ask_def release_def quarantine_def nth_Cons split: pool_ask.splits nat.splits)

theorem stranded_waiter:
  "po_opened (pool_run small_pool (stranded_pool @ filter (\<lambda>e. \<not> new_call e) es)) = 0
   \<and> po_asks (pool_run small_pool (stranded_pool @ filter (\<lambda>e. \<not> new_call e) es)) ! 1 = Queued"
proof -
  have "fold (pool_step small_pool) (filter (\<lambda>e. \<not> new_call e) es) (pool_run small_pool stranded_pool)
      = pool_run small_pool stranded_pool"
    by (induction es) (simp_all add: stranded_step)
  then have "pool_run small_pool (stranded_pool @ filter (\<lambda>e. \<not> new_call e) es) = pool_run small_pool stranded_pool"
    by (simp add: pool_run_def)
  then show ?thesis by (simp add: stranded_state)
qed

text \<open>A call that was cancelled keeps its place in the queue: nobody waits, and the next call is refused.\<close>

lemma cancelled_waiter_fills_queue:
  "po_asks (pool_run \<lparr>pl_maxConnections = 1, pl_maxQueueDepth = 1\<rparr>
      [Acquire False, Open_done 0, Acquire False, Abort_ask 1, Acquire False]) ! 2 = Denied Queue_full"
  by code_simp

end
