(* ===== verification/Cell_Range.thy ===== *)
theory Cell_Range
  imports Sql_Guard
begin

text \<open>
  A1 references of the spreadsheet server (\<open>packages/servers/excel-mcp/src/grid/range.ts\<close>): column
  letters, cell references, ranges and their clamp to the used range. Rows and columns are natural
  numbers; the regular expressions are written out as conditions on the text.
\<close>

record grid_bounds =
  gb_top :: nat
  gb_left :: nat
  gb_bottom :: nat
  gb_right :: nat

datatype range_code = Invalid_range | Range_outside_used_range

text \<open>Code, message and recovery of a \<open>LiaisoExcelError\<close>.\<close>

type_synonym excel_error = "range_code \<times> string \<times> string option"

definition maxColumn :: nat where "maxColumn = 16384"

definition maxRow :: nat where "maxRow = 1048576"

section \<open>Columns\<close>

fun letters_loop :: "nat \<Rightarrow> string \<Rightarrow> string" where
  "letters_loop remaining letters =
     (if remaining = 0 then letters
      else letters_loop ((remaining - 1) div 26) (char_of (65 + (remaining - 1) mod 26) # letters))"

declare letters_loop.simps [simp del]

definition columnToLetters :: "nat \<Rightarrow> excel_error + string" where
  "columnToLetters index =
     (if index < 1 \<or> index > maxColumn
      then Inl (Invalid_range, ''Column index '' @ nat_text index @ '' is out of bounds.'', None)
      else Inr (letters_loop index []))"

definition column_value :: "string \<Rightarrow> int" where
  "column_value letters = foldl (\<lambda>index c. index * 26 + (int (of_char c) - 64)) 0 (asciiUpper letters)"

definition lettersToColumn :: "string \<Rightarrow> excel_error + nat" where
  "lettersToColumn letters =
     (let index = column_value letters
      in if index < 1 \<or> index > int maxColumn
         then Inl (Invalid_range, ''Column '' @ quoted letters @ '' is out of bounds.'', None) else Inr (nat index))"

section \<open>Cells\<close>

definition is_letter :: "char \<Rightarrow> bool" where
  "is_letter c = (isAsciiUpper c \<or> isAsciiLower c)"

text \<open>\<open>rowPattern\<close>, \<open>/^[1-9][0-9]*$/\<close>, and \<open>columnPattern\<close>, \<open>/^[A-Za-z]{1,3}$/\<close>.\<close>

definition row_text :: "string \<Rightarrow> bool" where
  "row_text s = (s \<noteq> [] \<and> list_all isAsciiDigit s \<and> hd s \<noteq> CHR ''0'')"

definition column_text :: "string \<Rightarrow> bool" where
  "column_text s = (s \<noteq> [] \<and> length s \<le> 3 \<and> list_all is_letter s)"

definition number_of_digits :: "string \<Rightarrow> nat" where
  "number_of_digits s = foldl (\<lambda>n c. 10 * n + ((of_char c :: nat) - 48)) 0 s"

text \<open>The letters of \<open>cellPattern\<close> end where its digits begin.\<close>

definition parseCellRef :: "string \<Rightarrow> excel_error + nat \<times> nat" where
  "parseCellRef reference =
     (let letters = takeWhile is_letter reference; digits = dropWhile is_letter reference
      in if \<not> (column_text letters \<and> row_text digits)
         then Inl (Invalid_range, quoted reference @ '' is not a cell reference.'',
           Some ''Use A1 notation without dollar signs, for example B2.'')
         else let row = number_of_digits digits
           in if row > maxRow then Inl (Invalid_range, ''Row '' @ nat_text row @ '' is out of bounds.'', None)
              else res_map (\<lambda>column. (row, column)) (lettersToColumn letters))"

definition formatCellRef :: "nat \<Rightarrow> nat \<Rightarrow> excel_error + string" where
  "formatCellRef row column = res_map (\<lambda>letters. letters @ nat_text row) (columnToLetters column)"

definition formatRange :: "grid_bounds \<Rightarrow> excel_error + string" where
  "formatRange b = res_bind (formatCellRef (gb_top b) (gb_left b)) (\<lambda>start.
     res_map (\<lambda>end_text. start @ '':'' @ end_text) (formatCellRef (gb_bottom b) (gb_right b)))"

definition formatRectangle :: "nat \<Rightarrow> nat \<Rightarrow> nat \<Rightarrow> nat \<Rightarrow> excel_error + string" where
  "formatRectangle row0 column0 row1 column1 = res_bind (formatCellRef row0 column0) (\<lambda>start.
     if row0 = row1 \<and> column0 = column1 then Inr start
     else res_map (\<lambda>end_text. start @ '':'' @ end_text) (formatCellRef row1 column1))"

section \<open>Ranges\<close>

text \<open>The row and the column a part of a range names.\<close>

definition parsePart :: "string \<Rightarrow> excel_error + nat option \<times> nat option" where
  "parsePart part =
     (if part = [] then Inr (None, None)
      else if column_text part then res_map (\<lambda>c. (None, Some c)) (lettersToColumn part)
      else if row_text part then
        (let row = number_of_digits part
         in if row > maxRow then Inl (Invalid_range, ''Row '' @ nat_text row @ '' is out of bounds.'', None)
            else Inr (Some row, None))
      else res_map (\<lambda>(row, column). (Some row, Some column)) (parseCellRef part))"

definition clampToUsed :: "grid_bounds \<Rightarrow> grid_bounds \<Rightarrow> string \<Rightarrow> excel_error + grid_bounds" where
  "clampToUsed b used requested =
     (let clamped = \<lparr>gb_top = max (gb_top b) (gb_top used), gb_left = max (gb_left b) (gb_left used),
            gb_bottom = min (gb_bottom b) (gb_bottom used), gb_right = min (gb_right b) (gb_right used)\<rparr>
      in if gb_bottom clamped < gb_top clamped \<or> gb_right clamped < gb_left clamped
         then res_bind (formatRange used) (\<lambda>text. Inl (Range_outside_used_range,
           ''Requested '' @ requested @ '' but the used range is '' @ text @ ''.'', Some (''Pick a range inside '' @ text @ ''.'')))
         else Inr clamped)"

definition the_or :: "'a \<Rightarrow> 'a option \<Rightarrow> 'a" where
  "the_or d v = (case v of None \<Rightarrow> d | Some x \<Rightarrow> x)"

definition resolveRange :: "grid_bounds \<Rightarrow> string option \<Rightarrow> excel_error + grid_bounds" where
  "resolveRange used requested = (case requested of
     None \<Rightarrow> Inr used
   | Some text \<Rightarrow>
       if trim text = [] then Inl (Invalid_range, ''The range is empty.'', None)
       else (let segments = split_on (CHR '':'') (trim text)
         in if length segments > 2
            then Inl (Invalid_range, quoted text @ '' has more than one ':' separator.'',
              Some ''Use a form like B2:D40, B:D, 2:40 or B2.'')
            else res_bind (parsePart (segments ! 0)) (\<lambda>start.
              res_bind (if length segments = 2 then parsePart (segments ! 1) else Inr start) (\<lambda>stop.
                let b = \<lparr>gb_top = the_or (gb_top used) (fst start), gb_left = the_or (gb_left used) (snd start),
                      gb_bottom = the_or (gb_bottom used) (fst stop), gb_right = the_or (gb_right used) (snd stop)\<rparr>
                in if gb_bottom b < gb_top b \<or> gb_right b < gb_left b
                   then res_bind (formatRange used) (\<lambda>range. Inl (Invalid_range,
                     quoted text @ '' ends before it starts.'', Some (''Used range is '' @ range @ ''.'')))
                   else clampToUsed b used text))))"

text \<open>The row a page of \<open>cells\<close> cells ends before, for bounds that hold at least one column.\<close>

definition advance :: "grid_bounds \<Rightarrow> nat \<Rightarrow> (nat \<times> nat) option" where
  "advance b cells =
     (let width = gb_right b + 1 - gb_left b; nextRow = gb_top b + cells div width
      in if nextRow > gb_bottom b then None else Some (nextRow, gb_left b))"

section \<open>Columns are read back\<close>

lemma asciiUpper_char: "isAsciiUpper c \<Longrightarrow> asciiUpper (c # s) = c # asciiUpper s"
  by (auto simp: asciiUpper_def isAsciiUpper_code isAsciiLower_code)

definition upper_value :: "int \<Rightarrow> string \<Rightarrow> int" where
  "upper_value n s = foldl (\<lambda>index c. index * 26 + (int (of_char c) - 64)) n s"

lemma letters_loop_facts:
  assumes "list_all isAsciiUpper acc"
  shows "list_all isAsciiUpper (letters_loop n acc) \<and> upper_value 0 (letters_loop n acc) = upper_value (int n) acc
    \<and> (n \<noteq> 0 \<or> acc \<noteq> [] \<longrightarrow> letters_loop n acc \<noteq> [])"
  using assms
proof (induction n acc rule: letters_loop.induct)
  case (1 n acc)
  show ?case
  proof (cases "n = 0")
    case True
    with 1 show ?thesis by (simp add: letters_loop.simps)
  next
    case False
    let ?c = "char_of (65 + (n - 1) mod 26) :: char"
    have code: "(of_char ?c :: nat) = 65 + (n - 1) mod 26" by simp
    have c: "isAsciiUpper ?c"
    proof -
      have "(n - 1) mod 26 \<le> 25" by simp
      then show ?thesis unfolding isAsciiUpper_code code by linarith
    qed
    have "int n = int ((n - 1) div 26) * 26 + (int (of_char ?c) - 64)"
    proof -
      obtain q r where qr: "(n - 1) div 26 = q" "(n - 1) mod 26 = r" by simp
      have "n = q * 26 + r + 1" using False div_mult_mod_eq [of "n - 1" 26] unfolding qr by linarith
      moreover have "r < 26" using qr(2) by auto
      ultimately show ?thesis unfolding code qr by simp
    qed
    then have "upper_value (int ((n - 1) div 26)) (?c # acc) = upper_value (int n) acc"
      by (simp add: upper_value_def)
    with 1 False c show ?thesis by (simp add: letters_loop.simps [of n acc])
  qed
qed

lemma column_value_upper: "list_all isAsciiUpper s \<Longrightarrow> column_value s = upper_value 0 s"
proof -
  assume "list_all isAsciiUpper s"
  then have "asciiUpper s = s" by (induction s) (simp_all add: asciiUpper_char, simp add: asciiUpper_def)
  then show ?thesis by (simp add: column_value_def upper_value_def)
qed

lemma column_value_lower: "column_value (map lower_char s) = column_value s" if "list_all isAsciiUpper s"
proof -
  have "asciiUpper (map lower_char s) = asciiUpper s" using that
    by (induction s) (auto simp: asciiUpper_def lower_char_def isAsciiUpper_code isAsciiLower_code Let_def)
  then show ?thesis by (simp add: column_value_def)
qed

lemma letters_loop_length: "n < 26 ^ k * 27 \<Longrightarrow> length (letters_loop n acc) \<le> Suc k + length acc"
proof (induction k arbitrary: n acc)
  case 0
  then show ?case
    by (cases "n = 0") (simp_all add: letters_loop.simps [of n] letters_loop.simps [of 0])
next
  case (Suc k)
  show ?case
  proof (cases "n = 0")
    case True
    then show ?thesis by (simp add: letters_loop.simps)
  next
    case False
    have "n - 1 < 26 * (26 ^ k * 27)" using Suc.prems by simp
    then have "(n - 1) div 26 < 26 ^ k * 27" by (simp add: less_mult_imp_div_less mult.commute)
    from Suc.IH [OF this, of "char_of (65 + (n - 1) mod 26) # acc"] False show ?thesis
      by (simp add: letters_loop.simps [of n])
  qed
qed

lemma columnToLetters_Inr:
  assumes "1 \<le> n" and "n \<le> maxColumn"
  shows "\<exists>s. columnToLetters n = Inr s \<and> column_text s \<and> list_all isAsciiUpper s \<and> lettersToColumn s = Inr n
    \<and> lettersToColumn (map lower_char s) = Inr n"
proof -
  let ?s = "letters_loop n []"
  have f: "list_all isAsciiUpper ?s" "upper_value 0 ?s = int n" "?s \<noteq> []"
    using letters_loop_facts [of "[]" n] assms(1) by (simp_all add: upper_value_def)
  have "length ?s \<le> 3" using letters_loop_length [of n 2 "[]"] assms(2) by (simp add: maxColumn_def)
  moreover have "list_all is_letter ?s" using f(1) by (auto simp: list_all_iff is_letter_def)
  moreover have "column_value ?s = int n" "column_value (map lower_char ?s) = int n"
    using f(1,2) by (simp_all add: column_value_upper column_value_lower)
  ultimately show ?thesis using f assms by (auto simp: columnToLetters_def column_text_def lettersToColumn_def Let_def)
qed

lemma number_of_text: "number_of_digits (nat_text n) = n"
proof (induction n rule: nat_text.induct)
  case (1 n)
  then show ?case by (subst nat_text.simps) (simp add: number_of_digits_def digit_char_def)
qed

lemma nat_text_head: "n > 0 \<Longrightarrow> hd (nat_text n) \<noteq> CHR ''0''"
proof (induction n rule: nat_text.induct)
  case (1 n)
  show ?case
  proof (cases "n < 10")
    case True
    have "(of_char (digit_char n) :: nat) = 48 + n" using True by (simp add: digit_char_def)
    moreover have "(of_char (CHR ''0'') :: nat) = 48" by simp
    ultimately have "digit_char n \<noteq> CHR ''0''" using 1 by force
    with True show ?thesis by (simp add: nat_text.simps [of n])
  next
    case False
    with 1 show ?thesis by (simp add: nat_text.simps [of n])
  qed
qed

lemma row_text_number: "n > 0 \<Longrightarrow> row_text (nat_text n)"
  using nat_text_digits [of _ n] nat_text_head [of n] by (auto simp: row_text_def list_all_iff)

lemma digit_not_letter: "isAsciiDigit c \<Longrightarrow> \<not> is_letter c"
  by (auto simp: is_letter_def isAsciiDigit_code isAsciiUpper_code isAsciiLower_code)

lemma parse_cell_text:
  assumes "column_text s" and "lettersToColumn s = Inr c" and "1 \<le> r" and "r \<le> maxRow"
  shows "parseCellRef (s @ nat_text r) = Inr (r, c)"
proof -
  have "list_all is_letter s" using assms(1) by (simp add: column_text_def)
  moreover have "takeWhile is_letter (nat_text r) = []" "dropWhile is_letter (nat_text r) = nat_text r"
    using nat_text_digits [of "hd (nat_text r)" r] digit_not_letter by (cases "nat_text r", auto)+
  ultimately have "takeWhile is_letter (s @ nat_text r) = s" "dropWhile is_letter (s @ nat_text r) = nat_text r"
    by (simp_all add: takeWhile_append dropWhile_append list_all_iff)
  then show ?thesis using assms row_text_number [of r] by (simp add: parseCellRef_def number_of_text)
qed

text \<open>
  C40: A cell of the sheet is written and read back: \<open>formatCellRef\<close> gives a reference, and \<open>parseCellRef\<close>
  reads that reference, in upper or lower case letters, as the same row and column.
\<close>

theorem cell_reference_roundtrip:
  assumes "1 \<le> row" and "row \<le> maxRow" and "1 \<le> column" and "column \<le> maxColumn"
  shows "\<exists>text. formatCellRef row column = Inr text \<and> parseCellRef text = Inr (row, column)
    \<and> parseCellRef (to_lower text) = Inr (row, column)"
proof -
  obtain s where s: "columnToLetters column = Inr s" "column_text s" "list_all isAsciiUpper s"
    "lettersToColumn s = Inr column" "lettersToColumn (map lower_char s) = Inr column"
    using columnToLetters_Inr [OF assms(3,4)] by blast
  have low: "column_text (map lower_char s)"
    using s(2,3) by (auto simp: column_text_def list_all_iff is_letter_def dest: lower_of_upper)
  have "to_lower (nat_text row) = nat_text row"
  proof -
    have "lower_char c = c" if "c \<in> set (nat_text row)" for c
      using nat_text_digits [OF that] by (auto simp: lower_char_def isAsciiDigit_code Let_def)
    then show ?thesis by (simp add: to_lower_def map_idI)
  qed
  then have "to_lower (s @ nat_text row) = map lower_char s @ nat_text row" by (simp add: to_lower_def)
  then show ?thesis
    using s parse_cell_text [OF s(2,4) assms(1,2)] parse_cell_text [OF low s(5) assms(1,2)]
    by (simp add: formatCellRef_def)
qed

lemma cell_reference_roundtrip_witness:
  "\<exists>text. formatCellRef 10 28 = Inr text \<and> parseCellRef text = Inr (10, 28) \<and> parseCellRef (to_lower text) = Inr (10, 28)"
  by (rule cell_reference_roundtrip) (simp_all add: maxRow_def maxColumn_def)

section \<open>Ranges are read back and stay in the used range\<close>

definition on_sheet :: "grid_bounds \<Rightarrow> bool" where
  "on_sheet b = (1 \<le> gb_top b \<and> gb_top b \<le> gb_bottom b \<and> gb_bottom b \<le> maxRow
     \<and> 1 \<le> gb_left b \<and> gb_left b \<le> gb_right b \<and> gb_right b \<le> maxColumn)"

definition within :: "grid_bounds \<Rightarrow> grid_bounds \<Rightarrow> bool" where
  "within b u = (gb_top u \<le> gb_top b \<and> gb_top b \<le> gb_bottom b \<and> gb_bottom b \<le> gb_bottom u
     \<and> gb_left u \<le> gb_left b \<and> gb_left b \<le> gb_right b \<and> gb_right b \<le> gb_right u)"

definition in_bounds :: "grid_bounds \<Rightarrow> nat \<times> nat \<Rightarrow> bool" where
  "in_bounds b cell = (gb_top b \<le> fst cell \<and> fst cell \<le> gb_bottom b \<and> gb_left b \<le> snd cell \<and> snd cell \<le> gb_right b)"

lemma clampToUsed_Inr:
  "clampToUsed b used text = Inr r \<Longrightarrow> within r used \<and> (\<forall>cell. in_bounds r cell = (in_bounds b cell \<and> in_bounds used cell))"
  by (auto simp: clampToUsed_def Let_def within_def in_bounds_def res_iff split: if_splits)

lemma trim_clean:
  assumes "\<not> is_space (hd s)" and "\<not> is_space (last s)" and "s \<noteq> []"
  shows "trim s = s"
proof -
  have "dropWhile is_space s = s" using assms(1,3) by (cases s) simp_all
  moreover have "dropWhile is_space (rev s) = rev s"
    by (cases s rule: rev_cases) (use assms(2,3) in simp_all)
  ultimately show ?thesis by (simp add: trim_def)
qed

text \<open>
  A request that names a range gives a non-empty rectangle inside the used range, and a request written
  by \<open>formatRange\<close> gives exactly the cells that are in the written range and in the used range.
\<close>

theorem range_within_used:
  assumes "resolveRange used (Some text) = Inr r"
  shows "within r used \<and> (\<forall>b. on_sheet b \<longrightarrow> formatRange b = Inr text \<longrightarrow>
    (\<forall>cell. in_bounds r cell = (in_bounds b cell \<and> in_bounds used cell)))"
proof -
  have "within r used"
    using assms clampToUsed_Inr by (fastforce simp: resolveRange_def Let_def res_iff split: if_splits)
  moreover have "in_bounds r cell = (in_bounds b cell \<and> in_bounds used cell)"
    if b: "on_sheet b" and f: "formatRange b = Inr text" for b cell
  proof -
    obtain s where s: "columnToLetters (gb_left b) = Inr s" "column_text s" "list_all isAsciiUpper s" "lettersToColumn s = Inr (gb_left b)"
      using columnToLetters_Inr [of "gb_left b"] b by (auto simp: on_sheet_def)
    obtain t where t: "columnToLetters (gb_right b) = Inr t" "column_text t" "list_all isAsciiUpper t" "lettersToColumn t = Inr (gb_right b)"
      using columnToLetters_Inr [of "gb_right b"] b by (auto simp: on_sheet_def)
    have whole: "text = (s @ nat_text (gb_top b)) @ '':'' @ t @ nat_text (gb_bottom b)"
      using f s(1) t(1) by (simp add: formatRange_def formatCellRef_def)
    have plain: "c \<noteq> CHR '':'' \<and> \<not> is_space c" if "is_letter c \<or> isAsciiDigit c" for c
      using that by (auto simp: is_letter_def is_space_def isAsciiUpper_code isAsciiLower_code isAsciiDigit_code)
    let ?x = "s @ nat_text (gb_top b)" and ?y = "t @ nat_text (gb_bottom b)"
    have chars: "c \<noteq> CHR '':'' \<and> \<not> is_space c" if "c \<in> set ?x \<union> set ?y" for c
    proof -
      from that have "is_letter c \<or> isAsciiDigit c"
        using s(2) t(2) by (auto simp: column_text_def list_all_iff dest: nat_text_digits)
      then show ?thesis by (rule plain)
    qed
    have ne: "?x \<noteq> []" "?y \<noteq> []" by simp_all
    have split: "split_on (CHR '':'') text = [?x, ?y]"
    proof -
      have "CHR '':'' \<notin> set ?x" "CHR '':'' \<notin> set ?y" using chars by blast+
      then show ?thesis
        using split_on_append_sep [of "CHR '':''" ?x ?y] split_on_clean [of "CHR '':''" ?y] by (simp add: whole)
    qed
    have "\<not> is_space (hd text)" "\<not> is_space (last text)" "text \<noteq> []"
      using chars ne by (simp_all add: whole hd_append last_append)
    then have trim: "trim text = text" by (rule trim_clean)
    have part: "parsePart (w @ nat_text k) = Inr (Some k, Some c)"
      if "column_text w" "lettersToColumn w = Inr c" "1 \<le> k" "k \<le> maxRow" for w k c
    proof -
      have "\<not> column_text (w @ nat_text k)"
        using nat_text_digits [of "last (nat_text k)" k] digit_not_letter [of "last (nat_text k)"]
        by (auto simp: column_text_def list_all_iff intro!: bexI [of _ "last (nat_text k)"])
      moreover have "\<not> row_text (w @ nat_text k)"
        using that(1) digit_not_letter by (cases w) (auto simp: row_text_def column_text_def)
      ultimately show ?thesis using parse_cell_text [OF that] by (simp add: parsePart_def)
    qed
    have eta: "\<lparr>gb_top = gb_top b, gb_left = gb_left b, gb_bottom = gb_bottom b, gb_right = gb_right b\<rparr> = b"
      by (cases b) simp
    have "clampToUsed b used text = Inr r"
      using assms b part [OF s(2,4)] part [OF t(2,4)] ne
      by (auto simp: resolveRange_def trim split Let_def on_sheet_def the_or_def whole [symmetric] eta split: if_splits)
    then show ?thesis using clampToUsed_Inr by blast
  qed
  ultimately show ?thesis by blast
qed

lemma range_within_used_witness:
  "within \<lparr>gb_top = 2, gb_left = 2, gb_bottom = 3, gb_right = 5\<rparr> \<lparr>gb_top = 1, gb_left = 1, gb_bottom = 9, gb_right = 5\<rparr>"
proof -
  have h: "resolveRange \<lparr>gb_top = 1, gb_left = 1, gb_bottom = 9, gb_right = 5\<rparr> (Some ''b2:3'')
      = Inr \<lparr>gb_top = 2, gb_left = 2, gb_bottom = 3, gb_right = 5\<rparr>"
    by (simp add: resolveRange_def trim_def is_space_def Let_def parsePart_def column_text_def is_letter_def
        isAsciiUpper_code isAsciiLower_code row_text_def isAsciiDigit_code number_of_digits_def parseCellRef_def
        lettersToColumn_def column_value_def asciiUpper_def maxRow_def maxColumn_def clampToUsed_def the_or_def)
  from range_within_used [OF h] show ?thesis by blast
qed

end
