(* ===== verification/Search_Index.thy ===== *)
theory Search_Index
  imports Search_Tokens "HOL-Library.AList" "HOL-Library.Product_Lexorder" Complex_Main
begin

text \<open>
  \<open>ToolIndex\<close> of \<open>packages/http/core/src/search.ts\<close>: the inverted index in flat arrays with offsets, the
  tag filter and the ranked search. A \<open>Map\<close> is an association list in insertion order, a typed array a
  list. Every weight is a multiple of one half, so weights and frequencies are counted in halves and
  their sums are exact as they are in the program; scores are real numbers, the rounding of the
  floating-point operations is not modelled. \<open>averageLength\<close> is kept as the sum it divides.
\<close>

section \<open>Documents\<close>

record search_document =
  sd_name :: string
  sd_description :: "string option"
  sd_tags :: "string list"
  sd_route :: string
  sd_alternateRoutes :: "string list"
  sd_parameters :: "string list"

definition nameWeight :: nat where "nameWeight = 6"

definition descriptionWeight :: nat where "descriptionWeight = 3"

definition tagWeight :: nat where "tagWeight = 2"

definition routeWeight :: nat where "routeWeight = 2"

definition parameterWeight :: nat where "parameterWeight = 2"

definition prefixMinimumLength :: nat where "prefixMinimumLength = 3"

type_synonym term_counts = "(string \<times> nat) list"

definition accumulate :: "nat \<Rightarrow> string \<Rightarrow> term_counts \<Rightarrow> term_counts" where
  "accumulate weight s counts =
     fold (\<lambda>token m. AList.update token ((case map_of m token of Some n \<Rightarrow> n | None \<Rightarrow> 0) + weight) m)
       (tokenize s) counts"

definition document_terms :: "search_document \<Rightarrow> term_counts" where
  "document_terms d =
     (let m = accumulate nameWeight (sd_name d) [];
          m = (case sd_description d of None \<Rightarrow> m | Some s \<Rightarrow> accumulate descriptionWeight s m);
          m = fold (accumulate tagWeight) (sd_tags d) m;
          m = accumulate routeWeight (sd_route d) m;
          m = fold (accumulate routeWeight) (sd_alternateRoutes d) m
      in fold (accumulate parameterWeight) (sd_parameters d) m)"

definition foldedTags :: "search_document \<Rightarrow> string list" where
  "foldedTags d = js_set (map foldToken (sd_tags d))"

definition document_length :: "search_document \<Rightarrow> nat" where
  "document_length d = sum_list (map snd (document_terms d))"

section \<open>Building the index\<close>

type_synonym posting_list = "nat list \<times> nat list"

record index_build =
  ib_documents :: "(string \<times> nat) list"
  ib_postings :: "(string \<times> posting_list) list"
  ib_documentTags :: "string list list"
  ib_allTags :: "string list"

definition add_posting :: "nat \<Rightarrow> string \<times> nat \<Rightarrow> (string \<times> posting_list) list \<Rightarrow> (string \<times> posting_list) list" where
  "add_posting documentId e m = (case e of (term, frequency) \<Rightarrow>
     AList.update term (case map_of m term of None \<Rightarrow> ([documentId], [frequency])
       | Some (ids, fs) \<Rightarrow> (ids @ [documentId], fs @ [frequency])) m)"

definition index_document :: "search_document \<Rightarrow> index_build \<Rightarrow> index_build" where
  "index_document d b =
     (let documentId = length (ib_documents b)
      in b\<lparr>ib_documents := ib_documents b @ [(sd_name d, document_length d)],
           ib_postings := fold (add_posting documentId) (document_terms d) (ib_postings b),
           ib_documentTags := ib_documentTags b @ [foldedTags d],
           ib_allTags := fold set_add (foldedTags d) (ib_allTags b)\<rparr>)"

definition index_start :: index_build where
  "index_start = \<lparr>ib_documents = [], ib_postings = [], ib_documentTags = [], ib_allTags = []\<rparr>"

function lower_bound_loop :: "string list \<Rightarrow> string \<Rightarrow> nat \<Rightarrow> nat \<Rightarrow> nat" where
  "lower_bound_loop vals target low high =
     (if low < high
      then (let middle = low + (high - low) div 2
            in if vals ! middle < target then lower_bound_loop vals target (middle + 1) high
               else lower_bound_loop vals target low middle)
      else low)"
  by auto
termination
  by (relation "measure (\<lambda>(vals, target, low, high). high - low)") auto

declare lower_bound_loop.simps [simp del]

definition lowerBound :: "string list \<Rightarrow> string \<Rightarrow> nat" where
  "lowerBound vals target = lower_bound_loop vals target 0 (length vals)"

record tool_index =
  ti_documents :: "(string \<times> nat) list"
  ti_totalLength :: nat
  ti_ordinalDocumentIds :: "nat list"
  ti_ordinalRanks :: "nat list"
  ti_vocabulary :: "string list"
  ti_postingOffsets :: "nat list"
  ti_postingDocumentIds :: "nat list"
  ti_postingFrequencies :: "nat list"
  ti_tagVocabulary :: "string list"
  ti_documentTagOffsets :: "nat list"
  ti_documentTagIds :: "nat list"

definition rank_step :: "nat \<times> nat \<Rightarrow> nat list \<Rightarrow> nat list" where
  "rank_step e ranks = (case e of (rank, documentId) \<Rightarrow> ranks[documentId := rank])"

definition flat_step :: "(string \<times> posting_list) list \<Rightarrow> string \<Rightarrow> nat list \<times> nat list \<times> nat list
    \<Rightarrow> nat list \<times> nat list \<times> nat list" where
  "flat_step postings term flat = (case flat of (offsets, ids, fs) \<Rightarrow>
     (case map_of postings term of
        None \<Rightarrow> (offsets @ [length ids], ids, fs)
      | Some (is, ns) \<Rightarrow> (offsets @ [length ids], ids @ is, fs @ ns)))"

definition flat_tags_step :: "string list \<Rightarrow> string list \<Rightarrow> nat list \<times> nat list \<Rightarrow> nat list \<times> nat list" where
  "flat_tags_step vocabulary tags flat = (case flat of (offsets, ids) \<Rightarrow>
     (offsets @ [length ids], ids @ map (lowerBound vocabulary) tags))"

definition createIndex :: "search_document list \<Rightarrow> tool_index" where
  "createIndex documents =
     (let b = fold index_document documents index_start;
          ordinalIds = sort_key (\<lambda>d. fst (ib_documents b ! d)) [0..<length (ib_documents b)];
          ranks = fold rank_step (enumerate 0 ordinalIds) (replicate (length (ib_documents b)) 0);
          vocabulary = sort (keys_of (ib_postings b));
          (offsets, ids, fs) = fold (flat_step (ib_postings b)) vocabulary ([], [], []);
          tagVocabulary = sort (ib_allTags b);
          (tagOffsets, tagIds) = fold (flat_tags_step tagVocabulary) (ib_documentTags b) ([], [])
      in \<lparr>ti_documents = ib_documents b, ti_totalLength = sum_list (map snd (ib_documents b)),
          ti_ordinalDocumentIds = ordinalIds, ti_ordinalRanks = ranks, ti_vocabulary = vocabulary,
          ti_postingOffsets = offsets @ [length ids], ti_postingDocumentIds = ids, ti_postingFrequencies = fs,
          ti_tagVocabulary = tagVocabulary, ti_documentTagOffsets = tagOffsets @ [length tagIds],
          ti_documentTagIds = tagIds\<rparr>)"

section \<open>Searching\<close>

text \<open>An absent tag gets the id past the vocabulary, which no document carries.\<close>

definition tagFilterIds :: "tool_index \<Rightarrow> string list \<Rightarrow> nat list option" where
  "tagFilterIds idx tags = (if tags = [] then None
     else Some (map (\<lambda>tag. let folded = foldToken tag; i = lowerBound (ti_tagVocabulary idx) folded
       in if i < length (ti_tagVocabulary idx) \<and> ti_tagVocabulary idx ! i = folded then i
          else length (ti_tagVocabulary idx)) tags))"

definition carriesEveryTag :: "tool_index \<Rightarrow> nat list \<Rightarrow> nat \<Rightarrow> bool" where
  "carriesEveryTag idx filterIds documentId =
     list_all (\<lambda>wanted. list_ex (\<lambda>cursor. ti_documentTagIds idx ! cursor = wanted)
       [ti_documentTagOffsets idx ! documentId ..< ti_documentTagOffsets idx ! (documentId + 1)]) filterIds"

definition survives :: "tool_index \<Rightarrow> nat list option \<Rightarrow> nat \<Rightarrow> bool" where
  "survives idx filterIds documentId =
     (case filterIds of None \<Rightarrow> True | Some ids \<Rightarrow> carriesEveryTag idx ids documentId)"

definition add_frequency :: "nat \<times> nat \<Rightarrow> nat list \<times> nat list \<Rightarrow> nat list \<times> nat list" where
  "add_frequency e st = (case (e, st) of ((documentId, frequency), (totals, touched)) \<Rightarrow>
     (totals[documentId := totals ! documentId + frequency],
      if totals ! documentId = 0 then touched @ [documentId] else touched))"

definition addPostingFrequencies :: "tool_index \<Rightarrow> nat \<Rightarrow> nat list \<times> nat list \<Rightarrow> nat list \<times> nat list" where
  "addPostingFrequencies idx i st =
     fold (\<lambda>j. add_frequency (ti_postingDocumentIds idx ! j, ti_postingFrequencies idx ! j))
       [ti_postingOffsets idx ! i ..< ti_postingOffsets idx ! (i + 1)] st"

definition starts_with :: "string \<Rightarrow> string \<Rightarrow> bool" where
  "starts_with p s = (take (length p) s = p)"

text \<open>The entries of the vocabulary a query term reaches.\<close>

definition term_entries :: "tool_index \<Rightarrow> string \<Rightarrow> nat list" where
  "term_entries idx term =
     (let vocabulary = ti_vocabulary idx; i = lowerBound vocabulary term
      in if length term < prefixMinimumLength
         then (if i < length vocabulary \<and> vocabulary ! i = term then [i] else [])
         else takeWhile (\<lambda>j. starts_with term (vocabulary ! j)) [i..<length vocabulary])"

text \<open>\<open>idf * normalized\<close> for a corpus of \<open>n\<close> documents whose lengths add up to \<open>lengths\<close> halves.\<close>

definition term_weight :: "nat \<Rightarrow> nat \<Rightarrow> nat \<Rightarrow> nat \<Rightarrow> nat \<Rightarrow> real" where
  "term_weight n lengths df halves len =
     (let idf = ln (1 + (real n - real df + 1 / 2) / (real df + 1 / 2));
          tf = real halves / 2;
          averageLength = (real lengths / 2) / real n;
          normalized = (tf * (12 / 10 + 1)) / (tf + 12 / 10 * (1 - 3 / 4 + (3 / 4 * (real len / 2)) / averageLength))
      in idf * normalized)"

type_synonym 'w weighing = "nat \<Rightarrow> nat \<Rightarrow> nat \<Rightarrow> nat \<Rightarrow> nat \<Rightarrow> 'w"

type_synonym 'w search_state = "nat list \<times> 'w list \<times> nat list"

definition score_document :: "('w :: {zero, plus}) weighing \<Rightarrow> tool_index \<Rightarrow> nat \<Rightarrow> nat \<Rightarrow> 'w search_state \<Rightarrow> 'w search_state" where
  "score_document weigh idx df documentId st = (case st of (frequencies, scores, scored) \<Rightarrow>
     (frequencies[documentId := 0],
      scores[documentId := scores ! documentId
        + weigh (length (ti_documents idx)) (ti_totalLength idx) df (frequencies ! documentId) (snd (ti_documents idx ! documentId))],
      if scores ! documentId = 0 then scored @ [documentId] else scored))"

definition term_step :: "('w :: {zero, plus}) weighing \<Rightarrow> tool_index \<Rightarrow> string \<Rightarrow> 'w search_state \<Rightarrow> 'w search_state" where
  "term_step weigh idx term st = (case st of (frequencies, scores, scored) \<Rightarrow>
     (case fold (addPostingFrequencies idx) (term_entries idx term) (frequencies, []) of (totals, matching) \<Rightarrow>
        if length matching = 0 then (totals, scores, scored)
        else fold (score_document weigh idx (length matching)) matching (totals, scores, scored)))"

fun first_names :: "(nat \<Rightarrow> bool) \<Rightarrow> (nat \<Rightarrow> string) \<Rightarrow> nat \<Rightarrow> nat list \<Rightarrow> string list" where
  "first_names keep name limit [] = []"
| "first_names keep name limit (d # ds) =
     (if limit = 0 then [] else if keep d then name d # first_names keep name (limit - 1) ds
      else first_names keep name limit ds)"

datatype search_error = Limit_not_positive

definition search_with :: "('w :: {zero, plus, uminus, linorder}) weighing \<Rightarrow> tool_index \<Rightarrow> string \<Rightarrow> nat \<Rightarrow> string list
    \<Rightarrow> search_error + string list" where
  "search_with weigh idx query limit tags =
     (if limit = 0 then Inl Limit_not_positive
      else let filterIds = tagFilterIds idx tags; queryTerms = tokenize query;
             name = (\<lambda>d. fst (ti_documents idx ! d)); n = length (ti_documents idx)
        in if queryTerms = [] then Inr (first_names (survives idx filterIds) name limit (ti_ordinalDocumentIds idx))
           else (case fold (term_step weigh idx) queryTerms (replicate n 0, replicate n 0, []) of
               (frequencies, scores, scored) \<Rightarrow>
                 Inr (map name (take limit (sort_key (\<lambda>d. (- (scores ! d), ti_ordinalRanks idx ! d))
                   (filter (survives idx filterIds) scored))))))"

definition tool_search :: "tool_index \<Rightarrow> string \<Rightarrow> nat \<Rightarrow> string list \<Rightarrow> search_error + string list" where
  "tool_search = search_with term_weight"

end
