(* ===== verification/Search_Order.thy ===== *)
theory Search_Order
  imports Search_Index
begin

text \<open>
  The order the index relies on: binary search finds the first entry not below a word, the entries a
  word is a prefix of follow it in one block, and a stable sort by a second key refines a sorted list.
\<close>

section \<open>Words in code unit order\<close>

lemma starts_with_simps [simp]:
  "starts_with [] s" "\<not> starts_with (c # p) []" "starts_with (c # p) (d # s) \<longleftrightarrow> c = d \<and> starts_with p s"
  by (auto simp: starts_with_def)

lemma starts_with_le: "starts_with p s \<Longrightarrow> p \<le> s"
proof (induction p arbitrary: s)
  case (Cons c p)
  then show ?case by (cases s) auto
qed simp

lemma starts_with_between: "starts_with p t \<Longrightarrow> p \<le> s \<Longrightarrow> s \<le> t \<Longrightarrow> starts_with p s"
proof (induction p arbitrary: s t)
  case (Cons c p)
  then show ?case by (cases s; cases t) (auto simp: Cons_le_Cons)
qed simp

section \<open>Binary search\<close>

definition lower_bound_at :: "string list \<Rightarrow> string \<Rightarrow> nat \<Rightarrow> bool" where
  "lower_bound_at vals target r = (r \<le> length vals \<and> (\<forall>i < r. vals ! i < target)
     \<and> (\<forall>i < length vals. r \<le> i \<longrightarrow> target \<le> vals ! i))"

lemma lower_bound_loop_facts:
  assumes "sorted vals" and "low \<le> high" and "high \<le> length vals"
    and "\<And>i. i < low \<Longrightarrow> vals ! i < target"
    and "\<And>i. i < length vals \<Longrightarrow> high \<le> i \<Longrightarrow> target \<le> vals ! i"
  shows "lower_bound_at vals target (lower_bound_loop vals target low high)"
  using assms
proof (induction vals target low high rule: lower_bound_loop.induct)
  case (1 vals target low high)
  show ?case
  proof (cases "low < high")
    case False
    then have "lower_bound_loop vals target low high = low" by (simp add: lower_bound_loop.simps)
    moreover have "low = high" using False 1(4) by simp
    ultimately show ?thesis using 1(5-7) by (simp add: lower_bound_at_def)
  next
    case True
    define middle where "middle = low + (high - low) div 2"
    have m: "low \<le> middle" "middle < high" using True by (simp_all add: middle_def)
    show ?thesis
    proof (cases "vals ! middle < target")
      case below: True
      have b: "vals ! i < target" if "i < middle + 1" for i
        using sorted_nth_mono [OF 1(3), of i middle] that m 1(5) below by (auto intro: le_less_trans)
      have "lower_bound_loop vals target low high = lower_bound_loop vals target (middle + 1) high"
        using True below by (simp add: lower_bound_loop.simps [of vals target low high] Let_def middle_def)
      moreover have "middle + 1 \<le> high" using m by simp
      ultimately show ?thesis using 1(1) [OF True middle_def below 1(3) _ 1(5) b 1(7)] by simp
    next
      case above: False
      have a: "target \<le> vals ! i" if "i < length vals" "middle \<le> i" for i
        using sorted_nth_mono [OF 1(3), of middle i] that above by (auto intro: order_trans)
      have "lower_bound_loop vals target low high = lower_bound_loop vals target low middle"
        using True above by (simp add: lower_bound_loop.simps [of vals target low high] Let_def middle_def)
      moreover have "middle \<le> length vals" using m 1(5) by simp
      ultimately show ?thesis using 1(2) [OF True middle_def above 1(3) m(1) _ 1(6) a] by simp
    qed
  qed
qed

lemma lowerBound_facts:
  assumes "sorted vals"
  shows "lowerBound vals target \<le> length vals"
    and "i < lowerBound vals target \<Longrightarrow> vals ! i < target"
    and "i < length vals \<Longrightarrow> lowerBound vals target \<le> i \<Longrightarrow> target \<le> vals ! i"
proof -
  have "lower_bound_at vals target (lowerBound vals target)"
    unfolding lowerBound_def by (rule lower_bound_loop_facts [OF assms]) simp_all
  then show "lowerBound vals target \<le> length vals"
    and "i < lowerBound vals target \<Longrightarrow> vals ! i < target"
    and "i < length vals \<Longrightarrow> lowerBound vals target \<le> i \<Longrightarrow> target \<le> vals ! i"
    unfolding lower_bound_at_def by blast+
qed

lemma lowerBound_found:
  assumes "sorted vals" and "distinct vals" and "k < length vals"
  shows "lowerBound vals (vals ! k) = k"
proof -
  let ?b = "lowerBound vals (vals ! k)"
  have le: "?b \<le> k"
  proof (rule ccontr)
    assume "\<not> ?b \<le> k"
    with lowerBound_facts(2) [OF assms(1), of k "vals ! k"] show False by simp
  qed
  with assms(3) have lt: "?b < length vals" by simp
  have "vals ! k \<le> vals ! ?b" by (rule lowerBound_facts(3) [OF assms(1) lt order_refl])
  moreover have "vals ! ?b \<le> vals ! k" by (rule sorted_nth_mono [OF assms(1) le assms(3)])
  ultimately have "vals ! ?b = vals ! k" by (intro antisym)
  then show ?thesis by (simp only: nth_eq_iff_index_eq [OF assms(2) lt assms(3)])
qed

lemma lowerBound_hit:
  assumes "sorted vals" and "distinct vals"
  shows "lowerBound vals t < length vals \<and> vals ! lowerBound vals t = t \<longleftrightarrow> t \<in> set vals"
  using lowerBound_found [OF assms] by (auto simp: in_set_conv_nth)

lemma lowerBound_inj:
  "sorted vals \<Longrightarrow> distinct vals \<Longrightarrow> s \<in> set vals \<Longrightarrow> t \<in> set vals \<Longrightarrow> lowerBound vals s = lowerBound vals t \<Longrightarrow> s = t"
  by (metis lowerBound_hit)

section \<open>The block of a prefix\<close>

lemma filter_takeWhile: "sorted_wrt (\<lambda>a b. P b \<longrightarrow> P a) xs \<Longrightarrow> filter P xs = takeWhile P xs"
  by (induction xs) (auto simp: filter_empty_conv)

lemma map_nth_block: "k \<le> length xs \<Longrightarrow> map ((!) xs) [k..<length xs] = drop k xs"
  by (rule nth_equalityI) auto

lemma prefix_block:
  assumes "sorted vals"
  shows "map ((!) vals) (takeWhile (\<lambda>j. starts_with p (vals ! j)) [lowerBound vals p..<length vals])
    = filter (starts_with p) vals"
proof -
  let ?k = "lowerBound vals p"
  note lb = lowerBound_facts [OF assms, where target = p]
  have "filter (starts_with p) (take ?k vals) = []"
    using lb(1,2) by (auto simp: filter_empty_conv in_set_conv_nth dest!: starts_with_le) (meson leD)
  moreover have "sorted_wrt (\<lambda>a b. starts_with p b \<longrightarrow> starts_with p a) (drop ?k vals)"
  proof (rule sorted_wrt_mono_rel [OF _ sorted_wrt_drop [OF assms]])
    fix a b assume a: "a \<in> set (drop ?k vals)" and "a \<le> b"
    from a obtain i where "i < length vals" "?k \<le> i" "a = vals ! i"
      by (auto simp: in_set_conv_nth) (metis add.commute le_add1 less_diff_conv)
    with lb(3) \<open>a \<le> b\<close> show "starts_with p b \<longrightarrow> starts_with p a" by (auto intro: starts_with_between)
  qed
  ultimately have "filter (starts_with p) vals = takeWhile (starts_with p) (drop ?k vals)"
    using filter_takeWhile by (metis append_take_drop_id filter_append self_append_conv2)
  also have "\<dots> = map ((!) vals) (takeWhile (starts_with p \<circ> (!) vals) [?k..<length vals])"
    using map_nth_block [OF lb(1)] by (metis takeWhile_map)
  finally show ?thesis by (simp add: comp_def)
qed

section \<open>Stable sorting\<close>

lemma insort_key_agree: "\<forall>y \<in> insert x (set xs). f y = g y \<Longrightarrow> insort_key f x xs = insort_key g x xs"
  by (induction xs) auto

lemma sort_key_agree: "\<forall>x \<in> set xs. f x = g x \<Longrightarrow> sort_key f xs = sort_key g xs"
proof (induction xs)
  case (Cons x xs)
  have "insort_key f x (sort_key g xs) = insort_key g x (sort_key g xs)"
    by (rule insort_key_agree) (use Cons.prems in simp)
  with Cons show ?case by simp
qed simp

lemma insort_key_map: "insort_key f (g x) (map g xs) = map g (insort_key (\<lambda>a. f (g a)) x xs)"
  by (induction xs) auto

lemma sort_key_map: "sort_key f (map g xs) = map g (sort_key (\<lambda>a. f (g a)) xs)"
  by (induction xs) (auto simp: insort_key_map)

lemma insort_key_pair:
  "\<forall>y \<in> set xs. r x \<le> r y \<Longrightarrow> insort_key (\<lambda>d. (f d, r d)) x xs = insort_key f x xs"
  by (induction xs) auto

lemma sort_key_refines:
  "sorted_wrt (\<lambda>a b. r a \<le> r b) xs \<Longrightarrow> sort_key (\<lambda>d. (f d, r d)) xs = sort_key f xs"
  by (induction xs) (auto simp: insort_key_pair)

lemma sort_key_same_mset:
  assumes "mset xs = mset ys" and "inj_on f (set xs)"
  shows "sort_key f xs = sort_key f ys"
  by (rule sort_key_inj_key_eq [OF _ assms(2)]) (simp_all add: assms(1))

end
