(* ===== verification/Search_Build.thy ===== *)
theory Search_Build
  imports Search_Order
begin

text \<open>
  What \<open>createIndex\<close> builds: the flat arrays hold, for every term of the vocabulary, the documents that
  have it with its frequency, and for every document the positions of its folded tags.
\<close>

section \<open>Terms of a document\<close>

definition counts_ok :: "term_counts \<Rightarrow> bool" where
  "counts_ok m = (distinct (keys_of m) \<and> vals_all (\<lambda>n. 0 < n) m)"

lemma accumulate_ok: "0 < w \<Longrightarrow> counts_ok m \<Longrightarrow> counts_ok (accumulate w s m)"
  unfolding accumulate_def
  by (rule fold_invariant [where Q = "\<lambda>_. True"]) (auto simp: counts_ok_def vals_all_update)

lemma fold_accumulate_ok: "0 < w \<Longrightarrow> counts_ok m \<Longrightarrow> counts_ok (fold (accumulate w) ss m)"
  by (rule fold_invariant [where Q = "\<lambda>_. True"]) (auto simp: accumulate_ok)

lemma document_terms_ok: "counts_ok (document_terms d)"
proof -
  have "counts_ok []" by (simp add: counts_ok_def)
  then show ?thesis
    unfolding document_terms_def Let_def
    by (intro fold_accumulate_ok accumulate_ok)
       (auto simp: nameWeight_def descriptionWeight_def tagWeight_def routeWeight_def parameterWeight_def
         split: option.split intro!: accumulate_ok)
qed

definition freq_of :: "search_document \<Rightarrow> string \<Rightarrow> nat" where
  "freq_of d t = (case map_of (document_terms d) t of Some n \<Rightarrow> n | None \<Rightarrow> 0)"

lemma freq_of_pos: "0 < freq_of d t \<longleftrightarrow> t \<in> set (keys_of (document_terms d))"
  using document_terms_ok [of d]
  by (auto simp: freq_of_def counts_ok_def set_keys_of split: option.splits dest: vals_allD)

section \<open>Postings\<close>

definition posting_ids :: "search_document list \<Rightarrow> string \<Rightarrow> nat list" where
  "posting_ids docs t = filter (\<lambda>i. 0 < freq_of (docs ! i) t) [0..<length docs]"

definition posting :: "search_document list \<Rightarrow> string \<Rightarrow> posting_list" where
  "posting docs t = (posting_ids docs t, map (\<lambda>i. freq_of (docs ! i) t) (posting_ids docs t))"

lemma posting_ids_snoc:
  "posting_ids (docs @ [d]) t = posting_ids docs t @ (if 0 < freq_of d t then [length docs] else [])"
  by (auto simp: posting_ids_def nth_append intro!: filter_cong)

lemma posting_ids_bound: "i \<in> set (posting_ids docs t) \<Longrightarrow> i < length docs"
  by (auto simp: posting_ids_def)

lemma posting_snoc:
  "posting (docs @ [d]) t = (if 0 < freq_of d t
     then (fst (posting docs t) @ [length docs], snd (posting docs t) @ [freq_of d t]) else posting docs t)"
  by (auto simp: posting_def posting_ids_snoc nth_append dest: posting_ids_bound)

lemma fold_add_posting:
  "distinct (keys_of es) \<Longrightarrow> map_of (fold (add_posting n) es m) t =
     (case map_of es t of None \<Rightarrow> map_of m t
      | Some f \<Rightarrow> Some (case map_of m t of None \<Rightarrow> ([n], [f]) | Some (is, fs) \<Rightarrow> (is @ [n], fs @ [f])))"
proof (induction es arbitrary: m)
  case (Cons e es)
  obtain k f where e: "e = (k, f)" by (cases e)
  have "map_of es k = None" using Cons.prems by (simp add: e map_of_eq_None_iff keys_of_def)
  with Cons e show ?case by (auto simp: add_posting_def split: option.splits)
qed simp

lemma fold_add_posting_distinct: "distinct (keys_of m) \<Longrightarrow> distinct (keys_of (fold (add_posting n) es m))"
  by (rule fold_invariant [where Q = "\<lambda>_. True"]) (auto simp: add_posting_def split: prod.splits)

definition build_ok :: "search_document list \<Rightarrow> index_build \<Rightarrow> bool" where
  "build_ok docs b = (ib_documents b = map (\<lambda>d. (sd_name d, document_length d)) docs
     \<and> ib_documentTags b = map foldedTags docs
     \<and> distinct (ib_allTags b) \<and> set (ib_allTags b) = (\<Union>d \<in> set docs. set (foldedTags d))
     \<and> distinct (keys_of (ib_postings b))
     \<and> (\<forall>t. map_of (ib_postings b) t = (if posting_ids docs t = [] then None else Some (posting docs t))))"

lemma index_document_ok: "build_ok docs b \<Longrightarrow> build_ok (docs @ [d]) (index_document d b)"
proof -
  assume b: "build_ok docs b"
  have "distinct (keys_of (document_terms d))" using document_terms_ok [of d] by (simp add: counts_ok_def)
  note f = fold_add_posting [OF this]
  have "map_of (fold (add_posting (length docs)) (document_terms d) (ib_postings b)) t
      = (if posting_ids (docs @ [d]) t = [] then None else Some (posting (docs @ [d]) t))" for t
  proof (cases "map_of (document_terms d) t")
    case None
    then have "freq_of d t = 0" by (simp add: freq_of_def)
    with None b show ?thesis by (simp add: f posting_ids_snoc posting_snoc build_ok_def)
  next
    case (Some n)
    then have "freq_of d t = n" by (simp add: freq_of_def)
    moreover have "0 < freq_of d t" using Some by (auto simp: freq_of_pos set_keys_of)
    moreover have "posting_ids docs t = [] \<Longrightarrow> posting docs t = ([], [])" by (simp add: posting_def)
    ultimately show ?thesis using Some b
      by (auto simp: f posting_ids_snoc posting_snoc build_ok_def split: prod.split)
  qed
  moreover have "length (ib_documents b) = length docs" using b by (simp add: build_ok_def)
  ultimately show ?thesis using b
    by (auto simp: build_ok_def index_document_def Let_def fold_set_add distinct_fold_set_add fold_add_posting_distinct)
qed

lemma build_documents_ok: "build_ok docs (fold index_document docs index_start)"
proof (induction docs rule: rev_induct)
  case Nil
  show ?case by (simp add: build_ok_def index_start_def posting_ids_def)
next
  case (snoc d docs)
  then show ?case by (simp add: index_document_ok)
qed

section \<open>Flat arrays\<close>

definition offsets_of :: "'a list list \<Rightarrow> nat list" where
  "offsets_of xss = map (\<lambda>i. length (concat (take i xss))) [0..<length xss]"

lemma offsets_snoc: "offsets_of (xss @ [xs]) = offsets_of xss @ [length (concat xss)]"
  by (simp add: offsets_of_def)

lemma flat_arrays:
  "\<forall>t \<in> set ts. map_of m t = Some (p t) \<Longrightarrow> fold (flat_step m) ts ([], [], [])
     = (offsets_of (map (fst \<circ> p) ts), concat (map (fst \<circ> p) ts), concat (map (snd \<circ> p) ts))"
proof (induction ts rule: rev_induct)
  case (snoc t ts)
  then show ?case by (cases "p t") (simp add: flat_step_def offsets_snoc)
qed (simp add: offsets_of_def)

lemma flat_tags:
  "fold (flat_tags_step v) tss ([], []) = (offsets_of (map (map (lowerBound v)) tss), concat (map (map (lowerBound v)) tss))"
  by (induction tss rule: rev_induct) (simp_all add: flat_tags_step_def offsets_snoc, simp add: offsets_of_def)

lemma offsets_nth:
  "i \<le> length xss \<Longrightarrow> (offsets_of xss @ [length (concat xss)]) ! i = length (concat (take i xss))"
  by (cases "i = length xss") (auto simp: offsets_of_def nth_append)

lemma map_nth_range:
  "length xs = a \<Longrightarrow> map ((!) (xs @ ys @ zs)) [a..<a + length ys] = ys"
  by (rule nth_equalityI) (auto simp: nth_append)

lemma flat_slice:
  assumes "i < length xss"
  shows "map ((!) (concat xss)) [length (concat (take i xss))..<length (concat (take (Suc i) xss))] = xss ! i"
proof -
  have c: "concat xss = concat (take i xss) @ xss ! i @ concat (drop (Suc i) xss)"
    using id_take_nth_drop [OF assms] by (metis concat.simps(2) concat_append)
  have "length (concat (take (Suc i) xss)) = length (concat (take i xss)) + length (xss ! i)"
    using assms by (simp add: take_Suc_conv_app_nth)
  then show ?thesis using map_nth_range [OF refl, of "concat (take i xss)" "xss ! i" "concat (drop (Suc i) xss)"]
    by (simp flip: c)
qed

lemma rank_step_pair [simp]: "rank_step (k, d) ranks = ranks[d := k]"
  by (simp add: rank_step_def)

lemma ranks_fold:
  "\<lbrakk>distinct ids; set ids \<subseteq> {..<length ranks}; i < length ids\<rbrakk> \<Longrightarrow>
   fold rank_step (enumerate k ids) ranks ! (ids ! i) = k + i
   \<and> length (fold rank_step (enumerate k ids) ranks) = length ranks"
proof (induction ids arbitrary: k ranks i)
  case (Cons d ids)
  have keep: "d' \<notin> set ids' \<Longrightarrow> fold rank_step (enumerate k' ids') r ! d' = r ! d'" for d' ids' k' r
    by (induction ids' arbitrary: k' r) auto
  have len: "length (fold rank_step (enumerate k' ids') r) = length r" for ids' k' r
    by (induction ids' arbitrary: k' r) auto
  show ?case
  proof (cases i)
    case 0
    with Cons.prems show ?thesis by (simp add: keep len)
  next
    case (Suc j)
    with Cons.prems Cons.IH [of "ranks[d := k]" j "Suc k"] show ?thesis by simp
  qed
qed simp

end
