(* ===== verification/Search_Scan.thy ===== *)
theory Search_Scan
  imports Search_Build
begin

text \<open>
  The ranked search against a scan of the documents: every document is scored on its own from its
  terms, and the answer is the documents in name order, sorted by score.
\<close>

section \<open>The scan\<close>

definition term_matches :: "string \<Rightarrow> string \<Rightarrow> bool" where
  "term_matches q t = (if length q < prefixMinimumLength then t = q else starts_with q t)"

definition query_frequency :: "search_document \<Rightarrow> string \<Rightarrow> nat" where
  "query_frequency d q = sum_list (map snd (filter (\<lambda>(t, n). term_matches q t) (document_terms d)))"

definition document_frequency :: "search_document list \<Rightarrow> string \<Rightarrow> nat" where
  "document_frequency docs q = length (filter (\<lambda>d. 0 < query_frequency d q) docs)"

definition scan_score :: "('w :: {zero, plus}) weighing \<Rightarrow> search_document list \<Rightarrow> string list \<Rightarrow> search_document \<Rightarrow> 'w" where
  "scan_score weigh docs qs d = fold (\<lambda>q s. if 0 < query_frequency d q
     then s + weigh (length docs) (sum_list (map document_length docs)) (document_frequency docs q)
       (query_frequency d q) (document_length d)
     else s) qs 0"

definition has_tags :: "string list \<Rightarrow> search_document \<Rightarrow> bool" where
  "has_tags tags d = (\<forall>tag \<in> set tags. foldToken tag \<in> foldToken ` set (sd_tags d))"

definition matches_query :: "string list \<Rightarrow> search_document \<Rightarrow> bool" where
  "matches_query qs d = (\<exists>q \<in> set qs. 0 < query_frequency d q)"

definition scan :: "('w :: {zero, plus, uminus, linorder}) weighing \<Rightarrow> search_document list \<Rightarrow> string \<Rightarrow> string list
    \<Rightarrow> string list" where
  "scan weigh docs query tags =
     (let by_name = sort_key sd_name docs; qs = tokenize query
      in map sd_name (if qs = [] then filter (has_tags tags) by_name
         else sort_key (\<lambda>d. - scan_score weigh docs qs d)
           (filter (\<lambda>d. has_tags tags d \<and> matches_query qs d) by_name)))"

section \<open>The arrays of a created index\<close>

definition built :: "search_document list \<Rightarrow> index_build" where
  "built docs = fold index_document docs index_start"

definition words_of :: "search_document list \<Rightarrow> string list" where
  "words_of docs = sort (keys_of (ib_postings (built docs)))"

definition tags_of :: "search_document list \<Rightarrow> string list" where
  "tags_of docs = sort (ib_allTags (built docs))"

definition order_of :: "search_document list \<Rightarrow> nat list" where
  "order_of docs = sort_key (\<lambda>i. sd_name (docs ! i)) [0..<length docs]"

definition tag_ids :: "search_document list \<Rightarrow> nat list list" where
  "tag_ids docs = map (map (lowerBound (tags_of docs)) \<circ> foldedTags) docs"

lemma built_ok: "build_ok docs (built docs)"
  unfolding built_def by (rule build_documents_ok)

lemma words_facts:
  "sorted (words_of docs)" "distinct (words_of docs)" "t \<in> set (words_of docs) \<longleftrightarrow> posting_ids docs t \<noteq> []"
  using built_ok [of docs] by (auto simp: words_of_def build_ok_def set_keys_of dom_def split: if_splits)

lemma tags_facts:
  "sorted (tags_of docs)" "distinct (tags_of docs)" "set (tags_of docs) = (\<Union>d \<in> set docs. set (foldedTags d))"
  using built_ok [of docs] by (auto simp: tags_of_def build_ok_def)

lemma createIndex_eq:
  "createIndex docs =
     \<lparr>ti_documents = map (\<lambda>d. (sd_name d, document_length d)) docs,
      ti_totalLength = sum_list (map document_length docs),
      ti_ordinalDocumentIds = order_of docs,
      ti_ordinalRanks = fold rank_step (enumerate 0 (order_of docs)) (replicate (length docs) 0),
      ti_vocabulary = words_of docs,
      ti_postingOffsets = offsets_of (map (posting_ids docs) (words_of docs))
        @ [length (concat (map (posting_ids docs) (words_of docs)))],
      ti_postingDocumentIds = concat (map (posting_ids docs) (words_of docs)),
      ti_postingFrequencies = concat (map (snd \<circ> posting docs) (words_of docs)),
      ti_tagVocabulary = tags_of docs,
      ti_documentTagOffsets = offsets_of (tag_ids docs) @ [length (concat (tag_ids docs))],
      ti_documentTagIds = concat (tag_ids docs)\<rparr>"
proof -
  note b = built_ok [of docs, unfolded build_ok_def]
  have o: "sort_key (\<lambda>d. fst (ib_documents (built docs) ! d)) [0..<length (ib_documents (built docs))] = order_of docs"
    using b unfolding order_of_def by (simp add: sort_key_agree)
  have "\<forall>t \<in> set (words_of docs). map_of (ib_postings (built docs)) t = Some (posting docs t)"
    using b words_facts(3) by simp
  note f = flat_arrays [OF this]
  have "fst \<circ> posting docs = posting_ids docs" by (auto simp: posting_def)
  with f flat_tags [of "tags_of docs" "map foldedTags docs"] b o show ?thesis
    unfolding createIndex_def
    by (simp add: Let_def words_of_def [symmetric] tags_of_def [symmetric] built_def [symmetric] tag_ids_def comp_def)
qed

section \<open>One query term\<close>

lemma filter_equal_distinct: "distinct xs \<Longrightarrow> filter (\<lambda>t. t = q) xs = (if q \<in> set xs then [q] else [])"
  by (induction xs) (auto simp: filter_empty_conv)

lemma term_entries_words:
  "map ((!) (words_of docs)) (term_entries (createIndex docs) q) = filter (term_matches q) (words_of docs)"
proof (cases "length q < prefixMinimumLength")
  case True
  have "filter (\<lambda>t. t = q) (words_of docs) = (if q \<in> set (words_of docs) then [q] else [])"
    by (rule filter_equal_distinct) (rule words_facts)
  with True lowerBound_hit [OF words_facts(1,2), of docs q] show ?thesis
    by (auto simp: term_entries_def Let_def createIndex_eq term_matches_def [abs_def])
next
  case False
  with prefix_block [OF words_facts(1), of docs q] show ?thesis
    by (simp add: term_entries_def Let_def createIndex_eq term_matches_def [abs_def])
qed

lemma term_entries_bound: "i \<in> set (term_entries (createIndex docs) q) \<Longrightarrow> i < length (words_of docs)"
  by (auto simp: term_entries_def Let_def createIndex_eq split: if_splits dest!: set_takeWhileD)

definition entries_of :: "search_document list \<Rightarrow> string \<Rightarrow> (nat \<times> nat) list" where
  "entries_of docs t = map (\<lambda>i. (i, freq_of (docs ! i) t)) (posting_ids docs t)"

lemma posting_arrays:
  fixes docs :: "search_document list"
  assumes "i < length ts"
  defines "A \<equiv> map (posting_ids docs) ts" and "B \<equiv> map (snd \<circ> posting docs) ts"
  shows "map (\<lambda>j. (concat A ! j, concat B ! j)) [(offsets_of A @ [length (concat A)]) ! i
    ..< (offsets_of A @ [length (concat A)]) ! (i + 1)] = entries_of docs (ts ! i)"
proof -
  have n: "i < length A" "i < length B" using assms by simp_all
  have l: "length (concat (take k B)) = length (concat (take k A))" for k
    by (simp add: A_def B_def length_concat take_map comp_def posting_def)
  have o: "(offsets_of A @ [length (concat A)]) ! i = length (concat (take i A))"
    "(offsets_of A @ [length (concat A)]) ! (i + 1) = length (concat (take (Suc i) A))"
    using offsets_nth [of i A] offsets_nth [of "Suc i" A] n by simp_all
  have a: "map ((!) (concat A)) [length (concat (take i A))..<length (concat (take (Suc i) A))] = posting_ids docs (ts ! i)"
    using flat_slice [OF n(1)] assms by simp
  have b: "map ((!) (concat B)) [length (concat (take i A))..<length (concat (take (Suc i) A))] = snd (posting docs (ts ! i))"
    using flat_slice [OF n(2)] assms(1) by (simp add: l) (simp add: B_def)
  have "map (\<lambda>j. (concat A ! j, concat B ! j)) r = zip (map ((!) (concat A)) r) (map ((!) (concat B)) r)" for r
    by (simp add: zip_map_map zip_same_conv_map)
  moreover have "zip (posting_ids docs (ts ! i)) (snd (posting docs (ts ! i))) = entries_of docs (ts ! i)"
    by (simp add: posting_def entries_of_def zip_map2 zip_same_conv_map)
  ultimately show ?thesis unfolding o by (simp only: a b)
qed

lemma addPosting_entries:
  assumes "i < length (words_of docs)"
  shows "addPostingFrequencies (createIndex docs) i st = fold add_frequency (entries_of docs (words_of docs ! i)) st"
  unfolding posting_arrays [OF assms, symmetric] by (simp add: addPostingFrequencies_def createIndex_eq fold_map comp_def)

definition query_entries_of :: "search_document list \<Rightarrow> string \<Rightarrow> (nat \<times> nat) list" where
  "query_entries_of docs q = concat (map (entries_of docs) (filter (term_matches q) (words_of docs)))"

lemma fold_addPosting:
  "\<forall>i \<in> set is. i < length (words_of docs) \<Longrightarrow> fold (addPostingFrequencies (createIndex docs)) is st
     = fold add_frequency (concat (map (entries_of docs) (map ((!) (words_of docs)) is))) st"
  by (induction "is" arbitrary: st) (simp_all add: addPosting_entries)

lemma fold_term_entries:
  "fold (addPostingFrequencies (createIndex docs)) (term_entries (createIndex docs) q) st
     = fold add_frequency (query_entries_of docs q) st"
  using fold_addPosting [of "term_entries (createIndex docs) q" docs st]
  unfolding query_entries_of_def term_entries_words [symmetric] by (simp add: term_entries_bound)

section \<open>Frequencies\<close>

definition entry_sum :: "nat \<Rightarrow> (nat \<times> nat) list \<Rightarrow> nat" where
  "entry_sum d es = sum_list (map snd (filter (\<lambda>e. fst e = d) es))"

lemma entry_sum_simps [simp]:
  "entry_sum d [] = 0" "entry_sum d (e # es) = (if fst e = d then snd e else 0) + entry_sum d es"
  "entry_sum d (es @ fs) = entry_sum d es + entry_sum d fs"
  by (auto simp: entry_sum_def)

lemma add_frequency_pair:
  "add_frequency (d, f) (totals, touched) =
     (totals[d := totals ! d + f], if totals ! d = 0 then touched @ [d] else touched)"
  by (simp add: add_frequency_def)

lemma fold_add_frequency:
  assumes "\<forall>(d, f) \<in> set es. d < length totals \<and> 0 < f"
    and "distinct touched" and "set touched = {d. d < length totals \<and> 0 < totals ! d}"
  shows "case fold add_frequency es (totals, touched) of (totals', touched') \<Rightarrow>
     length totals' = length totals \<and> (\<forall>d < length totals. totals' ! d = totals ! d + entry_sum d es)
     \<and> distinct touched' \<and> set touched' = {d. d < length totals \<and> 0 < totals' ! d}"
  using assms
proof (induction es arbitrary: totals touched)
  case (Cons e es)
  obtain d f where e: "e = (d, f)" by (cases e)
  let ?totals = "totals[d := totals ! d + f]" and ?touched = "if totals ! d = 0 then touched @ [d] else touched"
  have d: "d < length totals" "0 < f" using Cons.prems(1) by (auto simp: e)
  have "set ?touched = {x. x < length ?totals \<and> 0 < ?totals ! x}"
    using d Cons.prems(3) by (auto simp: nth_list_update)
  moreover have "distinct ?touched" using Cons.prems(2,3) by auto
  ultimately have "case fold add_frequency es (?totals, ?touched) of (totals', touched') \<Rightarrow>
     length totals' = length ?totals \<and> (\<forall>d < length ?totals. totals' ! d = ?totals ! d + entry_sum d es)
     \<and> distinct touched' \<and> set touched' = {d. d < length ?totals \<and> 0 < totals' ! d}"
    using Cons.prems(1) by (intro Cons.IH) auto
  with d show ?case by (auto simp: e add_frequency_pair nth_list_update split: prod.splits)
qed auto

lemma entry_sum_upt:
  "entry_sum d (map (\<lambda>i. (i, g i)) (filter (\<lambda>i. 0 < g i) [0..<n])) = (if d < n then g d else 0)"
  by (induction n) (auto simp: less_Suc_eq)

lemma entry_sum_entries: "entry_sum d (entries_of docs t) = (if d < length docs then freq_of (docs ! d) t else 0)"
  unfolding entries_of_def posting_ids_def by (rule entry_sum_upt)

lemma entry_sum_concat: "entry_sum d (concat (map h ts)) = sum_list (map (\<lambda>t. entry_sum d (h t)) ts)"
  by (induction ts) auto

lemma freq_in_words: "d \<in> set docs \<Longrightarrow> 0 < freq_of d t \<Longrightarrow> t \<in> set (words_of docs)"
  unfolding words_facts(3) by (auto simp: posting_ids_def filter_empty_conv in_set_conv_nth)

lemma query_frequency_keys:
  "query_frequency d q = (\<Sum>t \<in> {t \<in> set (keys_of (document_terms d)). term_matches q t}. freq_of d t)"
proof -
  let ?m = "document_terms d"
  have dm: "distinct (map fst ?m)" using document_terms_ok [of d] by (simp add: counts_ok_def keys_of_def)
  have "map snd (filter (\<lambda>(t, n). term_matches q t) ?m) = map (freq_of d) (filter (term_matches q) (keys_of ?m))"
    using dm by (auto simp: keys_of_def filter_map freq_of_def comp_def case_prod_unfold intro!: filter_cong)
  then have "query_frequency d q = sum_list (map (freq_of d) (filter (term_matches q) (keys_of ?m)))"
    by (simp add: query_frequency_def)
  also have "\<dots> = (\<Sum>t \<in> set (filter (term_matches q) (keys_of ?m)). freq_of d t)"
    using dm by (intro sum_list_distinct_conv_sum_set) (simp add: keys_of_def)
  finally show ?thesis by simp
qed

lemma query_entries_sum:
  assumes "d < length docs"
  shows "entry_sum d (query_entries_of docs q) = query_frequency (docs ! d) q"
proof -
  have "entry_sum d (query_entries_of docs q) = sum_list (map (freq_of (docs ! d)) (filter (term_matches q) (words_of docs)))"
    using assms by (simp add: query_entries_of_def entry_sum_concat entry_sum_entries)
  also have "\<dots> = (\<Sum>t \<in> set (filter (term_matches q) (words_of docs)). freq_of (docs ! d) t)"
    using words_facts(2) by (intro sum_list_distinct_conv_sum_set) simp
  also have "\<dots> = (\<Sum>t \<in> {t \<in> set (keys_of (document_terms (docs ! d))). term_matches q t}. freq_of (docs ! d) t)"
    using freq_in_words [of "docs ! d" docs] assms
    by (intro sum.mono_neutral_right) (auto simp: freq_of_pos [symmetric])
  finally show ?thesis by (simp add: query_frequency_keys)
qed

lemma query_entries_ok: "\<forall>(d, f) \<in> set (query_entries_of docs q). d < length docs \<and> 0 < f"
  by (auto simp: query_entries_of_def entries_of_def posting_ids_def)

section \<open>Scores\<close>

definition positive_weights :: "real weighing \<Rightarrow> bool" where
  "positive_weights weigh = (\<forall>n l df tf len. 0 < df \<longrightarrow> df \<le> n \<longrightarrow> 0 < tf \<longrightarrow> 0 < weigh n l df tf len)"

lemma term_weight_positive: "positive_weights term_weight"
  unfolding positive_weights_def
proof (intro allI impI)
  fix n l df tf len :: nat
  assume df: "0 < df" "df \<le> n" and tf: "0 < tf"
  have "0 < (real n - real df + 1 / 2) / (real df + 1 / 2)" using df by (intro divide_pos_pos) auto
  then have idf: "0 < ln (1 + (real n - real df + 1 / 2) / (real df + 1 / 2))" by simp
  define x where "x = (3 / 4 * (real len / 2)) / ((real l / 2) / real n)"
  have "0 \<le> x" by (simp add: x_def)
  then have "0 < real tf / 2 + 12 / 10 * (1 - 3 / 4 + x)" using tf by (simp add: add_pos_nonneg)
  then have "0 < real tf / 2 * (12 / 10 + 1) / (real tf / 2 + 12 / 10 * (1 - 3 / 4 + x))"
    using tf by (intro divide_pos_pos) auto
  with idf show "0 < term_weight n l df tf len" unfolding term_weight_def Let_def x_def by (rule mult_pos_pos)
qed

definition doc_weight :: "real weighing \<Rightarrow> search_document list \<Rightarrow> string \<Rightarrow> search_document \<Rightarrow> real" where
  "doc_weight weigh docs q d = weigh (length docs) (sum_list (map document_length docs)) (document_frequency docs q)
     (query_frequency d q) (document_length d)"

lemma scan_score_snoc:
  "scan_score weigh docs (qs @ [q]) d = scan_score weigh docs qs d
     + (if 0 < query_frequency d q then doc_weight weigh docs q d else 0)"
  by (simp add: scan_score_def doc_weight_def)

lemma document_frequency_bounds:
  assumes "d \<in> set docs" and "0 < query_frequency d q"
  shows "0 < document_frequency docs q" and "document_frequency docs q \<le> length docs"
  using assms by (auto simp: document_frequency_def length_greater_0_conv filter_empty_conv simp del: length_greater_0_conv length_0_conv)

lemma doc_weight_positive:
  "positive_weights weigh \<Longrightarrow> d \<in> set docs \<Longrightarrow> 0 < query_frequency d q \<Longrightarrow> 0 < doc_weight weigh docs q d"
  using document_frequency_bounds [of d docs q] by (auto simp: positive_weights_def doc_weight_def)

lemma matches_query_snoc: "matches_query (qs @ [q]) d \<longleftrightarrow> matches_query qs d \<or> 0 < query_frequency d q"
  by (auto simp: matches_query_def)

lemma scan_score_sign:
  assumes "positive_weights weigh" and "d \<in> set docs"
  shows "0 \<le> scan_score weigh docs qs d" and "scan_score weigh docs qs d = 0 \<longleftrightarrow> \<not> matches_query qs d"
proof -
  have "0 \<le> scan_score weigh docs qs d \<and> (scan_score weigh docs qs d = 0 \<longleftrightarrow> \<not> matches_query qs d)"
  proof (induction qs rule: rev_induct)
    case Nil
    show ?case by (simp add: scan_score_def matches_query_def)
  next
    case (snoc q qs)
    then show ?case using doc_weight_positive [OF assms, of q]
      by (auto simp: scan_score_snoc matches_query_snoc)
  qed
  then show "0 \<le> scan_score weigh docs qs d" "scan_score weigh docs qs d = 0 \<longleftrightarrow> \<not> matches_query qs d" by auto
qed

lemma score_document_eq:
  "score_document weigh (createIndex docs) df d (totals, scores, scored) =
     (totals[d := 0],
      scores[d := scores ! d + weigh (length docs) (sum_list (map document_length docs)) df (totals ! d)
        (snd (map (\<lambda>d. (sd_name d, document_length d)) docs ! d))],
      if scores ! d = 0 then scored @ [d] else scored)"
  by (simp add: score_document_def createIndex_eq)

lemma fold_score_document:
  fixes weigh :: "real weighing"
  assumes "distinct ds" and "\<forall>d \<in> set ds. d < length docs" and "length totals = length docs"
    and "length scores = length docs" and "distinct scored"
    and "\<forall>d \<in> set ds. scores ! d = 0 \<longleftrightarrow> d \<notin> set scored"
  shows "case fold (score_document weigh (createIndex docs) df) ds (totals, scores, scored) of
      (totals', scores', scored') \<Rightarrow>
        length totals' = length docs \<and> (\<forall>d < length docs. totals' ! d = (if d \<in> set ds then 0 else totals ! d))
      \<and> length scores' = length docs
      \<and> (\<forall>d < length docs. scores' ! d = (if d \<in> set ds then scores ! d
            + weigh (length docs) (sum_list (map document_length docs)) df (totals ! d) (document_length (docs ! d))
          else scores ! d))
      \<and> distinct scored' \<and> set scored' = set scored \<union> set ds"
  using assms
proof (induction ds arbitrary: totals scores scored)
  case (Cons d ds)
  let ?w = "weigh (length docs) (sum_list (map document_length docs)) df (totals ! d) (document_length (docs ! d))"
  let ?totals = "totals[d := 0]" and ?scores = "scores[d := scores ! d + ?w]"
    and ?scored = "if scores ! d = 0 then scored @ [d] else scored"
  have d: "d < length docs" "d \<notin> set ds" using Cons.prems by auto
  have step: "score_document weigh (createIndex docs) df d (totals, scores, scored) = (?totals, ?scores, ?scored)"
    using d by (simp add: score_document_eq)
  have set: "set ?scored = insert d (set scored)" "distinct ?scored" using Cons.prems(5,6) d by auto
  obtain totals' scores' scored' where eq: "fold (score_document weigh (createIndex docs) df) ds (?totals, ?scores, ?scored)
      = (totals', scores', scored')"
    by (rule prod_cases3)
  have "\<forall>x \<in> set ds. ?scores ! x = 0 \<longleftrightarrow> x \<notin> set ?scored"
  proof
    fix x assume x: "x \<in> set ds"
    with d(2) have "x \<noteq> d" by auto
    with x Cons.prems(6) show "?scores ! x = 0 \<longleftrightarrow> x \<notin> set ?scored" by (simp add: set(1))
  qed
  with Cons.IH [of ?totals ?scores ?scored, unfolded eq] Cons.prems set(2) show ?case
    unfolding fold.simps comp_apply step eq using d set(1) by (auto simp: nth_list_update)
qed simp

section \<open>The whole query\<close>

definition search_inv :: "real weighing \<Rightarrow> search_document list \<Rightarrow> string list \<Rightarrow> real search_state \<Rightarrow> bool" where
  "search_inv weigh docs qs st = (case st of (frequencies, scores, scored) \<Rightarrow>
     frequencies = replicate (length docs) 0 \<and> length scores = length docs
     \<and> (\<forall>d < length docs. scores ! d = scan_score weigh docs qs (docs ! d))
     \<and> distinct scored \<and> set scored = {d. d < length docs \<and> matches_query qs (docs ! d)})"

lemma matching_documents:
  assumes "fold (addPostingFrequencies (createIndex docs)) (term_entries (createIndex docs) q) (replicate (length docs) 0, [])
      = (totals, matching)"
  shows "length totals = length docs" and "\<forall>d < length docs. totals ! d = query_frequency (docs ! d) q"
    and "distinct matching" and "set matching = {d. d < length docs \<and> 0 < query_frequency (docs ! d) q}"
    and "length matching = document_frequency docs q"
proof -
  from fold_add_frequency [of "query_entries_of docs q" "replicate (length docs) 0" "[]"] query_entries_ok [of docs q]
  have f: "length totals = length docs"
    "\<forall>d < length docs. totals ! d = query_frequency (docs ! d) q"
    "distinct matching" "set matching = {d. d < length docs \<and> 0 < totals ! d}"
    using assms unfolding fold_term_entries by (auto simp: query_entries_sum)
  then have m: "set matching = {d. d < length docs \<and> 0 < query_frequency (docs ! d) q}" by auto
  then have "length matching = card {d. d < length docs \<and> 0 < query_frequency (docs ! d) q}"
    using distinct_card [OF f(3)] by simp
  also have "\<dots> = document_frequency docs q"
    by (simp add: document_frequency_def length_filter_conv_card)
  finally show "length totals = length docs" "\<forall>d < length docs. totals ! d = query_frequency (docs ! d) q"
    "distinct matching" "set matching = {d. d < length docs \<and> 0 < query_frequency (docs ! d) q}"
    "length matching = document_frequency docs q" using f m by auto
qed

lemma term_step_inv:
  assumes "positive_weights weigh" and "search_inv weigh docs qs st"
  shows "search_inv weigh docs (qs @ [q]) (term_step weigh (createIndex docs) q st)"
proof -
  obtain scores scored where st: "st = (replicate (length docs) 0, scores, scored)"
    and s: "length scores = length docs" "\<forall>d < length docs. scores ! d = scan_score weigh docs qs (docs ! d)"
    "distinct scored" "set scored = {d. d < length docs \<and> matches_query qs (docs ! d)}"
    using assms(2) by (cases st) (auto simp: search_inv_def)
  obtain totals matching where m: "fold (addPostingFrequencies (createIndex docs)) (term_entries (createIndex docs) q)
      (replicate (length docs) 0, []) = (totals, matching)" by (cases rule: prod.exhaust)
  note f = matching_documents [OF m]
  have "\<forall>d \<in> set matching. scores ! d = 0 \<longleftrightarrow> d \<notin> set scored"
    using s f(4) scan_score_sign(2) [OF assms(1), of _ docs qs] by auto
  moreover obtain totals' scores' scored' where e: "fold (score_document weigh (createIndex docs) (length matching)) matching
      (totals, scores, scored) = (totals', scores', scored')" by (rule prod_cases3)
  ultimately have r: "length totals' = length docs" "\<forall>d < length docs. totals' ! d = (if d \<in> set matching then 0 else totals ! d)"
    "length scores' = length docs" "distinct scored'" "set scored' = set scored \<union> set matching"
    "\<forall>d < length docs. scores' ! d = (if d \<in> set matching then scores ! d
        + weigh (length docs) (sum_list (map document_length docs)) (length matching) (totals ! d) (document_length (docs ! d))
      else scores ! d)"
    using fold_score_document [of matching docs totals scores scored weigh "length matching"] f s by auto
  have "term_step weigh (createIndex docs) q st = (totals', scores', scored')"
    using m e by (auto simp: term_step_def st)
  moreover have "totals' = replicate (length docs) 0"
    using r(1,2) f(2,4) by (intro nth_equalityI) auto
  moreover have "scores' ! d = scan_score weigh docs (qs @ [q]) (docs ! d)" if "d < length docs" for d
    using that r(6) f s(2) by (auto simp: scan_score_snoc doc_weight_def)
  moreover have "set scored' = {d. d < length docs \<and> matches_query (qs @ [q]) (docs ! d)}"
    using r(5) s(4) f(4) by (auto simp: matches_query_snoc)
  ultimately show ?thesis using r(3,4) by (simp add: search_inv_def)
qed

lemma term_steps_inv:
  "positive_weights weigh \<Longrightarrow> search_inv weigh docs qs
     (fold (term_step weigh (createIndex docs)) qs (replicate (length docs) 0, replicate (length docs) 0, []))"
proof (induction qs rule: rev_induct)
  case Nil
  show ?case by (simp add: search_inv_def scan_score_def matches_query_def)
next
  case (snoc q qs)
  then show ?case by (simp add: term_step_inv)
qed

end
