(* ===== verification/Search_Properties.thy ===== *)
theory Search_Properties
  imports Search_Scan
begin

text \<open>
  The index search equals the scan: the tag filter, the order of names and ranks, and the two ways a
  search ends.
\<close>

section \<open>The tag filter\<close>

lemma document_tag_slice:
  assumes "d < length docs"
  shows "map ((!) (ti_documentTagIds (createIndex docs)))
      [ti_documentTagOffsets (createIndex docs) ! d..<ti_documentTagOffsets (createIndex docs) ! (d + 1)]
    = map (lowerBound (tags_of docs)) (foldedTags (docs ! d))"
proof -
  have n: "d < length (tag_ids docs)" using assms by (simp add: tag_ids_def)
  have "(offsets_of (tag_ids docs) @ [length (concat (tag_ids docs))]) ! d = length (concat (take d (tag_ids docs)))"
    "(offsets_of (tag_ids docs) @ [length (concat (tag_ids docs))]) ! (d + 1) = length (concat (take (Suc d) (tag_ids docs)))"
    using offsets_nth [of d "tag_ids docs"] offsets_nth [of "Suc d" "tag_ids docs"] n by simp_all
  with flat_slice [OF n] assms show ?thesis by (simp add: createIndex_eq) (simp add: tag_ids_def)
qed

definition tag_position :: "search_document list \<Rightarrow> string \<Rightarrow> nat" where
  "tag_position docs t = (let i = lowerBound (tags_of docs) t
     in if i < length (tags_of docs) \<and> tags_of docs ! i = t then i else length (tags_of docs))"

lemma tag_position_carried:
  assumes "d < length docs"
  shows "tag_position docs t \<in> lowerBound (tags_of docs) ` set (foldedTags (docs ! d)) \<longleftrightarrow> t \<in> set (foldedTags (docs ! d))"
proof -
  have sub: "set (foldedTags (docs ! d)) \<subseteq> set (tags_of docs)"
    using nth_mem [OF assms] by (auto simp: tags_facts(3))
  show ?thesis
  proof (cases "t \<in> set (tags_of docs)")
    case True
    with lowerBound_hit [OF tags_facts(1,2), of docs t] have "tag_position docs t = lowerBound (tags_of docs) t"
      by (simp add: tag_position_def)
    with True sub show ?thesis by (auto dest!: lowerBound_inj [OF tags_facts(1,2), rotated 2])
  next
    case False
    with lowerBound_hit [OF tags_facts(1,2), of docs t] have "tag_position docs t = length (tags_of docs)"
      by (auto simp: tag_position_def)
    moreover have "lowerBound (tags_of docs) u < length (tags_of docs)" if "u \<in> set (foldedTags (docs ! d))" for u
      using that sub lowerBound_hit [OF tags_facts(1,2), of docs u] by auto
    ultimately show ?thesis using False sub by fastforce
  qed
qed

lemma survives_has_tags:
  assumes "d < length docs"
  shows "survives (createIndex docs) (tagFilterIds (createIndex docs) tags) d \<longleftrightarrow> has_tags tags (docs ! d)"
proof -
  have ex: "list_ex (\<lambda>c. f c = w) r \<longleftrightarrow> w \<in> set (map f r)" for f :: "nat \<Rightarrow> nat" and w r
    by (auto simp: list_ex_iff)
  have f: "set (foldedTags (docs ! d)) = foldToken ` set (sd_tags (docs ! d))" by (simp add: foldedTags_def)
  have t: "tagFilterIds (createIndex docs) tags
      = (if tags = [] then None else Some (map (\<lambda>tag. tag_position docs (foldToken tag)) tags))"
    by (simp add: tagFilterIds_def tag_position_def createIndex_eq Let_def)
  have "survives (createIndex docs) (tagFilterIds (createIndex docs) tags) d
      \<longleftrightarrow> (\<forall>tag \<in> set tags. tag_position docs (foldToken tag) \<in> lowerBound (tags_of docs) ` set (foldedTags (docs ! d)))"
    unfolding survives_def t carriesEveryTag_def ex document_tag_slice [OF assms] by (simp add: list_all_iff)
  also have "\<dots> \<longleftrightarrow> has_tags tags (docs ! d)"
    unfolding tag_position_carried [OF assms] by (simp add: has_tags_def f)
  finally show ?thesis .
qed

section \<open>Names and ranks\<close>

lemma order_facts: "distinct (order_of docs)" "set (order_of docs) = {..<length docs}" "length (order_of docs) = length docs"
  by (auto simp: order_of_def)

lemma by_name_order: "sort_key sd_name docs = map ((!) docs) (order_of docs)"
  using sort_key_map [of sd_name "(!) docs" "[0..<length docs]"] by (simp add: order_of_def map_nth)

lemma rank_of_order:
  "i < length docs \<Longrightarrow> ti_ordinalRanks (createIndex docs) ! (order_of docs ! i) = i"
  using ranks_fold [OF order_facts(1), of docs "replicate (length docs) 0" i 0] order_facts(2,3) [of docs]
  by (simp add: createIndex_eq lessThan_def)

lemma ranks_sorted: "sorted_wrt (\<lambda>a b. ti_ordinalRanks (createIndex docs) ! a \<le> ti_ordinalRanks (createIndex docs) ! b) (order_of docs)"
  by (auto simp: sorted_wrt_iff_nth_less order_facts(3) rank_of_order)

lemma ranks_inj: "inj_on ((!) (ti_ordinalRanks (createIndex docs))) {..<length docs}"
proof (rule inj_onI)
  fix a b assume "a \<in> {..<length docs}" "b \<in> {..<length docs}"
    and r: "ti_ordinalRanks (createIndex docs) ! a = ti_ordinalRanks (createIndex docs) ! b"
  then obtain i j where "i < length docs" "a = order_of docs ! i" "j < length docs" "b = order_of docs ! j"
    unfolding order_facts(2) [symmetric] by (auto simp: in_set_conv_nth order_facts(3))
  with r show "a = b" by (simp add: rank_of_order)
qed

lemma first_names_take: "first_names keep name limit ds = take limit (map name (filter keep ds))"
  by (induction keep name limit ds rule: first_names.induct) (auto simp: take_Cons' )

lemma ranked_survivors:
  assumes "distinct ids" and "set ids = {d. d < length docs \<and> P d}"
  shows "sort_key (\<lambda>d. (f d :: real, ti_ordinalRanks (createIndex docs) ! d)) ids = sort_key f (filter P (order_of docs))"
proof -
  let ?r = "\<lambda>d. ti_ordinalRanks (createIndex docs) ! d"
  have "set ids = set (filter P (order_of docs))" using assms(2) by (auto simp: order_facts(2))
  then have "mset ids = mset (filter P (order_of docs))"
    using set_eq_iff_mset_eq_distinct [OF assms(1) distinct_filter [OF order_facts(1)]] by blast
  moreover have "inj_on (\<lambda>d. (f d, ?r d)) (set ids)"
    using ranks_inj [of docs] assms(2) by (auto simp: inj_on_def)
  ultimately have "sort_key (\<lambda>d. (f d, ?r d)) ids = sort_key (\<lambda>d. (f d, ?r d)) (filter P (order_of docs))"
    by (rule sort_key_same_mset)
  also have "\<dots> = sort_key f (filter P (order_of docs))"
    by (rule sort_key_refines) (rule sorted_wrt_filter [OF ranks_sorted])
  finally show ?thesis .
qed

section \<open>Search is a scan\<close>

lemma names_of: "set is \<subseteq> {..<length docs} \<Longrightarrow>
    map (\<lambda>d. fst (ti_documents (createIndex docs) ! d)) is = map sd_name (map ((!) docs) is)"
  by (auto simp: createIndex_eq)

lemma unranked_scan:
  "map (\<lambda>d. fst (ti_documents (createIndex docs) ! d))
     (filter (survives (createIndex docs) (tagFilterIds (createIndex docs) tags)) (order_of docs))
   = map sd_name (filter (has_tags tags) (sort_key sd_name docs))"
proof -
  have "filter (survives (createIndex docs) (tagFilterIds (createIndex docs) tags)) (order_of docs)
      = filter (has_tags tags \<circ> (!) docs) (order_of docs)"
    by (rule filter_cong) (simp_all add: order_facts(2) survives_has_tags)
  moreover have "set (filter (has_tags tags \<circ> (!) docs) (order_of docs)) \<subseteq> {..<length docs}"
    using order_facts(2) by auto
  note names_of [OF this]
  ultimately show ?thesis by (simp only: by_name_order filter_map)
qed

lemma ranked_scan:
  fixes tags :: "string list"
  assumes "search_inv weigh docs qs (frequencies, scores, scored)"
  defines "ids \<equiv> sort_key (\<lambda>d. (- (scores ! d), ti_ordinalRanks (createIndex docs) ! d))
    (filter (survives (createIndex docs) (tagFilterIds (createIndex docs) tags)) scored)"
  shows "map (\<lambda>d. fst (ti_documents (createIndex docs) ! d)) (take limit ids)
    = take limit (map sd_name (sort_key (\<lambda>d. - scan_score weigh docs qs d)
        (filter (\<lambda>d. has_tags tags d \<and> matches_query qs d) (sort_key sd_name docs))))"
proof -
  have inv: "\<forall>d < length docs. scores ! d = scan_score weigh docs qs (docs ! d)" "distinct scored"
    "set scored = {d. d < length docs \<and> matches_query qs (docs ! d)}" using assms(1) by (auto simp: search_inv_def)
  let ?Q = "\<lambda>d. has_tags tags d \<and> matches_query qs d" and ?g = "\<lambda>d. - scan_score weigh docs qs d"
  let ?P = "\<lambda>d. ?Q (docs ! d)"
  let ?s = "filter (survives (createIndex docs) (tagFilterIds (createIndex docs) tags)) scored"
  have "distinct ?s" using inv(2) by simp
  moreover have "set ?s = {d. d < length docs \<and> ?P d}"
    unfolding set_filter inv(3) using survives_has_tags [of _ docs tags] by blast
  ultimately have "ids = sort_key (\<lambda>d. - (scores ! d)) (filter ?P (order_of docs))"
    unfolding ids_def by (rule ranked_survivors)
  also have "\<dots> = sort_key (\<lambda>d. ?g (docs ! d)) (filter ?P (order_of docs))"
  proof (intro sort_key_agree ballI)
    fix d assume "d \<in> set (filter ?P (order_of docs))"
    then have "d < length docs" by (simp add: order_facts(2))
    with inv(1) show "- (scores ! d) = ?g (docs ! d)" by simp
  qed
  finally have i: "ids = sort_key (\<lambda>d. ?g (docs ! d)) (filter ?P (order_of docs))" .
  have "filter ?Q (sort_key sd_name docs) = map ((!) docs) (filter ?P (order_of docs))"
    unfolding by_name_order filter_map comp_def ..
  then have s: "sort_key ?g (filter ?Q (sort_key sd_name docs)) = map ((!) docs) ids"
    unfolding i by (simp only: sort_key_map)
  have "set (take limit ids) \<subseteq> set ids" by (rule set_take_subset)
  also have "\<dots> \<subseteq> {..<length docs}" unfolding i by (simp add: subset_iff order_facts(2))
  finally have n: "map (\<lambda>d. fst (ti_documents (createIndex docs) ! d)) (take limit ids)
      = map sd_name (map ((!) docs) (take limit ids))" by (rule names_of)
  show ?thesis unfolding n s by (simp only: take_map)
qed

text \<open>
  C33: Searching the index is scanning the documents: the flat postings, the binary searches, the block of
  entries a term is a prefix of and the ranks give exactly the documents that carry every requested
  tag and contain a word of the query, each scored from its own terms and the whole corpus, best score
  first and then by name; without words it is every document that carries the tags, by name. A limit
  cuts the list, and a tag filter never changes the score or the order of what it keeps.
\<close>

theorem search_is_scan:
  "tool_search (createIndex docs) query limit tags =
     (if limit = 0 then Inl Limit_not_positive else Inr (take limit (scan term_weight docs query tags)))"
proof (cases "tokenize query = []")
  case True
  have "ti_ordinalDocumentIds (createIndex docs) = order_of docs" by (simp add: createIndex_eq)
  with True unranked_scan [of docs tags] show ?thesis
    by (simp add: tool_search_def search_with_def Let_def first_names_take scan_def)
next
  case False
  let ?qs = "tokenize query" and ?idx = "createIndex docs"
  obtain frequencies scores scored where st: "fold (term_step term_weight ?idx) ?qs
      (replicate (length docs) 0, replicate (length docs) 0, []) = (frequencies, scores, scored)"
    by (rule prod_cases3)
  note inv = term_steps_inv [OF term_weight_positive, of docs ?qs, unfolded st]
  have n: "length (ti_documents ?idx) = length docs" by (simp add: createIndex_eq)
  show ?thesis
    unfolding tool_search_def search_with_def Let_def n st
    using False by (simp add: scan_def Let_def ranked_scan [OF inv])
qed

end
