(* ===== verification/Catalog.thy ===== *)
theory Catalog
  imports Card Selection Search_Index
begin

text \<open>
  \<open>packages/http/core/src/catalog/pipeline.ts\<close> and \<open>catalog/diagnostics.ts\<close>: from discovered candidates to
  the tools of a catalog, their names, the search index and the diagnostics. A candidate, a descriptor
  and a production are told apart by object identity in the source, by their position in the list here.
  A diagnostic is its code with the texts its message interpolates.
\<close>

section \<open>Diagnostics\<close>

datatype severity = Warning | Endpoint_dropped | Fatal

datatype diagnostic_code = Selection_failed selection_error | Naming_failed catalog_error
  | Template_refused template_error | Template_rejected | Route_folded | Name_disambiguated | Long_tool_name
  | Unknown_fill_source | Curation_leaks_name | Curation_leaks_name_in_argument | Curated_open_body
  | Curation_unused_on_kept_route | Variant_indistinguishable | Empty_tag | Duplicate_tag
  | Optional_body_argument | Synthetic_body_argument | Body_field_collision | Unflattenable_body_root
  | Host_code string

type_synonym catalog_diagnostic = "diagnostic_code \<times> string list"

fun severity_rank :: "severity \<Rightarrow> nat" where
  "severity_rank Warning = 0"
| "severity_rank Endpoint_dropped = 1"
| "severity_rank Fatal = 2"

record diagnostics_options =
  do_escalate :: "diagnostic_code list"
  do_downgrade :: "diagnostic_code list"

definition severityIn :: "(diagnostic_code \<Rightarrow> severity option) \<Rightarrow> diagnostic_code \<Rightarrow> diagnostics_options \<Rightarrow> severity" where
  "severityIn table code options =
     (if code \<in> set (do_escalate options) then Fatal
      else if code \<in> set (do_downgrade options) then Warning
      else case table code of Some s \<Rightarrow> s | None \<Rightarrow> Warning)"

definition atLeast :: "severity \<Rightarrow> severity \<Rightarrow> bool" where
  "atLeast s least = (severity_rank least \<le> severity_rank s)"

section \<open>Candidates and options\<close>

record declared_endpoint =
  dc_endpoint :: endpoint
  dc_tags :: "string list option"
  dc_auth :: auth

text \<open>\<open>cd_declare\<close> may fail, which ends the build; \<open>cd_source\<close> is carried onto the entry.\<close>

record 'source candidate =
  cd_source :: 'source
  cd_owner :: string
  cd_descriptor :: endpoint
  cd_container :: "marker option"
  cd_operation :: "marker option"
  cd_tags :: "string list option"
  cd_declare :: "string list option \<Rightarrow> template_error + declared_endpoint"

record 'source catalog_entry =
  ce_source :: 'source
  ce_tool :: tool_definition
  ce_descriptor :: declared_endpoint
  ce_owner :: string
  ce_template :: request_template
  ce_alternateRoutes :: "string list option"

record 'source pipeline_options =
  po_default :: decision
  po_rules :: "selection_rule list option"
  po_prefixMode :: "prefix_mode option"
  po_files :: "string option"
  po_providers :: "string \<Rightarrow> bool"
  po_severity :: "diagnostic_code \<Rightarrow> severity"
  po_failOn :: severity
  po_prior :: "catalog_diagnostic list"
  po_admit :: "declared_endpoint \<Rightarrow> string \<Rightarrow> catalog_diagnostic option"
  po_inspect :: "'source catalog_entry list \<Rightarrow> catalog_diagnostic list"

record 'source catalog_build =
  cb_entries :: "'source catalog_entry list"
  cb_byName :: "(string \<times> 'source catalog_entry) list"
  cb_index :: tool_index
  cb_diagnostics :: "catalog_diagnostic list"
  cb_fatal :: "catalog_diagnostic list"
  cb_policyNames :: "string list"
  cb_selected :: nat

section \<open>Choosing, and the tags of what is chosen\<close>

definition choose_candidate :: "'s pipeline_options \<Rightarrow> 's candidate \<Rightarrow> selection_error + bool" where
  "choose_candidate options c =
     res_bind (resolveRules (po_rules options) (ep_route (cd_descriptor c)) (ep_method (cd_descriptor c))) (\<lambda>rule.
       isSelected (po_default options) (cd_container c) (cd_operation c) (map_option Marked rule))"

definition choose_step :: "'s pipeline_options \<Rightarrow> 's candidate \<Rightarrow> 's candidate list \<times> catalog_diagnostic list
    \<Rightarrow> 's candidate list \<times> catalog_diagnostic list" where
  "choose_step options c st = (case st of (chosen, ds) \<Rightarrow> (case choose_candidate options c of
     Inr True \<Rightarrow> (chosen @ [c], ds)
   | Inr False \<Rightarrow> (chosen, ds)
   | Inl e \<Rightarrow> (chosen, ds @ [(Selection_failed e, [ep_method (cd_descriptor c) @ '' '' @ ep_route (cd_descriptor c)])])))"

definition clean_step :: "string \<Rightarrow> string \<Rightarrow> (string \<times> string) list \<times> catalog_diagnostic list
    \<Rightarrow> (string \<times> string) list \<times> catalog_diagnostic list" where
  "clean_step owner tag st = (case st of (kept, ds) \<Rightarrow>
     (let folded = foldToken tag
      in if folded = [] then (kept, ds @ [(Empty_tag, [owner])])
         else (case map_of kept folded of
             Some first \<Rightarrow> (kept, ds @ [(Duplicate_tag, [owner, tag, first])])
           | None \<Rightarrow> (AList.update folded tag kept, ds))))"

definition cleanTags :: "string list \<Rightarrow> string \<Rightarrow> string list \<times> catalog_diagnostic list" where
  "cleanTags declared owner = (case fold (clean_step owner) declared ([], []) of (kept, ds) \<Rightarrow> (map snd kept, ds))"

definition candidate_tags :: "'s candidate \<Rightarrow> string list option \<times> catalog_diagnostic list" where
  "candidate_tags c = (case cd_tags c of
     None \<Rightarrow> (None, [])
   | Some tags \<Rightarrow> (case cleanTags tags (cd_owner c) of (kept, ds) \<Rightarrow> (Some kept, ds)))"

section \<open>Folding routes, by position\<close>

record route_folding =
  rf_operations :: "nat list"
  rf_seen :: "(operation_key \<times> nat) list"
  rf_grouped :: "(operation_key \<times> nat list) list"

definition fold_position :: "endpoint list \<Rightarrow> nat \<Rightarrow> route_folding \<Rightarrow> route_folding" where
  "fold_position es i st = (case operation_key_of (es ! i) of
     None \<Rightarrow> st\<lparr>rf_operations := rf_operations st @ [i]\<rparr>
   | Some k \<Rightarrow>
      (let members = (case map_of (rf_grouped st) k of None \<Rightarrow> [] | Some ms \<Rightarrow> ms);
           st = st\<lparr>rf_grouped := AList.update k (members @ [i]) (rf_grouped st)\<rparr>
       in case map_of (rf_seen st) k of
            None \<Rightarrow> st\<lparr>rf_operations := rf_operations st @ [i],
              rf_seen := AList.update k (length (rf_operations st)) (rf_seen st)\<rparr>
          | Some j \<Rightarrow> (if shorter (ep_route (es ! i)) (ep_route (es ! (rf_operations st ! j)))
              then st\<lparr>rf_operations := (rf_operations st)[j := i]\<rparr> else st)))"

definition fold_positions :: "endpoint list \<Rightarrow> route_folding" where
  "fold_positions es = fold (fold_position es) [0..<length es] \<lparr>rf_operations = [], rf_seen = [], rf_grouped = []\<rparr>"

text \<open>The calls of \<open>onFolded\<close>: what is kept, and the members it folds away.\<close>

definition folds_of :: "route_folding \<Rightarrow> (nat \<times> nat list) list" where
  "folds_of st = List.map_filter (\<lambda>(k, members). if length members < 2 then None
     else (case map_of (rf_seen st) k of
         None \<Rightarrow> None
       | Some j \<Rightarrow> (let kept = rf_operations st ! j in Some (kept, filter (\<lambda>m. m \<noteq> kept) members)))) (rf_grouped st)"

definition folded_diagnostic :: "'s candidate list \<Rightarrow> nat \<times> string list \<Rightarrow> catalog_diagnostic" where
  "folded_diagnostic chosen f = (case f of (kept, routes) \<Rightarrow>
     (Route_folded, [cd_owner (chosen ! kept), join_with '', '' routes, ep_route (cd_descriptor (chosen ! kept))]))"

section \<open>Names\<close>

definition position_variants :: "endpoint list \<Rightarrow> nat \<Rightarrow> catalog_error + (nat \<times> tool_variant option) list" where
  "position_variants es i = (case ep_variants (es ! i) of
     None \<Rightarrow> Inr [(i, None)]
   | Some vs \<Rightarrow> if ep_toolName (es ! i) \<noteq> None then Inl Variant_declaration_conflict
                else Inr (map (\<lambda>v. (i, Some v)) vs))"

definition expand_positions :: "endpoint list \<Rightarrow> catalog_error + (nat \<times> tool_variant option) list" where
  "expand_positions es = res_map concat (traverse (position_variants es) (rf_operations (fold_positions es)))"

text \<open>What \<open>createToolNames\<close> reports while it prefixes colliding names.\<close>

definition disambiguated_group :: "((endpoint \<times> tool_variant option) \<times> string) list \<Rightarrow> string \<Rightarrow> catalog_diagnostic list" where
  "disambiguated_group named body =
     (let members = filter (\<lambda>(pr, n). generated pr \<and> n = body) named
      in if length members < 2 then []
         else List.map_filter (\<lambda>(pr, n). let prefixed = applyPrefix body (derivePrefix (fst pr))
           in if prefixed = body then None
              else Some (Name_disambiguated, [body, ep_method (fst pr), ep_route (fst pr), prefixed])) members)"

definition disambiguations :: "endpoint list \<Rightarrow> prefix_mode \<Rightarrow> catalog_diagnostic list" where
  "disambiguations es mode = (case res_bind (expandToolProductions es) (\<lambda>prs.
       res_map (zip prs) (traverse (production_name mode) prs)) of
     Inl e \<Rightarrow> []
   | Inr named \<Rightarrow> if mode = On_collision
       then concat (map (disambiguated_group named) (js_set (map snd (filter (\<lambda>(pr, n). generated pr) named)))) else [])"

definition name_productions :: "endpoint list \<Rightarrow> prefix_mode
    \<Rightarrow> ((nat \<times> tool_variant option) \<times> string) list \<times> catalog_diagnostic list" where
  "name_productions es mode = (case expand_positions es of
     Inl e \<Rightarrow> ([], [(Naming_failed e, [])])
   | Inr prods \<Rightarrow> (case createToolNames es mode of
       Inl e \<Rightarrow> ([], disambiguations es mode @ [(Naming_failed e, [])])
     | Inr names \<Rightarrow> (zip prods names, disambiguations es mode)))"

section \<open>One production\<close>

definition reportBodyRoot :: "endpoint \<Rightarrow> catalog_diagnostic list" where
  "reportBodyRoot e =
     (let names = parameter_names e; place = ep_method e @ '' '' @ ep_route e
      in case bodyRootReasonOf (body_schema e) (body_required e) names of
           None \<Rightarrow> []
         | Some Optional_body \<Rightarrow> [(Optional_body_argument, [place, bodyRootArgument])]
         | Some Non_object \<Rightarrow> [(Synthetic_body_argument, [place, bodyRootArgument])]
         | Some Collision \<Rightarrow> [(Body_field_collision, [place,
             (case collidingBodyField (body_schema e) names of Some f \<Rightarrow> f | None \<Rightarrow> ''undefined''), bodyRootArgument])]
         | Some Unflattenable_root \<Rightarrow> [(Unflattenable_body_root, [place,
             (case unflattenableRootKey (body_schema e) of Some k \<Rightarrow> k | None \<Rightarrow> ''no flattenable member''), bodyRootArgument])])"

definition reliefFor :: "endpoint \<Rightarrow> string list option \<Rightarrow> string list option" where
  "reliefFor e foldedRoutes = (case foldedRoutes of
     None \<Rightarrow> None
   | Some routes \<Rightarrow>
      (let foldedNames = filter (\<lambda>n. n \<notin> set (routePlaceholderNames (ep_route e)))
             (js_set (concat (map routePlaceholderNames routes)))
       in if foldedNames = [] then None else Some foldedNames))"

text \<open>The calls of \<open>onUnused\<close>, up to the record at which resolution fails.\<close>

fun unused_reported :: "curation_shape \<Rightarrow> string list option \<Rightarrow> argument_curation list \<Rightarrow> string list" where
  "unused_reported shape relief [] = []"
| "unused_reported shape relief (r # rs) = (case resolve_record shape relief emptyCuration r of
     Inl e \<Rightarrow> [] | Inr s \<Rightarrow> rc_unused s @ unused_reported shape relief rs)"

definition reportUnused :: "endpoint \<Rightarrow> tool_variant option \<Rightarrow> string list option \<Rightarrow> catalog_diagnostic list" where
  "reportUnused e v relief =
     (case res_bind (buildOutputSchema e) (\<lambda>_. res_bind (assertUniqueArgumentNames (parameter_names e)
         (case root_of e of Some name \<Rightarrow> [name] | None \<Rightarrow> map fst (field_schemas e))) (\<lambda>_. declarations e v)) of
       Inl err \<Rightarrow> []
     | Inr records \<Rightarrow> map (\<lambda>n. (Curation_unused_on_kept_route, [n, ep_method e, ep_route e]))
         (unused_reported (endpoint_shape e) relief records))"

definition missingFillSource :: "request_template \<Rightarrow> (string \<Rightarrow> bool) \<Rightarrow> string option" where
  "missingFillSource t has =
     (case List.find (\<lambda>f. case f of Some (Deferred s) \<Rightarrow> \<not> has s | _ \<Rightarrow> False)
         (map p_fill (t_parameters t) @ map (\<lambda>f. Some (snd f)) (t_fills t) @ [t_rootFill t]) of
       Some (Some (Deferred s)) \<Rightarrow> Some s | _ \<Rightarrow> None)"

definition containsSequence :: "string list \<Rightarrow> string list \<Rightarrow> bool" where
  "containsSequence haystack needle =
     list_ex (\<lambda>start. take (length needle) (drop start haystack) = needle) [0..<length haystack + 1 - length needle]"

definition curated_names :: "request_template \<Rightarrow> string list" where
  "curated_names t = map p_name (filter (\<lambda>p. p_fill p \<noteq> None \<or> p_argument p \<noteq> None) (t_parameters t))
     @ map snd (t_aliases t) @ map fst (t_fills t)"

definition reportCurationLeaks :: "tool_definition \<Rightarrow> request_template \<Rightarrow> string list \<Rightarrow> catalog_diagnostic list" where
  "reportCurationLeaks tool t descriptions =
     (let haystack = tokenize (td_name tool @ '' '' @ td_description tool); prose = map tokenize descriptions
      in concat (map (\<lambda>w. let needle = tokenize w
          in if needle = [] then []
             else (if containsSequence haystack needle then [(Curation_leaks_name, [td_name tool, w])] else [])
               @ (if list_ex (\<lambda>p. containsSequence p needle) prose
                  then [(Curation_leaks_name_in_argument, [td_name tool, w])] else [])) (curated_names t)))"

definition build_failure :: "build_error \<Rightarrow> diagnostic_code" where
  "build_failure e = (case e of Template_failed err \<Rightarrow> Template_refused err | Catalog_failed err \<Rightarrow> Template_rejected)"

text \<open>What follows the checks of a produced tool: warnings and the entry.\<close>

definition admit_entry :: "'s candidate \<Rightarrow> declared_endpoint \<Rightarrow> tool_variant option \<Rightarrow> string list option
    \<Rightarrow> tool_definition \<Rightarrow> request_template \<Rightarrow> 's catalog_entry option \<times> catalog_diagnostic list" where
  "admit_entry c d v alternateRoutes tool t =
     (Some \<lparr>ce_source = cd_source c, ce_tool = tool, ce_descriptor = d, ce_owner = cd_owner c, ce_template = t,
        ce_alternateRoutes = alternateRoutes\<rparr>,
      reportCurationLeaks tool t (case curatedDescriptions (dc_endpoint d) v of Inr ds \<Rightarrow> ds | Inl e \<Rightarrow> [])
      @ (if t_additional t \<and> t_fills t \<noteq> [] then [(Curated_open_body, [td_name tool])] else []))"

definition produce :: "'s pipeline_options \<Rightarrow> 's candidate \<Rightarrow> declared_endpoint \<Rightarrow> string list option
    \<Rightarrow> tool_variant option \<Rightarrow> string \<Rightarrow> 's catalog_entry option \<times> catalog_diagnostic list" where
  "produce options c d alternateRoutes v name =
     (let long_name = (if length name > 64 then [(Long_tool_name, [name, nat_text (length name)])] else []);
          e = dc_endpoint d
      in case po_admit options d name of
           Some refusal \<Rightarrow> (None, long_name @ [refusal])
         | None \<Rightarrow>
            (let relief = reliefFor e alternateRoutes;
                 before = long_name @ reportBodyRoot e @ reportUnused e v relief
             in case createTool e (Some name) v relief (po_files options) of
                  Inl err \<Rightarrow> (None, before @ [(build_failure err, [])])
                | Inr (tool, t) \<Rightarrow> (case missingFillSource t (po_providers options) of
                    Some source \<Rightarrow> (None, before @ [(Unknown_fill_source, [name, source])])
                  | None \<Rightarrow> (case admit_entry c d v alternateRoutes tool t of (entry, warned) \<Rightarrow> (entry, before @ warned)))))"

section \<open>The build\<close>

definition indistinguishable_step :: "'s catalog_entry \<Rightarrow> (string \<times> string) list \<times> catalog_diagnostic list
    \<Rightarrow> (string \<times> string) list \<times> catalog_diagnostic list" where
  "indistinguishable_step entry st = (case st of (seen, ds) \<Rightarrow>
     (let tool = ce_tool entry;
          key = ce_owner entry @ ''|'' @ td_description tool @ ''|''
            @ (case json_text (td_inputSchema tool) of Some s \<Rightarrow> s | None \<Rightarrow> ''undefined'')
      in case map_of seen key of
           Some owner \<Rightarrow> (seen, ds @ [(Variant_indistinguishable, [owner, td_name tool])])
         | None \<Rightarrow> (AList.update key (td_name tool) seen, ds)))"

definition reportIndistinguishableVariants :: "'s catalog_entry list \<Rightarrow> catalog_diagnostic list" where
  "reportIndistinguishableVariants entries = snd (fold indistinguishable_step entries ([], []))"

definition groupedParametersOf :: "endpoint \<Rightarrow> string list" where
  "groupedParametersOf e = map dp_name (filter (\<lambda>p. dp_style p = Some DeepObject) (ep_parameters e))"

definition search_document_of :: "'s catalog_entry \<Rightarrow> search_document" where
  "search_document_of entry =
     (let e = dc_endpoint (ce_descriptor entry); tool = ce_tool entry
      in \<lparr>sd_name = td_name tool, sd_description = Some (td_description tool),
          sd_tags = (case dc_tags (ce_descriptor entry) of None \<Rightarrow> [] | Some ts \<Rightarrow> ts), sd_route = ep_route e,
          sd_alternateRoutes = (case ce_alternateRoutes entry of None \<Rightarrow> [] | Some rs \<Rightarrow> rs),
          sd_parameters = searchParameters (td_inputSchema tool) (groupedParametersOf e)\<rparr>)"

text \<open>What has been built from the chosen candidates and their declared endpoints.\<close>

definition build_entries :: "'s pipeline_options \<Rightarrow> 's candidate list \<Rightarrow> declared_endpoint list
    \<Rightarrow> 's catalog_entry list \<times> catalog_diagnostic list" where
  "build_entries options chosen declared =
     (let folding = fold_positions (map dc_endpoint declared); operations = rf_operations folding;
          alternates = map (\<lambda>(kept, folded). (kept, map (\<lambda>i. ep_route (cd_descriptor (chosen ! i))) folded)) (folds_of folding);
          declaredList = map ((!) declared) operations;
          mode = (case po_prefixMode options of None \<Rightarrow> Always | Some m \<Rightarrow> m)
      in case name_productions (map dc_endpoint declaredList) mode of (named, naming) \<Rightarrow>
           (let made = map (\<lambda>((i, v), name). produce options (chosen ! (operations ! i)) (declaredList ! i)
                  (map_of alternates (operations ! i)) v name) named
            in (List.map_filter fst made,
                map (folded_diagnostic chosen) alternates @ naming @ concat (map snd made))))"

definition buildCatalog :: "'s candidate list \<Rightarrow> 's pipeline_options \<Rightarrow> template_error + 's catalog_build" where
  "buildCatalog candidates options =
     (case fold (choose_step options) candidates ([], po_prior options) of (chosen, chosing) \<Rightarrow>
      res_map (\<lambda>declared. case build_entries options chosen declared of (entries, building) \<Rightarrow>
        (let diagnostics = chosing @ concat (map (snd \<circ> candidate_tags) chosen) @ building @ po_inspect options entries
         in \<lparr>cb_entries = entries,
             cb_byName = fold (\<lambda>e. AList.update (td_name (ce_tool e)) e) entries [],
             cb_index = createIndex (map search_document_of entries),
             cb_diagnostics = diagnostics @ reportIndistinguishableVariants entries,
             cb_fatal = filter (\<lambda>d. atLeast (po_severity options (fst d)) (po_failOn options)) diagnostics,
             cb_policyNames = js_set (concat (map (\<lambda>e. au_policies (dc_auth (ce_descriptor e))) entries)),
             cb_selected = length chosen\<rparr>))
        (traverse (\<lambda>c. cd_declare c (fst (candidate_tags c))) chosen))"

definition assertCatalogValid :: "catalog_diagnostic list \<Rightarrow> catalog_diagnostic + unit" where
  "assertCatalogValid fatal = (case fatal of [] \<Rightarrow> Inr () | d # _ \<Rightarrow> Inl d)"

end
