(* ===== verification/Catalog_Properties.thy ===== *)
theory Catalog_Properties
  imports Catalog Search_Properties
begin

text \<open>
  What a built catalog guarantees: positions stand for the operations the naming component sees, names
  are unique, and every name a search of its index answers can be loaded.
\<close>

section \<open>Positions and operations\<close>

definition same_folding :: "endpoint list \<Rightarrow> folding \<Rightarrow> route_folding \<Rightarrow> bool" where
  "same_folding es s st = (fst s = map ((!) es) (rf_operations st) \<and> snd s = rf_seen st
     \<and> (\<forall>(k, j) \<in> set (rf_seen st). j < length (rf_operations st)))"

lemma fold_position_same:
  assumes "same_folding es s st"
  shows "same_folding es (fold_item s (es ! i)) (fold_position es i st)"
proof (cases "operation_key_of (es ! i)")
  case None
  with assms show ?thesis
    by (cases s) (auto simp: same_folding_def fold_item_def fold_position_def less_Suc_eq)
next
  case (Some k)
  obtain ops seen where s: "s = (ops, seen)" by (cases s)
  have e: "ops = map ((!) es) (rf_operations st)" "seen = rf_seen st"
    "\<forall>(k, j) \<in> set (rf_seen st). j < length (rf_operations st)" using assms by (auto simp: same_folding_def s)
  show ?thesis
  proof (cases "map_of (rf_seen st) k")
    case None
    then have "AList.update k (length (rf_operations st)) (rf_seen st) = rf_seen st @ [(k, length (rf_operations st))]"
      by (rule update_fresh)
    with None Some e show ?thesis
      by (auto simp: same_folding_def fold_item_def fold_position_def s Let_def less_Suc_eq)
  next
    case (Some j)
    then have "j < length (rf_operations st)" using e(3) by (auto dest!: map_of_SomeD)
    with Some \<open>operation_key_of (es ! i) = Some k\<close> e show ?thesis
      by (auto simp: same_folding_def fold_item_def fold_position_def s Let_def map_update)
  qed
qed

lemma fold_positions_operations: "deduplicateOperations es = map ((!) es) (rf_operations (fold_positions es))"
proof -
  have "same_folding es (foldl fold_item s (map ((!) es) is)) (fold (fold_position es) is st)"
    if "same_folding es s st" for "is" s st
    using that by (induction "is" arbitrary: s st) (auto simp: fold_position_same)
  from this [of "([], [])" _ "[0..<length es]"] show ?thesis
    by (simp add: same_folding_def fold_positions_def deduplicateOperations_def fold_endpoints_def map_nth)
qed

lemma fold_positions_bound: "i \<in> set (rf_operations (fold_positions es)) \<Longrightarrow> i < length es"
proof -
  have "set (rf_operations (fold (fold_position es) is st)) \<subseteq> set is \<union> set (rf_operations st)" for "is" st
  proof (induction "is" arbitrary: st)
    case (Cons i "is")
    have "set (rf_operations (fold_position es i st)) \<subseteq> insert i (set (rf_operations st))"
      using set_update_subset_insert [of "rf_operations st" _ i]
      by (auto simp: fold_position_def Let_def split: option.split if_splits)
    with Cons.IH [of "fold_position es i st"] show ?case by auto
  qed simp
  from this [of "[0..<length es]" "\<lparr>rf_operations = [], rf_seen = [], rf_grouped = []\<rparr>"]
  show "i \<in> set (rf_operations (fold_positions es)) \<Longrightarrow> i < length es" by (auto simp: fold_positions_def)
qed

lemma traverse_map: "traverse f (map g xs) = traverse (\<lambda>x. f (g x)) xs"
  by (induction xs) auto

lemma traverse_res_map: "traverse (\<lambda>x. res_map g (f x)) xs = res_map (map g) (traverse f xs)"
proof (induction xs)
  case (Cons x xs)
  then show ?case by (cases "f x"; cases "traverse f xs") auto
qed simp

lemma expand_positions_productions:
  "expandToolProductions es = res_map (map (\<lambda>(i, v). (es ! i, v))) (expand_positions es)"
proof -
  have v: "expand_variants (es ! i) = res_map (map (\<lambda>(i, v). (es ! i, v))) (position_variants es i)" for i
    by (auto simp: expand_variants_def position_variants_def split: option.split)
  show ?thesis
    unfolding expandToolProductions_def fold_positions_operations traverse_map v traverse_res_map expand_positions_def
    by (cases "traverse (position_variants es) (rf_operations (fold_positions es))") (simp_all add: map_concat)
qed

section \<open>Names\<close>

lemma createToolNames_length:
  assumes "createToolNames es mode = Inr names" and "expand_positions es = Inr prods"
  shows "length names = length prods" and "distinct names"
proof -
  from assms obtain prs ns where "expandToolProductions es = Inr prs" "traverse (production_name mode) prs = Inr ns"
    and n: "names = (if mode = On_collision then disambiguate prs ns else ns)" and d: "distinct names"
    by (auto simp: createToolNames_def res_bind_Inr_iff Let_def split: if_splits)
  moreover from this(1) assms(2) have "length prs = length prods" by (auto simp: expand_positions_productions)
  ultimately show "length names = length prods" "distinct names"
    by (auto simp: disambiguate_def dest: traverse_nth)
qed

lemma name_productions_distinct: "name_productions es mode = (named, ds) \<Longrightarrow> distinct (map snd named)"
  by (auto simp: name_productions_def createToolNames_length map_snd_zip split: sum.splits)

section \<open>Entries\<close>

lemma created_name: "createTool e (Some name) v relief files = Inr (tool, t) \<Longrightarrow> td_name tool = name"
  by (auto simp: createTool_def createToolDefinition_def lift_error_def tool_name_of_def res_bind_Inr_iff res_map_Inr_iff
      split: sum.splits)

lemma produce_entry:
  "fst (produce options c d alternates v name) = Some entry \<Longrightarrow>
     td_name (ce_tool entry) = name \<and> ce_owner entry = cd_owner c \<and> ce_descriptor entry = d"
  by (auto simp: produce_def Let_def admit_entry_def created_name split: option.splits sum.splits prod.splits)

lemma distinct_made:
  assumes "distinct (map snd xs)" and "\<And>x entry. x \<in> set xs \<Longrightarrow> f x = Some entry \<Longrightarrow> name entry = snd x"
  shows "distinct (map name (List.map_filter f xs)) \<and> set (map name (List.map_filter f xs)) \<subseteq> set (map snd xs)"
  using assms
proof (induction xs)
  case (Cons x xs)
  then have IH: "distinct (map name (List.map_filter f xs))" "set (map name (List.map_filter f xs)) \<subseteq> set (map snd xs)"
    by auto
  show ?case
  proof (cases "f x")
    case None
    with IH show ?thesis by (auto simp: List.map_filter_simps)
  next
    case (Some entry)
    with Cons.prems have "name entry = snd x" "snd x \<notin> set (map snd xs)" by auto
    with IH Some show ?thesis by (auto simp: List.map_filter_simps)
  qed
qed (simp add: List.map_filter_simps)

definition entry_name :: "'s catalog_entry \<Rightarrow> string" where
  "entry_name entry = td_name (ce_tool entry)"

lemma map_filter_map: "List.map_filter f (map g xs) = List.map_filter (\<lambda>x. f (g x)) xs"
  by (induction xs) (auto simp: List.map_filter_simps split: option.split)

lemma produced_distinct:
  assumes "distinct (map snd named)"
  shows "distinct (map entry_name (List.map_filter fst (map (\<lambda>((i, v), name). produce options (c i) (d i) (alt i) v name) named)))"
proof -
  have "distinct (map entry_name (List.map_filter (\<lambda>x. fst (case x of ((i, v), name) \<Rightarrow> produce options (c i) (d i) (alt i) v name)) named))"
    by (rule distinct_made [OF assms, THEN conjunct1])
       (auto simp: entry_name_def split: prod.splits dest: produce_entry)
  then show ?thesis by (simp add: map_filter_map case_prod_unfold)
qed

lemma build_entries_distinct:
  "build_entries options chosen declared = (entries, ds) \<Longrightarrow> distinct (map entry_name entries)"
  unfolding build_entries_def Let_def
  by (auto split: prod.splits simp del: List.map_filter_simps intro!: produced_distinct dest!: name_productions_distinct)

lemma built_catalog:
  assumes "buildCatalog candidates options = Inr b"
  shows "distinct (map entry_name (cb_entries b))"
    and "cb_byName b = fold (\<lambda>e. AList.update (entry_name e) e) (cb_entries b) []"
    and "cb_index b = createIndex (map search_document_of (cb_entries b))"
proof -
  obtain chosen chosing where f: "fold (choose_step options) candidates ([], po_prior options) = (chosen, chosing)"
    by (cases rule: prod.exhaust)
  from assms obtain declared where r: "res_map (\<lambda>_. b) (Inr declared :: template_error + declared_endpoint list)
      = buildCatalog candidates options" and "traverse (\<lambda>c. cd_declare c (fst (candidate_tags c))) chosen = Inr declared"
    by (auto simp: buildCatalog_def f res_map_Inr_iff)
  moreover obtain entries building where e: "build_entries options chosen declared = (entries, building)"
    by (cases rule: prod.exhaust)
  ultimately have "cb_entries b = entries" "cb_byName b = fold (\<lambda>e. AList.update (td_name (ce_tool e)) e) entries []"
    "cb_index b = createIndex (map search_document_of entries)"
    by (auto simp: buildCatalog_def f Let_def)
  with build_entries_distinct [OF e] show "distinct (map entry_name (cb_entries b))"
    "cb_byName b = fold (\<lambda>e. AList.update (entry_name e) e) (cb_entries b) []"
    "cb_index b = createIndex (map search_document_of (cb_entries b))"
    by (simp_all add: entry_name_def [abs_def])
qed

lemma by_name_lookup:
  "distinct (map entry_name es) \<Longrightarrow> map_of (fold (\<lambda>e. AList.update (entry_name e) e) es m) n
     = (case List.find (\<lambda>e. entry_name e = n) es of Some e \<Rightarrow> Some e | None \<Rightarrow> map_of m n)"
proof (induction es arbitrary: m)
  case (Cons e es)
  have "List.find (\<lambda>x. entry_name x = entry_name e) es = None"
  proof (unfold find_None_iff, rule notI)
    assume "\<exists>x. x \<in> set es \<and> entry_name x = entry_name e"
    then obtain x where "x \<in> set es" "entry_name x = entry_name e" by blast
    from imageI [OF this(1), of entry_name] this(2) have "entry_name e \<in> set (map entry_name es)" by simp
    with Cons.prems show False by simp
  qed
  with Cons show ?case by (auto split: option.split)
qed simp

lemma by_name_entry:
  assumes "distinct (map entry_name es)" and "e \<in> set es"
  shows "map_of (fold (\<lambda>e. AList.update (entry_name e) e) es []) (entry_name e) = Some e"
proof -
  obtain x where f: "List.find (\<lambda>x. entry_name x = entry_name e) es = Some x"
    using assms(2) by (cases "List.find (\<lambda>x. entry_name x = entry_name e) es") (auto simp: find_None_iff)
  then have "x \<in> set es" "entry_name x = entry_name e" by (auto simp: find_Some_iff in_set_conv_nth)
  with assms have "x = e" by (auto simp: distinct_map dest: inj_onD)
  with f assms(1) show ?thesis by (simp add: by_name_lookup)
qed

section \<open>Search answers can be loaded\<close>

lemma distinct_sort_key: "distinct (map f (sort_key g xs)) = distinct (map f xs)"
  by (rule mset_eq_imp_distinct_iff) simp

lemma scan_names:
  assumes "distinct (map sd_name docs)"
  shows "distinct (scan weigh docs query tags)"
    and "n \<in> set (scan weigh docs query tags) \<Longrightarrow> \<exists>d \<in> set docs. sd_name d = n \<and> has_tags tags d"
proof -
  have "distinct (map sd_name (sort_key sd_name docs))" using assms by (simp only: distinct_sort_key)
  then show "distinct (scan weigh docs query tags)"
    by (cases "tokenize query = []") (simp_all add: scan_def Let_def distinct_sort_key distinct_map_filter)
  show "n \<in> set (scan weigh docs query tags) \<Longrightarrow> \<exists>d \<in> set docs. sd_name d = n \<and> has_tags tags d"
    unfolding scan_def Let_def by (auto split: if_splits)
qed

lemma search_answers_sound:
  assumes "buildCatalog candidates options = Inr b"
    and "tool_search (cb_index b) query limit tags = Inr names"
  shows "distinct names \<and> (\<forall>n \<in> set names. \<exists>e \<in> set (cb_entries b). map_of (cb_byName b) n = Some e
    \<and> td_name (ce_tool e) = n \<and> has_tags tags (search_document_of e))"
proof -
  note b = built_catalog [OF assms(1)]
  let ?docs = "map search_document_of (cb_entries b)"
  have sd: "sd_name (search_document_of e) = entry_name e" for e :: "'a catalog_entry"
    by (simp add: search_document_of_def Let_def entry_name_def)
  then have d: "distinct (map sd_name ?docs)" using b(1) by (simp add: comp_def)
  from assms(2) have n: "names = take limit (scan term_weight ?docs query tags)"
    by (simp add: b(3) search_is_scan split: if_splits)
  have "\<exists>e \<in> set (cb_entries b). map_of (cb_byName b) n = Some e
    \<and> td_name (ce_tool e) = n \<and> has_tags tags (search_document_of e)" if "n \<in> set names" for n
  proof -
    from that n have "n \<in> set (scan term_weight ?docs query tags)" by (auto dest: in_set_takeD)
    from scan_names(2) [OF d this] sd obtain e where "e \<in> set (cb_entries b)" "entry_name e = n" "has_tags tags (search_document_of e)"
      by auto
    with by_name_entry [OF b(1)] b(2) show ?thesis by (auto simp: entry_name_def)
  qed
  moreover have "distinct names" unfolding n by (rule distinct_take) (rule scan_names(1) [OF d])
  ultimately show ?thesis by blast
qed

text \<open>
  C32: Every name a search of a built catalog answers can be loaded: whatever the candidates, the query, the
  limit and the tags, the names are distinct, each is the key of exactly one entry, the entry's tool
  carries that very name, and its endpoint has every requested tag. Naming, building and indexing agree
  on what a name stands for, with several variants of an operation and with folded routes too.
\<close>

theorem search_answers_loadable:
  assumes "buildCatalog candidates options = Inr b"
    and "tool_search (cb_index b) query limit tags = Inr names"
  shows "distinct names \<and> (\<forall>n \<in> set names. \<exists>e \<in> set (cb_entries b). map_of (cb_byName b) n = Some e
    \<and> td_name (ce_tool e) = n \<and> has_tags tags (search_document_of e))"
  by (rule search_answers_sound [OF assms])

section \<open>A small catalog\<close>

definition sample_endpoint :: "string \<Rightarrow> string \<Rightarrow> string option \<Rightarrow> tool_variant list option \<Rightarrow> endpoint" where
  "sample_endpoint oid route name variants = \<lparr>ep_operationId = Some oid, ep_container = Some ''OrdersController'',
     ep_containerPrefix = None, ep_toolName = name, ep_method = ''GET'', ep_route = route, ep_description = None,
     ep_deprecated = False, ep_parameters = [], ep_requestBody = None, ep_responses = None, ep_carriers = [],
     ep_arguments = [], ep_variants = variants\<rparr>"

definition sample_candidate :: "endpoint \<Rightarrow> string list \<Rightarrow> unit candidate" where
  "sample_candidate e tags = \<lparr>cd_source = (), cd_owner = ep_route e, cd_descriptor = e, cd_container = None,
     cd_operation = None, cd_tags = Some tags,
     cd_declare = (\<lambda>tags. Inr \<lparr>dc_endpoint = e, dc_tags = tags,
       dc_auth = \<lparr>au_anonymous = Anon_yes, au_policies = [], au_imperative = False\<rparr>\<rparr>)\<rparr>"

text \<open>The severities of \<open>sdks/nestjs/src/discovery/diagnostics.ts\<close> for the codes that occur here.\<close>

definition sample_options :: "unit pipeline_options" where
  "sample_options = \<lparr>po_default = Include, po_rules = None, po_prefixMode = None, po_files = None,
     po_providers = (\<lambda>s. False),
     po_severity = (\<lambda>code. if code = Naming_failed Variant_declaration_conflict then Endpoint_dropped else Warning),
     po_failOn = Fatal, po_prior = [], po_admit = (\<lambda>d n. None), po_inspect = (\<lambda>es. [])\<rparr>"

definition sample_catalog :: "unit candidate list" where
  "sample_catalog = [sample_candidate (sample_endpoint ''listOrders'' ''/orders'' None None) [''Sales''],
     sample_candidate (sample_endpoint ''listItems'' ''/items'' None None) []]"

lemma wordless_search:
  "tokenize query = [] \<Longrightarrow> tool_search idx query limit tags = search_with (\<lambda>n l df tf len. 0 :: int) idx query limit tags"
  by (simp add: tool_search_def search_with_def Let_def)

lemma search_answers_loadable_witness:
  "\<exists>b. buildCatalog sample_catalog sample_options = Inr b
     \<and> tool_search (cb_index b) [] 5 [''sales''] = Inr [''list_orders'']
     \<and> (\<exists>e. map_of (cb_byName b) ''list_orders'' = Some e \<and> td_name (ce_tool e) = ''list_orders'')"
proof -
  have "case buildCatalog sample_catalog sample_options of Inl e \<Rightarrow> False
      | Inr b \<Rightarrow> search_with (\<lambda>n l df tf len. 0 :: int) (cb_index b) [] 5 [''sales''] = Inr [''list_orders'']" by code_simp
  then obtain b where b: "buildCatalog sample_catalog sample_options = Inr b"
    and s: "tool_search (cb_index b) [] 5 [''sales''] = Inr [''list_orders'']"
    using wordless_search [of "[]"] by (auto simp: tokenize_def trim_def split: sum.splits)
  from search_answers_loadable [OF b s] b s show ?thesis by auto
qed

text \<open>
  One operation that declares both a tool name and variants takes every other operation with it: the
  conflict is raised while the productions of the whole catalog are listed, so the catalog is empty. Its
  documented result is that the endpoint is dropped, and with that severity the build is not fatal.
\<close>

definition conflicting_candidate :: "unit candidate" where
  "conflicting_candidate = sample_candidate (sample_endpoint ''getOrder'' ''/orders/one'' (Some ''get_order'')
     (Some [\<lparr>tv_name = ''read_order'', tv_description = ''Read an order'', tv_arguments = []\<rparr>])) []"

theorem variant_conflict_empties_catalog:
  "(\<exists>b. buildCatalog sample_catalog sample_options = Inr b \<and> length (cb_entries b) = 2)
   \<and> (\<exists>b. buildCatalog (conflicting_candidate # sample_catalog) sample_options = Inr b
        \<and> cb_entries b = [] \<and> cb_fatal b = [] \<and> cb_selected b = 3)"
proof -
  have "case buildCatalog sample_catalog sample_options of Inl e \<Rightarrow> False | Inr b \<Rightarrow> length (cb_entries b) = 2" by code_simp
  moreover have "case buildCatalog (conflicting_candidate # sample_catalog) sample_options of Inl e \<Rightarrow> False
      | Inr b \<Rightarrow> cb_entries b = [] \<and> cb_fatal b = [] \<and> cb_selected b = 3" by code_simp
  ultimately show ?thesis by (auto split: sum.splits)
qed

text \<open>
  A warning that two variants cannot be told apart is never fatal, whatever severity the host gives it:
  it is reported after the fatal diagnostics have been picked out.
\<close>

definition twin :: "string \<Rightarrow> tool_variant" where
  "twin name = \<lparr>tv_name = name, tv_description = ''Read an order'', tv_arguments = []\<rparr>"

lemma escalated_twins_not_fatal:
  "\<exists>b. buildCatalog [sample_candidate (sample_endpoint ''getOrder'' ''/orders/one'' None (Some [twin ''a'', twin ''b''])) []]
       (sample_options\<lparr>po_severity := \<lambda>code. Fatal\<rparr>) = Inr b
     \<and> cb_diagnostics b = [(Variant_indistinguishable, [''a'', ''b''])] \<and> cb_fatal b = []"
proof -
  have "case buildCatalog [sample_candidate (sample_endpoint ''getOrder'' ''/orders/one'' None (Some [twin ''a'', twin ''b''])) []]
       (sample_options\<lparr>po_severity := \<lambda>code. Fatal\<rparr>) of Inl e \<Rightarrow> False
     | Inr b \<Rightarrow> cb_diagnostics b = [(Variant_indistinguishable, [''a'', ''b''])] \<and> cb_fatal b = []" by code_simp
  then show ?thesis by (auto split: sum.splits)
qed

end
