(* ===== verification/Meta_Tools.thy ===== *)
theory Meta_Tools
  imports Catalog_Properties Leak_Filter Body_Writer
begin

text \<open>
  \<open>packages/http/core/src/meta-tools/meta-tools.ts\<close>: the answers of the meta-tools. An answer is a JSON
  value until \<open>emitGuarded\<close> measures and writes it; a handler that throws is its message. The decisions
  about an entry, the probe and the providers of deferred values are the host's and are parameters.
\<close>

section \<open>Errors as JSON\<close>

text \<open>The number a natural number is, in its shortest decimal.\<close>

fun strip_zeros :: "nat \<Rightarrow> int \<Rightarrow> jsnum" where
  "strip_zeros n e = (if n \<noteq> 0 \<and> n mod 10 = 0 then strip_zeros (n div 10) (e + 1) else Dec False n e)"

declare strip_zeros.simps [simp del]

definition js_nat :: "nat \<Rightarrow> js" where
  "js_nat n = JNum (strip_zeros n 0)"

fun sdk_code_text :: "sdk_error_code \<Rightarrow> string" where
  "sdk_code_text Sdk_unknown_tool = ''unknown_tool''"
| "sdk_code_text Sdk_not_invocable = ''not_invocable''"
| "sdk_code_text Sdk_unknown_argument = ''unknown_argument''"
| "sdk_code_text Sdk_invalid_path_type = ''invalid_path_type''"
| "sdk_code_text Sdk_missing_path_parameter = ''missing_path_parameter''"
| "sdk_code_text Sdk_header_injection = ''header_injection''"
| "sdk_code_text Sdk_null_not_allowed = ''null_not_allowed''"
| "sdk_code_text Sdk_invalid_type = ''invalid_type''"
| "sdk_code_text Sdk_deferred_value_missing = ''deferred_value_missing''"
| "sdk_code_text Sdk_deferred_value_invalid = ''deferred_value_invalid''"
| "sdk_code_text Sdk_invalid_cookie_value = ''invalid_cookie_value''"
| "sdk_code_text Sdk_cookie_carrier_collision = ''cookie_carrier_collision''"
| "sdk_code_text Sdk_invalid_file_argument = ''invalid_file_argument''"
| "sdk_code_text Sdk_file_too_large = ''file_too_large''"
| "sdk_code_text Sdk_file_unresolved = ''file_unresolved''"
| "sdk_code_text Sdk_response_too_large = ''response_too_large''"
| "sdk_code_text Sdk_invoke_timeout = ''invoke_timeout''"
| "sdk_code_text Sdk_internal_error = ''internal_error''"

fun kind_json :: "payload_kind \<Rightarrow> js" where
  "kind_json Kind_array = JStr ''array''"
| "kind_json Kind_object = JStr ''object''"
| "kind_json Kind_text = JStr ''text''"

definition shape_json :: "payload_shape \<Rightarrow> js" where
  "shape_json s = JObj ((''kind'', kind_json (fst s)) # (case snd s of None \<Rightarrow> [] | Some n \<Rightarrow> [(''count'', js_nat n)]))"

definition field_json :: "field_error \<Rightarrow> js" where
  "field_json f = JObj ((case fe_name f of None \<Rightarrow> [] | Some n \<Rightarrow> [(''name'', JStr n)]) @ [(''message'', JStr (fe_message f))])"

definition sdk_error_json :: "sdk_error \<Rightarrow> js" where
  "sdk_error_json e = JObj ([(''error'', JStr (sdk_code_text (se_error e))), (''message'', JStr (se_message e)),
       (''retryable'', JBool (se_retryable e))]
     @ (case se_fields e of None \<Rightarrow> [] | Some fs \<Rightarrow> [(''fields'', JArr (map field_json fs))])
     @ (case se_payload e of None \<Rightarrow> [] | Some p \<Rightarrow> [(''payload'', JObj [(''bytes'', js_nat (pf_bytes p)),
          (''limit'', js_nat (pf_limit p)), (''shape'', shape_json (pf_shape p))])]))"

section \<open>Responses\<close>

record 'target meta_response =
  mr_payload :: js
  mr_isError :: bool
  mr_summaryOf :: "js option"
  mr_narrowing :: "field_error list option"
  mr_target :: "'target option"

definition errorResult :: "sdk_error_code \<Rightarrow> string \<Rightarrow> 't meta_response" where
  "errorResult code message = \<lparr>mr_payload = sdk_error_json (sdkError code message), mr_isError = True,
     mr_summaryOf = None, mr_narrowing = None, mr_target = None\<rparr>"

definition unknownTool :: "string \<Rightarrow> 't meta_response" where
  "unknownTool name = errorResult Sdk_unknown_tool
     (''No operation named '' @ quoted name @ ''. Use search_tools to find the exact name.'')"

definition notInvocable :: "string \<Rightarrow> 't meta_response" where
  "notInvocable name = errorResult Sdk_not_invocable
     (''Operation '' @ quoted name @ '' cannot be invoked through liaiso; see the catalog diagnostics.'')"

definition missingArgument :: "string \<Rightarrow> string \<Rightarrow> 't meta_response" where
  "missingArgument tool argument = errorResult Sdk_unknown_argument
     (''Tool '' @ quoted tool @ '' was called without '' @ quoted argument @ '', which is required. Call it again naming ''
       @ quoted argument @ '' exactly.'')"

fun js_typeof :: "js \<Rightarrow> string" where
  "js_typeof JUndef = ''undefined''"
| "js_typeof (JBool b) = ''boolean''"
| "js_typeof (JNum n) = ''number''"
| "js_typeof (JStr s) = ''string''"
| "js_typeof JFun = ''function''"
| "js_typeof _ = ''object''"

definition wrongArgumentType :: "string \<Rightarrow> string \<Rightarrow> js \<Rightarrow> 't meta_response" where
  "wrongArgumentType tool argument v = errorResult Sdk_unknown_argument
     (''Tool '' @ quoted tool @ '' takes '' @ quoted argument @ '' as a string; '' @ js_typeof v @ '' arrived. Call it again with ''
       @ quoted argument @ '' set to an operation name from search_tools.'')"

text \<open>What \<open>emitGuarded\<close> answers for a handler that threw: \<open>Inl\<close> is the message of what it threw.\<close>

definition settled_response :: "string + 't meta_response \<Rightarrow> 't meta_response" where
  "settled_response produced = (case produced of
     Inr response \<Rightarrow> response
   | Inl raw \<Rightarrow> errorResult Sdk_internal_error (case forwardable raw of
       None \<Rightarrow> ''The operation failed inside the liaiso layer. Details were withheld.''
     | Some safe \<Rightarrow> ''The operation failed inside the liaiso layer: '' @ safe))"

definition stringify :: "js \<Rightarrow> string" where
  "stringify v = (case json_text v of Some s \<Rightarrow> s | None \<Rightarrow> ''null'')"

definition summary_value :: "'t meta_response \<Rightarrow> js" where
  "summary_value response = (case mr_summaryOf response of
     Some v \<Rightarrow> if v = JNull \<or> v = JUndef then mr_payload response else v | None \<Rightarrow> mr_payload response)"

definition emitGuarded :: "('t option \<Rightarrow> nat) \<Rightarrow> string + 't meta_response \<Rightarrow> string \<times> bool" where
  "emitGuarded budgetFor produced =
     (let response = settled_response produced; s = stringify (mr_payload response);
          bytes = length (utf8 s); limit = budgetFor (mr_target response)
      in if bytes \<le> limit then (s, mr_isError response)
         else (stringify (sdk_error_json (refuseOversizeResponse bytes limit
             (describePayload (summary_value response))
             (case mr_narrowing response of Some fs \<Rightarrow> fs | None \<Rightarrow> []))), True))"

section \<open>Searching the catalog\<close>

definition defaultSearchLimit :: nat where "defaultSearchLimit = 20"

definition maxSearchLimit :: nat where "maxSearchLimit = 50"

definition maxSearchTagVocabulary :: nat where "maxSearchTagVocabulary = 200"

definition searchNarrowing :: "field_error list" where
  "searchNarrowing = [\<lparr>fe_name = Some ''query'', fe_message = ''Keywords that select fewer operations.''\<rparr>,
     \<lparr>fe_name = Some ''limit'', fe_message = ''Maximum number of results, 1-50.''\<rparr>,
     \<lparr>fe_name = Some ''detail'', fe_message = ''Use '' @ [CHR 0x22] @ ''card'' @ [CHR 0x22] @ '' for the compact shape.''\<rparr>,
     \<lparr>fe_name = Some ''tags'', fe_message = ''Tags every result must carry.''\<rparr>]"

record 's search_probe =
  sp_budget :: nat
  sp_canProbe :: "'s catalog_entry \<Rightarrow> bool"
  sp_run :: "'s catalog_entry \<Rightarrow> visibility"

record 's search_request =
  sr_catalog :: "'s catalog_build"
  sr_query :: "string option"
  sr_limit :: "nat option"
  sr_schema :: bool
  sr_tags :: "string list option"
  sr_decide :: "'s catalog_entry \<Rightarrow> visibility"
  sr_visible :: "visibility \<Rightarrow> bool"
  sr_probe :: "'s search_probe option"

definition capped_limit :: "nat option \<Rightarrow> nat" where
  "capped_limit limit = min (max (case limit of None \<Rightarrow> defaultSearchLimit | Some n \<Rightarrow> n) 1) maxSearchLimit"

definition entry_of :: "'s search_request \<Rightarrow> string \<Rightarrow> 's catalog_entry option" where
  "entry_of rq name = map_of (cb_byName (sr_catalog rq)) name"

definition ranked_names :: "'s search_request \<Rightarrow> string list" where
  "ranked_names rq = (case tool_search (cb_index (sr_catalog rq)) (case sr_query rq of None \<Rightarrow> [] | Some q \<Rightarrow> q)
       (max (length (cb_entries (sr_catalog rq))) 1) (case sr_tags rq of None \<Rightarrow> [] | Some ts \<Rightarrow> ts) of
     Inr names \<Rightarrow> names | Inl e \<Rightarrow> [])"

text \<open>\<open>declarative\<close>, and \<open>resolved\<close> after the probe has run on the first names it may.\<close>

definition declarative_decisions :: "'s search_request \<Rightarrow> string list \<Rightarrow> (string \<times> visibility) list" where
  "declarative_decisions rq ranked = fold (\<lambda>name m. case entry_of rq name of
     None \<Rightarrow> m | Some e \<Rightarrow> AList.update name (sr_decide rq e) m) ranked []"

definition probe_queue :: "'s search_request \<Rightarrow> 's search_probe \<Rightarrow> string list \<Rightarrow> string list" where
  "probe_queue rq probe ranked = take (sp_budget probe) (filter (\<lambda>name. case entry_of rq name of
     None \<Rightarrow> False
   | Some e \<Rightarrow> map_of (declarative_decisions rq ranked) name = Some Unknown \<and> sp_canProbe probe e) ranked)"

definition resolved_decisions :: "'s search_request \<Rightarrow> string list \<Rightarrow> (string \<times> visibility) list" where
  "resolved_decisions rq ranked = (case sr_probe rq of
     None \<Rightarrow> declarative_decisions rq ranked
   | Some probe \<Rightarrow> fold (\<lambda>name m. case entry_of rq name of
       None \<Rightarrow> m | Some e \<Rightarrow> AList.update name (sp_run probe e) m)
       (probe_queue rq probe ranked) (declarative_decisions rq ranked))"

fun collect_results :: "'s search_request \<Rightarrow> (string \<times> visibility) list \<Rightarrow> nat \<Rightarrow> string list
    \<Rightarrow> ('s catalog_entry \<times> visibility) list \<Rightarrow> ('s catalog_entry \<times> visibility) list" where
  "collect_results rq resolved capped [] results = results"
| "collect_results rq resolved capped (name # names) results = (case entry_of rq name of
     None \<Rightarrow> collect_results rq resolved capped names results
   | Some e \<Rightarrow>
      (let decision = (case map_of resolved name of Some v \<Rightarrow> v | None \<Rightarrow> Unknown)
       in if \<not> sr_visible rq decision then collect_results rq resolved capped names results
          else if length (results @ [(e, decision)]) \<ge> capped then results @ [(e, decision)]
          else collect_results rq resolved capped names (results @ [(e, decision)])))"

definition search_results :: "'s search_request \<Rightarrow> ('s catalog_entry \<times> visibility) list" where
  "search_results rq = (let ranked = ranked_names rq
     in collect_results rq (resolved_decisions rq ranked) (capped_limit (sr_limit rq)) ranked [])"

definition visible_entries :: "'s search_request \<Rightarrow> 's catalog_entry list" where
  "visible_entries rq = filter (\<lambda>e. sr_visible rq (sr_decide rq e)) (map snd (cb_byName (sr_catalog rq)))"

definition tag_vocabulary :: "'s search_request \<Rightarrow> string list" where
  "tag_vocabulary rq = js_set (concat (map (\<lambda>e. map foldToken
     (case dc_tags (ce_descriptor e) of None \<Rightarrow> [] | Some ts \<Rightarrow> ts)) (visible_entries rq)))"

definition known_tags :: "'s search_request \<Rightarrow> string list option" where
  "known_tags rq = (let n = length (tag_vocabulary rq)
     in if n = 0 \<or> n > maxSearchTagVocabulary then None else Some (sort (tag_vocabulary rq)))"

definition flag_json :: "string \<Rightarrow> bool \<Rightarrow> (string \<times> js) list" where
  "flag_json name b = (if b then [(name, JBool True)] else [])"

definition annotations_json :: "annotations \<Rightarrow> js" where
  "annotations_json a = JObj (List.map_filter (\<lambda>(k, v). map_option (\<lambda>b. (k, JBool b)) v)
     [(''readOnlyHint'', an_readOnly a), (''destructiveHint'', an_destructive a), (''idempotentHint'', an_idempotent a)])"

definition card_json :: "card \<Rightarrow> js" where
  "card_json c = JObj ([(''name'', JStr (card_name c)), (''description'', JStr (card_description c)),
       (''parameters'', JStr (card_parameters c))] @ flag_json ''deprecated'' (card_deprecated c)
     @ flag_json ''authUncertain'' (card_authUncertain c))"

definition detail_json :: "tool_detail \<Rightarrow> js" where
  "detail_json d = JObj ([(''name'', JStr (de_name d)), (''description'', JStr (de_description d)),
       (''inputSchema'', de_inputSchema d)]
     @ (case de_outputSchema d of None \<Rightarrow> [] | Some s \<Rightarrow> [(''outputSchema'', s)])
     @ [(''annotations'', annotations_json (de_annotations d))] @ flag_json ''deprecated'' (de_deprecated d)
     @ flag_json ''authUncertain'' (de_authUncertain d))"

definition result_json :: "string \<Rightarrow> 's search_request \<Rightarrow> 's catalog_entry \<times> visibility \<Rightarrow> js" where
  "result_json mark rq r = (if sr_schema rq then detail_json (createDetail (ce_tool (fst r)) (snd r))
     else card_json (createCard mark (ce_tool (fst r)) (snd r)))"

definition searchCatalog :: "string \<Rightarrow> 's search_request \<Rightarrow> 't meta_response" where
  "searchCatalog mark rq =
     (let results = JArr (map (result_json mark rq) (search_results rq))
      in \<lparr>mr_payload = JObj ([(''total'', js_nat (length (visible_entries rq))), (''results'', results)]
            @ (case known_tags rq of None \<Rightarrow> [] | Some ts \<Rightarrow> [(''tags'', JArr (map JStr ts))])),
          mr_isError = False, mr_summaryOf = Some results, mr_narrowing = Some searchNarrowing, mr_target = None\<rparr>)"

section \<open>Around an invocation\<close>

definition deferred_source :: "argument_fill option \<Rightarrow> string list" where
  "deferred_source f = (case f of Some (Deferred s) \<Rightarrow> [s] | _ \<Rightarrow> [])"

definition deferredSourcesOf :: "request_template option \<Rightarrow> string list" where
  "deferredSourcesOf template = (case template of
     None \<Rightarrow> []
   | Some t \<Rightarrow> js_set (concat (map deferred_source
       (map p_fill (t_parameters t) @ map (\<lambda>f. Some (snd f)) (t_fills t) @ [t_rootFill t]))))"

definition resolveDeferred :: "request_template option \<Rightarrow> (string \<Rightarrow> ('caller \<Rightarrow> js) option) \<Rightarrow> 'caller
    \<Rightarrow> (string \<times> js) list option" where
  "resolveDeferred template providers caller =
     (let sources = deferredSourcesOf template
      in if sources = [] then None
         else Some (fold (\<lambda>source resolved. case providers source of
              None \<Rightarrow> resolved
            | Some provider \<Rightarrow> (let v = provider caller in if v = JUndef then resolved else obj_put source v resolved))
            sources []))"

definition vocabularyOf :: "request_template option \<Rightarrow> (string \<times> string) list \<times> string list" where
  "vocabularyOf template = (case template of
     None \<Rightarrow> ([], [])
   | Some t \<Rightarrow>
      (fold (\<lambda>(agentName, wireName). obj_put wireName agentName) (t_aliases t)
         (fold (\<lambda>p m. case p_argument p of Some a \<Rightarrow> if p_fill p = None then obj_put (p_name p) a m else m | None \<Rightarrow> m)
           (t_parameters t) []),
       map p_name (filter (\<lambda>p. p_fill p \<noteq> None) (t_parameters t)) @ map fst (t_fills t)))"

definition knownFields :: "tool_definition \<Rightarrow> string list" where
  "knownFields tool = js_keys (js_get (td_inputSchema tool) ''properties'')"

end
