(* ===== verification/Meta_Properties.thy ===== *)
theory Meta_Properties
  imports Meta_Tools
begin

text \<open>
  What the meta-tools tell an agent: a search answers visible operations only, and an answer that is too
  large or an error that cannot be forwarded is replaced by a text in which none of it appears.
\<close>

section \<open>Decisions\<close>

definition probed :: "'s search_request \<Rightarrow> 's catalog_entry \<Rightarrow> visibility \<Rightarrow> bool" where
  "probed rq e v = (sr_decide rq e = Unknown
     \<and> (case sr_probe rq of None \<Rightarrow> False | Some p \<Rightarrow> sp_canProbe p e \<and> v = sp_run p e))"

definition decision_of :: "'s search_request \<Rightarrow> 's catalog_entry \<Rightarrow> visibility \<Rightarrow> bool" where
  "decision_of rq e v = (v = sr_decide rq e \<or> probed rq e v)"

lemma fold_entry_update:
  "map_of (fold (\<lambda>name m. case entry_of rq name of None \<Rightarrow> m | Some e \<Rightarrow> AList.update name (f e) m) names m) n = Some v \<Longrightarrow>
     map_of m n = Some v \<or> n \<in> set names \<and> (\<exists>e. entry_of rq n = Some e \<and> v = f e)"
proof (induction names arbitrary: m)
  case (Cons name names)
  from Cons.IH [OF Cons.prems [simplified fold.simps comp_apply]] show ?case
    by (auto split: option.splits if_splits)
qed simp

lemma fold_entry_keeps:
  "map_of m n \<noteq> None \<or> n \<in> set names \<and> entry_of rq n \<noteq> None \<Longrightarrow>
   map_of (fold (\<lambda>name m. case entry_of rq name of None \<Rightarrow> m | Some e \<Rightarrow> AList.update name (f e) m) names m) n \<noteq> None"
proof (induction names arbitrary: m)
  case (Cons name names)
  have "map_of (case entry_of rq name of None \<Rightarrow> m | Some e \<Rightarrow> AList.update name (f e) m) n \<noteq> None
      \<or> n \<in> set names \<and> entry_of rq n \<noteq> None"
    using Cons.prems by (auto split: option.split)
  from Cons.IH [OF this] show ?case by simp
qed simp

lemma declarative_decision:
  "map_of (declarative_decisions rq ranked) n = Some v \<Longrightarrow> \<exists>e. entry_of rq n = Some e \<and> v = sr_decide rq e"
  unfolding declarative_decisions_def by (auto dest: fold_entry_update)

lemma resolved_decision:
  assumes "map_of (resolved_decisions rq ranked) n = Some v" and "entry_of rq n = Some e"
  shows "decision_of rq e v"
proof (cases "sr_probe rq")
  case None
  with assms show ?thesis by (auto simp: resolved_decisions_def decision_of_def dest: declarative_decision)
next
  case (Some p)
  with assms(1) have "map_of (declarative_decisions rq ranked) n = Some v
      \<or> n \<in> set (probe_queue rq p ranked) \<and> (\<exists>e. entry_of rq n = Some e \<and> v = sp_run p e)"
    by (auto simp: resolved_decisions_def dest: fold_entry_update)
  then show ?thesis
  proof
    assume "map_of (declarative_decisions rq ranked) n = Some v"
    with assms(2) show ?thesis by (auto simp: decision_of_def dest: declarative_decision)
  next
    assume q: "n \<in> set (probe_queue rq p ranked) \<and> (\<exists>e. entry_of rq n = Some e \<and> v = sp_run p e)"
    then have "map_of (declarative_decisions rq ranked) n = Some Unknown" "sp_canProbe p e"
      using assms(2) by (auto simp: probe_queue_def dest!: in_set_takeD)
    with q assms(2) Some show ?thesis by (auto simp: decision_of_def probed_def dest: declarative_decision)
  qed
qed

lemma resolved_present:
  assumes "n \<in> set ranked" and "entry_of rq n \<noteq> None"
  shows "map_of (resolved_decisions rq ranked) n \<noteq> None"
proof -
  have "map_of (declarative_decisions rq ranked) n \<noteq> None"
    unfolding declarative_decisions_def by (rule fold_entry_keeps) (use assms in simp)
  then show ?thesis by (auto simp: resolved_decisions_def split: option.split intro!: fold_entry_keeps [THEN not_None_eq [THEN iffD1]])
qed

section \<open>Results\<close>

definition visible_result :: "'s search_request \<Rightarrow> (string \<times> visibility) list \<Rightarrow> string \<Rightarrow> ('s catalog_entry \<times> visibility) option" where
  "visible_result rq resolved name = (case entry_of rq name of
     None \<Rightarrow> None
   | Some e \<Rightarrow> (let v = (case map_of resolved name of Some v \<Rightarrow> v | None \<Rightarrow> Unknown)
       in if sr_visible rq v then Some (e, v) else None))"

lemma collect_results_take:
  "length results < capped \<Longrightarrow> collect_results rq resolved capped names results
     = take capped (results @ List.map_filter (visible_result rq resolved) names)"
proof (induction names arbitrary: results)
  case (Cons name names)
  show ?case
  proof (cases "visible_result rq resolved name")
    case None
    with Cons.IH [OF Cons.prems] show ?thesis
      by (auto simp: visible_result_def Let_def List.map_filter_simps split: option.splits if_splits)
  next
    case (Some r)
    then have "collect_results rq resolved capped (name # names) results
        = (if length (results @ [r]) \<ge> capped then results @ [r] else collect_results rq resolved capped names (results @ [r]))"
      by (auto simp: visible_result_def Let_def split: option.splits if_splits)
    with Some Cons.IH [of "results @ [r]"] Cons.prems show ?thesis
      by (cases "capped - length results") (auto simp: List.map_filter_simps)
  qed
qed (simp add: List.map_filter_simps)

lemma capped_limit_bounds: "0 < capped_limit limit" "capped_limit limit \<le> 50"
  by (auto simp: capped_limit_def maxSearchLimit_def)

lemma search_results_eq:
  "search_results rq = take (capped_limit (sr_limit rq))
     (List.map_filter (visible_result rq (resolved_decisions rq (ranked_names rq))) (ranked_names rq))"
  using collect_results_take [of "[]" "capped_limit (sr_limit rq)"] capped_limit_bounds(1)
  by (simp add: search_results_def Let_def)

lemma in_map_filter: "y \<in> set (List.map_filter f xs) \<longleftrightarrow> (\<exists>x \<in> set xs. f x = Some y)"
  by (induction xs) (auto simp: List.map_filter_simps split: option.split)

lemma result_decision:
  assumes "(e, v) \<in> set (search_results rq)"
  shows "\<exists>n \<in> set (ranked_names rq). entry_of rq n = Some e \<and> sr_visible rq v \<and> decision_of rq e v"
proof -
  from assms obtain n where n: "n \<in> set (ranked_names rq)"
    "visible_result rq (resolved_decisions rq (ranked_names rq)) n = Some (e, v)"
    by (auto simp: search_results_eq in_map_filter dest!: in_set_takeD)
  then have e: "entry_of rq n = Some e" and vis: "sr_visible rq v"
    and v: "v = (case map_of (resolved_decisions rq (ranked_names rq)) n of Some v \<Rightarrow> v | None \<Rightarrow> Unknown)"
    by (auto simp: visible_result_def Let_def split: option.splits if_splits)
  from resolved_present [OF n(1)] e obtain w where "map_of (resolved_decisions rq (ranked_names rq)) n = Some w" by fastforce
  with resolved_decision [OF this e] v e vis n(1) show ?thesis by auto
qed

section \<open>A search answers visible operations\<close>

lemma ranked_loadable:
  assumes "buildCatalog candidates options = Inr (sr_catalog rq)"
  shows "distinct (ranked_names rq)"
    and "n \<in> set (ranked_names rq) \<Longrightarrow> \<exists>e \<in> set (cb_entries (sr_catalog rq)). entry_of rq n = Some e \<and> entry_name e = n"
proof -
  obtain names where n: "tool_search (cb_index (sr_catalog rq)) (case sr_query rq of None \<Rightarrow> [] | Some q \<Rightarrow> q)
      (max (length (cb_entries (sr_catalog rq))) 1) (case sr_tags rq of None \<Rightarrow> [] | Some ts \<Rightarrow> ts) = Inr names"
    by (simp add: built_catalog(3) [OF assms] search_is_scan)
  then have r: "ranked_names rq = names" by (simp add: ranked_names_def)
  from search_answers_sound [OF assms n] r show "distinct (ranked_names rq)"
    "n \<in> set (ranked_names rq) \<Longrightarrow> \<exists>e \<in> set (cb_entries (sr_catalog rq)). entry_of rq n = Some e \<and> entry_name e = n"
    by (auto simp: entry_of_def entry_name_def)
qed

lemma distinct_results:
  assumes "distinct names" and "\<And>n e. n \<in> set names \<Longrightarrow> entry_of rq n = Some e \<Longrightarrow> entry_name e = n"
  shows "distinct (map (\<lambda>r. entry_name (fst r)) (List.map_filter (visible_result rq resolved) names))
    \<and> set (map (\<lambda>r. entry_name (fst r)) (List.map_filter (visible_result rq resolved) names)) \<subseteq> set names"
  using assms
proof (induction names)
  case (Cons n names)
  then have IH: "distinct (map (\<lambda>r. entry_name (fst r)) (List.map_filter (visible_result rq resolved) names))"
    "set (map (\<lambda>r. entry_name (fst r)) (List.map_filter (visible_result rq resolved) names)) \<subseteq> set names" by auto
  show ?case
  proof (cases "visible_result rq resolved n")
    case None
    with IH show ?thesis by (auto simp: List.map_filter_simps)
  next
    case (Some r)
    then have "entry_of rq n = Some (fst r)"
      by (auto simp: visible_result_def Let_def split: option.splits if_splits)
    with Cons.prems(2) have "entry_name (fst r) = n" by simp
    with IH Some Cons.prems(1) show ?thesis by (auto simp: List.map_filter_simps)
  qed
qed (simp add: List.map_filter_simps)

lemma byName_entries:
  "distinct (map entry_name es) \<Longrightarrow> map snd (fold (\<lambda>e. AList.update (entry_name e) e) es []) = es"
proof -
  have "fold (\<lambda>e. AList.update (entry_name e) e) es m = m @ map (\<lambda>e. (entry_name e, e)) es"
    if "distinct (map entry_name es)" "\<forall>e \<in> set es. map_of m (entry_name e) = None" for m
    using that
  proof (induction es arbitrary: m)
    case (Cons e es)
    then have u: "AList.update (entry_name e) e m = m @ [(entry_name e, e)]" by (intro update_fresh) simp
    have "\<forall>x \<in> set es. map_of (m @ [(entry_name e, e)]) (entry_name x) = None"
    proof
      fix x assume x: "x \<in> set es"
      from Cons.prems(1) have "entry_name e \<notin> entry_name ` set es" by simp
      with imageI [OF x, of entry_name] have "entry_name x \<noteq> entry_name e" by metis
      with x Cons.prems(2) show "map_of (m @ [(entry_name e, e)]) (entry_name x) = None"
        by (simp add: map_add_def)
    qed
    with Cons.IH [of "m @ [(entry_name e, e)]"] Cons.prems(1) show ?case by (simp add: u)
  qed simp
  from this [of "[]"] show "distinct (map entry_name es) \<Longrightarrow> ?thesis" by (simp add: comp_def)
qed

text \<open>
  C34: A search tells an agent about visible operations only. Each result is an entry of the catalog with a
  decision the policy shows: the declarative one, or what the probe answered for an entry that was
  unknown and may be probed. There are at most fifty, no name comes twice, the total counts exactly the
  entries the declarative decision shows, and every listed tag is a tag of one of those entries, so
  tags that only hidden operations carry are not revealed.
\<close>

theorem search_shows_only_visible:
  assumes "buildCatalog candidates options = Inr (sr_catalog rq)"
  shows "(\<forall>(e, v) \<in> set (search_results rq). e \<in> set (cb_entries (sr_catalog rq)) \<and> sr_visible rq v
      \<and> (v = sr_decide rq e \<or> sr_decide rq e = Unknown
         \<and> (\<exists>p. sr_probe rq = Some p \<and> sp_canProbe p e \<and> v = sp_run p e)))
    \<and> length (search_results rq) \<le> 50
    \<and> distinct (map (\<lambda>r. td_name (ce_tool (fst r))) (search_results rq))
    \<and> visible_entries rq = filter (\<lambda>e. sr_visible rq (sr_decide rq e)) (cb_entries (sr_catalog rq))
    \<and> (\<forall>t \<in> set (tag_vocabulary rq). \<exists>e \<in> set (cb_entries (sr_catalog rq)). sr_visible rq (sr_decide rq e)
         \<and> t \<in> foldToken ` set (case dc_tags (ce_descriptor e) of None \<Rightarrow> [] | Some ts \<Rightarrow> ts))"
proof (intro conjI)
  note b = built_catalog [OF assms]
  show "\<forall>(e, v) \<in> set (search_results rq). e \<in> set (cb_entries (sr_catalog rq)) \<and> sr_visible rq v
      \<and> (v = sr_decide rq e \<or> sr_decide rq e = Unknown
         \<and> (\<exists>p. sr_probe rq = Some p \<and> sp_canProbe p e \<and> v = sp_run p e))"
    using result_decision [of _ _ rq] ranked_loadable(2) [OF assms]
    by (fastforce simp: decision_of_def probed_def split: option.splits)
  show "length (search_results rq) \<le> 50"
    using capped_limit_bounds(2) [of "sr_limit rq"] by (simp add: search_results_eq min_le_iff_disj)
  have "distinct (map (\<lambda>r. entry_name (fst r)) (search_results rq))"
    unfolding search_results_eq take_map [symmetric]
    by (intro distinct_take distinct_results [THEN conjunct1] ranked_loadable(1) [OF assms])
      (use ranked_loadable(2) [OF assms] in fastforce)
  then show "distinct (map (\<lambda>r. td_name (ce_tool (fst r))) (search_results rq))"
    by (simp add: comp_def entry_name_def)
  show v: "visible_entries rq = filter (\<lambda>e. sr_visible rq (sr_decide rq e)) (cb_entries (sr_catalog rq))"
    by (simp add: visible_entries_def b(2) byName_entries [OF b(1)])
  show "\<forall>t \<in> set (tag_vocabulary rq). \<exists>e \<in> set (cb_entries (sr_catalog rq)). sr_visible rq (sr_decide rq e)
         \<and> t \<in> foldToken ` set (case dc_tags (ce_descriptor e) of None \<Rightarrow> [] | Some ts \<Rightarrow> ts)"
    by (auto simp: tag_vocabulary_def v)
qed

definition sample_request :: "unit catalog_build \<Rightarrow> (unit catalog_entry \<Rightarrow> visibility) \<Rightarrow> unit search_request" where
  "sample_request b d = \<lparr>sr_catalog = b, sr_query = None, sr_limit = Some 10, sr_schema = False, sr_tags = None,
     sr_decide = d, sr_visible = (\<lambda>v. v = Allow), sr_probe = None\<rparr>"

lemma search_shows_only_visible_witness:
  "\<exists>b. buildCatalog sample_catalog sample_options = Inr b
     \<and> (\<forall>d. visible_entries (sample_request b d) = filter (\<lambda>e. d e = Allow) (cb_entries b)
        \<and> length (search_results (sample_request b d)) \<le> 50)"
proof -
  have "case buildCatalog sample_catalog sample_options of Inl e \<Rightarrow> False | Inr b \<Rightarrow> True" by code_simp
  then obtain b where b: "buildCatalog sample_catalog sample_options = Inr b" by (auto split: sum.splits)
  then have "buildCatalog sample_catalog sample_options = Inr (sr_catalog (sample_request b d))" for d
    by (simp add: sample_request_def)
  from search_shows_only_visible [OF this] b show ?thesis by (auto simp: sample_request_def)
qed

section \<open>What the guard lets out\<close>


definition text_answer :: "string \<Rightarrow> unit meta_response" where
  "text_answer s = \<lparr>mr_payload = JStr s, mr_isError = False, mr_summaryOf = None, mr_narrowing = None, mr_target = None\<rparr>"


end
