(* ===== verification/Nest_Catalog.thy ===== *)
theory Nest_Catalog
  imports Catalog
begin

text \<open>
  \<open>sdks/nestjs/src/catalog.ts\<close>, with the rules of \<open>options.ts\<close> and \<open>decorators.ts\<close>: how the host's
  declarations about one endpoint are merged, what is handed to the catalog pipeline, and the life of
  the snapshot.

  What discovery finds is a list of endpoints; a controller is identified by a value of its own type.
  Two declarations are compared as values, where the source compares their JSON texts: a host that
  writes the members of one declaration in two orders is not covered.
\<close>

section \<open>Declarations of the host\<close>

datatype argument_rule = Hide argument_fill | Name_as "string option" "string option"

record 'c curation_target =
  ct_controller :: "'c option"
  ct_handler :: "string option"
  ct_method :: "string option"
  ct_route :: "string option"

record 'c curation_rule =
  cr_target :: "'c curation_target"
  cr_rules :: "(string \<times> argument_rule) list"
  cr_sealed :: bool
  cr_specificity :: nat

definition specificity :: "'c curation_target \<Rightarrow> nat" where
  "specificity target =
     (if ct_handler target \<noteq> None then 3
      else if ct_controller target \<noteq> None \<or> ct_route target \<noteq> None then 2 else 1)"

text \<open>\<open>ArgumentCurationOptions\<close>: its declarations, in the order the host made them.\<close>

definition anywhere :: "'c curation_target" where
  "anywhere = \<lparr>ct_controller = None, ct_handler = None, ct_method = None, ct_route = None\<rparr>"

definition curate :: "'c curation_target \<Rightarrow> (string \<times> argument_rule) list \<Rightarrow> 'c curation_rule list \<Rightarrow> 'c curation_rule list" where
  "curate target rules ds = ds @ [\<lparr>cr_target = target, cr_rules = rules, cr_sealed = False, cr_specificity = specificity target\<rparr>]"

definition everywhere :: "(string \<times> argument_rule) list \<Rightarrow> 'c curation_rule list \<Rightarrow> 'c curation_rule list" where
  "everywhere rules ds = curate anywhere rules ds"

definition seal :: "'c curation_target \<Rightarrow> (string \<times> argument_rule) list \<Rightarrow> 'c curation_rule list \<Rightarrow> 'c curation_rule list" where
  "seal target rules ds = ds @ [\<lparr>cr_target = target, cr_rules = rules, cr_sealed = True, cr_specificity = specificity target\<rparr>]"

section \<open>A discovered endpoint\<close>

record variant_hint =
  vh_name :: string
  vh_description :: string
  vh_arguments :: "(string \<times> argument_rule) list option"

record tool_hints =
  th_name :: "string option"
  th_prefix :: "string option"
  th_tags :: "string list option"
  th_arguments :: "(string \<times> argument_rule) list option"
  th_variants :: "variant_hint list option"

record 'c discovered =
  dv_descriptor :: declared_endpoint
  dv_controller :: 'c
  dv_controllerName :: string
  dv_handler :: string
  dv_containerMarkers :: "bool list"
  dv_operationMarkers :: "bool list"
  dv_hints :: tool_hints

definition matchesTarget :: "'c curation_rule \<Rightarrow> 'c discovered \<Rightarrow> bool" where
  "matchesTarget rule e =
     (let target = cr_target rule; d = dc_endpoint (dv_descriptor e)
      in (case ct_controller target of None \<Rightarrow> True | Some c \<Rightarrow> c = dv_controller e)
         \<and> (case ct_handler target of None \<Rightarrow> True | Some h \<Rightarrow> h = dv_handler e)
         \<and> (case ct_method target of None \<Rightarrow> True | Some m \<Rightarrow> to_upper m = ep_method d)
         \<and> (case ct_route target of None \<Rightarrow> True | Some r \<Rightarrow> matchesRoute r (ep_route d)))"

definition curation_record :: "string \<times> argument_rule \<Rightarrow> argument_curation" where
  "curation_record nr = (case snd nr of
     Hide f \<Rightarrow> \<lparr>ac_name = fst nr, ac_as = None, ac_description = None, ac_hidden = Some f\<rparr>
   | Name_as a d \<Rightarrow> \<lparr>ac_name = fst nr, ac_as = a, ac_description = d, ac_hidden = None\<rparr>)"

definition toCuration :: "(string \<times> argument_rule) list \<Rightarrow> argument_curation list" where
  "toCuration rules = map curation_record rules"

section \<open>The ladder\<close>

datatype ladder_error = Ambiguous_curation | Sealed_curation_overridden

type_synonym claim = "(nat \<times> bool \<times> string) \<times> argument_rule"

definition claim_one :: "nat \<Rightarrow> bool \<Rightarrow> claim list \<Rightarrow> string \<times> argument_rule \<Rightarrow> ladder_error + claim list" where
  "claim_one n s claimed nr =
     (case map_of claimed (n, s, fst nr) of
        Some existing \<Rightarrow> if existing \<noteq> snd nr then Inl Ambiguous_curation else Inr claimed
      | None \<Rightarrow> Inr (AList.update (n, s, fst nr) (snd nr) claimed))"

definition claim_rule :: "claim list \<Rightarrow> 'c curation_rule \<Rightarrow> ladder_error + claim list" where
  "claim_rule claimed rule = fold_res (claim_one (cr_specificity rule) (cr_sealed rule)) claimed (cr_rules rule)"

definition assertUnambiguous :: "'c curation_rule list \<Rightarrow> ladder_error + unit" where
  "assertUnambiguous rules = res_map (\<lambda>_. ()) (fold_res claim_rule [] rules)"

definition central_rules :: "'c curation_rule list \<Rightarrow> 'c discovered \<Rightarrow> 'c curation_rule list" where
  "central_rules rules e = sort_key cr_specificity (filter (\<lambda>r. matchesTarget r e) rules)"

type_synonym layer = "(string \<times> argument_rule) list \<times> bool"

definition layers_of :: "'c curation_rule list \<Rightarrow> tool_hints \<Rightarrow> layer list" where
  "layers_of central hints =
     map (\<lambda>r. (cr_rules r, False)) (filter (\<lambda>r. \<not> cr_sealed r) central)
     @ [(case th_arguments hints of None \<Rightarrow> [] | Some rs \<Rightarrow> rs, False)]
     @ map (\<lambda>r. (cr_rules r, True)) (filter cr_sealed central)"

definition sealed_names :: "'c curation_rule list \<Rightarrow> string list" where
  "sealed_names central = concat (map (\<lambda>r. map fst (cr_rules r)) (filter cr_sealed central))"

definition merge_one :: "string list \<Rightarrow> bool \<Rightarrow> (string \<times> argument_rule) list \<Rightarrow> string \<times> argument_rule
    \<Rightarrow> ladder_error + (string \<times> argument_rule) list" where
  "merge_one sealed from_sealed merged nr =
     (if fst nr \<in> set sealed \<and> \<not> from_sealed then Inl Sealed_curation_overridden
      else Inr (AList.update (fst nr) (snd nr) merged))"

definition merge_layer :: "string list \<Rightarrow> (string \<times> argument_rule) list \<Rightarrow> layer
    \<Rightarrow> ladder_error + (string \<times> argument_rule) list" where
  "merge_layer sealed merged l = fold_res (merge_one sealed (snd l)) merged (fst l)"

definition merged_rules :: "'c curation_rule list \<Rightarrow> 'c discovered \<Rightarrow> ladder_error + (string \<times> argument_rule) list" where
  "merged_rules rules e =
     (let central = central_rules rules e
      in res_bind (assertUnambiguous central) (\<lambda>_.
         fold_res (merge_layer (sealed_names central)) [] (layers_of central (dv_hints e))))"

definition curationFor :: "'c curation_rule list \<Rightarrow> 'c discovered \<Rightarrow> ladder_error + argument_curation list" where
  "curationFor rules e = res_map toCuration (merged_rules rules e)"

section \<open>Candidates\<close>

definition markersOf :: "'c discovered \<Rightarrow> marker option \<times> marker option" where
  "markersOf e =
     (combineMarkers (True \<in> set (dv_containerMarkers e)) (False \<in> set (dv_containerMarkers e)),
      combineMarkers (True \<in> set (dv_operationMarkers e)) (False \<in> set (dv_operationMarkers e)))"

definition variant_of_hint :: "variant_hint \<Rightarrow> tool_variant" where
  "variant_of_hint v = \<lparr>tv_name = vh_name v, tv_description = vh_description v,
     tv_arguments = (case vh_arguments v of None \<Rightarrow> [] | Some rs \<Rightarrow> toCuration rs)\<rparr>"

definition declaredDescriptor :: "'c discovered \<Rightarrow> argument_curation list \<Rightarrow> string list option \<Rightarrow> declared_endpoint" where
  "declaredDescriptor e curation tags =
     (let hints = dv_hints e; d = dc_endpoint (dv_descriptor e)
      in (dv_descriptor e)
         \<lparr>dc_endpoint := d
            \<lparr>ep_toolName := (case th_name hints of None \<Rightarrow> ep_toolName d | Some n \<Rightarrow> Some n),
             ep_containerPrefix := (case th_prefix hints of None \<Rightarrow> ep_containerPrefix d | Some p \<Rightarrow> Some p),
             ep_arguments := (if curation = [] then ep_arguments d else curation),
             ep_variants := (case th_variants hints of
                None \<Rightarrow> ep_variants d | Some vs \<Rightarrow> if vs = [] then ep_variants d else Some (map variant_of_hint vs))\<rparr>,
          dc_tags := (case tags of None \<Rightarrow> dc_tags (dv_descriptor e) | Some ts \<Rightarrow> Some ts)\<rparr>)"

text \<open>
  \<open>routePaths.create\<close> yields \<open>reserved\<close>, the routes of the MCP endpoint; \<open>tags\<close> is the host's rule. An
  endpoint whose ladder fails makes its \<open>declare\<close> throw; \<open>lift\<close> is the code it throws.
\<close>

definition routed :: "string list \<Rightarrow> 'c discovered list \<Rightarrow> 'c discovered list" where
  "routed reserved found = filter (\<lambda>e. \<not> list_ex (\<lambda>path. prefix path (ep_route (dc_endpoint (dv_descriptor e)))) reserved) found"

definition candidate_of :: "(ladder_error \<Rightarrow> template_error) \<Rightarrow> 'c curation_rule list \<Rightarrow> (string \<Rightarrow> string list option)
    \<Rightarrow> 'c discovered \<Rightarrow> ('c \<times> string) candidate" where
  "candidate_of lift rules tags e =
     \<lparr>cd_source = (dv_controller e, dv_handler e), cd_owner = dv_controllerName e @ ''.'' @ dv_handler e,
      cd_descriptor = dc_endpoint (dv_descriptor e), cd_container = fst (markersOf e), cd_operation = snd (markersOf e),
      cd_tags = (case th_tags (dv_hints e) of None \<Rightarrow> tags (dv_controllerName e) | Some ts \<Rightarrow> Some ts),
      cd_declare = (\<lambda>cleaned. res_map (\<lambda>c. declaredDescriptor e c cleaned)
        (case curationFor rules e of Inl err \<Rightarrow> Inl (lift err) | Inr c \<Rightarrow> Inr c))\<rparr>"

section \<open>What Express is set up to parse\<close>

record http_adapter =
  ha_type :: string
  ha_queryParser :: "string option"
  ha_layers :: "string list"

text \<open>\<open>ha_queryParser\<close> is \<open>None\<close> when a function is set.\<close>

definition bracketed :: "'s catalog_entry \<Rightarrow> bool" where
  "bracketed entry = list_ex (\<lambda>p. dp_style p = Some DeepObject
     \<and> (case dp_notation p of None \<Rightarrow> True | Some n \<Rightarrow> n = Bracket)) (ep_parameters (dc_endpoint (ce_descriptor entry)))"

definition reportUnparsedBrackets :: "http_adapter option \<Rightarrow> 's catalog_entry list \<Rightarrow> catalog_diagnostic list" where
  "reportUnparsedBrackets adapter entries = (case (filter bracketed entries, adapter) of
     (first # _, Some a) \<Rightarrow>
       if ha_type a \<noteq> ''express'' then []
       else (case ha_queryParser a of
           None \<Rightarrow> []
         | Some parser \<Rightarrow> if parser = ''extended'' then []
             else [(Host_code ''query_parser_not_extended'', [td_name (ce_tool first), parser])])
   | _ \<Rightarrow> [])"

definition lacksBodyParser :: "http_adapter option \<Rightarrow> declared_endpoint \<Rightarrow> string option" where
  "lacksBodyParser adapter d =
     (let contentType = Option.bind (ep_requestBody (dc_endpoint d)) rb_contentType;
          needed = (if contentType = Some textMediaType then Some ''textParser''
            else if contentType = Some urlEncodedMediaType then Some ''urlencodedParser'' else None)
      in case (needed, adapter) of
           (Some n, Some a) \<Rightarrow> if ha_type a \<noteq> ''express'' then None else if n \<in> set (ha_layers a) then None else Some n
         | _ \<Rightarrow> None)"

definition missing_parser :: "http_adapter option \<Rightarrow> declared_endpoint \<Rightarrow> string \<Rightarrow> catalog_diagnostic option" where
  "missing_parser adapter d name = map_option (\<lambda>parser. (Host_code ''body_parser_missing'',
       [name, case Option.bind (ep_requestBody (dc_endpoint d)) rb_contentType of None \<Rightarrow> [] | Some c \<Rightarrow> c, parser]))
     (lacksBodyParser adapter d)"

text \<open>\<open>served\<close> is where the router serves the metadata path under the global prefix.\<close>

definition checkMetadataPath :: "bool \<Rightarrow> string \<Rightarrow> string \<Rightarrow> string option \<Rightarrow> catalog_diagnostic list" where
  "checkMetadataPath resourceServer globalPrefix metadataPath served =
     (if \<not> resourceServer \<or> globalPrefix = [] then []
      else if served = Some metadataPath then []
      else [(Host_code ''prm_path_prefixed'',
        [case served of None \<Rightarrow> ''undefined'' | Some s \<Rightarrow> s, metadataPath, globalPrefix])])"

section \<open>The snapshot\<close>

text \<open>
  \<open>ns_built\<close> counts builds; the environment a build reads is the argument of \<open>build\<close>. A listener is a
  number; \<open>reload\<close> returns the listeners it called.
\<close>

record 'a nest_catalog =
  ns_snapshot :: "'a option"
  ns_generation :: nat
  ns_listeners :: "nat list"

definition new_nest_catalog :: "'a nest_catalog" where
  "new_nest_catalog = \<lparr>ns_snapshot = None, ns_generation = 0, ns_listeners = []\<rparr>"

definition nest_current :: "(unit \<Rightarrow> 'e + 'a) \<Rightarrow> 'a nest_catalog \<Rightarrow> 'e + 'a \<times> 'a nest_catalog" where
  "nest_current build c = (case ns_snapshot c of
     Some s \<Rightarrow> Inr (s, c)
   | None \<Rightarrow> res_map (\<lambda>s. (s, c\<lparr>ns_snapshot := Some s\<rparr>)) (build ()))"

definition nest_onChange :: "nat \<Rightarrow> 'a nest_catalog \<Rightarrow> 'a nest_catalog" where
  "nest_onChange listener c = c\<lparr>ns_listeners := set_add listener (ns_listeners c)\<rparr>"

definition nest_unsubscribe :: "nat \<Rightarrow> 'a nest_catalog \<Rightarrow> 'a nest_catalog" where
  "nest_unsubscribe listener c = c\<lparr>ns_listeners := set_remove listener (ns_listeners c)\<rparr>"

definition nest_reload :: "(unit \<Rightarrow> 'e + 'a) \<Rightarrow> 'a nest_catalog \<Rightarrow> 'e + nat list \<times> 'a nest_catalog" where
  "nest_reload build c = res_map (\<lambda>s. (ns_listeners c,
     c\<lparr>ns_snapshot := Some s, ns_generation := ns_generation c + 1\<rparr>)) (build ())"

end
