(* ===== verification/Nest_Curation.thy ===== *)
theory Nest_Curation
  imports Nest_Catalog
begin

text \<open>
  The ladder that merges the host's declarations decides each argument by one declaration: a sealed
  one of the greatest specificity, else the endpoint's own, else a central one of the greatest
  specificity. Nothing overrides a sealed declaration.
\<close>

section \<open>Within one level nothing is ambiguous\<close>

definition claims_of :: "'c curation_rule \<Rightarrow> claim list" where
  "claims_of r = map (\<lambda>nr. ((cr_specificity r, cr_sealed r, fst nr), snd nr)) (cr_rules r)"

lemma claim_one_keeps:
  assumes "claim_one n s claimed nr = Inr claimed'"
  shows "map_of claimed' (n, s, fst nr) = Some (snd nr)" and "map_of claimed k = Some d \<Longrightarrow> map_of claimed' k = Some d"
  using assms by (auto simp: claim_one_def map_of_update split: option.splits if_splits)

lemma claim_list_keeps:
  assumes "fold_res (claim_one n s) claimed nrs = Inr claimed'"
  shows "(\<forall>nr \<in> set nrs. map_of claimed' (n, s, fst nr) = Some (snd nr)) \<and> (\<forall>k d. map_of claimed k = Some d \<longrightarrow> map_of claimed' k = Some d)"
  using assms
proof (induction nrs arbitrary: claimed)
  case (Cons nr nrs)
  then obtain c where c: "claim_one n s claimed nr = Inr c" "fold_res (claim_one n s) c nrs = Inr claimed'"
    by (auto simp: res_iff)
  from Cons.IH [OF c(2)] claim_one_keeps [OF c(1)] show ?case by auto
qed simp

lemma claim_rules_keep:
  assumes "fold_res claim_rule claimed rules = Inr claimed'"
  shows "(\<forall>r \<in> set rules. \<forall>nr \<in> set (cr_rules r). map_of claimed' (cr_specificity r, cr_sealed r, fst nr) = Some (snd nr))
    \<and> (\<forall>k d. map_of claimed k = Some d \<longrightarrow> map_of claimed' k = Some d)"
  using assms
proof (induction rules arbitrary: claimed)
  case (Cons r rules)
  then obtain c where c: "claim_rule claimed r = Inr c" "fold_res claim_rule c rules = Inr claimed'"
    by (auto simp: res_iff)
  from Cons.IH [OF c(2)] claim_list_keeps [OF c(1) [unfolded claim_rule_def]] show ?case by auto
qed simp

lemma unambiguous:
  assumes "assertUnambiguous rules = Inr ()" and "r \<in> set rules" and "r' \<in> set rules"
    and "cr_specificity r = cr_specificity r'" and "cr_sealed r = cr_sealed r'"
    and "(n, d) \<in> set (cr_rules r)" and "(n, d') \<in> set (cr_rules r')"
  shows "d = d'"
proof -
  from assms(1) obtain claimed where "fold_res claim_rule [] rules = Inr claimed"
    by (auto simp: assertUnambiguous_def res_iff)
  from claim_rules_keep [OF this] have k: "map_of claimed (cr_specificity q, cr_sealed q, fst nr) = Some (snd nr)"
    if "q \<in> set rules" "nr \<in> set (cr_rules q)" for q nr using that by blast
  from k [OF assms(2,6)] k [OF assms(3,7)] assms(4,5) show ?thesis by simp
qed

section \<open>The last layer that names an argument decides it\<close>

definition top_declares :: "'c curation_rule list \<Rightarrow> string \<Rightarrow> argument_rule \<Rightarrow> bool" where
  "top_declares rs n d = (\<exists>r \<in> set rs. (n, d) \<in> set (cr_rules r)
     \<and> (\<forall>r' \<in> set rs. n \<in> fst ` set (cr_rules r') \<longrightarrow> cr_specificity r' \<le> cr_specificity r))"

lemma map_of_rev_some: "map_of (rev xs) n = Some d \<Longrightarrow> (n, d) \<in> set xs"
  by (auto dest: map_of_SomeD)

lemma map_of_rev_none: "map_of (rev xs) n = None \<longleftrightarrow> n \<notin> fst ` set xs"
  by (simp add: map_of_eq_None_iff)

lemma last_declares:
  assumes "sorted (map cr_specificity rs)"
    and "\<And>r r' d d'. r \<in> set rs \<Longrightarrow> r' \<in> set rs \<Longrightarrow> cr_specificity r = cr_specificity r'
      \<Longrightarrow> (n, d) \<in> set (cr_rules r) \<Longrightarrow> (n, d') \<in> set (cr_rules r') \<Longrightarrow> d = d'"
  shows "map_of (rev (concat (map cr_rules rs))) n = Some d \<longleftrightarrow> top_declares rs n d"
  using assms
proof (induction rs rule: rev_induct)
  case (snoc r rs)
  have below: "cr_specificity q \<le> cr_specificity r" if "q \<in> set rs" for q
    using snoc.prems(1) that by (auto simp: sorted_append)
  show ?case
  proof (cases "map_of (rev (cr_rules r)) n")
    case None
    then have "n \<notin> fst ` set (cr_rules r)" by (rule map_of_rev_none [THEN iffD1])
    moreover from this have "(n, d) \<notin> set (cr_rules r)" by force
    ultimately have "top_declares (rs @ [r]) n d \<longleftrightarrow> top_declares rs n d" by (auto simp: top_declares_def)
    moreover have "map_of (rev (concat (map cr_rules rs))) n = Some d \<longleftrightarrow> top_declares rs n d"
    proof (rule snoc.IH)
      show "sorted (map cr_specificity rs)" using snoc.prems(1) by (simp add: sorted_append)
      show "\<And>r r' d d'. r \<in> set rs \<Longrightarrow> r' \<in> set rs \<Longrightarrow> cr_specificity r = cr_specificity r'
          \<Longrightarrow> (n, d) \<in> set (cr_rules r) \<Longrightarrow> (n, d') \<in> set (cr_rules r') \<Longrightarrow> d = d'"
        by (rule snoc.prems(2)) simp_all
    qed
    ultimately show ?thesis using None by (simp add: map_add_def)
  next
    case (Some c)
    then have c: "(n, c) \<in> set (cr_rules r)" by (rule map_of_rev_some)
    have "top_declares (rs @ [r]) n d \<longleftrightarrow> d = c"
    proof
      assume "top_declares (rs @ [r]) n d"
      then obtain q where q: "q \<in> set (rs @ [r])" "(n, d) \<in> set (cr_rules q)" "cr_specificity r \<le> cr_specificity q"
        using c by (force simp: top_declares_def)
      have "cr_specificity q \<le> cr_specificity r" using q(1) below by auto
      with q(3) have "cr_specificity q = cr_specificity r" by simp
      with snoc.prems(2) [OF q(1) _ _ q(2) c] show "d = c" by simp
    next
      assume "d = c"
      with c below show "top_declares (rs @ [r]) n d" by (auto simp: top_declares_def)
    qed
    with Some show ?thesis by (auto simp: map_add_def)
  qed
qed (simp add: top_declares_def)

lemma merge_list:
  "fold_res (merge_one sealed s) merged nrs = Inr m \<longleftrightarrow>
     (s \<or> (\<forall>nr \<in> set nrs. fst nr \<notin> set sealed)) \<and> m = fold (\<lambda>nr. AList.update (fst nr) (snd nr)) nrs merged"
  by (induction nrs arbitrary: merged) (auto simp: res_iff merge_one_def)

lemma merge_layers:
  "fold_res (merge_layer sealed) merged ls = Inr m \<longleftrightarrow>
     (\<forall>l \<in> set ls. snd l \<or> (\<forall>nr \<in> set (fst l). fst nr \<notin> set sealed))
     \<and> m = fold (\<lambda>nr. AList.update (fst nr) (snd nr)) (concat (map fst ls)) merged"
  by (induction ls arbitrary: merged) (auto simp: res_iff merge_layer_def merge_list)

lemma map_of_fold_update:
  "map_of (fold (\<lambda>nr. AList.update (fst nr) (snd nr)) xs m) n = (case map_of (rev xs) n of Some d \<Rightarrow> Some d | None \<Rightarrow> map_of m n)"
proof (induction xs arbitrary: m)
  case (Cons x xs)
  then show ?case by (cases "map_of (rev xs) n") (auto simp: map_add_def map_of_update)
qed simp

lemma distinct_fold_rules: "distinct (map fst m) \<Longrightarrow> distinct (map fst (fold (\<lambda>nr. AList.update (fst nr) (snd nr)) xs m))"
  by (induction xs arbitrary: m) (auto intro: distinct_update)

section \<open>Which declaration decides\<close>

definition own_rules :: "'c discovered \<Rightarrow> (string \<times> argument_rule) list" where
  "own_rules e = (case th_arguments (dv_hints e) of None \<Rightarrow> [] | Some rs \<Rightarrow> rs)"

definition matching :: "bool \<Rightarrow> 'c curation_rule list \<Rightarrow> 'c discovered \<Rightarrow> 'c curation_rule list" where
  "matching sealed rules e = filter (\<lambda>r. cr_sealed r = sealed \<and> matchesTarget r e) rules"

definition names_one :: "'c curation_rule list \<Rightarrow> string \<Rightarrow> bool" where
  "names_one rs n = (\<exists>r \<in> set rs. n \<in> fst ` set (cr_rules r))"

definition nearest :: "'c curation_rule list \<Rightarrow> 'c discovered \<Rightarrow> string \<Rightarrow> argument_rule \<Rightarrow> bool" where
  "nearest rules e n d =
     (if names_one (matching True rules e) n then top_declares (matching True rules e) n d
      else if n \<in> fst ` set (own_rules e) then map_of (rev (own_rules e)) n = Some d
      else top_declares (matching False rules e) n d)"

lemma central_sealed: "set (filter (\<lambda>r. cr_sealed r = s) (central_rules rules e)) = set (matching s rules e)"
  by (auto simp: central_rules_def matching_def)

lemma top_declares_set: "set rs = set rs' \<Longrightarrow> top_declares rs n d = top_declares rs' n d"
  by (simp add: top_declares_def)

lemma last_central:
  assumes "assertUnambiguous (central_rules rules e) = Inr ()"
  shows "map_of (rev (concat (map cr_rules (filter (\<lambda>r. cr_sealed r = s) (central_rules rules e))))) n = Some d
    \<longleftrightarrow> top_declares (matching s rules e) n d"
proof -
  let ?c = "filter (\<lambda>r. cr_sealed r = s) (central_rules rules e)"
  have "sorted (map cr_specificity ?c)" by (simp add: central_rules_def sorted_filter)
  then have "map_of (rev (concat (map cr_rules ?c))) n = Some d \<longleftrightarrow> top_declares ?c n d"
    by (rule last_declares) (auto intro: unambiguous [OF assms])
  with top_declares_set [OF central_sealed] show ?thesis by blast
qed

lemma names_one_rev:
  "map_of (rev (concat (map cr_rules (filter (\<lambda>r. cr_sealed r = s) (central_rules rules e))))) n = None
    \<longleftrightarrow> \<not> names_one (matching s rules e) n"
  unfolding map_of_rev_none names_one_def central_sealed [symmetric] by auto

lemma merged_nearest:
  assumes "merged_rules rules e = Inr m"
  shows "map_of m n = Some d \<longleftrightarrow> nearest rules e n d" and "distinct (map fst m)"
    and "names_one (matching True rules e) n \<Longrightarrow> n \<notin> fst ` set (own_rules e) \<and> \<not> names_one (matching False rules e) n"
    and "names_one (matching True rules e) n \<Longrightarrow> \<exists>d. nearest rules e n d"
proof -
  let ?c = "central_rules rules e"
  from assms have u: "assertUnambiguous ?c = Inr ()"
    and f: "fold_res (merge_layer (sealed_names ?c)) [] (layers_of ?c (dv_hints e)) = Inr m"
    by (auto simp: merged_rules_def Let_def res_iff)
  let ?u = "concat (map cr_rules (filter (\<lambda>r. cr_sealed r = False) ?c))"
  let ?s = "concat (map cr_rules (filter (\<lambda>r. cr_sealed r = True) ?c))"
  have m: "m = fold (\<lambda>nr. AList.update (fst nr) (snd nr)) (?u @ own_rules e @ ?s) []"
    using f by (simp add: merge_layers layers_of_def own_rules_def comp_def)
  have k: "map_of m n = (case map_of (rev ?s) n of Some d \<Rightarrow> Some d | None \<Rightarrow>
      (case map_of (rev (own_rules e)) n of Some d \<Rightarrow> Some d | None \<Rightarrow> map_of (rev ?u) n))"
    by (simp add: m map_of_fold_update map_add_def split: option.split)
  show "map_of m n = Some d \<longleftrightarrow> nearest rules e n d"
    using last_central [OF u, of True n d] last_central [OF u, of False n d]
      names_one_rev [of True rules e n] map_of_rev_none [of "own_rules e" n]
    by (auto simp: k nearest_def split: option.split)
  show "\<exists>d. nearest rules e n d" if "names_one (matching True rules e) n"
  proof -
    from that have "map_of (rev ?s) n \<noteq> None" using names_one_rev [of True rules e n] by blast
    then obtain d where "map_of (rev ?s) n = Some d" by blast
    with last_central [OF u, of True n d] that show ?thesis by (auto simp: nearest_def)
  qed
  show "distinct (map fst m)" unfolding m by (rule distinct_fold_rules) simp
  show "n \<notin> fst ` set (own_rules e) \<and> \<not> names_one (matching False rules e) n" if "names_one (matching True rules e) n"
  proof -
    have "n \<in> set (sealed_names ?c)"
      using that unfolding names_one_def central_sealed [symmetric] by (auto simp: sealed_names_def)
    moreover have l: "\<forall>l \<in> set (layers_of ?c (dv_hints e)). snd l \<or> (\<forall>nr \<in> set (fst l). fst nr \<notin> set (sealed_names ?c))"
      using f by (simp add: merge_layers)
    have "\<forall>nr \<in> set (own_rules e). fst nr \<notin> set (sealed_names ?c)"
      using l [rule_format, of "(own_rules e, False)"] by (simp add: layers_of_def own_rules_def)
    moreover have "\<forall>nr \<in> set (cr_rules r). fst nr \<notin> set (sealed_names ?c)" if "r \<in> set (matching False rules e)" for r
      using l [rule_format, of "(cr_rules r, False)"] that unfolding central_sealed [symmetric] by (auto simp: layers_of_def)
    ultimately show ?thesis by (auto simp: names_one_def)
  qed
qed

lemma curation_record_inject: "curation_record p = curation_record q \<longleftrightarrow> p = q"
  by (cases p; cases q) (auto simp: curation_record_def split: argument_rule.splits)


section \<open>Concrete ladders\<close>

definition sample_hints :: "(string \<times> argument_rule) list \<Rightarrow> tool_hints" where
  "sample_hints own = \<lparr>th_name = None, th_prefix = None, th_tags = None, th_arguments = Some own, th_variants = None\<rparr>"

definition sample_discovered :: "(string \<times> argument_rule) list \<Rightarrow> nat discovered" where
  "sample_discovered own =
     \<lparr>dv_descriptor = \<lparr>dc_endpoint = \<lparr>ep_operationId = None, ep_container = None, ep_containerPrefix = None,
          ep_toolName = None, ep_method = ''GET'', ep_route = ''/orders'', ep_description = None, ep_deprecated = False,
          ep_parameters = [], ep_requestBody = None, ep_responses = None, ep_carriers = [], ep_arguments = [],
          ep_variants = None\<rparr>, dc_tags = None,
        dc_auth = \<lparr>au_anonymous = Anon_yes, au_policies = [], au_imperative = False\<rparr>\<rparr>,
      dv_controller = 7, dv_controllerName = ''OrdersController'', dv_handler = ''list'', dv_containerMarkers = [],
      dv_operationMarkers = [], dv_hints = sample_hints own\<rparr>"

definition tenant_hidden :: "string \<times> argument_rule" where
  "tenant_hidden = (''tenantId'', Hide (Deferred ''tenant''))"

definition tenant_described :: "string \<times> argument_rule" where
  "tenant_described = (''tenantId'', Name_as None (Some ''Tenant''))"


text \<open>
  The merge is per argument and not per field: an endpoint that only describes an argument which a
  central rule hides publishes it again.
\<close>

lemma description_unhides:
  "curationFor (everywhere [tenant_hidden] []) (sample_discovered [tenant_described])
     = Inr [\<lparr>ac_name = ''tenantId'', ac_as = None, ac_description = Some ''Tenant'', ac_hidden = None\<rparr>]
   \<and> curationFor (seal anywhere [tenant_hidden] []) (sample_discovered [tenant_described]) = Inl Sealed_curation_overridden"
  by code_simp

text \<open>A route that only begins like the MCP endpoint's is left out of the catalog.\<close>

lemma route_lost_to_prefix:
  "routed [''/mcp''] [(sample_discovered [])\<lparr>dv_descriptor := (dv_descriptor (sample_discovered []))
     \<lparr>dc_endpoint := (dc_endpoint (dv_descriptor (sample_discovered [])))\<lparr>ep_route := ''/mcp-servers''\<rparr>\<rparr>\<rparr>] = []"
  by code_simp

section \<open>The snapshot\<close>

lemma current_stable:
  "nest_current build c = Inr (s, c') \<Longrightarrow> nest_current build' c' = Inr (s, c') \<and> ns_generation c' = ns_generation c"
  by (auto simp: nest_current_def res_iff split: option.splits)

lemma reload_notifies:
  "nest_reload build c = Inr (called, c') \<Longrightarrow> called = ns_listeners c \<and> ns_generation c' = ns_generation c + 1
     \<and> (\<exists>s. build () = Inr s \<and> nest_current build' c' = Inr (s, c'))"
  by (auto simp: nest_reload_def nest_current_def res_iff)

end
