(* ===== verification/Nest_Tools.thy ===== *)
theory Nest_Tools
  imports Meta_Properties Dispatch Nest_Catalog
begin

text \<open>
  \<open>sdks/nestjs/src/meta-tools.ts\<close> and \<open>invoke-result-mapper.ts\<close>: the three tools an MCP server of this
  SDK publishes, from the bound arguments to the text of the answer.

  A host is the record of what the handlers read: the catalog snapshot, the options, and as functions
  the parts that are services: what the visibility provider answers for this caller, the probe, the
  value providers and the backend behind the dispatcher. The backend is given the composed request and
  the deadline and ends as \<open>Dispatch\<close> says: a response, an abandonment or something thrown. Texts the
  model does not interpret (of argument errors, of fatal diagnostics) are functions of their values.
\<close>

section \<open>The host\<close>

record invoke_target =
  it_tool :: string
  it_method :: string
  it_route :: string

datatype thrown = Thrown_argument argument_error | Thrown_ref string file_refusal nat | Thrown_other string

datatype tier = Declarative | Probing

record ('s, 'caller) tool_host =
  ho_catalog :: "'s catalog_build"
  ho_facts :: caller_facts
  ho_showUnknown :: bool
  ho_tier :: tier
  ho_probeTopK :: nat
  ho_canProbe :: "'s catalog_entry \<Rightarrow> bool"
  ho_probe :: "'s catalog_entry \<Rightarrow> visibility"
  ho_providers :: "string \<Rightarrow> ('caller \<Rightarrow> js) option"
  ho_caller :: 'caller
  ho_maxInlineFileBytes :: nat
  ho_timeoutMs :: nat
  ho_timeoutMsFor :: "invoke_target \<Rightarrow> nat option"
  ho_maxResponseBytes :: nat
  ho_maxResponseBytesFor :: "invoke_target \<Rightarrow> nat option"
  ho_recognizers :: "recognizer list"
  ho_backend :: "composed_request \<Rightarrow> nat \<Rightarrow> thrown outcome"
  ho_parse :: "string \<Rightarrow> js option"
  ho_mark :: string
  ho_argumentText :: "argument_error \<Rightarrow> string"
  ho_fatalText :: "catalog_diagnostic list \<Rightarrow> string"

definition timeoutFor :: "('s, 'c) tool_host \<Rightarrow> invoke_target \<Rightarrow> nat" where
  "timeoutFor host target = (case ho_timeoutMsFor host target of Some n \<Rightarrow> n | None \<Rightarrow> ho_timeoutMs host)"

definition budgetFor :: "('s, 'c) tool_host \<Rightarrow> invoke_target option \<Rightarrow> nat" where
  "budgetFor host target = (case Option.bind target (ho_maxResponseBytesFor host) of
     Some n \<Rightarrow> n | None \<Rightarrow> ho_maxResponseBytes host)"

section \<open>Visibility of an entry\<close>

definition host_visible :: "('s, 'c) tool_host \<Rightarrow> visibility \<Rightarrow> bool" where
  "host_visible host v = (case v of Allow \<Rightarrow> True | Deny \<Rightarrow> False | Unknown \<Rightarrow> ho_showUnknown host)"

definition decider :: "('s, 'c) tool_host \<Rightarrow> 's catalog_entry \<Rightarrow> visibility" where
  "decider host entry = evaluateVisibility (dc_auth (ce_descriptor entry)) (ho_facts host)"

definition host_find :: "('s, 'c) tool_host \<Rightarrow> string \<Rightarrow> 's catalog_entry option" where
  "host_find host name = map_of (cb_byName (ho_catalog host)) name"

definition ensureValid :: "('s, 'c) tool_host \<Rightarrow> string + unit" where
  "ensureValid host = (case assertCatalogValid (cb_fatal (ho_catalog host)) of
     Inl d \<Rightarrow> Inl (ho_fatalText host (cb_fatal (ho_catalog host))) | Inr u \<Rightarrow> Inr u)"

section \<open>The tools\<close>

type_synonym handled = "string + invoke_target meta_response"

definition host_search :: "('s, 'c) tool_host \<Rightarrow> string \<Rightarrow> nat \<Rightarrow> bool \<Rightarrow> string list option \<Rightarrow> 's search_request" where
  "host_search host query limit detail tags =
     \<lparr>sr_catalog = ho_catalog host, sr_query = Some query, sr_limit = Some limit, sr_schema = detail, sr_tags = tags,
      sr_decide = decider host, sr_visible = host_visible host,
      sr_probe = (case ho_tier host of Declarative \<Rightarrow> None
        | Probing \<Rightarrow> Some \<lparr>sp_budget = ho_probeTopK host, sp_canProbe = ho_canProbe host, sp_run = ho_probe host\<rparr>)\<rparr>"

definition search_tools :: "('s, 'c) tool_host \<Rightarrow> string \<Rightarrow> nat \<Rightarrow> bool \<Rightarrow> string list option \<Rightarrow> handled" where
  "search_tools host query limit detail tags =
     res_map (\<lambda>_. searchCatalog (ho_mark host) (host_search host query limit detail tags)) (ensureValid host)"

definition load_decision :: "('s, 'c) tool_host \<Rightarrow> 's catalog_entry \<Rightarrow> visibility" where
  "load_decision host entry =
     (let decision = decider host entry
      in if decision = Unknown \<and> ho_tier host = Probing \<and> ho_probeTopK host > 0 \<and> ho_canProbe host entry
         then ho_probe host entry else decision)"

definition text_result :: "js \<Rightarrow> bool \<Rightarrow> 't meta_response" where
  "text_result payload isError =
     \<lparr>mr_payload = payload, mr_isError = isError, mr_summaryOf = None, mr_narrowing = None, mr_target = None\<rparr>"

definition load_tool :: "('s, 'c) tool_host \<Rightarrow> js \<Rightarrow> handled" where
  "load_tool host name = (case name of
     JUndef \<Rightarrow> Inr (missingArgument ''load_tool'' ''name'')
   | JStr n \<Rightarrow> res_map (\<lambda>_. case host_find host n of
         None \<Rightarrow> unknownTool n
       | Some entry \<Rightarrow>
          (let decision = load_decision host entry
           in if \<not> host_visible host decision then unknownTool n
              else text_result (detail_json (createDetail (ce_tool entry) decision)) False)) (ensureValid host)
   | v \<Rightarrow> Inr (wrongArgumentType ''load_tool'' ''name'' v))"

section \<open>Invocation\<close>

fun argument_code :: "argument_error \<Rightarrow> sdk_error_code" where
  "argument_code (Unknown_argument a b) = Sdk_unknown_argument"
| "argument_code (Invalid_path_type a) = Sdk_invalid_path_type"
| "argument_code (Missing_path_parameter a) = Sdk_missing_path_parameter"
| "argument_code (Header_injection a) = Sdk_header_injection"
| "argument_code (Null_not_allowed a) = Sdk_null_not_allowed"
| "argument_code (Invalid_type a) = Sdk_invalid_type"
| "argument_code (Deferred_value_missing a) = Sdk_deferred_value_missing"
| "argument_code (Deferred_value_invalid a) = Sdk_deferred_value_invalid"
| "argument_code (Invalid_cookie_value a) = Sdk_invalid_cookie_value"
| "argument_code (Cookie_carrier_collision a) = Sdk_cookie_carrier_collision"
| "argument_code (Invalid_file_argument a p) = Sdk_invalid_file_argument"
| "argument_code (argument_error.File_too_large a b c) = Sdk_file_too_large"

definition argument_answer :: "('s, 'c) tool_host \<Rightarrow> argument_error \<Rightarrow> 't meta_response" where
  "argument_answer host e = errorResult (argument_code e) (ho_argumentText host e)"

fun abort_text :: "abort_reason \<Rightarrow> string" where
  "abort_text Timeout = ''liaiso: the backend did not answer within the invoke deadline.''"
| "abort_text Caller = ''liaiso: the caller cancelled the request.''"
| "abort_text Pipeline = ''liaiso: the backend pipeline threw before it produced a response.''"

text \<open>The dispatcher composes the request again, from the same values.\<close>

definition nest_dispatch :: "('s, 'c) tool_host \<Rightarrow> request_template \<Rightarrow> js \<Rightarrow> (string \<times> js) list \<Rightarrow> nat \<Rightarrow> thrown outcome" where
  "nest_dispatch host t args deferred timeoutMs =
     (case compose t args deferred (Some (ho_maxInlineFileBytes host)) of
        Inl e \<Rightarrow> Threw (Thrown_argument e)
      | Inr composed \<Rightarrow> ho_backend host composed timeoutMs)"

fun backend_code_text :: "backend_error_code \<Rightarrow> string" where
  "backend_code_text Validation_failed = ''validation_failed''"
| "backend_code_text Bad_request = ''bad_request''"
| "backend_code_text Unauthenticated = ''unauthenticated''"
| "backend_code_text Forbidden = ''forbidden''"
| "backend_code_text Not_found = ''not_found''"
| "backend_code_text Conflict = ''conflict''"
| "backend_code_text Rate_limited = ''rate_limited''"
| "backend_code_text Backend_error = ''backend_error''"
| "backend_code_text Backend_unavailable = ''backend_unavailable''"

definition optional_member :: "string \<Rightarrow> js option \<Rightarrow> (string \<times> js) list" where
  "optional_member k v = (case v of None \<Rightarrow> [] | Some x \<Rightarrow> [(k, x)])"

fun outcome_json :: "invoke_result \<Rightarrow> js" where
  "outcome_json (Succeeded s) = JObj ([(''status'', js_nat (is_status s))]
     @ (if is_body s = JUndef then [] else [(''body'', is_body s)])
     @ optional_member ''contentType'' (map_option JStr (is_contentType s))
     @ optional_member ''location'' (map_option JStr (is_location s)))"
| "outcome_json (Failed e) = JObj ([(''error'', JStr (backend_code_text (me_error e))), (''message'', JStr (me_message e)),
       (''status'', js_nat (me_status e)), (''retryable'', JBool (me_retryable e))]
     @ optional_member ''fields'' (map_option (\<lambda>fs. JArr (map field_json fs)) (me_fields e))
     @ optional_member ''retryAfterSeconds'' (map_option js_nat (me_retryAfterSeconds e))
     @ optional_member ''reference'' (map_option JStr (me_reference e)))"

definition isInvokeError :: "invoke_result \<Rightarrow> bool" where
  "isInvokeError r = (case r of Failed e \<Rightarrow> True | Succeeded s \<Rightarrow> False)"

definition result_map :: "('s, 'c) tool_host \<Rightarrow> dispatch_result \<Rightarrow> 's catalog_entry \<Rightarrow> invoke_result" where
  "result_map host result entry =
     (let vocabulary = vocabularyOf (Some (ce_template entry))
      in mapInvokeResult (ho_parse host)
           \<lparr>br_status = dr_status result, br_contentType = dr_contentType result, br_headers = dr_headers result,
            br_body = Some (dr_body result)\<rparr>
           \<lparr>eo_recognizers = ho_recognizers host, eo_knownFields = Some (knownFields (ce_tool entry)),
            eo_fieldAliases = fst vocabulary, eo_hiddenFields = snd vocabulary\<rparr>)"

definition target_of :: "'s catalog_entry \<Rightarrow> invoke_target" where
  "target_of entry = \<lparr>it_tool = td_name (ce_tool entry), it_method = ep_method (dc_endpoint (ce_descriptor entry)),
     it_route = ep_route (dc_endpoint (ce_descriptor entry))\<rparr>"

definition outcome_answer :: "'s catalog_entry \<Rightarrow> invoke_result \<Rightarrow> invoke_target meta_response" where
  "outcome_answer entry out =
     \<lparr>mr_payload = outcome_json out, mr_isError = isInvokeError out,
      mr_summaryOf = Some (case out of Failed e \<Rightarrow> outcome_json out | Succeeded s \<Rightarrow> is_body s),
      mr_narrowing = Some (narrowingArguments (td_inputSchema (ce_tool entry))), mr_target = Some (target_of entry)\<rparr>"

definition deferred_values :: "('s, 'c) tool_host \<Rightarrow> request_template \<Rightarrow> (string \<times> js) list" where
  "deferred_values host t = (case resolveDeferred (Some t) (ho_providers host) (ho_caller host) of
     None \<Rightarrow> [] | Some ds \<Rightarrow> ds)"

definition invoke_entry :: "('s, 'c) tool_host \<Rightarrow> 's catalog_entry \<Rightarrow> js \<Rightarrow> handled" where
  "invoke_entry host entry args =
     (let t = ce_template entry; deferred = deferred_values host t; timeoutMs = timeoutFor host (target_of entry)
      in case compose t args deferred (Some (ho_maxInlineFileBytes host)) of
           Inl e \<Rightarrow> Inr (argument_answer host e)
         | Inr _ \<Rightarrow> (case nest_dispatch host t args deferred timeoutMs of
              Responded result \<Rightarrow> Inr (outcome_answer entry (result_map host result entry))
            | Dispatch_aborted Timeout \<Rightarrow> Inr (text_result (sdk_error_json (refuseTimedOutInvoke timeoutMs)) True)
            | Dispatch_aborted reason \<Rightarrow> Inl (abort_text reason)
            | Threw (Thrown_argument e) \<Rightarrow> Inr (argument_answer host e)
            | Threw (Thrown_ref field reason limit) \<Rightarrow>
                Inr (text_result (sdk_error_json (refuseUnresolvedFile field reason limit)) True)
            | Threw (Thrown_other message) \<Rightarrow> Inl message))"

definition invoke_tool :: "('s, 'c) tool_host \<Rightarrow> js \<Rightarrow> js \<Rightarrow> handled" where
  "invoke_tool host name args = (case name of
     JUndef \<Rightarrow> Inr (missingArgument ''invoke_tool'' ''name'')
   | JStr n \<Rightarrow> res_bind (ensureValid host) (\<lambda>_. case host_find host n of
         None \<Rightarrow> Inr (unknownTool n)
       | Some entry \<Rightarrow> invoke_entry host entry (fst (normalizeInvokeArguments (ho_parse host) args)))
   | v \<Rightarrow> Inr (wrongArgumentType ''invoke_tool'' ''name'' v))"

definition answer_text :: "('s, 'c) tool_host \<Rightarrow> handled \<Rightarrow> string \<times> bool" where
  "answer_text host produced = emitGuarded (budgetFor host) produced"

end
