(* ===== verification/Nest_Properties.thy ===== *)
theory Nest_Properties
  imports Nest_Tools Error_Properties
begin

text \<open>
  What an agent can learn and cause through the published tools: an operation the caller may not see is
  answered like one that does not exist, the backend receives composed requests only, and a failed
  invocation does not name an argument the host hid.
\<close>

section \<open>Denied operations\<close>

lemma byName_lookup:
  "distinct (map entry_name es) \<Longrightarrow>
     map_of (fold (\<lambda>e. AList.update (entry_name e) e) es []) m = Some e \<longleftrightarrow> e \<in> set es \<and> entry_name e = m"
proof (induction es rule: rev_induct)
  case (snoc x es)
  have "entry_name e \<noteq> entry_name x" if "e \<in> set es" for e
    using snoc.prems imageI [OF that, of entry_name] by auto
  with snoc show ?case by (auto simp: map_of_update)
qed simp

definition without :: "string \<Rightarrow> ('s, 'c) tool_host \<Rightarrow> ('s, 'c) tool_host" where
  "without n host = host\<lparr>ho_catalog := (ho_catalog host)\<lparr>cb_byName := AList.delete n (cb_byName (ho_catalog host))\<rparr>\<rparr>"

lemma without_simps:
  "ho_mark (without n host) = ho_mark host" "budgetFor (without n host) = budgetFor host"
  "ensureValid (without n host) = ensureValid host" "host_find (without n host) n = None"
  by (auto simp: without_def budgetFor_def ensureValid_def host_find_def fun_eq_iff delete_conv' split: option.split sum.split)

lemma hidden_loads_as_unknown:
  assumes "host_find host n = Some entry" and "\<not> host_visible host (load_decision host entry)"
  shows "load_tool host (JStr n) = load_tool (without n host) (JStr n)"
  using assms by (simp add: load_tool_def without_simps Let_def)

lemma denied_decision:
  "decider host entry = Deny \<Longrightarrow> \<not> host_visible host (load_decision host entry)"
  by (simp add: load_decision_def host_visible_def)

lemma denied_load:
  assumes "host_find host n = Some entry" and "decider host entry = Deny"
  shows "load_tool host (JStr n) = res_map (\<lambda>_. unknownTool n) (ensureValid host)"
  using assms denied_decision [OF assms(2)] by (simp add: load_tool_def Let_def)

lemma denied_not_found:
  assumes "decider host entry = Deny"
  shows "(entry, v) \<notin> set (search_results (host_search host query limit detail tags))"
proof
  let ?rq = "host_search host query limit detail tags"
  assume "(entry, v) \<in> set (search_results ?rq)"
  from result_decision [OF this] have "host_visible host v" "decision_of ?rq entry v"
    by (auto simp: host_search_def)
  with assms show False by (auto simp: decision_of_def probed_def host_search_def host_visible_def)
qed

text \<open>
  C35: A tool that the caller's authorization denies does not exist for that caller. \<open>load_tool\<close> gives
  the text it gives when the catalog has no such tool, no search lists its name, it is not counted among
  the visible entries, and none of this depends on what a probe of it would answer.
\<close>

theorem denied_tool_unseen:
  assumes "buildCatalog candidates options = Inr (ho_catalog host)" and "host_find host n = Some entry"
    and "evaluateVisibility (dc_auth (ce_descriptor entry)) (ho_facts host) = Deny"
  shows "answer_text host (load_tool host (JStr n)) = answer_text (without n host) (load_tool (without n host) (JStr n))
    \<and> n \<notin> (\<lambda>r. td_name (ce_tool (fst r))) ` set (search_results (host_search host query limit detail tags))
    \<and> n \<notin> (\<lambda>e. td_name (ce_tool e)) ` set (visible_entries (host_search host query limit detail tags))
    \<and> load_tool (host\<lparr>ho_probe := p\<rparr>) (JStr n) = load_tool host (JStr n)"
proof (intro conjI)
  let ?rq = "host_search host query limit detail tags"
  have d: "decider host entry = Deny" using assms(3) by (simp add: decider_def)
  note b = built_catalog [OF assms(1)]
  have rq: "sr_catalog ?rq = ho_catalog host" by (simp add: host_search_def)
  have at: "map_of (cb_byName (ho_catalog host)) m = Some e \<longleftrightarrow> e \<in> set (cb_entries (ho_catalog host)) \<and> entry_name e = m" for m e
    by (simp add: b(2) byName_lookup [OF b(1)])
  have entry: "entry \<in> set (cb_entries (ho_catalog host))" "entry_name entry = n"
    using assms(2) at by (simp_all add: host_find_def)
  have only: "e = entry" if "e \<in> set (cb_entries (ho_catalog host))" "entry_name e = n" for e
    using assms(2) at [of n e] that by (simp add: host_find_def)
  show "answer_text host (load_tool host (JStr n)) = answer_text (without n host) (load_tool (without n host) (JStr n))"
    using hidden_loads_as_unknown [OF assms(2) denied_decision [OF d]] by (simp add: answer_text_def without_simps)
  show "n \<notin> (\<lambda>r. td_name (ce_tool (fst r))) ` set (search_results ?rq)"
  proof
    assume "n \<in> (\<lambda>r. td_name (ce_tool (fst r))) ` set (search_results ?rq)"
    then obtain e v where r: "(e, v) \<in> set (search_results ?rq)" "entry_name e = n" by (auto simp: entry_name_def)
    from result_decision [OF r(1)] have "e \<in> set (cb_entries (ho_catalog host))"
      using at by (auto simp: entry_of_def rq)
    from only [OF this r(2)] r(1) denied_not_found [OF d] show False by blast
  qed
  show "n \<notin> (\<lambda>e. td_name (ce_tool e)) ` set (visible_entries ?rq)"
  proof
    assume "n \<in> (\<lambda>e. td_name (ce_tool e)) ` set (visible_entries ?rq)"
    then obtain e where "e \<in> set (visible_entries ?rq)" "entry_name e = n" by (auto simp: entry_name_def)
    moreover have "visible_entries ?rq = filter (\<lambda>e. host_visible host (decider host e)) (cb_entries (ho_catalog host))"
      unfolding visible_entries_def rq b(2) byName_entries [OF b(1)] by (simp add: host_search_def)
    ultimately have e: "e \<in> set (cb_entries (ho_catalog host))" "entry_name e = n"
        "host_visible host (decider host e)" by auto
    from only [OF e(1,2)] e(3) d show False by (simp add: host_visible_def)
  qed
  show "load_tool (host\<lparr>ho_probe := p\<rparr>) (JStr n) = load_tool host (JStr n)"
    using denied_load [OF assms(2) d] denied_load [of "host\<lparr>ho_probe := p\<rparr>" n entry] assms(2) d
    by (simp add: host_find_def decider_def ensureValid_def split: sum.split)
qed

section \<open>Before the backend\<close>

text \<open>
  C25: The backend only ever receives a request that composition accepted. What a call of
  \<open>invoke_tool\<close> answers depends on the backend at most through its answer to the one request composed
  from the tool's template, the normalised arguments and the deferred values of this caller, under the
  deadline of this tool; when composition refuses, when the tool is unknown, when the name is not a
  text or when the catalog has a fatal diagnostic, the answer is the same for every backend.
\<close>

theorem backend_gets_validated_requests:
  assumes "\<And>entry rq. ensureValid host = Inr () \<Longrightarrow> host_find host n = Some entry
    \<Longrightarrow> compose (ce_template entry) (fst (normalizeInvokeArguments (ho_parse host) args))
          (deferred_values host (ce_template entry)) (Some (ho_maxInlineFileBytes host)) = Inr rq
    \<Longrightarrow> b rq (timeoutFor host (target_of entry)) = ho_backend host rq (timeoutFor host (target_of entry))"
  shows "invoke_tool (host\<lparr>ho_backend := b\<rparr>) (JStr n) args = invoke_tool host (JStr n) args
    \<and> ((\<forall>s. v \<noteq> JStr s) \<longrightarrow> invoke_tool (host\<lparr>ho_backend := b\<rparr>) v args = invoke_tool host v args)"
proof
  let ?host = "host\<lparr>ho_backend := b\<rparr>"
  have same: "ensureValid ?host = ensureValid host" "host_find ?host n = host_find host n"
    "deferred_values ?host t = deferred_values host t" "timeoutFor ?host target = timeoutFor host target"
    "argument_answer ?host e = (argument_answer host e :: invoke_target meta_response)"
    "result_map ?host result entry = result_map host result entry" for t target e result entry
    by (auto simp: ensureValid_def host_find_def deferred_values_def timeoutFor_def argument_answer_def result_map_def Let_def
        split: sum.split option.split)
  show "invoke_tool ?host (JStr n) args = invoke_tool host (JStr n) args"
  proof (cases "ensureValid host")
    case (Inr u)
    show ?thesis
    proof (cases "host_find host n")
      case (Some entry)
      have "invoke_entry ?host entry (fst (normalizeInvokeArguments (ho_parse host) args))
          = invoke_entry host entry (fst (normalizeInvokeArguments (ho_parse host) args))"
      proof (cases "compose (ce_template entry) (fst (normalizeInvokeArguments (ho_parse host) args))
          (deferred_values host (ce_template entry)) (Some (ho_maxInlineFileBytes host))")
        case (Inr rq)
        with assms [OF _ Some Inr] \<open>ensureValid host = Inr u\<close>
        show ?thesis by (auto simp: invoke_entry_def nest_dispatch_def same Let_def
            split: outcome.split thrown.split abort_reason.split)
      qed (simp add: invoke_entry_def same Let_def)
      with Inr Some show ?thesis by (simp add: invoke_tool_def same)
    qed (simp add: invoke_tool_def same Inr)
  qed (simp add: invoke_tool_def same)
  show "(\<forall>s. v \<noteq> JStr s) \<longrightarrow> invoke_tool ?host v args = invoke_tool host v args"
    by (simp add: invoke_tool_def split: js.split)
qed

section \<open>After the backend\<close>

lemma obj_put_values: "set (map snd (obj_put k v m)) \<subseteq> insert v (set (map snd m))"
  by (auto dest: obj_put_set)

lemma alias_fold_values:
  "snd ` set (fold (\<lambda>(a, w). obj_put w a) xs m) \<subseteq> fst ` set xs \<union> snd ` set m"
proof (induction xs arbitrary: m)
  case (Cons x xs)
  show ?case using Cons.IH [of "obj_put (snd x) (fst x) m"] obj_put_values [of "snd x" "fst x" m]
    by (auto simp: case_prod_beta)
qed simp

lemma parameter_fold_values:
  "snd ` set (fold (\<lambda>p m. case p_argument p of Some a \<Rightarrow> if p_fill p = None then obj_put (p_name p) a m else m | None \<Rightarrow> m) ps m)
     \<subseteq> {a. \<exists>p \<in> set ps. p_fill p = None \<and> p_argument p = Some a} \<union> snd ` set m"
proof (induction ps arbitrary: m)
  case (Cons p ps)
  let ?m = "case p_argument p of Some a \<Rightarrow> if p_fill p = None then obj_put (p_name p) a m else m | None \<Rightarrow> m"
  have "snd ` set ?m \<subseteq> {a. p_fill p = None \<and> p_argument p = Some a} \<union> snd ` set m"
    using obj_put_values [of "p_name p" _ m] by (auto split: option.split)
  with Cons.IH [of ?m] show ?case by auto
qed simp

lemma vocabulary_aliases:
  "snd ` set (fst (vocabularyOf (Some t))) \<subseteq> fst ` set (t_aliases t)
     \<union> {a. \<exists>p \<in> set (t_parameters t). p_fill p = None \<and> p_argument p = Some a}"
  using alias_fold_values [of "t_aliases t"] parameter_fold_values [of "t_parameters t" "[]"]
  by (simp add: vocabularyOf_def) blast


section \<open>A concrete host\<close>

definition sample_host :: "unit catalog_build \<Rightarrow> caller_facts \<Rightarrow> (string \<Rightarrow> js option) \<Rightarrow> (unit, unit) tool_host" where
  "sample_host b facts parse = \<lparr>ho_catalog = b, ho_facts = facts, ho_showUnknown = True, ho_tier = Declarative, ho_probeTopK = 0,
     ho_canProbe = (\<lambda>e. False), ho_probe = (\<lambda>e. Unknown), ho_providers = (\<lambda>s. None), ho_caller = (),
     ho_maxInlineFileBytes = 10, ho_timeoutMs = 9, ho_timeoutMsFor = (\<lambda>t. None), ho_maxResponseBytes = 100,
     ho_maxResponseBytesFor = (\<lambda>t. None), ho_recognizers = [], ho_backend = (\<lambda>rq ms. Dispatch_aborted Timeout),
     ho_parse = parse, ho_mark = ''...'', ho_argumentText = (\<lambda>e. []), ho_fatalText = (\<lambda>ds. [])\<rparr>"

definition guarded_candidate :: "unit candidate" where
  "guarded_candidate = (let e = sample_endpoint ''listOrders'' ''/orders'' None None
     in (sample_candidate e [])\<lparr>cd_declare := (\<lambda>tags. Inr \<lparr>dc_endpoint = e, dc_tags = tags,
          dc_auth = \<lparr>au_anonymous = Anon_no, au_policies = [''admin''], au_imperative = False\<rparr>\<rparr>)\<rparr>)"

definition plain_caller :: caller_facts where
  "plain_caller = \<lparr>cf_identity = Present, cf_policyResults = [(''admin'', Deny)]\<rparr>"

lemma denied_tool_unseen_witness:
  "\<exists>b. buildCatalog [guarded_candidate] sample_options = Inr b
     \<and> answer_text (sample_host b plain_caller (\<lambda>s. None)) (load_tool (sample_host b plain_caller (\<lambda>s. None)) (JStr ''list_orders''))
       = answer_text (without ''list_orders'' (sample_host b plain_caller (\<lambda>s. None)))
           (load_tool (without ''list_orders'' (sample_host b plain_caller (\<lambda>s. None))) (JStr ''list_orders''))"
proof -
  have "case buildCatalog [guarded_candidate] sample_options of Inl e \<Rightarrow> False
      | Inr b \<Rightarrow> (case map_of (cb_byName b) ''list_orders'' of None \<Rightarrow> False
          | Some e \<Rightarrow> evaluateVisibility (dc_auth (ce_descriptor e)) plain_caller = Deny)" by code_simp
  then obtain b e where b: "buildCatalog [guarded_candidate] sample_options = Inr b"
    and e: "map_of (cb_byName b) ''list_orders'' = Some e" "evaluateVisibility (dc_auth (ce_descriptor e)) plain_caller = Deny"
    by (auto split: sum.splits option.splits)
  let ?h = "sample_host b plain_caller (\<lambda>s. None)"
  have "buildCatalog [guarded_candidate] sample_options = Inr (ho_catalog ?h)" "host_find ?h ''list_orders'' = Some e"
    "evaluateVisibility (dc_auth (ce_descriptor e)) (ho_facts ?h) = Deny"
    using b e by (simp_all add: sample_host_def host_find_def)
  from denied_tool_unseen [OF this] b show ?thesis by blast
qed

lemma backend_gets_validated_requests_witness:
  "\<exists>b. buildCatalog sample_catalog sample_options = Inr b
     \<and> (\<forall>backend. invoke_tool ((sample_host b plain_caller (\<lambda>s. None))\<lparr>ho_backend := backend\<rparr>) (JStr ''list_orders'') (JObj [(''x'', JNull)])
       = invoke_tool (sample_host b plain_caller (\<lambda>s. None)) (JStr ''list_orders'') (JObj [(''x'', JNull)]))"
proof -
  have "case buildCatalog sample_catalog sample_options of Inl e \<Rightarrow> False
      | Inr b \<Rightarrow> (case map_of (cb_byName b) ''list_orders'' of None \<Rightarrow> False
          | Some e \<Rightarrow> resolveDeferred (Some (ce_template e)) (\<lambda>s. None :: (unit \<Rightarrow> js) option) () = None
             \<and> isl (compose (ce_template e) (JObj [(''x'', JNull)]) [] (Some 10)))"
    by code_simp
  then obtain b e err where b: "buildCatalog sample_catalog sample_options = Inr b"
    and e: "map_of (cb_byName b) ''list_orders'' = Some e" "resolveDeferred (Some (ce_template e)) (\<lambda>s. None :: (unit \<Rightarrow> js) option) () = None"
    and c: "compose (ce_template e) (JObj [(''x'', JNull)]) [] (Some 10) = Inl err"
    by (auto split: sum.splits option.splits simp: isl_def)
  let ?h = "sample_host b plain_caller (\<lambda>s. None)"
  have "host_find ?h ''list_orders'' = Some x \<Longrightarrow> compose (ce_template x)
      (fst (normalizeInvokeArguments (ho_parse ?h) (JObj [(''x'', JNull)]))) (deferred_values ?h (ce_template x))
      (Some (ho_maxInlineFileBytes ?h)) \<noteq> Inr rq" for x rq
    using e c by (simp add: sample_host_def host_find_def normalizeInvokeArguments_def deferred_values_def)
  with backend_gets_validated_requests [of ?h "''list_orders''" "JObj [(''x'', JNull)]"] b show ?thesis by blast
qed

definition bad_request :: dispatch_result where
  "bad_request = \<lparr>dr_status = 400, dr_body = ''{}'', dr_contentType = None, dr_headers = []\<rparr>"


end
