(* ===== verification/Approval_Decision.thy ===== *)
theory Approval_Decision
  imports Prelude JS_String
begin

text \<open>
  Consent and authorization in the chat product, as \<open>products/chat/contracts\<close> states them:
  \<open>tools/approval-decision.ts\<close> (does a call need the reader's consent), \<open>tools/approval-policy.ts\<close>,
  \<open>tools/tool-name.ts\<close>, \<open>integration/grant-scope.ts\<close>, \<open>tool-annotations.ts\<close>, \<open>scope-map.ts\<close> and
  \<open>authorize-invocation.ts\<close> (may this reader's connection invoke a remote tool).

  A moment is a number of milliseconds. A reader's own mode is one of two, an integration's one of
  three; the absence of a setting (\<open>inherit\<close>) is \<open>None\<close>.
\<close>

section \<open>Policies and modes\<close>

datatype approval_policy = Policy_auto | Policy_askable | Policy_always

datatype reader_mode = Reader_always_ask | Reader_remember

datatype integration_mode = Mode_always_ask | Mode_remember | Mode_auto

datatype override_mode = Override_always_ask | Override_auto

datatype posture = Posture_ask | Posture_grants | Posture_allow

fun mode_of_reader :: "reader_mode \<Rightarrow> integration_mode" where
  "mode_of_reader Reader_always_ask = Mode_always_ask"
| "mode_of_reader Reader_remember = Mode_remember"

fun mode_posture :: "integration_mode \<Rightarrow> posture" where
  "mode_posture Mode_always_ask = Posture_ask"
| "mode_posture Mode_remember = Posture_grants"
| "mode_posture Mode_auto = Posture_allow"

definition excel_tool_names :: "string list" where
  "excel_tool_names = [''describe_workbook'', ''read_sheet'', ''aggregate_sheet'', ''find_in_sheet'', ''list_workbooks'',
     ''get_tables'', ''get_data_validations'', ''get_merged_ranges'', ''get_conditional_formats'', ''get_images'']"

definition xml_tool_names :: "string list" where
  "xml_tool_names = [''describe_document'', ''read_node'', ''select_xpath'', ''project_records'', ''find_in_document'',
     ''aggregate_document'', ''list_documents'']"

definition pdf_tool_names :: "string list" where
  "pdf_tool_names = [''describe_pdf'', ''read_pdf_pages'', ''find_in_pdf'', ''list_pdfs'']"

definition chat_tool_names :: "string list" where
  "chat_tool_names = excel_tool_names @ xml_tool_names @ pdf_tool_names @ [''find_tools''] @ [''codex_task'']"

definition isChatToolName :: "string \<Rightarrow> bool" where
  "isChatToolName name = (name \<in> set chat_tool_names)"

definition chat_tool_policies :: "(string \<times> approval_policy) list" where
  "chat_tool_policies = [(''describe_workbook'', Policy_auto), (''describe_document'', Policy_auto), (''find_tools'', Policy_auto),
     (''read_sheet'', Policy_askable), (''aggregate_sheet'', Policy_askable), (''find_in_sheet'', Policy_askable),
     (''read_node'', Policy_askable), (''select_xpath'', Policy_askable), (''project_records'', Policy_askable),
     (''describe_pdf'', Policy_auto), (''read_pdf_pages'', Policy_askable), (''find_in_pdf'', Policy_askable),
     (''list_workbooks'', Policy_auto), (''list_documents'', Policy_auto), (''list_pdfs'', Policy_auto),
     (''get_merged_ranges'', Policy_auto), (''get_images'', Policy_auto), (''get_tables'', Policy_askable),
     (''get_data_validations'', Policy_askable), (''get_conditional_formats'', Policy_askable),
     (''find_in_document'', Policy_askable), (''aggregate_document'', Policy_askable), (''codex_task'', Policy_always)]"

text \<open>The record is total over the names, so the default is never read.\<close>

definition policyFor :: "string \<Rightarrow> approval_policy" where
  "policyFor name = (case map_of chat_tool_policies name of Some p \<Rightarrow> p | None \<Rightarrow> Policy_always)"

section \<open>Does a call need consent\<close>

record tool_grant =
  tg_digest :: string
  tg_expiresAt :: "int option"

record tool_override =
  ov_mode :: override_mode
  ov_digest :: "string option"

record approval_request =
  aq_policy :: approval_policy
  aq_mode :: integration_mode
  aq_override :: "tool_override option"
  aq_destructive :: bool
  aq_currentDigest :: string
  aq_grants :: "tool_grant list"
  aq_now :: int

datatype approval_outcome = Ask | Approve

datatype approval_reason = By_policy_auto | By_policy_always | By_override_always_ask | By_override_auto
  | By_declared_destructive | By_mode_always_ask | By_mode_auto | By_not_remembered | By_grant_expired
  | By_definition_changed | By_remembered

definition grant_live :: "int \<Rightarrow> tool_grant \<Rightarrow> bool" where
  "grant_live now g = (case tg_expiresAt g of None \<Rightarrow> True | Some t \<Rightarrow> t > now)"

definition decideToolApproval :: "approval_request \<Rightarrow> approval_outcome \<times> approval_reason" where
  "decideToolApproval rq =
     (if aq_policy rq = Policy_auto then (Approve, By_policy_auto)
      else if aq_policy rq = Policy_always then (Ask, By_policy_always)
      else (case aq_override rq of
          Some ov \<Rightarrow> (case ov_mode ov of
              Override_always_ask \<Rightarrow> (Ask, By_override_always_ask)
            | Override_auto \<Rightarrow> if ov_digest ov = Some (aq_currentDigest rq) then (Approve, By_override_auto)
                else (Ask, By_definition_changed))
        | None \<Rightarrow>
            if aq_destructive rq then (Ask, By_declared_destructive)
            else (case mode_posture (aq_mode rq) of
                Posture_ask \<Rightarrow> (Ask, By_mode_always_ask)
              | Posture_allow \<Rightarrow> (Approve, By_mode_auto)
              | Posture_grants \<Rightarrow>
                 (let live = filter (grant_live (aq_now rq)) (aq_grants rq)
                  in if aq_grants rq = [] then (Ask, By_not_remembered)
                     else if live = [] then (Ask, By_grant_expired)
                     else if \<not> list_ex (\<lambda>g. tg_digest g = aq_currentDigest rq) live then (Ask, By_definition_changed)
                     else (Approve, By_remembered)))))"

definition grantCanApply :: "approval_request \<Rightarrow> bool" where
  "grantCanApply rq = (aq_policy rq = Policy_askable \<and> aq_override rq = None \<and> \<not> aq_destructive rq
     \<and> mode_posture (aq_mode rq) = Posture_grants)"

record posture_request =
  pr_override :: "override_mode option"
  pr_overrideStale :: bool
  pr_destructive :: bool
  pr_integrationMode :: "integration_mode option"
  pr_readerMode :: reader_mode

datatype posture_source = From_override | From_definition_changed | From_declared_destructive | From_integration | From_reader

definition toolPosture :: "posture_request \<Rightarrow> posture \<times> posture_source" where
  "toolPosture rq = (case pr_override rq of
     Some Override_always_ask \<Rightarrow> (Posture_ask, From_override)
   | Some Override_auto \<Rightarrow> if pr_overrideStale rq then (Posture_ask, From_definition_changed) else (Posture_allow, From_override)
   | None \<Rightarrow> if pr_destructive rq then (Posture_ask, From_declared_destructive)
       else (case pr_integrationMode rq of
           None \<Rightarrow> (mode_posture (mode_of_reader (pr_readerMode rq)), From_reader)
         | Some m \<Rightarrow> (mode_posture m, From_integration)))"

text \<open>\<open>destructiveHint\<close> as the server published it, or \<open>None\<close>.\<close>

definition isDeclaredDestructive :: "bool option \<Rightarrow> bool" where
  "isDeclaredDestructive hint = (hint = Some True)"

datatype grant_scope = Scope_session | Scope_global

datatype grant_ttl = Ttl_day | Ttl_week | Ttl_never

definition day_ms :: int where "day_ms = 24 * 60 * 60 * 1000"

fun ttl_ms :: "grant_ttl \<Rightarrow> int option" where
  "ttl_ms Ttl_day = Some day_ms"
| "ttl_ms Ttl_week = Some (7 * day_ms)"
| "ttl_ms Ttl_never = None"

definition grantExpiryFor :: "grant_ttl \<Rightarrow> int \<Rightarrow> int option" where
  "grantExpiryFor ttl now = map_option (\<lambda>span. now + span) (ttl_ms ttl)"

section \<open>May a connection invoke a remote tool\<close>

type_synonym scope_map = "(string \<times> string list) list"

datatype scope_requirement = Required_scope string | Unmapped | Ambiguous "string list"

definition scopeRequirementFor :: "scope_map \<Rightarrow> string \<Rightarrow> scope_requirement" where
  "scopeRequirementFor scopeMap toolName =
     (case map fst (filter (\<lambda>(scope, tools). toolName \<in> set tools) scopeMap) of
        [] \<Rightarrow> Unmapped
      | [only] \<Rightarrow> Required_scope only
      | scopes \<Rightarrow> Ambiguous scopes)"

definition conflict_step :: "string \<Rightarrow> string list \<times> string list \<Rightarrow> string list \<times> string list" where
  "conflict_step tool st = (case st of (seen, conflicts) \<Rightarrow>
     (set_add tool seen, if tool \<in> set seen then set_add tool conflicts else conflicts))"

definition scopeMapConflicts :: "scope_map \<Rightarrow> string list" where
  "scopeMapConflicts scopeMap =
     snd (fold (\<lambda>(scope, tools). fold conflict_step (js_set tools)) scopeMap ([], []))"

datatype origin = Partner | User_added

datatype connection_status = Active | Revoked | Reauth_required

record invocation_integration =
  ii_id :: string
  ii_origin :: origin
  ii_scopeMap :: scope_map

record invocation_connection =
  ic_id :: string
  ic_ownerId :: string
  ic_integrationId :: string
  ic_status :: connection_status
  ic_grantedScopes :: "string list"

record invocation_request =
  iq_sessionUserId :: string
  iq_toolName :: string
  iq_integration :: invocation_integration
  iq_connection :: "invocation_connection option"

datatype denial_reason = Connection_required | Connection_revoked | Insufficient_connection_scope | Reauthorization

datatype denial_detail = Connection_missing | Owner_mismatch | Integration_mismatch | Status_not_active
  | Tool_unmapped | Tool_ambiguous | Scope_not_granted

datatype invocation_decision =
    Allow_scope string string string
  | Allow_connection string string
  | Denied denial_reason denial_detail

fun reason_of_status :: "connection_status \<Rightarrow> denial_reason" where
  "reason_of_status Revoked = Connection_revoked"
| "reason_of_status Reauth_required = Reauthorization"
| "reason_of_status Active = Connection_required"

definition authorizeInvocation :: "invocation_request \<Rightarrow> invocation_decision" where
  "authorizeInvocation rq =
     (let i = iq_integration rq
      in case iq_connection rq of
           None \<Rightarrow> Denied Connection_required Connection_missing
         | Some c \<Rightarrow>
             if ic_ownerId c \<noteq> iq_sessionUserId rq then Denied Connection_required Owner_mismatch
             else if ic_integrationId c \<noteq> ii_id i then Denied Connection_required Integration_mismatch
             else if ic_status c \<noteq> Active then Denied (reason_of_status (ic_status c)) Status_not_active
             else if ii_origin i = User_added then Allow_connection (ic_id c) (ic_integrationId c)
             else (case scopeRequirementFor (ii_scopeMap i) (iq_toolName rq) of
                 Unmapped \<Rightarrow> Denied Insufficient_connection_scope Tool_unmapped
               | Ambiguous scopes \<Rightarrow> Denied Insufficient_connection_scope Tool_ambiguous
               | Required_scope scope \<Rightarrow>
                   if scope \<notin> set (ic_grantedScopes c) then Denied Insufficient_connection_scope Scope_not_granted
                   else Allow_scope (ic_id c) (ic_integrationId c) scope))"

text \<open>\<open>connection-rows.ts\<close>: the request's data from the stored rows.\<close>

definition toScopeMap :: "(string \<times> string) list \<Rightarrow> scope_map" where
  "toScopeMap rows = fold (\<lambda>(toolName, scope) m. case map_of m scope of
     None \<Rightarrow> AList.update scope [toolName] m
   | Some tools \<Rightarrow> AList.update scope (tools @ [toolName]) m) rows []"

end
