(* ===== verification/Approval_Properties.thy ===== *)
theory Approval_Properties
  imports Approval_Decision
begin

text \<open>
  When consent is needed, that the settings page tells the reader what the gate will do, and when a
  connection may invoke a remote tool.
\<close>

section \<open>Consent\<close>

definition fresh_grant :: "approval_request \<Rightarrow> bool" where
  "fresh_grant rq = (\<exists>g \<in> set (aq_grants rq). grant_live (aq_now rq) g \<and> tg_digest g = aq_currentDigest rq)"

lemma approve_iff:
  "fst (decideToolApproval rq) = Approve \<longleftrightarrow> aq_policy rq = Policy_auto \<or> aq_policy rq = Policy_askable
     \<and> (case aq_override rq of
          Some ov \<Rightarrow> ov_mode ov = Override_auto \<and> ov_digest ov = Some (aq_currentDigest rq)
        | None \<Rightarrow> \<not> aq_destructive rq \<and> (aq_mode rq = Mode_auto \<or> aq_mode rq = Mode_remember \<and> fresh_grant rq))"
proof -
  have "\<not> fresh_grant rq" if "filter (grant_live (aq_now rq)) (aq_grants rq) = []"
    using that by (auto simp: fresh_grant_def filter_empty_conv)
  moreover have "list_ex (\<lambda>g. tg_digest g = aq_currentDigest rq) (filter (grant_live (aq_now rq)) (aq_grants rq)) \<longleftrightarrow> fresh_grant rq"
    by (auto simp: fresh_grant_def list_ex_iff)
  ultimately show ?thesis
    by (cases "aq_policy rq"; cases "aq_mode rq")
      (auto simp: decideToolApproval_def Let_def split: option.split override_mode.split)
qed

lemma reason_exact:
  "snd (decideToolApproval rq) = By_remembered \<longleftrightarrow> grantCanApply rq \<and> fresh_grant rq"
proof -
  have "list_ex (\<lambda>g. tg_digest g = aq_currentDigest rq) (filter (grant_live (aq_now rq)) (aq_grants rq)) \<longleftrightarrow> fresh_grant rq"
    by (auto simp: fresh_grant_def list_ex_iff)
  moreover have "fresh_grant rq \<Longrightarrow> filter (grant_live (aq_now rq)) (aq_grants rq) \<noteq> [] \<and> aq_grants rq \<noteq> []"
    by (auto simp: fresh_grant_def filter_empty_conv)
  ultimately show ?thesis
    by (cases "aq_policy rq"; cases "aq_mode rq")
      (auto simp: decideToolApproval_def grantCanApply_def Let_def split: option.split override_mode.split)
qed

text \<open>What the page is given about a discovered tool whose call the gate decides.\<close>

definition page_request :: "approval_request \<Rightarrow> integration_mode option \<Rightarrow> reader_mode \<Rightarrow> posture_request" where
  "page_request rq im rm = \<lparr>pr_override = map_option ov_mode (aq_override rq),
     pr_overrideStale = (case aq_override rq of Some ov \<Rightarrow> ov_digest ov \<noteq> Some (aq_currentDigest rq) | None \<Rightarrow> False),
     pr_destructive = aq_destructive rq, pr_integrationMode = im, pr_readerMode = rm\<rparr>"

definition effective_mode :: "integration_mode option \<Rightarrow> reader_mode \<Rightarrow> integration_mode" where
  "effective_mode im rm = (case im of Some m \<Rightarrow> m | None \<Rightarrow> mode_of_reader rm)"

lemma posture_decides:
  assumes "aq_policy rq = Policy_askable" and "aq_mode rq = effective_mode im rm"
  shows "fst (toolPosture (page_request rq im rm)) = (case aq_override rq of
      Some ov \<Rightarrow> if ov_mode ov = Override_auto \<and> ov_digest ov = Some (aq_currentDigest rq) then Posture_allow else Posture_ask
    | None \<Rightarrow> if aq_destructive rq then Posture_ask else mode_posture (aq_mode rq))"
  using assms by (auto simp: toolPosture_def page_request_def effective_mode_def split: option.split override_mode.split)

lemma mode_posture_iff:
  "mode_posture m = Posture_ask \<longleftrightarrow> m = Mode_always_ask" "mode_posture m = Posture_grants \<longleftrightarrow> m = Mode_remember"
  "mode_posture m = Posture_allow \<longleftrightarrow> m = Mode_auto"
  by (cases m; simp)+

text \<open>
  The settings page and the gate agree about a discovered tool. The page shows it as running unasked
  exactly when the gate approves it whatever is remembered, as asking exactly when the gate asks whatever
  is remembered, and as depending on grants exactly when the prompt may offer to remember; then the gate
  approves exactly with a live grant for the current definition.
\<close>

theorem page_and_gate_agree:
  assumes "aq_policy rq = Policy_askable" and "aq_mode rq = effective_mode im rm"
  defines "page \<equiv> fst (toolPosture (page_request rq im rm))"
  shows "(page = Posture_allow \<longleftrightarrow> (\<forall>gs. fst (decideToolApproval (rq\<lparr>aq_grants := gs\<rparr>)) = Approve))
    \<and> (page = Posture_ask \<longleftrightarrow> (\<forall>gs. fst (decideToolApproval (rq\<lparr>aq_grants := gs\<rparr>)) = Ask))
    \<and> (page = Posture_grants \<longleftrightarrow> grantCanApply rq)
    \<and> (grantCanApply rq \<longrightarrow> (fst (decideToolApproval rq) = Approve
        \<longleftrightarrow> (\<exists>g \<in> set (aq_grants rq). tg_digest g = aq_currentDigest rq \<and> (\<forall>t. tg_expiresAt g = Some t \<longrightarrow> aq_now rq < t))))"
proof -
  let ?good = "[\<lparr>tg_digest = aq_currentDigest rq, tg_expiresAt = None\<rparr>]"
  have approve: "fst (decideToolApproval (rq\<lparr>aq_grants := gs\<rparr>)) = Approve \<longleftrightarrow>
      page = Posture_allow \<or> page = Posture_grants \<and> fresh_grant (rq\<lparr>aq_grants := gs\<rparr>)" for gs
    unfolding page_def posture_decides [OF assms(1,2)] approve_iff
    by (auto simp: assms(1) mode_posture_iff split: option.split)
  have some: "fresh_grant (rq\<lparr>aq_grants := ?good\<rparr>)" and none: "\<not> fresh_grant (rq\<lparr>aq_grants := []\<rparr>)"
    by (simp_all add: fresh_grant_def grant_live_def)
  have can: "page = Posture_grants \<longleftrightarrow> grantCanApply rq"
    unfolding page_def posture_decides [OF assms(1,2)] by (auto simp: grantCanApply_def assms(1) split: option.split)
  have ask: "x = Ask \<longleftrightarrow> x \<noteq> Approve" for x by (cases x) auto
  have "page = Posture_allow \<longleftrightarrow> (\<forall>gs. fst (decideToolApproval (rq\<lparr>aq_grants := gs\<rparr>)) = Approve)"
    unfolding approve using none by blast
  moreover have "page = Posture_ask \<longleftrightarrow> (\<forall>gs. fst (decideToolApproval (rq\<lparr>aq_grants := gs\<rparr>)) = Ask)"
    unfolding ask approve using some by (cases page) auto
  moreover have "grantCanApply rq \<longrightarrow> (fst (decideToolApproval rq) = Approve
        \<longleftrightarrow> (\<exists>g \<in> set (aq_grants rq). tg_digest g = aq_currentDigest rq \<and> (\<forall>t. tg_expiresAt g = Some t \<longrightarrow> aq_now rq < t)))"
    using approve [of "aq_grants rq"] can
    by (auto simp: fresh_grant_def grant_live_def split: option.splits)
  ultimately show ?thesis using can by blast
qed

definition sample_ask :: approval_request where
  "sample_ask = \<lparr>aq_policy = Policy_askable, aq_mode = Mode_remember, aq_override = None, aq_destructive = False,
     aq_currentDigest = ''d1'', aq_grants = [\<lparr>tg_digest = ''d0'', tg_expiresAt = None\<rparr>, \<lparr>tg_digest = ''d1'', tg_expiresAt = Some 5\<rparr>],
     aq_now = 4\<rparr>"

lemma page_and_gate_agree_witness:
  "fst (decideToolApproval sample_ask) = Approve \<and> fst (toolPosture (page_request sample_ask None Reader_remember)) = Posture_grants
   \<and> fst (decideToolApproval (sample_ask\<lparr>aq_now := 5\<rparr>)) = Ask"
proof -
  have h: "aq_policy sample_ask = Policy_askable" "aq_mode sample_ask = effective_mode None Reader_remember"
    "aq_policy (sample_ask\<lparr>aq_now := 5\<rparr>) = Policy_askable"
    "aq_mode (sample_ask\<lparr>aq_now := 5\<rparr>) = effective_mode None Reader_remember"
    by (simp_all add: sample_ask_def effective_mode_def)
  have c: "grantCanApply sample_ask" "grantCanApply (sample_ask\<lparr>aq_now := 5\<rparr>)"
    by (simp_all add: sample_ask_def grantCanApply_def)
  have "fst (decideToolApproval (sample_ask\<lparr>aq_now := 5\<rparr>)) \<noteq> Approve"
    using page_and_gate_agree [OF h(3,4)] c(2) by (auto simp: sample_ask_def)
  moreover have "x \<noteq> Approve \<Longrightarrow> x = Ask" for x by (cases x) auto
  ultimately show ?thesis using page_and_gate_agree [OF h(1,2)] c(1) by (auto simp: sample_ask_def)
qed

section \<open>Scopes\<close>

definition listing :: "scope_map \<Rightarrow> string \<Rightarrow> scope_map" where
  "listing m tool = filter (\<lambda>(scope, tools). tool \<in> set tools) m"

lemma conflict_fold:
  assumes "fold conflict_step ts (seen, conflicts) = (seen', conflicts')" and "distinct ts"
  shows "set seen' = set seen \<union> set ts" and "set conflicts' = set conflicts \<union> (set ts \<inter> set seen)"
proof -
  have "set seen' = set seen \<union> set ts \<and> set conflicts' = set conflicts \<union> (set ts \<inter> set seen)"
    using assms
  proof (induction ts arbitrary: seen conflicts)
    case (Cons t ts)
    obtain s c where st: "conflict_step t (seen, conflicts) = (s, c)" by fastforce
    then have "set s = insert t (set seen)" "set c = set conflicts \<union> ({t} \<inter> set seen)"
      by (auto simp: conflict_step_def set_add_def split: if_splits)
    with Cons.IH [of s c] Cons.prems st show ?case by auto
  qed simp
  then show "set seen' = set seen \<union> set ts" "set conflicts' = set conflicts \<union> (set ts \<inter> set seen)" by blast+
qed

lemma conflicts_fold:
  assumes "fold (\<lambda>(scope, tools). fold conflict_step (js_set tools)) m (seen, conflicts) = (seen', conflicts')"
  shows "(t \<in> set seen' \<longleftrightarrow> t \<in> set seen \<or> listing m t \<noteq> [])
    \<and> (t \<in> set conflicts' \<longleftrightarrow> t \<in> set conflicts \<or> (if t \<in> set seen then listing m t \<noteq> [] else length (listing m t) > 1))"
  using assms
proof (induction m arbitrary: seen conflicts)
  case (Cons x m)
  obtain scope tools where x: "x = (scope, tools)" by (cases x)
  obtain s c where st: "fold conflict_step (js_set tools) (seen, conflicts) = (s, c)" by fastforce
  from conflict_fold [OF st distinct_js_set] have s: "set s = set seen \<union> set tools"
    and c: "set c = set conflicts \<union> (set tools \<inter> set seen)" by (simp_all add: set_js_set)
  from Cons.prems st have "fold (\<lambda>(scope, tools). fold conflict_step (js_set tools)) m (s, c) = (seen', conflicts')"
    by (simp add: x)
  from Cons.IH [OF this] show ?case by (auto simp: s c x listing_def)
qed (simp add: listing_def)

lemma conflicts_iff: "t \<in> set (scopeMapConflicts m) \<longleftrightarrow> length (listing m t) > 1"
proof -
  obtain s c where f: "fold (\<lambda>(scope, tools). fold conflict_step (js_set tools)) m ([], []) = (s, c)" by fastforce
  from conflicts_fold [OF f, of t] f show ?thesis by (simp add: scopeMapConflicts_def)
qed

lemma requirement_cases:
  "scopeRequirementFor m t = (case map fst (listing m t) of [] \<Rightarrow> Unmapped | [only] \<Rightarrow> Required_scope only | scopes \<Rightarrow> Ambiguous scopes)"
  by (simp only: scopeRequirementFor_def listing_def)

lemma requirement_scope: "scopeRequirementFor m t = Required_scope s \<longleftrightarrow> map fst (listing m t) = [s]"
proof (cases "map fst (listing m t)")
  case (Cons x xs)
  then show ?thesis unfolding requirement_cases by (cases xs) simp_all
qed (simp add: requirement_cases)

lemma single_no_conflict: "map fst (listing m t) = [s] \<Longrightarrow> t \<notin> set (scopeMapConflicts m)"
proof -
  assume "map fst (listing m t) = [s]"
  from arg_cong [OF this, of length] have "length (listing m t) = 1" by simp
  then show ?thesis by (simp add: conflicts_iff)
qed

lemma ambiguous_is_conflict: "(\<exists>ss. scopeRequirementFor m t = Ambiguous ss) \<longleftrightarrow> t \<in> set (scopeMapConflicts m)"
proof (cases "map fst (listing m t)")
  case Nil
  then show ?thesis by (simp add: requirement_cases conflicts_iff)
next
  case (Cons x xs)
  from arg_cong [OF this, of length] have "length (listing m t) = Suc (length xs)" by simp
  with Cons show ?thesis by (cases xs) (simp_all add: requirement_cases conflicts_iff)
qed

section \<open>Invocation\<close>

text \<open>
  C17: A remote tool is invoked only over the reader's own active connection to that very integration,
  and a partner's tool only when exactly one scope of the partner's map lists it and that scope was
  granted. Another reader's connection, and one to another integration, is denied for the reason given
  when there is none, and a tool two scopes list (which ingestion reports as a conflict) is never allowed.
\<close>

theorem invocation_needs_own_grant:
  "((\<forall>reason detail. authorizeInvocation rq \<noteq> Denied reason detail) \<longleftrightarrow>
     (\<exists>c. iq_connection rq = Some c \<and> ic_ownerId c = iq_sessionUserId rq
        \<and> ic_integrationId c = ii_id (iq_integration rq) \<and> ic_status c = Active
        \<and> (ii_origin (iq_integration rq) = User_added
           \<or> (\<exists>scope. map fst (filter (\<lambda>(s, tools). iq_toolName rq \<in> set tools) (ii_scopeMap (iq_integration rq))) = [scope]
                \<and> scope \<in> set (ic_grantedScopes c) \<and> iq_toolName rq \<notin> set (scopeMapConflicts (ii_scopeMap (iq_integration rq)))))))
   \<and> (\<forall>c. iq_connection rq = Some c \<and> (ic_ownerId c \<noteq> iq_sessionUserId rq \<or> ic_integrationId c \<noteq> ii_id (iq_integration rq))
      \<longrightarrow> (\<exists>d d'. authorizeInvocation rq = Denied Connection_required d
        \<and> authorizeInvocation (rq\<lparr>iq_connection := None\<rparr>) = Denied Connection_required d'))"
proof (cases "iq_connection rq")
  case None
  then show ?thesis by (simp add: authorizeInvocation_def)
next
  case (Some c)
  let ?m = "ii_scopeMap (iq_integration rq)"
  let ?own = "ic_ownerId c = iq_sessionUserId rq \<and> ic_integrationId c = ii_id (iq_integration rq) \<and> ic_status c = Active"
  let ?scoped = "\<exists>scope. map fst (filter (\<lambda>(s, tools). iq_toolName rq \<in> set tools) ?m) = [scope]
      \<and> scope \<in> set (ic_grantedScopes c) \<and> iq_toolName rq \<notin> set (scopeMapConflicts ?m)"
  have scoped: "?scoped \<longleftrightarrow> (\<exists>scope. scopeRequirementFor ?m (iq_toolName rq) = Required_scope scope \<and> scope \<in> set (ic_grantedScopes c))"
    using single_no_conflict [of ?m "iq_toolName rq"] by (auto simp: requirement_scope listing_def)
  have partner: "?own \<Longrightarrow> ii_origin (iq_integration rq) = Partner \<Longrightarrow>
      (\<forall>r d. authorizeInvocation rq \<noteq> Denied r d) \<longleftrightarrow> ?scoped"
    unfolding scoped
    by (cases "scopeRequirementFor ?m (iq_toolName rq)") (auto simp: authorizeInvocation_def Some Let_def)
  have user: "?own \<Longrightarrow> ii_origin (iq_integration rq) = User_added \<Longrightarrow> \<forall>r d. authorizeInvocation rq \<noteq> Denied r d"
    by (simp add: authorizeInvocation_def Some Let_def)
  have other: "\<not> ?own \<Longrightarrow> \<not> (\<forall>r d. authorizeInvocation rq \<noteq> Denied r d)"
    by (auto simp: authorizeInvocation_def Some Let_def)
  have "(\<forall>r d. authorizeInvocation rq \<noteq> Denied r d) \<longleftrightarrow> ?own \<and> (ii_origin (iq_integration rq) = User_added \<or> ?scoped)"
  proof (cases ?own)
    case True
    then show ?thesis using partner [OF True] user [OF True] by (cases "ii_origin (iq_integration rq)") simp_all
  next
    case False
    with other [OF False] show ?thesis by blast
  qed
  moreover have "ic_ownerId c \<noteq> iq_sessionUserId rq \<or> ic_integrationId c \<noteq> ii_id (iq_integration rq)
      \<longrightarrow> (\<exists>d d'. authorizeInvocation rq = Denied Connection_required d
        \<and> authorizeInvocation (rq\<lparr>iq_connection := None\<rparr>) = Denied Connection_required d')"
    by (simp add: authorizeInvocation_def Some Let_def)
  ultimately show ?thesis by (simp add: Some)
qed

lemma invocation_needs_own_grant_witness:
  "authorizeInvocation \<lparr>iq_sessionUserId = ''u1'', iq_toolName = ''list'',
      iq_integration = \<lparr>ii_id = ''i1'', ii_origin = Partner, ii_scopeMap = [(''orders.read'', [''list''])]\<rparr>,
      iq_connection = Some \<lparr>ic_id = ''c1'', ic_ownerId = ''u1'', ic_integrationId = ''i1'', ic_status = Active,
        ic_grantedScopes = [''orders.read'']\<rparr>\<rparr> = Allow_scope ''c1'' ''i1'' ''orders.read''
   \<and> (\<exists>d. authorizeInvocation \<lparr>iq_sessionUserId = ''u2'', iq_toolName = ''list'',
      iq_integration = \<lparr>ii_id = ''i1'', ii_origin = Partner, ii_scopeMap = [(''orders.read'', [''list''])]\<rparr>,
      iq_connection = Some \<lparr>ic_id = ''c1'', ic_ownerId = ''u1'', ic_integrationId = ''i1'', ic_status = Active,
        ic_grantedScopes = [''orders.read'']\<rparr>\<rparr> = Denied Connection_required d)" (is "?a \<and> (\<exists>d. authorizeInvocation ?rq = _ d)")
proof
  show ?a by code_simp
  have "iq_connection ?rq = Some (the (iq_connection ?rq)) \<and> ic_ownerId (the (iq_connection ?rq)) \<noteq> iq_sessionUserId ?rq" by simp
  with invocation_needs_own_grant [of ?rq] show "\<exists>d. authorizeInvocation ?rq = Denied Connection_required d" by blast
qed

end
