(* ===== verification/Approval_Store.thy ===== *)
theory Approval_Store
  imports Approval_Decision
begin

text \<open>
  The chat API's consent records: \<open>connections/tool-approval.repository.ts\<close> over its tables,
  \<open>tool-approval.service.ts\<close>, the name derivation of \<open>remote-tool-names.ts\<close>, the catalog of
  \<open>integration-tool.repository.ts\<close>, \<open>connection-rows.ts\<close> and the gate of
  \<open>chat/tool-approval-gate.service.ts\<close>.

  The database is a record of tables, a table is a list of rows in insertion order, and one repository
  call is one transition. A missing row that Prisma reports by throwing is \<open>Inl\<close>. \<open>hex\<close> is the
  hexadecimal SHA-256 of a text and \<open>chatDigest\<close> the fingerprint of a shipped tool's definition; both
  are parameters. Titles of conversations in listings are read from the session table.
\<close>

section \<open>Tables\<close>

record user_row =
  us_id :: string
  us_mode :: reader_mode
  us_ttl :: grant_ttl

record session_row =
  ss_publicId :: string
  ss_user :: string
  ss_title :: "string option"
  ss_deleted :: bool

record integration_tool =
  il_name :: string
  il_title :: "string option"
  il_description :: "string option"
  il_destructive :: bool
  il_digest :: string

record integration_row =
  in_id :: nat
  in_publicId :: string
  in_name :: string
  in_active :: bool
  in_origin :: origin
  in_owner :: "string option"
  in_tools :: "integration_tool list"
  in_toolScopes :: "(string \<times> string) list"
  in_connections :: "(string \<times> connection_status) list"

record approval_row =
  ar_user :: string
  ar_subject :: string
  ar_scope :: string
  ar_integration :: "nat option"
  ar_tool :: string
  ar_digest :: string
  ar_expires :: "int option"
  ar_updated :: int

record override_row =
  ow_user :: string
  ow_subject :: string
  ow_integration :: "nat option"
  ow_tool :: string
  ow_mode :: override_mode
  ow_digest :: "string option"

record setting_row =
  se_user :: string
  se_integration :: nat
  se_mode :: integration_mode

record approval_db =
  db_users :: "user_row list"
  db_sessions :: "session_row list"
  db_integrations :: "integration_row list"
  db_approvals :: "approval_row list"
  db_overrides :: "override_row list"
  db_settings :: "setting_row list"

datatype db_error = No_such_row

definition upsert :: "('r \<Rightarrow> bool) \<Rightarrow> ('r \<Rightarrow> 'r) \<Rightarrow> 'r \<Rightarrow> 'r list \<Rightarrow> 'r list" where
  "upsert key change new rows = (if list_ex key rows then map (\<lambda>r. if key r then change r else r) rows else rows @ [new])"

section \<open>What a reader can see\<close>

definition visibleToUser :: "string \<Rightarrow> string option \<Rightarrow> integration_row \<Rightarrow> bool" where
  "visibleToUser userId integrationId r =
     ((case integrationId of None \<Rightarrow> True | Some i \<Rightarrow> in_publicId r = i)
      \<and> in_active r \<and> (in_origin r = Partner \<or> in_owner r = Some userId))"

definition find_visible :: "approval_db \<Rightarrow> string \<Rightarrow> string \<Rightarrow> integration_row option" where
  "find_visible db userId integrationId = List.find (visibleToUser userId (Some integrationId)) (db_integrations db)"

record catalog_tool =
  kt_integrationId :: nat
  kt_integrationPublicId :: string
  kt_integrationName :: string
  kt_remoteName :: string
  kt_destructive :: bool
  kt_digest :: string
  kt_scoped :: bool

definition catalog_row :: "integration_row \<Rightarrow> catalog_tool list" where
  "catalog_row r = map (\<lambda>t. \<lparr>kt_integrationId = in_id r, kt_integrationPublicId = in_publicId r,
     kt_integrationName = in_name r, kt_remoteName = il_name t, kt_destructive = il_destructive t, kt_digest = il_digest t,
     kt_scoped = (in_origin r = User_added \<or> il_name t \<in> fst ` set (in_toolScopes r))\<rparr>) (in_tools r)"

definition catalogFor :: "string \<Rightarrow> approval_db \<Rightarrow> catalog_tool list" where
  "catalogFor userId db = concat (map catalog_row (sort_key in_id
     (filter (\<lambda>r. visibleToUser userId None r \<and> (userId, Active) \<in> set (in_connections r)) (db_integrations db))))"

section \<open>Names offered to the model\<close>

definition tool_char :: "char \<Rightarrow> bool" where
  "tool_char c = ((CHR ''a'' \<le> c \<and> c \<le> CHR ''z'') \<or> (CHR ''0'' \<le> c \<and> c \<le> CHR ''9''))"

definition sanitize :: "string \<Rightarrow> string" where
  "sanitize remoteName = join_with ''_'' (filter (\<lambda>w. w \<noteq> [])
     (split_on (CHR ''_'') (map (\<lambda>c. if tool_char c then c else CHR ''_'') (to_lower remoteName))))"

definition strip_underscores :: "string \<Rightarrow> string" where
  "strip_underscores s = rev (dropWhile (\<lambda>c. c = CHR ''_'') (rev s))"

definition exposedToolNameFor :: "(string \<Rightarrow> string) \<Rightarrow> string \<Rightarrow> string \<Rightarrow> string" where
  "exposedToolNameFor hex integrationPublicId remoteName =
     (let handle = ''i'' @ take 8 (hex integrationPublicId); sanitized = sanitize remoteName;
          segment = strip_underscores (take 46 sanitized)
      in if segment = sanitized \<and> sanitized = remoteName \<and> segment \<noteq> [] then handle @ ''_'' @ segment
         else (let suffix = take 7 (hex remoteName)
           in if segment = [] then handle @ ''_'' @ suffix else handle @ ''_'' @ segment @ ''_'' @ suffix))"

definition looksExposed :: "string \<Rightarrow> bool" where
  "looksExposed name = (case name of c # s \<Rightarrow> c = CHR ''i'' \<and> length s \<ge> 9
       \<and> list_all (\<lambda>c. (CHR ''0'' \<le> c \<and> c \<le> CHR ''9'') \<or> (CHR ''a'' \<le> c \<and> c \<le> CHR ''f'')) (take 8 s) \<and> s ! 8 = CHR ''_''
   | [] \<Rightarrow> False)"

definition place_tool :: "(string \<Rightarrow> string) \<Rightarrow> catalog_tool \<Rightarrow> (string \<times> catalog_tool) list \<times> catalog_tool list
    \<Rightarrow> (string \<times> catalog_tool) list \<times> catalog_tool list" where
  "place_tool hex t st = (case st of (byName, conflicts) \<Rightarrow>
     (let exposed = exposedToolNameFor hex (kt_integrationPublicId t) (kt_remoteName t)
      in if map_of byName exposed \<noteq> None then (byName, conflicts @ [t])
         else (AList.update exposed t byName, conflicts)))"

definition resolveToolNames :: "(string \<Rightarrow> string) \<Rightarrow> catalog_tool list \<Rightarrow> (string \<times> catalog_tool) list \<times> catalog_tool list" where
  "resolveToolNames hex tools = fold (place_tool hex) tools ([], [])"

section \<open>The repository\<close>

definition global_scope :: string where "global_scope = []"

definition approvalKey :: "string \<Rightarrow> string \<Rightarrow> string" where
  "approvalKey integrationId toolName = integrationId @ '':'' @ toolName"

definition find_user :: "approval_db \<Rightarrow> string \<Rightarrow> db_error + user_row" where
  "find_user db userId = (case List.find (\<lambda>u. us_id u = userId) (db_users db) of None \<Rightarrow> Inl No_such_row | Some u \<Rightarrow> Inr u)"

definition modeFor :: "approval_db \<Rightarrow> string \<Rightarrow> db_error + reader_mode" where
  "modeFor db userId = res_map us_mode (find_user db userId)"

definition ttlFor :: "approval_db \<Rightarrow> string \<Rightarrow> db_error + grant_ttl" where
  "ttlFor db userId = res_map us_ttl (find_user db userId)"

definition update_user :: "string \<Rightarrow> (user_row \<Rightarrow> user_row) \<Rightarrow> approval_db \<Rightarrow> db_error + approval_db" where
  "update_user userId change db = res_map (\<lambda>_. db\<lparr>db_users := map (\<lambda>u. if us_id u = userId then change u else u) (db_users db)\<rparr>)
     (find_user db userId)"

definition setMode :: "string \<Rightarrow> reader_mode \<Rightarrow> approval_db \<Rightarrow> db_error + approval_db" where
  "setMode userId mode db = update_user userId (\<lambda>u. u\<lparr>us_mode := mode\<rparr>) db"

definition setTtl :: "string \<Rightarrow> grant_ttl \<Rightarrow> approval_db \<Rightarrow> db_error + approval_db" where
  "setTtl userId ttl db = update_user userId (\<lambda>u. u\<lparr>us_ttl := ttl\<rparr>) db"

definition add_grant :: "approval_row \<Rightarrow> (string \<times> tool_grant list) list \<Rightarrow> (string \<times> tool_grant list) list" where
  "add_grant r grants = AList.update (ar_subject r)
     ((case map_of grants (ar_subject r) of None \<Rightarrow> [] | Some held \<Rightarrow> held)
       @ [\<lparr>tg_digest = ar_digest r, tg_expiresAt = ar_expires r\<rparr>]) grants"

definition grantsFor :: "approval_db \<Rightarrow> string \<Rightarrow> string \<Rightarrow> (string \<times> tool_grant list) list" where
  "grantsFor db userId session = fold add_grant
     (filter (\<lambda>r. ar_user r = userId \<and> ar_scope r \<in> {global_scope, session}) (db_approvals db)) []"

record approval_context =
  co_mode :: reader_mode
  co_integrationModes :: "(string \<times> integration_mode) list"
  co_overrides :: "(string \<times> tool_override) list"
  co_grants :: "(string \<times> tool_grant list) list"

definition setting_entries :: "approval_db \<Rightarrow> string \<Rightarrow> (string \<times> integration_mode) list" where
  "setting_entries db userId = concat (map (\<lambda>s. map (\<lambda>i. (in_publicId i, se_mode s))
       (filter (\<lambda>i. in_id i = se_integration s) (db_integrations db)))
     (filter (\<lambda>s. se_user s = userId) (db_settings db)))"

definition contextFor :: "approval_db \<Rightarrow> string \<Rightarrow> string \<Rightarrow> db_error + approval_context" where
  "contextFor db userId session = res_map (\<lambda>mode.
     \<lparr>co_mode = mode,
      co_integrationModes = fold (\<lambda>e. AList.update (fst e) (snd e)) (setting_entries db userId) [],
      co_overrides = fold (\<lambda>r. AList.update (ow_subject r) \<lparr>ov_mode = ow_mode r, ov_digest = ow_digest r\<rparr>)
        (filter (\<lambda>r. ow_user r = userId) (db_overrides db)) [],
      co_grants = grantsFor db userId session\<rparr>) (modeFor db userId)"

definition scopeKeyFor :: "approval_db \<Rightarrow> string \<Rightarrow> grant_scope \<Rightarrow> string option \<Rightarrow> string option" where
  "scopeKeyFor db userId scope session = (case scope of
     Scope_global \<Rightarrow> Some global_scope
   | Scope_session \<Rightarrow> Option.bind session (\<lambda>s. map_option ss_publicId
       (List.find (\<lambda>r. ss_publicId r = s \<and> ss_user r = userId \<and> \<not> ss_deleted r) (db_sessions db))))"

definition setIntegrationMode :: "string \<Rightarrow> string \<Rightarrow> integration_mode option \<Rightarrow> approval_db \<Rightarrow> bool \<times> approval_db" where
  "setIntegrationMode userId integrationId setting db = (case find_visible db userId integrationId of
     None \<Rightarrow> (False, db)
   | Some i \<Rightarrow> (let key = (\<lambda>s. se_user s = userId \<and> se_integration s = in_id i) in (case setting of
        None \<Rightarrow> (True, db\<lparr>db_settings := filter (\<lambda>s. \<not> key s) (db_settings db)\<rparr>)
      | Some m \<Rightarrow> (True, db\<lparr>db_settings := upsert key (\<lambda>s. s\<lparr>se_mode := m\<rparr>)
          \<lparr>se_user = userId, se_integration = in_id i, se_mode = m\<rparr> (db_settings db)\<rparr>))))"

record override_subject =
  os_subjectKey :: string
  os_integrationId :: "nat option"
  os_toolName :: string
  os_digest :: string

definition writeOverride :: "string \<Rightarrow> override_subject \<Rightarrow> override_mode option \<Rightarrow> approval_db \<Rightarrow> approval_db" where
  "writeOverride userId s setting db =
     (let key = (\<lambda>r. ow_user r = userId \<and> ow_subject r = os_subjectKey s) in (case setting of
        None \<Rightarrow> db\<lparr>db_overrides := filter (\<lambda>r. \<not> key r) (db_overrides db)\<rparr>
      | Some m \<Rightarrow> (let digest = (if m = Override_auto then Some (os_digest s) else None)
          in db\<lparr>db_overrides := upsert key (\<lambda>r. r\<lparr>ow_mode := m, ow_digest := digest\<rparr>)
            \<lparr>ow_user = userId, ow_subject = os_subjectKey s, ow_integration = os_integrationId s, ow_tool = os_toolName s,
             ow_mode = m, ow_digest = digest\<rparr> (db_overrides db)\<rparr>)))"

definition chat_subject :: "(string \<Rightarrow> string) \<Rightarrow> string \<Rightarrow> override_subject" where
  "chat_subject chatDigest name = \<lparr>os_subjectKey = name, os_integrationId = None, os_toolName = name, os_digest = chatDigest name\<rparr>"

definition remote_subject :: "string \<Rightarrow> integration_row \<Rightarrow> integration_tool \<Rightarrow> override_subject" where
  "remote_subject integrationId i t = \<lparr>os_subjectKey = approvalKey integrationId (il_name t), os_integrationId = Some (in_id i),
     os_toolName = il_name t, os_digest = il_digest t\<rparr>"

definition find_tool :: "approval_db \<Rightarrow> string \<Rightarrow> string \<Rightarrow> string \<Rightarrow> (integration_row \<times> integration_tool) option" where
  "find_tool db userId integrationId toolName = Option.bind (find_visible db userId integrationId) (\<lambda>i.
     map_option (\<lambda>t. (i, t)) (List.find (\<lambda>t. il_name t = toolName) (in_tools i)))"

definition overrideChatTool :: "(string \<Rightarrow> string) \<Rightarrow> string \<Rightarrow> string \<Rightarrow> override_mode option \<Rightarrow> approval_db \<Rightarrow> approval_db" where
  "overrideChatTool chatDigest userId name setting db = writeOverride userId (chat_subject chatDigest name) setting db"

definition overrideRemote :: "string \<Rightarrow> string \<Rightarrow> string \<Rightarrow> override_mode option \<Rightarrow> approval_db \<Rightarrow> bool \<times> approval_db" where
  "overrideRemote userId integrationId toolName setting db = (case find_tool db userId integrationId toolName of
     None \<Rightarrow> (False, db)
   | Some (i, t) \<Rightarrow> (True, writeOverride userId (remote_subject integrationId i t) setting db))"

definition overrideRemoteMany :: "string \<Rightarrow> string \<Rightarrow> string list \<Rightarrow> override_mode option \<Rightarrow> approval_db \<Rightarrow> bool \<times> approval_db" where
  "overrideRemoteMany userId integrationId toolNames setting db =
     (let names = js_set toolNames in (case find_visible db userId integrationId of
        None \<Rightarrow> (False, db)
      | Some i \<Rightarrow> (let tools = filter (\<lambda>t. il_name t \<in> set names) (in_tools i)
          in if length tools \<noteq> length names then (False, db)
             else (True, fold (\<lambda>t. writeOverride userId (remote_subject integrationId i t) setting) tools db))))"

definition grant_expiry :: "approval_db \<Rightarrow> string \<Rightarrow> grant_ttl option \<Rightarrow> int \<Rightarrow> db_error + int option" where
  "grant_expiry db userId ttl now = res_map (\<lambda>t. grantExpiryFor t now)
     (case ttl of Some t \<Rightarrow> Inr t | None \<Rightarrow> ttlFor db userId)"

definition write_grant :: "int \<Rightarrow> string \<Rightarrow> string \<Rightarrow> override_subject \<Rightarrow> int option \<Rightarrow> approval_db \<Rightarrow> approval_db" where
  "write_grant now userId scopeKey s expiresAt db = db\<lparr>db_approvals := upsert
     (\<lambda>r. ar_user r = userId \<and> ar_subject r = os_subjectKey s \<and> ar_scope r = scopeKey)
     (\<lambda>r. r\<lparr>ar_digest := os_digest s, ar_expires := expiresAt, ar_updated := now\<rparr>)
     \<lparr>ar_user = userId, ar_subject = os_subjectKey s, ar_scope = scopeKey, ar_integration = os_integrationId s,
      ar_tool = os_toolName s, ar_digest = os_digest s, ar_expires = expiresAt, ar_updated = now\<rparr> (db_approvals db)\<rparr>"

definition rememberChatTool :: "(string \<Rightarrow> string) \<Rightarrow> int \<Rightarrow> string \<Rightarrow> string \<Rightarrow> string \<Rightarrow> grant_ttl option \<Rightarrow> approval_db
    \<Rightarrow> db_error + approval_db" where
  "rememberChatTool chatDigest now userId name scopeKey ttl db =
     res_map (\<lambda>expiresAt. write_grant now userId scopeKey (chat_subject chatDigest name) expiresAt db)
       (grant_expiry db userId ttl now)"

definition remember :: "int \<Rightarrow> string \<Rightarrow> string \<Rightarrow> string \<Rightarrow> string \<Rightarrow> grant_ttl option \<Rightarrow> approval_db
    \<Rightarrow> db_error + bool \<times> approval_db" where
  "remember now userId integrationId toolName scopeKey ttl db = (case find_tool db userId integrationId toolName of
     None \<Rightarrow> Inr (False, db)
   | Some (i, t) \<Rightarrow> res_map (\<lambda>expiresAt. (True, write_grant now userId scopeKey (remote_subject integrationId i t) expiresAt db))
       (grant_expiry db userId ttl now))"

definition forget :: "string \<Rightarrow> string \<Rightarrow> approval_db \<Rightarrow> bool \<times> approval_db" where
  "forget userId subjectKey db = (let gone = (\<lambda>r. ar_user r = userId \<and> ar_subject r = subjectKey)
     in (list_ex gone (db_approvals db), db\<lparr>db_approvals := filter (\<lambda>r. \<not> gone r) (db_approvals db)\<rparr>))"

end
