(* ===== verification/Approval_Service.thy ===== *)
theory Approval_Service
  imports Approval_Store
begin

text \<open>
  The consent records' readers and the operations over exposed names: the listings of
  \<open>connections/tool-approval.repository.ts\<close>, \<open>connections/tool-approval.service.ts\<close>, the gate of
  \<open>chat/tool-approval-gate.service.ts\<close>, and the handlers of \<open>tool-approvals.controller.ts\<close> and
  \<open>integrations.controller.ts\<close> that write consent.

  A handler answers an \<open>api_answer\<close> and the database after it. A sentence of the i18n catalog is
  represented by its key and arguments. \<open>consent_event\<close> is one request, or a change of the rows that
  other parts of the product own (accounts, conversations, integrations and their tools), whose
  deletions cascade to the consent tables as the schema declares.
\<close>

section \<open>Listings\<close>

record approval_listing =
  al_subjectKey :: string
  al_toolName :: string
  al_scope :: grant_scope
  al_conversation :: "(string \<times> string option) option"
  al_approvedAt :: int
  al_expiresAt :: "int option"
  al_expired :: bool
  al_digest :: string
  al_available :: bool
  al_destructive :: bool
  al_currentDigest :: "string option"

definition titlesFor :: "approval_db \<Rightarrow> string \<Rightarrow> approval_row list \<Rightarrow> (string \<times> string option) list" where
  "titlesFor db userId rows =
     (let scoped = js_set (filter (\<lambda>k. k \<noteq> global_scope) (map ar_scope rows))
      in if scoped = [] then []
         else fold (\<lambda>s. AList.update (ss_publicId s) (if ss_deleted s then None else ss_title s))
           (filter (\<lambda>s. ss_user s = userId \<and> ss_publicId s \<in> set scoped) (db_sessions db)) [])"

definition toApprovalRow :: "int \<Rightarrow> approval_row \<Rightarrow> (string \<times> string option) list \<Rightarrow> bool \<Rightarrow> bool \<Rightarrow> string option \<Rightarrow> approval_listing" where
  "toApprovalRow now row titles destructive available currentDigest =
     \<lparr>al_subjectKey = ar_subject row, al_toolName = ar_tool row,
      al_scope = (if ar_scope row = global_scope then Scope_global else Scope_session),
      al_conversation = (if ar_scope row = global_scope then None
        else Some (ar_scope row, case map_of titles (ar_scope row) of None \<Rightarrow> None | Some title \<Rightarrow> title)),
      al_approvedAt = ar_updated row, al_expiresAt = ar_expires row,
      al_expired = (case ar_expires row of None \<Rightarrow> False | Some t \<Rightarrow> t \<le> now),
      al_digest = ar_digest row, al_available = available, al_destructive = destructive,
      al_currentDigest = currentDigest\<rparr>"

definition current_tools :: "integration_row \<Rightarrow> (string \<times> bool \<times> string) list" where
  "current_tools i = fold (\<lambda>t. AList.update (il_name t) (il_destructive t, il_digest t)) (in_tools i) []"

definition listing_of :: "int \<Rightarrow> (string \<times> string option) list \<Rightarrow> integration_row \<Rightarrow> approval_row \<Rightarrow> approval_listing" where
  "listing_of now titles i row = (case map_of (current_tools i) (ar_tool row) of
     None \<Rightarrow> toApprovalRow now row titles False False None
   | Some (destructive, digest) \<Rightarrow> toApprovalRow now row titles destructive True (Some digest))"

definition listFor :: "int \<Rightarrow> approval_db \<Rightarrow> string \<Rightarrow> string \<Rightarrow> approval_listing list option" where
  "listFor now db userId integrationId = map_option (\<lambda>i.
     let rows = filter (\<lambda>r. ar_user r = userId \<and> ar_integration r = Some (in_id i)) (db_approvals db)
     in map (listing_of now (titlesFor db userId rows) i) rows) (find_visible db userId integrationId)"

definition listChatTools :: "(string \<Rightarrow> string) \<Rightarrow> int \<Rightarrow> approval_db \<Rightarrow> string \<Rightarrow> approval_listing list" where
  "listChatTools chatDigest now db userId =
     (let rows = filter (\<lambda>r. ar_user r = userId \<and> ar_integration r = None) (db_approvals db);
          titles = titlesFor db userId rows
      in map (\<lambda>r. toApprovalRow now r titles False (isChatToolName (ar_tool r))
            (if isChatToolName (ar_tool r) then Some (chatDigest (ar_tool r)) else None)) rows)"

definition override_stale :: "override_row \<Rightarrow> string \<Rightarrow> bool" where
  "override_stale r digest = (ow_mode r = Override_auto \<and> ow_digest r \<noteq> Some digest)"

record tool_listing =
  tl_name :: string
  tl_title :: "string option"
  tl_description :: "string option"
  tl_destructive :: bool
  tl_override :: "override_mode option"
  tl_overrideStale :: bool

definition tool_listing_of :: "(string \<times> override_row) list \<Rightarrow> integration_tool \<Rightarrow> tool_listing" where
  "tool_listing_of byName t = (let ov = map_of byName (il_name t)
     in \<lparr>tl_name = il_name t, tl_title = il_title t, tl_description = il_description t, tl_destructive = il_destructive t,
         tl_override = map_option ow_mode ov,
         tl_overrideStale = (case ov of None \<Rightarrow> False | Some r \<Rightarrow> override_stale r (il_digest t))\<rparr>)"

definition toolsFor :: "approval_db \<Rightarrow> string \<Rightarrow> string \<Rightarrow> tool_listing list option" where
  "toolsFor db userId integrationId = map_option (\<lambda>i.
     let byName = fold (\<lambda>r. AList.update (ow_tool r) r)
           (filter (\<lambda>r. ow_user r = userId \<and> ow_integration r = Some (in_id i)) (db_overrides db)) []
     in map (tool_listing_of byName) (sort_key il_name (in_tools i))) (find_visible db userId integrationId)"

definition chatToolOverrides :: "(string \<Rightarrow> string) \<Rightarrow> approval_db \<Rightarrow> string \<Rightarrow> (string \<times> override_mode \<times> bool) list" where
  "chatToolOverrides chatDigest db userId =
     fold (\<lambda>r. AList.update (ow_tool r) (ow_mode r, override_stale r (chatDigest (ow_tool r))))
       (filter (\<lambda>r. isChatToolName (ow_tool r)) (filter (\<lambda>r. ow_user r = userId \<and> ow_integration r = None) (db_overrides db))) []"

record chat_tool_entry =
  ce_name :: string
  ce_policy :: approval_policy
  ce_override :: "override_mode option"
  ce_overrideStale :: bool

definition chatToolsFor :: "(string \<Rightarrow> string) \<Rightarrow> approval_db \<Rightarrow> string \<Rightarrow> chat_tool_entry list" where
  "chatToolsFor chatDigest db userId = (let overrides = chatToolOverrides chatDigest db userId
     in map (\<lambda>name. let ov = map_of overrides name
          in \<lparr>ce_name = name, ce_policy = policyFor name, ce_override = map_option fst ov,
              ce_overrideStale = (case ov of None \<Rightarrow> False | Some (m, stale) \<Rightarrow> stale)\<rparr>) chat_tool_names)"

record approved_tool =
  ap_row :: approval_listing
  ap_exposedName :: string
  ap_firstParty :: bool
  ap_definitionChanged :: bool

definition project :: "approval_listing \<Rightarrow> string \<Rightarrow> bool \<Rightarrow> approved_tool" where
  "project row exposedName firstParty = \<lparr>ap_row = row, ap_exposedName = exposedName, ap_firstParty = firstParty,
     ap_definitionChanged = (case al_currentDigest row of None \<Rightarrow> False | Some d \<Rightarrow> d \<noteq> al_digest row)\<rparr>"

definition service_listFor :: "(string \<Rightarrow> string) \<Rightarrow> int \<Rightarrow> approval_db \<Rightarrow> string \<Rightarrow> string \<Rightarrow> approved_tool list option" where
  "service_listFor hex now db userId integrationId = map_option
     (map (\<lambda>row. project row (exposedToolNameFor hex integrationId (al_toolName row)) False)) (listFor now db userId integrationId)"

definition service_listChatTools :: "(string \<Rightarrow> string) \<Rightarrow> int \<Rightarrow> approval_db \<Rightarrow> string \<Rightarrow> approved_tool list" where
  "service_listChatTools chatDigest now db userId =
     map (\<lambda>row. project row (al_toolName row) True) (listChatTools chatDigest now db userId)"

definition service_toolsFor :: "(string \<Rightarrow> string) \<Rightarrow> approval_db \<Rightarrow> string \<Rightarrow> string \<Rightarrow> (string \<times> tool_listing) list option" where
  "service_toolsFor hex db userId integrationId = map_option
     (map (\<lambda>row. (exposedToolNameFor hex integrationId (tl_name row), row))) (toolsFor db userId integrationId)"

section \<open>Operations by exposed name\<close>

datatype approval_change = Changed | Unknown_tool | Policy_fixed

definition changed_if :: "bool \<Rightarrow> approval_change" where
  "changed_if b = (if b then Changed else Unknown_tool)"

definition resolve :: "(string \<Rightarrow> string) \<Rightarrow> approval_db \<Rightarrow> string \<Rightarrow> string \<Rightarrow> catalog_tool option" where
  "resolve hex db userId exposedName =
     List.find (\<lambda>t. exposedToolNameFor hex (kt_integrationPublicId t) (kt_remoteName t) = exposedName) (catalogFor userId db)"

definition service_remember :: "(string \<Rightarrow> string) \<Rightarrow> (string \<Rightarrow> string) \<Rightarrow> int \<Rightarrow> string \<Rightarrow> string \<Rightarrow> string \<Rightarrow> grant_ttl option
    \<Rightarrow> approval_db \<Rightarrow> db_error + approval_change \<times> approval_db" where
  "service_remember hex chatDigest now userId exposedName scopeKey ttl db =
     (if isChatToolName exposedName
      then res_map (\<lambda>db'. (Changed, db')) (rememberChatTool chatDigest now userId exposedName scopeKey ttl db)
      else (case resolve hex db userId exposedName of
          None \<Rightarrow> Inr (Unknown_tool, db)
        | Some t \<Rightarrow> res_map (\<lambda>(done, db'). (changed_if done, db'))
            (remember now userId (kt_integrationPublicId t) (kt_remoteName t) scopeKey ttl db)))"

definition service_override :: "(string \<Rightarrow> string) \<Rightarrow> (string \<Rightarrow> string) \<Rightarrow> string \<Rightarrow> string \<Rightarrow> override_mode option
    \<Rightarrow> approval_db \<Rightarrow> approval_change \<times> approval_db" where
  "service_override hex chatDigest userId exposedName setting db =
     (if isChatToolName exposedName
      then (if policyFor exposedName \<noteq> Policy_askable then (Policy_fixed, db)
            else (Changed, overrideChatTool chatDigest userId exposedName setting db))
      else (case resolve hex db userId exposedName of
          None \<Rightarrow> (Unknown_tool, db)
        | Some t \<Rightarrow> (case overrideRemote userId (kt_integrationPublicId t) (kt_remoteName t) setting db of
            (done, db') \<Rightarrow> (changed_if done, db'))))"

definition service_forget :: "(string \<Rightarrow> string) \<Rightarrow> string \<Rightarrow> string \<Rightarrow> approval_db \<Rightarrow> approval_change \<times> approval_db" where
  "service_forget hex userId exposedName db =
     (if isChatToolName exposedName
      then (case forget userId exposedName db of (any, db') \<Rightarrow> (changed_if any, db'))
      else (case resolve hex db userId exposedName of
          None \<Rightarrow> (Unknown_tool, db)
        | Some t \<Rightarrow> (case forget userId (approvalKey (kt_integrationPublicId t) (kt_remoteName t)) db of
            (any, db') \<Rightarrow> (changed_if any, db'))))"

section \<open>The gate of one turn\<close>

datatype approval_prompt = Prompt_chat_tool string | Prompt_remote_tool string string

datatype approval_status = Not_applicable | Approved | User_approval approval_prompt | Denied_unknown

text \<open>\<open>now\<close> is read once, when the gate is built.\<close>

definition postureOf :: "(string \<Rightarrow> string) \<Rightarrow> approval_context \<Rightarrow> int \<Rightarrow> (string \<times> catalog_tool) list \<Rightarrow> string
    \<Rightarrow> approval_request option" where
  "postureOf chatDigest cx now byExposedName toolName = (case map_of byExposedName toolName of
     Some remote \<Rightarrow> (let subject = approvalKey (kt_integrationPublicId remote) (kt_remoteName remote)
       in Some \<lparr>aq_policy = Policy_askable,
            aq_mode = (case map_of (co_integrationModes cx) (kt_integrationPublicId remote) of
                Some m \<Rightarrow> m | None \<Rightarrow> mode_of_reader (co_mode cx)),
            aq_override = map_of (co_overrides cx) subject, aq_destructive = kt_destructive remote,
            aq_currentDigest = kt_digest remote,
            aq_grants = (case map_of (co_grants cx) subject of Some gs \<Rightarrow> gs | None \<Rightarrow> []), aq_now = now\<rparr>)
   | None \<Rightarrow> if \<not> isChatToolName toolName then None
       else Some \<lparr>aq_policy = policyFor toolName, aq_mode = mode_of_reader (co_mode cx),
            aq_override = map_of (co_overrides cx) toolName, aq_destructive = False,
            aq_currentDigest = chatDigest toolName,
            aq_grants = (case map_of (co_grants cx) toolName of Some gs \<Rightarrow> gs | None \<Rightarrow> []), aq_now = now\<rparr>)"

definition gate :: "(string \<Rightarrow> string) \<Rightarrow> approval_context \<Rightarrow> int \<Rightarrow> (string \<times> catalog_tool) list \<Rightarrow> string \<Rightarrow> bool
    \<Rightarrow> approval_status" where
  "gate chatDigest cx now byExposedName toolName dynamic =
     (case (if dynamic then None else postureOf chatDigest cx now byExposedName toolName) of
        None \<Rightarrow> Denied_unknown
      | Some rq \<Rightarrow> (case decideToolApproval rq of
          (Approve, reason) \<Rightarrow> if reason = By_policy_auto then Not_applicable else Approved
        | (Ask, reason) \<Rightarrow> User_approval (case map_of byExposedName toolName of
            None \<Rightarrow> Prompt_chat_tool toolName
          | Some remote \<Rightarrow> Prompt_remote_tool (kt_integrationName remote) (kt_remoteName remote))))"

definition rememberable :: "(string \<Rightarrow> string) \<Rightarrow> approval_context \<Rightarrow> int \<Rightarrow> (string \<times> catalog_tool) list \<Rightarrow> string \<Rightarrow> bool" where
  "rememberable chatDigest cx now byExposedName toolName = (case postureOf chatDigest cx now byExposedName toolName of
     None \<Rightarrow> False | Some rq \<Rightarrow> grantCanApply rq)"

definition gateFor :: "(string \<Rightarrow> string) \<Rightarrow> approval_db \<Rightarrow> string \<Rightarrow> string \<Rightarrow> int \<Rightarrow> (string \<times> catalog_tool) list
    \<Rightarrow> db_error + ((string \<Rightarrow> bool \<Rightarrow> approval_status) \<times> (string \<Rightarrow> bool))" where
  "gateFor chatDigest db userId session now byExposedName = res_map
     (\<lambda>cx. (gate chatDigest cx now byExposedName, rememberable chatDigest cx now byExposedName)) (contextFor db userId session)"

section \<open>Requests\<close>

datatype api_answer = No_content | Session_not_found | Tool_policy_fixed | Tool_not_offered | Integration_not_found | Failed

definition settle_change :: "approval_change \<Rightarrow> api_answer" where
  "settle_change change = (case change of Policy_fixed \<Rightarrow> Tool_policy_fixed | Unknown_tool \<Rightarrow> Tool_not_offered | Changed \<Rightarrow> No_content)"

definition or_failed :: "approval_db \<Rightarrow> db_error + api_answer \<times> approval_db \<Rightarrow> api_answer \<times> approval_db" where
  "or_failed db outcome = (case outcome of Inl e \<Rightarrow> (Failed, db) | Inr p \<Rightarrow> p)"

definition put_remember :: "(string \<Rightarrow> string) \<Rightarrow> (string \<Rightarrow> string) \<Rightarrow> int \<Rightarrow> string \<Rightarrow> string \<Rightarrow> grant_scope \<Rightarrow> string option
    \<Rightarrow> grant_ttl option \<Rightarrow> approval_db \<Rightarrow> api_answer \<times> approval_db" where
  "put_remember hex chatDigest now userId exposedName scope session ttl db = (case scopeKeyFor db userId scope session of
     None \<Rightarrow> (Session_not_found, db)
   | Some scopeKey \<Rightarrow> or_failed db (res_map (\<lambda>(change, db'). (settle_change change, db'))
       (service_remember hex chatDigest now userId exposedName scopeKey ttl db)))"

definition put_override :: "(string \<Rightarrow> string) \<Rightarrow> (string \<Rightarrow> string) \<Rightarrow> string \<Rightarrow> string \<Rightarrow> override_mode option \<Rightarrow> approval_db
    \<Rightarrow> api_answer \<times> approval_db" where
  "put_override hex chatDigest userId exposedName setting db =
     (case service_override hex chatDigest userId exposedName setting db of (change, db') \<Rightarrow> (settle_change change, db'))"

definition delete_remembered :: "(string \<Rightarrow> string) \<Rightarrow> string \<Rightarrow> string \<Rightarrow> approval_db \<Rightarrow> api_answer \<times> approval_db" where
  "delete_remembered hex userId exposedName db =
     (case service_forget hex userId exposedName db of (change, db') \<Rightarrow> (settle_change change, db'))"

definition put_overrides :: "string \<Rightarrow> string \<Rightarrow> string list \<Rightarrow> override_mode option \<Rightarrow> approval_db \<Rightarrow> api_answer \<times> approval_db" where
  "put_overrides userId integrationId names setting db =
     (case overrideRemoteMany userId integrationId names setting db of
        (applied, db') \<Rightarrow> (if applied then No_content else Tool_not_offered, db'))"

definition patch_integration_mode :: "string \<Rightarrow> string \<Rightarrow> integration_mode option \<Rightarrow> approval_db \<Rightarrow> api_answer \<times> approval_db" where
  "patch_integration_mode userId integrationId setting db =
     (case setIntegrationMode userId integrationId setting db of
        (found, db') \<Rightarrow> (if found then No_content else Integration_not_found, db'))"

definition patch_user :: "db_error + approval_db \<Rightarrow> approval_db \<Rightarrow> api_answer \<times> approval_db" where
  "patch_user outcome db = or_failed db (res_map (\<lambda>db'. (No_content, db')) outcome)"

text \<open>The foreign keys of the consent tables: a row goes with its reader and with its integration.\<close>

definition kept_by :: "user_row list \<Rightarrow> integration_row list \<Rightarrow> string \<Rightarrow> nat option \<Rightarrow> bool" where
  "kept_by users integrations userId integration = (userId \<in> us_id ` set users
     \<and> (case integration of None \<Rightarrow> True | Some i \<Rightarrow> i \<in> in_id ` set integrations))"

definition environment :: "user_row list \<Rightarrow> session_row list \<Rightarrow> integration_row list \<Rightarrow> approval_db \<Rightarrow> approval_db" where
  "environment users sessions integrations db =
     \<lparr>db_users = users, db_sessions = sessions, db_integrations = integrations,
      db_approvals = filter (\<lambda>r. kept_by users integrations (ar_user r) (ar_integration r)) (db_approvals db),
      db_overrides = filter (\<lambda>r. kept_by users integrations (ow_user r) (ow_integration r)) (db_overrides db),
      db_settings = filter (\<lambda>r. kept_by users integrations (se_user r) (Some (se_integration r))) (db_settings db)\<rparr>"

datatype consent_event =
    Remember int string string grant_scope "string option" "grant_ttl option"
  | Override string string "override_mode option"
  | Override_many string string "string list" "override_mode option"
  | Forget string string
  | Integration_mode string string "integration_mode option"
  | Reader_mode string reader_mode
  | Reader_ttl string grant_ttl
  | Environment "user_row list" "session_row list" "integration_row list"

fun consent_step :: "(string \<Rightarrow> string) \<Rightarrow> (string \<Rightarrow> string) \<Rightarrow> consent_event \<Rightarrow> approval_db \<Rightarrow> api_answer \<times> approval_db" where
  "consent_step hex chatDigest (Remember now userId name scope session ttl) db =
     put_remember hex chatDigest now userId name scope session ttl db"
| "consent_step hex chatDigest (Override userId name setting) db = put_override hex chatDigest userId name setting db"
| "consent_step hex chatDigest (Override_many userId integrationId names setting) db =
     put_overrides userId integrationId names setting db"
| "consent_step hex chatDigest (Forget userId name) db = delete_remembered hex userId name db"
| "consent_step hex chatDigest (Integration_mode userId integrationId setting) db =
     patch_integration_mode userId integrationId setting db"
| "consent_step hex chatDigest (Reader_mode userId mode) db = patch_user (setMode userId mode db) db"
| "consent_step hex chatDigest (Reader_ttl userId ttl) db = patch_user (setTtl userId ttl db) db"
| "consent_step hex chatDigest (Environment users sessions integrations) db =
     (No_content, environment users sessions integrations db)"

definition consent_run :: "(string \<Rightarrow> string) \<Rightarrow> (string \<Rightarrow> string) \<Rightarrow> consent_event list \<Rightarrow> approval_db \<Rightarrow> approval_db" where
  "consent_run hex chatDigest events db = fold (\<lambda>e db. snd (consent_step hex chatDigest e db)) events db"

definition empty_db :: approval_db where
  "empty_db = \<lparr>db_users = [], db_sessions = [], db_integrations = [], db_approvals = [], db_overrides = [], db_settings = []\<rparr>"

end
