(* ===== verification/Approval_Log.thy ===== *)
theory Approval_Log
  imports Approval_Service Approval_Properties
begin

text \<open>
  Where a row of the consent tables comes from. \<open>row_log\<close> is the contract of a table under the
  operations: a row that is there after a step was there before and not withdrawn by the step, or the
  step wrote it. From the contract, every row of a run is traced to the request that wrote it and has
  not been withdrawn by any later one. The approvals, the overrides and the integration settings each
  provide the contract.
\<close>

section \<open>The contract\<close>

definition decided_by :: "('e \<Rightarrow> 's \<Rightarrow> 's) \<Rightarrow> 's \<Rightarrow> 'e list \<Rightarrow> ('e \<Rightarrow> 's \<Rightarrow> bool) \<Rightarrow> ('e \<Rightarrow> 's \<Rightarrow> bool) \<Rightarrow> bool" where
  "decided_by step start events decides withdraws = (\<exists>pre e post. events = pre @ e # post \<and> decides e (fold step pre start)
     \<and> (\<forall>mid f rest. post = mid @ f # rest \<longrightarrow> \<not> withdraws f (fold step (pre @ e # mid) start)))"

lemma decided_by_mono:
  assumes "decided_by step start events d w"
    and "\<And>e s. d e s \<Longrightarrow> d' e s" and "\<And>e s. w' e s \<Longrightarrow> w e s"
  shows "decided_by step start events d' w'"
proof -
  obtain pre e post where split: "events = pre @ e # post" and d: "d e (fold step pre start)"
    and later: "\<forall>mid f rest. post = mid @ f # rest \<longrightarrow> \<not> w f (fold step (pre @ e # mid) start)"
    using assms(1) unfolding decided_by_def by (elim exE conjE)
  have "\<not> w' f (fold step (pre @ e # mid) start)" if q: "post = mid @ f # rest" for mid f rest
    using later [rule_format, OF q] assms(3) [of f "fold step (pre @ e # mid) start"] by argo
  then show ?thesis unfolding decided_by_def using split assms(2) [OF d]
    by (intro exI [of _ pre] exI [of _ e] exI [of _ post]) simp
qed

lemma decided_by_snoc:
  assumes "decided_by step start events d w" and "\<not> w e (fold step events start)"
  shows "decided_by step start (events @ [e]) d w"
proof -
  obtain pre d' post where split: "events = pre @ d' # post" and d: "d d' (fold step pre start)"
    and later: "\<forall>mid f rest. post = mid @ f # rest \<longrightarrow> \<not> w f (fold step (pre @ d' # mid) start)"
    using assms(1) unfolding decided_by_def by (elim exE conjE)
  have "\<not> w f (fold step (pre @ d' # mid) start)" if "post @ [e] = mid @ f # rest" for mid f rest
  proof (cases rest rule: rev_cases)
    case Nil
    then show ?thesis using that assms(2) split by simp
  next
    case (snoc ys y)
    then show ?thesis using that later by simp
  qed
  then show ?thesis unfolding decided_by_def using split d by (intro exI [of _ pre] exI [of _ d'] exI [of _ "post @ [e]"]) simp
qed

locale row_log =
  fixes rows :: "'s \<Rightarrow> 'r set" and step :: "'e \<Rightarrow> 's \<Rightarrow> 's"
    and writes :: "'r \<Rightarrow> 'e \<Rightarrow> 's \<Rightarrow> bool" and withdraws :: "'r \<Rightarrow> 'e \<Rightarrow> 's \<Rightarrow> bool"
  assumes step_row: "r \<in> rows (step e s) \<Longrightarrow> r \<in> rows s \<and> \<not> withdraws r e s \<or> writes r e s"
begin

lemma row_traced:
  assumes "rows start = {}" and "r \<in> rows (fold step events start)"
  shows "decided_by step start events (writes r) (withdraws r)"
  using assms(2)
proof (induction events rule: rev_induct)
  case Nil
  then show ?case using assms(1) by simp
next
  case (snoc e events)
  from snoc.prems have "r \<in> rows (step e (fold step events start))" by simp
  from step_row [OF this] consider "r \<in> rows (fold step events start)" "\<not> withdraws r e (fold step events start)"
    | "writes r e (fold step events start)" by (elim disjE conjE) simp_all
  then show ?case
  proof cases
    case 1
    then show ?thesis using decided_by_snoc [OF snoc.IH, of e] by simp
  next
    case 2
    then show ?thesis unfolding decided_by_def by (intro exI [of _ events] exI [of _ e] exI [of _ "[]"]) simp
  qed
qed

end

section \<open>What a request names, writes and withdraws\<close>

lemma upsert_cases:
  assumes "r \<in> set (upsert key change new rows)"
  obtains "r \<in> set rows" "\<not> key r" | "r = new" | q where "q \<in> set rows" "key q" "r = change q"
proof (cases "list_ex key rows")
  case True
  then obtain q where "q \<in> set rows" and "r = (if key q then change q else q)"
    using assms by (auto simp: upsert_def)
  then show ?thesis using that by (cases "key q") simp_all
next
  case False
  then have "r \<in> set rows \<and> \<not> key r \<or> r = new" using assms by (auto simp: upsert_def list_ex_iff)
  then show ?thesis using that by (elim disjE conjE) simp_all
qed

definition names_subject :: "(string \<Rightarrow> string) \<Rightarrow> approval_db \<Rightarrow> string \<Rightarrow> string \<Rightarrow> string \<Rightarrow> bool" where
  "names_subject hex db userId name subject =
     (if isChatToolName name then subject = name
      else (case resolve hex db userId name of None \<Rightarrow> False
        | Some t \<Rightarrow> subject = approvalKey (kt_integrationPublicId t) (kt_remoteName t)))"

definition names_definition :: "(string \<Rightarrow> string) \<Rightarrow> (string \<Rightarrow> string) \<Rightarrow> approval_db \<Rightarrow> string \<Rightarrow> string \<Rightarrow> string \<Rightarrow> string \<Rightarrow> bool" where
  "names_definition hex chatDigest db userId name subject digest =
     (if isChatToolName name then subject = name \<and> digest = chatDigest name
      else (case resolve hex db userId name of None \<Rightarrow> False
        | Some t \<Rightarrow> (case find_tool db userId (kt_integrationPublicId t) (kt_remoteName t) of None \<Rightarrow> False
            | Some (i, tool) \<Rightarrow> subject = approvalKey (kt_integrationPublicId t) (il_name tool) \<and> digest = il_digest tool)))"

text \<open>A grant: who asked, for which definition, in which scope and until when.\<close>

definition remembers :: "(string \<Rightarrow> string) \<Rightarrow> (string \<Rightarrow> string) \<Rightarrow> string \<Rightarrow> string \<Rightarrow> string \<Rightarrow> string \<Rightarrow> int option
    \<Rightarrow> consent_event \<Rightarrow> approval_db \<Rightarrow> bool" where
  "remembers hex chatDigest userId subject digest scopeKey expires e db = (case e of
     Remember now u name scope session ttl \<Rightarrow> u = userId \<and> names_definition hex chatDigest db u name subject digest
       \<and> scopeKeyFor db u scope session = Some scopeKey \<and> grant_expiry db u ttl now = Inr expires
   | _ \<Rightarrow> False)"

definition forgets :: "(string \<Rightarrow> string) \<Rightarrow> string \<Rightarrow> string \<Rightarrow> consent_event \<Rightarrow> approval_db \<Rightarrow> bool" where
  "forgets hex userId subject e db = (case e of
     Forget u name \<Rightarrow> u = userId \<and> names_subject hex db u name subject
   | _ \<Rightarrow> False)"

text \<open>An override: who set which mode for which definition.\<close>

definition bulk_names :: "approval_db \<Rightarrow> string \<Rightarrow> string \<Rightarrow> string list \<Rightarrow> string \<Rightarrow> string \<Rightarrow> bool" where
  "bulk_names db userId integrationId names subject digest = (case find_visible db userId integrationId of None \<Rightarrow> False
     | Some i \<Rightarrow> length (filter (\<lambda>t. il_name t \<in> set names) (in_tools i)) = length (js_set names)
        \<and> list_ex (\<lambda>t. il_name t \<in> set names \<and> subject = approvalKey integrationId (il_name t) \<and> digest = il_digest t) (in_tools i))"

definition overrides_with :: "(string \<Rightarrow> string) \<Rightarrow> (string \<Rightarrow> string) \<Rightarrow> string \<Rightarrow> string \<Rightarrow> override_mode \<Rightarrow> string option
    \<Rightarrow> consent_event \<Rightarrow> approval_db \<Rightarrow> bool" where
  "overrides_with hex chatDigest userId subject mode digest e db = (case e of
     Override u name setting \<Rightarrow> u = userId \<and> setting = Some mode
       \<and> (\<exists>d. names_definition hex chatDigest db u name subject d \<and> digest = (if mode = Override_auto then Some d else None))
   | Override_many u integrationId names setting \<Rightarrow> u = userId \<and> setting = Some mode
       \<and> (\<exists>d. bulk_names db u integrationId names subject d \<and> digest = (if mode = Override_auto then Some d else None))
   | _ \<Rightarrow> False)"

definition resets_override :: "(string \<Rightarrow> string) \<Rightarrow> (string \<Rightarrow> string) \<Rightarrow> string \<Rightarrow> string \<Rightarrow> consent_event \<Rightarrow> approval_db \<Rightarrow> bool" where
  "resets_override hex chatDigest userId subject e db = (case e of
     Override u name setting \<Rightarrow> u = userId \<and> (isChatToolName name \<longrightarrow> policyFor name = Policy_askable)
       \<and> (\<exists>d. names_definition hex chatDigest db u name subject d)
   | Override_many u integrationId names setting \<Rightarrow> u = userId \<and> (\<exists>d. bulk_names db u integrationId names subject d)
   | _ \<Rightarrow> False)"

text \<open>A setting of one integration.\<close>

definition sets_mode :: "string \<Rightarrow> nat \<Rightarrow> integration_mode \<Rightarrow> consent_event \<Rightarrow> approval_db \<Rightarrow> bool" where
  "sets_mode userId integration mode e db = (case e of
     Integration_mode u integrationId setting \<Rightarrow> u = userId \<and> setting = Some mode
       \<and> map_option in_id (find_visible db u integrationId) = Some integration
   | _ \<Rightarrow> False)"

definition resets_mode :: "string \<Rightarrow> nat \<Rightarrow> consent_event \<Rightarrow> approval_db \<Rightarrow> bool" where
  "resets_mode userId integration e db = (case e of
     Integration_mode u integrationId setting \<Rightarrow> u = userId
       \<and> map_option in_id (find_visible db u integrationId) = Some integration
   | _ \<Rightarrow> False)"

section \<open>Tables touched by each operation\<close>

lemma write_grant_tables [simp]:
  "db_overrides (write_grant now u k s x db) = db_overrides db" "db_settings (write_grant now u k s x db) = db_settings db"
  "db_users (write_grant now u k s x db) = db_users db" "db_sessions (write_grant now u k s x db) = db_sessions db"
  "db_integrations (write_grant now u k s x db) = db_integrations db"
  by (simp_all add: write_grant_def)

lemma writeOverride_tables [simp]:
  "db_approvals (writeOverride u s m db) = db_approvals db" "db_settings (writeOverride u s m db) = db_settings db"
  "db_users (writeOverride u s m db) = db_users db" "db_sessions (writeOverride u s m db) = db_sessions db"
  "db_integrations (writeOverride u s m db) = db_integrations db"
  by (simp_all add: writeOverride_def Let_def split: option.split)

lemma fold_writeOverride_tables [simp]:
  "db_approvals (fold (\<lambda>t. writeOverride u (f t) m) ts db) = db_approvals db"
  "db_settings (fold (\<lambda>t. writeOverride u (f t) m) ts db) = db_settings db"
  "db_users (fold (\<lambda>t. writeOverride u (f t) m) ts db) = db_users db"
  "db_sessions (fold (\<lambda>t. writeOverride u (f t) m) ts db) = db_sessions db"
  "db_integrations (fold (\<lambda>t. writeOverride u (f t) m) ts db) = db_integrations db"
  by (induction ts arbitrary: db) simp_all

end
