(* ===== verification/Approval_Consent.thy ===== *)
theory Approval_Consent
  imports Approval_Log
begin

text \<open>
  Consent over the whole history of requests: an approved call traces back to the reader's own decision
  about the definition that is offered now, another reader's requests change nothing, and an answer that
  was remembered is honoured.
\<close>

section \<open>One step\<close>

lemma put_remember_cases:
  obtains (refused) "snd (put_remember hex cd now u name scope session ttl db) = db"
        "fst (put_remember hex cd now u name scope session ttl db) \<noteq> No_content"
    | (written) s key x where "snd (put_remember hex cd now u name scope session ttl db) = write_grant now u key s x db"
        "scopeKeyFor db u scope session = Some key" "grant_expiry db u ttl now = Inr x"
        "names_definition hex cd db u name (os_subjectKey s) (os_digest s)"
proof -
  show thesis
  proof (cases "scopeKeyFor db u scope session")
    case None
    then show ?thesis using refused by (simp add: put_remember_def)
  next
    case (Some key)
    note key = this
    show ?thesis
    proof (cases "grant_expiry db u ttl now")
      case (Inl e)
      show ?thesis
        by (rule refused) (use Inl in \<open>simp_all add: put_remember_def key service_remember_def rememberChatTool_def
          remember_def or_failed_def settle_change_def changed_if_def split: option.split prod.split\<close>)
    next
      case (Inr x)
      note x = this
      show ?thesis
      proof (cases "isChatToolName name")
        case True
        then show ?thesis using written [of key "chat_subject cd name" x]
          by (simp add: put_remember_def key x service_remember_def rememberChatTool_def or_failed_def
              names_definition_def chat_subject_def)
      next
        case remote: False
        show ?thesis
        proof (cases "resolve hex db u name")
          case None
          then show ?thesis using refused remote
            by (simp add: put_remember_def key service_remember_def or_failed_def settle_change_def)
        next
          case (Some t)
          note t = this
          show ?thesis
          proof (cases "find_tool db u (kt_integrationPublicId t) (kt_remoteName t)")
            case None
            then show ?thesis using refused remote t
              by (simp add: put_remember_def key service_remember_def remember_def or_failed_def settle_change_def changed_if_def)
          next
            case (Some it)
            then show ?thesis
              using written [of key "remote_subject (kt_integrationPublicId t) (fst it) (snd it)" x] remote t
              by (cases it) (simp add: put_remember_def key x service_remember_def remember_def or_failed_def
                  names_definition_def remote_subject_def)
          qed
        qed
      qed
    qed
  qed
qed

lemma put_remember_row:
  assumes "r \<in> set (db_approvals (snd (put_remember hex cd now u name scope session ttl db)))"
  shows "r \<in> set (db_approvals db)
    \<or> remembers hex cd (ar_user r) (ar_subject r) (ar_digest r) (ar_scope r) (ar_expires r)
        (Remember now u name scope session ttl) db"
proof (cases rule: put_remember_cases [of hex cd now u name scope session ttl db])
  case refused
  then show ?thesis using assms by simp
next
  case (written s key x)
  from assms have "r \<in> set (db_approvals (write_grant now u key s x db))" by (simp add: written(1))
  then consider "r \<in> set (db_approvals db)"
    | "ar_user r = u" "ar_subject r = os_subjectKey s" "ar_digest r = os_digest s" "ar_scope r = key" "ar_expires r = x"
    unfolding write_grant_def by (auto elim!: upsert_cases)
  then show ?thesis
  proof cases
    case 1
    then show ?thesis by simp
  next
    case 2
    then show ?thesis using written by (simp add: remembers_def)
  qed
qed

lemma delete_remembered_row:
  assumes "r \<in> set (db_approvals (snd (delete_remembered hex u name db)))"
  shows "r \<in> set (db_approvals db) \<and> \<not> (ar_user r = u \<and> names_subject hex db u name (ar_subject r))"
  using assms by (cases "isChatToolName name"; cases "resolve hex db u name")
    (auto simp: delete_remembered_def service_forget_def forget_def names_subject_def Let_def)

lemma put_override_tables [simp]:
  "db_approvals (snd (put_override hex cd u name m db)) = db_approvals db"
  "db_settings (snd (put_override hex cd u name m db)) = db_settings db"
  "db_users (snd (put_override hex cd u name m db)) = db_users db"
  "db_integrations (snd (put_override hex cd u name m db)) = db_integrations db"
  by (simp_all add: put_override_def service_override_def overrideChatTool_def overrideRemote_def split: option.split prod.split)

lemma put_overrides_tables [simp]:
  "db_approvals (snd (put_overrides u i names m db)) = db_approvals db"
  "db_settings (snd (put_overrides u i names m db)) = db_settings db"
  "db_users (snd (put_overrides u i names m db)) = db_users db"
  "db_integrations (snd (put_overrides u i names m db)) = db_integrations db"
  by (simp_all add: put_overrides_def overrideRemoteMany_def Let_def split: option.split)

lemma patch_integration_mode_tables [simp]:
  "db_approvals (snd (patch_integration_mode u i m db)) = db_approvals db"
  "db_overrides (snd (patch_integration_mode u i m db)) = db_overrides db"
  "db_users (snd (patch_integration_mode u i m db)) = db_users db"
  "db_integrations (snd (patch_integration_mode u i m db)) = db_integrations db"
  by (simp_all add: patch_integration_mode_def setIntegrationMode_def Let_def split: option.split)

lemma put_remember_tables [simp]:
  "db_overrides (snd (put_remember hex cd now u name scope session ttl db)) = db_overrides db"
  "db_settings (snd (put_remember hex cd now u name scope session ttl db)) = db_settings db"
  "db_users (snd (put_remember hex cd now u name scope session ttl db)) = db_users db"
  "db_integrations (snd (put_remember hex cd now u name scope session ttl db)) = db_integrations db"
  by (cases rule: put_remember_cases [of hex cd now u name scope session ttl db], simp, simp)+

lemma delete_remembered_tables [simp]:
  "db_overrides (snd (delete_remembered hex u name db)) = db_overrides db"
  "db_settings (snd (delete_remembered hex u name db)) = db_settings db"
  "db_users (snd (delete_remembered hex u name db)) = db_users db"
  "db_integrations (snd (delete_remembered hex u name db)) = db_integrations db"
  by (simp_all add: delete_remembered_def service_forget_def forget_def Let_def split: option.split prod.split)

lemma patch_user_tables [simp]:
  "db_approvals (snd (patch_user (update_user u f db) db)) = db_approvals db"
  "db_overrides (snd (patch_user (update_user u f db) db)) = db_overrides db"
  "db_settings (snd (patch_user (update_user u f db) db)) = db_settings db"
  "db_integrations (snd (patch_user (update_user u f db) db)) = db_integrations db"
  by (cases "find_user db u"; simp add: patch_user_def update_user_def or_failed_def)+

lemma grant_row_step:
  assumes "r \<in> set (db_approvals (snd (consent_step hex cd e db)))"
  shows "r \<in> set (db_approvals db) \<and> \<not> forgets hex (ar_user r) (ar_subject r) e db
    \<or> remembers hex cd (ar_user r) (ar_subject r) (ar_digest r) (ar_scope r) (ar_expires r) e db"
proof (cases e)
  case (Remember now u name scope session ttl)
  then show ?thesis using assms put_remember_row [of r hex cd now u name scope session ttl db] by (auto simp: forgets_def)
next
  case (Forget u name)
  then show ?thesis using assms delete_remembered_row [of r hex u name db] by (auto simp: forgets_def)
qed (use assms in \<open>simp_all add: forgets_def environment_def setMode_def setTtl_def\<close>)

lemma setting_row_step:
  assumes "r \<in> set (db_settings (snd (consent_step hex cd e db)))"
  shows "r \<in> set (db_settings db) \<and> \<not> resets_mode (se_user r) (se_integration r) e db
    \<or> sets_mode (se_user r) (se_integration r) (se_mode r) e db"
proof (cases e)
  case (Integration_mode u i setting)
  show ?thesis
  proof (cases "find_visible db u i")
    case None
    then show ?thesis using assms Integration_mode
      by (simp add: patch_integration_mode_def setIntegrationMode_def resets_mode_def)
  next
    case (Some row)
    show ?thesis
    proof (cases setting)
      case None
      then show ?thesis using assms Integration_mode Some
        by (auto simp: patch_integration_mode_def setIntegrationMode_def resets_mode_def Let_def)
    next
      case m: (Some m)
      from assms Integration_mode Some m
      have "r \<in> set (upsert (\<lambda>s. se_user s = u \<and> se_integration s = in_id row) (\<lambda>s. s\<lparr>se_mode := m\<rparr>)
          \<lparr>se_user = u, se_integration = in_id row, se_mode = m\<rparr> (db_settings db))"
        by (simp add: patch_integration_mode_def setIntegrationMode_def Let_def)
      then show ?thesis using Integration_mode Some m
        by (cases rule: upsert_cases) (auto simp: resets_mode_def sets_mode_def)
    qed
  qed
qed (use assms in \<open>simp_all add: resets_mode_def environment_def setMode_def setTtl_def\<close>)

lemma writeOverride_row:
  assumes "r \<in> set (db_overrides (writeOverride u s setting db))"
  shows "r \<in> set (db_overrides db) \<and> \<not> (ow_user r = u \<and> ow_subject r = os_subjectKey s)
    \<or> ow_user r = u \<and> ow_subject r = os_subjectKey s \<and> setting = Some (ow_mode r)
      \<and> ow_digest r = (if ow_mode r = Override_auto then Some (os_digest s) else None)"
proof (cases setting)
  case None
  then show ?thesis using assms by (auto simp: writeOverride_def)
next
  case (Some m)
  let ?digest = "if m = Override_auto then Some (os_digest s) else None"
  have "r \<in> set (upsert (\<lambda>r. ow_user r = u \<and> ow_subject r = os_subjectKey s)
      (\<lambda>r. r\<lparr>ow_mode := m, ow_digest := ?digest\<rparr>)
      \<lparr>ow_user = u, ow_subject = os_subjectKey s, ow_integration = os_integrationId s, ow_tool = os_toolName s,
       ow_mode = m, ow_digest = ?digest\<rparr> (db_overrides db))"
    using assms Some by (simp add: writeOverride_def Let_def)
  then show ?thesis
    by (cases rule: upsert_cases) (simp_all add: Some)
qed

lemma fold_writeOverride_row:
  assumes "r \<in> set (db_overrides (fold (\<lambda>t. writeOverride u (f t) setting) ts db))"
  shows "r \<in> set (db_overrides db) \<and> \<not> (ow_user r = u \<and> ow_subject r \<in> (os_subjectKey \<circ> f) ` set ts)
    \<or> (\<exists>t\<in>set ts. ow_user r = u \<and> ow_subject r = os_subjectKey (f t) \<and> setting = Some (ow_mode r)
      \<and> ow_digest r = (if ow_mode r = Override_auto then Some (os_digest (f t)) else None))"
  using assms
proof (induction ts arbitrary: db)
  case Nil
  then show ?case by simp
next
  case (Cons t ts)
  have "r \<in> set (db_overrides (fold (\<lambda>t. writeOverride u (f t) setting) ts (writeOverride u (f t) setting db)))"
    using Cons.prems by simp
  from Cons.IH [OF this] show ?case
  proof
    assume "r \<in> set (db_overrides (writeOverride u (f t) setting db))
      \<and> \<not> (ow_user r = u \<and> ow_subject r \<in> (os_subjectKey \<circ> f) ` set ts)"
    with writeOverride_row [of r u "f t" setting db] show ?thesis by auto
  next
    assume "\<exists>t\<in>set ts. ow_user r = u \<and> ow_subject r = os_subjectKey (f t) \<and> setting = Some (ow_mode r)
      \<and> ow_digest r = (if ow_mode r = Override_auto then Some (os_digest (f t)) else None)"
    then show ?thesis by (meson list.set_intros(2))
  qed
qed

lemma find_tool_visible:
  assumes "find_tool db u iid name = Some (i, t)"
  shows "find_visible db u iid = Some i" and "t \<in> set (in_tools i)" and "il_name t = name"
  using assms by (auto simp: find_tool_def bind_eq_Some_conv find_Some_iff)

lemma override_row_step:
  assumes "r \<in> set (db_overrides (snd (consent_step hex cd e db)))"
  shows "r \<in> set (db_overrides db) \<and> \<not> resets_override hex cd (ow_user r) (ow_subject r) e db
    \<or> overrides_with hex cd (ow_user r) (ow_subject r) (ow_mode r) (ow_digest r) e db"
proof (cases e)
  case (Override u name setting)
  show ?thesis
  proof (cases "isChatToolName name")
    case True
    show ?thesis
    proof (cases "policyFor name = Policy_askable")
      case askable: True
      have "r \<in> set (db_overrides (writeOverride u (chat_subject cd name) setting db))"
        using assms Override True askable by (simp add: put_override_def service_override_def overrideChatTool_def)
      from writeOverride_row [OF this] show ?thesis using Override True askable
        by (auto simp: chat_subject_def resets_override_def overrides_with_def names_definition_def)
    next
      case False
      then show ?thesis using assms Override True
        by (simp add: put_override_def service_override_def resets_override_def)
    qed
  next
    case remote: False
    show ?thesis
    proof (cases "Option.bind (resolve hex db u name) (\<lambda>t. find_tool db u (kt_integrationPublicId t) (kt_remoteName t))")
      case None
      then have "\<not> names_definition hex cd db u name s d" for s d
        using remote by (auto simp: names_definition_def bind_eq_None_conv split: option.split)
      moreover have "db_overrides (snd (put_override hex cd u name setting db)) = db_overrides db"
        using None remote by (auto simp: put_override_def service_override_def overrideRemote_def bind_eq_None_conv split: option.split)
      ultimately show ?thesis using assms Override by (simp add: resets_override_def)
    next
      case (Some it)
      obtain i tool where it: "it = (i, tool)" by (cases it)
      obtain t where t: "resolve hex db u name = Some t" "find_tool db u (kt_integrationPublicId t) (kt_remoteName t) = Some (i, tool)"
        using Some it by (auto simp: bind_eq_Some_conv)
      have "r \<in> set (db_overrides (writeOverride u (remote_subject (kt_integrationPublicId t) i tool) setting db))"
        using assms Override remote t by (simp add: put_override_def service_override_def overrideRemote_def)
      from writeOverride_row [OF this] show ?thesis using Override remote t
        by (auto simp: remote_subject_def resets_override_def overrides_with_def names_definition_def)
    qed
  qed
next
  case (Override_many u iid names setting)
  show ?thesis
  proof (cases "find_visible db u iid")
    case None
    then show ?thesis using assms Override_many
      by (simp add: put_overrides_def overrideRemoteMany_def resets_override_def bulk_names_def)
  next
    case (Some i)
    let ?tools = "filter (\<lambda>t. il_name t \<in> set names) (in_tools i)"
    show ?thesis
    proof (cases "length ?tools = length (js_set names)")
      case True
      have "r \<in> set (db_overrides (fold (\<lambda>t. writeOverride u (remote_subject iid i t) setting) ?tools db))"
        using assms Override_many Some True by (simp add: put_overrides_def overrideRemoteMany_def Let_def)
      from fold_writeOverride_row [OF this] show ?thesis
      proof
        assume kept: "r \<in> set (db_overrides db) \<and> \<not> (ow_user r = u \<and> ow_subject r \<in> (os_subjectKey \<circ> remote_subject iid i) ` set ?tools)"
        then have "\<not> resets_override hex cd (ow_user r) (ow_subject r) e db"
          using Override_many Some by (auto simp: resets_override_def bulk_names_def list_ex_iff remote_subject_def image_iff)
        then show ?thesis using kept by simp
      next
        assume "\<exists>t\<in>set ?tools. ow_user r = u \<and> ow_subject r = os_subjectKey (remote_subject iid i t) \<and> setting = Some (ow_mode r)
          \<and> ow_digest r = (if ow_mode r = Override_auto then Some (os_digest (remote_subject iid i t)) else None)"
        then show ?thesis using Override_many Some True
          by (auto simp: overrides_with_def bulk_names_def list_ex_iff remote_subject_def)
      qed
    next
      case False
      then show ?thesis using assms Override_many Some
        by (simp add: put_overrides_def overrideRemoteMany_def resets_override_def bulk_names_def Let_def)
    qed
  qed
qed (use assms in \<open>simp_all add: resets_override_def environment_def setMode_def setTtl_def\<close>)

end
