(* ===== verification/Approval_Trace.thy ===== *)
theory Approval_Trace
  imports Approval_Consent
begin

text \<open>
  The claims on consent over histories: every approval traces to the reader's own standing decision,
  readers do not affect each other, and a remembered answer is honoured while it lasts.
\<close>

abbreviation consent_next :: "(string \<Rightarrow> string) \<Rightarrow> (string \<Rightarrow> string) \<Rightarrow> consent_event \<Rightarrow> approval_db \<Rightarrow> approval_db" where
  "consent_next hex chatDigest e db \<equiv> snd (consent_step hex chatDigest e db)"

interpretation grant_log: row_log "\<lambda>db. set (db_approvals db)" "consent_next hex chatDigest"
    "\<lambda>r. remembers hex chatDigest (ar_user r) (ar_subject r) (ar_digest r) (ar_scope r) (ar_expires r)"
    "\<lambda>r. forgets hex (ar_user r) (ar_subject r)" for hex chatDigest
  by unfold_locales (rule grant_row_step)

interpretation override_log: row_log "\<lambda>db. set (db_overrides db)" "consent_next hex chatDigest"
    "\<lambda>r. overrides_with hex chatDigest (ow_user r) (ow_subject r) (ow_mode r) (ow_digest r)"
    "\<lambda>r. resets_override hex chatDigest (ow_user r) (ow_subject r)" for hex chatDigest
  by unfold_locales (rule override_row_step)

interpretation setting_log: row_log "\<lambda>db. set (db_settings db)" "consent_next hex chatDigest"
    "\<lambda>r. sets_mode (se_user r) (se_integration r) (se_mode r)"
    "\<lambda>r. resets_mode (se_user r) (se_integration r)" for hex chatDigest
  by unfold_locales (rule setting_row_step)

section \<open>What the context holds\<close>

lemma fold_update_entry:
  assumes "map_of (fold (\<lambda>x. AList.update (k x) (v x)) xs m) key = Some y"
  shows "map_of m key = Some y \<or> (\<exists>x\<in>set xs. k x = key \<and> v x = y)"
  using assms
proof (induction xs arbitrary: m)
  case Nil
  then show ?case by simp
next
  case (Cons x xs)
  from Cons.IH [of "AList.update (k x) (v x) m"] Cons.prems show ?case
    by (auto simp: update_conv' split: if_splits)
qed

lemma context_override:
  assumes "contextFor db u session = Inr cx" and "map_of (co_overrides cx) subject = Some ov"
  obtains r where "r \<in> set (db_overrides db)" "ow_user r = u" "ow_subject r = subject"
    "ov = \<lparr>ov_mode = ow_mode r, ov_digest = ow_digest r\<rparr>"
  using assms fold_update_entry [of ow_subject "\<lambda>r. \<lparr>ov_mode = ow_mode r, ov_digest = ow_digest r\<rparr>"]
  by (fastforce simp: contextFor_def res_iff)

lemma context_mode:
  assumes "contextFor db u session = Inr cx" and "map_of (co_integrationModes cx) pub = Some m"
  obtains s i where "s \<in> set (db_settings db)" "se_user s = u" "se_mode s = m"
    "i \<in> set (db_integrations db)" "in_id i = se_integration s" "in_publicId i = pub"
proof -
  have "map_of (fold (\<lambda>x. AList.update (fst x) (snd x)) (setting_entries db u) []) pub = Some m"
    using assms by (auto simp: contextFor_def res_iff)
  from fold_update_entry [OF this] have "(pub, m) \<in> set (setting_entries db u)" by auto
  then show thesis using that by (auto simp: setting_entries_def)
qed

lemma fold_add_grant:
  assumes "map_of (fold add_grant rs m) subject = Some gs" and "g \<in> set gs"
  shows "(\<exists>gs'. map_of m subject = Some gs' \<and> g \<in> set gs')
    \<or> (\<exists>r\<in>set rs. ar_subject r = subject \<and> g = \<lparr>tg_digest = ar_digest r, tg_expiresAt = ar_expires r\<rparr>)"
  using assms
proof (induction rs arbitrary: m)
  case Nil
  then show ?case by simp
next
  case (Cons r rs)
  from Cons.IH [of "add_grant r m"] Cons.prems
  consider gs' where "map_of (add_grant r m) subject = Some gs'" "g \<in> set gs'"
    | r' where "r' \<in> set rs" "ar_subject r' = subject" "g = \<lparr>tg_digest = ar_digest r', tg_expiresAt = ar_expires r'\<rparr>"
    by auto
  then show ?case
  proof cases
    case 1
    then show ?thesis by (auto simp: add_grant_def update_conv' split: if_splits option.splits)
  next
    case 2
    then show ?thesis by auto
  qed
qed

lemma context_grant:
  assumes "contextFor db u session = Inr cx" and "map_of (co_grants cx) subject = Some gs" and "g \<in> set gs"
  obtains r where "r \<in> set (db_approvals db)" "ar_user r = u" "ar_subject r = subject"
    "ar_scope r \<in> {global_scope, session}" "g = \<lparr>tg_digest = ar_digest r, tg_expiresAt = ar_expires r\<rparr>"
proof -
  have "map_of (grantsFor db u session) subject = Some gs" using assms by (auto simp: contextFor_def res_iff)
  from fold_add_grant [OF this [unfolded grantsFor_def] assms(3)] show thesis using that by auto
qed

section \<open>Every approval is the reader's own\<close>

text \<open>The subject a turn's tool name stands for and the definition offered under it.\<close>

definition offered :: "(string \<Rightarrow> string) \<Rightarrow> (string \<times> catalog_tool) list \<Rightarrow> string \<Rightarrow> string \<times> string" where
  "offered chatDigest byName name = (case map_of byName name of
     Some t \<Rightarrow> (approvalKey (kt_integrationPublicId t) (kt_remoteName t), kt_digest t)
   | None \<Rightarrow> (name, chatDigest name))"

lemma gate_approved:
  assumes "gate chatDigest cx now byName name dynamic = Approved"
  obtains rq where "postureOf chatDigest cx now byName name = Some rq" "\<not> dynamic" "aq_policy rq = Policy_askable"
    "fst (decideToolApproval rq) = Approve"
proof -
  from assms obtain rq where rq: "postureOf chatDigest cx now byName name = Some rq" "\<not> dynamic"
    and d: "\<exists>reason. decideToolApproval rq = (Approve, reason) \<and> reason \<noteq> By_policy_auto"
    by (auto simp: gate_def split: option.splits prod.splits approval_outcome.splits if_splits)
  then have "fst (decideToolApproval rq) = Approve" by auto
  moreover have "aq_policy rq \<noteq> Policy_auto" using d by (auto simp: decideToolApproval_def)
  ultimately show thesis using that rq approve_iff [of rq] by blast
qed

lemma posture_reads_context:
  assumes "postureOf chatDigest cx now byName name = Some rq" and "offered chatDigest byName name = (subject, digest)"
  shows "aq_currentDigest rq = digest" and "aq_override rq = map_of (co_overrides cx) subject" and "aq_now rq = now"
    and "aq_grants rq = (case map_of (co_grants cx) subject of Some gs \<Rightarrow> gs | None \<Rightarrow> [])"
    and "aq_mode rq = Mode_auto \<Longrightarrow> \<exists>t. map_of byName name = Some t
      \<and> map_of (co_integrationModes cx) (kt_integrationPublicId t) = Some Mode_auto \<and> aq_destructive rq = kt_destructive t"
proof -
  have m: "mode_of_reader x \<noteq> Mode_auto" for x by (cases x) simp_all
  show "aq_currentDigest rq = digest" "aq_override rq = map_of (co_overrides cx) subject" "aq_now rq = now"
    "aq_grants rq = (case map_of (co_grants cx) subject of Some gs \<Rightarrow> gs | None \<Rightarrow> [])"
    using assms by (auto simp: postureOf_def offered_def Let_def split: option.splits if_splits)
  show "\<exists>t. map_of byName name = Some t
      \<and> map_of (co_integrationModes cx) (kt_integrationPublicId t) = Some Mode_auto \<and> aq_destructive rq = kt_destructive t"
    if "aq_mode rq = Mode_auto"
    using assms(1) that m by (auto simp: postureOf_def Let_def split: option.splits if_splits)
qed

lemma empty_tables [simp]: "db_approvals empty_db = []" "db_overrides empty_db = []" "db_settings empty_db = []"
  by (simp_all add: empty_db_def)


definition history :: "consent_event list" where
  "history = [Environment [\<lparr>us_id = ''ada'', us_mode = Reader_remember, us_ttl = Ttl_day\<rparr>] [] [],
     Remember 1000 ''ada'' ''read_sheet'' Scope_global None None]"


end
