(* ===== verification/Approval_Readers.thy ===== *)
theory Approval_Readers
  imports Approval_Trace
begin

text \<open>
  One reader's requests do not reach another reader's gate, and a remembered answer is honoured while
  its grant lasts and the definition stands.
\<close>

section \<open>Readers are separate\<close>

fun actor :: "consent_event \<Rightarrow> string option" where
  "actor (Remember now u name scope session ttl) = Some u"
| "actor (Override u name setting) = Some u"
| "actor (Override_many u integrationId names setting) = Some u"
| "actor (Forget u name) = Some u"
| "actor (Integration_mode u integrationId setting) = Some u"
| "actor (Reader_mode u mode) = Some u"
| "actor (Reader_ttl u ttl) = Some u"
| "actor (Environment users sessions integrations) = None"

lemma filter_upsert_other:
  assumes "\<And>r. key r \<Longrightarrow> \<not> P r" and "\<And>r. key r \<Longrightarrow> \<not> P (change r)" and "\<not> P new"
  shows "filter P (upsert key change new rows) = filter P rows"
proof -
  have "filter P (map (\<lambda>r. if key r then change r else r) rows) = filter P rows"
    using assms by (induction rows) auto
  then show ?thesis using assms(3) by (simp add: upsert_def)
qed

lemma filter_filter_other: "(\<And>r. P r \<Longrightarrow> Q r) \<Longrightarrow> filter P (filter Q xs) = filter P xs"
  by (induction xs) auto

lemma writeOverride_other:
  assumes "v \<noteq> u"
  shows "filter (\<lambda>r. ow_user r = u) (db_overrides (writeOverride v s m db)) = filter (\<lambda>r. ow_user r = u) (db_overrides db)"
proof (cases m)
  case None
  then show ?thesis using assms by (auto simp: writeOverride_def intro!: filter_cong)
next
  case (Some x)
  have "filter (\<lambda>r. ow_user r = u) (upsert (\<lambda>r. ow_user r = v \<and> ow_subject r = os_subjectKey s)
      (\<lambda>r. r\<lparr>ow_mode := x, ow_digest := d\<rparr>)
      \<lparr>ow_user = v, ow_subject = os_subjectKey s, ow_integration = os_integrationId s, ow_tool = os_toolName s,
       ow_mode = x, ow_digest = d\<rparr> (db_overrides db)) = filter (\<lambda>r. ow_user r = u) (db_overrides db)" for d
    by (rule filter_upsert_other) (use assms in auto)
  then show ?thesis using Some by (simp add: writeOverride_def Let_def)
qed

lemma fold_writeOverride_other:
  assumes "v \<noteq> u"
  shows "filter (\<lambda>r. ow_user r = u) (db_overrides (fold (\<lambda>t. writeOverride v (f t) m) ts db))
    = filter (\<lambda>r. ow_user r = u) (db_overrides db)"
  using assms by (induction ts arbitrary: db) (simp_all add: writeOverride_other)

lemma other_overrides:
  assumes "actor e = Some v" and "v \<noteq> u"
  shows "filter (\<lambda>r. ow_user r = u) (db_overrides (consent_next hex cd e db)) = filter (\<lambda>r. ow_user r = u) (db_overrides db)"
proof (cases e)
  case (Override w name setting)
  then show ?thesis using assms by (auto simp: put_override_def service_override_def overrideChatTool_def overrideRemote_def
      writeOverride_other split: option.split prod.split)
next
  case (Override_many w iid names setting)
  then show ?thesis using assms by (auto simp: put_overrides_def overrideRemoteMany_def Let_def
      fold_writeOverride_other split: option.split)
qed (use assms in \<open>simp_all add: setMode_def setTtl_def\<close>)

lemma write_grant_other:
  assumes "v \<noteq> u"
  shows "filter (\<lambda>r. ar_user r = u \<and> Q r) (db_approvals (write_grant now v k s x db)) = filter (\<lambda>r. ar_user r = u \<and> Q r) (db_approvals db)"
  using assms by (simp add: write_grant_def) (rule filter_upsert_other; auto)

lemma other_approvals:
  assumes "actor e = Some v" and "v \<noteq> u"
  shows "filter (\<lambda>r. ar_user r = u \<and> Q r) (db_approvals (consent_next hex cd e db)) = filter (\<lambda>r. ar_user r = u \<and> Q r) (db_approvals db)"
proof (cases e)
  case (Remember now w name scope session ttl)
  show ?thesis
    by (cases rule: put_remember_cases [of hex cd now w name scope session ttl db])
      (use assms Remember in \<open>simp_all add: write_grant_other\<close>)
next
  case (Forget w name)
  then show ?thesis using assms by (auto simp: delete_remembered_def service_forget_def forget_def Let_def
      intro!: filter_cong split: option.split)
qed (use assms in \<open>simp_all add: setMode_def setTtl_def\<close>)

lemma other_settings:
  assumes "actor e = Some v" and "v \<noteq> u"
  shows "filter (\<lambda>r. se_user r = u) (db_settings (consent_next hex cd e db)) = filter (\<lambda>r. se_user r = u) (db_settings db)"
proof (cases e)
  case (Integration_mode w iid setting)
  show ?thesis
  proof (cases "find_visible db w iid")
    case None
    then show ?thesis using Integration_mode by (simp add: patch_integration_mode_def setIntegrationMode_def)
  next
    case (Some i)
    show ?thesis
    proof (cases setting)
      case None
      then show ?thesis using Integration_mode Some assms
        by (auto simp: patch_integration_mode_def setIntegrationMode_def Let_def intro!: filter_cong)
    next
      case m: (Some m)
      show ?thesis using Integration_mode Some m assms
        by (simp add: patch_integration_mode_def setIntegrationMode_def Let_def) (rule filter_upsert_other; auto)
    qed
  qed
qed (use assms in \<open>simp_all add: setMode_def setTtl_def\<close>)

lemma find_map_other:
  assumes "\<And>r. us_id (f r) = us_id r" and "v \<noteq> u"
  shows "List.find (\<lambda>r. us_id r = u) (map (\<lambda>r. if us_id r = v then f r else r) us) = List.find (\<lambda>r. us_id r = u) us"
  using assms by (induction us) auto

lemma update_user_other:
  assumes "\<And>r. us_id (f r) = us_id r" and "v \<noteq> u"
  shows "find_user (snd (patch_user (update_user v f db) db)) u = find_user db u"
  using find_map_other [OF assms]
  by (cases "find_user db v") (simp_all add: patch_user_def update_user_def or_failed_def find_user_def)

lemma other_user:
  assumes "actor e = Some v" and "v \<noteq> u"
  shows "find_user (consent_next hex cd e db) u = find_user db u"
proof (cases e)
  case (Reader_mode w mode)
  then show ?thesis using assms update_user_other [of "\<lambda>r. r\<lparr>us_mode := mode\<rparr>" v u db] by (simp add: setMode_def)
next
  case (Reader_ttl w ttl)
  then show ?thesis using assms update_user_other [of "\<lambda>r. r\<lparr>us_ttl := ttl\<rparr>" v u db] by (simp add: setTtl_def)
qed (use assms in \<open>simp_all add: find_user_def\<close>)

lemma other_integrations:
  assumes "actor e = Some v"
  shows "db_integrations (consent_next hex cd e db) = db_integrations db"
  using assms by (cases e) (simp_all add: setMode_def setTtl_def)

lemma other_context:
  assumes "actor e = Some v" and "v \<noteq> u"
  shows "contextFor (consent_next hex chatDigest e db) u session = contextFor db u session"
  by (simp only: contextFor_def modeFor_def setting_entries_def grantsFor_def other_user [OF assms] other_integrations [OF assms(1)] other_settings [OF assms]
      other_overrides [OF assms] other_approvals [OF assms])

text \<open>
  C16: whatever another reader asks for - to remember, override, forget or trust anything, under any
  name, in any conversation - the gate of this reader's next turn is the same function.
\<close>

theorem readers_are_separate:
  assumes "actor e = Some v" and "v \<noteq> u"
  shows "gateFor chatDigest (consent_next hex chatDigest e db) u session now byName = gateFor chatDigest db u session now byName"
  by (simp only: gateFor_def other_context [OF assms])

lemma readers_are_separate_witness:
  "gateFor (\<lambda>_. ''d'') (consent_next (\<lambda>_. ''h'') (\<lambda>_. ''d'') (Remember 0 ''eve'' ''read_sheet'' Scope_global None (Some Ttl_never))
      (consent_run (\<lambda>_. ''h'') (\<lambda>_. ''d'') history empty_db)) ''ada'' ''s'' 5 []
    = gateFor (\<lambda>_. ''d'') (consent_run (\<lambda>_. ''h'') (\<lambda>_. ''d'') history empty_db) ''ada'' ''s'' 5 []"
  by (rule readers_are_separate [of _ "''eve''"]) simp_all

section \<open>A remembered answer is honoured\<close>

text \<open>The unique keys of the integration and integration-tool tables.\<close>

definition unique_rows :: "approval_db \<Rightarrow> bool" where
  "unique_rows db = (distinct (map in_publicId (db_integrations db))
     \<and> list_all (\<lambda>i. distinct (map il_name (in_tools i))) (db_integrations db))"

lemma first_placed:
  "map_of (fst (fold (place_tool hex) ts (m, c))) name = (case map_of m name of Some t \<Rightarrow> Some t
     | None \<Rightarrow> List.find (\<lambda>t. exposedToolNameFor hex (kt_integrationPublicId t) (kt_remoteName t) = name) ts)"
proof (induction ts arbitrary: m c)
  case Nil
  then show ?case by (simp split: option.split)
next
  case (Cons t ts)
  then show ?case
    by (auto simp: place_tool_def Let_def update_conv' split: option.split)
qed

lemma turn_names_resolve: "map_of (fst (resolveToolNames hex (catalogFor u db))) name = resolve hex db u name"
  by (simp add: resolveToolNames_def first_placed resolve_def)

lemma catalog_tool_source:
  assumes "resolve hex db u name = Some t"
  obtains i tool where "i \<in> set (db_integrations db)" "visibleToUser u None i" "tool \<in> set (in_tools i)"
    "kt_integrationPublicId t = in_publicId i" "kt_remoteName t = il_name tool" "kt_digest t = il_digest tool"
proof -
  have "t \<in> set (catalogFor u db)" using assms by (auto simp: resolve_def find_Some_iff)
  then show thesis using that by (auto simp: catalogFor_def catalog_row_def)
qed

lemma find_unique:
  assumes "distinct (map f xs)" and "x \<in> set xs" and "P x" and "\<And>y. P y \<Longrightarrow> f y = f x"
  shows "List.find P xs = Some x"
proof -
  obtain y where y: "List.find P xs = Some y" using assms(2,3) by (cases "List.find P xs") (auto simp: find_None_iff)
  then have "y \<in> set xs" "P y" by (auto simp: find_Some_iff)
  then have "y = x" using assms by (metis inj_on_eq_iff distinct_map)
  then show ?thesis using y by simp
qed

lemma offered_is_stored:
  assumes "unique_rows db" and "resolve hex db u name = Some t"
  obtains i tool where "find_tool db u (kt_integrationPublicId t) (kt_remoteName t) = Some (i, tool)"
    "il_name tool = kt_remoteName t" "il_digest tool = kt_digest t"
proof -
  obtain i tool where it: "i \<in> set (db_integrations db)" "visibleToUser u None i" "tool \<in> set (in_tools i)"
    "kt_integrationPublicId t = in_publicId i" "kt_remoteName t = il_name tool" "kt_digest t = il_digest tool"
    by (rule catalog_tool_source [OF assms(2)])
  have "find_visible db u (in_publicId i) = Some i" unfolding find_visible_def
    by (rule find_unique [of in_publicId]) (use assms(1) it in \<open>auto simp: unique_rows_def visibleToUser_def\<close>)
  moreover have "List.find (\<lambda>t. il_name t = il_name tool) (in_tools i) = Some tool"
    by (rule find_unique [of il_name]) (use assms(1) it in \<open>auto simp: unique_rows_def list_all_iff\<close>)
  ultimately show thesis using that it by (simp add: find_tool_def)
qed

lemma fold_add_grant_keeps:
  assumes "map_of m subject = Some gs" and "g \<in> set gs"
  shows "\<exists>gs'. map_of (fold add_grant rs m) subject = Some gs' \<and> g \<in> set gs'"
  using assms
proof (induction rs arbitrary: m gs)
  case Nil
  then show ?case by simp
next
  case (Cons r rs)
  have "\<exists>gs'. map_of (add_grant r m) subject = Some gs' \<and> g \<in> set gs'"
    using Cons.prems by (auto simp: add_grant_def update_conv')
  then show ?case using Cons.IH [of "add_grant r m"] by auto
qed

lemma fold_add_grant_has:
  assumes "r \<in> set rs"
  shows "\<exists>gs. map_of (fold add_grant rs m) (ar_subject r) = Some gs \<and> \<lparr>tg_digest = ar_digest r, tg_expiresAt = ar_expires r\<rparr> \<in> set gs"
  using assms
proof (induction rs arbitrary: m)
  case Nil
  then show ?case by simp
next
  case (Cons q rs)
  show ?case
  proof (cases "r = q")
    case True
    have "\<exists>gs. map_of (add_grant q m) (ar_subject q) = Some gs \<and> \<lparr>tg_digest = ar_digest q, tg_expiresAt = ar_expires q\<rparr> \<in> set gs"
      by (auto simp: add_grant_def update_conv')
    then show ?thesis using True fold_add_grant_keeps [of "add_grant q m"] by auto
  next
    case False
    then show ?thesis using Cons by simp
  qed
qed

lemma scope_reaches:
  assumes "scopeKeyFor db u scope asked = Some key" and "scope = Scope_global \<or> asked = Some session"
  shows "key \<in> {global_scope, session}"
  using assms by (cases scope) (auto simp: scopeKeyFor_def find_Some_iff)

lemma written_grant_held:
  assumes "key \<in> {global_scope, session}"
  shows "\<exists>gs. map_of (grantsFor (write_grant now u key s x db) u session) (os_subjectKey s) = Some gs
    \<and> \<lparr>tg_digest = os_digest s, tg_expiresAt = x\<rparr> \<in> set gs"
proof -
  let ?key = "\<lambda>r. ar_user r = u \<and> ar_subject r = os_subjectKey s \<and> ar_scope r = key"
  let ?db = "write_grant now u key s x db"
  obtain r where r: "r \<in> set (db_approvals ?db)" "?key r" "ar_digest r = os_digest s" "ar_expires r = x"
  proof (cases "list_ex ?key (db_approvals db)")
    case True
    then obtain q where "q \<in> set (db_approvals db)" "?key q" by (auto simp: list_ex_iff)
    then show ?thesis
      using that [of "q\<lparr>ar_digest := os_digest s, ar_expires := x, ar_updated := now\<rparr>"] True
      by (auto simp: write_grant_def upsert_def intro!: image_eqI [of _ _ q])
  next
    case False
    show ?thesis by (rule that) (use False in \<open>auto simp: write_grant_def upsert_def\<close>)
  qed
  then have "r \<in> set (filter (\<lambda>r. ar_user r = u \<and> ar_scope r \<in> {global_scope, session}) (db_approvals ?db))"
    using assms by simp
  from fold_add_grant_has [OF this, of "[]"] show ?thesis using r unfolding grantsFor_def by simp
qed

lemma chat_name_not_exposed: "isChatToolName (exposedToolNameFor hex i remote) \<Longrightarrow> False"
proof -
  have "hd (exposedToolNameFor hex i remote) = CHR ''i''" by (simp add: exposedToolNameFor_def Let_def)
  moreover have "list_all (\<lambda>n. hd n \<noteq> CHR ''i'') chat_tool_names" by code_simp
  ultimately show "isChatToolName (exposedToolNameFor hex i remote) \<Longrightarrow> False" by (auto simp: isChatToolName_def list_all_iff)
qed

lemma written_is_offered:
  assumes "unique_rows db" and "names_definition hex cd db u name subject digest"
  shows "offered cd (fst (resolveToolNames hex (catalogFor u db))) name = (subject, digest)"
proof (cases "isChatToolName name")
  case True
  have "resolve hex db u name = None"
  proof (cases "resolve hex db u name")
    case (Some t)
    then have "exposedToolNameFor hex (kt_integrationPublicId t) (kt_remoteName t) = name" by (auto simp: resolve_def find_Some_iff)
    then show ?thesis using True chat_name_not_exposed by metis
  qed
  then show ?thesis using assms(2) True by (simp add: offered_def turn_names_resolve names_definition_def)
next
  case False
  then obtain t i tool where t: "resolve hex db u name = Some t" "find_tool db u (kt_integrationPublicId t) (kt_remoteName t) = Some (i, tool)"
    and named: "subject = approvalKey (kt_integrationPublicId t) (il_name tool)" "digest = il_digest tool"
    using assms(2) by (auto simp: names_definition_def split: option.splits prod.splits)
  obtain i' tool' where "find_tool db u (kt_integrationPublicId t) (kt_remoteName t) = Some (i', tool')"
    "il_name tool' = kt_remoteName t" "il_digest tool' = kt_digest t" by (rule offered_is_stored [OF assms(1) t(1)])
  then show ?thesis using t named by (simp add: offered_def turn_names_resolve)
qed


definition ada_db :: approval_db where
  "ada_db = consent_run (\<lambda>_. ''h'') (\<lambda>_. ''d'') history empty_db"


text \<open>
  A grant for a tool whose policy is fixed is recorded although the decision never reads it: the same
  request as an override is refused with \<open>tool_policy_fixed\<close>.
\<close>

lemma fixed_policy_grant_recorded:
  "fst (put_remember (\<lambda>_. ''h'') (\<lambda>_. ''d'') 3000 ''ada'' ''codex_task'' Scope_global None None ada_db) = No_content"
  "map (al_toolName \<circ> ap_row) (service_listChatTools (\<lambda>_. ''d'') 3500
      (snd (put_remember (\<lambda>_. ''h'') (\<lambda>_. ''d'') 3000 ''ada'' ''codex_task'' Scope_global None None ada_db)) ''ada'')
    = [''read_sheet'', ''codex_task'']"
  "fst (put_override (\<lambda>_. ''h'') (\<lambda>_. ''d'') ''ada'' ''codex_task'' (Some Override_auto) ada_db) = Tool_policy_fixed"
  by code_simp+

end
