(* ===== verification/Sheet_Cells.thy ===== *)
theory Sheet_Cells
  imports Cell_Range Json_Value
begin

text \<open>
  Cell values of the spreadsheet server and the conditions a query puts on them:
  \<open>packages/servers/excel-mcp/src/grid/predicate.ts\<close> and the value types of \<open>grid/cell-value.ts\<close>.

  A number is a \<open>jsnum\<close>, whose shortest decimal orders it as the double it stands for. What HOL does not
  compute is in \<open>sheet_env\<close>: Unicode folding and canonical form, \<open>Number(text)\<close>, and the rounded arithmetic
  of doubles. An error is its code; the sentences are left out.
\<close>

datatype sheet_error = Range_error range_code | Numeric_overflow | Invalid_argument | Resource_limit | Unknown_column
  | Ambiguous_column | Unknown_header_row | Ambiguous_header_row | Empty_sheet | Invalid_cursor | Stale_cursor
  | Internal_error | Sheet_file_too_large | Undecodable_text | Ambiguous_delimiter | Corrupt_workbook

definition of_range :: "excel_error + 'a \<Rightarrow> sheet_error + 'a" where
  "of_range r = (case r of Inl (code, message, recovery) \<Rightarrow> Inl (Range_error code) | Inr x \<Rightarrow> Inr x)"

section \<open>Values\<close>

datatype cell_scalar = Cell_null | Cell_number jsnum | Cell_boolean bool | Cell_text string | Cell_error string

fun cell_js :: "cell_scalar \<Rightarrow> js" where
  "cell_js Cell_null = JNull"
| "cell_js (Cell_number n) = JNum n"
| "cell_js (Cell_boolean b) = JBool b"
| "cell_js (Cell_text s) = JStr s"
| "cell_js (Cell_error e) = JObj [(''error'', JStr e)]"

definition cell_json :: "cell_scalar \<Rightarrow> string" where
  "cell_json v = (case json_text (cell_js v) of Some t \<Rightarrow> t | None \<Rightarrow> [])"

record sheet_env =
  en_fold :: "string \<Rightarrow> string"
  en_canonical :: "string \<Rightarrow> string"
  en_number :: "string \<Rightarrow> jsnum"
  en_add :: "jsnum \<Rightarrow> jsnum \<Rightarrow> jsnum"
  en_subtract :: "jsnum \<Rightarrow> jsnum \<Rightarrow> jsnum"
  en_multiply :: "jsnum \<Rightarrow> jsnum \<Rightarrow> jsnum"
  en_divide :: "jsnum \<Rightarrow> jsnum \<Rightarrow> jsnum"
  en_sqrt :: "jsnum \<Rightarrow> jsnum"

text \<open>The order of doubles; \<open>NaN\<close> is neither less than nor equal to anything.\<close>

definition scaled :: "int \<Rightarrow> bool \<Rightarrow> nat \<Rightarrow> int \<Rightarrow> int" where
  "scaled m neg s e = (if neg then - 1 else 1) * int s * 10 ^ nat (e - m)"

fun num_less :: "jsnum \<Rightarrow> jsnum \<Rightarrow> bool" where
  "num_less NaN b = False"
| "num_less a NaN = False"
| "num_less (Infinite neg) (Infinite neg') = (neg \<and> \<not> neg')"
| "num_less (Infinite neg) (Dec n s e) = neg"
| "num_less (Dec n s e) (Infinite neg) = (\<not> neg)"
| "num_less (Dec n s e) (Dec n' s' e') = (let m = min e e' in scaled m n s e < scaled m n' s' e')"

fun num_eq :: "jsnum \<Rightarrow> jsnum \<Rightarrow> bool" where
  "num_eq (Infinite neg) (Infinite neg') = (neg = neg')"
| "num_eq (Dec n s e) (Dec n' s' e') = (let m = min e e' in scaled m n s e = scaled m n' s' e')"
| "num_eq a b = False"

fun num_abs :: "jsnum \<Rightarrow> jsnum" where
  "num_abs NaN = NaN"
| "num_abs (Infinite neg) = Infinite False"
| "num_abs (Dec neg s e) = Dec False s e"

section \<open>Kinds\<close>

datatype cell_kind = Kind_number | Kind_date | Kind_text | Kind_boolean | Kind_error | Kind_empty

fun kind_rank :: "cell_kind \<Rightarrow> int" where
  "kind_rank Kind_number = 0"
| "kind_rank Kind_date = 1"
| "kind_rank Kind_text = 2"
| "kind_rank Kind_boolean = 3"
| "kind_rank Kind_error = 4"
| "kind_rank Kind_empty = 5"

text \<open>The shape of \<open>isoDate\<close>: a zero stands for any digit.\<close>

definition has_shape :: "string \<Rightarrow> string \<Rightarrow> bool" where
  "has_shape pat s = list_all2 (\<lambda>p c. if p = CHR ''0'' then isAsciiDigit c else c = p) pat s"

definition isoDate :: "string \<Rightarrow> bool" where
  "isoDate s = (has_shape ''0000-00-00'' s \<or> has_shape ''0000-00-00T00:00:00.000Z'' s)"

text \<open>\<open>numericText\<close>: sign, digits with a point among or before them, exponent.\<close>

definition drop_sign :: "string \<Rightarrow> string" where
  "drop_sign s = (case s of c # cs \<Rightarrow> if c = CHR ''+'' \<or> c = CHR ''-'' then cs else s | [] \<Rightarrow> [])"

definition exponent_part :: "string \<Rightarrow> bool" where
  "exponent_part s = (case s of [] \<Rightarrow> True
     | c # cs \<Rightarrow> (c = CHR ''e'' \<or> c = CHR ''E'') \<and> drop_sign cs \<noteq> [] \<and> list_all isAsciiDigit (drop_sign cs))"

definition numericText :: "string \<Rightarrow> bool" where
  "numericText text =
     (let s = drop_sign text; ds = takeWhile isAsciiDigit s; rest = dropWhile isAsciiDigit s
      in if ds \<noteq> []
         then exponent_part (case rest of c # cs \<Rightarrow> if c = CHR ''.'' then dropWhile isAsciiDigit cs else rest | [] \<Rightarrow> [])
         else (case rest of c # cs \<Rightarrow> c = CHR ''.'' \<and> takeWhile isAsciiDigit cs \<noteq> [] \<and> exponent_part (dropWhile isAsciiDigit cs)
           | [] \<Rightarrow> False))"

fun classify :: "cell_scalar \<Rightarrow> cell_kind" where
  "classify Cell_null = Kind_empty"
| "classify (Cell_number n) = Kind_number"
| "classify (Cell_boolean b) = Kind_boolean"
| "classify (Cell_error e) = Kind_error"
| "classify (Cell_text s) = (if isoDate s then Kind_date else Kind_text)"

fun isNumericText :: "cell_scalar \<Rightarrow> bool" where
  "isNumericText (Cell_text s) = numericText (trim s)"
| "isNumericText v = False"

definition coerceNumber :: "sheet_env \<Rightarrow> cell_scalar \<Rightarrow> sheet_error + jsnum option" where
  "coerceNumber env v = (case v of
     Cell_number n \<Rightarrow> if num_is_finite n then Inr (Some n) else Inl Numeric_overflow
   | Cell_text s \<Rightarrow> if isNumericText v
       then (if num_is_finite (en_number env s) then Inr (Some (en_number env s)) else Inl Numeric_overflow) else Inr None
   | _ \<Rightarrow> Inr None)"

text \<open>The number a numeric text stands for, the value itself otherwise.\<close>

definition coerced :: "sheet_env \<Rightarrow> cell_scalar \<Rightarrow> sheet_error + cell_scalar" where
  "coerced env v = res_map (\<lambda>n. case n of Some x \<Rightarrow> Cell_number x | None \<Rightarrow> v) (coerceNumber env v)"

section \<open>Order within a kind\<close>

definition expandDate :: "string \<Rightarrow> string" where
  "expandDate s = (if length s = 10 then s @ ''T00:00:00.000Z'' else s)"

datatype comparable_kind = As_number | As_date | As_text

fun comparable :: "cell_kind \<Rightarrow> comparable_kind option" where
  "comparable Kind_number = Some As_number"
| "comparable Kind_date = Some As_date"
| "comparable Kind_text = Some As_text"
| "comparable _ = None"

definition text_of_cell :: "cell_scalar \<Rightarrow> string" where
  "text_of_cell v = (case v of Cell_text s \<Rightarrow> s | _ \<Rightarrow> [])"

definition order_text :: "sheet_env \<Rightarrow> comparable_kind \<Rightarrow> bool \<Rightarrow> cell_scalar \<Rightarrow> string" where
  "order_text env kind caseSensitive v =
     (if kind = As_date then expandDate (text_of_cell v)
      else if caseSensitive then text_of_cell v else en_fold env (text_of_cell v))"

definition compareWithin :: "sheet_env \<Rightarrow> comparable_kind \<Rightarrow> cell_scalar \<Rightarrow> cell_scalar \<Rightarrow> bool \<Rightarrow> int" where
  "compareWithin env kind left right caseSensitive = (case (kind, left, right) of
     (As_number, Cell_number a, Cell_number b) \<Rightarrow> if num_eq a b then 0 else if num_less a b then -1 else 1
   | _ \<Rightarrow> (let a = order_text env kind caseSensitive left; b = order_text env kind caseSensitive right
       in if a = b then 0 else if a < b then -1 else 1))"

section \<open>Conditions\<close>

datatype operator = Op_eq | Op_ne | Op_lt | Op_lte | Op_gt | Op_gte | Op_contains | Op_startsWith | Op_endsWith
  | Op_in | Op_between | Op_isEmpty | Op_isNotEmpty | Op_isError | Op_isNumber | Op_isText

text \<open>An operand is a text, a number or a boolean.\<close>

record pred_condition =
  pc_column :: string
  pc_op :: operator
  pc_value :: "cell_scalar option"
  pc_values :: "cell_scalar list option"

record predicate_options =
  po_caseSensitive :: bool
  po_coerceText :: bool

definition orderingOperators :: "operator list" where "orderingOperators = [Op_lt, Op_lte, Op_gt, Op_gte]"
definition textOperators :: "operator list" where "textOperators = [Op_contains, Op_startsWith, Op_endsWith]"
definition nullaryOperators :: "operator list" where "nullaryOperators = [Op_isEmpty, Op_isNotEmpty, Op_isNumber, Op_isText]"

definition values_of :: "pred_condition \<Rightarrow> cell_scalar list" where
  "values_of c = (case pc_values c of None \<Rightarrow> [] | Some vs \<Rightarrow> vs)"

definition requireOperand :: "pred_condition \<Rightarrow> sheet_error + cell_scalar" where
  "requireOperand c = (case pc_value c of None \<Rightarrow> Inl Invalid_argument | Some v \<Rightarrow> Inr v)"

definition comparableKindOf :: "cell_scalar \<Rightarrow> sheet_error + comparable_kind" where
  "comparableKindOf operand = (case comparable (classify operand) of Some k \<Rightarrow> Inr k | None \<Rightarrow> Inl Invalid_argument)"

definition finite_operand :: "cell_scalar \<Rightarrow> bool" where
  "finite_operand v = (case v of Cell_number n \<Rightarrow> num_is_finite n | _ \<Rightarrow> True)"

definition is_text_cell :: "cell_scalar \<Rightarrow> bool" where
  "is_text_cell v = (case v of Cell_text s \<Rightarrow> True | _ \<Rightarrow> False)"

definition validate_between :: "sheet_env \<Rightarrow> bool \<Rightarrow> cell_scalar list option \<Rightarrow> sheet_error + unit" where
  "validate_between env caseSensitive pair = (case pair of
     Some [low, high] \<Rightarrow> res_bind (comparableKindOf low) (\<lambda>kind. res_bind (comparableKindOf high) (\<lambda>kind'.
       throw_if (kind \<noteq> kind' \<or> compareWithin env kind low high caseSensitive > 0) Invalid_argument))
   | _ \<Rightarrow> Inl Invalid_argument)"

definition validateCondition :: "sheet_env \<Rightarrow> pred_condition \<Rightarrow> bool \<Rightarrow> sheet_error + unit" where
  "validateCondition env c caseSensitive =
     (if \<not> list_all finite_operand ((case pc_value c of None \<Rightarrow> [] | Some v \<Rightarrow> [v]) @ values_of c) then Inl Invalid_argument
      else if pc_op c \<in> set nullaryOperators \<or> pc_op c = Op_isError then Inr ()
      else if pc_op c = Op_in then throw_if (values_of c = []) Invalid_argument
      else if pc_op c = Op_between then validate_between env caseSensitive (pc_values c)
      else res_bind (requireOperand c) (\<lambda>operand.
        res_bind (if pc_op c \<in> set orderingOperators then res_map (\<lambda>_. ()) (comparableKindOf operand) else Inr ()) (\<lambda>_.
          throw_if (pc_op c \<in> set textOperators \<and> \<not> is_text_cell operand) Invalid_argument)))"

definition folded :: "sheet_env \<Rightarrow> bool \<Rightarrow> string \<Rightarrow> string" where
  "folded env caseSensitive s = (if caseSensitive then s else en_fold env s)"

definition contains_text :: "string \<Rightarrow> string \<Rightarrow> bool" where
  "contains_text haystack needle = sublist needle haystack"

text \<open>\<open>value === operand\<close> for operands of the kind of the value that are neither text nor date.\<close>

definition strictly_same :: "cell_scalar \<Rightarrow> cell_scalar \<Rightarrow> bool" where
  "strictly_same v w = (case (v, w) of
     (Cell_number a, Cell_number b) \<Rightarrow> num_eq a b
   | (Cell_boolean a, Cell_boolean b) \<Rightarrow> a = b
   | _ \<Rightarrow> False)"

definition same_value :: "sheet_env \<Rightarrow> bool \<Rightarrow> cell_scalar \<Rightarrow> cell_scalar \<Rightarrow> bool" where
  "same_value env caseSensitive v operand = (classify v = classify operand \<and> (case classify v of
     Kind_text \<Rightarrow> compareWithin env As_text v operand caseSensitive = 0
   | Kind_date \<Rightarrow> compareWithin env As_date v operand caseSensitive = 0
   | _ \<Rightarrow> strictly_same v operand))"

definition text_test :: "sheet_env \<Rightarrow> operator \<Rightarrow> bool \<Rightarrow> cell_scalar \<Rightarrow> cell_scalar \<Rightarrow> bool" where
  "text_test env op caseSensitive v operand =
     (if classify v \<noteq> Kind_text \<and> classify v \<noteq> Kind_date then False
      else (let haystack = folded env caseSensitive (text_of_cell v); needle = folded env caseSensitive (text_of_cell operand)
        in if op = Op_contains then contains_text haystack needle
           else if op = Op_startsWith then prefix needle haystack else suffix needle haystack))"

definition order_test :: "operator \<Rightarrow> int \<Rightarrow> bool" where
  "order_test op order = (if op = Op_lt then order < 0 else if op = Op_lte then order \<le> 0
     else if op = Op_gt then order > 0 else order \<ge> 0)"

definition evaluate :: "sheet_env \<Rightarrow> pred_condition \<Rightarrow> cell_scalar \<Rightarrow> predicate_options \<Rightarrow> sheet_error + bool" where
  "evaluate env c cell options =
     res_bind (if po_coerceText options \<and> isNumericText cell then coerced env cell else Inr cell) (\<lambda>v.
       let kind = classify v; cs = po_caseSensitive options in (case pc_op c of
         Op_isEmpty \<Rightarrow> Inr (kind = Kind_empty)
       | Op_isNotEmpty \<Rightarrow> Inr (kind \<noteq> Kind_empty)
       | Op_isError \<Rightarrow> Inr (kind = Kind_error \<and> (case pc_value c of None \<Rightarrow> True | Some w \<Rightarrow> (case (v, w) of (Cell_error e, Cell_text t) \<Rightarrow> e = t | _ \<Rightarrow> False)))
       | Op_isNumber \<Rightarrow> Inr (kind = Kind_number)
       | Op_isText \<Rightarrow> Inr (kind = Kind_text)
       | Op_in \<Rightarrow> Inr (list_ex (same_value env cs v) (values_of c))
       | Op_between \<Rightarrow> (case values_of c of
             low # high # rest \<Rightarrow> res_map (\<lambda>bound. comparable kind = Some bound
               \<and> compareWithin env bound v low cs \<ge> 0 \<and> compareWithin env bound v high cs \<le> 0) (comparableKindOf low)
           | _ \<Rightarrow> Inl Invalid_argument)
       | op \<Rightarrow> res_bind (requireOperand c) (\<lambda>operand.
           if op \<in> set textOperators then Inr (text_test env op cs v operand)
           else if op = Op_eq then Inr (same_value env cs v operand)
           else if op = Op_ne then Inr (\<not> same_value env cs v operand)
           else res_map (\<lambda>bound. comparable kind = Some bound \<and> order_test op (compareWithin env bound v operand cs))
             (comparableKindOf operand))))"

section \<open>Census\<close>

record census =
  cn_numbers :: nat
  cn_dates :: nat
  cn_texts :: nat
  cn_booleans :: nat
  cn_errors :: nat
  cn_nulls :: nat
  cn_numericTexts :: nat

definition emptyCensus :: census where
  "emptyCensus = \<lparr>cn_numbers = 0, cn_dates = 0, cn_texts = 0, cn_booleans = 0, cn_errors = 0, cn_nulls = 0, cn_numericTexts = 0\<rparr>"

definition record_cell :: "census \<Rightarrow> cell_scalar \<Rightarrow> census" where
  "record_cell c v = (case classify v of
     Kind_number \<Rightarrow> c\<lparr>cn_numbers := cn_numbers c + 1\<rparr>
   | Kind_date \<Rightarrow> c\<lparr>cn_dates := cn_dates c + 1\<rparr>
   | Kind_text \<Rightarrow> c\<lparr>cn_texts := cn_texts c + 1, cn_numericTexts := cn_numericTexts c + (if isNumericText v then 1 else 0)\<rparr>
   | Kind_boolean \<Rightarrow> c\<lparr>cn_booleans := cn_booleans c + 1\<rparr>
   | Kind_error \<Rightarrow> c\<lparr>cn_errors := cn_errors c + 1\<rparr>
   | Kind_empty \<Rightarrow> c\<lparr>cn_nulls := cn_nulls c + 1\<rparr>)"

definition reportCensus :: "census \<Rightarrow> (string \<times> nat) list" where
  "reportCensus c = filter (\<lambda>p. snd p > 0) [(''numbers'', cn_numbers c), (''dates'', cn_dates c), (''texts'', cn_texts c),
     (''booleans'', cn_booleans c), (''errors'', cn_errors c), (''nulls'', cn_nulls c), (''numericTexts'', cn_numericTexts c)]"

definition majorityKind :: "census \<Rightarrow> comparable_kind" where
  "majorityKind c = (let best = (if cn_dates c > cn_numbers c then (As_date, cn_dates c) else (As_number, cn_numbers c))
     in if cn_texts c > snd best then As_text else fst best)"

end
