(* ===== verification/Sheet_View.thy ===== *)
theory Sheet_View
  imports Sheet_Cells
begin

text \<open>
  Sheets as the queries read them: \<open>grid/cell-value.ts\<close> (what a cell shows), \<open>grid/sheet.ts\<close> (the interface
  of a sheet), and its two providers, \<open>csvSheetView\<close> of \<open>format/csv.ts\<close> and \<open>sheetjsSheetView\<close> of
  \<open>format/sheetjs-workbook.ts\<close> with the cells of \<open>format/sheetjs-cell.ts\<close>.

  The locale \<open>sheet_reader\<close> is what the queries rely on: the rows and columns a sheet reports are ascending,
  inside the span, and a cell it does not report shows nothing. Both providers are interpretations.
  The merged provider reads cells turned into snapshots beforehand; the code turns them lazily, so that it
  refuses a number that is not finite only when the cell is read.
\<close>

section \<open>What a cell shows\<close>

datatype value_mode = Mode_values | Mode_formulas | Mode_both

datatype merge_policy = Merge_master | Merge_repeat

record cell_facts =
  fa_value :: cell_scalar
  fa_href :: "string option"

record cell_snapshot =
  sn_merged :: bool
  sn_value :: cell_facts
  sn_formula :: "string option"
  sn_cached :: "cell_facts option"
  sn_numberFormat :: "string option"

datatype cell_note = Note_formula string bool "nat option" | Note_hyperlink string "nat option" | Note_truncated nat

definition maxStringChars :: nat where "maxStringChars = 512"

text \<open>Code units below 256 are never half of a pair.\<close>

definition truncateWellFormed :: "string \<Rightarrow> nat \<Rightarrow> string" where
  "truncateWellFormed s limit = (if length s \<le> limit then s else take limit s)"

definition clamp :: "cell_scalar \<Rightarrow> cell_scalar \<times> nat option" where
  "clamp v = (case v of
     Cell_text s \<Rightarrow> if length s \<le> maxStringChars then (v, None) else (Cell_text (truncateWellFormed s maxStringChars), Some (length s))
   | _ \<Rightarrow> (v, None))"

definition presentScalar :: "cell_scalar \<Rightarrow> cell_scalar" where
  "presentScalar v = fst (clamp v)"

record normalize_options =
  no_valueMode :: value_mode
  no_mergePolicy :: merge_policy
  no_includeHyperlinks :: bool

definition noteOf :: "cell_facts \<Rightarrow> nat option \<Rightarrow> normalize_options \<Rightarrow> cell_note option" where
  "noteOf facts truncatedFrom options = (case fa_href facts of
     Some href \<Rightarrow> if no_includeHyperlinks options then Some (Note_hyperlink href truncatedFrom) else map_option Note_truncated truncatedFrom
   | None \<Rightarrow> map_option Note_truncated truncatedFrom)"

definition present_cell :: "cell_facts \<Rightarrow> normalize_options \<Rightarrow> cell_scalar \<times> cell_note option" where
  "present_cell facts options = (case clamp (fa_value facts) of (v, truncatedFrom) \<Rightarrow> (v, noteOf facts truncatedFrom options))"

definition formula_of :: "cell_snapshot \<Rightarrow> string option" where
  "formula_of s = (case sn_formula s of None \<Rightarrow> None | Some f \<Rightarrow> if f = [] then None else Some f)"

definition resolveCell :: "cell_snapshot \<Rightarrow> value_mode \<Rightarrow> merge_policy \<Rightarrow> cell_scalar" where
  "resolveCell s mode policy =
     (if sn_merged s \<and> policy = Merge_master then Cell_null
      else (case formula_of s of
          None \<Rightarrow> fa_value (sn_value s)
        | Some f \<Rightarrow> if mode = Mode_formulas then Cell_text (''='' @ f)
            else (case sn_cached s of None \<Rightarrow> Cell_null | Some facts \<Rightarrow> fa_value facts)))"

definition isUncachedFormula :: "cell_snapshot \<Rightarrow> bool" where
  "isUncachedFormula s = (formula_of s \<noteq> None \<and> sn_cached s = None)"

definition normalizeCell :: "cell_snapshot \<Rightarrow> normalize_options \<Rightarrow> cell_scalar \<times> cell_note option" where
  "normalizeCell s options =
     (if sn_merged s \<and> no_mergePolicy options = Merge_master then (Cell_null, None)
      else (case formula_of s of
          None \<Rightarrow> present_cell (sn_value s) options
        | Some f \<Rightarrow>
            if no_valueMode options = Mode_formulas then (Cell_text (''='' @ f), None)
            else (case sn_cached s of
                None \<Rightarrow> (Cell_null, Some (Note_formula (''='' @ f) False None))
              | Some facts \<Rightarrow> if no_valueMode options = Mode_both
                  then (case clamp (fa_value facts) of (v, truncatedFrom) \<Rightarrow> (v, Some (Note_formula (''='' @ f) True truncatedFrom)))
                  else present_cell facts options)))"

section \<open>Sheets\<close>

record declared_table =
  dt_name :: string
  dt_ref :: string
  dt_headerRow :: bool
  dt_columns :: "string option list"

record row_view =
  rw_cellAt :: "nat \<Rightarrow> cell_snapshot option"
  rw_populatedColumns :: "nat \<Rightarrow> nat \<Rightarrow> bool \<Rightarrow> nat list"

record sheet_view =
  sv_name :: string
  sv_bounds :: "grid_bounds option"
  sv_merges :: "string list"
  sv_tables :: "declared_table list"
  sv_autoFilter :: "string option"
  sv_rowAt :: "nat \<Rightarrow> row_view option"
  sv_populatedRows :: "nat \<Rightarrow> nat \<Rightarrow> bool \<Rightarrow> nat list"

definition requireSheetBounds :: "sheet_view \<Rightarrow> sheet_error + grid_bounds" where
  "requireSheetBounds sheet = (case sv_bounds sheet of None \<Rightarrow> Inl Empty_sheet | Some b \<Rightarrow> Inr b)"

definition snapshot_at :: "row_view option \<Rightarrow> nat \<Rightarrow> cell_snapshot option" where
  "snapshot_at view column = Option.bind view (\<lambda>v. rw_cellAt v column)"

text \<open>\<open>items[index - 1]\<close> for a one-based index.\<close>

definition item_at :: "'a list \<Rightarrow> nat \<Rightarrow> 'a option" where
  "item_at xs i = (if 1 \<le> i \<and> i \<le> length xs then Some (xs ! (i - 1)) else None)"

definition presentIndices :: "'a option list \<Rightarrow> nat \<Rightarrow> nat \<Rightarrow> nat list" where
  "presentIndices items first final =
     filter (\<lambda>i. items ! (i - 1) \<noteq> None) [max first 1..<Suc (min final (length items))]"

section \<open>The interface\<close>

definition ascending :: "nat list \<Rightarrow> bool" where
  "ascending xs = sorted_wrt (<) xs"

text \<open>A snapshot that a query of the policy sees as an empty cell.\<close>

definition covered_only :: "bool \<Rightarrow> cell_snapshot option \<Rightarrow> bool" where
  "covered_only withCovered s = (case s of None \<Rightarrow> True | Some x \<Rightarrow> sn_merged x \<and> \<not> withCovered)"

locale sheet_reader =
  fixes view :: sheet_view
  assumes rows_ascending: "ascending (sv_populatedRows view first final covered)"
    and rows_within: "r \<in> set (sv_populatedRows view first final covered) \<Longrightarrow> first \<le> r \<and> r \<le> final"
    and rows_complete: "first \<le> r \<Longrightarrow> r \<le> final \<Longrightarrow> r \<notin> set (sv_populatedRows view first final covered)
      \<Longrightarrow> covered_only covered (snapshot_at (sv_rowAt view r) c)"
    and columns_ascending: "sv_rowAt view r = Some v \<Longrightarrow> ascending (rw_populatedColumns v first final covered)"
    and columns_within: "sv_rowAt view r = Some v \<Longrightarrow> c \<in> set (rw_populatedColumns v first final covered)
      \<Longrightarrow> first \<le> c \<and> c \<le> final"
    and columns_complete: "sv_rowAt view r = Some v \<Longrightarrow> first \<le> c \<Longrightarrow> c \<le> final
      \<Longrightarrow> c \<notin> set (rw_populatedColumns v first final covered) \<Longrightarrow> covered_only covered (rw_cellAt v c)"
begin

text \<open>Under a policy that repeats exactly when covered cells are reported, an unreported row is empty.\<close>

lemma unreported_row_empty:
  assumes "first \<le> r" and "r \<le> final" and "r \<notin> set (sv_populatedRows view first final (policy = Merge_repeat))"
    and "snapshot_at (sv_rowAt view r) c = Some s"
  shows "resolveCell s mode policy = Cell_null \<and> sn_merged s \<and> policy = Merge_master"
  using rows_complete [OF assms(1-3), of c] assms(4)
  by (cases policy) (auto simp: covered_only_def resolveCell_def)

lemma unreported_column_empty:
  assumes "sv_rowAt view r = Some v" and "first \<le> c" and "c \<le> final"
    and "c \<notin> set (rw_populatedColumns v first final (policy = Merge_repeat))" and "rw_cellAt v c = Some s"
  shows "resolveCell s mode policy = Cell_null \<and> sn_merged s \<and> policy = Merge_master"
  using columns_complete [OF assms(1-4)] assms(5) by (cases policy) (auto simp: covered_only_def resolveCell_def)

lemma reported_rows_few: "length (sv_populatedRows view first final covered) \<le> Suc final - first"
proof -
  have d: "distinct (sv_populatedRows view first final covered)"
    using rows_ascending [of first final covered] by (simp add: ascending_def strict_sorted_iff)
  have "set (sv_populatedRows view first final covered) \<subseteq> {first..final}" using rows_within by auto
  from card_mono [OF _ this] show ?thesis using d by (simp add: distinct_card)
qed

end

section \<open>Delimited text\<close>

definition csv_row :: "string list \<Rightarrow> row_view" where
  "csv_row record_fields = \<lparr>rw_cellAt = (\<lambda>column. map_option (\<lambda>f. \<lparr>sn_merged = False,
       sn_value = \<lparr>fa_value = Cell_text f, fa_href = None\<rparr>, sn_formula = None, sn_cached = None, sn_numberFormat = None\<rparr>)
       (item_at record_fields column)),
     rw_populatedColumns = (\<lambda>first final covered. presentIndices (map Some record_fields) first final)\<rparr>"

definition csvSheetView :: "string list list \<Rightarrow> grid_bounds option \<Rightarrow> sheet_view" where
  "csvSheetView rows bounds = \<lparr>sv_name = ''csv'', sv_bounds = bounds, sv_merges = [], sv_tables = [], sv_autoFilter = None,
     sv_rowAt = (\<lambda>row. map_option csv_row (item_at rows row)),
     sv_populatedRows = (\<lambda>first final covered. presentIndices (map Some rows) first final)\<rparr>"

section \<open>Workbooks\<close>

datatype sheetjs_value = Js_text string | Js_number jsnum | Js_boolean bool | Js_date string

text \<open>\<open>Js_date\<close> carries \<open>toISOString()\<close>; \<open>sj_w\<close> is the formatted text and \<open>sj_link\<close> the target of a hyperlink.\<close>

record sheetjs_cell =
  sj_t :: "string option"
  sj_v :: "sheetjs_value option"
  sj_w :: "string option"
  sj_f :: "string option"
  sj_z :: "string option"
  sj_link :: "string option"

definition errorText :: "jsnum \<Rightarrow> string option" where
  "errorText n = map_of (map (\<lambda>(k, s). (number_text (Dec False k 0), s))
     [(0x00, ''#NULL!''), (0x07, ''#DIV/0!''), (0x0f, ''#VALUE!''), (0x17, ''#REF!''), (0x1d, ''#NAME?''), (0x24, ''#NUM!''),
      (0x2a, ''#N/A''), (0x2b, ''#GETTING_DATA'')]) (number_text n)"

text \<open>The quoted and the bracketed parts of a number format are dropped from left to right.\<close>

fun drop_delimited :: "char \<Rightarrow> char \<Rightarrow> nat \<Rightarrow> string \<Rightarrow> string" where
  "drop_delimited opening closing skip [] = []"
| "drop_delimited opening closing (Suc n) (c # s) = drop_delimited opening closing n s"
| "drop_delimited opening closing 0 (c # s) =
     (if c = opening \<and> closing \<in> set s then drop_delimited opening closing (Suc (length (takeWhile (\<lambda>d. d \<noteq> closing) s))) s
      else c # drop_delimited opening closing 0 s)"

definition hasTimeToken :: "string option \<Rightarrow> bool" where
  "hasTimeToken numberFormat = (case numberFormat of None \<Rightarrow> False
     | Some f \<Rightarrow> list_ex (\<lambda>c. c \<in> set ''hHsS'') (drop_delimited (CHR ''['') (CHR '']'') 0
         (drop_delimited (CHR 0x22) (CHR 0x22) 0 f)))"

definition formatDate :: "string \<Rightarrow> string option \<Rightarrow> string" where
  "formatDate stamp numberFormat =
     (if suffix ''T00:00:00.000Z'' stamp \<and> \<not> hasTimeToken numberFormat then take 10 stamp else stamp)"

definition factsOf :: "sheetjs_cell \<Rightarrow> sheet_error + cell_scalar" where
  "factsOf cell =
     (if sj_t cell = Some ''z'' then Inr Cell_null
      else if sj_t cell = Some ''e'' then
        Inr (Cell_error (case sj_w cell of Some w \<Rightarrow> w
          | None \<Rightarrow> (case sj_v cell of Some (Js_number n) \<Rightarrow> (case errorText n of Some s \<Rightarrow> s | None \<Rightarrow> ''#ERROR!'') | _ \<Rightarrow> ''#ERROR!'')))
      else (case sj_v cell of
          None \<Rightarrow> Inr Cell_null
        | Some (Js_date stamp) \<Rightarrow> Inr (Cell_text (formatDate stamp (sj_z cell)))
        | Some (Js_number n) \<Rightarrow> if num_is_finite n then Inr (Cell_number n) else Inl Numeric_overflow
        | Some (Js_boolean b) \<Rightarrow> Inr (Cell_boolean b)
        | Some (Js_text s) \<Rightarrow> Inr (Cell_text s)))"

definition sheetjsSnapshot :: "sheetjs_cell \<Rightarrow> bool \<Rightarrow> sheet_error + cell_snapshot" where
  "sheetjsSnapshot cell merged = res_map (\<lambda>v.
     let facts = \<lparr>fa_value = v, fa_href = sj_link cell\<rparr> in
     (if sj_f cell = None \<or> sj_f cell = Some []
      then \<lparr>sn_merged = merged, sn_value = facts, sn_formula = None, sn_cached = None, sn_numberFormat = sj_z cell\<rparr>
      else \<lparr>sn_merged = merged, sn_value = \<lparr>fa_value = Cell_null, fa_href = None\<rparr>, sn_formula = sj_f cell,
        sn_cached = (if sj_t cell = Some ''z'' \<or> sj_v cell = None \<and> sj_t cell \<noteq> Some ''e'' then None else Some facts),
        sn_numberFormat = sj_z cell\<rparr>)) (factsOf cell)"

record merge_range =
  mg_top :: nat
  mg_left :: nat
  mg_bottom :: nat
  mg_right :: nat
  mg_ref :: string

type_synonym 'cell grid = "'cell option list option list"

type_synonym dense_rows = "cell_snapshot grid"

definition stored_row :: "'cell grid \<Rightarrow> nat \<Rightarrow> 'cell option list" where
  "stored_row rows row = (case item_at rows row of Some (Some cells) \<Rightarrow> cells | _ \<Rightarrow> [])"

definition stored_cell :: "'cell grid \<Rightarrow> nat \<Rightarrow> nat \<Rightarrow> 'cell option" where
  "stored_cell rows row column = (case item_at (stored_row rows row) column of Some cell \<Rightarrow> cell | None \<Rightarrow> None)"

definition repeated :: "nat list \<Rightarrow> (nat \<times> nat) list \<Rightarrow> nat \<Rightarrow> nat \<Rightarrow> nat list" where
  "repeated stored ranges first final =
     (if ranges = [] then stored
      else sort (js_set (stored @ concat (map (\<lambda>(lo, hi). [max first lo..<Suc (min final hi)]) ranges))))"

definition withMaster :: "dense_rows \<Rightarrow> merge_range \<Rightarrow> bool" where
  "withMaster rows m = (stored_cell rows (mg_top m) (mg_left m) \<noteq> None)"

definition covering :: "merge_range list \<Rightarrow> nat \<Rightarrow> merge_range list" where
  "covering merges row = filter (\<lambda>m. mg_top m \<le> row \<and> row \<le> mg_bottom m) merges"

definition grid_row :: "dense_rows \<Rightarrow> merge_range list \<Rightarrow> nat \<Rightarrow> row_view" where
  "grid_row rows merges row = \<lparr>
     rw_cellAt = (\<lambda>column.
       (case List.find (\<lambda>m. mg_left m \<le> column \<and> column \<le> mg_right m) (covering merges row) of
          Some m \<Rightarrow> map_option (\<lambda>master. master\<lparr>sn_merged := \<not> (mg_top m = row \<and> mg_left m = column)\<rparr>)
            (stored_cell rows (mg_top m) (mg_left m))
        | None \<Rightarrow> map_option (\<lambda>cell. cell\<lparr>sn_merged := False\<rparr>) (stored_cell rows row column))),
     rw_populatedColumns = (\<lambda>first final covered.
       (let stored = presentIndices (stored_row rows row) first final
        in if covered then repeated stored (map (\<lambda>m. (mg_left m, mg_right m)) (filter (withMaster rows) (covering merges row))) first final
           else stored))\<rparr>"

definition sheetjsSheetView :: "string \<Rightarrow> grid_bounds option \<Rightarrow> dense_rows \<Rightarrow> merge_range list \<Rightarrow> declared_table list
    \<Rightarrow> string option \<Rightarrow> sheet_view" where
  "sheetjsSheetView name bounds rows merges tables autoFilter = \<lparr>sv_name = name, sv_bounds = bounds,
     sv_merges = map mg_ref merges, sv_tables = tables, sv_autoFilter = autoFilter,
     sv_rowAt = (\<lambda>row. Some (grid_row rows merges row)),
     sv_populatedRows = (\<lambda>first final covered.
       (let stored = presentIndices rows first final
        in if covered then repeated stored (map (\<lambda>m. (mg_top m, mg_bottom m)) (filter (withMaster rows) merges)) first final
           else stored))\<rparr>"

text \<open>\<open>boundsOf\<close>: the smallest rectangle that holds every cell with a value.\<close>

definition carriesValue :: "sheetjs_cell option \<Rightarrow> bool" where
  "carriesValue cell = (case cell of None \<Rightarrow> False | Some c \<Rightarrow> sj_f c \<noteq> None \<or> sj_t c \<noteq> Some ''z'' \<and> sj_v c \<noteq> None)"

definition widen :: "nat \<Rightarrow> grid_bounds option \<Rightarrow> nat \<Rightarrow> grid_bounds option" where
  "widen row b column = (case b of
     None \<Rightarrow> Some \<lparr>gb_top = row, gb_left = column, gb_bottom = row, gb_right = column\<rparr>
   | Some g \<Rightarrow> Some \<lparr>gb_top = gb_top g, gb_left = min (gb_left g) column, gb_bottom = row, gb_right = max (gb_right g) column\<rparr>)"

definition boundsOf :: "sheetjs_cell grid \<Rightarrow> grid_bounds option" where
  "boundsOf rows = fold (\<lambda>row b. fold (\<lambda>column b. if carriesValue (stored_cell rows row column) then widen row b column else b)
     [1..<Suc (length (stored_row rows row))] b) [1..<Suc (length rows)] None"

definition load_row :: "sheetjs_cell option list \<Rightarrow> sheet_error + cell_snapshot option list" where
  "load_row cells = traverse (\<lambda>c. case c of None \<Rightarrow> Inr None | Some x \<Rightarrow> res_map Some (sheetjsSnapshot x False)) cells"

definition load_rows :: "sheetjs_cell grid \<Rightarrow> sheet_error + dense_rows" where
  "load_rows rows = traverse (\<lambda>r. case r of None \<Rightarrow> Inr None | Some cells \<Rightarrow> res_map Some (load_row cells)) rows"

section \<open>Both providers satisfy the interface\<close>

lemma ascending_presentIndices: "ascending (presentIndices items first final)"
  unfolding ascending_def presentIndices_def by (rule sorted_wrt_filter) (simp del: upt_Suc)

lemma set_presentIndices:
  "i \<in> set (presentIndices items first final) \<longleftrightarrow> first \<le> i \<and> i \<le> final \<and> (\<exists>x. item_at items i = Some (Some x))"
  by (auto simp: presentIndices_def item_at_def)

lemma ascending_repeated: "ascending stored \<Longrightarrow> ascending (repeated stored ranges first final)"
  by (simp add: repeated_def ascending_def strict_sorted_iff)

lemma set_repeated:
  "i \<in> set (repeated stored ranges first final) \<longleftrightarrow> i \<in> set stored
     \<or> (\<exists>lo hi. (lo, hi) \<in> set ranges \<and> lo \<le> i \<and> i \<le> hi \<and> first \<le> i \<and> i \<le> final)"
proof (cases "ranges = []")
  case False
  have "i \<in> set (concat (map (\<lambda>(lo, hi). [max first lo..<Suc (min final hi)]) ranges))
    \<longleftrightarrow> (\<exists>lo hi. (lo, hi) \<in> set ranges \<and> lo \<le> i \<and> i \<le> hi \<and> first \<le> i \<and> i \<le> final)"
  proof (induction ranges)
    case (Cons p ranges)
    obtain a b where p: "p = (a, b)" by (cases p)
    have "i \<in> set [max first a..<Suc (min final b)] \<longleftrightarrow> a \<le> i \<and> i \<le> b \<and> first \<le> i \<and> i \<le> final"
      by (auto simp: less_Suc_eq_le simp del: upt_Suc)
    then show ?case using Cons by (auto simp: p simp del: upt_Suc)
  qed simp
  then show ?thesis using False by (simp add: repeated_def)
qed (simp add: repeated_def)

interpretation csv_reader: sheet_reader "csvSheetView rows bounds" for rows bounds
proof unfold_locales
  fix r first final covered c v
  show "ascending (sv_populatedRows (csvSheetView rows bounds) first final covered)"
    by (simp add: csvSheetView_def ascending_presentIndices)
  show "first \<le> r \<and> r \<le> final" if "r \<in> set (sv_populatedRows (csvSheetView rows bounds) first final covered)"
    using that by (simp add: csvSheetView_def set_presentIndices)
  show "covered_only covered (snapshot_at (sv_rowAt (csvSheetView rows bounds) r) c)"
    if "first \<le> r" "r \<le> final" "r \<notin> set (sv_populatedRows (csvSheetView rows bounds) first final covered)"
    using that by (auto simp: csvSheetView_def set_presentIndices covered_only_def snapshot_at_def item_at_def)
  assume v: "sv_rowAt (csvSheetView rows bounds) r = Some v"
  then obtain fs where fs: "v = csv_row fs" by (auto simp: csvSheetView_def)
  show "ascending (rw_populatedColumns v first final covered)" by (simp add: fs csv_row_def ascending_presentIndices)
  show "first \<le> c \<and> c \<le> final" if "c \<in> set (rw_populatedColumns v first final covered)"
    using that by (simp add: fs csv_row_def set_presentIndices)
  show "covered_only covered (rw_cellAt v c)"
    if "first \<le> c" "c \<le> final" "c \<notin> set (rw_populatedColumns v first final covered)"
    using that by (auto simp: fs csv_row_def set_presentIndices covered_only_def item_at_def)
qed

lemma stored_cell_iff:
  "stored_cell rows r c = Some x \<longleftrightarrow> item_at (stored_row rows r) c = Some (Some x)"
  by (auto simp: stored_cell_def split: option.split)

lemma stored_row_present: "stored_cell rows r c = Some x \<Longrightarrow> \<exists>cells. item_at rows r = Some (Some cells)"
  by (auto simp: stored_cell_def stored_row_def item_at_def split: option.splits if_splits)

lemma grid_cell_cases:
  assumes "rw_cellAt (grid_row rows merges r) c = Some s"
  obtains (merged) m where "m \<in> set merges" "mg_top m \<le> r" "r \<le> mg_bottom m" "mg_left m \<le> c" "c \<le> mg_right m"
      "withMaster rows m" "sn_merged s \<longleftrightarrow> \<not> (mg_top m = r \<and> mg_left m = c)"
    | (plain) x where "stored_cell rows r c = Some x"
proof (cases "List.find (\<lambda>m. mg_left m \<le> c \<and> c \<le> mg_right m) (covering merges r)")
  case None
  then show ?thesis using assms plain by (auto simp: grid_row_def)
next
  case (Some m)
  then have "m \<in> set (covering merges r)" "mg_left m \<le> c" "c \<le> mg_right m" by (auto simp: find_Some_iff)
  then show ?thesis using assms Some merged [of m] by (auto simp: grid_row_def covering_def withMaster_def)
qed

lemma master_stored: "withMaster rows m \<Longrightarrow> \<exists>x. stored_cell rows (mg_top m) (mg_left m) = Some x"
  by (auto simp: withMaster_def)

lemma reported_row:
  "r \<in> set (sv_populatedRows (sheetjsSheetView name bounds rows merges tables autoFilter) first final covered) \<longleftrightarrow>
     r \<in> set (presentIndices rows first final)
     \<or> covered \<and> first \<le> r \<and> r \<le> final \<and> (\<exists>m \<in> set merges. withMaster rows m \<and> mg_top m \<le> r \<and> r \<le> mg_bottom m)"
  by (auto simp: sheetjsSheetView_def Let_def set_repeated)

lemma reported_column:
  "c \<in> set (rw_populatedColumns (grid_row rows merges r) first final covered) \<longleftrightarrow>
     c \<in> set (presentIndices (stored_row rows r) first final)
     \<or> covered \<and> first \<le> c \<and> c \<le> final
       \<and> (\<exists>m \<in> set merges. mg_top m \<le> r \<and> r \<le> mg_bottom m \<and> withMaster rows m \<and> mg_left m \<le> c \<and> c \<le> mg_right m)"
  by (auto simp: grid_row_def covering_def Let_def set_repeated)

interpretation workbook_reader: sheet_reader "sheetjsSheetView name bounds rows merges tables autoFilter"
  for name bounds rows merges tables autoFilter
proof unfold_locales
  fix r first final covered c v
  let ?view = "sheetjsSheetView name bounds rows merges tables autoFilter"
  show "ascending (sv_populatedRows ?view first final covered)"
    by (simp add: sheetjsSheetView_def Let_def ascending_presentIndices ascending_repeated)
  show "first \<le> r \<and> r \<le> final" if "r \<in> set (sv_populatedRows ?view first final covered)"
    using that by (auto simp: reported_row set_presentIndices)
  show "covered_only covered (snapshot_at (sv_rowAt ?view r) c)"
    if span: "first \<le> r" "r \<le> final" and no: "r \<notin> set (sv_populatedRows ?view first final covered)"
  proof (cases "rw_cellAt (grid_row rows merges r) c")
    case None
    then show ?thesis by (simp add: covered_only_def snapshot_at_def sheetjsSheetView_def)
  next
    case (Some s)
    have absent: "stored_cell rows r c' = None" for c'
      using no span stored_row_present [of rows r c'] by (cases "stored_cell rows r c'") (auto simp: reported_row set_presentIndices)
    from Some show ?thesis
    proof (cases rule: grid_cell_cases)
      case (merged m)
      then have "\<not> covered" using no span by (auto simp: reported_row)
      moreover have "mg_top m \<noteq> r" using master_stored [OF merged(6)] absent by auto
      ultimately show ?thesis using Some merged by (simp add: covered_only_def snapshot_at_def sheetjsSheetView_def)
    next
      case (plain x)
      then show ?thesis using absent by simp
    qed
  qed
  assume "sv_rowAt ?view r = Some v"
  then have v: "v = grid_row rows merges r" by (simp add: sheetjsSheetView_def)
  show "ascending (rw_populatedColumns v first final covered)"
    by (simp add: v grid_row_def Let_def ascending_presentIndices ascending_repeated)
  show "first \<le> c \<and> c \<le> final" if "c \<in> set (rw_populatedColumns v first final covered)"
    using that by (auto simp: v reported_column set_presentIndices)
  show "covered_only covered (rw_cellAt v c)"
    if span: "first \<le> c" "c \<le> final" and no: "c \<notin> set (rw_populatedColumns v first final covered)"
  proof (cases "rw_cellAt v c")
    case None
    then show ?thesis by (simp add: covered_only_def)
  next
    case (Some s)
    have absent: "stored_cell rows r c = None"
      using no span by (cases "stored_cell rows r c") (auto simp: v reported_column set_presentIndices stored_cell_iff)
    from Some [unfolded v] show ?thesis
    proof (cases rule: grid_cell_cases)
      case (merged m)
      then have "\<not> covered" using no span by (auto simp: v reported_column)
      moreover have "\<not> (mg_top m = r \<and> mg_left m = c)" using master_stored [OF merged(6)] absent by auto
      ultimately show ?thesis using Some merged by (simp add: covered_only_def)
    next
      case (plain x)
      then show ?thesis using absent by simp
    qed
  qed
qed

end
