(* ===== verification/Sheet_Columns.thy ===== *)
theory Sheet_Columns
  imports Sheet_View
begin

text \<open>
  Which column a reference names and which row names the columns: \<open>grid/columns.ts\<close> and \<open>grid/header.ts\<close>.
  Warnings are values; the sentence of each is left out.
\<close>

section \<open>Columns\<close>

datatype column_mode = Column_auto | Column_header | Column_letter

record column_index =
  ci_byHeader :: "(string \<times> nat list) list"
  ci_letters :: "string list"
  ci_headers :: "string option list"
  ci_bounds :: grid_bounds
  ci_headerRow :: nat

definition index_column :: "sheet_env \<Rightarrow> grid_bounds \<Rightarrow> nat \<times> string option
    \<Rightarrow> (string \<times> nat list) list \<times> string list \<Rightarrow> sheet_error + (string \<times> nat list) list \<times> string list" where
  "index_column env bounds entry st = (case (entry, st) of ((offset, header), (byHeader, letters)) \<Rightarrow>
     (let index = gb_left bounds + offset in res_map (\<lambda>text.
        (case header of
           None \<Rightarrow> byHeader
         | Some h \<Rightarrow> if h = [] then byHeader
             else (let key = en_fold env h in (case map_of byHeader key of
                 None \<Rightarrow> AList.update key [index] byHeader
               | Some slot \<Rightarrow> AList.update key (slot @ [index]) byHeader)),
         set_add text letters)) (of_range (columnToLetters index))))"

definition buildColumnIndex :: "sheet_env \<Rightarrow> grid_bounds \<Rightarrow> nat \<Rightarrow> string option list \<Rightarrow> sheet_error + column_index" where
  "buildColumnIndex env bounds headerRow headers =
     res_map (\<lambda>(byHeader, letters). \<lparr>ci_byHeader = byHeader, ci_letters = letters, ci_headers = headers,
         ci_bounds = bounds, ci_headerRow = headerRow\<rparr>)
       (fold_res (\<lambda>st entry. index_column env bounds entry st) ([], []) (enumerate 0 headers))"

definition letterOf :: "column_index \<Rightarrow> string \<Rightarrow> nat option" where
  "letterOf index reference =
     (let wanted = asciiUpper (trim reference)
      in if wanted \<notin> set (ci_letters index) then None
         else List.find (\<lambda>column. columnToLetters column = Inr wanted)
           (map (\<lambda>offset. gb_left (ci_bounds index) + offset) [0..<length (ci_headers index)]))"

definition resolveColumn :: "sheet_env \<Rightarrow> column_index \<Rightarrow> string \<Rightarrow> column_mode \<Rightarrow> sheet_error + nat" where
  "resolveColumn env index reference mode =
     (let byHeader = map_of (ci_byHeader index) (en_fold env reference); byLetter = letterOf index reference
      in if mode = Column_letter then (case byLetter of None \<Rightarrow> Inl Unknown_column | Some c \<Rightarrow> Inr c)
         else (case byHeader of
             Some (a # b # rest) \<Rightarrow> Inl Ambiguous_column
           | _ \<Rightarrow>
               (let header = (case byHeader of Some (a # rest) \<Rightarrow> Some a | _ \<Rightarrow> None)
                in if mode = Column_header then (case header of None \<Rightarrow> Inl Unknown_column | Some c \<Rightarrow> Inr c)
                   else (case (header, byLetter) of
                       (Some h, Some l) \<Rightarrow> if h \<noteq> l then Inl Ambiguous_column else Inr h
                     | (Some h, None) \<Rightarrow> Inr h
                     | (None, Some l) \<Rightarrow> Inr l
                     | (None, None) \<Rightarrow> Inl Unknown_column))))"

section \<open>Header rows\<close>

datatype header_row_source = Header_explicit | Header_declared | Header_scanned | Header_default | Header_cursor

datatype declared_source = By_table string | By_autofilter

definition values_only :: "merge_policy \<Rightarrow> normalize_options" where
  "values_only policy = \<lparr>no_valueMode = Mode_values, no_mergePolicy = policy, no_includeHyperlinks = False\<rparr>"

definition header_of :: "normalize_options \<Rightarrow> cell_snapshot option \<Rightarrow> string option" where
  "header_of options s = (case s of None \<Rightarrow> None
     | Some x \<Rightarrow> (case fst (normalizeCell x options) of Cell_text t \<Rightarrow> Some t | _ \<Rightarrow> None))"

definition row_view_at :: "sheet_view \<Rightarrow> nat \<Rightarrow> row_view option" where
  "row_view_at sheet row = (if row > 0 then sv_rowAt sheet row else None)"

definition readHeaderRow :: "sheet_view \<Rightarrow> grid_bounds \<Rightarrow> nat \<Rightarrow> normalize_options \<Rightarrow> string option list" where
  "readHeaderRow sheet bounds headerRow options =
     map (\<lambda>column. header_of options (snapshot_at (row_view_at sheet headerRow) column)) [gb_left bounds..<Suc (gb_right bounds)]"

text \<open>Start and end of a reference: \<open>ref.split(":")\<close>, the end absent when there is no colon.\<close>

definition ref_corners :: "string \<Rightarrow> sheet_error + (nat \<times> nat) \<times> (nat \<times> nat)" where
  "ref_corners ref = (case split_on (CHR '':'') ref of
     start # stop # rest \<Rightarrow> res_bind (of_range (parseCellRef start)) (\<lambda>a. res_map (\<lambda>b. (a, b)) (of_range (parseCellRef stop)))
   | [start] \<Rightarrow> res_map (\<lambda>a. (a, a)) (of_range (parseCellRef start))
   | [] \<Rightarrow> Inl Internal_error)"

definition merge_span :: "nat \<Rightarrow> grid_bounds \<Rightarrow> nat \<Rightarrow> string \<Rightarrow> sheet_error + nat" where
  "merge_span row bounds widest merge =
     (if length (split_on (CHR '':'') merge) < 2 then Inr widest
      else res_map (\<lambda>(topLeft, bottomRight).
        (if fst topLeft > row \<or> fst bottomRight < row then widest
         else (let left = max (snd topLeft) (gb_left bounds); right = min (snd bottomRight) (gb_right bounds)
           in if right \<ge> left then max widest (right - left + 1) else widest))) (ref_corners merge))"

definition mergedSpanAt :: "string list \<Rightarrow> nat \<Rightarrow> grid_bounds \<Rightarrow> sheet_error + nat" where
  "mergedSpanAt merges row bounds = fold_res (merge_span row bounds) 0 merges"

definition namesTheRowBelow :: "sheet_env \<Rightarrow> sheet_view \<Rightarrow> declared_table \<Rightarrow> nat \<times> nat \<Rightarrow> merge_policy \<Rightarrow> bool" where
  "namesTheRowBelow env sheet table topLeft policy =
     (let named = filter (\<lambda>(offset, name). name \<noteq> None \<and> name \<noteq> Some []) (enumerate 0 (dt_columns table));
          shows = (\<lambda>(offset, name). (case snapshot_at (sv_rowAt sheet (fst topLeft)) (snd topLeft + offset) of
              None \<Rightarrow> False
            | Some s \<Rightarrow> (case (fst (normalizeCell s (values_only policy)), name) of
                (Cell_text t, Some n) \<Rightarrow> en_fold env t = en_fold env n
              | _ \<Rightarrow> False)))
      in named \<noteq> [] \<and> list_all shows named)"

definition declaresHeaderRow :: "sheet_env \<Rightarrow> sheet_view \<Rightarrow> declared_table \<Rightarrow> nat \<times> nat \<Rightarrow> merge_policy \<Rightarrow> bool" where
  "declaresHeaderRow env sheet table topLeft policy = (dt_headerRow table \<or> namesTheRowBelow env sheet table topLeft policy)"

definition table_candidate :: "sheet_env \<Rightarrow> sheet_view \<Rightarrow> grid_bounds \<Rightarrow> merge_policy \<Rightarrow> declared_table
    \<Rightarrow> sheet_error + (nat \<times> declared_source) list" where
  "table_candidate env sheet bounds policy table = res_map (\<lambda>(topLeft, bottomRight).
     (if snd topLeft > gb_left bounds \<or> snd bottomRight < gb_right bounds then []
      else if fst topLeft < gb_top bounds \<or> fst topLeft > gb_bottom bounds then []
      else if \<not> declaresHeaderRow env sheet table topLeft policy then []
      else [(fst topLeft, By_table (dt_name table))])) (ref_corners (dt_ref table))"

definition declaredHeaderRow :: "sheet_env \<Rightarrow> sheet_view \<Rightarrow> grid_bounds \<Rightarrow> merge_policy
    \<Rightarrow> sheet_error + (nat \<times> declared_source) option" where
  "declaredHeaderRow env sheet bounds policy =
     res_bind (traverse (table_candidate env sheet bounds policy) (sv_tables sheet)) (\<lambda>found. (case concat found of
        a # b # rest \<Rightarrow> Inl Ambiguous_header_row
      | [only] \<Rightarrow> Inr (Some only)
      | [] \<Rightarrow> (case sv_autoFilter sheet of
            None \<Rightarrow> Inr None
          | Some ref \<Rightarrow> res_map (\<lambda>(topLeft, bottomRight).
              (if fst topLeft \<ge> gb_top bounds \<and> fst topLeft \<le> gb_bottom bounds
                  \<and> snd topLeft \<le> gb_left bounds \<and> snd bottomRight \<ge> gb_right bounds
               then Some (fst topLeft, By_autofilter) else None)) (ref_corners ref))))"

record row_facts =
  rf_row :: nat
  rf_width :: nat
  rf_naming :: nat
  rf_disqualifying :: nat
  rf_filled :: nat
  rf_mergedSpan :: nat
  rf_texts :: "string list"

definition count_cell :: "merge_policy \<Rightarrow> row_view option \<Rightarrow> row_facts \<Rightarrow> nat \<Rightarrow> row_facts" where
  "count_cell policy view f column = (case snapshot_at view column of
     None \<Rightarrow> f
   | Some s \<Rightarrow> (let v = fst (normalizeCell s (values_only policy)) in (case classify v of
         Kind_empty \<Rightarrow> f
       | Kind_text \<Rightarrow> if text_of_cell v \<noteq> []
           then f\<lparr>rf_filled := rf_filled f + 1, rf_naming := rf_naming f + 1, rf_texts := rf_texts f @ [text_of_cell v]\<rparr>
           else f\<lparr>rf_filled := rf_filled f + 1\<rparr>
       | _ \<Rightarrow> f\<lparr>rf_filled := rf_filled f + 1, rf_disqualifying := rf_disqualifying f + 1\<rparr>)))"

definition rowFacts :: "sheet_view \<Rightarrow> grid_bounds \<Rightarrow> merge_policy \<Rightarrow> nat \<Rightarrow> sheet_error + row_facts" where
  "rowFacts sheet bounds policy row = res_map (\<lambda>span.
     foldl (count_cell policy (sv_rowAt sheet row))
       \<lparr>rf_row = row, rf_width = gb_right bounds + 1 - gb_left bounds, rf_naming = 0, rf_disqualifying = 0, rf_filled = 0,
        rf_mergedSpan = span, rf_texts = []\<rparr> [gb_left bounds..<Suc (gb_right bounds)]) (mergedSpanAt (sv_merges sheet) row bounds)"

definition isHeaderCandidate :: "row_facts \<Rightarrow> bool" where
  "isHeaderCandidate f = (rf_disqualifying f = 0 \<and> rf_mergedSpan f \<le> 1 \<and> rf_naming f \<ge> min 2 (rf_width f))"

definition headerScanRows :: nat where "headerScanRows = 20"

definition scanWindow :: "grid_bounds \<Rightarrow> nat list" where
  "scanWindow bounds = [gb_top bounds..<Suc (min (gb_top bounds + headerScanRows - 1) (gb_bottom bounds))]"

definition scanHeaderRow :: "sheet_env \<Rightarrow> sheet_view \<Rightarrow> grid_bounds \<Rightarrow> merge_policy \<Rightarrow> sheet_error + nat" where
  "scanHeaderRow env sheet bounds policy =
     res_bind (declaredHeaderRow env sheet bounds policy) (\<lambda>declared. (case declared of
        Some d \<Rightarrow> Inr (fst d)
      | None \<Rightarrow> res_bind (traverse (rowFacts sheet bounds policy) (scanWindow bounds)) (\<lambda>facts.
          (case dropWhile (\<lambda>f. \<not> isHeaderCandidate f) facts of
             [] \<Rightarrow> Inl Unknown_header_row
           | header # later \<Rightarrow> (case List.find (\<lambda>f. rf_filled f > 0) later of
                 None \<Rightarrow> Inr (rf_row header)
               | Some nxt \<Rightarrow> if isHeaderCandidate nxt then Inl Ambiguous_header_row else Inr (rf_row header))))))"

datatype header_warning = Missing_column_names "string list" | Declared_elsewhere nat nat declared_source
  | No_header_text nat "nat list"

definition headerWarnings :: "sheet_env \<Rightarrow> sheet_view \<Rightarrow> grid_bounds \<Rightarrow> nat \<Rightarrow> string option list \<Rightarrow> bool \<Rightarrow> merge_policy
    \<Rightarrow> sheet_error + header_warning list" where
  "headerWarnings env sheet bounds headerRow headers hasExplicitRange policy =
     (let malformed = filter (\<lambda>t. None \<in> set (dt_columns t)) (sv_tables sheet);
          width = gb_right bounds + 1 - gb_left bounds;
          named = length (filter (\<lambda>h. h \<noteq> None \<and> h \<noteq> Some []) headers)
      in if malformed \<noteq> [] then Inr [Missing_column_names (map dt_name malformed)]
         else if headerRow = 0 \<or> width < 2 \<or> hasExplicitRange then Inr []
         else res_bind (declaredHeaderRow env sheet bounds policy) (\<lambda>declared. (case declared of
            Some (row, source) \<Rightarrow> Inr (if row \<noteq> headerRow then [Declared_elsewhere headerRow row source] else [])
          | None \<Rightarrow> if named > 1 then Inr []
              else res_map (\<lambda>facts.
                (case filter (\<lambda>f. rf_filled f > 0 \<and> isHeaderCandidate f) facts of
                   [] \<Rightarrow> []
                 | candidates \<Rightarrow> [No_header_text headerRow (map rf_row candidates)]))
                (traverse (rowFacts sheet bounds policy) (filter (\<lambda>r. r \<noteq> headerRow) (scanWindow bounds))))))"

section \<open>A resolved column is a column of the range\<close>

lemma index_column_map:
  assumes "index_column env bounds (n, header) (byHeader, letters) = Inr (byHeader1, letters1)"
    and "map_of byHeader1 k = Some cs"
  obtains "map_of byHeader k = Some cs" | "cs = [gb_left bounds + n]"
    | old where "map_of byHeader k = Some old" "cs = old @ [gb_left bounds + n]"
proof (cases "header = None \<or> header = Some []")
  case True
  then show ?thesis using assms that(1) by (auto simp: index_column_def Let_def res_iff)
next
  case False
  then obtain h where h: "header = Some h" "h \<noteq> []" by auto
  show ?thesis
  proof (cases "k = en_fold env h")
    case True
    then show ?thesis using assms h that
      by (cases "map_of byHeader k") (auto simp: index_column_def Let_def res_iff update_conv')
  next
    case False
    then show ?thesis using assms h that(1)
      by (cases "map_of byHeader (en_fold env h)") (auto simp: index_column_def Let_def res_iff update_conv')
  qed
qed

lemma index_columns_within:
  assumes "fold_res (\<lambda>st entry. index_column env bounds entry st) (byHeader, letters) (enumerate n headers) = Inr (byHeader', letters')"
    and "\<forall>k cs. map_of byHeader k = Some cs \<longrightarrow> cs \<noteq> [] \<and> (\<forall>c\<in>set cs. gb_left bounds \<le> c \<and> c < gb_left bounds + n)"
  shows "\<forall>k cs. map_of byHeader' k = Some cs \<longrightarrow> cs \<noteq> []
    \<and> (\<forall>c\<in>set cs. gb_left bounds \<le> c \<and> c < gb_left bounds + n + length headers)"
  using assms
proof (induction headers arbitrary: n byHeader letters)
  case Nil
  then show ?case by auto
next
  case (Cons header headers)
  from Cons.prems(1) obtain byHeader1 letters1 where
    step: "index_column env bounds (n, header) (byHeader, letters) = Inr (byHeader1, letters1)"
    and rest: "fold_res (\<lambda>st entry. index_column env bounds entry st) (byHeader1, letters1) (enumerate (Suc n) headers) = Inr (byHeader', letters')"
    by (auto simp: res_iff)
  have "cs \<noteq> [] \<and> (\<forall>c\<in>set cs. gb_left bounds \<le> c \<and> c < gb_left bounds + Suc n)" if "map_of byHeader1 k = Some cs" for k cs
  proof (cases rule: index_column_map [OF step that])
    case 1
    from Cons.prems(2) [rule_format, OF this] show ?thesis by auto
  next
    case 2
    then show ?thesis by simp
  next
    case (3 old)
    from Cons.prems(2) [rule_format, OF 3(1)] show ?thesis unfolding 3(2) by auto
  qed
  then have "\<forall>k cs. map_of byHeader1 k = Some cs \<longrightarrow> cs \<noteq> [] \<and> (\<forall>c\<in>set cs. gb_left bounds \<le> c \<and> c < gb_left bounds + Suc n)"
    by (intro allI impI)
  from Cons.IH [OF rest this] show ?case by (simp only: list.size add_Suc_right add_Suc add_0_right)
qed

lemma buildColumnIndex_facts:
  assumes "buildColumnIndex env bounds headerRow headers = Inr index"
  shows "ci_bounds index = bounds" and "ci_headers index = headers"
    and "map_of (ci_byHeader index) k = Some cs \<Longrightarrow> cs \<noteq> [] \<and> (\<forall>c\<in>set cs. gb_left bounds \<le> c \<and> c < gb_left bounds + length headers)"
proof -
  obtain byHeader letters where f: "fold_res (\<lambda>st entry. index_column env bounds entry st) ([], []) (enumerate 0 headers) = Inr (byHeader, letters)"
    and index: "index = \<lparr>ci_byHeader = byHeader, ci_letters = letters, ci_headers = headers, ci_bounds = bounds, ci_headerRow = headerRow\<rparr>"
    using assms by (auto simp: buildColumnIndex_def res_iff)
  show "ci_bounds index = bounds" "ci_headers index = headers" by (simp_all add: index)
  show "cs \<noteq> [] \<and> (\<forall>c\<in>set cs. gb_left bounds \<le> c \<and> c < gb_left bounds + length headers)" if "map_of (ci_byHeader index) k = Some cs"
    using index_columns_within [OF f] that by (simp add: index)
qed

lemma letterOf_within:
  assumes "letterOf index reference = Some c"
  shows "gb_left (ci_bounds index) \<le> c \<and> c < gb_left (ci_bounds index) + length (ci_headers index)"
  using assms by (auto simp: letterOf_def Let_def find_Some_iff split: if_splits)

lemma resolved_column_within:
  assumes "buildColumnIndex env bounds headerRow (readHeaderRow sheet bounds headerRow options) = Inr index"
    and "resolveColumn env index reference mode = Inr c" and "gb_left bounds \<le> gb_right bounds"
  shows "gb_left bounds \<le> c \<and> c \<le> gb_right bounds"
proof -
  have len: "length (readHeaderRow sheet bounds headerRow options) = Suc (gb_right bounds) - gb_left bounds"
    by (simp add: readHeaderRow_def del: upt_Suc)
  note facts = buildColumnIndex_facts [OF assms(1)]
  consider "letterOf index reference = Some c" | rest where "map_of (ci_byHeader index) (en_fold env reference) = Some (c # rest)"
    using assms(2) by (auto simp: resolveColumn_def Let_def split: if_splits option.splits list.splits)
  then have "gb_left bounds \<le> c \<and> c < gb_left bounds + length (readHeaderRow sheet bounds headerRow options)"
  proof cases
    case 1
    then show ?thesis using letterOf_within [OF 1] facts by simp
  next
    case 2
    then show ?thesis using facts(3) by force
  qed
  then show ?thesis using len assms(3) by auto
qed

end
