(* ===== verification/Sheet_Aggregate.thy ===== *)
theory Sheet_Aggregate
  imports Sheet_Columns
begin

text \<open>
  \<open>grid/aggregate.ts\<close>: grouped totals over the rows of a range. The scan reads the reported rows only, and
  folds the rows in between, which read null in every column, in one step weighted by their number.

  The state of the scan is a record; reading a cell changes it (a visit is counted, and an uncached formula).
  \<open>limits\<close> holds the two ceilings a request can hit.
\<close>

datatype metric_function = Fn_count | Fn_countValues | Fn_countDistinct | Fn_sum | Fn_avg | Fn_min | Fn_max | Fn_stddev

datatype group_order = Order_by_group | Order_by_metric

record metric_request =
  mt_fn :: metric_function
  mt_column :: "string option"

record aggregate_options =
  ag_sheetName :: "string option"
  ag_range :: "string option"
  ag_groupBy :: "string list"
  ag_metrics :: "metric_request list"
  ag_where :: "pred_condition list"
  ag_matchAll :: bool
  ag_headerRow :: nat
  ag_headerRowSource :: header_row_source
  ag_columnMode :: column_mode
  ag_caseSensitive :: bool
  ag_coerceText :: bool
  ag_mergedCells :: merge_policy
  ag_orderBy :: group_order
  ag_orderByMetric :: "int option"
  ag_descending :: bool
  ag_maxGroups :: nat

record aggregate_limits =
  li_maxGroups :: nat
  li_maxVisits :: nat

section \<open>Metrics\<close>

record metric_state =
  ms_counted :: nat
  ms_skipped :: nat
  ms_sum :: jsnum
  ms_compensation :: jsnum
  ms_distinct :: "string list"
  ms_extreme :: "(comparable_kind \<times> cell_scalar) option"
  ms_mean :: jsnum
  ms_m2 :: jsnum

definition num_zero :: jsnum where "num_zero = Dec False 0 0"

definition newMetricState :: metric_state where
  "newMetricState = \<lparr>ms_counted = 0, ms_skipped = 0, ms_sum = num_zero, ms_compensation = num_zero, ms_distinct = [],
     ms_extreme = None, ms_mean = num_zero, ms_m2 = num_zero\<rparr>"

definition finite_num :: "jsnum \<Rightarrow> sheet_error + jsnum" where
  "finite_num n = (if num_is_finite n then Inr n else Inl Numeric_overflow)"

text \<open>The integers the code mixes into a calculation.\<close>

fun strip_zeros :: "nat \<Rightarrow> nat \<Rightarrow> nat \<Rightarrow> nat \<times> nat" where
  "strip_zeros 0 n e = (n, e)"
| "strip_zeros (Suc fuel) n e = (if n > 0 \<and> n mod 10 = 0 then strip_zeros fuel (n div 10) (Suc e) else (n, e))"

definition num_of_nat :: "nat \<Rightarrow> jsnum" where
  "num_of_nat n = (case strip_zeros n n 0 of (s, e) \<Rightarrow> Dec False s (int e))"

definition accumulate_sum :: "sheet_env \<Rightarrow> metric_state \<Rightarrow> jsnum \<Rightarrow> sheet_error + metric_state" where
  "accumulate_sum env st v = res_bind (finite_num (en_add env (ms_sum st) v)) (\<lambda>total.
     res_map (\<lambda>c. st\<lparr>ms_sum := total, ms_compensation := c\<rparr>)
       (finite_num (en_add env (ms_compensation st)
         (if \<not> num_less (num_abs (ms_sum st)) (num_abs v)
          then en_add env (en_subtract env (ms_sum st) total) v
          else en_add env (en_subtract env v total) (ms_sum st)))))"

definition sumOf :: "sheet_env \<Rightarrow> metric_state \<Rightarrow> sheet_error + jsnum" where
  "sumOf env st = finite_num (en_add env (ms_sum st) (ms_compensation st))"

definition accumulate_deviation :: "sheet_env \<Rightarrow> metric_state \<Rightarrow> jsnum \<Rightarrow> sheet_error + metric_state" where
  "accumulate_deviation env st v = res_bind (finite_num (en_subtract env v (ms_mean st))) (\<lambda>delta.
     res_bind (finite_num (en_add env (ms_mean st) (en_divide env delta (num_of_nat (ms_counted st))))) (\<lambda>mean.
       res_bind (finite_num (en_subtract env v mean)) (\<lambda>rest.
         res_bind (finite_num (en_multiply env delta rest)) (\<lambda>square.
           res_map (\<lambda>m2. st\<lparr>ms_mean := mean, ms_m2 := m2\<rparr>) (finite_num (en_add env (ms_m2 st) square))))))"

definition finish :: "sheet_env \<Rightarrow> metric_request \<Rightarrow> metric_state \<Rightarrow> sheet_error + cell_scalar" where
  "finish env m st = (case mt_fn m of
     Fn_count \<Rightarrow> Inr (Cell_number (num_of_nat (ms_counted st)))
   | Fn_countValues \<Rightarrow> Inr (Cell_number (num_of_nat (ms_counted st)))
   | Fn_countDistinct \<Rightarrow> Inr (Cell_number (num_of_nat (length (ms_distinct st))))
   | Fn_sum \<Rightarrow> if ms_counted st = 0 then Inr Cell_null else res_map Cell_number (sumOf env st)
   | Fn_avg \<Rightarrow> if ms_counted st = 0 then Inr Cell_null
       else res_map (\<lambda>t. Cell_number (en_divide env t (num_of_nat (ms_counted st)))) (sumOf env st)
   | Fn_stddev \<Rightarrow> if ms_counted st < 2 then Inr Cell_null
       else res_map Cell_number (finite_num (en_sqrt env (en_divide env (ms_m2 st) (num_of_nat (ms_counted st - 1)))))
   | _ \<Rightarrow> Inr (case ms_extreme st of None \<Rightarrow> Cell_null | Some (k, v) \<Rightarrow> v))"

definition update_extreme :: "sheet_env \<Rightarrow> bool \<Rightarrow> bool \<Rightarrow> metric_state \<Rightarrow> cell_scalar \<Rightarrow> sheet_error + metric_state" where
  "update_extreme env minimum caseSensitive st v = (case comparable (classify v) of
     None \<Rightarrow> Inr (st\<lparr>ms_skipped := ms_skipped st + 1\<rparr>)
   | Some kind \<Rightarrow> res_bind (if kind = As_number then res_map (\<lambda>_. ()) (coerceNumber env v) else Inr ()) (\<lambda>_.
       let st' = st\<lparr>ms_counted := ms_counted st + 1\<rparr> in (case ms_extreme st of
         None \<Rightarrow> Inr (st'\<lparr>ms_extreme := Some (kind, v)\<rparr>)
       | Some (held, w) \<Rightarrow>
           if held \<noteq> kind then Inl Invalid_argument
           else (let order = compareWithin env kind v w caseSensitive
             in Inr (if (if minimum then order < 0 else order > 0) then st'\<lparr>ms_extreme := Some (kind, v)\<rparr> else st')))))"

text \<open>One value in one metric other than \<open>count\<close>; \<open>raw\<close> is what the cell reads.\<close>

definition metric_step :: "sheet_env \<Rightarrow> bool \<Rightarrow> bool \<Rightarrow> metric_function \<Rightarrow> metric_state \<Rightarrow> cell_scalar \<Rightarrow> sheet_error + metric_state" where
  "metric_step env coerceText caseSensitive fn st raw =
     (if classify raw = Kind_empty then Inr (st\<lparr>ms_skipped := ms_skipped st + 1\<rparr>)
      else res_bind (if coerceText \<and> classify raw = Kind_text then coerced env raw else Inr raw) (\<lambda>v.
        (case fn of
           Fn_countValues \<Rightarrow> Inr (st\<lparr>ms_counted := ms_counted st + 1\<rparr>)
         | Fn_countDistinct \<Rightarrow> Inr (st\<lparr>ms_counted := ms_counted st + 1, ms_distinct := set_add (cell_json v) (ms_distinct st)\<rparr>)
         | Fn_min \<Rightarrow> update_extreme env True caseSensitive st v
         | Fn_max \<Rightarrow> update_extreme env False caseSensitive st v
         | _ \<Rightarrow> (case v of
             Cell_number n \<Rightarrow> res_bind (coerceNumber env v) (\<lambda>_.
               let st' = st\<lparr>ms_counted := ms_counted st + 1\<rparr>
               in if fn = Fn_sum \<or> fn = Fn_avg then accumulate_sum env st' n
                  else if fn = Fn_stddev then accumulate_deviation env st' n else Inr st')
           | _ \<Rightarrow> Inr (st\<lparr>ms_skipped := ms_skipped st + 1\<rparr>)))))"

section \<open>The scan\<close>

record group_state =
  gs_key :: "cell_scalar list"
  gs_metrics :: "metric_state list"
  gs_rows :: nat

record scan_state =
  sc_visits :: nat
  sc_scanned :: nat
  sc_matched :: nat
  sc_uncached :: nat
  sc_blank :: nat
  sc_census :: "(nat \<times> census) list"
  sc_groups :: "(string \<times> group_state) list"

text \<open>The request with its columns resolved.\<close>

record aggregate_plan =
  ap_env :: sheet_env
  ap_limits :: aggregate_limits
  ap_options :: aggregate_options
  ap_groupColumns :: "nat list"
  ap_metricColumns :: "(metric_request \<times> nat option) list"
  ap_conditions :: "(pred_condition \<times> nat) list"

definition visit_cell :: "aggregate_plan \<Rightarrow> scan_state \<Rightarrow> sheet_error + scan_state" where
  "visit_cell p s = (let s' = s\<lparr>sc_visits := sc_visits s + 1\<rparr>
     in if sc_visits s' > li_maxVisits (ap_limits p) then Inl Resource_limit else Inr s')"

definition readGrid :: "cell_snapshot option \<Rightarrow> merge_policy \<Rightarrow> cell_scalar \<times> bool" where
  "readGrid snapshot policy = (case snapshot of
     None \<Rightarrow> (Cell_null, False)
   | Some s \<Rightarrow> (resolveCell s Mode_values policy, \<not> (sn_merged s \<and> policy = Merge_master) \<and> isUncachedFormula s))"

definition read_cell :: "aggregate_plan \<Rightarrow> row_view option \<Rightarrow> nat \<Rightarrow> scan_state \<Rightarrow> sheet_error + cell_scalar \<times> scan_state" where
  "read_cell p view column s = res_map (\<lambda>s'.
     (case readGrid (snapshot_at view column) (ag_mergedCells (ap_options p)) of
        (v, uncached) \<Rightarrow> (v, if uncached then s'\<lparr>sc_uncached := sc_uncached s' + 1\<rparr> else s'))) (visit_cell p s)"

text \<open>
  \<open>rd\<close> reads a column of the row at hand: \<open>read_cell\<close> of a reported row, nothing of a row in between.
\<close>

type_synonym cell_reader = "nat \<Rightarrow> scan_state \<Rightarrow> sheet_error + cell_scalar \<times> scan_state"

definition read_null :: cell_reader where
  "read_null column s = Inr (Cell_null, s)"

definition predicate_of :: "aggregate_options \<Rightarrow> predicate_options" where
  "predicate_of o' = \<lparr>po_caseSensitive = ag_caseSensitive o', po_coerceText = ag_coerceText o'\<rparr>"

definition match_step :: "aggregate_plan \<Rightarrow> cell_reader \<Rightarrow> bool \<times> scan_state \<Rightarrow> pred_condition \<times> nat \<Rightarrow> sheet_error + bool \<times> scan_state" where
  "match_step p rd st entry = res_bind (rd (snd entry) (snd st)) (\<lambda>(v, s).
     res_map (\<lambda>hit. (if ag_matchAll (ap_options p) then fst st \<and> hit else fst st \<or> hit, s))
       (evaluate (ap_env p) (fst entry) v (predicate_of (ap_options p))))"

definition row_matches :: "aggregate_plan \<Rightarrow> cell_reader \<Rightarrow> scan_state \<Rightarrow> sheet_error + bool \<times> scan_state" where
  "row_matches p rd s = fold_res (match_step p rd)
     (if ap_conditions p = [] then True else ag_matchAll (ap_options p), s) (ap_conditions p)"

definition read_step :: "cell_reader \<Rightarrow> cell_scalar list \<times> scan_state \<Rightarrow> nat \<Rightarrow> sheet_error + cell_scalar list \<times> scan_state" where
  "read_step rd st column = res_map (\<lambda>(v, s). (fst st @ [v], s)) (rd column (snd st))"

definition read_key :: "aggregate_plan \<Rightarrow> cell_reader \<Rightarrow> scan_state \<Rightarrow> sheet_error + cell_scalar list \<times> scan_state" where
  "read_key p rd s = fold_res (read_step rd) ([], s) (ap_groupColumns p)"

definition keyOf :: "cell_scalar list \<Rightarrow> string" where
  "keyOf key = ''['' @ join_with '','' (map cell_json key) @ '']''"

definition new_group :: "aggregate_plan \<Rightarrow> cell_scalar list \<Rightarrow> group_state" where
  "new_group p key = \<lparr>gs_key = key, gs_metrics = map (\<lambda>m. newMetricState) (ap_metricColumns p), gs_rows = 0\<rparr>"

definition groupFor :: "aggregate_plan \<Rightarrow> cell_scalar list \<Rightarrow> scan_state \<Rightarrow> sheet_error + group_state" where
  "groupFor p key s = (case map_of (sc_groups s) (keyOf key) of
     Some g \<Rightarrow> Inr g
   | None \<Rightarrow> if length (sc_groups s) \<ge> li_maxGroups (ap_limits p) then Inl Resource_limit else Inr (new_group p key))"

definition put_group :: "group_state \<Rightarrow> string \<Rightarrow> scan_state \<Rightarrow> scan_state" where
  "put_group g k s = s\<lparr>sc_groups := AList.update k g (sc_groups s)\<rparr>"

definition censusFor :: "scan_state \<Rightarrow> nat \<Rightarrow> census" where
  "censusFor s column = (case map_of (sc_census s) column of Some c \<Rightarrow> c | None \<Rightarrow> emptyCensus)"

definition count_kind :: "nat \<Rightarrow> cell_scalar \<Rightarrow> scan_state \<Rightarrow> scan_state" where
  "count_kind column v s = s\<lparr>sc_census := AList.update column (record_cell (censusFor s column) v) (sc_census s)\<rparr>"

text \<open>One slot of a row; \<open>n\<close> rows like it are folded at once.\<close>

definition slot_step :: "aggregate_plan \<Rightarrow> cell_reader \<Rightarrow> metric_state list \<times> scan_state
    \<Rightarrow> (metric_request \<times> nat option) \<times> metric_state \<Rightarrow> sheet_error + metric_state list \<times> scan_state" where
  "slot_step p rd acc slot = (case slot of ((m, column), st) \<Rightarrow> (case (mt_fn m, column) of
     (Fn_count, _) \<Rightarrow> Inr (fst acc @ [st\<lparr>ms_counted := ms_counted st + 1\<rparr>], snd acc)
   | (fn, None) \<Rightarrow> Inl Internal_error
   | (fn, Some c) \<Rightarrow> res_bind (rd c (snd acc)) (\<lambda>(raw, s).
       res_map (\<lambda>st'. (fst acc @ [st'], count_kind c raw s))
         (metric_step (ap_env p) (ag_coerceText (ap_options p)) (ag_caseSensitive (ap_options p)) fn st raw))))"

definition fold_row :: "aggregate_plan \<Rightarrow> cell_reader \<Rightarrow> scan_state \<Rightarrow> sheet_error + scan_state" where
  "fold_row p rd s = res_bind (row_matches p rd s) (\<lambda>(matched, s1).
     if \<not> matched then Inr s1
     else (let s2 = s1\<lparr>sc_matched := sc_matched s1 + 1\<rparr> in
       res_bind (read_key p rd s2) (\<lambda>(key, s3). res_bind (groupFor p key s3) (\<lambda>g.
         res_map (\<lambda>(states, s4). put_group (g\<lparr>gs_rows := gs_rows g + 1, gs_metrics := states\<rparr>) (keyOf key) s4)
           (fold_res (slot_step p rd) ([], s3) (zip (ap_metricColumns p) (gs_metrics g)))))))"

text \<open>Whether the row shows anything: columns are visited up to the first cell that does.\<close>

fun blank_scan :: "aggregate_plan \<Rightarrow> row_view option \<Rightarrow> nat list \<Rightarrow> scan_state \<Rightarrow> sheet_error + bool \<times> scan_state" where
  "blank_scan p view [] s = Inr (True, s)"
| "blank_scan p view (c # cs) s = res_bind (visit_cell p s) (\<lambda>s'.
     (case snapshot_at view c of
        None \<Rightarrow> blank_scan p view cs s'
      | Some x \<Rightarrow> if resolveCell x Mode_values (ag_mergedCells (ap_options p)) \<noteq> Cell_null then Inr (False, s')
          else blank_scan p view cs s'))"

definition scan_row :: "aggregate_plan \<Rightarrow> sheet_view \<Rightarrow> grid_bounds \<Rightarrow> scan_state \<Rightarrow> nat \<Rightarrow> sheet_error + scan_state" where
  "scan_row p sheet b s row =
     (let view = sv_rowAt sheet row;
          columns = (case view of None \<Rightarrow> [] | Some v \<Rightarrow>
            rw_populatedColumns v (gb_left b) (gb_right b) (ag_mergedCells (ap_options p) = Merge_repeat))
      in res_bind (visit_cell p (s\<lparr>sc_scanned := sc_scanned s + 1\<rparr>)) (\<lambda>s1.
        res_bind (blank_scan p view columns s1) (\<lambda>(blank, s2).
          fold_row p (read_cell p view) (if blank then s2\<lparr>sc_blank := sc_blank s2 + 1\<rparr> else s2))))"

text \<open>The weighted step for the \<open>n\<close> rows that are not reported.\<close>

definition absent_slot :: "nat \<Rightarrow> metric_state list \<times> scan_state \<Rightarrow> (metric_request \<times> nat option) \<times> metric_state
    \<Rightarrow> metric_state list \<times> scan_state" where
  "absent_slot n acc slot = (case slot of ((m, column), st) \<Rightarrow>
     if mt_fn m = Fn_count then (fst acc @ [st\<lparr>ms_counted := ms_counted st + n\<rparr>], snd acc)
     else (let c = the_or 0 column; s = snd acc; held = censusFor s c
       in (fst acc @ [st\<lparr>ms_skipped := ms_skipped st + n\<rparr>],
           s\<lparr>sc_census := AList.update c (held\<lparr>cn_nulls := cn_nulls held + n\<rparr>) (sc_census s)\<rparr>)))"

definition fold_absent :: "aggregate_plan \<Rightarrow> nat \<Rightarrow> scan_state \<Rightarrow> sheet_error + scan_state" where
  "fold_absent p n s =
     (if n = 0 then Inr s
      else (let s1 = s\<lparr>sc_scanned := sc_scanned s + n, sc_blank := sc_blank s + n\<rparr> in
        res_bind (row_matches p read_null s1) (\<lambda>(matched, s2).
          if \<not> matched then Inr s2
          else (let s3 = s2\<lparr>sc_matched := sc_matched s2 + n\<rparr>; key = map (\<lambda>c. Cell_null) (ap_groupColumns p) in
            res_map (\<lambda>g. (case foldl (absent_slot n) ([], s3) (zip (ap_metricColumns p) (gs_metrics g)) of
                (states, s4) \<Rightarrow> put_group (g\<lparr>gs_rows := gs_rows g + n, gs_metrics := states\<rparr>) (keyOf key) s4))
              (groupFor p key s3)))))"

definition start_scan :: scan_state where
  "start_scan = \<lparr>sc_visits = 0, sc_scanned = 0, sc_matched = 0, sc_uncached = 0, sc_blank = 0, sc_census = [], sc_groups = []\<rparr>"

definition first_row :: "grid_bounds \<Rightarrow> nat \<Rightarrow> nat" where
  "first_row b headerRow = (if headerRow \<ge> gb_top b \<and> headerRow \<le> gb_bottom b then max (gb_top b) (headerRow + 1) else gb_top b)"

definition scan_sheet :: "aggregate_plan \<Rightarrow> sheet_view \<Rightarrow> grid_bounds \<Rightarrow> sheet_error + scan_state" where
  "scan_sheet p sheet b =
     (let first = first_row b (ag_headerRow (ap_options p))
      in res_bind (fold_res (scan_row p sheet b) start_scan
            (sv_populatedRows sheet first (gb_bottom b) (ag_mergedCells (ap_options p) = Merge_repeat)))
          (\<lambda>s. fold_absent p (Suc (gb_bottom b) - first - sc_scanned s) s))"

end
