(* ===== verification/Sheet_Report.thy ===== *)
theory Sheet_Report
  imports Sheet_Aggregate
begin

text \<open>
  \<open>aggregateSheet\<close> of \<open>grid/aggregate.ts\<close> around its scan: the checks of the request, the columns it names,
  the order of the groups, the page and the result with its statistics and warnings.

  The source is a function that finds a sheet by name. Warnings are values without their sentences.
\<close>

section \<open>The plan\<close>

type_synonym sheet_source = "string option \<Rightarrow> sheet_error + sheet_view"

definition check_request :: "aggregate_options \<Rightarrow> sheet_error + unit" where
  "check_request o' =
     (if ag_metrics o' = [] then Inl Invalid_argument
      else throw_if (case ag_orderByMetric o' of None \<Rightarrow> False | Some k \<Rightarrow> k < 1 \<or> k > int (length (ag_metrics o'))) Invalid_argument)"

definition metric_column :: "sheet_env \<Rightarrow> column_index \<Rightarrow> column_mode \<Rightarrow> metric_request \<Rightarrow> sheet_error + metric_request \<times> nat option" where
  "metric_column env index mode m = (case mt_column m of
     None \<Rightarrow> Inr (m, None)
   | Some reference \<Rightarrow> res_map (\<lambda>c. (m, Some c)) (resolveColumn env index reference mode))"

definition metric_placed :: "metric_request \<times> nat option \<Rightarrow> bool" where
  "metric_placed entry = (mt_fn (fst entry) = Fn_count \<or> snd entry \<noteq> None)"

definition place_condition :: "sheet_env \<Rightarrow> column_index \<Rightarrow> aggregate_options \<Rightarrow> pred_condition \<Rightarrow> sheet_error + pred_condition \<times> nat" where
  "place_condition env index o' c = res_bind (validateCondition env c (ag_caseSensitive o')) (\<lambda>_.
     res_map (\<lambda>column. (c, column)) (resolveColumn env index (pc_column c) (ag_columnMode o')))"

definition make_plan :: "sheet_env \<Rightarrow> aggregate_limits \<Rightarrow> aggregate_options \<Rightarrow> column_index \<Rightarrow> sheet_error + aggregate_plan" where
  "make_plan env limits o' index =
     res_bind (traverse (\<lambda>r. resolveColumn env index r (ag_columnMode o')) (ag_groupBy o')) (\<lambda>groupColumns.
       res_bind (traverse (metric_column env index (ag_columnMode o')) (ag_metrics o')) (\<lambda>metricColumns.
         res_bind (throw_if (\<not> list_all metric_placed metricColumns) Invalid_argument) (\<lambda>_.
           res_map (\<lambda>conditions. \<lparr>ap_env = env, ap_limits = limits, ap_options = o', ap_groupColumns = groupColumns,
               ap_metricColumns = metricColumns, ap_conditions = conditions\<rparr>)
             (traverse (place_condition env index o') (ag_where o')))))"

section \<open>The order of the groups\<close>

fun compareKeys :: "sheet_env \<Rightarrow> bool \<Rightarrow> cell_scalar list \<Rightarrow> cell_scalar list \<Rightarrow> int" where
  "compareKeys env cs [] right = 0"
| "compareKeys env cs (a # left) right =
     (let b = (case right of [] \<Rightarrow> Cell_null | b # bs \<Rightarrow> b); ka = classify a; kb = classify b
      in if ka \<noteq> kb then kind_rank ka - kind_rank kb
         else (case comparable ka of
             Some kind \<Rightarrow> if compareWithin env kind a b cs \<noteq> 0 then compareWithin env kind a b cs
               else compareKeys env cs left (tl right)
           | None \<Rightarrow> if cell_json a \<noteq> cell_json b then (if cell_json a < cell_json b then -1 else 1)
               else compareKeys env cs left (tl right)))"

text \<open>The number a group is ordered by; anything but a number counts as minus infinity.\<close>

definition order_value :: "cell_scalar \<Rightarrow> jsnum" where
  "order_value v = (case v of Cell_number n \<Rightarrow> n | _ \<Rightarrow> Infinite True)"

definition compare_groups :: "sheet_env \<Rightarrow> aggregate_options \<Rightarrow> jsnum \<times> group_state \<Rightarrow> jsnum \<times> group_state \<Rightarrow> int" where
  "compare_groups env o' left right =
     (let keys = compareKeys env (ag_caseSensitive o') (gs_key (snd left)) (gs_key (snd right))
      in if ag_orderBy o' = Order_by_metric
         then (if \<not> num_eq (fst left) (fst right)
               then (if num_less (fst left) (fst right) \<noteq> ag_descending o' then -1 else 1) else keys)
         else if ag_descending o' then - keys else keys)"

text \<open>\<open>Array.prototype.sort\<close> is stable.\<close>

fun insert_ordered :: "('a \<Rightarrow> 'a \<Rightarrow> int) \<Rightarrow> 'a \<Rightarrow> 'a list \<Rightarrow> 'a list" where
  "insert_ordered cmp x [] = [x]"
| "insert_ordered cmp x (y # ys) = (if cmp x y \<le> 0 then x # y # ys else y # insert_ordered cmp x ys)"

fun stable_sort :: "('a \<Rightarrow> 'a \<Rightarrow> int) \<Rightarrow> 'a list \<Rightarrow> 'a list" where
  "stable_sort cmp [] = []"
| "stable_sort cmp (x # xs) = insert_ordered cmp x (stable_sort cmp xs)"

definition metricSlot :: "aggregate_options \<Rightarrow> nat" where
  "metricSlot o' = nat (the_or 1 (ag_orderByMetric o') - 1)"

text \<open>
  The comparison finishes the metric of both its groups and may throw; a list of at least two groups compares
  every one of them, a shorter list none.
\<close>

definition order_key :: "sheet_env \<Rightarrow> aggregate_options \<Rightarrow> group_state \<Rightarrow> sheet_error + jsnum \<times> group_state" where
  "order_key env o' g = (case (drop (metricSlot o') (ag_metrics o'), drop (metricSlot o') (gs_metrics g)) of
     (m # ms, st # sts) \<Rightarrow> res_map (\<lambda>v. (order_value v, g)) (finish env m st)
   | _ \<Rightarrow> Inl Internal_error)"

definition order_groups :: "sheet_env \<Rightarrow> aggregate_options \<Rightarrow> group_state list \<Rightarrow> sheet_error + group_state list" where
  "order_groups env o' groups =
     (if length groups < 2 then Inr groups
      else res_map (\<lambda>keyed. map snd (stable_sort (compare_groups env o') keyed))
        (if ag_orderBy o' = Order_by_metric then traverse (order_key env o') groups
         else Inr (map (\<lambda>g. (Infinite True, g)) groups)))"

section \<open>The result\<close>

record aggregate_column =
  ac_label :: string
  ac_letter :: "string option"
  ac_metric :: "metric_function option"
  ac_counted :: nat
  ac_skipped :: nat
  ac_kindUsed :: "comparable_kind option"

datatype aggregate_warning = Header_notice header_warning | Groups_collide "string list"
  | Numeric_text_excluded "(string \<times> nat) list" | Uncached_formulas nat

record aggregate_result =
  ar_sheet :: string
  ar_range :: string
  ar_usedRange :: string
  ar_headerRow :: nat
  ar_headerRowSource :: header_row_source
  ar_columns :: "aggregate_column list"
  ar_rows :: "cell_scalar list list"
  ar_groupCount :: nat
  ar_returnedGroups :: nat
  ar_scannedRows :: nat
  ar_matchedRows :: nat
  ar_returnedMatchedRows :: nat
  ar_omittedMatchedRows :: nat
  ar_firstScannedRow :: nat
  ar_blankRows :: nat
  ar_columnStats :: "(string \<times> (string \<times> nat) list) list"
  ar_truncated :: bool
  ar_warnings :: "aggregate_warning list"

definition letters_of :: "nat \<Rightarrow> sheet_error + string" where
  "letters_of column = of_range (columnToLetters column)"

definition group_column :: "grid_bounds \<Rightarrow> string option list \<Rightarrow> nat \<Rightarrow> sheet_error + aggregate_column" where
  "group_column bounds headers column = res_map (\<lambda>letter.
     \<lparr>ac_label = (case item_at headers (column - gb_left bounds + 1) of Some (Some h) \<Rightarrow> h | _ \<Rightarrow> letter), ac_letter = Some letter,
      ac_metric = None, ac_counted = 0, ac_skipped = 0, ac_kindUsed = None\<rparr>) (letters_of column)"

fun function_name :: "metric_function \<Rightarrow> string" where
  "function_name Fn_count = ''count''"
| "function_name Fn_countValues = ''countValues''"
| "function_name Fn_countDistinct = ''countDistinct''"
| "function_name Fn_sum = ''sum''"
| "function_name Fn_avg = ''avg''"
| "function_name Fn_min = ''min''"
| "function_name Fn_max = ''max''"
| "function_name Fn_stddev = ''stddev''"

definition metricLabel :: "metric_request \<Rightarrow> string" where
  "metricLabel m = (case mt_column m of None \<Rightarrow> function_name (mt_fn m)
     | Some c \<Rightarrow> function_name (mt_fn m) @ ''('' @ c @ '')'')"

definition slot_total :: "(metric_state \<Rightarrow> nat) \<Rightarrow> nat \<Rightarrow> group_state list \<Rightarrow> nat" where
  "slot_total f slot page = sum_list (map (\<lambda>g. case drop slot (gs_metrics g) of st # sts \<Rightarrow> f st | [] \<Rightarrow> 0) page)"

definition metric_result_column :: "scan_state \<Rightarrow> group_state list \<Rightarrow> nat \<times> (metric_request \<times> nat option) \<Rightarrow> sheet_error + aggregate_column" where
  "metric_result_column s page entry = (case entry of (slot, (m, column)) \<Rightarrow> res_map (\<lambda>letter.
     \<lparr>ac_label = metricLabel m, ac_letter = letter, ac_metric = Some (mt_fn m),
      ac_counted = slot_total ms_counted slot page, ac_skipped = slot_total ms_skipped slot page,
      ac_kindUsed = (if mt_fn m = Fn_min \<or> mt_fn m = Fn_max
        then Some (majorityKind (censusFor s (the_or 0 column))) else None)\<rparr>)
     (case column of None \<Rightarrow> Inr None | Some c \<Rightarrow> res_map Some (letters_of c)))"

definition group_row :: "sheet_env \<Rightarrow> metric_request list \<Rightarrow> group_state \<Rightarrow> sheet_error + cell_scalar list" where
  "group_row env metrics g = res_map (\<lambda>vs. map presentScalar (gs_key g) @ map presentScalar vs)
     (traverse (\<lambda>(m, st). finish env m st) (zip metrics (gs_metrics g)))"

definition result_rows :: "aggregate_plan \<Rightarrow> group_state list \<Rightarrow> sheet_error + cell_scalar list list" where
  "result_rows p page =
     (if page = [] \<and> ap_groupColumns p = []
      then Inr [map (\<lambda>m. if mt_fn m = Fn_count then Cell_number num_zero else Cell_null) (ag_metrics (ap_options p))]
      else traverse (group_row (ap_env p) (ag_metrics (ap_options p))) page)"

definition column_stats :: "scan_state \<Rightarrow> sheet_error + (string \<times> (string \<times> nat) list) list" where
  "column_stats s = traverse (\<lambda>(column, c). res_map (\<lambda>letter. (letter, reportCensus c)) (letters_of column))
     (filter (\<lambda>(column, c). reportCensus c \<noteq> []) (sc_census s))"

definition collision_label :: "sheet_env \<Rightarrow> group_state \<Rightarrow> string" where
  "collision_label env g = join_with [CHR 0x00] (map (\<lambda>v. case v of Cell_text s \<Rightarrow> en_fold env s | _ \<Rightarrow> cell_json v) (gs_key g))"

definition collision_entry :: "group_state \<Rightarrow> string" where
  "collision_entry g = join_with '' / '' (map (\<lambda>v. case v of Cell_text s \<Rightarrow> text_of_cell (presentScalar v) | _ \<Rightarrow> cell_json v) (gs_key g))"

definition add_collision :: "sheet_env \<Rightarrow> group_state \<Rightarrow> (string \<times> string list) list \<Rightarrow> (string \<times> string list) list" where
  "add_collision env g buckets = (let label = collision_label env g
     in AList.update label (set_add (collision_entry g) (the_or [] (map_of buckets label))) buckets)"

definition collisions :: "sheet_env \<Rightarrow> group_state list \<Rightarrow> aggregate_warning list" where
  "collisions env ordered = map (\<lambda>b. Groups_collide (snd b))
     (filter (\<lambda>b. length (snd b) > 1) (fold (add_collision env) ordered []))"

definition numeric_text_warning :: "aggregate_options \<Rightarrow> scan_state \<Rightarrow> sheet_error + aggregate_warning list" where
  "numeric_text_warning o' s =
     (let columns = filter (\<lambda>(column, c). cn_numericTexts c > 0) (sc_census s)
      in if ag_coerceText o' \<or> columns = [] then Inr []
         else res_map (\<lambda>named. [Numeric_text_excluded named])
           (traverse (\<lambda>(column, c). res_map (\<lambda>letter. (letter, cn_numericTexts c)) (letters_of column)) columns))"

definition report :: "aggregate_plan \<Rightarrow> sheet_view \<Rightarrow> grid_bounds \<Rightarrow> grid_bounds \<Rightarrow> string option list \<Rightarrow> scan_state
    \<Rightarrow> group_state list \<Rightarrow> sheet_error + aggregate_result" where
  "report p sheet used bounds headers s ordered =
     (let o' = ap_options p; env = ap_env p; page = take (ag_maxGroups o') ordered; returned = sum_list (map gs_rows page) in
      res_bind (traverse (group_column bounds headers) (ap_groupColumns p)) (\<lambda>groupResults.
      res_bind (traverse (metric_result_column s page) (enumerate 0 (ap_metricColumns p))) (\<lambda>metricResults.
      res_bind (result_rows p page) (\<lambda>rows.
      res_bind (column_stats s) (\<lambda>stats.
      res_bind (headerWarnings env sheet bounds (ag_headerRow o') headers (ag_range o' \<noteq> None) (ag_mergedCells o')) (\<lambda>notices.
      res_bind (numeric_text_warning o' s) (\<lambda>numeric.
      res_bind (of_range (formatRange bounds)) (\<lambda>rangeText.
      res_map (\<lambda>usedText. \<lparr>ar_sheet = sv_name sheet, ar_range = rangeText, ar_usedRange = usedText,
          ar_headerRow = ag_headerRow o', ar_headerRowSource = ag_headerRowSource o', ar_columns = groupResults @ metricResults,
          ar_rows = rows, ar_groupCount = length ordered, ar_returnedGroups = length page, ar_scannedRows = sc_scanned s,
          ar_matchedRows = sc_matched s, ar_returnedMatchedRows = returned, ar_omittedMatchedRows = sc_matched s - returned,
          ar_firstScannedRow = first_row bounds (ag_headerRow o'), ar_blankRows = sc_blank s, ar_columnStats = stats,
          ar_truncated = length ordered > ag_maxGroups o',
          ar_warnings = map Header_notice notices @ collisions env ordered @ numeric
            @ (if sc_uncached s > 0 then [Uncached_formulas (sc_uncached s)] else [])\<rparr>)
        (of_range (formatRange used))))))))))"

definition aggregateSheet :: "sheet_env \<Rightarrow> aggregate_limits \<Rightarrow> sheet_source \<Rightarrow> aggregate_options \<Rightarrow> sheet_error + aggregate_result" where
  "aggregateSheet env limits source o' =
     res_bind (check_request o') (\<lambda>_. res_bind (source (ag_sheetName o')) (\<lambda>sheet.
     res_bind (requireSheetBounds sheet) (\<lambda>used. res_bind (of_range (resolveRange used (ag_range o'))) (\<lambda>bounds.
     (let headers = readHeaderRow sheet bounds (ag_headerRow o') (values_only (ag_mergedCells o')) in
      res_bind (of_range (formatRange bounds)) (\<lambda>_.
      res_bind (buildColumnIndex env bounds (ag_headerRow o') headers) (\<lambda>index.
      res_bind (make_plan env limits o' index) (\<lambda>p.
      res_bind (scan_sheet p sheet bounds) (\<lambda>s.
      res_bind (order_groups env o' (map snd (sc_groups s))) (\<lambda>ordered.
        report p sheet used bounds headers s ordered))))))))))"

end
