(* ===== verification/Sheet_Totals.thy ===== *)
theory Sheet_Totals
  imports Sheet_Report "HOL-Library.Multiset"
begin

text \<open>
  What the totals of a sheet account for. A row is counted once: every matched row is in one group, and every
  metric of the group either counts it or skips it. The scan keeps this as an invariant (\<open>balanced\<close>), whatever
  reads the cells; the locale \<open>tally_reader\<close> is the contract of such a reader, and the reader of a stored row
  and the reader of a row in between are its interpretations.
\<close>

section \<open>One metric\<close>

definition seen :: "metric_state \<Rightarrow> nat" where
  "seen st = ms_counted st + ms_skipped st"

lemma accumulate_sum_seen: "accumulate_sum env st v = Inr st' \<Longrightarrow> seen st' = seen st"
  by (auto simp: accumulate_sum_def seen_def res_iff Let_def)

lemma accumulate_deviation_seen: "accumulate_deviation env st v = Inr st' \<Longrightarrow> seen st' = seen st"
  by (auto simp: accumulate_deviation_def seen_def res_iff Let_def)

lemma update_extreme_seen: "update_extreme env minimum cs st v = Inr st' \<Longrightarrow> seen st' = Suc (seen st)"
  by (auto simp: update_extreme_def seen_def res_iff Let_def split: option.splits prod.splits if_splits)

lemma metric_step_seen:
  assumes "metric_step env coerceText cs fn st raw = Inr st'"
  shows "seen st' = Suc (seen st)"
proof (cases "classify raw = Kind_empty")
  case True
  then show ?thesis using assms by (auto simp: metric_step_def seen_def)
next
  case False
  then obtain v where v: "(case fn of
       Fn_countValues \<Rightarrow> Inr (st\<lparr>ms_counted := ms_counted st + 1\<rparr>)
     | Fn_countDistinct \<Rightarrow> Inr (st\<lparr>ms_counted := ms_counted st + 1, ms_distinct := set_add (cell_json v) (ms_distinct st)\<rparr>)
     | Fn_min \<Rightarrow> update_extreme env True cs st v
     | Fn_max \<Rightarrow> update_extreme env False cs st v
     | _ \<Rightarrow> (case v of
         Cell_number n \<Rightarrow> res_bind (coerceNumber env v) (\<lambda>_.
           let st' = st\<lparr>ms_counted := ms_counted st + 1\<rparr>
           in if fn = Fn_sum \<or> fn = Fn_avg then accumulate_sum env st' n
              else if fn = Fn_stddev then accumulate_deviation env st' n else Inr st')
       | _ \<Rightarrow> Inr (st\<lparr>ms_skipped := ms_skipped st + 1\<rparr>))) = Inr st'"
    using assms by (auto simp: metric_step_def res_iff)
  have *: "seen (st\<lparr>ms_counted := ms_counted st + 1\<rparr>) = Suc (seen st)" by (simp add: seen_def)
  show ?thesis
  proof (cases "fn \<in> {Fn_countValues, Fn_countDistinct, Fn_min, Fn_max}")
    case True
    then show ?thesis using v by (elim insertE emptyE) (auto simp: seen_def update_extreme_seen [unfolded seen_def])
  next
    case other: False
    show ?thesis
    proof (cases v)
      case (Cell_number n)
      then show ?thesis using v other *
        by (cases fn) (auto simp: res_iff Let_def accumulate_sum_seen accumulate_deviation_seen)
    qed (use v other in \<open>cases fn; auto simp: seen_def\<close>)+
  qed
qed

section \<open>The groups\<close>

definition rows_of :: "(string \<times> group_state) list \<Rightarrow> nat" where
  "rows_of groups = sum_list (map (\<lambda>e. gs_rows (snd e)) groups)"

definition group_ok :: "aggregate_plan \<Rightarrow> group_state \<Rightarrow> bool" where
  "group_ok p g = (length (gs_metrics g) = length (ap_metricColumns p) \<and> list_all (\<lambda>st. seen st = gs_rows g) (gs_metrics g))"

definition tally :: "scan_state \<Rightarrow> nat \<times> nat \<times> nat \<times> (string \<times> group_state) list" where
  "tally s = (sc_scanned s, sc_matched s, sc_blank s, sc_groups s)"

definition balanced :: "aggregate_plan \<Rightarrow> scan_state \<Rightarrow> bool" where
  "balanced p s = (rows_of (sc_groups s) = sc_matched s \<and> list_all (\<lambda>e. group_ok p (snd e)) (sc_groups s)
     \<and> sc_matched s \<le> sc_scanned s \<and> sc_blank s \<le> sc_scanned s)"

lemma rows_of_simps [simp]: "rows_of [] = 0" "rows_of (e # es) = gs_rows (snd e) + rows_of es"
  by (simp_all add: rows_of_def)

lemma rows_of_update:
  "rows_of (AList.update k g' groups) + (case map_of groups k of Some g \<Rightarrow> gs_rows g | None \<Rightarrow> 0) = rows_of groups + gs_rows g'"
  by (induction groups) auto

lemma group_ok_update:
  "list_all (\<lambda>e. group_ok p (snd e)) groups \<Longrightarrow> group_ok p g \<Longrightarrow> list_all (\<lambda>e. group_ok p (snd e)) (AList.update k g groups)"
  by (induction groups) auto

lemma group_ok_new: "group_ok p (new_group p key)"
  by (simp add: group_ok_def new_group_def seen_def newMetricState_def list_all_length)

lemma groupFor_ok:
  assumes "groupFor p key s = Inr g" and "list_all (\<lambda>e. group_ok p (snd e)) (sc_groups s)"
  shows "group_ok p g" and "gs_rows g = (case map_of (sc_groups s) (keyOf key) of Some h \<Rightarrow> gs_rows h | None \<Rightarrow> 0)"
proof -
  show "group_ok p g"
  proof (cases "map_of (sc_groups s) (keyOf key)")
    case (Some h)
    then have "(keyOf key, g) \<in> set (sc_groups s)" using assms(1) by (simp add: groupFor_def map_of_SomeD)
    then show ?thesis using assms(2) by (auto simp: list_all_iff)
  qed (use assms(1) in \<open>auto simp: groupFor_def group_ok_new split: if_splits\<close>)
  show "gs_rows g = (case map_of (sc_groups s) (keyOf key) of Some h \<Rightarrow> gs_rows h | None \<Rightarrow> 0)"
    using assms(1) by (auto simp: groupFor_def new_group_def split: option.splits if_splits)
qed

lemma tally_iff: "tally s' = tally s \<longleftrightarrow> sc_scanned s' = sc_scanned s \<and> sc_matched s' = sc_matched s
    \<and> sc_blank s' = sc_blank s \<and> sc_groups s' = sc_groups s"
  by (auto simp: tally_def)

lemma balanced_tally: "tally s' = tally s \<Longrightarrow> balanced p s' = balanced p s"
  by (simp add: balanced_def tally_iff)

section \<open>Readers\<close>

locale tally_reader =
  fixes rd :: cell_reader
  assumes keeps_tally: "rd c s = Inr (v, s') \<Longrightarrow> tally s' = tally s"
begin

lemma matching_keeps_tally:
  assumes "row_matches p rd s = Inr (hit, s')"
  shows "tally s' = tally s"
proof -
  have "tally (snd (hit, s')) = tally s"
    using assms unfolding row_matches_def
    by (rule fold_res_invariant [where P = "\<lambda>st. tally (snd st) = tally s"])
      (auto simp: match_step_def res_iff split: prod.splits dest!: keeps_tally)
  then show ?thesis by simp
qed

lemma key_keeps_tally:
  assumes "read_key p rd s = Inr (key, s')"
  shows "tally s' = tally s"
proof -
  have "tally (snd (key, s')) = tally s"
    using assms unfolding read_key_def
    by (rule fold_res_invariant [where P = "\<lambda>st. tally (snd st) = tally s"])
      (auto simp: read_step_def res_iff split: prod.splits dest!: keeps_tally)
  then show ?thesis by simp
qed

lemma slot_step_seen:
  assumes "slot_step p rd acc ((m, column), st) = Inr acc'"
  obtains st' where "fst acc' = fst acc @ [st']" and "seen st' = Suc (seen st)" and "tally (snd acc') = tally (snd acc)"
proof (cases "mt_fn m = Fn_count")
  case True
  then show ?thesis using assms that [of "st\<lparr>ms_counted := ms_counted st + 1\<rparr>"]
    by (auto simp: slot_step_def seen_def)
next
  case False
  obtain c where column: "column = Some c" using assms False by (cases column; cases "mt_fn m") (auto simp: slot_step_def)
  have "slot_step p rd acc ((m, column), st) = res_bind (rd c (snd acc)) (\<lambda>(raw, s).
       res_map (\<lambda>st'. (fst acc @ [st'], count_kind c raw s))
         (metric_step (ap_env p) (ag_coerceText (ap_options p)) (ag_caseSensitive (ap_options p)) (mt_fn m) st raw))"
    using False column by (cases "mt_fn m") (auto simp: slot_step_def)
  with assms obtain raw s st' where rd: "rd c (snd acc) = Inr (raw, s)"
    and ms: "metric_step (ap_env p) (ag_coerceText (ap_options p)) (ag_caseSensitive (ap_options p)) (mt_fn m) st raw = Inr st'"
    and acc': "acc' = (fst acc @ [st'], count_kind c raw s)"
    by (auto simp: res_iff)
  show ?thesis
    by (rule that [of st'])
      (use metric_step_seen [OF ms] keeps_tally [OF rd] in \<open>simp_all add: acc' count_kind_def tally_iff\<close>)
qed

lemma slots_seen:
  assumes "fold_res (slot_step p rd) acc (zip columns states) = Inr acc'" and "length columns = length states"
    and "list_all (\<lambda>st. seen st = n) states" and "list_all (\<lambda>st. seen st = Suc n) (fst acc)"
  shows "tally (snd acc') = tally (snd acc) \<and> length (fst acc') = length (fst acc) + length states
    \<and> list_all (\<lambda>st. seen st = Suc n) (fst acc')"
  using assms
proof (induction columns states arbitrary: acc rule: list_induct2')
  case (4 mc columns st states)
  obtain m column where mc: "mc = (m, column)" by (cases mc)
  from "4.prems"(1) obtain acc1 where step: "slot_step p rd acc ((m, column), st) = Inr acc1"
    and rest: "fold_res (slot_step p rd) acc1 (zip columns states) = Inr acc'" by (auto simp: mc res_iff)
  from slot_step_seen [OF step] obtain st' where st': "fst acc1 = fst acc @ [st']" "seen st' = Suc (seen st)"
    "tally (snd acc1) = tally (snd acc)" by blast
  have "list_all (\<lambda>st. seen st = Suc n) (fst acc1)" using st' "4.prems"(3,4) by simp
  from "4.IH" [OF rest _ _ this] show ?case using "4.prems"(2,3) st' by simp
qed auto

lemma fold_row_balanced:
  assumes "fold_row p rd s = Inr s'" and "balanced p s" and "sc_matched s < sc_scanned s"
  shows "balanced p s' \<and> sc_scanned s' = sc_scanned s"
proof -
  obtain hit s1 where m: "row_matches p rd s = Inr (hit, s1)" using assms(1) by (auto simp: fold_row_def res_iff)
  note t1 = matching_keeps_tally [OF m]
  show ?thesis
  proof (cases hit)
    case False
    then have "s' = s1" using assms(1) m by (simp add: fold_row_def)
    then show ?thesis using t1 assms(2) balanced_tally [OF t1] by (simp add: tally_iff)
  next
    case True
    define s2 where "s2 = s1\<lparr>sc_matched := sc_matched s1 + 1\<rparr>"
    from assms(1) m True obtain key s3 g states s4 where key: "read_key p rd s2 = Inr (key, s3)"
      and g: "groupFor p key s3 = Inr g"
      and slots: "fold_res (slot_step p rd) ([], s3) (zip (ap_metricColumns p) (gs_metrics g)) = Inr (states, s4)"
      and s': "s' = put_group (g\<lparr>gs_rows := gs_rows g + 1, gs_metrics := states\<rparr>) (keyOf key) s4"
      by (auto simp: fold_row_def Let_def res_iff s2_def)
    note t3 = key_keeps_tally [OF key]
    have ok3: "list_all (\<lambda>e. group_ok p (snd e)) (sc_groups s3)" and sum3: "rows_of (sc_groups s3) = sc_matched s"
      and m3: "sc_matched s3 = Suc (sc_matched s)" "sc_scanned s3 = sc_scanned s" "sc_blank s3 = sc_blank s"
      using t3 t1 assms(2) by (auto simp: tally_iff s2_def balanced_def)
    note gok = groupFor_ok [OF g ok3]
    have n: "list_all (\<lambda>st. seen st = gs_rows g) (gs_metrics g)" "length (ap_metricColumns p) = length (gs_metrics g)"
      using gok(1) by (simp_all add: group_ok_def)
    have after: "tally s4 = tally s3 \<and> length states = length (gs_metrics g) \<and> list_all (\<lambda>st. seen st = Suc (gs_rows g)) states"
      using slots_seen [OF slots n(2) n(1)] by simp
    let ?g' = "g\<lparr>gs_rows := gs_rows g + 1, gs_metrics := states\<rparr>"
    have "group_ok p ?g'" using after n(2) by (simp add: group_ok_def)
    then have "list_all (\<lambda>e. group_ok p (snd e)) (sc_groups s')"
      using ok3 after by (simp add: s' put_group_def tally_iff group_ok_update)
    moreover have "rows_of (sc_groups s') = Suc (sc_matched s)"
      using rows_of_update [of "keyOf key" ?g' "sc_groups s3"] sum3 gok(2) after by (simp add: s' put_group_def tally_iff)
    ultimately show ?thesis
      using assms(2,3) after m3 by (simp add: balanced_def s' put_group_def tally_iff)
  qed
qed

end

lemma visit_keeps: "visit_cell p s = Inr s' \<Longrightarrow> tally s' = tally s"
  by (auto simp: visit_cell_def Let_def tally_iff split: if_splits)

interpretation stored_row: tally_reader "read_cell p view" for p view
proof unfold_locales
  fix c s v s'
  assume "read_cell p view c s = Inr (v, s')"
  then obtain s1 where "visit_cell p s = Inr s1" and "s' = s1 \<or> s' = s1\<lparr>sc_uncached := sc_uncached s1 + 1\<rparr>"
    by (cases "readGrid (snapshot_at view c) (ag_mergedCells (ap_options p))") (auto simp: read_cell_def res_iff split: if_splits)
  then show "tally s' = tally s" using visit_keeps by (auto simp: tally_iff)
qed

interpretation absent_row: tally_reader read_null
  by unfold_locales (simp add: read_null_def)

section \<open>Rows in between\<close>

text \<open>The reference: one row that is not stored, folded as any other row is.\<close>

definition absent_step :: "aggregate_plan \<Rightarrow> scan_state \<Rightarrow> sheet_error + scan_state" where
  "absent_step p s = fold_row p read_null (s\<lparr>sc_scanned := sc_scanned s + 1, sc_blank := sc_blank s + 1\<rparr>)"

lemma update_twice [simp]: "AList.update k v (AList.update k w al) = AList.update k v al"
  by (induction al) auto

lemma update_commute:
  "k \<noteq> k' \<Longrightarrow> k \<in> fst ` set al \<Longrightarrow> AList.update k v (AList.update k' w al) = AList.update k' w (AList.update k v al)"
  by (induction al) auto

definition bump :: "nat \<Rightarrow> nat \<Rightarrow> (nat \<times> census) list \<Rightarrow> (nat \<times> census) list" where
  "bump n c al = (let held = (case map_of al c of Some x \<Rightarrow> x | None \<Rightarrow> emptyCensus)
     in AList.update c (held\<lparr>cn_nulls := cn_nulls held + n\<rparr>) al)"

lemma bump_add: "bump b c (bump a c al) = bump (a + b) c al"
  by (simp add: bump_def Let_def update_conv' add.assoc)

lemma bump_keys: "c \<in> fst ` set al \<Longrightarrow> c \<in> fst ` set (bump n c' al)"
  by (simp add: bump_def Let_def dom_update)

lemma bump_has: "c \<in> fst ` set (bump n c al)"
  by (simp add: bump_def Let_def dom_update)

lemma bump_commute:
  assumes "c \<in> fst ` set al"
  shows "bump b c (bump a c' al) = bump a c' (bump b c al)"
proof (cases "c = c'")
  case True
  then show ?thesis by (simp add: bump_add add.commute)
next
  case False
  then show ?thesis using update_commute [OF False assms] by (simp add: bump_def Let_def update_conv')
qed

lemma bump_past:
  "c \<in> fst ` set al \<Longrightarrow> foldl (\<lambda>x c'. bump a c' x) (bump b c al) cs = bump b c (foldl (\<lambda>x c'. bump a c' x) al cs)"
proof (induction cs arbitrary: al)
  case (Cons c' cs)
  show ?case using Cons.IH [OF bump_keys [OF Cons.prems]] bump_commute [OF Cons.prems] by simp
qed simp

lemma bumps_add:
  "foldl (\<lambda>x c. bump b c x) (foldl (\<lambda>x c. bump a c x) al cs) cs = foldl (\<lambda>x c. bump (a + b) c x) al cs"
proof (induction cs arbitrary: al)
  case (Cons c cs)
  show ?case using bump_past [OF bump_has, of a b c a al cs] Cons.IH [of "bump b c (bump a c al)"] by (simp add: bump_add)
qed simp

definition bump_slot :: "nat \<Rightarrow> (metric_request \<times> nat option) \<times> metric_state \<Rightarrow> metric_state" where
  "bump_slot n slot = (case slot of ((m, column), st) \<Rightarrow>
     if mt_fn m = Fn_count then st\<lparr>ms_counted := ms_counted st + n\<rparr> else st\<lparr>ms_skipped := ms_skipped st + n\<rparr>)"

definition census_columns :: "(metric_request \<times> nat option) list \<Rightarrow> nat list" where
  "census_columns columns = map (\<lambda>e. the_or 0 (snd e)) (filter (\<lambda>e. mt_fn (fst e) \<noteq> Fn_count) columns)"

lemma absent_slots:
  "foldl (absent_slot n) (acc, s) slots
     = (acc @ map (bump_slot n) slots, s\<lparr>sc_census := foldl (\<lambda>x c. bump n c x) (sc_census s) (census_columns (map fst slots))\<rparr>)"
proof (induction slots arbitrary: acc s)
  case (Cons slot slots)
  obtain m column st where slot: "slot = ((m, column), st)" by (metis surj_pair)
  show ?case using Cons
    by (simp add: slot absent_slot_def bump_slot_def census_columns_def bump_def censusFor_def Let_def)
qed (simp add: census_columns_def)

lemma metric_step_null: "metric_step env coerceText cs fn st Cell_null = Inr (st\<lparr>ms_skipped := ms_skipped st + 1\<rparr>)"
  by (simp add: metric_step_def)

lemma slot_step_null:
  assumes "metric_placed (fst slot)"
  shows "slot_step p read_null acc slot = Inr (absent_slot 1 acc slot)"
proof -
  obtain m column st where slot: "slot = ((m, column), st)" by (metis surj_pair)
  show ?thesis
  proof (cases "mt_fn m = Fn_count")
    case True
    then show ?thesis by (simp add: slot slot_step_def absent_slot_def)
  next
    case False
    then obtain c where c: "column = Some c" using assms by (auto simp: slot metric_placed_def)
    show ?thesis using False
      by (cases "mt_fn m") (simp_all add: slot c slot_step_def absent_slot_def read_null_def metric_step_null the_or_def
          count_kind_def record_cell_def Let_def)
  qed
qed

lemma slots_null:
  "list_all (\<lambda>slot. metric_placed (fst slot)) slots \<Longrightarrow> fold_res (slot_step p read_null) acc slots = Inr (foldl (absent_slot 1) acc slots)"
  by (induction slots arbitrary: acc) (simp_all add: slot_step_null)

definition null_matches :: "aggregate_plan \<Rightarrow> sheet_error + bool" where
  "null_matches p = fold_res (\<lambda>hit entry. res_map (\<lambda>h. if ag_matchAll (ap_options p) then hit \<and> h else hit \<or> h)
       (evaluate (ap_env p) (fst entry) Cell_null (predicate_of (ap_options p))))
     (if ap_conditions p = [] then True else ag_matchAll (ap_options p)) (ap_conditions p)"

lemma match_null_fold:
  "fold_res (match_step p read_null) (hit, s) entries = res_map (\<lambda>h. (h, s))
     (fold_res (\<lambda>hit entry. res_map (\<lambda>h. if ag_matchAll (ap_options p) then hit \<and> h else hit \<or> h)
       (evaluate (ap_env p) (fst entry) Cell_null (predicate_of (ap_options p)))) hit entries)"
proof (induction entries arbitrary: hit)
  case (Cons entry entries)
  then show ?case
    by (cases "evaluate (ap_env p) (fst entry) Cell_null (predicate_of (ap_options p))") (simp_all add: match_step_def read_null_def)
qed simp

lemma row_matches_null: "row_matches p read_null s = res_map (\<lambda>h. (h, s)) (null_matches p)"
  by (simp add: row_matches_def null_matches_def match_null_fold)

lemma read_key_null: "read_key p read_null s = Inr (map (\<lambda>c. Cell_null) (ap_groupColumns p), s)"
proof -
  have "fold_res (read_step read_null) (acc, s) columns = Inr (acc @ map (\<lambda>c. Cell_null) columns, s)" for acc columns
    by (induction columns arbitrary: acc) (simp_all add: read_step_def read_null_def)
  then show ?thesis by (simp add: read_key_def)
qed

definition plan_placed :: "aggregate_plan \<Rightarrow> bool" where
  "plan_placed p = list_all metric_placed (ap_metricColumns p)"

lemma placed_zip: "plan_placed p \<Longrightarrow> list_all (\<lambda>slot. metric_placed (fst slot)) (zip (ap_metricColumns p) states)"
  by (auto simp: plan_placed_def list_all_iff dest: set_zip_leftD)

text \<open>\<open>n\<close> rows like \<open>s\<close> folded into the group \<open>g\<close>.\<close>

definition absorb :: "aggregate_plan \<Rightarrow> nat \<Rightarrow> group_state \<Rightarrow> string \<Rightarrow> scan_state \<Rightarrow> scan_state" where
  "absorb p n g k s = s\<lparr>sc_scanned := sc_scanned s + n, sc_blank := sc_blank s + n, sc_matched := sc_matched s + n,
     sc_census := foldl (\<lambda>x c. bump n c x) (sc_census s) (census_columns (map fst (zip (ap_metricColumns p) (gs_metrics g)))),
     sc_groups := AList.update k (g\<lparr>gs_rows := gs_rows g + n, gs_metrics := map (bump_slot n) (zip (ap_metricColumns p) (gs_metrics g))\<rparr>)
       (sc_groups s)\<rparr>"

lemma groupFor_groups: "sc_groups s' = sc_groups s \<Longrightarrow> groupFor p key s' = groupFor p key s"
  by (simp add: groupFor_def)

lemma fold_absent_alt:
  "n > 0 \<Longrightarrow> fold_absent p n s = res_bind (null_matches p) (\<lambda>h.
     if \<not> h then Inr (s\<lparr>sc_scanned := sc_scanned s + n, sc_blank := sc_blank s + n\<rparr>)
     else (let key = map (\<lambda>c. Cell_null) (ap_groupColumns p)
       in res_map (\<lambda>g. absorb p n g (keyOf key) s) (groupFor p key s)))"
  by (cases "null_matches p")
    (auto simp: fold_absent_def Let_def row_matches_null absent_slots absorb_def put_group_def groupFor_def split: option.splits)

lemma absent_step_alt: "plan_placed p \<Longrightarrow> absent_step p s = fold_absent p 1 s"
  by (cases "null_matches p")
    (auto simp: absent_step_def fold_row_def fold_absent_alt Let_def row_matches_null read_key_null slots_null [OF placed_zip]
      absent_slots absorb_def put_group_def groupFor_def split: option.splits)

lemma zip_bumped: "zip columns (map (bump_slot a) (zip columns states)) = map (\<lambda>e. (fst e, bump_slot a e)) (zip columns states)"
proof (induction columns states rule: list_induct2')
  case (4 c cs st sts)
  then show ?case by simp
qed simp_all

lemma bump_slot_add: "bump_slot b (fst e, bump_slot a e) = bump_slot (a + b) e"
  by (cases e) (simp add: bump_slot_def split: prod.split)

lemma absorb_twice:
  assumes "g' = g\<lparr>gs_rows := gs_rows g + a, gs_metrics := map (bump_slot a) (zip (ap_metricColumns p) (gs_metrics g))\<rparr>"
  shows "absorb p b g' k (absorb p a g k s) = absorb p (a + b) g k s"
proof -
  have z: "zip (ap_metricColumns p) (gs_metrics g') = map (\<lambda>e. (fst e, bump_slot a e)) (zip (ap_metricColumns p) (gs_metrics g))"
    by (simp add: assms zip_bumped)
  have c: "map fst (zip (ap_metricColumns p) (gs_metrics g')) = map fst (zip (ap_metricColumns p) (gs_metrics g))"
    unfolding z by simp
  have m: "map (bump_slot b) (zip (ap_metricColumns p) (gs_metrics g')) = map (bump_slot (a + b)) (zip (ap_metricColumns p) (gs_metrics g))"
    unfolding z by (simp add: bump_slot_add)
  show ?thesis unfolding absorb_def c m by (simp add: bumps_add assms add.assoc)
qed

lemma fold_absent_add:
  assumes "a > 0" and "b > 0"
  shows "fold_absent p (a + b) s = res_bind (fold_absent p a s) (fold_absent p b)"
proof (cases "null_matches p")
  case (Inr h)
  let ?key = "map (\<lambda>c. Cell_null) (ap_groupColumns p)"
  show ?thesis
  proof (cases h)
    case False
    then show ?thesis using assms by (simp add: fold_absent_alt Inr add.assoc)
  next
    case True
    show ?thesis
    proof (cases "groupFor p ?key s")
      case (Inr g)
      let ?g = "g\<lparr>gs_rows := gs_rows g + a, gs_metrics := map (bump_slot a) (zip (ap_metricColumns p) (gs_metrics g))\<rparr>"
      have "groupFor p ?key (absorb p a g (keyOf ?key) s) = Inr ?g"
        by (simp add: groupFor_def absorb_def update_conv')
      then show ?thesis using assms True \<open>null_matches p = Inr h\<close> Inr absorb_twice [OF refl]
        by (simp add: fold_absent_alt Let_def)
    qed (use assms True Inr in \<open>simp add: fold_absent_alt\<close>)
  qed
qed (use assms in \<open>simp add: fold_absent_alt\<close>)

lemma fold_absent_is_stepwise:
  assumes "plan_placed p"
  shows "fold_absent p n s = fold_res (\<lambda>s u. absent_step p s) s (replicate n ())"
proof (induction n arbitrary: s)
  case 0
  then show ?case by (simp add: fold_absent_def)
next
  case (Suc n)
  show ?case
  proof (cases "n = 0")
    case True
    then show ?thesis by (cases "absent_step p s") (simp_all add: absent_step_alt [OF assms])
  next
    case False
    then have "fold_absent p (Suc n) s = res_bind (fold_absent p 1 s) (fold_absent p n)"
      using fold_absent_add [of 1 n p s] by simp
    then show ?thesis by (cases "fold_absent p 1 s") (simp_all add: absent_step_alt [OF assms] Suc)
  qed
qed

end
