(* ===== verification/Sheet_Accounts.thy ===== *)
theory Sheet_Accounts
  imports Sheet_Totals
begin

text \<open>
  The properties of \<open>aggregateSheet\<close>: its result accounts for every row of the range, and the rows without a stored
  cell count as if each had been read. The lemmas about a whole sheet are proved for any \<open>sheet_reader\<close> and used
  for the workbook's.
\<close>

section \<open>The scan keeps the balance\<close>

lemma absent_step_balanced:
  assumes "absent_step p s = Inr s'" and "balanced p s"
  shows "balanced p s' \<and> sc_scanned s' = Suc (sc_scanned s)"
proof -
  let ?s = "s\<lparr>sc_scanned := sc_scanned s + 1, sc_blank := sc_blank s + 1\<rparr>"
  have "balanced p ?s" "sc_matched ?s < sc_scanned ?s" using assms(2) by (auto simp: balanced_def)
  from absent_row.fold_row_balanced [OF assms(1) [unfolded absent_step_def] this] show ?thesis by simp
qed

lemma blank_scan_tally: "blank_scan p view columns s = Inr (blank, s') \<Longrightarrow> tally s' = tally s"
proof (induction columns arbitrary: s)
  case (Cons c columns)
  then obtain s1 where v: "visit_cell p s = Inr s1" by (auto simp: res_iff)
  show ?case
  proof (cases "blank_scan p view columns s1 = Inr (blank, s')")
    case True
    then show ?thesis using Cons.IH [OF True] visit_keeps [OF v] by simp
  next
    case False
    then have "s' = s1" using Cons.prems v by (auto split: option.splits if_splits)
    then show ?thesis using visit_keeps [OF v] by simp
  qed
qed simp

lemma scan_row_balanced:
  assumes "scan_row p sheet b s row = Inr s'" and "balanced p s"
  shows "balanced p s' \<and> sc_scanned s' = Suc (sc_scanned s)"
proof -
  define columns where "columns = (case sv_rowAt sheet row of None \<Rightarrow> [] | Some v \<Rightarrow>
     rw_populatedColumns v (gb_left b) (gb_right b) (ag_mergedCells (ap_options p) = Merge_repeat))"
  obtain s1 blank s2 where v: "visit_cell p (s\<lparr>sc_scanned := sc_scanned s + 1\<rparr>) = Inr s1"
    and bl: "blank_scan p (sv_rowAt sheet row) columns s1 = Inr (blank, s2)"
    and f: "fold_row p (read_cell p (sv_rowAt sheet row)) (if blank then s2\<lparr>sc_blank := sc_blank s2 + 1\<rparr> else s2) = Inr s'"
    using assms(1) by (auto simp: scan_row_def Let_def res_iff columns_def)
  have t: "tally s2 = tally (s\<lparr>sc_scanned := sc_scanned s + 1\<rparr>)"
    using visit_keeps [OF v] blank_scan_tally [OF bl] by simp
  let ?s = "if blank then s2\<lparr>sc_blank := sc_blank s2 + 1\<rparr> else s2"
  have "balanced p ?s \<and> sc_matched ?s < sc_scanned ?s \<and> sc_scanned ?s = Suc (sc_scanned s)"
    using t assms(2) by (auto simp: tally_iff balanced_def)
  with stored_row.fold_row_balanced [OF f] show ?thesis by simp
qed

lemma steps_balanced:
  assumes step: "\<And>s x s'. f s x = Inr s' \<Longrightarrow> balanced p s \<Longrightarrow> balanced p s' \<and> sc_scanned s' = Suc (sc_scanned s)"
  shows "fold_res f s xs = Inr s' \<Longrightarrow> balanced p s \<Longrightarrow> balanced p s' \<and> sc_scanned s' = sc_scanned s + length xs"
proof (induction xs arbitrary: s)
  case (Cons x xs)
  then obtain s1 where "f s x = Inr s1" "fold_res f s1 xs = Inr s'" by (auto simp: res_iff)
  with Cons.IH [of s1] step [of s x s1] Cons.prems(2) show ?case by simp
qed simp

lemma start_balanced: "balanced p start_scan"
  by (simp add: balanced_def start_scan_def)

lemma scan_sheet_accounts:
  assumes "scan_sheet p sheet b = Inr s" and "plan_placed p"
    and few: "\<And>first. length (sv_populatedRows sheet first (gb_bottom b) (ag_mergedCells (ap_options p) = Merge_repeat)) \<le> Suc (gb_bottom b) - first"
  shows "balanced p s" and "sc_scanned s = Suc (gb_bottom b) - first_row b (ag_headerRow (ap_options p))"
proof -
  define first where "first = first_row b (ag_headerRow (ap_options p))"
  define rows where "rows = sv_populatedRows sheet first (gb_bottom b) (ag_mergedCells (ap_options p) = Merge_repeat)"
  obtain s1 where s1: "fold_res (scan_row p sheet b) start_scan rows = Inr s1"
    and s: "fold_absent p (Suc (gb_bottom b) - first - sc_scanned s1) s1 = Inr s"
    using assms(1) by (auto simp: scan_sheet_def Let_def res_iff first_def rows_def)
  have b1: "balanced p s1 \<and> sc_scanned s1 = length rows"
    using steps_balanced [OF scan_row_balanced s1 start_balanced] by (simp add: start_scan_def)
  have "balanced p s \<and> sc_scanned s = sc_scanned s1 + (Suc (gb_bottom b) - first - sc_scanned s1)"
    using steps_balanced [where f = "\<lambda>s u. absent_step p s", OF absent_step_balanced s [unfolded fold_absent_is_stepwise [OF assms(2)]]] b1 by simp
  moreover have "length rows \<le> Suc (gb_bottom b) - first" using few by (simp add: rows_def)
  ultimately show "balanced p s" "sc_scanned s = Suc (gb_bottom b) - first_row b (ag_headerRow (ap_options p))"
    using b1 by (simp_all add: first_def)
qed

section \<open>The order is a permutation\<close>

lemma insert_ordered_mset [simp]: "mset (insert_ordered cmp x ys) = add_mset x (mset ys)"
  by (induction ys) auto

lemma stable_sort_mset [simp]: "mset (stable_sort cmp xs) = mset xs"
  by (induction xs) auto

lemma order_groups_mset:
  assumes "order_groups env o' groups = Inr ordered"
  shows "mset ordered = mset groups"
proof (cases "length groups < 2")
  case True
  then show ?thesis using assms by (simp add: order_groups_def)
next
  case False
  then obtain keyed where ordered: "ordered = map snd (stable_sort (compare_groups env o') keyed)"
    and keyed: "(if ag_orderBy o' = Order_by_metric then traverse (order_key env o') groups
         else Inr (map (\<lambda>g. (Infinite True, g)) groups)) = Inr keyed"
    using assms by (auto simp: order_groups_def res_iff)
  have "map snd keyed = groups"
  proof (cases "ag_orderBy o' = Order_by_metric")
    case True
    then have "list_all2 (\<lambda>g e. order_key env o' g = Inr e) groups keyed" using keyed by (simp add: traverse_Inr_iff)
    then show ?thesis
      by (induction rule: list_all2_induct) (auto simp: order_key_def res_iff split: list.splits)
  qed (use keyed in \<open>auto simp: o_def\<close>)
  then have "mset groups = image_mset snd (mset keyed)" by (metis mset_map)
  then show ?thesis by (simp add: ordered mset_map)
qed

section \<open>The result\<close>

lemma slot_total_page:
  assumes "\<forall>g\<in>set page. slot < length (gs_metrics g) \<and> list_all (\<lambda>st. seen st = gs_rows g) (gs_metrics g)"
  shows "slot_total ms_counted slot page + slot_total ms_skipped slot page = sum_list (map gs_rows page)"
  using assms
proof (induction page)
  case (Cons g page)
  then obtain st sts where d: "drop slot (gs_metrics g) = st # sts" by (cases "drop slot (gs_metrics g)") auto
  have "st \<in> set (gs_metrics g)" using d by (metis in_set_dropD list.set_intros(1))
  then have "seen st = gs_rows g" using Cons.prems by (auto simp: list_all_iff)
  then show ?case using Cons d by (simp add: slot_total_def seen_def)
qed (simp add: slot_total_def)

lemma make_plan_facts:
  assumes "make_plan env limits o' index = Inr p"
  shows "plan_placed p" and "ap_options p = o'"
  using assms by (auto simp: make_plan_def res_iff plan_placed_def)

lemma group_column_metric: "group_column bounds headers column = Inr c \<Longrightarrow> ac_metric c = None"
  by (auto simp: group_column_def res_iff)

lemma traverse_member: "traverse f xs = Inr ys \<Longrightarrow> y \<in> set ys \<Longrightarrow> \<exists>x\<in>set xs. f x = Inr y"
proof -
  assume "traverse f xs = Inr ys" and "y \<in> set ys"
  then obtain i where "i < length xs" "f (xs ! i) = Inr (ys ! i)" "y = ys ! i"
    by (auto simp: traverse_Inr_iff list_all2_conv_all_nth in_set_conv_nth)
  then show ?thesis using nth_mem by blast
qed

lemma report_facts:
  assumes r: "report p sheet used bounds headers s ordered = Inr r" and "balanced p s"
    and perm: "mset ordered = mset (map snd (sc_groups s))"
  shows "ar_scannedRows r = sc_scanned s" and "ar_firstScannedRow r = first_row bounds (ag_headerRow (ap_options p))"
    and "ar_matchedRows r \<le> ar_scannedRows r" and "ar_blankRows r \<le> ar_scannedRows r"
    and "ar_matchedRows r = ar_returnedMatchedRows r + ar_omittedMatchedRows r"
    and "\<not> ar_truncated r \<Longrightarrow> ar_omittedMatchedRows r = 0"
    and "c \<in> set (ar_columns r) \<Longrightarrow> ac_metric c \<noteq> None \<Longrightarrow> ac_counted c + ac_skipped c = ar_returnedMatchedRows r"
proof -
  define page where "page = take (ag_maxGroups (ap_options p)) ordered"
  obtain groupResults metricResults where
    gc: "traverse (group_column bounds headers) (ap_groupColumns p) = Inr groupResults"
    and mc: "traverse (metric_result_column s page) (enumerate 0 (ap_metricColumns p)) = Inr metricResults"
    and ar: "ar_scannedRows r = sc_scanned s" "ar_matchedRows r = sc_matched s" "ar_blankRows r = sc_blank s"
      "ar_firstScannedRow r = first_row bounds (ag_headerRow (ap_options p))"
      "ar_returnedMatchedRows r = sum_list (map gs_rows page)"
      "ar_omittedMatchedRows r = sc_matched s - sum_list (map gs_rows page)"
      "ar_columns r = groupResults @ metricResults" "ar_truncated r = (length ordered > ag_maxGroups (ap_options p))"
    using r unfolding report_def Let_def page_def by (auto simp: res_iff)
  have all: "sum_list (map gs_rows ordered) = sc_matched s"
  proof -
    have "sum_list (map gs_rows ordered) = sum_mset (image_mset gs_rows (mset ordered))" by (simp add: sum_mset_sum_list [symmetric])
    also have "\<dots> = rows_of (sc_groups s)" unfolding perm by (simp add: rows_of_def sum_mset_sum_list [symmetric] o_def image_mset.compositionality)
    finally show ?thesis using assms(2) by (simp add: balanced_def)
  qed
  have split: "sum_list (map gs_rows ordered) = sum_list (map gs_rows page) + sum_list (map gs_rows (drop (ag_maxGroups (ap_options p)) ordered))"
    unfolding page_def by (metis append_take_drop_id map_append sum_list.append)
  show "ar_scannedRows r = sc_scanned s" "ar_firstScannedRow r = first_row bounds (ag_headerRow (ap_options p))" by (simp_all add: ar)
  show "ar_matchedRows r \<le> ar_scannedRows r" "ar_blankRows r \<le> ar_scannedRows r" using assms(2) by (simp_all add: ar balanced_def)
  show "ar_matchedRows r = ar_returnedMatchedRows r + ar_omittedMatchedRows r" using all split by (simp add: ar)
  show "ar_omittedMatchedRows r = 0" if "\<not> ar_truncated r" using that all by (simp add: ar page_def)
  show "ac_counted c + ac_skipped c = ar_returnedMatchedRows r" if c: "c \<in> set (ar_columns r)" "ac_metric c \<noteq> None"
  proof -
    have "c \<notin> set groupResults"
    proof
      assume "c \<in> set groupResults"
      then obtain column where "group_column bounds headers column = Inr c" using traverse_member [OF gc] by auto
      from group_column_metric [OF this] c(2) show False by simp
    qed
    then have "c \<in> set metricResults" using c(1) by (simp add: ar)
    from traverse_member [OF mc this] obtain entry where
      e: "entry \<in> set (enumerate 0 (ap_metricColumns p))" "metric_result_column s page entry = Inr c" by (elim bexE)
    obtain slot m column where entry: "entry = (slot, (m, column))" by (metis surj_pair)
    have slot: "slot < length (ap_metricColumns p)" and c': "metric_result_column s page (slot, (m, column)) = Inr c"
      using e by (auto simp: entry in_set_enumerate_eq)
    have "set page \<subseteq> set ordered" by (simp add: page_def set_take_subset)
    moreover have "set ordered = snd ` set (sc_groups s)" using perm by (metis set_map set_mset_mset)
    moreover have "\<forall>g\<in>snd ` set (sc_groups s). slot < length (gs_metrics g) \<and> list_all (\<lambda>st. seen st = gs_rows g) (gs_metrics g)"
      using assms(2) slot by (auto simp: balanced_def group_ok_def list_all_iff)
    ultimately have "\<forall>g\<in>set page. slot < length (gs_metrics g) \<and> list_all (\<lambda>st. seen st = gs_rows g) (gs_metrics g)"
      by (metis (no_types, lifting) subsetD)
    from slot_total_page [OF this] show ?thesis using c' by (auto simp: metric_result_column_def res_iff ar)
  qed
qed

context sheet_reader
begin

lemma aggregate_facts:
  assumes "aggregateSheet env limits source o' = Inr r" and "source (ag_sheetName o') = Inr view"
  shows "(\<exists>used bounds. sv_bounds view = Some used \<and> of_range (resolveRange used (ag_range o')) = Inr bounds
      \<and> ar_firstScannedRow r = first_row bounds (ag_headerRow o') \<and> ar_scannedRows r = Suc (gb_bottom bounds) - ar_firstScannedRow r)
    \<and> ar_matchedRows r \<le> ar_scannedRows r \<and> ar_blankRows r \<le> ar_scannedRows r
    \<and> ar_matchedRows r = ar_returnedMatchedRows r + ar_omittedMatchedRows r
    \<and> (\<not> ar_truncated r \<longrightarrow> ar_omittedMatchedRows r = 0)
    \<and> (\<forall>c\<in>set (ar_columns r). ac_metric c \<noteq> None \<longrightarrow> ac_counted c + ac_skipped c = ar_returnedMatchedRows r)"
proof -
  obtain used bounds index p s ordered where used: "sv_bounds view = Some used"
    and bounds: "of_range (resolveRange used (ag_range o')) = Inr bounds"
    and p: "make_plan env limits o' index = Inr p" and s: "scan_sheet p view bounds = Inr s"
    and ordered: "order_groups env o' (map snd (sc_groups s)) = Inr ordered"
    and r: "report p view used bounds (readHeaderRow view bounds (ag_headerRow o') (values_only (ag_mergedCells o'))) s ordered = Inr r"
    using assms unfolding aggregateSheet_def Let_def
    by (auto simp: res_iff requireSheetBounds_def split: option.splits)
  note plan = make_plan_facts [OF p]
  note scan = scan_sheet_accounts [OF s plan(1) reported_rows_few]
  note facts = report_facts [OF r scan(1) order_groups_mset [OF ordered]]
  show ?thesis
  proof (intro conjI ballI impI)
    show "\<exists>used bounds. sv_bounds view = Some used \<and> of_range (resolveRange used (ag_range o')) = Inr bounds
      \<and> ar_firstScannedRow r = first_row bounds (ag_headerRow o') \<and> ar_scannedRows r = Suc (gb_bottom bounds) - ar_firstScannedRow r"
      using used bounds facts(1,2) scan(2) plan(2) by (intro exI [of _ used] exI [of _ bounds]) simp
  qed (fact facts(3-7))+
qed

end

end
