(* ===== verification/Spec2Isabelle.thy ===== *)
theory Spec2Isabelle
  imports Cache_Properties Selection Visibility Composer_Properties Tool_Consistency Schema_Defs Body_Properties Error_Properties Dispatch_Headers Dispatch_Properties Visibility_Caching Schema_References
    Composer_Types Cache_Refinement Guarded_Http Sql_Guard Pool Cell_Range Search_Properties Catalog_Properties Meta_Properties
    Nest_Curation Nest_Properties Approval_Properties Approval_Readers Sheet_Accounts
begin

text \<open>
  A verification library for this repository: software that lets an agent call an application's HTTP
  operations, read documents and query databases through the Model Context Protocol, and the chat product
  built over it. Paths below are relative to the repository's root.

  \<^bold>\<open>The program and its parts.\<close>
  A host application describes its operations as endpoint descriptors. The HTTP core
  (\<open>packages/http/core/src\<close>) selects and names them, curates their arguments, builds the definition and the
  request template of each tool, and indexes the resulting catalog for search. An agent talks to three
  meta-tools: it searches the catalog, loads a definition and invokes a tool. An invocation is composed from
  the template into a request, dispatched through the application's own pipeline under a deadline, and its
  answer is mapped, filtered for leaks and bounded before the agent sees it. The NestJS SDK
  (\<open>sdks/nestjs/src\<close>) binds these parts to an application. The chat product (\<open>products/chat\<close>) decides which
  calls of a model run without asking the reader and talks to servers its readers name. The document and
  database servers (\<open>packages/servers\<close>, \<open>packages/cores\<close>) guard what they read.

  \<^bold>\<open>Theories and sources.\<close>

  \<^item> \<open>Prelude\<close>, \<open>JS_String\<close>, \<open>Json_Value\<close>, \<open>Regex\<close>: errors as sums, insertion-ordered maps and sets, the
    JavaScript string operations, JSON values with the doubles as shortest decimals, and regular expressions
    with an executable matcher and their languages.
  \<^item> \<open>Response_Cache\<close>: \<open>cache/\<close>. \<open>Cache_Contract\<close> states the cache interface as the locale \<open>scoped_cache\<close> and
    interprets it on the code's cache; \<open>Cache_Properties\<close> has the index invariant and the invalidation laws,
    \<open>Cache_LRU\<close> the recency order, \<open>Cache_Refinement\<close> the refinement of an abstract forgetful store.
  \<^item> \<open>Endpoint\<close>, \<open>Selection\<close>, \<open>Naming\<close>, \<open>Curation\<close>: \<open>generated/endpoint-descriptor.ts\<close>, \<open>selection.ts\<close> with
    \<open>route-glob.ts\<close>, \<open>naming.ts\<close>, \<open>curation.ts\<close>.
  \<^item> \<open>Wire_Encoding\<close> and \<open>Wire_Laws\<close>: \<open>wire-encoding.ts\<close>, with the locale \<open>wire_encoder\<close> (what is written can
    be read back and holds no separator) interpreted on both encoders.
  \<^item> \<open>Request_Template\<close>, \<open>Request_Body\<close>, \<open>Request_Composer\<close>, \<open>Body_Writer\<close>: the files of the same names.
    \<open>Template_Facts\<close>, \<open>Composer_Path\<close>, \<open>Composer_Args\<close>, \<open>Composer_Values\<close>, \<open>Composer_Wire\<close>,
    \<open>Composer_Headers\<close>, \<open>Composer_Types\<close>, \<open>Composer_Properties\<close> and \<open>Body_Properties\<close> prove what a composed request is:
    arguments stay in the slots of the template, name no header and no query pair of their own, and carry the
    agent's value or the host's fill.
  \<^item> \<open>Tool\<close>, \<open>Tool_Consistency\<close>, \<open>Schema_Defs\<close>: \<open>tool.ts\<close> and \<open>tool-definition.ts\<close>, and that the published
    schema and the composer agree.
  \<^item> \<open>Schema_Simplification\<close>, \<open>Schema_Termination\<close>, \<open>Schema_References\<close>: \<open>schema-simplification.ts\<close>.
  \<^item> \<open>Leak_Filter\<close>, \<open>Error_Mapping\<close>, \<open>Error_Properties\<close>: \<open>leak-filter.ts\<close> and \<open>error-mapping.ts\<close>.
  \<^item> \<open>Search_Tokens\<close>, \<open>Search_Index\<close>, \<open>Search_Order\<close>, \<open>Search_Build\<close>, \<open>Search_Scan\<close>, \<open>Search_Properties\<close>:
    \<open>search.ts\<close>; the indexed search equals a scan of the documents.
  \<^item> \<open>Card\<close>, \<open>Catalog\<close>, \<open>Catalog_Properties\<close>, \<open>Meta_Tools\<close>, \<open>Meta_Properties\<close>: \<open>card.ts\<close>, \<open>invoke-guard.ts\<close>,
    \<open>invoke-arguments.ts\<close>, \<open>catalog/\<close> and \<open>meta-tools/\<close>.
  \<^item> \<open>Visibility\<close>, \<open>Visibility_Provider\<close>, \<open>Visibility_Caching\<close>: \<open>visibility.ts\<close>, \<open>cache/single-flight.ts\<close> and
    the SDK's \<open>visibility/\<close>; concurrent asks are a machine whose steps are the moments between two awaits.
  \<^item> \<open>Deadline\<close>, \<open>Dispatch\<close>, \<open>Dispatch_Headers\<close>, \<open>Dispatch_Properties\<close>: \<open>invoke/deadline.ts\<close>,
    \<open>dispatcher.ts\<close> and \<open>synthetic-context.ts\<close>; the handler, the clock and the caller act in any order.
  \<^item> \<open>Nest_Catalog\<close>, \<open>Nest_Curation\<close>: \<open>catalog.ts\<close>, \<open>options.ts\<close> and \<open>decorators.ts\<close> of the SDK, the ladder of
    declarations; \<open>Nest_Tools\<close>, \<open>Nest_Properties\<close>: \<open>meta-tools.ts\<close> and \<open>invoke-result-mapper.ts\<close>, where the
    catalog, the composer, the dispatcher, the error mapper and the emitter meet.
  \<^item> \<open>Approval_Decision\<close>, \<open>Approval_Properties\<close>: \<open>products/chat/contracts/src/tools\<close> and \<open>integration\<close>.
    \<open>Approval_Store\<close>, \<open>Approval_Service\<close>: \<open>products/chat/api/src/connections/tool-approval.repository.ts\<close>,
    \<open>tool-approval.service.ts\<close>, \<open>remote-tool-names.ts\<close>, the handlers and \<open>chat/tool-approval-gate.service.ts\<close>.
    \<open>Approval_Log\<close> states what a table promises over a history as the locale \<open>row_log\<close>; \<open>Approval_Consent\<close> and
    \<open>Approval_Trace\<close> interpret it on the three consent tables and trace every approval to the reader;
    \<open>Approval_Readers\<close> has non-interference and the round trip from a remembered answer to the gate.
  \<^item> \<open>Network_Address\<close>, \<open>Guarded_Http\<close>: \<open>common/network-address.ts\<close>, \<open>connections/guarded-http.ts\<close>.
  \<^item> \<open>Pool\<close>: \<open>packages/cores/db-core/src/pool\<close>; \<open>Sql_Guard\<close>: \<open>packages/servers/mssql-mcp/src/dialect/guard.ts\<close>;
    \<open>Cell_Range\<close>: \<open>packages/servers/excel-mcp/src/grid/range.ts\<close>.

  \<^bold>\<open>How code becomes definitions.\<close> A function keeps its name unless HOL has taken it. Objects are
  records, unions are datatypes, a \<open>Map\<close> is an association list in insertion order, a thrown error is
  \<open>Inl\<close>, a promise that several steps share is a state machine. JavaScript strings are lists of code
  units below 256. Numbers are integers or naturals where the code checks that they are, decimals in
  JSON values, and reals in the scores of the search. Moments are milliseconds.

  \<^bold>\<open>Parameters.\<close> Code that is not part of the repository is an argument of the definitions that use it:
  \<open>JSON.parse\<close>, SHA-256, Unicode normalisation, DNS, the backend's pipeline, the value providers and policies
  of a host, the metadata that decorators leave on classes. What a theorem needs of one is among its
  hypotheses, and its witness instantiates it with a concrete function.

  \<^bold>\<open>Termination and bounds.\<close> Loops are structural recursion or have a measure (\<open>visit\<close> and \<open>search\<close> of the
  type graph, \<open>route_parts\<close>, \<open>mask\<close>, \<open>lower_bound_loop\<close>). The schema writer takes fuel;
  \<open>simplifySchema_terminates\<close> proves that some amount suffices for every graph and that more changes
  nothing. The deadline is proved to end every dispatch, whatever the other parties do.

  \<^bold>\<open>Not modelled.\<close> The .NET SDK, which is a second implementation of the same specification; the endpoint
  discovery of the NestJS SDK, which reads the reflection metadata of three libraries at each step; OpenAPI
  ingestion; the readers of workbooks, XML and PDF, which sit on third-party parsers, of whose arithmetic
  only the ranges are here; introspection and drivers of databases; file access, which is decided by the
  operating system and a native addon; the OAuth client, sessions, streaming and the Codex runner of the
  chat API, which are database and network effects; user interfaces, generated types, build files, samples
  and experiments. Interleavings of two requests inside one call of the consent repository are not modelled
  either: a call is one step, as its single statement or transaction makes it, except that the lifetime of a
  grant and the conversation it is limited to are read before it is written.
\<close>

end
